(* ===== verification/Js_Prelude.thy ===== *)
theory Js_Prelude
  imports Complex_Main "HOL-Library.Char_ord" "HOL-Library.List_Lexorder"
    "HOL-Library.Product_Lexorder" "HOL-Library.Multiset" "HOL-Library.AList"
begin

text \<open>
  The part of the JavaScript language and its standard library that the modelled sources use:
  values of type \<open>unknown\<close> (\<open>jsval\<close>), string methods, objects used as dictionaries
  (\<open>Record<string, T>\<close>, association lists in the enumeration order of \<open>Object.entries\<close>),
  \<open>Set\<close> (insertion-ordered lists), \<open>Array.prototype.sort\<close> with a comparator, timestamps
  (\<open>Date.parse\<close> and \<open>toISOString\<close>) and template-literal number printing. The generic lemmas
  about them are shared by every component; the collections \<open>js_simps\<close> and \<open>io_simps\<close> carry
  them into the component proofs.

  Strings are \<^typ>\<open>string\<close>, lists of code units below 256. Numbers are exact rationals
  together with the three non-finite values; rounding of doubles is not modelled.
\<close>

named_theorems js_simps \<open>rewrite rules for the JavaScript library functions\<close>
named_theorems io_simps \<open>rewrite rules for the store monad and its primitive operations\<close>

section \<open>Values\<close>

datatype jsnum = Fin rat | PosInf | NegInf | NaN

datatype jsval =
    JUndef
  | JNull
  | JBool bool
  | JNum jsnum
  | JStr string
  | JArr "jsval list"
  | JObj "(string \<times> jsval) list"

definition isPlainObject :: "jsval \<Rightarrow> bool" where
  "isPlainObject v = (case v of JObj _ \<Rightarrow> True | _ \<Rightarrow> False)"

text \<open>\<open>value.field\<close> on a plain object: \<open>undefined\<close> when the property is absent.\<close>

definition jprop :: "jsval \<Rightarrow> string \<Rightarrow> jsval" where
  "jprop v k = (case v of JObj fs \<Rightarrow> (case map_of fs k of None \<Rightarrow> JUndef | Some x \<Rightarrow> x) | _ \<Rightarrow> JUndef)"

definition jkeys :: "jsval \<Rightarrow> string list" where
  "jkeys v = (case v of JObj fs \<Rightarrow> map fst fs | _ \<Rightarrow> [])"

definition isFiniteNum :: "jsval \<Rightarrow> bool" where
  "isFiniteNum v = (case v of JNum (Fin _) \<Rightarrow> True | _ \<Rightarrow> False)"

definition isNumber :: "jsval \<Rightarrow> bool" where
  "isNumber v = (case v of JNum _ \<Rightarrow> True | _ \<Rightarrow> False)"

definition isString :: "jsval \<Rightarrow> bool" where
  "isString v = (case v of JStr _ \<Rightarrow> True | _ \<Rightarrow> False)"

definition numVal :: "jsval \<Rightarrow> rat" where
  "numVal v = (case v of JNum (Fin r) \<Rightarrow> r | _ \<Rightarrow> 0)"

definition strVal :: "jsval \<Rightarrow> string" where
  "strVal v = (case v of JStr s \<Rightarrow> s | _ \<Rightarrow> [])"

text \<open>\<open>Number.isInteger\<close> on a finite number.\<close>

definition ratIsInteger :: "rat \<Rightarrow> bool" where
  "ratIsInteger r \<longleftrightarrow> of_int \<lfloor>r\<rfloor> = r"

text \<open>Multiplication, \<open>Math.pow\<close> with a natural exponent, and \<open>Math.min\<close>.\<close>

fun num_sign :: "jsnum \<Rightarrow> rat" where
  "num_sign (Fin r) = sgn r"
| "num_sign PosInf = 1"
| "num_sign NegInf = -1"
| "num_sign NaN = 0"

fun num_mul :: "jsnum \<Rightarrow> jsnum \<Rightarrow> jsnum" where
  "num_mul (Fin a) (Fin b) = Fin (a * b)"
| "num_mul a b =
     (if a = NaN \<or> b = NaN then NaN
      else if num_sign a * num_sign b = 0 then NaN
      else if num_sign a * num_sign b > 0 then PosInf else NegInf)"

fun num_pow :: "jsnum \<Rightarrow> nat \<Rightarrow> jsnum" where
  "num_pow a 0 = Fin 1"
| "num_pow a (Suc n) = num_mul a (num_pow a n)"

fun num_le :: "jsnum \<Rightarrow> jsnum \<Rightarrow> bool" where
  "num_le (Fin a) (Fin b) = (a \<le> b)"
| "num_le a b = (a \<noteq> NaN \<and> b \<noteq> NaN \<and> (a = b \<or> a = NegInf \<or> b = PosInf))"

definition num_min :: "jsnum \<Rightarrow> jsnum \<Rightarrow> jsnum" where
  "num_min a b = (if a = NaN \<or> b = NaN then NaN else if num_le a b then a else b)"

section \<open>Strings\<close>

definition js_space :: "char \<Rightarrow> bool" where
  "js_space c \<longleftrightarrow> of_char c \<in> {9, 10, 11, 12, 13, 32, 160 :: nat}"

definition js_trim :: "string \<Rightarrow> string" where
  "js_trim s = rev (dropWhile js_space (rev (dropWhile js_space s)))"

text \<open>\<open>toLowerCase\<close> on code units below 256: ASCII and the Latin-1 letters.\<close>

definition js_lower_char :: "char \<Rightarrow> char" where
  "js_lower_char c =
     (let n = of_char c :: nat
      in if (65 \<le> n \<and> n \<le> 90) \<or> (192 \<le> n \<and> n \<le> 222 \<and> n \<noteq> 215) then char_of (n + 32) else c)"

definition js_lower :: "string \<Rightarrow> string" where
  "js_lower s = map js_lower_char s"

fun js_startsWith :: "string \<Rightarrow> string \<Rightarrow> bool" where
  "js_startsWith s [] = True"
| "js_startsWith [] (p # ps) = False"
| "js_startsWith (c # s) (p # ps) = (c = p \<and> js_startsWith s ps)"

fun js_includes :: "string \<Rightarrow> string \<Rightarrow> bool" where
  "js_includes [] p = (p = [])"
| "js_includes (c # s) p = (js_startsWith (c # s) p \<or> js_includes s p)"

text \<open>\<open>split\<close> at a one-character separator: always at least one piece.\<close>

fun js_split :: "char \<Rightarrow> string \<Rightarrow> string list" where
  "js_split d [] = [[]]"
| "js_split d (c # s) =
     (if c = d then [] # js_split d s
      else (case js_split d s of [] \<Rightarrow> [[c]] | p # ps \<Rightarrow> (c # p) # ps))"

fun js_join :: "string \<Rightarrow> string list \<Rightarrow> string" where
  "js_join sep [] = []"
| "js_join sep [x] = x"
| "js_join sep (x # y # ys) = x @ sep @ js_join sep (y # ys)"

definition is_digit :: "char \<Rightarrow> bool" where
  "is_digit c \<longleftrightarrow> (48 \<le> (of_char c :: nat) \<and> of_char c \<le> (57 :: nat))"

definition digit_val :: "char \<Rightarrow> nat" where
  "digit_val c = of_char c - 48"

fun digits_val :: "string \<Rightarrow> nat \<Rightarrow> nat" where
  "digits_val [] acc = acc"
| "digits_val (c # s) acc = digits_val s (10 * acc + digit_val c)"

fun show_nat :: "nat \<Rightarrow> string" where
  "show_nat n = (if n < 10 then [char_of (48 + n)] else show_nat (n div 10) @ [char_of (48 + n mod 10)])"

declare show_nat.simps [simp del]

definition show_int :: "int \<Rightarrow> string" where
  "show_int i = (if i < 0 then CHR ''-'' # show_nat (nat (- i)) else show_nat (nat i))"

text \<open>A double quote, which HOL string literals cannot hold.\<close>

definition dq :: string where
  "dq = [CHR 0x22]"

definition quoted :: "string \<Rightarrow> string" where
  "quoted s = dq @ s @ dq"

section \<open>Optional values\<close>

text \<open>\<open>x ?? d\<close> on an optional value, \<open>x?.f\<close> is \<^const>\<open>map_option\<close> or \<^const>\<open>Option.bind\<close>.\<close>

definition orElse :: "'a option \<Rightarrow> 'a \<Rightarrow> 'a" where
  "orElse x d = (case x of None \<Rightarrow> d | Some y \<Rightarrow> y)"

lemma orElse_simps [simp, js_simps]: "orElse None d = d" "orElse (Some y) d = y"
  by (simp_all add: orElse_def)

text \<open>An optional string used as a truth value: neither absent nor empty.\<close>

definition truthy :: "string option \<Rightarrow> bool" where
  "truthy x = (case x of None \<Rightarrow> False | Some s \<Rightarrow> s \<noteq> [])"

lemma truthy_simps [simp, js_simps]: "truthy None = False" "truthy (Some s) = (s \<noteq> [])"
  by (simp_all add: truthy_def)

section \<open>Objects as dictionaries\<close>

text \<open>
  \<open>Record<string, T>\<close> is the list of its own enumerable properties in the order
  \<open>Object.entries\<close> yields them: keys that are array indices first, ascending, then the other
  keys in insertion order.
\<close>

type_synonym 'v js_record = "(string \<times> 'v) list"

definition array_index :: "string \<Rightarrow> nat option" where
  "array_index s =
     (if s \<noteq> [] \<and> list_all is_digit s \<and> (hd s \<noteq> CHR ''0'' \<or> length s = 1)
         \<and> digits_val s 0 < 4294967295
      then Some (digits_val s 0) else None)"

definition key_before :: "string \<Rightarrow> string \<Rightarrow> bool" where
  "key_before k k' =
     (case array_index k of None \<Rightarrow> False
      | Some n \<Rightarrow> (case array_index k' of None \<Rightarrow> True | Some m \<Rightarrow> n < m))"

definition rec_get :: "'v js_record \<Rightarrow> string \<Rightarrow> 'v option" where
  "rec_get r k = map_of r k"

definition rec_keys :: "'v js_record \<Rightarrow> string list" where
  "rec_keys r = map fst r"

definition rec_values :: "'v js_record \<Rightarrow> 'v list" where
  "rec_values r = map snd r"

fun rec_insert :: "string \<Rightarrow> 'v \<Rightarrow> 'v js_record \<Rightarrow> 'v js_record" where
  "rec_insert k v [] = [(k, v)]"
| "rec_insert k v ((k', v') # r) =
     (if key_before k k' then (k, v) # (k', v') # r else (k', v') # rec_insert k v r)"

fun rec_replace :: "string \<Rightarrow> 'v \<Rightarrow> 'v js_record \<Rightarrow> 'v js_record" where
  "rec_replace k v [] = []"
| "rec_replace k v ((k', v') # r) = (if k = k' then (k, v) # r else (k', v') # rec_replace k v r)"

definition rec_put :: "string \<Rightarrow> 'v \<Rightarrow> 'v js_record \<Rightarrow> 'v js_record" where
  "rec_put k v r = (if k \<in> set (rec_keys r) then rec_replace k v r else rec_insert k v r)"

definition rec_wf :: "'v js_record \<Rightarrow> bool" where
  "rec_wf r = distinct (rec_keys r)"

lemma map_of_rec_insert:
  "k \<notin> fst ` set r \<Longrightarrow> map_of (rec_insert k v r) k' = (if k' = k then Some v else map_of r k')"
  by (induction k v r rule: rec_insert.induct) auto

lemma map_of_rec_replace:
  "k \<in> fst ` set r \<Longrightarrow> map_of (rec_replace k v r) k' = (if k' = k then Some v else map_of r k')"
proof (induction k v r rule: rec_replace.induct)
  case (2 k v k2 v2 r)
  then show ?case by (cases "k = k2") (auto split: if_splits)
qed simp

lemma rec_get_put [simp, js_simps]:
  "rec_get (rec_put k v r) k' = (if k' = k then Some v else rec_get r k')"
  by (simp add: rec_get_def rec_put_def rec_keys_def map_of_rec_insert map_of_rec_replace)

lemma keys_rec_replace [simp]: "map fst (rec_replace k v r) = map fst r"
  by (induction k v r rule: rec_replace.induct) auto

lemma set_keys_rec_insert [simp]: "fst ` set (rec_insert k v r) = insert k (fst ` set r)"
  by (induction k v r rule: rec_insert.induct) auto

lemma distinct_rec_insert:
  "k \<notin> fst ` set r \<Longrightarrow> distinct (map fst r) \<Longrightarrow> distinct (map fst (rec_insert k v r))"
proof (induction k v r rule: rec_insert.induct)
  case (2 k v k' v' r)
  have "fst ` set (rec_insert k v r) = insert k (fst ` set r)" by simp
  with 2 show ?case by auto
qed simp

lemma rec_wf_put [simp]: "rec_wf r \<Longrightarrow> rec_wf (rec_put k v r)"
  by (simp add: rec_wf_def rec_put_def rec_keys_def distinct_rec_insert)

lemma set_rec_keys_put: "set (rec_keys (rec_put k v r)) = insert k (set (rec_keys r))"
proof (cases "k \<in> fst ` set r")
  case True
  have "set (map fst (rec_replace k v r)) = set (map fst r)" by simp
  with True show ?thesis by (auto simp: rec_put_def rec_keys_def)
next
  case False
  then show ?thesis by (simp add: rec_put_def rec_keys_def)
qed

lemma rec_keys_put_present:
  "k \<in> set (rec_keys r) \<Longrightarrow> rec_keys (rec_put k v r) = rec_keys r"
  by (simp add: rec_put_def rec_keys_def)

lemma rec_get_in_keys: "rec_get r k = Some v \<Longrightarrow> k \<in> set (rec_keys r)"
  by (auto simp: rec_get_def rec_keys_def dest: map_of_SomeD intro: rev_image_eqI)

lemma rec_get_None_iff: "rec_get r k = None \<longleftrightarrow> k \<notin> set (rec_keys r)"
  by (simp add: rec_get_def rec_keys_def map_of_eq_None_iff)

lemma rec_get_values: "rec_get r k = Some v \<Longrightarrow> v \<in> set (rec_values r)"
  by (auto simp: rec_get_def rec_values_def dest: map_of_SomeD intro: rev_image_eqI)

lemma rec_values_get: "rec_wf r \<Longrightarrow> v \<in> set (rec_values r) \<Longrightarrow> \<exists>k. rec_get r k = Some v"
  by (auto simp: rec_get_def rec_values_def rec_wf_def rec_keys_def)

lemma rec_values_iff: "rec_wf r \<Longrightarrow> v \<in> set (rec_values r) \<longleftrightarrow> (\<exists>k. rec_get r k = Some v)"
  using rec_values_get rec_get_values by metis

text \<open>
  The dictionary interface the components rely on, and what follows from it for a sequence of
  writes.
\<close>

locale dictionary =
  fixes get :: "'m \<Rightarrow> 'k \<Rightarrow> 'v option"
    and put :: "'k \<Rightarrow> 'v \<Rightarrow> 'm \<Rightarrow> 'm"
    and wf :: "'m \<Rightarrow> bool"
  assumes get_put: "get (put k v m) k' = (if k' = k then Some v else get m k')"
    and wf_put: "wf m \<Longrightarrow> wf (put k v m)"
begin

lemma wf_fold_put: "wf m \<Longrightarrow> wf (fold (\<lambda>k. put k (f k)) ks m)"
  by (induction ks arbitrary: m) (auto simp: wf_put)

lemma get_fold_put:
  "get (fold (\<lambda>k. put k (f k)) ks m) k' = (if k' \<in> set ks then Some (f k') else get m k')"
  by (induction ks arbitrary: m) (auto simp: get_put)

end

interpretation js_dict: dictionary rec_get rec_put rec_wf
  by unfold_locales auto

section \<open>Sets\<close>

text \<open>A \<open>Set\<close> of strings iterates in insertion order: a list without duplicates.\<close>

definition set_add :: "'a \<Rightarrow> 'a list \<Rightarrow> 'a list" where
  "set_add x xs = (if x \<in> set xs then xs else xs @ [x])"

definition uniq :: "'a list \<Rightarrow> 'a list" where
  "uniq xs = fold set_add xs []"

lemma set_set_add [simp]: "set (set_add x xs) = insert x (set xs)"
  by (auto simp: set_add_def)

lemma distinct_set_add [simp]: "distinct xs \<Longrightarrow> distinct (set_add x xs)"
  by (auto simp: set_add_def)

lemma set_fold_set_add: "set (fold set_add xs acc) = set xs \<union> set acc"
  by (induction xs arbitrary: acc) auto

lemma distinct_fold_set_add: "distinct acc \<Longrightarrow> distinct (fold set_add xs acc)"
  by (induction xs arbitrary: acc) auto

lemma set_uniq [simp]: "set (uniq xs) = set xs"
  by (simp add: uniq_def set_fold_set_add)

lemma distinct_uniq [simp]: "distinct (uniq xs)"
  by (simp add: uniq_def distinct_fold_set_add)

section \<open>Sorting with a comparator\<close>

text \<open>
  \<open>Array.prototype.sort\<close> is stable; for a comparator that is a total preorder the stable
  sorted permutation is unique, and \<open>js_sort\<close> computes it.
\<close>

fun js_insort :: "('a \<Rightarrow> 'a \<Rightarrow> int) \<Rightarrow> 'a \<Rightarrow> 'a list \<Rightarrow> 'a list" where
  "js_insort cmp x [] = [x]"
| "js_insort cmp x (y # ys) = (if cmp x y \<le> 0 then x # y # ys else y # js_insort cmp x ys)"

definition js_sort :: "('a \<Rightarrow> 'a \<Rightarrow> int) \<Rightarrow> 'a list \<Rightarrow> 'a list" where
  "js_sort cmp xs = foldr (js_insort cmp) xs []"

lemma mset_js_insort: "mset (js_insort cmp x xs) = add_mset x (mset xs)"
  by (induction cmp x xs rule: js_insort.induct) auto

lemma mset_js_sort [simp]: "mset (js_sort cmp xs) = mset xs"
  by (induction xs) (auto simp: js_sort_def mset_js_insort)

lemma set_js_sort [simp]: "set (js_sort cmp xs) = set xs"
  by (metis mset_js_sort set_mset_mset)

lemma distinct_js_sort [simp]: "distinct (js_sort cmp xs) = distinct xs"
  by (metis mset_js_sort mset_eq_imp_distinct_iff)

lemma length_js_sort [simp]: "length (js_sort cmp xs) = length xs"
  by (metis mset_js_sort size_mset)

text \<open>What the code relies on: a comparator is a total preorder.\<close>

locale comparator =
  fixes cmp :: "'a \<Rightarrow> 'a \<Rightarrow> int"
  assumes total: "cmp x y \<le> 0 \<or> cmp y x \<le> 0"
    and trans: "cmp x y \<le> 0 \<Longrightarrow> cmp y z \<le> 0 \<Longrightarrow> cmp x z \<le> 0"
begin

lemma sorted_insort:
  "sorted_wrt (\<lambda>x y. cmp x y \<le> 0) xs \<Longrightarrow> sorted_wrt (\<lambda>x y. cmp x y \<le> 0) (js_insort cmp x xs)"
proof (induction xs)
  case (Cons y ys)
  have "set (js_insort cmp x ys) = insert x (set ys)"
    by (metis mset_js_insort set_mset_add_mset_insert set_mset_mset)
  with Cons show ?case using total [of x y] by (auto dest: trans)
qed simp

lemma sorted_sort: "sorted_wrt (\<lambda>x y. cmp x y \<le> 0) (js_sort cmp xs)"
  by (induction xs) (auto simp: js_sort_def sorted_insort)

lemma sorted_wrt_unique:
  assumes antisym: "\<And>x y. cmp x y \<le> 0 \<Longrightarrow> cmp y x \<le> 0 \<Longrightarrow> x = y"
  shows "sorted_wrt (\<lambda>x y. cmp x y \<le> 0) xs \<Longrightarrow> sorted_wrt (\<lambda>x y. cmp x y \<le> 0) ys
    \<Longrightarrow> mset xs = mset ys \<Longrightarrow> xs = ys"
proof (induction xs arbitrary: ys)
  case (Cons x xs)
  obtain y ys' where ys: "ys = y # ys'"
    using Cons.prems(3) by (cases ys) auto
  have "x \<in> set ys" "y \<in> set (x # xs)"
    using Cons.prems(3) ys by (metis list.set_intros(1) set_mset_mset)+
  then have "x = y"
    using Cons.prems(1,2) ys by (auto intro: antisym)
  with Cons ys show ?case by auto
qed simp

text \<open>A comparator that is also antisymmetric makes the result independent of the input order.\<close>

lemma sort_order_independent:
  assumes "\<And>x y. cmp x y \<le> 0 \<Longrightarrow> cmp y x \<le> 0 \<Longrightarrow> x = y" and "mset xs = mset ys"
  shows "js_sort cmp xs = js_sort cmp ys"
  by (rule sorted_wrt_unique) (auto simp: sorted_sort assms)

end

text \<open>A \<open>Map\<close> whose keys are computed from its values.\<close>

definition keyed :: "('a \<Rightarrow> 'k) \<Rightarrow> ('k \<times> 'a) list \<Rightarrow> bool" where
  "keyed f es \<longleftrightarrow> distinct (map fst es) \<and> (\<forall>(k, s)\<in>set es. k = f s)"

lemma set_update_subset: "set (AList.update k v es) \<subseteq> insert (k, v) (set es)"
  by (induction es) auto

lemma keyed_update: "keyed f es \<Longrightarrow> keyed f (AList.update (f s) s es)"
  using set_update_subset [of "f s" s es] by (auto simp: keyed_def distinct_update)

lemma keyed_keys: "keyed f es \<Longrightarrow> map fst es = map f (map snd es)"
  by (auto simp: keyed_def)

section \<open>Timestamps\<close>

text \<open>
  A timestamp string: \<open>Iso t\<close> is the string \<open>toISOString\<close> writes for the instant \<open>t\<close>
  (milliseconds), \<open>Other s r\<close> any other string with what \<open>Date.parse\<close> reads from it
  (\<open>None\<close> for \<open>NaN\<close>).
\<close>

datatype timestamp = Iso int | Other string "int option"

fun date_parse :: "timestamp \<Rightarrow> int option" where
  "date_parse (Iso t) = Some t"
| "date_parse (Other s r) = r"

text \<open>
  \<open>new Date(Date.parse(t) + seconds * 1000).toISOString()\<close>: the time value is truncated to an
  integer, and \<open>toISOString\<close> throws (\<open>None\<close>) on a time value that is not finite or outside
  the range of dates.
\<close>

definition trunc_rat :: "rat \<Rightarrow> int" where
  "trunc_rat r = (if r < 0 then - \<lfloor>- r\<rfloor> else \<lfloor>r\<rfloor>)"

definition MAX_TIME :: rat where
  "MAX_TIME = 8640000000000000"

definition iso_plus_seconds :: "timestamp \<Rightarrow> jsnum \<Rightarrow> timestamp option" where
  "iso_plus_seconds t s =
     (case date_parse t of
        None \<Rightarrow> None
      | Some ms \<Rightarrow> (case s of
          Fin r \<Rightarrow> (let v = of_int ms + r * 1000
                    in if \<bar>v\<bar> \<le> MAX_TIME then Some (Iso (trunc_rat v)) else None)
        | _ \<Rightarrow> None))"

section \<open>Lists\<close>

fun index_of :: "'a \<Rightarrow> 'a list \<Rightarrow> nat option" where
  "index_of x [] = None"
| "index_of x (y # ys) = (if x = y then Some 0 else map_option Suc (index_of x ys))"

lemma index_of_Some: "index_of x xs = Some i \<Longrightarrow> i < length xs \<and> xs ! i = x"
  by (induction xs arbitrary: i) (auto split: if_splits)

lemma index_of_None: "index_of x xs = None \<longleftrightarrow> x \<notin> set xs"
  by (induction xs) auto

text \<open>Fields free of the separator are determined by the joined string.\<close>

lemma sep_inject: "x \<notin> set a \<Longrightarrow> x \<notin> set b \<Longrightarrow> a @ x # s = b @ x # t \<longleftrightarrow> a = b \<and> s = t"
proof (induction a arbitrary: b)
  case Nil
  then show ?case by (cases b) auto
next
  case (Cons y a)
  then show ?case by (cases b) auto
qed

lemma find_hit: "find P xs = Some x \<Longrightarrow> x \<in> set xs \<and> P x"
  by (auto simp: find_Some_iff)

text \<open>\<open>find\<close> over the reversed list: the last element satisfying the predicate.\<close>

definition find_last :: "('a \<Rightarrow> bool) \<Rightarrow> 'a list \<Rightarrow> 'a option" where
  "find_last p xs = find p (rev xs)"

fun pairs_of :: "'a list \<Rightarrow> ('a \<times> 'a) list" where
  "pairs_of [] = []"
| "pairs_of (x # xs) = map (Pair x) xs @ pairs_of xs"

lemma set_pairs_of: "(x, y) \<in> set (pairs_of xs) \<longleftrightarrow> (\<exists>i j. i < j \<and> j < length xs \<and> xs ! i = x \<and> xs ! j = y)"
proof (induction xs)
  case (Cons a xs)
  have "(\<exists>i j. i < j \<and> j < length (a # xs) \<and> (a # xs) ! i = x \<and> (a # xs) ! j = y)
    \<longleftrightarrow> (x = a \<and> y \<in> set xs) \<or> (\<exists>i j. i < j \<and> j < length xs \<and> xs ! i = x \<and> xs ! j = y)"
    (is "?l \<longleftrightarrow> ?r")
  proof
    assume ?l
    then obtain i j where ij: "i < j" "j < length (a # xs)" "(a # xs) ! i = x" "(a # xs) ! j = y"
      by blast
    then show ?r by (cases i; cases j) auto
  next
    assume ?r
    then show ?l
    proof
      assume "x = a \<and> y \<in> set xs"
      then obtain j where "j < length xs" "xs ! j = y" "x = a" by (auto simp: in_set_conv_nth)
      then show ?l by (intro exI [of _ 0] exI [of _ "Suc j"]) auto
    next
      assume "\<exists>i j. i < j \<and> j < length xs \<and> xs ! i = x \<and> xs ! j = y"
      then obtain i j where "i < j" "j < length xs" "xs ! i = x" "xs ! j = y" by blast
      then show ?l by (intro exI [of _ "Suc i"] exI [of _ "Suc j"]) auto
    qed
  qed
  with Cons show ?case by auto
qed simp

lemma pairs_of_mem: "(x, y) \<in> set (pairs_of xs) \<Longrightarrow> x \<in> set xs \<and> y \<in> set xs"
  by (induction xs) auto

lemma pairs_of_total:
  "x \<in> set xs \<Longrightarrow> y \<in> set xs \<Longrightarrow> x \<noteq> y \<Longrightarrow> (x, y) \<in> set (pairs_of xs) \<or> (y, x) \<in> set (pairs_of xs)"
  by (induction xs) auto

lemma pairs_of_snoc: "(x, y) \<in> set (pairs_of (xs @ [z])) \<longleftrightarrow>
    (x, y) \<in> set (pairs_of xs) \<or> (x \<in> set xs \<and> y = z)"
  by (induction xs) auto

section \<open>Invariants and simulations\<close>

text \<open>A transition system with an inductive invariant, and one whose steps, under the invariant, are seen
  as at most one step of a specification.\<close>

locale kept =
  fixes move :: "'s \<Rightarrow> 's \<Rightarrow> bool" and inv_of :: "'s \<Rightarrow> bool"
  assumes keeps: "move s s' \<Longrightarrow> inv_of s \<Longrightarrow> inv_of s'"
begin

lemma run_keeps: "move\<^sup>*\<^sup>* s s' \<Longrightarrow> inv_of s \<Longrightarrow> inv_of s'"
  by (induction rule: rtranclp_induct) (auto intro: keeps)

end

locale simulation = kept move inv_of for move :: "'s \<Rightarrow> 's \<Rightarrow> bool" and inv_of +
  fixes view :: "'s \<Rightarrow> 'v" and spec :: "'v \<Rightarrow> 'v \<Rightarrow> bool"
  assumes simulates: "move s s' \<Longrightarrow> inv_of s \<Longrightarrow> view s' = view s \<or> spec (view s) (view s')"
begin

lemma run_simulates: "move\<^sup>*\<^sup>* s s' \<Longrightarrow> inv_of s \<Longrightarrow> spec\<^sup>*\<^sup>* (view s) (view s')"
proof (induction rule: rtranclp_induct)
  case (step y z)
  then show ?case using simulates [OF step.hyps(2) run_keeps [OF step.hyps(1)]] by (auto intro: rtranclp.rtrancl_into_rtrancl)
qed simp

end

end
