(* ===== verification/Loop_Types.thy ===== *)
theory Loop_Types
  imports Js_Prelude "HOL-Library.AList"
begin

text \<open>
  The data of the durable loop engine: the closed enumerations and documents of
  \<open>core/scripts/loop/types.ts\<close>, with the lifecycle record of
  \<open>recovery-lifecycle-ownership.ts\<close> and the typed-request records of
  \<open>typed-request-resolution.ts\<close> they embed. An enumeration of string literals is a datatype
  with a function giving the literal; an interface is a record whose fields carry the source's
  names behind a short prefix; an optional field is an option. A dictionary keyed by item id is a
  \<open>js_record\<close>, one keyed by a recipe name an association list. \<open>recovery_policy\<close> stays a
  \<open>jsval\<close>: the code reads it from disk as \<open>unknown\<close> and validates it before use.
\<close>

section \<open>Failure taxonomy\<close>

datatype LoopFailureClass =
    Validation | Lock | Authority | Stop | Conflict | PipelineMandate | NativeGoalMandate

text \<open>What the code throws: a typed \<open>LoopError\<close>, or an exception of the JavaScript runtime.\<close>

datatype LoopError =
    LoopError (loopFailureClass: LoopFailureClass) (message: string)
  | JsError (message: string)

type_synonym 'a result = "LoopError + 'a"

section \<open>Engines, item states, gates\<close>

datatype LoopEngineName = Claude | Codex

fun engineName :: "LoopEngineName \<Rightarrow> string" where
  "engineName Claude = ''claude''"
| "engineName Codex = ''codex''"

datatype LoopItemState =
    Pending | InProgress | Blocked | Abandoned | Implemented | PrOpened | Ready | Merged
  | Released | Deployed | Paused | Waiting | Skipped

fun itemStateName :: "LoopItemState \<Rightarrow> string" where
  "itemStateName Pending = ''pending''"
| "itemStateName InProgress = ''in_progress''"
| "itemStateName Blocked = ''blocked''"
| "itemStateName Abandoned = ''abandoned''"
| "itemStateName Implemented = ''implemented''"
| "itemStateName PrOpened = ''pr_opened''"
| "itemStateName Ready = ''ready''"
| "itemStateName Merged = ''merged''"
| "itemStateName Released = ''released''"
| "itemStateName Deployed = ''deployed''"
| "itemStateName Paused = ''paused''"
| "itemStateName Waiting = ''waiting''"
| "itemStateName Skipped = ''skipped''"

datatype LoopAuthorityGate = PushPr | MergeGate | ReleaseGate | DeployGate

fun gateName :: "LoopAuthorityGate \<Rightarrow> string" where
  "gateName PushPr = ''push_pr''"
| "gateName MergeGate = ''merge''"
| "gateName ReleaseGate = ''release''"
| "gateName DeployGate = ''deploy''"

definition LOOP_AUTHORITY_GATES :: "LoopAuthorityGate list" where
  "LOOP_AUTHORITY_GATES = [PushPr, MergeGate, ReleaseGate, DeployGate]"

section \<open>Human-input requests and typed requests\<close>

datatype LoopHumanInputRequestKind = Decision | Answer | AuthorityGrant

fun requestKindName :: "LoopHumanInputRequestKind \<Rightarrow> string" where
  "requestKindName Decision = ''decision''"
| "requestKindName Answer = ''answer''"
| "requestKindName AuthorityGrant = ''authority-grant''"

definition LOOP_HUMAN_INPUT_REQUEST_KINDS :: "LoopHumanInputRequestKind list" where
  "LOOP_HUMAN_INPUT_REQUEST_KINDS = [Decision, Answer, AuthorityGrant]"

datatype PublicTypedRequest = DecisionRequest | CapabilityRequest | AuthorityRequest

record DecisionResolutionPackage =
  dp_recommendation :: string
  dp_rationale :: string
  dp_alternatives :: "string list"
  dp_risk :: string
  dp_evidence :: "string list"

record CapabilityRequestRecord =
  cr_missing :: string
  cr_provider :: string
  cr_live_probe :: string
  cr_resume_condition :: string

record AuthorityRequestRecord =
  ar_eligible_actor :: string
  ar_repository :: string
  ar_operation :: string
  ar_scope :: string
  ar_candidate_epoch :: "string option"
  ar_evidence :: "jsval list"
  ar_expiry :: string
  ar_grant :: "string option"

record LoopHumanInputRequest =
  hr_request_id :: string
  hr_item_id :: string
  hr_kind :: LoopHumanInputRequestKind
  hr_prompt :: string
  hr_permitted_responses :: "string list option"
  hr_requested_by_engine :: LoopEngineName
  hr_requested_at :: timestamp
  hr_typed_request :: "PublicTypedRequest option"
  hr_decision_package :: "DecisionResolutionPackage option"
  hr_capability_request :: "CapabilityRequestRecord option"
  hr_authority_request :: "AuthorityRequestRecord option"
  hr_authority_evidence_key :: "string option"
  hr_authority_candidate_head :: "string option"
  hr_source :: "string option"

record LoopAuthorityAmendment =
  am_gate :: LoopAuthorityGate
  am_scope_item_id :: string
  am_actor :: string
  am_reason :: string
  am_time :: timestamp

record LoopPipelinePreflightEvidence =
  pf_passed :: bool
  pf_checked_at :: timestamp

record LoopHandoff =
  ho_from_engine :: LoopEngineName
  ho_to_engine :: LoopEngineName
  ho_reason :: string
  ho_time :: timestamp

section \<open>Blocker classes, recipes, recovery policy\<close>

datatype DurableBlockerClass =
    TransientRateLimit | WorkflowState | ImplementationCi | ReviewFindings | EnvironmentAuth
  | SpecificationDecision | MissingAuthority | UpstreamDependency | WorkflowEngineDefect

fun blockerClassName :: "DurableBlockerClass \<Rightarrow> string" where
  "blockerClassName TransientRateLimit = ''transient-rate-limit''"
| "blockerClassName WorkflowState = ''workflow-state''"
| "blockerClassName ImplementationCi = ''implementation-ci''"
| "blockerClassName ReviewFindings = ''review-findings''"
| "blockerClassName EnvironmentAuth = ''environment-auth''"
| "blockerClassName SpecificationDecision = ''specification-decision''"
| "blockerClassName MissingAuthority = ''missing-authority''"
| "blockerClassName UpstreamDependency = ''upstream-dependency''"
| "blockerClassName WorkflowEngineDefect = ''workflow-engine-defect''"

definition DURABLE_BLOCKER_CLASSES :: "DurableBlockerClass list" where
  "DURABLE_BLOCKER_CLASSES =
     [TransientRateLimit, WorkflowState, ImplementationCi, ReviewFindings, EnvironmentAuth,
      SpecificationDecision, MissingAuthority, UpstreamDependency, WorkflowEngineDefect]"

text \<open>The class a string names, if any; \<open>isDurableBlockerClass\<close> is whether there is one.\<close>

definition blockerClassOf :: "string \<Rightarrow> DurableBlockerClass option" where
  "blockerClassOf s = find (\<lambda>c. blockerClassName c = s) DURABLE_BLOCKER_CLASSES"

definition isDurableBlockerClass :: "string \<Rightarrow> bool" where
  "isDurableBlockerClass s \<longleftrightarrow> s \<in> set (map blockerClassName DURABLE_BLOCKER_CLASSES)"

datatype RecoveryRecipe =
    WaitAndRetry | VerifyAuthentication | VerifyHeadGoal | UnlinkEngineScratch
  | CheckpointOwnedHarnessDirt | PublishUnpublishedStageCommit | RebindTesterEvidenceAfterPr
  | RepairPipelineItem | RerunCi | ResyncWorkflowState | RetryUpstreamCheck
  | RestartWorkflowEngine

fun recipeName :: "RecoveryRecipe \<Rightarrow> string" where
  "recipeName WaitAndRetry = ''wait_and_retry''"
| "recipeName VerifyAuthentication = ''verify_authentication''"
| "recipeName VerifyHeadGoal = ''verify_head_goal''"
| "recipeName UnlinkEngineScratch = ''unlink_engine_scratch''"
| "recipeName CheckpointOwnedHarnessDirt = ''checkpoint_owned_harness_dirt''"
| "recipeName PublishUnpublishedStageCommit = ''publish_unpublished_stage_commit''"
| "recipeName RebindTesterEvidenceAfterPr = ''rebind_tester_evidence_after_pr''"
| "recipeName RepairPipelineItem = ''repair_pipeline_item''"
| "recipeName RerunCi = ''rerun_ci''"
| "recipeName ResyncWorkflowState = ''resync_workflow_state''"
| "recipeName RetryUpstreamCheck = ''retry_upstream_check''"
| "recipeName RestartWorkflowEngine = ''restart_workflow_engine''"

definition RECOVERY_RECIPES :: "RecoveryRecipe list" where
  "RECOVERY_RECIPES =
     [WaitAndRetry, VerifyAuthentication, VerifyHeadGoal, UnlinkEngineScratch,
      CheckpointOwnedHarnessDirt, PublishUnpublishedStageCommit, RebindTesterEvidenceAfterPr,
      RepairPipelineItem, RerunCi, ResyncWorkflowState, RetryUpstreamCheck, RestartWorkflowEngine]"

definition recipeOf :: "string \<Rightarrow> RecoveryRecipe option" where
  "recipeOf s = find (\<lambda>r. recipeName r = s) RECOVERY_RECIPES"

definition isRecoveryRecipe :: "jsval \<Rightarrow> bool" where
  "isRecoveryRecipe v =
     (case v of JStr s \<Rightarrow> s \<in> set (map recipeName RECOVERY_RECIPES) | _ \<Rightarrow> False)"

datatype RecoveryTerminalOutcome = Retry | HumanAuthority

record RecoveryBackoff =
  bo_initial_seconds :: jsnum
  bo_multiplier :: jsnum
  bo_max_seconds :: jsnum

record RecoveryPolicyEntry =
  pe_recipes :: "RecoveryRecipe list"
  pe_retry_budget :: rat
  pe_backoff :: RecoveryBackoff
  pe_terminal_outcome :: RecoveryTerminalOutcome
  pe_run_fatal :: bool
  pe_repeated_evidence_limit :: rat
  pe_per_strategy_bound :: "rat option"

type_synonym RecoveryPolicy = "DurableBlockerClass \<Rightarrow> RecoveryPolicyEntry"

datatype RecoveryAttemptOutcome =
    Started | Recovered | Superseded | Exhausted | SkippedAttempt | RepeatedNoProgress
  | NeedsHuman | HumanAuthorityOutcome | Failed

datatype TerminalOutcome = SuccessOutcome | FailedOutcome | SupersededOutcome

datatype SideEffectCertainty = KnownComplete | KnownAbsent | Uncertain

record LoopRecoveryAttempt =
  ra_attempt_id :: "string option"
  ra_seq :: int
  ra_time :: timestamp
  ra_not_before :: "timestamp option"
  ra_next_attempt_at :: "timestamp option"
  ra_completed_at :: "timestamp option"
  ra_item_id :: string
  ra_class :: DurableBlockerClass
  ra_candidate_identity :: "string option"
  ra_action :: "RecoveryRecipe option"
  ra_actions :: "RecoveryRecipe list"
  ra_evidence_fingerprint :: string
  ra_outcome :: RecoveryAttemptOutcome
  ra_status :: "RecoveryAttemptOutcome option"
  ra_budget_remaining :: "rat option"
  ra_error :: "string option"
  ra_last_error :: "string option"
  ra_typed_reason :: "string option"
  ra_terminal_outcome :: "TerminalOutcome option"
  ra_idempotency_key :: "string option"
  ra_head_sha :: "string option"
  ra_invariant :: "string option"
  ra_candidate_epoch :: "string option"
  ra_evidence_identity :: "string option"
  ra_attempts_per_strategy :: "(RecoveryRecipe \<times> int) list option"
  ra_strategy_cursor :: "int option"
  ra_skipped_strategies :: "RecoveryRecipe list option"
  ra_next_eligible_at :: "timestamp option"
  ra_fence_token :: "string option"
  ra_side_effect_certainty :: "SideEffectCertainty option"
  ra_episode_id :: "string option"
  ra_operation :: "string option"

section \<open>Ownership declarations\<close>

datatype OwnershipSharedSurfaceKind =
    SchemaState | GeneratedArtifact | SharedConfig | PublicApi | CiWorkflow | PackageVersion

fun sharedSurfaceKindName :: "OwnershipSharedSurfaceKind \<Rightarrow> string" where
  "sharedSurfaceKindName SchemaState = ''schema_state''"
| "sharedSurfaceKindName GeneratedArtifact = ''generated_artifact''"
| "sharedSurfaceKindName SharedConfig = ''shared_config''"
| "sharedSurfaceKindName PublicApi = ''public_api''"
| "sharedSurfaceKindName CiWorkflow = ''ci_workflow''"
| "sharedSurfaceKindName PackageVersion = ''package_version''"

definition OWNERSHIP_SHARED_SURFACE_KINDS :: "OwnershipSharedSurfaceKind list" where
  "OWNERSHIP_SHARED_SURFACE_KINDS =
     [SchemaState, GeneratedArtifact, SharedConfig, PublicApi, CiWorkflow, PackageVersion]"

definition isOwnershipSharedSurfaceKind :: "jsval \<Rightarrow> bool" where
  "isOwnershipSharedSurfaceKind v =
     (case v of JStr s \<Rightarrow> s \<in> set (map sharedSurfaceKindName OWNERSHIP_SHARED_SURFACE_KINDS)
      | _ \<Rightarrow> False)"

datatype OwnershipSurfaceKind = SourceSurface | SharedSurface OwnershipSharedSurfaceKind

fun surfaceKindName :: "OwnershipSurfaceKind \<Rightarrow> string" where
  "surfaceKindName SourceSurface = ''source''"
| "surfaceKindName (SharedSurface k) = sharedSurfaceKindName k"

datatype SurfaceClass = ExclusiveClass | SharedClass

fun surfaceClassName :: "SurfaceClass \<Rightarrow> string" where
  "surfaceClassName ExclusiveClass = ''exclusive''"
| "surfaceClassName SharedClass = ''shared''"

record OwnershipException =
  oe_surface_kind :: OwnershipSharedSurfaceKind
  oe_surface_pattern :: string
  oe_counterpart_item_id :: string
  oe_justification :: string
  oe_review_ref :: string

record OwnershipDeclaration =
  od_exclusive :: "string list option"
  od_shared :: "(OwnershipSharedSurfaceKind \<times> string list) list option"
  od_conflicts_with :: "string list option"
  od_exceptions :: "OwnershipException list option"

record NormalizedOwnershipSurface =
  ns_kind :: OwnershipSurfaceKind
  ns_pattern :: string
  ns_class :: SurfaceClass

datatype OwnershipConflictReason =
    OverlappingSurface NormalizedOwnershipSurface
  | ExplicitEdge
  | UnknownOwnershipReason string

datatype OwnershipConflictVerdict = Disjoint | ConflictVerdict OwnershipConflictReason

record OwnershipEvidenceItem =
  oi_item_id :: string
  oi_surfaces :: "NormalizedOwnershipSurface list"

record OwnershipEvidencePair =
  op_a_item_id :: string
  op_b_item_id :: string
  op_verdict :: OwnershipConflictVerdict

record OwnershipEvaluationEvidence =
  oo_items :: "OwnershipEvidenceItem list"
  oo_pairs :: "OwnershipEvidencePair list"

section \<open>The run contract\<close>

record LoopContractItem =
  ci_id :: string
  ci_depends_on :: "string list"
  ci_external_depends_on :: "string list option"
  ci_ownership :: "OwnershipDeclaration option"

datatype DependencyEdgeSource = Lexical | NativeBlockedBy | RoadmapDeclared

datatype DiscoverySourceStatus = ObservedEmpty | ObservedWithEdges | Unavailable | Incomplete

record DependencyDiscoveryObservation =
  do_source :: DependencyEdgeSource
  do_scope :: string
  do_status :: DiscoverySourceStatus
  do_observation_id :: string
  do_reason :: "string option"

record DependencyEdgeProvenance =
  ep_depender :: string
  ep_prerequisite :: string
  ep_sources :: "DependencyEdgeSource list"

datatype IgnoredDepReason = NotOnSelector | Closed | NotOpen

record IgnoredDepRecord =
  ig_depender :: string
  ig_target :: string
  ig_reason :: IgnoredDepReason

record DependencyDiscoveryAudit =
  da_observations :: "DependencyDiscoveryObservation list"
  da_edge_provenance :: "DependencyEdgeProvenance list"
  da_ignored_deps :: "IgnoredDepRecord list option"

record LoopContract =
  lc_run_id :: string
  lc_logical_operation_id :: "string option"
  lc_engine :: LoopEngineName
  lc_repo_name :: string
  lc_repo_base_branch :: string
  lc_selector :: jsval
  lc_objective :: string
  lc_worktree_policy :: string
  lc_authority_grants :: "LoopAuthorityGate list"
  lc_recovery_budgets :: "rat js_record"
  lc_recovery_policy :: jsval
  lc_consecutive_blocked_limit :: int
  lc_verification :: jsval
  lc_report_format :: string
  lc_items :: "LoopContractItem list"
  lc_canonical_hash :: string
  lc_consecutive_no_progress_limit :: "int option"
  lc_imported_from_schema :: "string option"
  lc_supersedes :: "string option"
  lc_max_concurrent :: "jsnum option"
  lc_dependency_discovery :: "DependencyDiscoveryAudit option"

section \<open>Scheduling decisions\<close>

datatype ScheduleDisposition =
    Admitted | DependencyPath | ConflictEdge | UnknownOwnership | MergeBarrier
  | UnresolvedDrift | BudgetTruncation

record ScheduleRationale =
  sr_item_id :: string
  sr_disposition :: ScheduleDisposition
  sr_counterpart_item_id :: "string option"
  sr_detail :: "string option"

record ScheduleDecision =
  sd_selected :: "string list"
  sd_rationale :: "ScheduleRationale list"

datatype LoopParallelizationDisposition = Parallelized | Serialized

record LoopParallelizationLedgerEntry =
  pl_a_item_id :: string
  pl_b_item_id :: string
  pl_disposition :: LoopParallelizationDisposition
  pl_reason :: ScheduleDisposition
  pl_detail :: "string option"

record LoopReplanRequest =
  rp_time :: timestamp
  rp_affected_item_ids :: "string list"
  rp_overlapping_paths :: "string list"
  rp_reason :: string

section \<open>External identities and reconciliation\<close>

datatype PrState = PrOpen | PrClosed | PrMerged

datatype ChecksConclusion = ChecksSuccess | ChecksFailure | ChecksPending | ChecksNone

datatype ArtifactRole = PlanningRole | ImplementationRole | UnknownRole

record LoopExternalIdentity =
  ei_issue_number :: int
  ei_issue_open :: bool
  ei_ready_label_present :: bool
  ei_blocked_label_present :: bool
  ei_pr_number :: "int option"
  ei_pr_state :: "PrState option"
  ei_head_branch :: string
  ei_head_sha :: string
  ei_merge_commit_sha :: "string option"
  ei_checks_conclusion :: ChecksConclusion
  ei_pipeline_stage :: "string option"
  ei_observed_at :: timestamp
  ei_local_head_sha :: "string option"
  ei_rebase_in_progress :: "bool option"
  ei_product_dirt :: "bool option"
  ei_integration_certainty :: "SideEffectCertainty option"
  ei_artifact_role :: "ArtifactRole option"
  ei_artifact_identity :: "string option"
  ei_candidate_epoch :: "string option"
  ei_logical_candidate_epoch :: "string option option"
  ei_logical_operation_id :: "string option"
  ei_expected_logical_operation_id :: "string option"
  ei_linked_pr_numbers :: "int list option"

datatype LoopDriftClass =
    LedgerBehind | LedgerAhead | ExternalAbsent | IdentityMismatch | ChecksRegressed

datatype LoopNextAction =
    Advance | AwaitChecks | RepairForward | Reconstruct | ClearMergeBarrier | HoldForHuman | Noop

record LoopDrift =
  dr_item_id :: string
  dr_ledger_state :: LoopItemState
  dr_observed_state :: string
  dr_class :: LoopDriftClass

record LoopPreconditionExclusion =
  px_item_id :: string
  px_required_stage :: string
  px_observed_stage :: string

record LoopReconciliation =
  rc_sequence :: int
  rc_time :: timestamp
  rc_observed :: "LoopExternalIdentity js_record"
  rc_drift :: "LoopDrift list"
  rc_next_actions :: "LoopNextAction js_record"

section \<open>The ledger\<close>

record LoopHistoryEntry =
  he_time :: timestamp
  he_from :: LoopItemState
  he_to :: LoopItemState
  he_engine :: LoopEngineName
  he_theme :: "string option"
  he_evidence :: "string option"
  he_note :: "string option"

record LoopItemLedgerEntry =
  le_id :: string
  le_state :: LoopItemState
  le_history :: "LoopHistoryEntry list"
  le_blocked_theme :: "string option"
  le_recovery_budgets_remaining :: "rat js_record"
  le_evidence_fingerprint :: "string option"
  le_blocker_candidate_epoch :: "string option"
  le_blocker_candidate_head :: "string option"
  le_repeated_evidence_count :: "int option"
  le_hold_request :: "LoopHumanInputRequest option"
  le_last_verified_identity :: "LoopExternalIdentity option"
  le_current_stage :: "string option"
  le_current_stage_round :: "int option"
  le_current_stage_updated_at :: "timestamp option"
  le_advance_run_id :: "string option"

record LoopMergeBarrier =
  mb_item_id :: string
  mb_merged_sha :: string
  mb_set_at :: timestamp

datatype CoolingReason = StrategyCursorExhausted | MechanicalExhaustion

datatype StopReason =
    RecoveryExhausted | ConsecutiveBlocked | NeedsHumanClassification | RepeatedNoProgressStop
  | HumanAuthorityStop | RunFatal | SupervisorNoProgress | SupervisorCycleCap
  | DependencyDeadlock | WorktreeCapacity

fun stopReasonName :: "StopReason \<Rightarrow> string" where
  "stopReasonName RecoveryExhausted = ''recovery_exhausted''"
| "stopReasonName ConsecutiveBlocked = ''consecutive_blocked''"
| "stopReasonName NeedsHumanClassification = ''needs_human_classification''"
| "stopReasonName RepeatedNoProgressStop = ''repeated_no_progress''"
| "stopReasonName HumanAuthorityStop = ''human_authority''"
| "stopReasonName RunFatal = ''run_fatal''"
| "stopReasonName SupervisorNoProgress = ''supervisor_no_progress''"
| "stopReasonName SupervisorCycleCap = ''supervisor_cycle_cap''"
| "stopReasonName DependencyDeadlock = ''dependency_deadlock''"
| "stopReasonName WorktreeCapacity = ''worktree_capacity''"

record LoopCoolingRecord =
  co_reason :: CoolingReason
  co_time :: timestamp
  co_item_id :: "string option"
  co_theme :: "string option"
  co_candidate_epoch :: "string option"
  co_next_eligible_at :: "timestamp option"
  co_historical_evidence :: "StopReason option"
  co_quarantine_path :: "string option"

datatype DependencyKind = InRun | ExternalDep

record LoopDeadlockChainEntry =
  dc_item_id :: string
  dc_waiting_on :: string
  dc_kind :: DependencyKind
  dc_observed_state :: string

record LoopStopRecord =
  st_reason :: StopReason
  st_time :: timestamp
  st_item_id :: "string option"
  st_theme :: "string option"
  st_limit :: "int option"
  st_fingerprint :: "string option"
  st_deadlock_chain :: "LoopDeadlockChainEntry list option"
  st_outstanding_ready :: "string list"

datatype ExternalDependencyStatus = Satisfied | Unsatisfiable | PendingDep

fun externalStatusName :: "ExternalDependencyStatus \<Rightarrow> string" where
  "externalStatusName Satisfied = ''satisfied''"
| "externalStatusName Unsatisfiable = ''unsatisfiable''"
| "externalStatusName PendingDep = ''pending''"

record LoopNativeGoalCheck =
  ng_engine :: LoopEngineName
  ng_run_id :: string
  ng_status :: string
  ng_checked_at :: timestamp

datatype RecoveryLifecycleState =
    Active | Cooling | ExternalConditionWait | TypedInputWait | Succeeded | Cancelled

record LifecycleOwnership =
  lo_state :: RecoveryLifecycleState
  lo_owned :: bool
  lo_ownerless :: bool
  lo_human_owned :: bool
  lo_cancelled :: bool
  lo_human_authority :: bool
  lo_typed_request :: "PublicTypedRequest option"

record DurableLifecycleRecord = LifecycleOwnership +
  dl_logical_operation_id :: string
  dl_updated_at :: timestamp
  dl_revision :: int

record LoopLedger =
  ll_run_id :: string
  ll_items :: "LoopItemLedgerEntry js_record"
  ll_consecutive_blocked :: int
  ll_merge_barrier :: "LoopMergeBarrier option"
  ll_stop :: "LoopStopRecord option"
  ll_cooling :: "LoopCoolingRecord option"
  ll_item_cooling :: "LoopCoolingRecord js_record option"
  ll_lifecycle :: "DurableLifecycleRecord option"
  ll_last_native_goal_check :: "LoopNativeGoalCheck option"
  ll_last_reconciliation :: "LoopReconciliation option"
  ll_reconciliation_sequence :: int
  ll_recovery_attempts :: "LoopRecoveryAttempt list option"
  ll_authority_amendments :: "LoopAuthorityAmendment list option"
  ll_superseded_by :: "string option"

text \<open>Every \<open>ready\<close> item id, sorted: the disclosure a terminal stop carries.\<close>

definition outstandingReadyItemIds :: "LoopLedger \<Rightarrow> string list" where
  "outstandingReadyItemIds ledger =
     sort (map le_id (filter (\<lambda>i. le_state i = Ready) (rec_values (ll_items ledger))))"

section \<open>Locks, logs, supervisor process\<close>

record LoopLockRecord =
  lk_engine :: LoopEngineName
  lk_pid :: int
  lk_hostname :: string
  lk_acquired_at :: timestamp
  lk_token :: string
  lk_run_id :: string
  lk_starttime :: "string option"

text \<open>What a log line carries as its \<open>data\<close>: a plain object, or one of the engine's documents.\<close>

datatype LogData =
    DataObj jsval
  | DataAttempt LoopRecoveryAttempt
  | DataSchedule ScheduleDecision
  | DataOwnership OwnershipEvaluationEvidence
  | DataAmendment LoopAuthorityAmendment
  | DataHandoff LoopHandoff

record LoopEvent =
  ev_seq :: nat
  ev_time :: timestamp
  ev_kind :: string
  ev_data :: LogData

record LoopSupervisorProcess =
  sp_run_id :: string
  sp_engine :: LoopEngineName
  sp_pid :: int
  sp_hostname :: string
  sp_boot_id :: string
  sp_started_at :: timestamp
  sp_heartbeat_at :: timestamp
  sp_starttime :: "string option"
  sp_token :: string
  sp_consecutive_no_progress :: int

section \<open>Closed vocabularies\<close>

lemma blockerClassName_inject [simp]: "blockerClassName a = blockerClassName b \<longleftrightarrow> a = b"
  by (cases a; cases b; simp)

lemma recipeName_inject [simp]: "recipeName a = recipeName b \<longleftrightarrow> a = b"
  by (cases a; cases b; simp)

lemma stopReasonName_inject [simp]: "stopReasonName a = stopReasonName b \<longleftrightarrow> a = b"
  by (cases a; cases b; simp)

lemma in_DURABLE_BLOCKER_CLASSES [simp]: "c \<in> set DURABLE_BLOCKER_CLASSES"
  by (cases c) (simp_all add: DURABLE_BLOCKER_CLASSES_def)

lemma in_RECOVERY_RECIPES [simp]: "r \<in> set RECOVERY_RECIPES"
  by (cases r) (simp_all add: RECOVERY_RECIPES_def)

lemma find_name:
  assumes "\<And>x y. f x = f y \<longleftrightarrow> x = y" and "x \<in> set xs"
  shows "find (\<lambda>y. f y = f x) xs = Some x"
  using assms(2) by (induction xs) (auto simp: assms(1))

lemma blockerClassOf_name [simp]: "blockerClassOf (blockerClassName c) = Some c"
  unfolding blockerClassOf_def by (rule find_name) simp_all

lemma recipeOf_name [simp]: "recipeOf (recipeName r) = Some r"
  unfolding recipeOf_def by (rule find_name) simp_all

lemma blockerClassOf_Some: "blockerClassOf s = Some c \<longleftrightarrow> s = blockerClassName c"
  by (auto simp: blockerClassOf_def find_Some_iff) (metis blockerClassOf_def blockerClassOf_name find_Some_iff)

lemma isDurableBlockerClass_iff: "isDurableBlockerClass s \<longleftrightarrow> (\<exists>c. blockerClassOf s = Some c)"
  by (auto simp: isDurableBlockerClass_def blockerClassOf_Some)

lemma isDurableBlockerClass_name [simp]: "isDurableBlockerClass (blockerClassName c)"
  by (simp add: isDurableBlockerClass_iff)

lemma isRecoveryRecipe_name [simp]: "isRecoveryRecipe (JStr (recipeName r))"
  by (simp add: isRecoveryRecipe_def)

lemma isRecoveryRecipe_iff: "isRecoveryRecipe v \<longleftrightarrow> (\<exists>r. v = JStr (recipeName r))"
  by (cases v) (auto simp: isRecoveryRecipe_def)

end
