(* ===== verification/Parallelization.thy ===== *)
theory Parallelization
  imports Loop_Types
begin

text \<open>
  The run-scoped parallelization ledger (\<open>core/scripts/loop/parallelization-ledger.ts\<close>):
  accumulation of the scheduler's recorded decisions into one entry per evaluated pair and pass.
  \<open>localeCompare\<close> is a parameter. The lemmas show that every entry is an ordered pair recorded
  once per pass, traces to the decision it came from, and that two items admitted together are never
  reported as serialized.
\<close>

section \<open>Definitions\<close>

definition orderedPair :: "string \<Rightarrow> string \<Rightarrow> string \<times> string" where
  "orderedPair a b = (if a < b then (a, b) else (b, a))"

definition pairKey :: "string \<Rightarrow> string \<Rightarrow> string" where
  "pairKey a b = (case orderedPair a b of (x, y) \<Rightarrow> x @ '' '' @ y)"

definition scheduleDecisionsFromEvents :: "LoopEvent list \<Rightarrow> ScheduleDecision list" where
  "scheduleDecisionsFromEvents events =
     List.map_filter (\<lambda>e. case ev_data e of DataSchedule d \<Rightarrow> Some d | _ \<Rightarrow> None)
       (filter (\<lambda>e. ev_kind e = ''loop_schedule_evaluated'') events)"

type_synonym pass_map = "(string \<times> LoopParallelizationLedgerEntry) list"

text \<open>The arrow function \<open>record\<close>: the first entry for a pair wins.\<close>

definition recordPair :: "string \<Rightarrow> string \<Rightarrow> LoopParallelizationDisposition \<Rightarrow> ScheduleDisposition
    \<Rightarrow> string option \<Rightarrow> pass_map \<Rightarrow> pass_map" where
  "recordPair a b disposition reason detail byKey =
     (if a = b then byKey
      else (let key = pairKey a b
            in if key \<in> fst ` set byKey then byKey
               else (case orderedPair a b of (x, y) \<Rightarrow>
                 byKey @ [(key, \<lparr>pl_a_item_id = x, pl_b_item_id = y, pl_disposition = disposition,
                   pl_reason = reason, pl_detail = detail\<rparr>)])))"

definition recordSelected :: "string list \<Rightarrow> pass_map \<Rightarrow> pass_map" where
  "recordSelected selected =
     fold (\<lambda>(a, b). recordPair a b Parallelized Admitted None) (pairs_of selected)"

definition recordRationale :: "ScheduleRationale list \<Rightarrow> ScheduleRationale \<Rightarrow> pass_map \<Rightarrow> pass_map" where
  "recordRationale rationale entry byKey =
     (if sr_disposition entry = Admitted then byKey
      else if truthy (sr_counterpart_item_id entry)
      then recordPair (sr_item_id entry) (the (sr_counterpart_item_id entry)) Serialized
             (sr_disposition entry) (sr_detail entry) byKey
      else fold (\<lambda>other byKey. if sr_item_id other = sr_item_id entry then byKey
             else recordPair (sr_item_id entry) (sr_item_id other) Serialized
                    (sr_disposition entry) (sr_detail entry) byKey) rationale byKey)"

definition passMap :: "ScheduleDecision \<Rightarrow> pass_map" where
  "passMap decision =
     fold (recordRationale (sd_rationale decision)) (sd_rationale decision)
       (recordSelected (sd_selected decision) [])"

definition entryText :: "LoopParallelizationLedgerEntry \<Rightarrow> string" where
  "entryText e = pl_a_item_id e @ '' '' @ pl_b_item_id e"

definition ledgerEntriesForPass ::
  "(string \<Rightarrow> string \<Rightarrow> int) \<Rightarrow> ScheduleDecision \<Rightarrow> LoopParallelizationLedgerEntry list" where
  "ledgerEntriesForPass localeCompare decision =
     js_sort (\<lambda>x y. localeCompare (entryText x) (entryText y)) (map snd (passMap decision))"

definition accumulateParallelizationLedger ::
  "(string \<Rightarrow> string \<Rightarrow> int) \<Rightarrow> ScheduleDecision list \<Rightarrow> LoopParallelizationLedgerEntry list" where
  "accumulateParallelizationLedger localeCompare decisions =
     concat (map (ledgerEntriesForPass localeCompare) decisions)"

definition parallelizationLedgerFromEvents ::
  "(string \<Rightarrow> string \<Rightarrow> int) \<Rightarrow> LoopEvent list \<Rightarrow> LoopParallelizationLedgerEntry list" where
  "parallelizationLedgerFromEvents localeCompare events =
     accumulateParallelizationLedger localeCompare (scheduleDecisionsFromEvents events)"

section \<open>Lemmas\<close>

text \<open>What every entry of a pass satisfies, relative to the decision.\<close>

definition entryTraced :: "ScheduleDecision \<Rightarrow> LoopParallelizationLedgerEntry \<Rightarrow> bool" where
  "entryTraced d e \<longleftrightarrow>
     (case pl_disposition e of
        Parallelized \<Rightarrow> pl_reason e = Admitted \<and> pl_a_item_id e \<in> set (sd_selected d) \<and> pl_b_item_id e \<in> set (sd_selected d)
      | Serialized \<Rightarrow> (\<exists>r\<in>set (sd_rationale d). sr_disposition r \<noteq> Admitted \<and> sr_disposition r = pl_reason e
          \<and> sr_item_id r \<in> {pl_a_item_id e, pl_b_item_id e}))"

definition mapOk :: "ScheduleDecision \<Rightarrow> pass_map \<Rightarrow> bool" where
  "mapOk d m \<longleftrightarrow> distinct (map fst m)
     \<and> (\<forall>(k, e)\<in>set m. k = entryText e \<and> pl_a_item_id e < pl_b_item_id e \<and> entryTraced d e)"

lemma orderedPair_less: "a \<noteq> b \<Longrightarrow> orderedPair a b = (x, y) \<Longrightarrow> x < y \<and> {x, y} = {a, b}"
  by (auto simp: orderedPair_def split: if_splits)

lemma recordPair_ok:
  assumes "mapOk d m"
    and "\<And>x y. orderedPair a b = (x, y) \<Longrightarrow> a \<noteq> b \<Longrightarrow> entryTraced d \<lparr>pl_a_item_id = x, pl_b_item_id = y,
      pl_disposition = disp, pl_reason = reason, pl_detail = detail\<rparr>"
  shows "mapOk d (recordPair a b disp reason detail m)"
proof -
  obtain x y where o: "orderedPair a b = (x, y)" by (cases "orderedPair a b")
  show ?thesis
    using assms orderedPair_less [OF _ o] o
    by (auto simp: recordPair_def mapOk_def Let_def pairKey_def entryText_def)
qed

lemma recordPair_keeps: "set m \<subseteq> set (recordPair a b disp reason detail m)"
  by (cases "orderedPair a b") (auto simp: recordPair_def Let_def)

lemma fold_invariant: "P m \<Longrightarrow> (\<And>x m. x \<in> set xs \<Longrightarrow> P m \<Longrightarrow> P (f x m)) \<Longrightarrow> P (fold f xs m)"
  by (induction xs arbitrary: m) auto

lemma recordSelected_ok: "mapOk d (recordSelected (sd_selected d) [])"
  unfolding recordSelected_def
proof (rule fold_invariant)
  show "mapOk d []" by (simp add: mapOk_def)
  fix p m assume p: "p \<in> set (pairs_of (sd_selected d))" and m: "mapOk d m"
  obtain a b where ab: "p = (a, b)" by (cases p)
  have "entryTraced d \<lparr>pl_a_item_id = x, pl_b_item_id = y, pl_disposition = Parallelized, pl_reason = Admitted,
      pl_detail = None\<rparr>" if o: "orderedPair a b = (x, y)" and ne: "a \<noteq> b" for x y
    using pairs_of_mem [of a b "sd_selected d"] p ab orderedPair_less [OF ne o]
    by (auto simp: entryTraced_def doubleton_eq_iff)
  then have "mapOk d (recordPair a b Parallelized Admitted None m)"
    by (rule recordPair_ok [OF m])
  then show "mapOk d ((case p of (a, b) \<Rightarrow> recordPair a b Parallelized Admitted None) m)"
    by (simp add: ab)
qed

lemma recordRationale_ok:
  assumes "r \<in> set (sd_rationale d)" "mapOk d m"
  shows "mapOk d (recordRationale (sd_rationale d) r m)"
proof -
  have t: "entryTraced d \<lparr>pl_a_item_id = x, pl_b_item_id = y, pl_disposition = Serialized,
      pl_reason = sr_disposition r, pl_detail = sr_detail r\<rparr>"
    if "sr_disposition r \<noteq> Admitted" "orderedPair (sr_item_id r) b = (x, y)" "sr_item_id r \<noteq> b" for b x y
    using that assms(1) orderedPair_less [OF that(3,2)] by (auto simp: entryTraced_def intro!: bexI [of _ r])
  have rec: "mapOk d (recordPair (sr_item_id r) b Serialized (sr_disposition r) (sr_detail r) m')"
    if "sr_disposition r \<noteq> Admitted" "mapOk d m'" for b m'
    using that(2) t [OF that(1)] by (rule recordPair_ok)
  then have "mapOk d (fold (\<lambda>other byKey. if sr_item_id other = sr_item_id r then byKey
             else recordPair (sr_item_id r) (sr_item_id other) Serialized
                    (sr_disposition r) (sr_detail r) byKey) (sd_rationale d) m)" if "sr_disposition r \<noteq> Admitted"
    using that assms(2) by (intro fold_invariant [of "mapOk d"]) simp_all
  with rec assms(2) show ?thesis by (simp add: recordRationale_def)
qed

lemma passMap_ok: "mapOk d (passMap d)"
  unfolding passMap_def by (rule fold_invariant) (auto intro: recordRationale_ok recordSelected_ok)

lemma recordRationale_keeps: "set m \<subseteq> set (recordRationale rs r m)"
proof -
  have "set m \<subseteq> set (fold (\<lambda>other byKey. if sr_item_id other = sr_item_id r then byKey
             else recordPair (sr_item_id r) (sr_item_id other) Serialized
                    (sr_disposition r) (sr_detail r) byKey) xs m)" for xs
    by (rule fold_invariant [of "\<lambda>m'. set m \<subseteq> set m'"]) (auto intro: subsetD [OF recordPair_keeps])
  then show ?thesis using recordPair_keeps unfolding recordRationale_def by auto
qed

lemma passMap_keeps: "set (recordSelected (sd_selected d) []) \<subseteq> set (passMap d)"
  unfolding passMap_def
  by (rule fold_invariant [of "\<lambda>m'. set (recordSelected (sd_selected d) []) \<subseteq> set m'"]) (use recordRationale_keeps in blast)+

lemma recordPair_present:
  "a \<noteq> b \<Longrightarrow> pairKey a b \<in> fst ` set (recordPair a b disp reason detail m)"
  by (cases "orderedPair a b") (auto simp: recordPair_def Let_def)

lemma recordSelected_present:
  assumes "(a, b) \<in> set (pairs_of selected)" "a \<noteq> b"
  shows "pairKey a b \<in> fst ` set (recordSelected selected m)"
proof -
  have "pairKey a b \<in> fst ` set (fold (\<lambda>(a, b). recordPair a b Parallelized Admitted None) ps m)"
    if "(a, b) \<in> set ps \<or> pairKey a b \<in> fst ` set m" for ps m
    using that
  proof (induction ps arbitrary: m)
    case (Cons p ps)
    obtain x y where p: "p = (x, y)" by (cases p)
    have "(a, b) \<in> set ps \<or> pairKey a b \<in> fst ` set (recordPair x y Parallelized Admitted None m)"
    proof (cases "p = (a, b)")
      case True
      then show ?thesis using p recordPair_present [OF assms(2)] by simp
    next
      case False
      then have "(a, b) \<in> set ps \<or> pairKey a b \<in> fst ` set m" using Cons.prems by auto
      then show ?thesis
        using image_mono [OF recordPair_keeps [of m x y Parallelized Admitted None], of fst] by blast
    qed
    from Cons.IH [OF this] show ?case by (simp add: p)
  qed simp
  with assms(1) show ?thesis by (simp add: recordSelected_def)
qed

section \<open>Properties\<close>

text \<open>The ledger of a pass records each pair once, as an ordered pair, with a reason that traces to the
  scheduler's own decision: a parallelized pair was selected together, a serialized one names an item
  the scheduler denied for exactly that reason. For item ids without spaces two items admitted in the
  same pass are always recorded as parallelized and never as serialized.\<close>

lemma parallelization_ledger_sound:
  assumes "\<forall>i\<in>set (sd_selected d). CHR '' '' \<notin> set i"
    and "a \<in> set (sd_selected d)" "b \<in> set (sd_selected d)" "a < b"
  shows "distinct (map entryText (ledgerEntriesForPass cmp d))
    \<and> (\<forall>e\<in>set (ledgerEntriesForPass cmp d). pl_a_item_id e < pl_b_item_id e \<and> entryTraced d e)
    \<and> (\<exists>e\<in>set (ledgerEntriesForPass cmp d). pl_a_item_id e = a \<and> pl_b_item_id e = b \<and> pl_disposition e = Parallelized)
    \<and> (\<forall>e\<in>set (ledgerEntriesForPass cmp d). pl_a_item_id e = a \<and> pl_b_item_id e = b \<longrightarrow> pl_disposition e = Parallelized)"
proof -
  note ok = passMap_ok [of d]
  have set: "set (ledgerEntriesForPass cmp d) = snd ` set (passMap d)" by (simp add: ledgerEntriesForPass_def)
  have texts: "map entryText (map snd (passMap d)) = map fst (passMap d)"
    using ok by (auto simp: mapOk_def)
  have dist: "distinct (map entryText (map snd (passMap d)))" using ok unfolding texts by (simp add: mapOk_def)
  then have d: "distinct (map entryText (ledgerEntriesForPass cmp d))"
  proof -
    have "mset (map entryText (ledgerEntriesForPass cmp d)) = mset (map entryText (map snd (passMap d)))"
      by (simp only: ledgerEntriesForPass_def mset_map mset_js_sort)
    then show ?thesis using dist by (metis mset_eq_imp_distinct_iff)
  qed
  have "(a, b) \<in> set (pairs_of (sd_selected d)) \<or> (b, a) \<in> set (pairs_of (sd_selected d))"
    using assms by (intro pairs_of_total) auto
  moreover have "pairKey b a = pairKey a b" "pairKey a b = a @ '' '' @ b"
    using assms(4) by (auto simp: pairKey_def orderedPair_def)
  ultimately have "a @ '' '' @ b \<in> fst ` set (recordSelected (sd_selected d) [])"
    using recordSelected_present [of a b "sd_selected d" "[]"] recordSelected_present [of b a "sd_selected d" "[]"]
      assms(4) by auto
  then obtain e where e: "(a @ '' '' @ b, e) \<in> set (recordSelected (sd_selected d) [])" by auto
  have sel: "entryText e = a @ '' '' @ b" "entryTraced d e"
    using recordSelected_ok [of d] e by (auto simp: mapOk_def)
  have par: "pl_disposition e = Parallelized"
  proof -
    have "\<forall>(k, e)\<in>set (recordSelected (sd_selected d) []). pl_disposition e = Parallelized"
      unfolding recordSelected_def
      by (rule fold_invariant [of "\<lambda>m. \<forall>(k, e)\<in>set m. pl_disposition e = Parallelized"])
        (auto simp: recordPair_def Let_def split: prod.splits if_splits)
    with e show ?thesis by blast
  qed
  have space: "CHR '' '' \<notin> set (pl_a_item_id e)" "CHR '' '' \<notin> set a"
    using sel(2) par assms(1,2) by (auto simp: entryTraced_def)
  have ab: "pl_a_item_id e = a \<and> pl_b_item_id e = b"
    using sel(1) sep_inject [OF space] by (simp add: entryText_def)
  have mem: "e \<in> set (ledgerEntriesForPass cmp d)"
    using e passMap_keeps [of d] set by force
  have uniq: "e' = e" if "e' \<in> set (ledgerEntriesForPass cmp d)" "pl_a_item_id e' = a" "pl_b_item_id e' = b" for e'
    using d mem that ab inj_onD [of entryText "set (ledgerEntriesForPass cmp d)" e' e]
    by (simp add: distinct_map entryText_def)
  have "pl_a_item_id e' < pl_b_item_id e' \<and> entryTraced d e'" if "e' \<in> set (ledgerEntriesForPass cmp d)" for e'
    using ok that unfolding set mapOk_def by fastforce
  with d mem ab par uniq show ?thesis by blast
qed

end
