(* ===== verification/Ownership.thy ===== *)
theory Ownership
  imports Loop_Types
begin

text \<open>
  Ownership and conflict declarations (\<open>core/scripts/loop/ownership.ts\<close>): validation of a raw
  declaration, normalization into a sorted set of surfaces, the memoised glob-overlap test, and the
  pairwise evaluator. The overlap test is shown equal to its recursion without the memo table and
  sound for the paths the two patterns match, so a \<open>disjoint\<close> verdict rules out a common path.
\<close>

section \<open>Globs\<close>

definition validPatternChar :: "char \<Rightarrow> bool" where
  "validPatternChar c \<longleftrightarrow>
     (let n = of_char c :: nat
      in (65 \<le> n \<and> n \<le> 90) \<or> (97 \<le> n \<and> n \<le> 122) \<or> is_digit c \<or> c \<in> set ''_./*?-'')"

definition isMalformedGlob :: "string \<Rightarrow> bool" where
  "isMalformedGlob pattern =
     (let trimmed = js_trim pattern
      in if trimmed = [] then True
         else if \<not> list_all validPatternChar trimmed then True
         else if js_includes trimmed ''***'' then True
         else list_ex (\<lambda>segment. segment \<noteq> []
                \<and> (js_includes segment ''**'' \<and> segment \<noteq> ''**'' \<or> segment = ''..''))
              (js_split (CHR ''/'') trimmed))"

definition replaceBackslash :: "string \<Rightarrow> string" where
  "replaceBackslash = map (\<lambda>c. if c = CHR 0x5C then CHR ''/'' else c)"

text \<open>\<open>while (p.startsWith("./")) p = p.slice(2)\<close>.\<close>

fun stripDotSlash :: "string \<Rightarrow> string" where
  "stripDotSlash (c # d # s) = (if c = CHR ''.'' \<and> d = CHR ''/'' then stripDotSlash s else c # d # s)"
| "stripDotSlash s = s"

fun collapseSlashes :: "string \<Rightarrow> string" where
  "collapseSlashes (c # d # s) =
     (if c = CHR ''/'' \<and> d = CHR ''/'' then collapseSlashes (d # s) else c # collapseSlashes (d # s))"
| "collapseSlashes s = s"

definition canonicalizePattern :: "string \<Rightarrow> string" where
  "canonicalizePattern pattern =
     (let p = collapseSlashes (stripDotSlash (replaceBackslash (js_trim pattern)))
      in if length p > 1 \<and> last p = CHR ''/'' then butlast p else p)"

definition splitSegments :: "string \<Rightarrow> string list" where
  "splitSegments pattern = filter (\<lambda>s. s \<noteq> []) (js_split (CHR ''/'') (canonicalizePattern pattern))"

text \<open>The anchored regular expression \<open>segmentRegex\<close> builds, as a matcher.\<close>

fun segmentMatches :: "string \<Rightarrow> string \<Rightarrow> bool" where
  "segmentMatches [] s = (s = [])"
| "segmentMatches (p # ps) s =
     (if p = CHR ''*'' then segmentMatches ps s
         \<or> (case s of [] \<Rightarrow> False | c # s' \<Rightarrow> c \<noteq> CHR ''/'' \<and> segmentMatches (p # ps) s')
      else (case s of [] \<Rightarrow> False
            | c # s' \<Rightarrow> (if p = CHR ''?'' then c \<noteq> CHR ''/'' else c = p) \<and> segmentMatches ps s'))"

definition wildSegment :: "string \<Rightarrow> bool" where
  "wildSegment s \<longleftrightarrow> CHR ''*'' \<in> set s \<or> CHR ''?'' \<in> set s"

definition segmentsOverlap :: "string \<Rightarrow> string \<Rightarrow> bool" where
  "segmentsOverlap a b =
     (if a = b then True
      else if \<not> wildSegment a \<and> \<not> wildSegment b then False
      else if wildSegment a \<and> \<not> wildSegment b then segmentMatches a b
      else if \<not> wildSegment a \<and> wildSegment b then segmentMatches b a
      else True)"

type_synonym memo = "((nat \<times> nat) \<times> bool) list"

text \<open>
  The memoised recursion. The suffixes stand for the indices: \<open>i\<close> is \<open>a.length\<close> minus the
  number of remaining segments, and the memo table is keyed by the two remaining lengths. The
  disjunctions short-circuit, so the table of a later call is only used when the earlier ones fail.
\<close>

function globRec :: "string list \<Rightarrow> string list \<Rightarrow> memo \<Rightarrow> bool \<times> memo" where
  "globRec a b memo =
     (let key = (length a, length b)
      in case map_of memo key of
           Some cached \<Rightarrow> (cached, memo)
         | None \<Rightarrow>
             (let (result, memo') =
                (case (a, b) of
                   ([], []) \<Rightarrow> (True, memo)
                 | ([], _) \<Rightarrow> (list_all (\<lambda>s. s = ''**'') b, memo)
                 | (_, []) \<Rightarrow> (list_all (\<lambda>s. s = ''**'') a, memo)
                 | (segA # as, segB # bs) \<Rightarrow>
                     if segA = ''**'' \<and> segB = ''**'' then
                       (case globRec as b memo of
                          (True, m) \<Rightarrow> (True, m)
                        | (False, m) \<Rightarrow> (case globRec a bs m of
                            (True, m') \<Rightarrow> (True, m')
                          | (False, m') \<Rightarrow> globRec as bs m'))
                     else if segA = ''**'' then
                       (case globRec as b memo of
                          (True, m) \<Rightarrow> (True, m)
                        | (False, m) \<Rightarrow> globRec a bs m)
                     else if segB = ''**'' then
                       (case globRec a bs memo of
                          (True, m) \<Rightarrow> (True, m)
                        | (False, m) \<Rightarrow> globRec as b m)
                     else if segmentsOverlap segA segB then globRec as bs memo
                     else (False, memo))
              in (result, (key, result) # memo')))"
  by pat_completeness auto
termination
  by (relation "measure (\<lambda>(a, b, _). length a + length b)") auto

declare globRec.simps [simp del]

definition globOverlap :: "string \<Rightarrow> string \<Rightarrow> bool" where
  "globOverlap patternA patternB = fst (globRec (splitSegments patternA) (splitSegments patternB) [])"

section \<open>Validation\<close>

definition isArrayOfStrings :: "jsval \<Rightarrow> bool" where
  "isArrayOfStrings v = (case v of JArr vs \<Rightarrow> list_all isString vs | _ \<Rightarrow> False)"

definition arrayStrings :: "jsval \<Rightarrow> string list" where
  "arrayStrings v = (case v of JArr vs \<Rightarrow> map strVal vs | _ \<Rightarrow> [])"

definition nonBlankString :: "jsval \<Rightarrow> bool" where
  "nonBlankString v = (case v of JStr s \<Rightarrow> js_trim s \<noteq> [] | _ \<Rightarrow> False)"

definition validateExclusive :: "jsval \<Rightarrow> unit result" where
  "validateExclusive v =
     (if v = JUndef then Inr ()
      else if \<not> isArrayOfStrings v
      then Inl (LoopError Validation ''ownership.exclusive must be an array of glob strings'')
      else (case find isMalformedGlob (arrayStrings v) of
              Some p \<Rightarrow> Inl (LoopError Validation (''ownership.exclusive names a malformed glob: '' @ quoted p))
            | None \<Rightarrow> Inr ()))"

fun validateSharedEntries :: "(string \<times> jsval) list \<Rightarrow> unit result" where
  "validateSharedEntries [] = Inr ()"
| "validateSharedEntries ((kind, patterns) # rest) =
     (if \<not> isOwnershipSharedSurfaceKind (JStr kind)
      then Inl (LoopError Validation (''ownership.shared names an unknown surface kind: '' @ quoted kind))
      else if \<not> isArrayOfStrings patterns
      then Inl (LoopError Validation
             (''ownership.shared['' @ quoted kind @ ''] must be an array of glob strings''))
      else (case find isMalformedGlob (arrayStrings patterns) of
              Some p \<Rightarrow> Inl (LoopError Validation
                (''ownership.shared['' @ quoted kind @ ''] names a malformed glob: '' @ quoted p))
            | None \<Rightarrow> validateSharedEntries rest))"

definition validateShared :: "jsval \<Rightarrow> unit result" where
  "validateShared v =
     (case v of JUndef \<Rightarrow> Inr ()
      | JObj fs \<Rightarrow> validateSharedEntries fs
      | _ \<Rightarrow> Inl (LoopError Validation
               ''ownership.shared must be an object keyed by shared-surface class''))"

definition validateConflictsWith :: "jsval \<Rightarrow> unit result" where
  "validateConflictsWith v =
     (if v = JUndef \<or> isArrayOfStrings v then Inr ()
      else Inl (LoopError Validation ''ownership.conflicts_with must be an array of item ids''))"

definition validateException :: "jsval \<Rightarrow> unit result" where
  "validateException e =
     (if \<not> isPlainObject e
      then Inl (LoopError Validation ''ownership exception must be an object'')
      else (let surface = jprop e ''surface'' in
        if \<not> isPlainObject surface \<or> \<not> isOwnershipSharedSurfaceKind (jprop surface ''kind'')
           \<or> \<not> isString (jprop surface ''pattern'') \<or> isMalformedGlob (strVal (jprop surface ''pattern''))
        then Inl (LoopError Validation
               ''ownership exception.surface must name a valid shared-surface kind and pattern'')
        else if \<not> nonBlankString (jprop e ''justification'')
        then Inl (LoopError Validation ''ownership exception is missing its required justification'')
        else if \<not> nonBlankString (jprop e ''review_ref'')
        then Inl (LoopError Validation ''ownership exception is missing its required review_ref'')
        else if \<not> nonBlankString (jprop e ''counterpart_item_id'')
        then Inl (LoopError Validation ''ownership exception is missing its required counterpart_item_id'')
        else Inr ()))"

fun validateEach :: "('a \<Rightarrow> unit result) \<Rightarrow> 'a list \<Rightarrow> unit result" where
  "validateEach f [] = Inr ()"
| "validateEach f (x # xs) = (case f x of Inl e \<Rightarrow> Inl e | Inr _ \<Rightarrow> validateEach f xs)"

definition validateExceptions :: "jsval \<Rightarrow> unit result" where
  "validateExceptions v =
     (case v of JUndef \<Rightarrow> Inr ()
      | JArr es \<Rightarrow> validateEach validateException es
      | _ \<Rightarrow> Inl (LoopError Validation ''ownership.exceptions must be an array''))"

definition validateOwnershipDeclaration :: "jsval \<Rightarrow> unit result" where
  "validateOwnershipDeclaration decl =
     (if decl = JUndef \<or> decl = JNull then Inr ()
      else if \<not> isPlainObject decl
      then Inl (LoopError Validation ''ownership declaration must be an object'')
      else validateEach (\<lambda>check. check ())
        [\<lambda>_. validateExclusive (jprop decl ''exclusive''),
         \<lambda>_. validateShared (jprop decl ''shared''),
         \<lambda>_. validateConflictsWith (jprop decl ''conflicts_with''),
         \<lambda>_. validateExceptions (jprop decl ''exceptions'')])"

text \<open>A typed declaration as the JavaScript value it is.\<close>

definition exceptionJs :: "OwnershipException \<Rightarrow> jsval" where
  "exceptionJs e = JObj
     [(''surface'', JObj [(''kind'', JStr (sharedSurfaceKindName (oe_surface_kind e))),
                          (''pattern'', JStr (oe_surface_pattern e))]),
      (''counterpart_item_id'', JStr (oe_counterpart_item_id e)),
      (''justification'', JStr (oe_justification e)),
      (''review_ref'', JStr (oe_review_ref e))]"

definition stringsJs :: "string list \<Rightarrow> jsval" where
  "stringsJs xs = JArr (map JStr xs)"

definition optField :: "string \<Rightarrow> ('a \<Rightarrow> jsval) \<Rightarrow> 'a option \<Rightarrow> (string \<times> jsval) list" where
  "optField k f x = (case x of None \<Rightarrow> [] | Some y \<Rightarrow> [(k, f y)])"

definition declarationJs :: "OwnershipDeclaration option \<Rightarrow> jsval" where
  "declarationJs d = (case d of None \<Rightarrow> JUndef
     | Some decl \<Rightarrow> JObj
        (optField ''exclusive'' stringsJs (od_exclusive decl)
         @ optField ''shared'' (\<lambda>s. JObj (map (\<lambda>(k, ps). (sharedSurfaceKindName k, stringsJs ps)) s)) (od_shared decl)
         @ optField ''conflicts_with'' stringsJs (od_conflicts_with decl)
         @ optField ''exceptions'' (\<lambda>es. JArr (map exceptionJs es)) (od_exceptions decl)))"

section \<open>Normalization\<close>

definition cmpStrings :: "string \<Rightarrow> string \<Rightarrow> int" where
  "cmpStrings a b = (if a = b then 0 else if a < b then -1 else 1)"

definition compareSurfaces :: "NormalizedOwnershipSurface \<Rightarrow> NormalizedOwnershipSurface \<Rightarrow> int" where
  "compareSurfaces a b =
     (if ns_class a \<noteq> ns_class b
      then (if surfaceClassName (ns_class a) < surfaceClassName (ns_class b) then -1 else 1)
      else if ns_kind a \<noteq> ns_kind b
      then (if surfaceKindName (ns_kind a) < surfaceKindName (ns_kind b) then -1 else 1)
      else if ns_pattern a \<noteq> ns_pattern b
      then (if ns_pattern a < ns_pattern b then -1 else 1)
      else 0)"

definition exclusiveSurface :: "string \<Rightarrow> NormalizedOwnershipSurface" where
  "exclusiveSurface canon = \<lparr>ns_kind = SourceSurface, ns_pattern = canon, ns_class = ExclusiveClass\<rparr>"

definition sharedSurface :: "OwnershipSharedSurfaceKind \<Rightarrow> string \<Rightarrow> NormalizedOwnershipSurface" where
  "sharedSurface k canon = \<lparr>ns_kind = SharedSurface k, ns_pattern = canon, ns_class = SharedClass\<rparr>"

text \<open>The string key under which \<open>normalizeOwnership\<close> stores a surface in its \<open>Map\<close>.\<close>

definition surfaceKey :: "NormalizedOwnershipSurface \<Rightarrow> string" where
  "surfaceKey s = (case ns_class s of
       ExclusiveClass \<Rightarrow> ''exclusive source '' @ ns_pattern s
     | SharedClass \<Rightarrow> ''shared '' @ surfaceKindName (ns_kind s) @ '' '' @ ns_pattern s)"

definition declaredSurfaces :: "OwnershipDeclaration \<Rightarrow> NormalizedOwnershipSurface list" where
  "declaredSurfaces decl =
     map (\<lambda>p. exclusiveSurface (canonicalizePattern p)) (orElse (od_exclusive decl) [])
     @ concat (map (\<lambda>(kind, patterns). map (\<lambda>p. sharedSurface kind (canonicalizePattern p)) patterns)
                   (orElse (od_shared decl) []))"

definition normalizeOwnership :: "OwnershipDeclaration option \<Rightarrow> NormalizedOwnershipSurface list" where
  "normalizeOwnership decl = (case decl of None \<Rightarrow> []
     | Some d \<Rightarrow> js_sort compareSurfaces
         (map snd (fold (\<lambda>s entries. AList.update (surfaceKey s) s entries) (declaredSurfaces d) [])))"

section \<open>Pairwise evaluation\<close>

record OwnershipEvalInput =
  ov_id :: string
  ov_decl :: "OwnershipDeclaration option"
  ov_normalized :: "NormalizedOwnershipSurface list"

definition declConflicts :: "OwnershipDeclaration option \<Rightarrow> string list" where
  "declConflicts d = orElse (Option.bind d od_conflicts_with) []"

definition declExceptions :: "OwnershipDeclaration option \<Rightarrow> OwnershipException list" where
  "declExceptions d = orElse (Option.bind d od_exceptions) []"

definition hasValidException ::
  "OwnershipEvalInput \<Rightarrow> OwnershipEvalInput \<Rightarrow> NormalizedOwnershipSurface \<Rightarrow> bool" where
  "hasValidException a b surface =
     (let exceptions =
        map fst (filter (\<lambda>(e, counterpart). oe_counterpart_item_id e = counterpart)
          (map (\<lambda>e. (e, ov_id b)) (declExceptions (ov_decl a))
           @ map (\<lambda>e. (e, ov_id a)) (declExceptions (ov_decl b))))
      in list_ex (\<lambda>e. SharedSurface (oe_surface_kind e) = ns_kind surface
           \<and> canonicalizePattern (oe_surface_pattern e) = ns_pattern surface
           \<and> js_trim (oe_justification e) \<noteq> [] \<and> js_trim (oe_review_ref e) \<noteq> []) exceptions)"

definition surfacePairs ::
  "OwnershipEvalInput \<Rightarrow> OwnershipEvalInput \<Rightarrow> (NormalizedOwnershipSurface \<times> NormalizedOwnershipSurface) list" where
  "surfacePairs a b = List.product (ov_normalized a) (ov_normalized b)"

definition sharedClash :: "OwnershipEvalInput \<Rightarrow> OwnershipEvalInput
    \<Rightarrow> NormalizedOwnershipSurface \<times> NormalizedOwnershipSurface \<Rightarrow> bool" where
  "sharedClash a b = (\<lambda>(sa, sb).
     ns_class sa = SharedClass \<and> ns_class sb = SharedClass \<and> ns_kind sb = ns_kind sa
     \<and> ns_pattern sb = ns_pattern sa \<and> \<not> hasValidException a b sa)"

definition exclusiveClash :: "NormalizedOwnershipSurface \<times> NormalizedOwnershipSurface \<Rightarrow> bool" where
  "exclusiveClash = (\<lambda>(sa, sb).
     ns_class sa = ExclusiveClass \<and> ns_class sb = ExclusiveClass
     \<and> globOverlap (ns_pattern sa) (ns_pattern sb))"

definition mixedClash :: "NormalizedOwnershipSurface \<times> NormalizedOwnershipSurface \<Rightarrow> bool" where
  "mixedClash = (\<lambda>(sa, sb).
     ns_class sa \<noteq> ns_class sb \<and> globOverlap (ns_pattern sa) (ns_pattern sb))"

definition evaluateConflict :: "OwnershipEvalInput \<Rightarrow> OwnershipEvalInput \<Rightarrow> OwnershipConflictVerdict" where
  "evaluateConflict a b =
     (if ov_id b \<in> set (declConflicts (ov_decl a)) \<or> ov_id a \<in> set (declConflicts (ov_decl b))
      then ConflictVerdict ExplicitEdge
      else if ov_normalized a = []
      then ConflictVerdict (UnknownOwnershipReason
             (''item '' @ quoted (ov_id a) @ '' declares no ownership surfaces''))
      else if ov_normalized b = []
      then ConflictVerdict (UnknownOwnershipReason
             (''item '' @ quoted (ov_id b) @ '' declares no ownership surfaces''))
      else (case find (sharedClash a b) (surfacePairs a b) of
        Some (sa, _) \<Rightarrow> ConflictVerdict (OverlappingSurface sa)
      | None \<Rightarrow> (case find exclusiveClash (surfacePairs a b) of
        Some (sa, _) \<Rightarrow> ConflictVerdict (OverlappingSurface sa)
      | None \<Rightarrow> (case find mixedClash (surfacePairs a b) of
        Some (sa, _) \<Rightarrow> ConflictVerdict (OverlappingSurface sa)
      | None \<Rightarrow> Disjoint))))"

definition evalInput :: "string \<Rightarrow> OwnershipDeclaration option \<Rightarrow> OwnershipEvalInput" where
  "evalInput i decl = \<lparr>ov_id = i, ov_decl = decl, ov_normalized = normalizeOwnership decl\<rparr>"

definition evaluateOwnershipEvidence ::
  "(string \<times> OwnershipDeclaration option) list \<Rightarrow> OwnershipEvaluationEvidence result" where
  "evaluateOwnershipEvidence items =
     (case validateEach (\<lambda>(_, decl). validateOwnershipDeclaration (declarationJs decl)) items of
        Inl e \<Rightarrow> Inl e
      | Inr _ \<Rightarrow>
          (let evalInputs = map (\<lambda>(i, decl). evalInput i decl) items
           in Inr \<lparr>oo_items = map (\<lambda>x. \<lparr>oi_item_id = ov_id x, oi_surfaces = ov_normalized x\<rparr>) evalInputs,
                   oo_pairs = map (\<lambda>(x, y). \<lparr>op_a_item_id = ov_id x, op_b_item_id = ov_id y,
                                              op_verdict = evaluateConflict x y\<rparr>) (pairs_of evalInputs)\<rparr>))"

section \<open>The overlap test against its specification\<close>

text \<open>The recursion without the memo table, and the paths a list of pattern segments matches.\<close>

fun globRef :: "string list \<Rightarrow> string list \<Rightarrow> bool" where
  "globRef [] b = list_all (\<lambda>s. s = ''**'') b"
| "globRef (sa # as) [] = list_all (\<lambda>s. s = ''**'') (sa # as)"
| "globRef (sa # as) (sb # bs) =
     (if sa = ''**'' \<and> sb = ''**''
      then globRef as (sb # bs) \<or> globRef (sa # as) bs \<or> globRef as bs
      else if sa = ''**'' then globRef as (sb # bs) \<or> globRef (sa # as) bs
      else if sb = ''**'' then globRef (sa # as) bs \<or> globRef as (sb # bs)
      else segmentsOverlap sa sb \<and> globRef as bs)"

fun pathMatches :: "string list \<Rightarrow> string list \<Rightarrow> bool" where
  "pathMatches [] path = (path = [])"
| "pathMatches (p # ps) path =
     (if p = ''**''
      then pathMatches ps path \<or> (case path of [] \<Rightarrow> False | _ # rest \<Rightarrow> pathMatches (p # ps) rest)
      else (case path of [] \<Rightarrow> False | x # rest \<Rightarrow> segmentMatches p x \<and> pathMatches ps rest))"

definition sfx :: "nat \<Rightarrow> 'a list \<Rightarrow> 'a list" where
  "sfx n xs = drop (length xs - n) xs"

definition memo_ok :: "string list \<Rightarrow> string list \<Rightarrow> memo \<Rightarrow> bool" where
  "memo_ok a b m \<longleftrightarrow> (\<forall>i j r. map_of m (i, j) = Some r \<longrightarrow> r = globRef (sfx i a) (sfx j b))"

lemma sfx_tail: "sfx (Suc n) xs = y # ys \<Longrightarrow> length ys = n \<Longrightarrow> sfx n xs = ys"
proof -
  assume a: "sfx (Suc n) xs = y # ys" "length ys = n"
  then have "Suc n \<le> length xs"
    by (metis length_Cons length_drop diff_le_self sfx_def)
  then have "length xs - n = Suc (length xs - Suc n)" by simp
  then have "drop (length xs - n) xs = tl (drop (length xs - Suc n) xs)"
    by (simp add: drop_Suc tl_drop)
  with a show "sfx n xs = ys" by (simp add: sfx_def)
qed

lemma sfx_length [simp]: "sfx (length xs) xs = xs"
  by (simp add: sfx_def)

lemma memo_ok_Nil [simp]: "memo_ok a b []"
  by (simp add: memo_ok_def)

lemma memo_ok_Cons:
  "memo_ok a b m \<Longrightarrow> r = globRef (sfx i a) (sfx j b) \<Longrightarrow> memo_ok a b (((i, j), r) # m)"
  by (auto simp: memo_ok_def)

lemma memo_ok_lookup:
  "memo_ok A B m \<Longrightarrow> map_of m (length a, length b) = Some r \<Longrightarrow> sfx (length a) A = a
    \<Longrightarrow> sfx (length b) B = b \<Longrightarrow> r = globRef a b"
  unfolding memo_ok_def by metis

lemma globRec_ok:
  "memo_ok A B m \<Longrightarrow> sfx (length a) A = a \<Longrightarrow> sfx (length b) B = b
    \<Longrightarrow> fst (globRec a b m) = globRef a b \<and> memo_ok A B (snd (globRec a b m))"
proof (induction "length a + length b" arbitrary: a b m rule: less_induct)
  case less
  show ?case
  proof (cases "map_of m (length a, length b)")
    case (Some r)
    then show ?thesis
      using memo_ok_lookup [OF less.prems(1) Some less.prems(2,3)] less.prems(1)
      by (simp add: globRec.simps [of a b m])
  next
    case None
    show ?thesis
    proof (cases a)
      case Nil
      with None less.prems show ?thesis
        by (cases b) (simp_all add: globRec.simps [of "[]"] memo_ok_Cons)
    next
      case (Cons sa as)
      note a = Cons
      show ?thesis
      proof (cases b)
        case Nil
        with None a less.prems show ?thesis
          by (simp add: globRec.simps [of "sa # as" "[]" m] memo_ok_Cons)
      next
        case (Cons sb bs)
        note b = Cons
        have t: "sfx (length as) A = as" "sfx (length bs) B = bs"
          using less.prems(2,3) a b sfx_tail [of "length as" A sa as] sfx_tail [of "length bs" B sb bs]
          by simp_all
        have rec: "\<exists>m''. globRec x y m' = (globRef x y, m'') \<and> memo_ok A B m''"
          if "memo_ok A B m'" "length x + length y < length a + length b"
            "sfx (length x) A = x" "sfx (length y) B = y" for x y m'
          using less.hyps [OF that(2,1,3,4)] by (cases "globRec x y m'") auto
        have 1: "\<exists>m''. globRec as b m' = (globRef as b, m'') \<and> memo_ok A B m''" if "memo_ok A B m'" for m'
          using rec [OF that, of as b] t less.prems(3) a by simp
        have 2: "\<exists>m''. globRec a bs m' = (globRef a bs, m'') \<and> memo_ok A B m''" if "memo_ok A B m'" for m'
          using rec [OF that, of a bs] t less.prems(2) b by simp
        have 3: "\<exists>m''. globRec as bs m' = (globRef as bs, m'') \<and> memo_ok A B m''" if "memo_ok A B m'" for m'
          using rec [OF that, of as bs] t a b by simp
        obtain m1 m2 m3 where m: "globRec as b m = (globRef as b, m1)" "memo_ok A B m1"
          "globRec a bs m1 = (globRef a bs, m2)" "memo_ok A B m2"
          "globRec as bs m2 = (globRef as bs, m3)" "memo_ok A B m3"
          using 1 2 3 less.prems(1) by meson
        obtain m4 m5 m6 where m': "globRec a bs m = (globRef a bs, m4)" "memo_ok A B m4"
          "globRec as b m4 = (globRef as b, m5)" "memo_ok A B m5"
          "globRec as bs m = (globRef as bs, m6)" "memo_ok A B m6"
          using 1 2 3 less.prems(1) by meson
        show ?thesis
          using None less.prems m m' unfolding a b
          by (cases "sa = ''**''"; cases "sb = ''**''"; cases "globRef as (sb # bs)"; cases "globRef (sa # as) bs")
            (simp_all add: globRec.simps [of "x # as" "y # bs" m for x y] memo_ok_Cons)
      qed
    qed
  qed
qed

lemma globOverlap_ref: "globOverlap a b = globRef (splitSegments a) (splitSegments b)"
  using globRec_ok [of "splitSegments a" "splitSegments b" "[]" "splitSegments a" "splitSegments b"]
  by (simp add: globOverlap_def)

lemma segmentsOverlap_sym: "segmentsOverlap a b = segmentsOverlap b a"
  by (auto simp: segmentsOverlap_def)

lemma globRef_sym: "globRef a b = globRef b a"
proof (induction a b rule: globRef.induct)
  case (1 b)
  then show ?case by (cases b) auto
next
  case (3 sa as sb bs)
  then show ?case by (auto simp: segmentsOverlap_sym)
qed simp

lemma globOverlap_sym: "globOverlap a b = globOverlap b a"
  by (simp add: globOverlap_ref globRef_sym)

lemma segmentMatches_literal: "\<not> wildSegment p \<Longrightarrow> segmentMatches p x \<longleftrightarrow> x = p"
proof (induction p arbitrary: x)
  case (Cons c p)
  then have "c \<noteq> CHR ''*''" "c \<noteq> CHR ''?''" "\<not> wildSegment p" by (auto simp: wildSegment_def)
  with Cons.IH show ?case by (cases x) auto
qed simp

lemma segmentsOverlap_sound:
  "segmentMatches a x \<Longrightarrow> segmentMatches b x \<Longrightarrow> segmentsOverlap a b"
  by (auto simp: segmentsOverlap_def segmentMatches_literal)

lemma pathMatches_empty: "pathMatches a [] \<longleftrightarrow> list_all (\<lambda>s. s = ''**'') a"
  by (induction a) auto

lemma globRef_all: "list_all (\<lambda>s. s = ''**'') a \<Longrightarrow> list_all (\<lambda>s. s = ''**'') b \<Longrightarrow> globRef a b"
  by (induction a b rule: globRef.induct) auto

text \<open>Two patterns that match a common path overlap.\<close>

lemma globRef_sound: "pathMatches a path \<Longrightarrow> pathMatches b path \<Longrightarrow> globRef a b"
proof (induction "length a + length b + length path" arbitrary: a b path rule: less_induct)
  case less
  show ?case
  proof (cases "a = [] \<or> b = []")
    case True
    then show ?thesis
      using less.prems by (cases a; cases b) (auto simp: pathMatches_empty)
  next
    case False
    then obtain sa as sb bs where ab: "a = sa # as" "b = sb # bs" by (cases a; cases b) auto
    note ih = less.hyps
    have s1: "pathMatches as path \<Longrightarrow> globRef as b" using ih [of as b path] less.prems ab(1) by simp
    have s2: "pathMatches bs path \<Longrightarrow> globRef a bs" using ih [of a bs path] less.prems ab(2) by simp
    have s: "globRef x y" if "path = c # rest" "pathMatches x rest" "pathMatches y rest"
        "length x \<le> length a" "length y \<le> length b" for c rest x y
      using ih [of x y rest] that by simp
    note s3 = s [of _ _ a b] s [of _ _ as b] s [of _ _ a bs] s [of _ _ as bs]
    show ?thesis
      using less.prems s1 s2 s3 unfolding ab
      by (cases path) (auto split: if_splits intro: segmentsOverlap_sound)
  qed
qed

text \<open>Against a pattern without wildcards the test is exact: it decides membership of the path.\<close>

lemma segmentsOverlap_literal: "\<not> wildSegment b \<Longrightarrow> segmentsOverlap a b = segmentMatches a b"
  by (auto simp: segmentsOverlap_def segmentMatches_literal wildSegment_def)

lemma globRef_literal: "list_all (\<lambda>s. \<not> wildSegment s) b \<Longrightarrow> globRef a b = pathMatches a b"
proof (induction a b rule: globRef.induct)
  case (1 b)
  then show ?case by (cases b) (auto simp: wildSegment_def)
next
  case (2 sa as)
  then show ?case by (simp add: pathMatches_empty)
next
  case (3 sa as sb bs)
  then have "sb \<noteq> ''**''" by (auto simp: wildSegment_def)
  with 3 show ?case by (auto simp: segmentsOverlap_literal)
qed

section \<open>Normalization is a sorted set\<close>

lemma surfaceClassName_inject [simp]: "surfaceClassName a = surfaceClassName b \<longleftrightarrow> a = b"
  by (cases a; cases b; simp)

lemma sharedSurfaceKindName_inject [simp]: "sharedSurfaceKindName a = sharedSurfaceKindName b \<longleftrightarrow> a = b"
  by (cases a; cases b; simp)

lemma surfaceKindName_inject [simp]: "surfaceKindName a = surfaceKindName b \<longleftrightarrow> a = b"
proof -
  have "''source'' \<noteq> sharedSurfaceKindName k" for k by (cases k) auto
  then show ?thesis by (cases a; cases b; simp) metis+
qed

definition surfaceRank :: "NormalizedOwnershipSurface \<Rightarrow> string \<times> string \<times> string" where
  "surfaceRank s = (surfaceClassName (ns_class s), surfaceKindName (ns_kind s), ns_pattern s)"

lemma compareSurfaces_rank: "compareSurfaces a b \<le> 0 \<longleftrightarrow> surfaceRank a \<le> surfaceRank b"
  by (auto simp: compareSurfaces_def surfaceRank_def less_eq_prod_def not_less less_le_not_le)

lemma surfaceRank_inject: "surfaceRank a = surfaceRank b \<Longrightarrow> a = b"
  by (simp add: surfaceRank_def)

text \<open>The comparator contract of the prelude, discharged for \<open>compareSurfaces\<close>.\<close>

interpretation surfaces: comparator compareSurfaces
  by unfold_locales (auto simp: compareSurfaces_rank)

lemma compareSurfaces_antisym: "compareSurfaces a b \<le> 0 \<Longrightarrow> compareSurfaces b a \<le> 0 \<Longrightarrow> a = b"
  by (auto simp: compareSurfaces_rank intro: surfaceRank_inject)

lemma keyed_fold: "keyed f es \<Longrightarrow> keyed f (fold (\<lambda>s es. AList.update (f s) s es) xs es)"
  by (induction xs arbitrary: es) (auto intro: keyed_update)

lemma map_of_fold_update:
  assumes "inj_on f (set xs)"
  shows "map_of (fold (\<lambda>s es. AList.update (f s) s es) xs es) k =
    (if k \<in> f ` set xs then Some (the_inv_into (set xs) f k) else map_of es k)"
  using assms
proof (induction xs arbitrary: es)
  case (Cons x xs)
  have inj: "inj_on f (set xs)" using Cons.prems by auto
  have inv: "the_inv_into (set (x # xs)) f (f y) = y" if "y \<in> set (x # xs)" for y
    using the_inv_into_f_f [OF Cons.prems that] .
  have inv': "the_inv_into (set xs) f (f y) = y" if "y \<in> set xs" for y
    using the_inv_into_f_f [OF inj that] .
  have "the_inv_into (set xs) f k = the_inv_into (set (x # xs)) f k" if "k \<in> f ` set xs"
    using that inv inv' by auto
  then show ?case using Cons.IH [OF inj, of "AList.update (f x) x es"] inv [of x]
    by (auto simp: update_conv')
qed simp

lemma keyed_values:
  assumes "inj_on f (set xs)"
  shows "distinct (map snd (fold (\<lambda>s es. AList.update (f s) s es) xs []))
    \<and> set (map snd (fold (\<lambda>s es. AList.update (f s) s es) xs [])) = set xs"
proof -
  let ?es = "fold (\<lambda>s es. AList.update (f s) s es) xs []"
  have k: "keyed f ?es" by (rule keyed_fold) (simp add: keyed_def)
  have fst_eq: "map fst ?es = map f (map snd ?es)"
    using k by (auto simp: keyed_def)
  have d: "distinct (map snd ?es)"
    using k unfolding keyed_def fst_eq by (simp add: distinct_map del: map_map)
  have lookup: "map_of ?es (f b) = Some b" if "b \<in> set xs" for b
    using map_of_fold_update [OF assms, of "[]" "f b"] the_inv_into_f_f [OF assms that] that by simp
  have "a \<in> f ` set xs \<and> b = the_inv_into (set xs) f a" if "(a, b) \<in> set ?es" for a b
    using map_of_is_SomeI [OF _ that] k map_of_fold_update [OF assms, of "[]" a]
    by (simp add: keyed_def split: if_splits)
  then have "b \<in> set xs" if "(a, b) \<in> set ?es" for a b
    using that the_inv_into_into [OF assms] by blast
  moreover have "b \<in> snd ` set ?es" if "b \<in> set xs" for b
    using map_of_SomeD [OF lookup [OF that]] by force
  ultimately have "set (map snd ?es) = set xs" by auto
  with d show ?thesis by blast
qed

definition declarable :: "NormalizedOwnershipSurface \<Rightarrow> bool" where
  "declarable s \<longleftrightarrow> (ns_class s = ExclusiveClass \<longleftrightarrow> ns_kind s = SourceSurface)"

lemma declaredSurfaces_declarable: "s \<in> set (declaredSurfaces d) \<Longrightarrow> declarable s"
  by (auto simp: declaredSurfaces_def declarable_def exclusiveSurface_def sharedSurface_def)

lemma sharedKey_inject:
  "sharedSurfaceKindName k @ CHR '' '' # p = sharedSurfaceKindName k' @ CHR '' '' # p' \<Longrightarrow> k = k' \<and> p = p'"
  by (cases k; cases k'; simp)

lemma surfaceKey_inject: "declarable a \<Longrightarrow> declarable b \<Longrightarrow> surfaceKey a = surfaceKey b \<Longrightarrow> a = b"
  by (cases "ns_class a"; cases "ns_class b"; cases "ns_kind a"; cases "ns_kind b")
    (auto simp: declarable_def surfaceKey_def dest: sharedKey_inject)

lemma inj_surfaceKey: "inj_on surfaceKey (set (declaredSurfaces d))"
  by (auto intro!: inj_onI surfaceKey_inject dest: declaredSurfaces_declarable)

lemma set_normalizeOwnership: "set (normalizeOwnership (Some d)) = set (declaredSurfaces d)"
  using keyed_values [OF inj_surfaceKey, of d] by (simp add: normalizeOwnership_def)

lemma distinct_normalizeOwnership: "distinct (normalizeOwnership d)"
  using keyed_values [OF inj_surfaceKey] by (cases d) (simp_all add: normalizeOwnership_def)

lemma sorted_normalizeOwnership:
  "sorted_wrt (\<lambda>x y. compareSurfaces x y \<le> 0) (normalizeOwnership d)"
  by (cases d) (simp_all add: normalizeOwnership_def surfaces.sorted_sort)

text \<open>The normal form is a function of the set of declared surfaces.\<close>

lemma normalizeOwnership_determined:
  assumes "set (declaredSurfaces d) = set (declaredSurfaces d')"
  shows "normalizeOwnership (Some d) = normalizeOwnership (Some d')"
proof (rule surfaces.sorted_wrt_unique)
  show "mset (normalizeOwnership (Some d)) = mset (normalizeOwnership (Some d'))"
    using assms by (simp add: set_eq_iff_mset_eq_distinct [symmetric] distinct_normalizeOwnership
        set_normalizeOwnership)
qed (auto simp: sorted_normalizeOwnership intro: compareSurfaces_antisym)

section \<open>Verdicts\<close>

lemma hasValidException_sym: "hasValidException a b s = hasValidException b a s"
  by (auto simp: hasValidException_def)

text \<open>What one pair of surfaces may be when the verdict is \<open>disjoint\<close>.\<close>

definition pairAllowed :: "OwnershipEvalInput \<Rightarrow> OwnershipEvalInput
    \<Rightarrow> NormalizedOwnershipSurface \<Rightarrow> NormalizedOwnershipSurface \<Rightarrow> bool" where
  "pairAllowed a b sa sb \<longleftrightarrow>
     (if ns_class sa = SharedClass \<and> ns_class sb = SharedClass
      then ns_kind sa = ns_kind sb \<and> ns_pattern sa = ns_pattern sb \<longrightarrow> hasValidException a b sa
      else \<not> globOverlap (ns_pattern sa) (ns_pattern sb))"

lemma evaluateConflict_Disjoint:
  "evaluateConflict a b = Disjoint \<longleftrightarrow>
     ov_id b \<notin> set (declConflicts (ov_decl a)) \<and> ov_id a \<notin> set (declConflicts (ov_decl b))
     \<and> ov_normalized a \<noteq> [] \<and> ov_normalized b \<noteq> []
     \<and> (\<forall>sa\<in>set (ov_normalized a). \<forall>sb\<in>set (ov_normalized b). pairAllowed a b sa sb)"
proof -
  have pair: "pairAllowed a b sa sb \<longleftrightarrow>
      \<not> sharedClash a b (sa, sb) \<and> \<not> exclusiveClash (sa, sb) \<and> \<not> mixedClash (sa, sb)" for sa sb
    by (cases "ns_class sa"; cases "ns_class sb")
      (auto simp: pairAllowed_def sharedClash_def exclusiveClash_def mixedClash_def)
  have "(find (sharedClash a b) (surfacePairs a b) = None \<and> find exclusiveClash (surfacePairs a b) = None
      \<and> find mixedClash (surfacePairs a b) = None) \<longleftrightarrow>
      (\<forall>sa\<in>set (ov_normalized a). \<forall>sb\<in>set (ov_normalized b). pairAllowed a b sa sb)"
    unfolding find_None_iff surfacePairs_def pair set_product by blast
  then show ?thesis by (auto simp: evaluateConflict_def split: option.splits)
qed

lemma pairAllowed_sym: "pairAllowed a b sa sb = pairAllowed b a sb sa"
proof -
  have "hasValidException a b sa = hasValidException b a sb"
    if "ns_kind sa = ns_kind sb" "ns_pattern sa = ns_pattern sb"
    unfolding hasValidException_sym [of a b] by (simp add: hasValidException_def that)
  then show ?thesis by (auto simp: pairAllowed_def globOverlap_sym)
qed

section \<open>Validated patterns\<close>

lemma js_space_invalid: "validPatternChar c \<Longrightarrow> \<not> js_space c"
  by (auto simp: validPatternChar_def js_space_def is_digit_def Let_def)

lemma trim_valid: "list_all validPatternChar p \<Longrightarrow> js_trim p = p"
proof -
  assume v: "list_all validPatternChar p"
  have d: "dropWhile js_space q = q" if "list_all validPatternChar q" for q
    using that by (cases q) (auto dest: js_space_invalid)
  have "list_all validPatternChar (rev p)" using v by (simp add: list_all_iff)
  with v d show ?thesis by (simp add: js_trim_def)
qed

lemma backslash_valid: "list_all validPatternChar p \<Longrightarrow> replaceBackslash p = p"
proof -
  have "\<not> validPatternChar (CHR 0x5C)" by (simp add: validPatternChar_def is_digit_def)
  then have "(if c = CHR 0x5C then CHR ''/'' else c) = c" if "validPatternChar c" for c
    using that by auto
  then show "list_all validPatternChar p \<Longrightarrow> replaceBackslash p = p"
    unfolding replaceBackslash_def by (induction p) auto
qed

fun noDouble :: "string \<Rightarrow> bool" where
  "noDouble (c # d # s) \<longleftrightarrow> \<not> (c = CHR ''/'' \<and> d = CHR ''/'') \<and> noDouble (d # s)"
| "noDouble s \<longleftrightarrow> True"

fun dotSlash :: "string \<Rightarrow> bool" where
  "dotSlash (c # d # s) \<longleftrightarrow> c = CHR ''.'' \<and> d = CHR ''/''"
| "dotSlash s \<longleftrightarrow> False"

lemma dotSlash_slash [simp]: "\<not> dotSlash (CHR ''/'' # s)"
  by (cases s) auto

lemma stripDotSlash_id: "\<not> dotSlash s \<Longrightarrow> stripDotSlash s = s"
  by (induction s rule: stripDotSlash.induct) auto

lemma dotSlash_strip: "\<not> dotSlash (stripDotSlash s)"
  by (induction s rule: stripDotSlash.induct) auto

lemma hd_collapse: "collapseSlashes (c # s) \<noteq> [] \<and> hd (collapseSlashes (c # s)) = c"
  by (induction "c # s" arbitrary: c s rule: collapseSlashes.induct) auto

lemma noDouble_collapse: "noDouble (collapseSlashes s)"
proof (induction s rule: collapseSlashes.induct)
  case (1 c d s)
  then show ?case using hd_collapse [of d s] by (cases "collapseSlashes (d # s)") auto
qed auto

lemma collapse_id: "noDouble s \<Longrightarrow> collapseSlashes s = s"
  by (induction s rule: collapseSlashes.induct) auto

lemma dotSlash_collapse: "dotSlash (collapseSlashes s) \<Longrightarrow> dotSlash s"
proof (induction s rule: collapseSlashes.induct)
  case (1 c d s)
  then show ?case using hd_collapse [of d s]
    by (cases "collapseSlashes (d # s)") (auto split: if_splits)
qed auto

lemma set_collapse: "set (collapseSlashes s) \<subseteq> set s"
  by (induction s rule: collapseSlashes.induct) auto

lemma set_strip: "set (stripDotSlash s) \<subseteq> set s"
  by (induction s rule: stripDotSlash.induct) auto

lemma noDouble_butlast: "noDouble s \<Longrightarrow> noDouble (butlast s)"
  by (induction s rule: noDouble.induct) auto

lemma dotSlash_butlast: "dotSlash (butlast s) \<Longrightarrow> dotSlash s"
  by (cases s rule: dotSlash.cases) (auto split: if_splits)

lemma noDouble_last: "noDouble s \<Longrightarrow> length s > 1 \<Longrightarrow> last s = CHR ''/'' \<Longrightarrow> last (butlast s) \<noteq> CHR ''/''"
  by (induction s rule: noDouble.induct) (auto split: if_splits)

lemma canonicalizePattern_shape:
  assumes "list_all validPatternChar p"
  defines "c \<equiv> canonicalizePattern p"
  shows "list_all validPatternChar c \<and> noDouble c \<and> \<not> dotSlash c
    \<and> \<not> (length c > 1 \<and> last c = CHR ''/'')"
proof -
  let ?q = "collapseSlashes (stripDotSlash p)"
  have c: "c = (if length ?q > 1 \<and> last ?q = CHR ''/'' then butlast ?q else ?q)"
    using assms(1) by (simp add: c_def canonicalizePattern_def trim_valid backslash_valid Let_def)
  have "set ?q \<subseteq> set p" using set_collapse set_strip by blast
  then have v: "list_all validPatternChar ?q" using assms(1) by (auto simp: list_all_iff)
  have nd: "noDouble ?q" by (rule noDouble_collapse)
  have ds: "\<not> dotSlash ?q" using dotSlash_collapse dotSlash_strip by blast
  show ?thesis
  proof (cases "length ?q > 1 \<and> last ?q = CHR ''/''")
    case True
    with c have "c = butlast ?q" by simp
    with True v nd ds noDouble_last [OF nd] show ?thesis
      by (auto simp: noDouble_butlast list_all_iff dest: dotSlash_butlast in_set_butlastD)
  next
    case False
    with c have "c = ?q" by auto
    with False v nd ds show ?thesis by auto
  qed
qed

lemma isMalformedGlob_chars: "\<not> isMalformedGlob p \<Longrightarrow> list_all validPatternChar (js_trim p)"
  by (auto simp: isMalformedGlob_def Let_def split: if_splits)

lemma canonicalizePattern_trim: "js_trim (js_trim p) = js_trim p \<Longrightarrow>
    canonicalizePattern (js_trim p) = canonicalizePattern p"
  by (simp add: canonicalizePattern_def)

text \<open>The declarations \<open>validateOwnershipDeclaration\<close> accepts, on the typed value.\<close>

definition exceptionWf :: "OwnershipException \<Rightarrow> bool" where
  "exceptionWf e \<longleftrightarrow> \<not> isMalformedGlob (oe_surface_pattern e) \<and> js_trim (oe_justification e) \<noteq> []
     \<and> js_trim (oe_review_ref e) \<noteq> [] \<and> js_trim (oe_counterpart_item_id e) \<noteq> []"

definition declarationWf :: "OwnershipDeclaration \<Rightarrow> bool" where
  "declarationWf d \<longleftrightarrow>
     (\<forall>p\<in>set (orElse (od_exclusive d) []). \<not> isMalformedGlob p)
     \<and> (\<forall>(k, ps)\<in>set (orElse (od_shared d) []). \<forall>p\<in>set ps. \<not> isMalformedGlob p)
     \<and> (\<forall>e\<in>set (orElse (od_exceptions d) []). exceptionWf e)"

lemma validateEach_Inr: "validateEach f xs = Inr () \<longleftrightarrow> (\<forall>x\<in>set xs. f x = Inr ())"
  by (induction xs) (auto split: sum.splits)

lemma isArrayOfStrings_stringsJs [simp]: "isArrayOfStrings (stringsJs xs)" "arrayStrings (stringsJs xs) = xs"
  by (induction xs) (simp_all add: isArrayOfStrings_def arrayStrings_def stringsJs_def isString_def strVal_def)

lemma stringsJs_not_undef [simp]: "stringsJs xs \<noteq> JUndef"
  by (simp add: stringsJs_def)

lemma sharedKind_name [simp]: "isOwnershipSharedSurfaceKind (JStr (sharedSurfaceKindName k))"
  by (cases k) (simp_all add: isOwnershipSharedSurfaceKind_def OWNERSHIP_SHARED_SURFACE_KINDS_def)

lemma find_malformed:
  "(case find isMalformedGlob ps of Some p \<Rightarrow> Inl (g p) | None \<Rightarrow> (r :: unit result)) = Inr () \<longleftrightarrow>
     (\<forall>p\<in>set ps. \<not> isMalformedGlob p) \<and> r = Inr ()"
  by (auto simp: find_None_iff find_Some_iff split: option.splits)

lemma validateExclusive_iff:
  "validateExclusive (stringsJs ps) = Inr () \<longleftrightarrow> (\<forall>p\<in>set ps. \<not> isMalformedGlob p)"
  by (simp add: validateExclusive_def find_malformed)

lemma validateSharedEntries_iff:
  "validateSharedEntries (map (\<lambda>(k, ps). (sharedSurfaceKindName k, stringsJs ps)) s) = Inr ()
    \<longleftrightarrow> (\<forall>(k, ps)\<in>set s. \<forall>p\<in>set ps. \<not> isMalformedGlob p)"
  by (induction s) (auto simp: find_malformed)

lemma validateException_iff: "validateException (exceptionJs e) = Inr () \<longleftrightarrow> exceptionWf e"
  by (simp add: validateException_def exceptionJs_def isPlainObject_def jprop_def isString_def strVal_def
      nonBlankString_def exceptionWf_def Let_def)

lemma validate_declarationJs:
  "validateOwnershipDeclaration (declarationJs (Some d)) = Inr () \<longleftrightarrow> declarationWf d"
proof -
  obtain e s c x where d: "d = \<lparr>od_exclusive = e, od_shared = s, od_conflicts_with = c, od_exceptions = x\<rparr>"
    by (cases d)
  have p: "jprop (declarationJs (Some d)) ''exclusive'' = (case e of None \<Rightarrow> JUndef | Some v \<Rightarrow> stringsJs v)"
    "jprop (declarationJs (Some d)) ''conflicts_with'' = (case c of None \<Rightarrow> JUndef | Some v \<Rightarrow> stringsJs v)"
    "jprop (declarationJs (Some d)) ''shared'' = (case s of None \<Rightarrow> JUndef
       | Some v \<Rightarrow> JObj (map (\<lambda>(k, ps). (sharedSurfaceKindName k, stringsJs ps)) v))"
    "jprop (declarationJs (Some d)) ''exceptions'' = (case x of None \<Rightarrow> JUndef
       | Some v \<Rightarrow> JArr (map exceptionJs v))"
    by (cases e; cases s; cases c; cases x;
        simp add: d declarationJs_def jprop_def optField_def)+
  have "isPlainObject (declarationJs (Some d))" "declarationJs (Some d) \<noteq> JUndef"
    "declarationJs (Some d) \<noteq> JNull"
    by (simp_all add: declarationJs_def isPlainObject_def)
  then have "validateOwnershipDeclaration (declarationJs (Some d)) = Inr () \<longleftrightarrow>
      validateExclusive (jprop (declarationJs (Some d)) ''exclusive'') = Inr ()
      \<and> validateShared (jprop (declarationJs (Some d)) ''shared'') = Inr ()
      \<and> validateConflictsWith (jprop (declarationJs (Some d)) ''conflicts_with'') = Inr ()
      \<and> validateExceptions (jprop (declarationJs (Some d)) ''exceptions'') = Inr ()"
    unfolding validateOwnershipDeclaration_def by (auto simp: validateEach_Inr simp del: validateEach.simps)
  also have "\<dots> \<longleftrightarrow> declarationWf d"
    unfolding p by (auto simp: d declarationWf_def validateExclusive_iff validateShared_def
        validateSharedEntries_iff validateConflictsWith_def validateExceptions_def validateEach_Inr
        validateException_iff validateExclusive_def [of JUndef] split: option.splits)
  finally show ?thesis .
qed

section \<open>Properties\<close>

text \<open>C39: the memoised overlap test computes the memo-free recursion, does not depend on the order
  of its arguments, answers true whenever some path matches both patterns, and against a pattern
  without wildcards it answers exactly whether the other pattern matches that path.\<close>

theorem glob_overlap_correct:
  "globOverlap a b = globRef (splitSegments a) (splitSegments b)
   \<and> globOverlap a b = globOverlap b a
   \<and> (pathMatches (splitSegments a) path \<and> pathMatches (splitSegments b) path \<longrightarrow> globOverlap a b)
   \<and> (list_all (\<lambda>s. \<not> wildSegment s) (splitSegments b) \<longrightarrow>
        globOverlap a b = pathMatches (splitSegments a) (splitSegments b))"
  by (auto simp: globOverlap_ref globRef_sym globRef_literal intro: globRef_sound)

theorem glob_overlap_correct_witness:
  "globOverlap ''src/**/*.ts'' ''src/a/b.ts'' \<and> \<not> globOverlap ''src/**/*.ts'' ''src/a/b.md''
   \<and> globOverlap ''src/**/*.ts'' ''src/a/?.ts''"
proof -
  have s: "splitSegments ''src/**/*.ts'' = [''src'', ''**'', ''*.ts'']"
    "splitSegments ''src/a/b.ts'' = [''src'', ''a'', ''b.ts'']"
    "splitSegments ''src/a/b.md'' = [''src'', ''a'', ''b.md'']"
    "splitSegments ''src/a/?.ts'' = [''src'', ''a'', ''?.ts'']"
    by code_simp+
  have m: "pathMatches [''src'', ''**'', ''*.ts''] [''src'', ''a'', ''b.ts'']"
    "\<not> pathMatches [''src'', ''**'', ''*.ts''] [''src'', ''a'', ''b.md'']"
    "pathMatches [''src'', ''a'', ''?.ts''] [''src'', ''a'', ''b.ts'']"
    by code_simp+
  have l: "list_all (\<lambda>s. \<not> wildSegment s) [''src'', ''a'', ''b.ts'']"
    "list_all (\<lambda>s. \<not> wildSegment s) [''src'', ''a'', ''b.md'']"
    by code_simp+
  show ?thesis
    using glob_overlap_correct [of "''src/**/*.ts''" "''src/a/b.ts''" "[]"]
      glob_overlap_correct [of "''src/**/*.ts''" "''src/a/b.md''" "[]"]
      glob_overlap_correct [of "''src/**/*.ts''" "''src/a/?.ts''" "[''src'', ''a'', ''b.ts'']"]
    unfolding s using m l by blast
qed

text \<open>C15: a \<open>disjoint\<close> verdict is symmetric and rules out an explicit conflict edge in either
  direction, undeclared ownership on either side, a path matched by a surface of each item when one
  of the two surfaces is exclusive, and a common shared surface without a reviewed exception.\<close>

theorem disjoint_verdict_sound:
  assumes "evaluateConflict a b = Disjoint"
  shows "evaluateConflict b a = Disjoint
    \<and> ov_id b \<notin> set (declConflicts (ov_decl a)) \<and> ov_id a \<notin> set (declConflicts (ov_decl b))
    \<and> ov_normalized a \<noteq> [] \<and> ov_normalized b \<noteq> []
    \<and> (\<forall>sa\<in>set (ov_normalized a). \<forall>sb\<in>set (ov_normalized b). \<forall>path.
         ns_class sa = ExclusiveClass \<or> ns_class sb = ExclusiveClass \<longrightarrow>
         \<not> (pathMatches (splitSegments (ns_pattern sa)) path
            \<and> pathMatches (splitSegments (ns_pattern sb)) path))
    \<and> (\<forall>s\<in>set (ov_normalized a) \<inter> set (ov_normalized b).
         ns_class s = SharedClass \<longrightarrow> hasValidException a b s)"
proof -
  have allowed: "pairAllowed a b sa sb"
    if "sa \<in> set (ov_normalized a)" "sb \<in> set (ov_normalized b)" for sa sb
    using assms that by (simp add: evaluateConflict_Disjoint)
  have "evaluateConflict b a = Disjoint"
    using assms by (auto simp: evaluateConflict_Disjoint pairAllowed_sym [of a b])
  moreover have "\<not> (pathMatches (splitSegments (ns_pattern sa)) path
      \<and> pathMatches (splitSegments (ns_pattern sb)) path)"
    if "sa \<in> set (ov_normalized a)" "sb \<in> set (ov_normalized b)"
      "ns_class sa = ExclusiveClass \<or> ns_class sb = ExclusiveClass" for sa sb path
    using allowed [OF that(1,2)] that(3)
    by (auto simp: pairAllowed_def globOverlap_ref dest: globRef_sound)
  moreover have "hasValidException a b s"
    if "s \<in> set (ov_normalized a)" "s \<in> set (ov_normalized b)" "ns_class s = SharedClass" for s
    using allowed [OF that(1,2)] that(3) by (simp add: pairAllowed_def)
  ultimately show ?thesis using assms by (simp add: evaluateConflict_Disjoint)
qed

definition exampleDecl :: "string list \<Rightarrow> OwnershipDeclaration" where
  "exampleDecl ps = \<lparr>od_exclusive = Some ps, od_shared = None, od_conflicts_with = None, od_exceptions = None\<rparr>"

theorem disjoint_verdict_sound_witness:
  "evaluateConflict (evalInput ''1'' (Some (exampleDecl [''src/a/**'']))) (evalInput ''2'' (Some (exampleDecl [''src/b/*.ts'']))) = Disjoint
   \<and> evaluateConflict (evalInput ''2'' (Some (exampleDecl [''src/b/*.ts'']))) (evalInput ''1'' (Some (exampleDecl [''src/a/**'']))) = Disjoint"
proof -
  have "evaluateConflict (evalInput ''1'' (Some (exampleDecl [''src/a/**'']))) (evalInput ''2'' (Some (exampleDecl [''src/b/*.ts'']))) = Disjoint"
    by code_simp
  then show ?thesis using disjoint_verdict_sound by blast
qed

text \<open>The normal form of a declaration is a strictly sorted list of distinct surfaces, holds
  exactly the declared ones in canonical spelling, and two declarations of the same set of surfaces
  (in any order, with any repetition) have the same normal form.\<close>

lemma normalize_ownership_canonical:
  "sorted_wrt (\<lambda>x y. compareSurfaces x y < 0) (normalizeOwnership (Some d))
   \<and> set (normalizeOwnership (Some d)) = set (declaredSurfaces d)
   \<and> (set (declaredSurfaces d) = set (declaredSurfaces d')
       \<longrightarrow> normalizeOwnership (Some d) = normalizeOwnership (Some d'))"
proof -
  have strict: "compareSurfaces x y = 0 \<Longrightarrow> x = y" for x y
    by (auto simp: compareSurfaces_def split: if_splits)
  have "sorted_wrt (\<lambda>x y. compareSurfaces x y < 0) xs"
    if "distinct xs" "sorted_wrt (\<lambda>x y. compareSurfaces x y \<le> 0) xs" for xs
    using that by (induction xs) (auto simp: less_le dest: strict)
  then show ?thesis
    using normalizeOwnership_determined distinct_normalizeOwnership sorted_normalizeOwnership
      set_normalizeOwnership by blast
qed

text \<open>Canonicalizing a pattern that passed validation is idempotent, so two spellings of one
  surface that canonicalize to the same text stay equal under repeated normalization.\<close>

lemma canonicalize_idempotent:
  assumes "\<not> isMalformedGlob p"
  shows "canonicalizePattern (canonicalizePattern p) = canonicalizePattern p"
proof -
  have v: "list_all validPatternChar (js_trim p)" using assms by (rule isMalformedGlob_chars)
  have eq: "canonicalizePattern (js_trim p) = canonicalizePattern p"
    by (rule canonicalizePattern_trim) (rule trim_valid [OF v])
  let ?c = "canonicalizePattern (js_trim p)"
  have shape: "list_all validPatternChar ?c \<and> noDouble ?c \<and> \<not> dotSlash ?c
      \<and> \<not> (length ?c > 1 \<and> last ?c = CHR ''/'')"
    using canonicalizePattern_shape [OF v] by simp
  have "canonicalizePattern ?c = ?c"
    unfolding canonicalizePattern_def [of ?c]
    using shape by (auto simp: trim_valid backslash_valid stripDotSlash_id collapse_id Let_def)
  then show ?thesis by (simp add: eq)
qed


text \<open>On a typed declaration validation succeeds exactly when every declared pattern is a
  well-formed glob and every exception is complete; otherwise it reports a \<open>validation\<close> failure.\<close>

lemma validate_declaration_complete:
  "(validateOwnershipDeclaration (declarationJs (Some d)) = Inr () \<longleftrightarrow> declarationWf d)
   \<and> (\<forall>e. validateOwnershipDeclaration decl = Inl e \<longrightarrow> loopFailureClass e = Validation)"
proof -
  have each: "validateEach f xs = Inl e \<Longrightarrow> \<exists>x\<in>set xs. f x = Inl e" for f :: "'b \<Rightarrow> unit result" and xs e
    by (induction xs) (auto split: sum.splits)
  have shared: "validateSharedEntries fs = Inl e \<Longrightarrow> loopFailureClass e = Validation" for fs e
    by (induction fs rule: validateSharedEntries.induct) (auto split: if_splits option.splits)
  have exc: "validateException x = Inl e \<Longrightarrow> loopFailureClass e = Validation" for x e
    by (auto simp: validateException_def Let_def split: if_splits)
  have "validateExclusive x = Inl e \<or> validateShared x = Inl e \<or> validateConflictsWith x = Inl e
      \<or> validateExceptions x = Inl e \<Longrightarrow> loopFailureClass e = Validation" for x e
    using shared exc each by (auto simp: validateExclusive_def validateShared_def validateConflictsWith_def
        validateExceptions_def split: if_splits option.splits jsval.splits; blast)
  then have "validateOwnershipDeclaration decl = Inl e \<Longrightarrow> loopFailureClass e = Validation" for e
    unfolding validateOwnershipDeclaration_def
    by (auto split: if_splits sum.splits)
  then show ?thesis by (auto simp: validate_declarationJs)
qed

text \<open>A \<open>.\<close> segment inside a pattern is neither refused nor normalized away, so two valid
  exclusive declarations that name the same file are judged \<open>disjoint\<close>.\<close>

lemma dot_segment_alias_disjoint:
  "validateOwnershipDeclaration (declarationJs (Some (exampleDecl [''src/./a.ts'']))) = Inr ()
   \<and> validateOwnershipDeclaration (declarationJs (Some (exampleDecl [''src/a.ts'']))) = Inr ()
   \<and> evaluateConflict (evalInput ''1'' (Some (exampleDecl [''src/./a.ts''])))
        (evalInput ''2'' (Some (exampleDecl [''src/a.ts'']))) = Disjoint"
  by code_simp

end
