(* ===== verification/Lifecycle.thy ===== *)
theory Lifecycle
  imports Loop_Types
begin

text \<open>
  The closed RecoverySupervisor lifecycle law (\<open>core/scripts/recovery-lifecycle-ownership.ts\<close>)
  and the logical-operation identity it is keyed by (\<open>core/scripts/logical-operation.ts\<close>).
  \<open>deriveLifecycleState\<close> and \<open>consultLifecycleRecord\<close> decide the state,
  \<open>applyLifecycleTransition\<close> writes it, \<open>bindLifecycleRecord\<close> puts it on a ledger. The
  lemmas show which evidence each of the six states needs, and the step relation
  \<open>lifecycle_step\<close> that the two terminal states are sticky.
\<close>

section \<open>Logical-operation identity\<close>

definition nonEmpty :: "string option \<Rightarrow> string option" where
  "nonEmpty v = (case v of None \<Rightarrow> None
     | Some s \<Rightarrow> (let trimmed = js_trim s in if trimmed = [] then None else Some trimmed))"

text \<open>The mint is the code's \<open>crypto.randomBytes\<close>, a parameter.\<close>

definition resolveLogicalOperationId ::
  "string option \<Rightarrow> string option \<Rightarrow> string option \<Rightarrow> string option \<Rightarrow> string \<Rightarrow> string" where
  "resolveLogicalOperationId written loopStore parent namedRun mint =
     (case nonEmpty written of Some w \<Rightarrow> w
      | None \<Rightarrow> (case nonEmpty loopStore of Some l \<Rightarrow> l
      | None \<Rightarrow> (case nonEmpty parent of Some p \<Rightarrow> p
      | None \<Rightarrow> (case nonEmpty namedRun of Some n \<Rightarrow> n
      | None \<Rightarrow> mint))))"

section \<open>Vocabularies\<close>

datatype MechanicalFaultClass =
    MechanicalFailure | UnknownFailure | MalformedOutput | ProcessDeath | NoProgress | Capacity
  | RetryExhaustion

definition MECHANICAL_COMPATIBILITY_STOP_REASONS :: "string list" where
  "MECHANICAL_COMPATIBILITY_STOP_REASONS =
     [''run_fatal'', ''recovery_exhausted'', ''repeated_no_progress'', ''consecutive_blocked'',
      ''supervisor_no_progress'', ''supervisor_cycle_cap'', ''worktree_capacity'']"

definition isMechanicalCompatibilityStopReason :: "string option \<Rightarrow> bool" where
  "isMechanicalCompatibilityStopReason reason =
     (case reason of None \<Rightarrow> False | Some r \<Rightarrow> r \<in> set MECHANICAL_COMPATIBILITY_STOP_REASONS)"

record LifecycleDerivationInput =
  in_labels :: "string list option"
  in_typedRequest :: "PublicTypedRequest option"
  in_stopReason :: "string option"
  in_cooling :: bool
  in_trainOutcome :: "string option"
  in_observerProvedPostcondition :: bool
  in_processExitCode :: "int option"
  in_cancelledByAuthenticatedCaller :: bool
  in_cancelledByOriginalAuthorizedCaller :: bool
  in_activeAttempt :: bool
  in_externalConditionWait :: bool
  in_faultClass :: "MechanicalFaultClass option"

definition emptyDerivation :: LifecycleDerivationInput where
  "emptyDerivation =
     \<lparr>in_labels = None, in_typedRequest = None, in_stopReason = None, in_cooling = False,
      in_trainOutcome = None, in_observerProvedPostcondition = False, in_processExitCode = None,
      in_cancelledByAuthenticatedCaller = False, in_cancelledByOriginalAuthorizedCaller = False,
      in_activeAttempt = False, in_externalConditionWait = False, in_faultClass = None\<rparr>"

section \<open>Ownership values\<close>

definition owned :: "RecoveryLifecycleState \<Rightarrow> bool \<Rightarrow> PublicTypedRequest option \<Rightarrow> LifecycleOwnership" where
  "owned state human_authority typed_request =
     \<lparr>lo_state = state, lo_owned = True, lo_ownerless = False, lo_human_owned = False,
      lo_cancelled = (state = Cancelled), lo_human_authority = human_authority,
      lo_typed_request = typed_request\<rparr>"

definition TERMINAL_LIFECYCLE_STATES :: "RecoveryLifecycleState set" where
  "TERMINAL_LIFECYCLE_STATES = {Succeeded, Cancelled}"

definition ownershipFromRecord :: "DurableLifecycleRecord \<Rightarrow> LifecycleOwnership" where
  "ownershipFromRecord r =
     \<lparr>lo_state = lo_state r, lo_owned = True, lo_ownerless = False, lo_human_owned = False,
      lo_cancelled = lo_cancelled r, lo_human_authority = lo_human_authority r,
      lo_typed_request = lo_typed_request r\<rparr>"

definition sameOwnership :: "DurableLifecycleRecord \<Rightarrow> LifecycleOwnership \<Rightarrow> bool" where
  "sameOwnership r next \<longleftrightarrow>
     lo_state r = lo_state next \<and> lo_cancelled r = lo_cancelled next
     \<and> lo_human_authority r = lo_human_authority next \<and> lo_typed_request r = lo_typed_request next"

definition lifecycleRecord ::
  "string \<Rightarrow> LifecycleOwnership \<Rightarrow> timestamp \<Rightarrow> int \<Rightarrow> DurableLifecycleRecord" where
  "lifecycleRecord opId next updated_at revision =
     LifecycleOwnership.extend next
       \<lparr>dl_logical_operation_id = opId, dl_updated_at = updated_at, dl_revision = revision\<rparr>"

definition admitLifecycleRecord :: "string \<Rightarrow> timestamp \<Rightarrow> string + DurableLifecycleRecord" where
  "admitLifecycleRecord logical_operation_id updated_at =
     (let opId = js_trim logical_operation_id
      in if opId = [] then Inl ''lifecycle record: logical_operation_id is required''
         else Inr (lifecycleRecord opId (owned Active False None) updated_at 1))"

definition applyLifecycleTransition ::
  "DurableLifecycleRecord option \<Rightarrow> LifecycleOwnership \<Rightarrow> timestamp \<Rightarrow> string \<Rightarrow> DurableLifecycleRecord" where
  "applyLifecycleTransition current next updated_at logical_operation_id =
     (case current of
        None \<Rightarrow> lifecycleRecord (js_trim logical_operation_id) next updated_at 1
      | Some cur \<Rightarrow>
          if lo_state cur \<in> TERMINAL_LIFECYCLE_STATES \<and> lo_state next \<noteq> lo_state cur then cur
          else if sameOwnership cur next then cur
          else lifecycleRecord (dl_logical_operation_id cur) next updated_at (dl_revision cur + 1))"

section \<open>Deriving and consulting the state\<close>

definition hasNeedsHumanLabel :: "string list option \<Rightarrow> bool" where
  "hasNeedsHumanLabel labels =
     list_ex (\<lambda>l. l = ''pipeline:needs-human'' \<or> l = ''needs-human'') (orElse labels [])"

definition hasBlockedLabel :: "string list option \<Rightarrow> bool" where
  "hasBlockedLabel labels = list_ex (\<lambda>l. l = ''pipeline:blocked'' \<or> l = ''blocked'') (orElse labels [])"

definition deriveLifecycleState :: "LifecycleDerivationInput \<Rightarrow> LifecycleOwnership" where
  "deriveLifecycleState i =
     (if in_cancelledByAuthenticatedCaller i \<or> in_cancelledByOriginalAuthorizedCaller i
      then owned Cancelled False None
      else if in_observerProvedPostcondition i then owned Succeeded False None
      else (case in_typedRequest i of
        Some t \<Rightarrow> owned TypedInputWait (t = AuthorityRequest) (Some t)
      | None \<Rightarrow>
        if in_externalConditionWait i then owned ExternalConditionWait False None
        else (case in_faultClass i of
          Some f \<Rightarrow> if f = Capacity then owned ExternalConditionWait False None
                    else owned Cooling False None
        | None \<Rightarrow>
          if isMechanicalCompatibilityStopReason (in_stopReason i) \<or> in_cooling i
          then (if in_stopReason i = Some ''worktree_capacity''
                then owned ExternalConditionWait False None else owned Cooling False None)
          else if in_trainOutcome i = Some ''STOP'' then owned Cooling False None
          else if hasNeedsHumanLabel (in_labels i) \<or> hasBlockedLabel (in_labels i)
          then owned Cooling False None
          else if in_activeAttempt i then owned Active False None
          else if in_processExitCode i = Some 0 \<and> \<not> in_observerProvedPostcondition i
          then owned Cooling False None
          else owned Cooling False None)))"

definition consultLifecycleRecord ::
  "DurableLifecycleRecord option \<Rightarrow> LifecycleDerivationInput \<Rightarrow> LifecycleOwnership" where
  "consultLifecycleRecord r evidence =
     (if in_cancelledByAuthenticatedCaller evidence \<or> in_cancelledByOriginalAuthorizedCaller evidence
      then owned Cancelled False None
      else if in_observerProvedPostcondition evidence then owned Succeeded False None
      else (case in_typedRequest evidence of
        Some t \<Rightarrow> owned TypedInputWait (t = AuthorityRequest) (Some t)
      | None \<Rightarrow>
        (case r of
           None \<Rightarrow> deriveLifecycleState evidence
         | Some rec \<Rightarrow>
             if lo_state rec = TypedInputWait
             then deriveLifecycleState (evidence\<lparr>in_typedRequest := None\<rparr>)
             else ownershipFromRecord rec)))"

definition bindLifecycleRecord ::
  "LoopLedger \<Rightarrow> string \<Rightarrow> LifecycleOwnership \<Rightarrow> timestamp \<Rightarrow> LoopLedger" where
  "bindLifecycleRecord ledger logicalOperationId ownership updated_at =
     ledger\<lparr>ll_lifecycle :=
       Some (applyLifecycleTransition (ll_lifecycle ledger) ownership updated_at logicalOperationId)\<rparr>"

section \<open>Observer proof\<close>

definition OBSERVER_SUCCESS_ITEM_STATES :: "LoopItemState set" where
  "OBSERVER_SUCCESS_ITEM_STATES = {Ready, Merged, Released, Deployed}"

definition OBSERVER_PROOF_FRESHNESS_WINDOW_SECONDS :: rat where
  "OBSERVER_PROOF_FRESHNESS_WINDOW_SECONDS = 300"

definition identityIsFresh :: "LoopExternalIdentity \<Rightarrow> int option \<Rightarrow> rat \<Rightarrow> bool" where
  "identityIsFresh identity nowMs window =
     (case nowMs of None \<Rightarrow> True
      | Some now \<Rightarrow> (case date_parse (ei_observed_at identity) of None \<Rightarrow> False
          | Some seen \<Rightarrow> (let ageSeconds = of_int (now - seen) / 1000
                       in \<not> (ageSeconds < 0 \<or> ageSeconds > window))))"

definition identityProvesObserverSuccessState ::
  "LoopItemState \<Rightarrow> LoopExternalIdentity option \<Rightarrow> int option \<Rightarrow> rat \<Rightarrow> bool" where
  "identityProvesObserverSuccessState state identity nowMs window =
     (case identity of None \<Rightarrow> False
      | Some ident \<Rightarrow>
          if state \<notin> OBSERVER_SUCCESS_ITEM_STATES then False
          else if \<not> identityIsFresh ident nowMs window then False
          else (case state of
             Ready \<Rightarrow> ei_pr_number ident \<noteq> None \<and> ei_pr_state ident = Some PrOpen
                      \<and> ei_ready_label_present ident
           | Merged \<Rightarrow> ei_pr_state ident = Some PrMerged
           | _ \<Rightarrow> False))"

fun firstTyped :: "LoopItemLedgerEntry list \<Rightarrow> PublicTypedRequest option" where
  "firstTyped [] = None"
| "firstTyped (i # is) =
     (case Option.bind (le_hold_request i) hr_typed_request of
        Some t \<Rightarrow> Some t | None \<Rightarrow> firstTyped is)"

definition typedRequestFromOwnedItems :: "LoopItemLedgerEntry js_record \<Rightarrow> PublicTypedRequest option" where
  "typedRequestFromOwnedItems items = firstTyped (rec_values items)"

definition lifecycleOwnershipAfterItemTransition ::
  "LoopItemLedgerEntry js_record \<Rightarrow> bool \<Rightarrow> string option \<Rightarrow> bool \<Rightarrow> bool \<Rightarrow> int option \<Rightarrow> rat option
    \<Rightarrow> LifecycleOwnership" where
  "lifecycleOwnershipAfterItemTransition items cooling stopReason observerProved activeAttempt nowMs window =
     (let list = rec_values items;
          windowSeconds = orElse window OBSERVER_PROOF_FRESHNESS_WINDOW_SECONDS;
          allCurrentSuccessProof = (list \<noteq> [] \<and> list_all (\<lambda>item.
            identityProvesObserverSuccessState (le_state item) (le_last_verified_identity item)
              nowMs windowSeconds) list)
      in deriveLifecycleState (emptyDerivation\<lparr>
           in_typedRequest := typedRequestFromOwnedItems items,
           in_cooling := cooling, in_stopReason := stopReason,
           in_observerProvedPostcondition := observerProved \<and> allCurrentSuccessProof,
           in_activeAttempt := activeAttempt\<rparr>))"

definition lifecycleAllowsRecoveryRecipe ::
  "DurableLifecycleRecord option \<Rightarrow> LoopItemLedgerEntry option \<Rightarrow> bool" where
  "lifecycleAllowsRecoveryRecipe r item =
     (if map_option lo_state r = Some Cancelled \<or> map_option lo_state r = Some Succeeded then False
      else if map_option lo_state r = Some TypedInputWait
      then Option.bind (Option.bind item le_hold_request) hr_typed_request = None
      else (let life = consultLifecycleRecord r emptyDerivation
            in lo_state life \<noteq> Cancelled \<and> lo_state life \<noteq> Succeeded))"

definition lifecycleAfterProcessExit :: "int option \<Rightarrow> bool \<Rightarrow> LifecycleOwnership" where
  "lifecycleAfterProcessExit exitCode observerProved =
     (if observerProved then owned Succeeded False None else owned Cooling False None)"

definition lifecycleForMechanicalFault :: "MechanicalFaultClass \<Rightarrow> LifecycleOwnership" where
  "lifecycleForMechanicalFault fault = deriveLifecycleState (emptyDerivation\<lparr>in_faultClass := Some fault\<rparr>)"

section \<open>Compatibility stops\<close>

definition stopIsMechanical :: "LoopStopRecord option \<Rightarrow> bool" where
  "stopIsMechanical stop =
     isMechanicalCompatibilityStopReason (map_option (\<lambda>s. stopReasonName (st_reason s)) stop)"

definition compatibilityStopRefusesItem :: "LoopStopRecord option \<Rightarrow> string \<Rightarrow> bool" where
  "compatibilityStopRefusesItem stop itemId =
     (case stop of None \<Rightarrow> False
      | Some s \<Rightarrow> if \<not> isMechanicalCompatibilityStopReason (Some (stopReasonName (st_reason s))) then True
                  else st_item_id s = Some itemId)"

definition coolingRecordFromCompatibilityStop :: "LoopStopRecord \<Rightarrow> LoopCoolingRecord" where
  "coolingRecordFromCompatibilityStop stop =
     \<lparr>co_reason = MechanicalExhaustion, co_time = st_time stop,
      co_item_id = (if truthy (st_item_id stop) then st_item_id stop else None),
      co_theme = (if truthy (st_theme stop) then st_theme stop else None),
      co_candidate_epoch = None, co_next_eligible_at = None,
      co_historical_evidence =
        (if st_reason stop \<in> {RecoveryExhausted, RunFatal, RepeatedNoProgressStop}
         then Some (st_reason stop) else None),
      co_quarantine_path = None\<rparr>"

record CycleDisposition =
  cd_stop :: "LoopStopRecord option"
  cd_cooling :: "LoopCoolingRecord option"
  cd_continueSiblings :: bool

definition supervisorCycleDispositionForStop :: "LoopStopRecord option \<Rightarrow> bool \<Rightarrow> CycleDisposition" where
  "supervisorCycleDispositionForStop stop hasSchedulableSibling =
     (case stop of
        None \<Rightarrow> \<lparr>cd_stop = None, cd_cooling = None, cd_continueSiblings = False\<rparr>
      | Some s \<Rightarrow>
          if \<not> stopIsMechanical (Some s)
          then \<lparr>cd_stop = Some s, cd_cooling = None, cd_continueSiblings = False\<rparr>
          else if hasSchedulableSibling
          then \<lparr>cd_stop = None, cd_cooling = None, cd_continueSiblings = True\<rparr>
          else \<lparr>cd_stop = None, cd_cooling = Some (coolingRecordFromCompatibilityStop s),
                cd_continueSiblings = False\<rparr>)"

section \<open>Properties\<close>

lemma lo_state_owned [simp]: "lo_state (owned s h t) = s"
  by (simp add: owned_def)

lemma owned_fields [simp]:
  "lo_owned (owned s h t)" "\<not> lo_ownerless (owned s h t)" "\<not> lo_human_owned (owned s h t)"
  "lo_cancelled (owned s h t) = (s = Cancelled)" "lo_human_authority (owned s h t) = h"
  "lo_typed_request (owned s h t) = t"
  by (simp_all add: owned_def)

lemma lifecycleRecord_fields [simp]:
  "lo_state (lifecycleRecord opId n t r) = lo_state n"
  "dl_revision (lifecycleRecord opId n t r) = r"
  "dl_logical_operation_id (lifecycleRecord opId n t r) = opId"
  "lo_cancelled (lifecycleRecord opId n t r) = lo_cancelled n"
  "lo_human_authority (lifecycleRecord opId n t r) = lo_human_authority n"
  "lo_typed_request (lifecycleRecord opId n t r) = lo_typed_request n"
  by (cases n; simp add: lifecycleRecord_def LifecycleOwnership.defs)+

text \<open>Which evidence each state needs: the whole decision table of \<open>deriveLifecycleState\<close>.\<close>

lemma derive_cancelled_iff:
  "lo_state (deriveLifecycleState i) = Cancelled \<longleftrightarrow>
     in_cancelledByAuthenticatedCaller i \<or> in_cancelledByOriginalAuthorizedCaller i"
  by (simp add: deriveLifecycleState_def split: option.splits)

lemma derive_succeeded_iff:
  "lo_state (deriveLifecycleState i) = Succeeded \<longleftrightarrow>
     in_observerProvedPostcondition i
     \<and> \<not> (in_cancelledByAuthenticatedCaller i \<or> in_cancelledByOriginalAuthorizedCaller i)"
  by (simp add: deriveLifecycleState_def split: option.splits)

lemma derive_typed_wait_iff:
  "lo_state (deriveLifecycleState i) = TypedInputWait \<longleftrightarrow>
     in_typedRequest i \<noteq> None \<and> \<not> in_observerProvedPostcondition i
     \<and> \<not> (in_cancelledByAuthenticatedCaller i \<or> in_cancelledByOriginalAuthorizedCaller i)"
  by (simp add: deriveLifecycleState_def split: option.splits)

lemma derive_human_authority:
  "lo_human_authority (deriveLifecycleState i) \<longleftrightarrow>
     in_typedRequest i = Some AuthorityRequest \<and> lo_state (deriveLifecycleState i) = TypedInputWait"
  by (simp add: deriveLifecycleState_def split: option.splits)

lemma derive_owned: "lo_owned (deriveLifecycleState i) \<and> \<not> lo_ownerless (deriveLifecycleState i)
    \<and> \<not> lo_human_owned (deriveLifecycleState i)"
  by (simp add: deriveLifecycleState_def split: option.splits)

lemmas derive_iffs = derive_cancelled_iff derive_succeeded_iff derive_typed_wait_iff

text \<open>A step of the durable record: any lawful write through \<open>applyLifecycleTransition\<close>.\<close>

inductive lifecycle_step :: "DurableLifecycleRecord \<Rightarrow> DurableLifecycleRecord \<Rightarrow> bool" where
  lawful: "lifecycle_step r (applyLifecycleTransition (Some r) next t opId)"

inductive_cases lifecycle_stepE: "lifecycle_step r r'"

lemma applyLifecycleTransition_sticky:
  "lo_state r \<in> TERMINAL_LIFECYCLE_STATES \<Longrightarrow> lo_state (applyLifecycleTransition (Some r) n t opId) = lo_state r"
  by (auto simp: applyLifecycleTransition_def)

lemma applyLifecycleTransition_id:
  "dl_logical_operation_id (applyLifecycleTransition (Some r) n t opId) = dl_logical_operation_id r"
  by (simp add: applyLifecycleTransition_def)

lemma applyLifecycleTransition_revision:
  "applyLifecycleTransition (Some r) n t opId = r
   \<or> dl_revision (applyLifecycleTransition (Some r) n t opId) = dl_revision r + 1"
  by (simp add: applyLifecycleTransition_def)

lemma lifecycle_steps_invariant:
  assumes "lifecycle_step\<^sup>*\<^sup>* r r'"
  shows "dl_logical_operation_id r' = dl_logical_operation_id r \<and> dl_revision r \<le> dl_revision r'
    \<and> (lo_state r \<in> TERMINAL_LIFECYCLE_STATES \<longrightarrow> lo_state r' = lo_state r)"
  using assms
proof (induction rule: rtranclp_induct)
  case (step y z)
  from step.hyps(2) obtain n t opId where z: "z = applyLifecycleTransition (Some y) n t opId"
    by (auto elim: lifecycle_stepE)
  show ?case
    using step.IH applyLifecycleTransition_revision [of y n t opId]
    by (auto simp: z applyLifecycleTransition_id applyLifecycleTransition_sticky)
qed simp

lemma firstTyped_None: "firstTyped is = None \<longleftrightarrow>
    (\<forall>i\<in>set is. Option.bind (le_hold_request i) hr_typed_request = None)"
  by (induction "is") (auto split: option.splits)

lemma compatibilityStopRefusesItem_None [simp]: "\<not> compatibilityStopRefusesItem None i"
  by (simp add: compatibilityStopRefusesItem_def)

text \<open>A supervised run of the record: each piece of evidence is consulted against the durable record
  and the answer is written back, as every caller of the two functions does.\<close>

definition lifecycleObserve :: "LifecycleDerivationInput \<times> timestamp \<Rightarrow> DurableLifecycleRecord \<Rightarrow> DurableLifecycleRecord" where
  "lifecycleObserve e r = applyLifecycleTransition (Some r) (consultLifecycleRecord (Some r) (fst e)) (snd e)
     (dl_logical_operation_id r)"

definition terminalVerdict :: "LifecycleDerivationInput \<Rightarrow> RecoveryLifecycleState option" where
  "terminalVerdict e =
     (if in_cancelledByAuthenticatedCaller e \<or> in_cancelledByOriginalAuthorizedCaller e then Some Cancelled
      else if in_observerProvedPostcondition e then Some Succeeded else None)"

lemma lifecycleObserve_step: "lifecycle_step r (lifecycleObserve e r)"
  unfolding lifecycleObserve_def by (rule lifecycle_step.lawful)

lemma lifecycleObserve_steps: "lifecycle_step\<^sup>*\<^sup>* r (fold lifecycleObserve es r)"
proof (induction es arbitrary: r)
  case (Cons e es)
  have "lifecycle_step\<^sup>*\<^sup>* (lifecycleObserve e r) (fold lifecycleObserve es (lifecycleObserve e r))" by (rule Cons.IH)
  with lifecycleObserve_step [of r e] show ?case by (simp add: converse_rtranclp_into_rtranclp)
qed simp

lemma consult_terminal:
  assumes "lo_state r \<notin> TERMINAL_LIFECYCLE_STATES"
  shows "case terminalVerdict e of
      None \<Rightarrow> lo_state (consultLifecycleRecord (Some r) e) \<notin> TERMINAL_LIFECYCLE_STATES
    | Some v \<Rightarrow> lo_state (consultLifecycleRecord (Some r) e) = v"
  using assms by (auto simp: terminalVerdict_def consultLifecycleRecord_def TERMINAL_LIFECYCLE_STATES_def derive_iffs
    ownershipFromRecord_def split: option.splits)

lemma apply_state:
  "lo_state r \<notin> TERMINAL_LIFECYCLE_STATES \<Longrightarrow> lo_state (applyLifecycleTransition (Some r) n t i) = lo_state n"
  by (auto simp: applyLifecycleTransition_def sameOwnership_def)

text \<open>C18: whatever evidence a supervised run of the durable lifecycle record observes, the run ends in the terminal
  state of the first terminal evidence (authenticated cancellation before observer proof) and in a
  non-terminal state when there was none; no process exit, label, stop or typed request is terminal. The
  record keeps its logical operation and its revision never goes back.\<close>

theorem lifecycle_terminal_first_evidence:
  assumes "lo_state r \<notin> TERMINAL_LIFECYCLE_STATES"
  shows "(case List.map_filter (terminalVerdict \<circ> fst) es of
       [] \<Rightarrow> lo_state (fold lifecycleObserve es r) \<notin> TERMINAL_LIFECYCLE_STATES
     | v # _ \<Rightarrow> lo_state (fold lifecycleObserve es r) = v)
    \<and> dl_logical_operation_id (fold lifecycleObserve es r) = dl_logical_operation_id r
    \<and> dl_revision r \<le> dl_revision (fold lifecycleObserve es r)"
proof -
  have "case List.map_filter (terminalVerdict \<circ> fst) es of
       [] \<Rightarrow> lo_state (fold lifecycleObserve es r) \<notin> TERMINAL_LIFECYCLE_STATES
     | v # _ \<Rightarrow> lo_state (fold lifecycleObserve es r) = v"
    using assms
  proof (induction es arbitrary: r)
    case (Cons e es)
    have st: "lo_state (lifecycleObserve e r) = lo_state (consultLifecycleRecord (Some r) (fst e))"
      unfolding lifecycleObserve_def using Cons.prems by (rule apply_state)
    show ?case
    proof (cases "terminalVerdict (fst e)")
      case None
      then have "lo_state (lifecycleObserve e r) \<notin> TERMINAL_LIFECYCLE_STATES"
        using consult_terminal [OF Cons.prems, of "fst e"] st by simp
      from Cons.IH [OF this] None show ?thesis by (simp add: map_filter_simps split: list.splits)
    next
      case (Some v)
      then have v: "lo_state (lifecycleObserve e r) = v" "v \<in> TERMINAL_LIFECYCLE_STATES"
        using consult_terminal [OF Cons.prems, of "fst e"] st
        by (auto simp: terminalVerdict_def TERMINAL_LIFECYCLE_STATES_def split: if_splits)
      then have "lo_state (fold lifecycleObserve es (lifecycleObserve e r)) = v"
        using lifecycle_steps_invariant [OF lifecycleObserve_steps] by simp
      with Some show ?thesis by (simp add: map_filter_simps)
    qed
  qed (simp add: map_filter_simps)
  then show ?thesis using lifecycle_steps_invariant [OF lifecycleObserve_steps [of r es]] by blast
qed

theorem lifecycle_terminal_first_evidence_witness:
  "lo_state (fold lifecycleObserve
     [(emptyDerivation\<lparr>in_processExitCode := Some 0\<rparr>, Iso 1),
      (emptyDerivation\<lparr>in_observerProvedPostcondition := True\<rparr>, Iso 2),
      (emptyDerivation\<lparr>in_cancelledByAuthenticatedCaller := True\<rparr>, Iso 3)]
     (lifecycleRecord ''op'' (owned Active False None) (Iso 0) 1)) = Succeeded"
proof -
  have "lo_state (lifecycleRecord ''op'' (owned Active False None) (Iso 0) 1) \<notin> TERMINAL_LIFECYCLE_STATES"
    by (simp add: TERMINAL_LIFECYCLE_STATES_def)
  from lifecycle_terminal_first_evidence [OF this, of "[(emptyDerivation\<lparr>in_processExitCode := Some 0\<rparr>, Iso 1),
      (emptyDerivation\<lparr>in_observerProvedPostcondition := True\<rparr>, Iso 2),
      (emptyDerivation\<lparr>in_cancelledByAuthenticatedCaller := True\<rparr>, Iso 3)]"]
  show ?thesis by (simp add: map_filter_simps terminalVerdict_def emptyDerivation_def)
qed

definition provenItem :: "int option \<Rightarrow> rat \<Rightarrow> LoopItemLedgerEntry \<Rightarrow> bool" where
  "provenItem now window item = (case le_last_verified_identity item of None \<Rightarrow> False | Some ident \<Rightarrow>
     identityIsFresh ident now window
     \<and> (le_state item = Ready \<and> ei_pr_number ident \<noteq> None \<and> ei_pr_state ident = Some PrOpen
          \<and> ei_ready_label_present ident
        \<or> le_state item = Merged \<and> ei_pr_state ident = Some PrMerged))"


lemma identityProves_provenItem:
  "identityProvesObserverSuccessState (le_state item) (le_last_verified_identity item) now window = provenItem now window item"
  by (cases "le_state item")
    (auto simp: identityProvesObserverSuccessState_def provenItem_def OBSERVER_SUCCESS_ITEM_STATES_def split: option.splits)

text \<open>After an item transition the operation counts as succeeded exactly when the observer vouched for it and
  every item of a non-empty run is fresh and either ready (open pull request carrying the ready label)
  or merged (merged pull request); otherwise a typed request held by any item decides (the first one, with
  human authority only for an authority request), and otherwise the run cools unless an
  attempt is active and no mechanical stop is recorded.\<close>

lemma item_transition_lifecycle_exact:
  "let life = lifecycleOwnershipAfterItemTransition items cooling stop observed active now window;
       win = orElse window OBSERVER_PROOF_FRESHNESS_WINDOW_SECONDS;
       proved = (observed \<and> rec_values items \<noteq> [] \<and> list_all (provenItem now win) (rec_values items));
       asked = List.map_filter (\<lambda>i. Option.bind (le_hold_request i) hr_typed_request) (rec_values items)
   in lo_state life = (if proved then Succeeded
        else if asked \<noteq> [] then TypedInputWait
        else if stop = Some ''worktree_capacity'' then ExternalConditionWait
        else if active \<and> \<not> cooling \<and> \<not> isMechanicalCompatibilityStopReason stop then Active else Cooling)
    \<and> lo_typed_request life = (if proved \<or> asked = [] then None else Some (hd asked))
    \<and> (lo_human_authority life \<longleftrightarrow> lo_typed_request life = Some AuthorityRequest)"
proof -
  have first: "firstTyped is = (case List.map_filter (\<lambda>i. Option.bind (le_hold_request i) hr_typed_request) is of
      [] \<Rightarrow> None | t # _ \<Rightarrow> Some t)" for "is"
    by (induction "is") (auto simp: map_filter_simps split: option.splits)
  show ?thesis
    by (auto simp: lifecycleOwnershipAfterItemTransition_def Let_def identityProves_provenItem deriveLifecycleState_def
      emptyDerivation_def typedRequestFromOwnedItems_def first isMechanicalCompatibilityStopReason_def
      MECHANICAL_COMPATIBILITY_STOP_REASONS_def hasNeedsHumanLabel_def hasBlockedLabel_def
      split: list.splits)
qed

end
