(* ===== verification/Recovery_Policy.thy ===== *)
theory Recovery_Policy
  imports Loop_Types
begin

text \<open>
  Recovery-policy compilation and compatibility (\<open>core/scripts/loop/recovery-policy-compat.ts\<close>)
  and the mapping of legacy blocker themes (\<open>core/scripts/loop/import.ts\<close>). A policy is read
  from disk as \<open>unknown\<close>: \<open>compileRecoveryPolicy\<close> validates it,
  \<open>normalizeRecoveryPolicyCompatibility\<close> upgrades an older one first. The lemmas show what a
  compiled policy guarantees, that compilation accepts exactly such policies, and that the upgrade
  is idempotent and keeps every entry it does not know to be stale. The SHA-256 digest of
  \<open>recoveryEpisodeId\<close> (\<open>recovery-episode-id.ts\<close>) is a parameter.
\<close>

section \<open>Episode identity\<close>

record RecoveryEpisodeKey =
  ek_operation :: string
  ek_invariant :: string
  ek_candidate_epoch :: string
  ek_evidence_identity :: string

definition NUL :: string where
  "NUL = [CHR 0x00]"

definition recoveryEpisodeId :: "(string \<Rightarrow> string) \<Rightarrow> RecoveryEpisodeKey \<Rightarrow> string" where
  "recoveryEpisodeId sha256 key =
     sha256 (js_join NUL [''pipeline-recovery-episode@1'', ek_operation key, ek_invariant key,
       ek_candidate_epoch key, ek_evidence_identity key])"

section \<open>Compilation\<close>

definition HUMAN_AUTHORITY_CLASSES :: "DurableBlockerClass list" where
  "HUMAN_AUTHORITY_CLASSES = [MissingAuthority, SpecificationDecision]"

definition policyError :: "DurableBlockerClass \<Rightarrow> string \<Rightarrow> 'a result" where
  "policyError cls what = Inl (LoopError Validation
     (''recovery policy for '' @ quoted (blockerClassName cls) @ what))"

definition isIntegerNum :: "jsval \<Rightarrow> bool" where
  "isIntegerNum v \<longleftrightarrow> isFiniteNum v \<and> ratIsInteger (numVal v)"

definition jsnumVal :: "jsval \<Rightarrow> jsnum" where
  "jsnumVal v = (case v of JNum n \<Rightarrow> n | _ \<Rightarrow> NaN)"

definition validRecipes :: "jsval \<Rightarrow> bool" where
  "validRecipes v = (case v of JArr rs \<Rightarrow> list_all isRecoveryRecipe rs | _ \<Rightarrow> False)"

definition recipesVal :: "jsval \<Rightarrow> RecoveryRecipe list" where
  "recipesVal v = (case v of JArr rs \<Rightarrow> List.map_filter (\<lambda>r. recipeOf (strVal r)) rs | _ \<Rightarrow> [])"

definition compileEntry :: "DurableBlockerClass \<Rightarrow> jsval \<Rightarrow> RecoveryPolicyEntry result" where
  "compileEntry cls entry =
     (let recipes = jprop entry ''recipes''; retry_budget = jprop entry ''retry_budget'';
          backoff = jprop entry ''backoff''; terminal = jprop entry ''terminal_outcome'';
          run_fatal = jprop entry ''run_fatal''; bound = jprop entry ''per_strategy_bound'';
          limit = jprop entry ''repeated_evidence_limit''
      in if \<not> validRecipes recipes
         then policyError cls '' names a recipe outside the permitted recovery-recipe catalogue''
         else if \<not> isFiniteNum retry_budget \<or> numVal retry_budget < 0
         then policyError cls '' is missing a valid retry_budget''
         else if \<not> isPlainObject backoff \<or> \<not> isNumber (jprop backoff ''initial_seconds'')
           \<or> \<not> isNumber (jprop backoff ''multiplier'') \<or> \<not> isNumber (jprop backoff ''max_seconds'')
         then policyError cls '' is missing a valid backoff schedule''
         else if terminal \<noteq> JStr ''retry'' \<and> terminal \<noteq> JStr ''human_authority''
         then policyError cls '' is missing a valid terminal_outcome''
         else if run_fatal \<noteq> JBool True \<and> run_fatal \<noteq> JBool False
         then policyError cls '' is missing a valid run_fatal flag''
         else if bound \<noteq> JUndef \<and> (\<not> isIntegerNum bound \<or> numVal bound < 0)
         then policyError cls '' has an invalid per_strategy_bound''
         else if \<not> isFiniteNum limit \<or> numVal limit < 1
         then policyError cls '' is missing a valid repeated_evidence_limit''
         else if cls \<in> set HUMAN_AUTHORITY_CLASSES
           \<and> (terminal \<noteq> JStr ''human_authority'' \<or> recipesVal recipes \<noteq> [])
         then policyError cls '' must route to a terminal human-authority outcome with no automated recipe''
         else Inr \<lparr>pe_recipes = recipesVal recipes, pe_retry_budget = numVal retry_budget,
           pe_backoff = \<lparr>bo_initial_seconds = jsnumVal (jprop backoff ''initial_seconds''),
                         bo_multiplier = jsnumVal (jprop backoff ''multiplier''),
                         bo_max_seconds = jsnumVal (jprop backoff ''max_seconds'')\<rparr>,
           pe_terminal_outcome = (if terminal = JStr ''retry'' then Retry else HumanAuthority),
           pe_run_fatal = (run_fatal = JBool True),
           pe_repeated_evidence_limit = numVal limit,
           pe_per_strategy_bound = (if bound = JUndef then None else Some (numVal bound))\<rparr>)"

fun compileClasses ::
  "jsval \<Rightarrow> DurableBlockerClass list \<Rightarrow> (DurableBlockerClass \<times> RecoveryPolicyEntry) list result" where
  "compileClasses policy [] = Inr []"
| "compileClasses policy (cls # rest) =
     (let entry = jprop policy (blockerClassName cls)
      in if \<not> isPlainObject entry
         then Inl (LoopError Validation (''recovery policy is missing an entry for blocker class ''
                @ quoted (blockerClassName cls)))
         else (case compileEntry cls entry of Inl e \<Rightarrow> Inl e
               | Inr compiled \<Rightarrow> (case compileClasses policy rest of Inl e \<Rightarrow> Inl e
                   | Inr others \<Rightarrow> Inr ((cls, compiled) # others))))"

definition policyOf :: "(DurableBlockerClass \<times> RecoveryPolicyEntry) list \<Rightarrow> RecoveryPolicy" where
  "policyOf entries cls = the (map_of entries cls)"

definition compileRecoveryPolicy :: "jsval \<Rightarrow> RecoveryPolicy result" where
  "compileRecoveryPolicy policy =
     (if \<not> isPlainObject policy
      then Inl (LoopError Validation
             ''recovery policy must be an object mapping every DurableBlockerClass to a policy entry'')
      else (let unknownClasses = filter (\<lambda>key. \<not> isDurableBlockerClass key) (jkeys policy)
            in if unknownClasses \<noteq> []
               then Inl (LoopError Validation (''recovery policy names unknown blocker class(es): ''
                      @ js_join '', '' unknownClasses))
               else map_sum id policyOf (compileClasses policy DURABLE_BLOCKER_CLASSES)))"

section \<open>Defaults\<close>

definition JNumNat :: "nat \<Rightarrow> jsval" where
  "JNumNat n = JNum (Fin (of_nat n))"

text \<open>One literal entry: recipes, retry budget, backoff, terminal outcome, fatality, evidence limit.\<close>

definition rawEntry :: "string list \<Rightarrow> nat \<Rightarrow> nat \<times> nat \<times> nat \<Rightarrow> string \<Rightarrow> bool \<Rightarrow> nat \<Rightarrow> jsval" where
  "rawEntry recipes budget backoff outcome fatal limit =
     JObj [(''recipes'', JArr (map JStr recipes)), (''retry_budget'', JNumNat budget),
       (''backoff'', JObj [(''initial_seconds'', JNumNat (fst backoff)),
          (''multiplier'', JNumNat (fst (snd backoff))), (''max_seconds'', JNumNat (snd (snd backoff)))]),
       (''terminal_outcome'', JStr outcome), (''run_fatal'', JBool fatal),
       (''repeated_evidence_limit'', JNumNat limit)]"

fun defaultEntry :: "DurableBlockerClass \<Rightarrow> jsval" where
  "defaultEntry TransientRateLimit = rawEntry [''wait_and_retry''] 5 (30, 2, 900) ''retry'' False 3"
| "defaultEntry WorkflowState =
     rawEntry [''resync_workflow_state'', ''repair_pipeline_item''] 3 (15, 2, 300) ''retry'' False 2"
| "defaultEntry ImplementationCi =
     rawEntry [''verify_head_goal'', ''rerun_ci'', ''repair_pipeline_item''] 3 (30, 2, 600) ''retry'' False 2"
| "defaultEntry ReviewFindings =
     rawEntry [''unlink_engine_scratch'', ''repair_pipeline_item''] 3 (15, 2, 300) ''retry'' False 2"
| "defaultEntry EnvironmentAuth = rawEntry [''verify_authentication''] 2 (10, 2, 120) ''retry'' True 2"
| "defaultEntry SpecificationDecision = rawEntry [] 0 (0, 1, 0) ''human_authority'' True 1"
| "defaultEntry MissingAuthority = rawEntry [] 0 (0, 1, 0) ''human_authority'' True 1"
| "defaultEntry UpstreamDependency = rawEntry [''retry_upstream_check''] 3 (60, 2, 1800) ''retry'' False 3"
| "defaultEntry WorkflowEngineDefect =
     rawEntry [''unlink_engine_scratch'', ''checkpoint_owned_harness_dirt'',
       ''publish_unpublished_stage_commit'', ''rebind_tester_evidence_after_pr'',
       ''restart_workflow_engine'', ''repair_pipeline_item''] 2 (5, 1, 5) ''retry'' True 2"

definition DEFAULT_RECOVERY_POLICY_INPUT :: jsval where
  "DEFAULT_RECOVERY_POLICY_INPUT =
     JObj (map (\<lambda>cls. (blockerClassName cls, defaultEntry cls)) DURABLE_BLOCKER_CLASSES)"

definition DEFAULT_RECOVERY_POLICY :: RecoveryPolicy where
  "DEFAULT_RECOVERY_POLICY = projr (compileRecoveryPolicy DEFAULT_RECOVERY_POLICY_INPUT)"

fun STALE_DEFAULT_POLICY_ENTRIES :: "DurableBlockerClass \<Rightarrow> jsval list" where
  "STALE_DEFAULT_POLICY_ENTRIES WorkflowState =
     [rawEntry [''resync_workflow_state''] 3 (15, 2, 300) ''retry'' False 2]"
| "STALE_DEFAULT_POLICY_ENTRIES ImplementationCi =
     [rawEntry [''rerun_ci''] 3 (30, 2, 600) ''retry'' False 2,
      rawEntry [''rerun_ci'', ''repair_pipeline_item''] 3 (30, 2, 600) ''retry'' False 2]"
| "STALE_DEFAULT_POLICY_ENTRIES EnvironmentAuth =
     [rawEntry [''reauthenticate''] 2 (10, 2, 120) ''retry'' True 2]"
| "STALE_DEFAULT_POLICY_ENTRIES WorkflowEngineDefect =
     [rawEntry [''restart_workflow_engine''] 1 (5, 1, 5) ''retry'' True 1,
      rawEntry [''restart_workflow_engine'', ''repair_pipeline_item''] 1 (5, 1, 5) ''retry'' True 1,
      rawEntry [''restart_workflow_engine'', ''repair_pipeline_item''] 2 (5, 1, 5) ''retry'' True 2,
      rawEntry [''unlink_engine_scratch'', ''restart_workflow_engine'', ''repair_pipeline_item'']
        2 (5, 1, 5) ''retry'' True 2,
      rawEntry [''unlink_engine_scratch'', ''checkpoint_owned_harness_dirt'', ''restart_workflow_engine'',
        ''repair_pipeline_item''] 2 (5, 1, 5) ''retry'' True 2,
      rawEntry [''unlink_engine_scratch'', ''checkpoint_owned_harness_dirt'',
        ''publish_unpublished_stage_commit'', ''restart_workflow_engine'', ''repair_pipeline_item'']
        2 (5, 1, 5) ''retry'' True 2]"
| "STALE_DEFAULT_POLICY_ENTRIES ReviewFindings =
     [rawEntry [''repair_pipeline_item''] 3 (15, 2, 300) ''retry'' False 2]"
| "STALE_DEFAULT_POLICY_ENTRIES TransientRateLimit = []"
| "STALE_DEFAULT_POLICY_ENTRIES SpecificationDecision = []"
| "STALE_DEFAULT_POLICY_ENTRIES MissingAuthority = []"
| "STALE_DEFAULT_POLICY_ENTRIES UpstreamDependency = []"

section \<open>Compatibility normalization\<close>

text \<open>Deep equality up to the order of object keys; object keys are distinct.\<close>

fun samePolicyEntry :: "jsval \<Rightarrow> jsval \<Rightarrow> bool"
  and sameElements :: "jsval list \<Rightarrow> jsval list \<Rightarrow> bool"
  and sameFields :: "(string \<times> jsval) list \<Rightarrow> (string \<times> jsval) list \<Rightarrow> bool" where
  "samePolicyEntry (JArr xs) (JArr ys) = sameElements xs ys"
| "samePolicyEntry (JObj fs) (JObj gs) = (sort (map fst fs) = sort (map fst gs) \<and> sameFields fs gs)"
| "samePolicyEntry l r = (l = r)"
| "sameElements [] ys = (ys = [])"
| "sameElements (x # xs) ys = (case ys of [] \<Rightarrow> False | y # ys' \<Rightarrow> samePolicyEntry x y \<and> sameElements xs ys')"
| "sameFields [] gs = True"
| "sameFields ((k, v) # fs) gs =
     ((case map_of gs k of None \<Rightarrow> False | Some w \<Rightarrow> samePolicyEntry v w) \<and> sameFields fs gs)"

definition withField :: "jsval \<Rightarrow> string \<Rightarrow> jsval \<Rightarrow> jsval" where
  "withField v k x = (case v of JObj fs \<Rightarrow> JObj (rec_put k x fs) | _ \<Rightarrow> v)"

definition namesReauthenticate :: "jsval \<Rightarrow> bool" where
  "namesReauthenticate entry \<longleftrightarrow> isPlainObject entry
     \<and> (case jprop entry ''recipes'' of JArr rs \<Rightarrow> JStr ''reauthenticate'' \<in> set rs | _ \<Rightarrow> False)"

definition renameReauthenticate :: "jsval \<Rightarrow> jsval" where
  "renameReauthenticate entry =
     (case jprop entry ''recipes'' of
        JArr rs \<Rightarrow> withField entry ''recipes''
          (JArr (map (\<lambda>r. if r = JStr ''reauthenticate'' then JStr ''verify_authentication'' else r) rs))
      | _ \<Rightarrow> entry)"

definition migrateEntry :: "DurableBlockerClass \<Rightarrow> jsval \<Rightarrow> jsval" where
  "migrateEntry cls entry =
     (if entry = JUndef then defaultEntry cls
      else if list_ex (samePolicyEntry entry) (STALE_DEFAULT_POLICY_ENTRIES cls) then defaultEntry cls
      else if namesReauthenticate entry then renameReauthenticate entry
      else entry)"

text \<open>The loop over the classes; an entry that needs no migration is not written.\<close>

definition normalizeRecoveryPolicyCompatibility :: "jsval \<Rightarrow> jsval" where
  "normalizeRecoveryPolicyCompatibility policy =
     (if policy = JUndef then DEFAULT_RECOVERY_POLICY_INPUT
      else if \<not> isPlainObject policy then policy
      else fold (\<lambda>cls migrated.
             let entry = jprop migrated (blockerClassName cls); entry' = migrateEntry cls entry
             in if entry' = entry then migrated else withField migrated (blockerClassName cls) entry')
           DURABLE_BLOCKER_CLASSES policy)"

definition isBlankText :: "jsval \<Rightarrow> bool" where
  "isBlankText v = (case v of JStr s \<Rightarrow> js_trim s = [] | _ \<Rightarrow> True)"

definition isNullish :: "jsval \<Rightarrow> bool" where
  "isNullish v \<longleftrightarrow> v = JUndef \<or> v = JNull"

definition normalizeStartedRecoveryEpisodeIdentity :: "(string \<Rightarrow> string) \<Rightarrow> jsval \<Rightarrow> jsval" where
  "normalizeStartedRecoveryEpisodeIdentity sha256 v =
     (if \<not> isPlainObject v \<or> jprop v ''outcome'' \<noteq> JStr ''started'' \<or> jprop v ''episode_id'' \<noteq> JUndef
      then v
      else (let evidenceIdentity = (if isNullish (jprop v ''evidence_identity'')
                  then jprop v ''evidence_fingerprint'' else jprop v ''evidence_identity'')
            in if isBlankText (jprop v ''operation'') \<or> isBlankText (jprop v ''invariant'')
                  \<or> isBlankText (jprop v ''candidate_epoch'') \<or> isBlankText evidenceIdentity
               then v
               else withField (withField v ''evidence_identity'' evidenceIdentity) ''episode_id''
                 (JStr (recoveryEpisodeId sha256
                    \<lparr>ek_operation = strVal (jprop v ''operation''), ek_invariant = strVal (jprop v ''invariant''),
                     ek_candidate_epoch = strVal (jprop v ''candidate_epoch''),
                     ek_evidence_identity = strVal evidenceIdentity\<rparr>))))"

definition rebaseCursor :: "jsval \<Rightarrow> jsval" where
  "rebaseCursor a =
     (if \<not> isPlainObject a
         \<or> (jprop a ''class'' \<noteq> JStr ''workflow-engine-defect''
             \<and> jprop a ''invariant'' \<noteq> JStr ''workflow-engine-defect'')
         \<or> \<not> isIntegerNum (jprop a ''strategy_cursor'') \<or> numVal (jprop a ''strategy_cursor'') < 3
      then a else withField a ''strategy_cursor'' (JNumNat 3))"

definition normalizeRecoveryLedgerCompatibility :: "(string \<Rightarrow> string) \<Rightarrow> jsval \<Rightarrow> jsval \<Rightarrow> jsval" where
  "normalizeRecoveryLedgerCompatibility sha256 v policy =
     (case jprop v ''recovery_attempts'' of
        JArr attempts \<Rightarrow>
          (let workflowEntry = (if isPlainObject policy then jprop policy ''workflow-engine-defect'' else JUndef);
               pre1468 = last (STALE_DEFAULT_POLICY_ENTRIES WorkflowEngineDefect);
               rebase = samePolicyEntry workflowEntry pre1468;
               attempts' = map (\<lambda>a. let n = normalizeStartedRecoveryEpisodeIdentity sha256 a
                                     in if rebase then rebaseCursor n else n) attempts
           in if attempts' = attempts then v else withField v ''recovery_attempts'' (JArr attempts'))
      | _ \<Rightarrow> v)"

definition effectiveRecoveryPolicyForLedgerValidation :: "jsval \<Rightarrow> RecoveryPolicy option" where
  "effectiveRecoveryPolicyForLedgerValidation policy =
     (case compileRecoveryPolicy (normalizeRecoveryPolicyCompatibility policy) of
        Inl _ \<Rightarrow> None | Inr p \<Rightarrow> Some p)"

section \<open>Legacy themes\<close>

definition LEGACY_THEME_ALIASES :: "(string \<times> DurableBlockerClass) list" where
  "LEGACY_THEME_ALIASES =
     [(''rate_limit'', TransientRateLimit), (''rate_limited'', TransientRateLimit),
      (''throttled'', TransientRateLimit), (''workflow'', WorkflowState),
      (''workflow_state'', WorkflowState), (''ci'', ImplementationCi), (''ci_failure'', ImplementationCi),
      (''test_failure'', ImplementationCi), (''build_failure'', ImplementationCi),
      (''auth'', EnvironmentAuth), (''authentication'', EnvironmentAuth), (''environment'', EnvironmentAuth),
      (''spec'', SpecificationDecision), (''specification'', SpecificationDecision),
      (''decision'', SpecificationDecision), (''product_decision'', SpecificationDecision),
      (''authority'', MissingAuthority), (''permission'', MissingAuthority), (''needs_human'', MissingAuthority),
      (''upstream'', UpstreamDependency), (''dependency'', UpstreamDependency),
      (''blocked_on_dependency'', UpstreamDependency), (''engine_defect'', WorkflowEngineDefect),
      (''engine_bug'', WorkflowEngineDefect), (''goal_loop_defect'', WorkflowEngineDefect)]"

text \<open>\<open>replace(/[\s-]+/g, "_")\<close>: each run of spaces and hyphens becomes one underscore.\<close>

fun collapseSeparators :: "string \<Rightarrow> string" where
  "collapseSeparators [] = []"
| "collapseSeparators [c] = (if js_space c \<or> c = CHR ''-'' then ''_'' else [c])"
| "collapseSeparators (c # d # s) =
     (if js_space c \<or> c = CHR ''-''
      then (if js_space d \<or> d = CHR ''-'' then collapseSeparators (d # s)
            else CHR ''_'' # collapseSeparators (d # s))
      else c # collapseSeparators (d # s))"

definition normalizeTheme :: "string \<Rightarrow> string" where
  "normalizeTheme theme = collapseSeparators (js_lower (js_trim theme))"

definition mapLegacyThemeToBlockerClass :: "string \<Rightarrow> DurableBlockerClass result" where
  "mapLegacyThemeToBlockerClass theme =
     (case blockerClassOf theme of
        Some cls \<Rightarrow> Inr cls
      | None \<Rightarrow> (case map_of LEGACY_THEME_ALIASES (normalizeTheme theme) of
          Some cls \<Rightarrow> Inr cls
        | None \<Rightarrow> Inl (LoopError Validation
            (''legacy blocked theme '' @ quoted theme @ '' does not map to any DurableBlockerClass''))))"

section \<open>Lemmas\<close>

text \<open>What a compiled entry guarantees, and the raw value of a typed entry.\<close>

definition entryWf :: "DurableBlockerClass \<Rightarrow> RecoveryPolicyEntry \<Rightarrow> bool" where
  "entryWf cls e \<longleftrightarrow> 0 \<le> pe_retry_budget e \<and> 1 \<le> pe_repeated_evidence_limit e
     \<and> (case pe_per_strategy_bound e of None \<Rightarrow> True | Some b \<Rightarrow> ratIsInteger b \<and> 0 \<le> b)
     \<and> (cls \<in> set HUMAN_AUTHORITY_CLASSES \<longrightarrow> pe_terminal_outcome e = HumanAuthority \<and> pe_recipes e = [])"

definition entryJs :: "RecoveryPolicyEntry \<Rightarrow> jsval" where
  "entryJs e = JObj ([(''recipes'', JArr (map (\<lambda>r. JStr (recipeName r)) (pe_recipes e))),
     (''retry_budget'', JNum (Fin (pe_retry_budget e))),
     (''backoff'', JObj [(''initial_seconds'', JNum (bo_initial_seconds (pe_backoff e))),
        (''multiplier'', JNum (bo_multiplier (pe_backoff e))),
        (''max_seconds'', JNum (bo_max_seconds (pe_backoff e)))]),
     (''terminal_outcome'', JStr (case pe_terminal_outcome e of Retry \<Rightarrow> ''retry'' | HumanAuthority \<Rightarrow> ''human_authority'')),
     (''run_fatal'', JBool (pe_run_fatal e)),
     (''repeated_evidence_limit'', JNum (Fin (pe_repeated_evidence_limit e)))]
     @ (case pe_per_strategy_bound e of None \<Rightarrow> [] | Some b \<Rightarrow> [(''per_strategy_bound'', JNum (Fin b))]))"

definition policyJs :: "RecoveryPolicy \<Rightarrow> jsval" where
  "policyJs p = JObj (map (\<lambda>cls. (blockerClassName cls, entryJs (p cls))) DURABLE_BLOCKER_CLASSES)"

lemma isPlainObject_JObj [simp]: "isPlainObject (JObj fs)"
  by (simp add: isPlainObject_def)

lemma isPlainObject_entryJs [simp]: "isPlainObject (entryJs e)"
  by (simp add: entryJs_def)

lemma recipesVal_names [simp]: "recipesVal (JArr (map (\<lambda>r. JStr (recipeName r)) rs)) = rs"
  by (induction rs) (simp_all add: recipesVal_def List.map_filter_simps strVal_def)

lemma validRecipes_names [simp]: "validRecipes (JArr (map (\<lambda>r. JStr (recipeName r)) rs))"
  by (induction rs) (simp_all add: validRecipes_def)

lemma compileEntry_sound: "compileEntry cls v = Inr e \<Longrightarrow> entryWf cls e"
  by (auto simp: compileEntry_def Let_def policyError_def entryWf_def isIntegerNum_def split: if_splits)

lemma compileEntry_entryJs: "entryWf cls e \<Longrightarrow> compileEntry cls (entryJs e) = Inr e"
  by (cases e; cases "pe_per_strategy_bound e"; cases "pe_terminal_outcome e"; cases "pe_backoff e")
    (auto simp: compileEntry_def entryJs_def entryWf_def Let_def jprop_def isPlainObject_def isNumber_def
      isFiniteNum_def numVal_def jsnumVal_def isIntegerNum_def)

lemma compileClasses_sound:
  "compileClasses v cs = Inr es \<Longrightarrow> map fst es = cs \<and> (\<forall>(c, e)\<in>set es. entryWf c e
      \<and> isPlainObject (jprop v (blockerClassName c)) \<and> compileEntry c (jprop v (blockerClassName c)) = Inr e)"
  by (induction cs arbitrary: es)
    (auto simp: Let_def compileEntry_sound split: if_splits sum.splits)

lemma compileClasses_complete:
  "(\<And>c. c \<in> set cs \<Longrightarrow> isPlainObject (jprop v (blockerClassName c))
      \<and> compileEntry c (jprop v (blockerClassName c)) = Inr (p c))
    \<Longrightarrow> compileClasses v cs = Inr (map (\<lambda>c. (c, p c)) cs)"
  by (induction cs) (auto simp: Let_def)

lemma distinct_classes: "distinct DURABLE_BLOCKER_CLASSES"
  by (simp add: DURABLE_BLOCKER_CLASSES_def)

lemma policyOf_map [simp]: "policyOf (map (\<lambda>c. (c, p c)) DURABLE_BLOCKER_CLASSES) = p"
  by (rule ext) (simp add: policyOf_def map_of_map_restrict)

lemma compile_Inr_iff:
  "compileRecoveryPolicy v = Inr p \<longleftrightarrow>
     isPlainObject v \<and> (\<forall>k\<in>set (jkeys v). isDurableBlockerClass k)
     \<and> (\<forall>c. isPlainObject (jprop v (blockerClassName c))
           \<and> compileEntry c (jprop v (blockerClassName c)) = Inr (p c))" (is "?l \<longleftrightarrow> ?r")
proof
  assume l: ?l
  then obtain es where es: "compileClasses v DURABLE_BLOCKER_CLASSES = Inr es" "p = policyOf es"
    and w: "isPlainObject v" "\<forall>k\<in>set (jkeys v). isDurableBlockerClass k"
    by (cases "compileClasses v DURABLE_BLOCKER_CLASSES")
      (auto simp: compileRecoveryPolicy_def Let_def filter_empty_conv split: if_splits)
  note sound = compileClasses_sound [OF es(1)]
  have "(c, p c) \<in> set es" for c
  proof -
    have "c \<in> fst ` set es"
      using sound by (metis in_DURABLE_BLOCKER_CLASSES list.set_map)
    then obtain e where "map_of es c = Some e"
      by (metis map_of_eq_None_iff not_Some_eq)
    then show ?thesis using es(2) by (auto simp: policyOf_def dest: map_of_SomeD)
  qed
  with sound w show ?r by fast
next
  assume ?r
  then show ?l
    using compileClasses_complete [of DURABLE_BLOCKER_CLASSES v p]
    by (auto simp: compileRecoveryPolicy_def Let_def filter_empty_conv)
qed

lemma jprop_classMap [simp]:
  "jprop (JObj (map (\<lambda>cls. (blockerClassName cls, f cls)) DURABLE_BLOCKER_CLASSES)) (blockerClassName c) = f c"
  by (cases c) (simp_all add: jprop_def DURABLE_BLOCKER_CLASSES_def)

lemma jkeys_classMap:
  "set (jkeys (JObj (map (\<lambda>cls. (blockerClassName cls, f cls)) DURABLE_BLOCKER_CLASSES)))
    = range blockerClassName"
  by (auto simp: jkeys_def)

lemma jprop_withField [simp]:
  "jprop (withField v k x) k' = (if k' = k \<and> isPlainObject v then x else jprop v k')"
  using rec_get_put [of k x _ k']
  by (cases v) (auto simp: withField_def jprop_def isPlainObject_def rec_get_def)

lemma isPlainObject_withField [simp]: "isPlainObject (withField v k x) = isPlainObject v"
  by (cases v) (simp_all add: withField_def isPlainObject_def)

lemma sameFields_lookup:
  "sameFields fs gs \<Longrightarrow> map_of fs k = Some v \<Longrightarrow> \<exists>w. map_of gs k = Some w \<and> samePolicyEntry v w"
  by (induction fs) (auto split: option.splits if_splits)

lemma sameElements_strings: "sameElements xs ys \<Longrightarrow> list_all isString ys \<Longrightarrow> xs = ys"
proof (induction xs arbitrary: ys)
  case (Cons x xs)
  have s: "samePolicyEntry x y \<Longrightarrow> isString y \<Longrightarrow> x = y" for y
    by (cases x; cases y) (simp_all add: isString_def)
  from Cons s show ?case by (cases ys) auto
qed simp

lemma same_recipes:
  assumes "samePolicyEntry v e" "jprop v ''recipes'' = JArr xs" "jprop e ''recipes'' = JArr ys"
    "list_all isString ys"
  shows "xs = ys"
proof -
  obtain fs gs where v: "v = JObj fs" "e = JObj gs"
    using assms(2,3) by (cases v; cases e) (auto simp: jprop_def)
  have "map_of fs ''recipes'' = Some (JArr xs)" "map_of gs ''recipes'' = Some (JArr ys)"
    using assms(2,3) v by (auto simp: jprop_def split: option.splits)
  then have "sameElements xs ys"
    using assms(1) v by (auto dest!: sameFields_lookup)
  then show ?thesis using assms(4) by (rule sameElements_strings)
qed

lemma stale_recipes: "e \<in> set (STALE_DEFAULT_POLICY_ENTRIES cls) \<Longrightarrow>
    \<exists>ys. jprop e ''recipes'' = JArr ys \<and> list_all isString ys \<and> JStr ''verify_authentication'' \<notin> set ys"
  by (cases cls) (auto simp: rawEntry_def jprop_def isString_def)

lemma not_stale:
  assumes "JStr ''verify_authentication'' \<in> set xs" "jprop v ''recipes'' = JArr xs"
  shows "\<not> list_ex (samePolicyEntry v) (STALE_DEFAULT_POLICY_ENTRIES cls)"
  using stale_recipes same_recipes [OF _ assms(2)] assms(1) unfolding list_ex_iff by metis

lemma default_not_stale: "\<not> list_ex (samePolicyEntry (defaultEntry cls)) (STALE_DEFAULT_POLICY_ENTRIES cls)"
  by (cases cls) (simp_all add: rawEntry_def)

lemma default_no_reauth: "\<not> namesReauthenticate (defaultEntry cls)"
  by (cases cls) (simp_all add: rawEntry_def namesReauthenticate_def jprop_def)

lemma defaultEntry_object: "defaultEntry cls \<noteq> JUndef" "isPlainObject (defaultEntry cls)"
  by (cases cls; simp add: rawEntry_def isPlainObject_def)+

lemma migrateEntry_default [simp]: "migrateEntry cls (defaultEntry cls) = defaultEntry cls"
  by (simp add: migrateEntry_def default_no_reauth)

lemma migrateEntry_idem [simp]: "migrateEntry cls (migrateEntry cls e) = migrateEntry cls e"
proof (cases "e = JUndef \<or> list_ex (samePolicyEntry e) (STALE_DEFAULT_POLICY_ENTRIES cls) \<or> \<not> namesReauthenticate e")
  case True
  then show ?thesis
    by (auto simp: migrateEntry_def default_not_stale default_no_reauth)
next
  case False
  then obtain rs where rs: "jprop e ''recipes'' = JArr rs" "JStr ''reauthenticate'' \<in> set rs" "isPlainObject e"
    by (auto simp: namesReauthenticate_def split: jsval.splits)
  let ?rs = "map (\<lambda>r. if r = JStr ''reauthenticate'' then JStr ''verify_authentication'' else r) rs"
  have m: "migrateEntry cls e = withField e ''recipes'' (JArr ?rs)"
    using False rs by (simp add: migrateEntry_def renameReauthenticate_def)
  have j: "jprop (withField e ''recipes'' (JArr ?rs)) ''recipes'' = JArr ?rs" using rs(3) by simp
  have "JStr ''verify_authentication'' \<in> set ?rs" using rs(2) by force
  then have n: "\<not> list_ex (samePolicyEntry (withField e ''recipes'' (JArr ?rs))) (STALE_DEFAULT_POLICY_ENTRIES cls)"
    using j by (rule not_stale)
  have "JStr ''reauthenticate'' \<notin> set ?rs" by auto
  then have "\<not> namesReauthenticate (withField e ''recipes'' (JArr ?rs))"
    using j by (simp add: namesReauthenticate_def)
  moreover have "withField e ''recipes'' (JArr ?rs) \<noteq> JUndef"
    using rs(3) by (cases e) (simp_all add: withField_def isPlainObject_def)
  ultimately show ?thesis unfolding m using n by (simp add: migrateEntry_def)
qed

abbreviation migrateStep :: "DurableBlockerClass \<Rightarrow> jsval \<Rightarrow> jsval" where
  "migrateStep cls migrated \<equiv>
     (let entry = jprop migrated (blockerClassName cls); entry' = migrateEntry cls entry
      in if entry' = entry then migrated else withField migrated (blockerClassName cls) entry')"

lemma migrate_fold:
  "isPlainObject v \<Longrightarrow> distinct cs \<Longrightarrow>
     isPlainObject (fold migrateStep cs v)
     \<and> (\<forall>c. jprop (fold migrateStep cs v) (blockerClassName c) =
          (if c \<in> set cs then migrateEntry c (jprop v (blockerClassName c)) else jprop v (blockerClassName c)))
     \<and> (\<forall>k. \<not> isDurableBlockerClass k \<longrightarrow> jprop (fold migrateStep cs v) k = jprop v k)"
proof (induction cs arbitrary: v)
  case (Cons c cs)
  have "isPlainObject (migrateStep c v)" using Cons.prems(1) by (simp add: Let_def)
  from Cons.IH [OF this] Cons.prems show ?case by (auto simp: Let_def)
qed simp

lemma normalize_entries:
  "isPlainObject v \<Longrightarrow>
     isPlainObject (normalizeRecoveryPolicyCompatibility v)
     \<and> jprop (normalizeRecoveryPolicyCompatibility v) (blockerClassName c) = migrateEntry c (jprop v (blockerClassName c))
     \<and> (\<not> isDurableBlockerClass k \<longrightarrow> jprop (normalizeRecoveryPolicyCompatibility v) k = jprop v k)"
  using migrate_fold [of v DURABLE_BLOCKER_CLASSES] distinct_classes
  by (auto simp: normalizeRecoveryPolicyCompatibility_def isPlainObject_def [of JUndef])

lemma migrate_fold_fixed:
  "(\<And>c. c \<in> set cs \<Longrightarrow> migrateEntry c (jprop v (blockerClassName c)) = jprop v (blockerClassName c))
    \<Longrightarrow> fold migrateStep cs v = v"
  by (induction cs) (auto simp: Let_def)

lemma normalize_idem_object:
  assumes "isPlainObject v"
  shows "normalizeRecoveryPolicyCompatibility (normalizeRecoveryPolicyCompatibility v)
    = normalizeRecoveryPolicyCompatibility v"
proof -
  let ?n = "normalizeRecoveryPolicyCompatibility v"
  have n: "isPlainObject ?n" "\<And>c. migrateEntry c (jprop ?n (blockerClassName c)) = jprop ?n (blockerClassName c)"
    using normalize_entries [OF assms] by simp_all
  then have "?n \<noteq> JUndef" by (auto simp: isPlainObject_def)
  with n show ?thesis
    unfolding normalizeRecoveryPolicyCompatibility_def [of ?n]
    by (simp add: migrate_fold_fixed)
qed

lemma default_input_object: "isPlainObject DEFAULT_RECOVERY_POLICY_INPUT"
  by (simp add: DEFAULT_RECOVERY_POLICY_INPUT_def isPlainObject_def)

lemma jprop_default_input [simp]: "jprop DEFAULT_RECOVERY_POLICY_INPUT (blockerClassName c) = defaultEntry c"
  by (simp add: DEFAULT_RECOVERY_POLICY_INPUT_def)

lemma normalize_default_input: "normalizeRecoveryPolicyCompatibility DEFAULT_RECOVERY_POLICY_INPUT
    = DEFAULT_RECOVERY_POLICY_INPUT"
  using default_input_object
  by (auto simp: normalizeRecoveryPolicyCompatibility_def migrate_fold_fixed isPlainObject_def [of JUndef])

lemma compile_defaultEntry: "compileEntry cls (defaultEntry cls) = Inr (projr (compileEntry cls (defaultEntry cls)))"
proof -
  have "\<exists>e. compileEntry cls (defaultEntry cls) = Inr e"
    by (cases cls) (simp_all add: compileEntry_def rawEntry_def Let_def jprop_def isPlainObject_def
        isNumber_def isFiniteNum_def numVal_def JNumNat_def validRecipes_def isRecoveryRecipe_def
        RECOVERY_RECIPES_def recipesVal_def HUMAN_AUTHORITY_CLASSES_def List.map_filter_def)
  then show ?thesis by auto
qed

lemma compile_default: "compileRecoveryPolicy DEFAULT_RECOVERY_POLICY_INPUT = Inr DEFAULT_RECOVERY_POLICY"
proof -
  have "compileRecoveryPolicy DEFAULT_RECOVERY_POLICY_INPUT
      = Inr (\<lambda>cls. projr (compileEntry cls (defaultEntry cls)))"
    unfolding compile_Inr_iff
    using jkeys_classMap [of defaultEntry] compile_defaultEntry
    by (auto simp: defaultEntry_object DEFAULT_RECOVERY_POLICY_INPUT_def)
  then show ?thesis by (simp add: DEFAULT_RECOVERY_POLICY_def)
qed

section \<open>Properties\<close>

text \<open>Compiling a policy is sound and complete for the typed policies: whatever compiles has,
  for every blocker class, a non-negative retry budget, an evidence limit of at least one, an
  integral non-negative per-strategy bound if any, and no automated recipe for the two
  human-authority classes; and every policy with those guarantees compiles to itself.\<close>

lemma compile_policy_sound_complete:
  "(compileRecoveryPolicy v = Inr p \<longrightarrow> (\<forall>cls. entryWf cls (p cls)))
   \<and> ((\<forall>cls. entryWf cls (q cls)) \<longrightarrow> compileRecoveryPolicy (policyJs q) = Inr q)"
proof (intro conjI impI allI)
  fix cls assume "compileRecoveryPolicy v = Inr p"
  then show "entryWf cls (p cls)" unfolding compile_Inr_iff by (metis compileEntry_sound)
next
  assume wf: "\<forall>cls. entryWf cls (q cls)"
  show "compileRecoveryPolicy (policyJs q) = Inr q"
    unfolding compile_Inr_iff policyJs_def
    using wf jkeys_classMap [of "\<lambda>c. entryJs (q c)"]
    by (auto simp: compileEntry_entryJs)
qed

text \<open>The compatibility upgrade is idempotent, installs the default policy for a contract that
  has none, replaces an entry that is absent or equal to an earlier default by the current default
  (which compiles), and keeps every other entry except for renaming the retired
  \<open>reauthenticate\<close> recipe.\<close>

lemma normalize_policy_upgrade:
  "normalizeRecoveryPolicyCompatibility (normalizeRecoveryPolicyCompatibility v)
     = normalizeRecoveryPolicyCompatibility v
   \<and> effectiveRecoveryPolicyForLedgerValidation JUndef = Some DEFAULT_RECOVERY_POLICY
   \<and> (isPlainObject v \<longrightarrow>
       jprop (normalizeRecoveryPolicyCompatibility v) (blockerClassName cls) =
       (let entry = jprop v (blockerClassName cls)
        in if entry = JUndef \<or> list_ex (samePolicyEntry entry) (STALE_DEFAULT_POLICY_ENTRIES cls)
           then defaultEntry cls
           else if namesReauthenticate entry then renameReauthenticate entry else entry))"
proof -
  have undef: "normalizeRecoveryPolicyCompatibility JUndef = DEFAULT_RECOVERY_POLICY_INPUT"
    by (simp add: normalizeRecoveryPolicyCompatibility_def)
  have "normalizeRecoveryPolicyCompatibility (normalizeRecoveryPolicyCompatibility v)
     = normalizeRecoveryPolicyCompatibility v"
  proof (cases "isPlainObject v")
    case True
    then show ?thesis by (rule normalize_idem_object)
  next
    case False
    then show ?thesis
      by (cases "v = JUndef")
        (simp_all add: undef normalize_default_input, simp add: normalizeRecoveryPolicyCompatibility_def)
  qed
  moreover have "effectiveRecoveryPolicyForLedgerValidation JUndef = Some DEFAULT_RECOVERY_POLICY"
    by (simp add: effectiveRecoveryPolicyForLedgerValidation_def undef compile_default)
  ultimately show ?thesis using normalize_entries [of v cls] by (auto simp: migrateEntry_def Let_def)
qed

text \<open>A legacy theme maps to a class exactly when it already is a class name or its normalized
  spelling (trimmed, lower case, runs of spaces and hyphens as one underscore) is a listed alias;
  any other theme is refused as a \<open>validation\<close> failure, and class names map to themselves.\<close>

lemma legacy_theme_total:
  "mapLegacyThemeToBlockerClass (blockerClassName cls) = Inr cls
   \<and> (isDurableBlockerClass theme \<or> normalizeTheme theme \<in> fst ` set LEGACY_THEME_ALIASES
        \<longleftrightarrow> (\<exists>c. mapLegacyThemeToBlockerClass theme = Inr c))
   \<and> (\<forall>e. mapLegacyThemeToBlockerClass theme = Inl e \<longrightarrow> loopFailureClass e = Validation)"
  by (auto simp: mapLegacyThemeToBlockerClass_def isDurableBlockerClass_iff map_of_eq_None_iff
      split: option.splits dest: map_of_SomeD) (metis map_of_eq_None_iff option.distinct(1) fst_conv image_eqI)+


end
