(* ===== verification/Recovery_Episodes.thy ===== *)
theory Recovery_Episodes
  imports Recovery_Policy
begin

text \<open>
  Recovery episodes (\<open>core/scripts/loop/recovery-episodes.ts\<close>): the candidate-scoped strategy
  cursor with its per-strategy bounds, the projection of an episode from its recorded attempts, the
  relational validation of an episode read from disk, and cooling. The evidence fingerprint
  (\<open>normalizeEvidenceIdentity\<close>: six regular expressions and a digest) is not modelled; the
  operations that use it take it as a parameter.
\<close>

section \<open>Records\<close>

record RecoveryEpisodeRecord =
  er_episode_id :: string
  er_operation :: string
  er_invariant :: string
  er_candidate_epoch :: string
  er_evidence_identity :: string
  er_attempts_per_strategy :: "(RecoveryRecipe \<times> int) list"
  er_strategy_cursor :: int
  er_next_eligible_at :: timestamp
  er_skipped_strategies :: "RecoveryRecipe list"
  er_fence_token :: "string option"

definition MECHANICAL_LIFECYCLE_STOP_REASONS :: "string list" where
  "MECHANICAL_LIFECYCLE_STOP_REASONS =
     [''run_fatal'', ''recovery_exhausted'', ''repeated_no_progress'', ''supervisor_no_progress'',
      ''supervisor_cycle_cap'', ''worktree_capacity'']"

definition PRIVATE_EPISODE_SCHEMA_BASENAME :: string where
  "PRIVATE_EPISODE_SCHEMA_BASENAME = ''recovery-episodes.json''"

definition spentOn :: "(RecoveryRecipe \<times> int) list \<Rightarrow> RecoveryRecipe \<Rightarrow> int" where
  "spentOn counts recipe = orElse (map_of counts recipe) 0"

section \<open>Candidate epochs and cooling ownership\<close>

definition attemptBelongsToCandidateEpoch :: "string option \<Rightarrow> string option \<Rightarrow> string \<Rightarrow> bool" where
  "attemptBelongsToCandidateEpoch candidate_epoch candidate_identity candidateEpoch =
     (let wanted = js_lower (js_trim candidateEpoch);
          epoch = js_lower (js_trim (orElse candidate_epoch []));
          identity = js_lower (orElse candidate_identity [])
      in if wanted = [] then False
         else if epoch = wanted then True
         else if js_includes epoch (''head='' @ wanted) then True
         else js_includes identity (''head='' @ wanted))"

definition ts_truthy :: "timestamp option \<Rightarrow> bool" where
  "ts_truthy t = (case t of None \<Rightarrow> False | Some (Other [] _) \<Rightarrow> False | Some _ \<Rightarrow> True)"

text \<open>Comparisons of parsed dates are false when either side is not a date.\<close>

definition date_gt :: "timestamp \<Rightarrow> timestamp \<Rightarrow> bool" where
  "date_gt a b = (case (date_parse a, date_parse b) of (Some x, Some y) \<Rightarrow> x > y | _ \<Rightarrow> False)"

definition date_le :: "timestamp \<Rightarrow> timestamp \<Rightarrow> bool" where
  "date_le a b = (case (date_parse a, date_parse b) of (Some x, Some y) \<Rightarrow> x \<le> y | _ \<Rightarrow> False)"

definition coolingIsStaleForNewCandidateEpoch ::
  "LoopCoolingRecord option \<Rightarrow> LoopRecoveryAttempt list \<Rightarrow> string option \<Rightarrow> string \<Rightarrow> string \<Rightarrow> bool" where
  "coolingIsStaleForNewCandidateEpoch cooling attempts itemId candidateEpoch candidateHead =
     (case cooling of None \<Rightarrow> False
      | Some c \<Rightarrow>
          if \<not> truthy itemId then False
          else if truthy (co_item_id c) \<and> co_item_id c \<noteq> itemId then False
          else (let wanted = js_trim candidateEpoch
            in if wanted = [] then False
               else if truthy (co_candidate_epoch c)
               then \<not> attemptBelongsToCandidateEpoch (co_candidate_epoch c) None wanted
               else (case find_last (\<lambda>a. Some (ra_item_id a) = itemId
                       \<and> (ts_truthy (co_next_eligible_at c) \<and> ra_next_eligible_at a = co_next_eligible_at c
                          \<or> date_le (ra_time a) (co_time c))) attempts of
                       None \<Rightarrow> False
                     | Some owner \<Rightarrow> \<not> attemptBelongsToCandidateEpoch (ra_candidate_epoch owner)
                                       (ra_candidate_identity owner) (js_trim candidateHead))))"

section \<open>Configured sequences\<close>

definition isRecoveryPolicyEntry :: "DurableBlockerClass \<Rightarrow> jsval \<Rightarrow> bool" where
  "isRecoveryPolicyEntry blockerClass v =
     (let backoff = jprop v ''backoff''; bound = jprop v ''per_strategy_bound'';
          terminal = jprop v ''terminal_outcome''; limit = jprop v ''repeated_evidence_limit''
      in if \<not> isPlainObject v then False
         else if \<not> validRecipes (jprop v ''recipes'') then False
         else if \<not> isFiniteNum (jprop v ''retry_budget'') \<or> numVal (jprop v ''retry_budget'') < 0 then False
         else if bound \<noteq> JUndef \<and> (\<not> isFiniteNum bound \<or> numVal bound < 0) then False
         else if \<not> isPlainObject backoff then False
         else if \<not> isNumber (jprop backoff ''initial_seconds'') \<or> \<not> isNumber (jprop backoff ''multiplier'')
           \<or> \<not> isNumber (jprop backoff ''max_seconds'') then False
         else if terminal \<noteq> JStr ''retry'' \<and> terminal \<noteq> JStr ''human_authority'' then False
         else if jprop v ''run_fatal'' \<noteq> JBool True \<and> jprop v ''run_fatal'' \<noteq> JBool False then False
         else if \<not> isFiniteNum limit \<or> numVal limit < 1 then False
         else if (blockerClass = MissingAuthority \<or> blockerClass = SpecificationDecision)
           \<and> (terminal \<noteq> JStr ''human_authority'' \<or> recipesVal (jprop v ''recipes'') \<noteq> []) then False
         else True)"

fun CLASS_RECOVERY_SEQUENCE :: "DurableBlockerClass \<Rightarrow> RecoveryRecipe list \<times> rat" where
  "CLASS_RECOVERY_SEQUENCE TransientRateLimit = ([WaitAndRetry], 5)"
| "CLASS_RECOVERY_SEQUENCE WorkflowState = ([ResyncWorkflowState, RepairPipelineItem], 3)"
| "CLASS_RECOVERY_SEQUENCE ImplementationCi = ([VerifyHeadGoal, RerunCi, RepairPipelineItem], 3)"
| "CLASS_RECOVERY_SEQUENCE ReviewFindings = ([UnlinkEngineScratch, RepairPipelineItem], 3)"
| "CLASS_RECOVERY_SEQUENCE EnvironmentAuth = ([VerifyAuthentication], 2)"
| "CLASS_RECOVERY_SEQUENCE SpecificationDecision = ([], 0)"
| "CLASS_RECOVERY_SEQUENCE MissingAuthority = ([], 0)"
| "CLASS_RECOVERY_SEQUENCE UpstreamDependency = ([RetryUpstreamCheck], 3)"
| "CLASS_RECOVERY_SEQUENCE WorkflowEngineDefect =
     ([UnlinkEngineScratch, CheckpointOwnedHarnessDirt, PublishUnpublishedStageCommit,
       RebindTesterEvidenceAfterPr, RestartWorkflowEngine, RepairPipelineItem], 2)"

definition blockerClassJs :: "jsval \<Rightarrow> DurableBlockerClass option" where
  "blockerClassJs v = (case v of JStr s \<Rightarrow> blockerClassOf s | _ \<Rightarrow> None)"

definition configuredRecoverySequence :: "jsval \<Rightarrow> (RecoveryRecipe list \<times> rat) option" where
  "configuredRecoverySequence blockerClass = map_option CLASS_RECOVERY_SEQUENCE (blockerClassJs blockerClass)"

definition perStrategyBound :: "RecoveryPolicyEntry \<Rightarrow> RecoveryRecipe \<Rightarrow> rat" where
  "perStrategyBound entry recipe =
     (case pe_per_strategy_bound entry of Some b \<Rightarrow> if b \<ge> 0 then b else pe_retry_budget entry
      | None \<Rightarrow> pe_retry_budget entry)"

section \<open>Validation of an episode read from disk\<close>

definition isNonEmptyText :: "jsval \<Rightarrow> bool" where
  "isNonEmptyText v \<longleftrightarrow> \<not> isBlankText v"

definition collectSkippedRecipes :: "jsval \<Rightarrow> jsval list \<Rightarrow> string list option" where
  "collectSkippedRecipes v history =
     (let declared = jprop v ''skipped_strategies'';
          own = (case declared of JUndef \<Rightarrow> Some []
            | JArr rs \<Rightarrow>
                if \<not> list_all isRecoveryRecipe rs then None
                else if isNumber (jprop v ''strategy_cursor'')
                  \<and> \<not> num_le (Fin (of_nat (length rs))) (jsnumVal (jprop v ''strategy_cursor''))
                  \<and> jsnumVal (jprop v ''strategy_cursor'') \<noteq> NaN
                then None
                else Some (uniq (map strVal rs))
            | _ \<Rightarrow> None);
          rows = (if history \<noteq> [] then history else [v])
      in case own of None \<Rightarrow> None
         | Some skipped \<Rightarrow> Some (fold (\<lambda>row acc.
             if \<not> isNullish (jprop v ''episode_id'') \<and> jprop row ''episode_id'' \<noteq> jprop v ''episode_id'' then acc
             else if jprop row ''outcome'' = JStr ''skipped'' \<and> isRecoveryRecipe (jprop row ''action'')
             then set_add (strVal (jprop row ''action'')) acc else acc) rows skipped))"

definition charges :: "jsval \<Rightarrow> jsval \<Rightarrow> bool" where
  "charges episodeId sibling \<longleftrightarrow> jprop sibling ''episode_id'' = episodeId
     \<and> isRecoveryRecipe (jprop sibling ''action'')
     \<and> \<not> (jprop sibling ''outcome'' = JStr ''skipped'' \<or> jprop sibling ''outcome'' = JStr ''superseded'')"

definition countOf :: "(string \<times> jsnum) list \<Rightarrow> string \<Rightarrow> jsnum" where
  "countOf counts recipe = orElse (map_of counts recipe) (Fin 0)"

fun num_succ :: "jsnum \<Rightarrow> jsnum" where
  "num_succ (Fin r) = Fin (r + 1)"
| "num_succ n = n"

definition derivedAttemptCounts :: "jsval \<Rightarrow> jsval list \<Rightarrow> (string \<times> jsnum) list" where
  "derivedAttemptCounts episodeId history =
     fold (\<lambda>sibling derived. if charges episodeId sibling
             then (let action = strVal (jprop sibling ''action'')
                   in AList.update action (num_succ (countOf derived action)) derived)
             else derived) history []"

definition numericCounts :: "(string \<times> jsval) list \<Rightarrow> (string \<times> jsnum) list" where
  "numericCounts persisted =
     map (\<lambda>(k, v). (k, jsnumVal v)) (filter (\<lambda>(k, v). isNumber v) persisted)"

definition countsMatchPersisted :: "(string \<times> jsval) list \<Rightarrow> (string \<times> jsnum) list \<Rightarrow> bool" where
  "countsMatchPersisted persisted derived =
     list_all (\<lambda>recipe.
       (let claimed = (case map_of persisted recipe of Some (JNum n) \<Rightarrow> n | _ \<Rightarrow> Fin 0)
        in claimed = countOf derived recipe \<and> claimed \<noteq> NaN))
       (map fst persisted @ map fst derived)"

text \<open>Whether a recipe below the cursor is accounted for: skipped, or its bound spent.\<close>

definition accounted :: "(RecoveryRecipe \<Rightarrow> rat) \<Rightarrow> (string \<times> jsnum) list \<Rightarrow> string list \<Rightarrow> RecoveryRecipe \<Rightarrow> bool" where
  "accounted strategyBound counts skipped recipe \<longleftrightarrow>
     recipeName recipe \<in> set skipped
     \<or> num_le (Fin (strategyBound recipe)) (countOf counts (recipeName recipe))"

definition justifiedStrategyCursor ::
  "RecoveryRecipe list \<Rightarrow> (RecoveryRecipe \<Rightarrow> rat) \<Rightarrow> (string \<times> jsnum) list \<Rightarrow> string list \<Rightarrow> nat" where
  "justifiedStrategyCursor recipes strategyBound counts skipped =
     length (takeWhile (accounted strategyBound counts skipped) recipes)"

definition sequenceFullyAccounted ::
  "RecoveryRecipe list \<Rightarrow> (RecoveryRecipe \<Rightarrow> rat) \<Rightarrow> (string \<times> jsnum) list \<Rightarrow> string list \<Rightarrow> bool" where
  "sequenceFullyAccounted recipes strategyBound counts skipped =
     list_all (accounted strategyBound counts skipped) recipes"

text \<open>The recipe sequence an episode is judged by: the compiled policy's entry, else the default.\<close>

definition episodeClass :: "jsval \<Rightarrow> DurableBlockerClass option" where
  "episodeClass v = (case blockerClassJs (jprop v ''class'') of Some c \<Rightarrow> Some c
     | None \<Rightarrow> blockerClassJs (jprop v ''invariant''))"

text \<open>The policy is the contract's \<open>recovery_policy\<close> as read, \<open>JUndef\<close> when there is none; an entry the
  policy owns must validate, and a class it does not own falls back to the defaults.\<close>

definition entryBound :: "jsval \<Rightarrow> rat" where
  "entryBound entry =
     (if isFiniteNum (jprop entry ''per_strategy_bound'') \<and> numVal (jprop entry ''per_strategy_bound'') \<ge> 0
      then numVal (jprop entry ''per_strategy_bound'') else numVal (jprop entry ''retry_budget''))"

definition episodeSequence ::
  "jsval \<Rightarrow> jsval \<Rightarrow> (RecoveryRecipe list \<times> (RecoveryRecipe \<Rightarrow> rat)) option" where
  "episodeSequence v recoveryPolicy =
     (case episodeClass v of
        None \<Rightarrow> None
      | Some cls \<Rightarrow>
          if blockerClassName cls \<in> set (jkeys recoveryPolicy)
          then (let entry = jprop recoveryPolicy (blockerClassName cls)
                in if isRecoveryPolicyEntry cls entry
                   then Some (recipesVal (jprop entry ''recipes''), \<lambda>_. entryBound entry) else None)
          else (case CLASS_RECOVERY_SEQUENCE cls of (recipes, bound) \<Rightarrow> Some (recipes, \<lambda>_. bound)))"

definition allowedName :: "RecoveryRecipe list \<Rightarrow> string \<Rightarrow> bool" where
  "allowedName recipes s = (case recipeOf s of None \<Rightarrow> False | Some r \<Rightarrow> r \<in> set recipes)"

definition isAuthoritativeEpisodeState ::
  "(string \<Rightarrow> string) \<Rightarrow> jsval \<Rightarrow> jsval list \<Rightarrow> jsval \<Rightarrow> bool" where
  "isAuthoritativeEpisodeState sha256 v siblings recoveryPolicy =
     (if \<not> isNonEmptyText (jprop v ''operation'') then False
      else if \<not> isNonEmptyText (jprop v ''invariant'') then False
      else if \<not> isString (jprop v ''candidate_epoch'') then False
      else if \<not> isString (jprop v ''evidence_identity'') then False
      else if \<not> isNonEmptyText (jprop v ''episode_id'') then False
      else if jprop v ''episode_id'' \<noteq> JStr (recoveryEpisodeId sha256
          \<lparr>ek_operation = strVal (jprop v ''operation''), ek_invariant = strVal (jprop v ''invariant''),
           ek_candidate_epoch = strVal (jprop v ''candidate_epoch''),
           ek_evidence_identity = strVal (jprop v ''evidence_identity'')\<rparr>) then False
      else if \<not> isIntegerNum (jprop v ''strategy_cursor'') \<or> numVal (jprop v ''strategy_cursor'') < 0 then False
      else (case episodeSequence v recoveryPolicy of
        None \<Rightarrow> False
      | Some (recipes, strategyBound) \<Rightarrow>
        if isRecoveryRecipe (jprop v ''action'') \<and> \<not> allowedName recipes (strVal (jprop v ''action'')) then False
        else if \<not> (case jprop v ''actions'' of JUndef \<Rightarrow> True
             | JArr rs \<Rightarrow> list_all (\<lambda>r. isRecoveryRecipe r \<and> allowedName recipes (strVal r)) rs
             | _ \<Rightarrow> False) then False
        else if numVal (jprop v ''strategy_cursor'') > of_nat (length recipes) then False
        else (case collectSkippedRecipes v siblings of
          None \<Rightarrow> False
        | Some skipped \<Rightarrow>
          if \<not> list_all (allowedName recipes) skipped then False
          else (case jprop v ''attempts_per_strategy'' of
            JObj persisted \<Rightarrow>
              if \<not> list_all (\<lambda>(r, c). allowedName recipes r \<and> isIntegerNum c \<and> numVal c \<ge> 0) persisted then False
              else (let relational = (siblings \<noteq> [] \<and> jprop v ''outcome'' \<noteq> JStr ''superseded'');
                        derived = derivedAttemptCounts (jprop v ''episode_id'') siblings;
                        counts = (if relational then derived else numericCounts persisted)
                    in if relational \<and> \<not> countsMatchPersisted persisted derived then False
                       else if numVal (jprop v ''strategy_cursor'')
                               > of_nat (justifiedStrategyCursor recipes strategyBound counts skipped) then False
                       else if numVal (jprop v ''strategy_cursor'') = of_nat (length recipes)
                          \<and> \<not> sequenceFullyAccounted recipes strategyBound counts skipped then False
                       else True)
          | _ \<Rightarrow> False))))"

definition ledgerEpisodesAreAuthoritative ::
  "(string \<Rightarrow> string) \<Rightarrow> jsval list \<Rightarrow> jsval \<Rightarrow> bool" where
  "ledgerEpisodesAreAuthoritative sha256 attempts recoveryPolicy =
     (let latestByEpisode = fold (\<lambda>attempt latest. case jprop attempt ''episode_id'' of
             JStr e \<Rightarrow> if e = [] then latest else AList.update e attempt latest
           | _ \<Rightarrow> latest) attempts []
      in list_all (\<lambda>latest. isAuthoritativeEpisodeState sha256 latest attempts recoveryPolicy)
           (map snd latestByEpisode))"

section \<open>Mechanical stops\<close>

definition isMechanicalLifecycleStopReason :: "string option \<Rightarrow> bool" where
  "isMechanicalLifecycleStopReason reason =
     (case reason of None \<Rightarrow> False | Some r \<Rightarrow> r \<in> set MECHANICAL_LIFECYCLE_STOP_REASONS)"

definition assertNoMechanicalLifecycleStop :: "LoopStopRecord option \<Rightarrow> unit result" where
  "assertNoMechanicalLifecycleStop stop =
     (case stop of None \<Rightarrow> Inr ()
      | Some s \<Rightarrow> if isMechanicalLifecycleStopReason (Some (stopReasonName (st_reason s)))
          then Inl (LoopError Validation (''mechanical lifecycle stop '' @ quoted (stopReasonName (st_reason s))
            @ '' is not a live ownership terminal -- persist Cooling or an external-condition wait''))
          else Inr ())"

definition liveStopEndsOwnershipIllegally :: "LoopStopRecord option \<Rightarrow> bool" where
  "liveStopEndsOwnershipIllegally stop =
     (case stop of None \<Rightarrow> False
      | Some s \<Rightarrow> isMechanicalLifecycleStopReason (Some (stopReasonName (st_reason s))))"

section \<open>Projecting an episode from its attempts\<close>

definition chargedAttempt :: "LoopRecoveryAttempt \<Rightarrow> bool" where
  "chargedAttempt a \<longleftrightarrow> ra_outcome a \<noteq> SkippedAttempt \<and> ra_outcome a \<noteq> Superseded"

definition countChargedStrategyAttempts ::
  "(string \<Rightarrow> string) \<Rightarrow> LoopRecoveryAttempt list \<Rightarrow> RecoveryEpisodeKey \<Rightarrow> RecoveryRecipe \<Rightarrow> nat" where
  "countChargedStrategyAttempts sha256 attempts key recipe =
     length (filter (\<lambda>a. ra_episode_id a = Some (recoveryEpisodeId sha256 key)
       \<and> ra_action a = Some recipe \<and> chargedAttempt a) attempts)"

text \<open>The interface declares \<open>action\<close> required; an attempt without one adds nothing here.\<close>

definition addSkipped :: "LoopRecoveryAttempt \<Rightarrow> RecoveryRecipe list \<Rightarrow> RecoveryRecipe list" where
  "addSkipped a skipped =
     (case ra_action a of None \<Rightarrow> skipped
      | Some r \<Rightarrow> if ra_outcome a = SkippedAttempt then set_add r skipped else skipped)"

definition addCharge :: "LoopRecoveryAttempt \<Rightarrow> (RecoveryRecipe \<times> int) list \<Rightarrow> (RecoveryRecipe \<times> int) list" where
  "addCharge a counts =
     (case ra_action a of None \<Rightarrow> counts
      | Some r \<Rightarrow> if chargedAttempt a then AList.update r (spentOn counts r + 1) counts else counts)"

definition projectEpisode ::
  "(string \<Rightarrow> string) \<Rightarrow> LoopRecoveryAttempt list \<Rightarrow> RecoveryEpisodeKey \<Rightarrow> RecoveryEpisodeRecord" where
  "projectEpisode sha256 matching key =
     (let latest = last matching;
          counts0 = orElse (ra_attempts_per_strategy latest) [];
          skipped0 = orElse (ra_skipped_strategies latest) [];
          skipped = fold addSkipped matching skipped0;
          counts = (if counts0 = [] then fold addCharge matching [] else counts0)
      in \<lparr>er_episode_id = orElse (ra_episode_id latest) (recoveryEpisodeId sha256 key),
          er_operation = orElse (ra_operation latest) (ek_operation key),
          er_invariant = orElse (ra_invariant latest) (ek_invariant key),
          er_candidate_epoch = orElse (ra_candidate_epoch latest) (ek_candidate_epoch key),
          er_evidence_identity = orElse (ra_evidence_identity latest) (ek_evidence_identity key),
          er_attempts_per_strategy = counts,
          er_strategy_cursor = orElse (ra_strategy_cursor latest) 0,
          er_next_eligible_at =
            orElse (ra_next_eligible_at latest) (orElse (ra_not_before latest) (ra_time latest)),
          er_skipped_strategies = skipped,
          er_fence_token = ra_fence_token latest\<rparr>)"

definition resumeEpisodeFromAttempts ::
  "(string \<Rightarrow> string) \<Rightarrow> LoopRecoveryAttempt list \<Rightarrow> RecoveryEpisodeKey \<Rightarrow> RecoveryEpisodeRecord option" where
  "resumeEpisodeFromAttempts sha256 attempts key =
     (let episodeId = recoveryEpisodeId sha256 key;
          matching = filter (\<lambda>a. ra_episode_id a = Some episodeId) attempts
      in if matching = []
         then (let byFields = filter (\<lambda>a. ra_operation a = Some (ek_operation key)
                     \<and> ra_invariant a = Some (ek_invariant key)
                     \<and> ra_candidate_epoch a = Some (ek_candidate_epoch key)
                     \<and> orElse (ra_evidence_identity a) (ra_evidence_fingerprint a) = ek_evidence_identity key)
                   attempts
               in if byFields = [] then None else Some (projectEpisode sha256 byFields key))
         else Some (projectEpisode sha256 matching key))"

definition emptyEpisode :: "(string \<Rightarrow> string) \<Rightarrow> RecoveryEpisodeKey \<Rightarrow> timestamp \<Rightarrow> RecoveryEpisodeRecord" where
  "emptyEpisode sha256 key nextEligibleAt =
     \<lparr>er_episode_id = recoveryEpisodeId sha256 key, er_operation = ek_operation key,
      er_invariant = ek_invariant key, er_candidate_epoch = ek_candidate_epoch key,
      er_evidence_identity = ek_evidence_identity key, er_attempts_per_strategy = [],
      er_strategy_cursor = 0, er_next_eligible_at = nextEligibleAt, er_skipped_strategies = [],
      er_fence_token = None\<rparr>"

section \<open>Selecting a strategy\<close>

datatype SelectStrategyResult =
    Claim RecoveryRecipe nat "RecoveryRecipe list"
  | ExhaustedStrategies "RecoveryRecipe list"

text \<open>The loop over the recipes that remain at the cursor.\<close>

fun selectFrom :: "RecoveryRecipe list \<Rightarrow> nat \<Rightarrow> (RecoveryRecipe \<times> int) list \<Rightarrow> (RecoveryRecipe \<Rightarrow> rat)
    \<Rightarrow> (RecoveryRecipe \<Rightarrow> bool) \<Rightarrow> RecoveryRecipe list \<Rightarrow> SelectStrategyResult" where
  "selectFrom [] cursor counts strategyBound isApplicable skipped = ExhaustedStrategies skipped"
| "selectFrom (recipe # rest) cursor counts strategyBound isApplicable skipped =
     (if of_int (spentOn counts recipe) \<ge> strategyBound recipe
      then selectFrom rest (Suc cursor) counts strategyBound isApplicable skipped
      else if \<not> isApplicable recipe
      then selectFrom rest (Suc cursor) counts strategyBound isApplicable (skipped @ [recipe])
      else Claim recipe cursor skipped)"

definition selectNextApplicableStrategy ::
  "RecoveryRecipe list \<Rightarrow> int \<Rightarrow> (RecoveryRecipe \<times> int) list \<Rightarrow> (RecoveryRecipe \<Rightarrow> rat)
    \<Rightarrow> (RecoveryRecipe \<Rightarrow> bool) \<Rightarrow> SelectStrategyResult" where
  "selectNextApplicableStrategy recipes cursor counts strategyBound isApplicable =
     (let start = nat (max 0 cursor)
      in selectFrom (drop start recipes) start counts strategyBound isApplicable [])"

definition selectEligibleRecoveryStrategy ::
  "RecoveryRecipe list \<Rightarrow> int \<Rightarrow> (RecoveryRecipe \<times> int) list \<Rightarrow> (RecoveryRecipe \<Rightarrow> rat)
    \<Rightarrow> (RecoveryRecipe \<Rightarrow> bool) \<Rightarrow> int \<Rightarrow> rat \<Rightarrow> SelectStrategyResult" where
  "selectEligibleRecoveryStrategy recipes cursor counts strategyBound isApplicable
       repeatedEvidenceCount repeatedEvidenceLimit =
     (let start = max 0 cursor;
          advance = (nat start < length recipes \<and> of_int repeatedEvidenceCount \<ge> repeatedEvidenceLimit
            \<and> spentOn counts (recipes ! nat start) > 0)
      in selectNextApplicableStrategy recipes (if advance then start + 1 else start)
           counts strategyBound isApplicable)"

section \<open>Cooling\<close>

definition backoffSeconds :: "RecoveryBackoff \<Rightarrow> nat \<Rightarrow> jsnum" where
  "backoffSeconds backoff n =
     num_min (bo_max_seconds backoff) (num_mul (bo_initial_seconds backoff) (num_pow (bo_multiplier backoff) n))"

definition coolingDeadline :: "timestamp \<Rightarrow> RecoveryBackoff \<Rightarrow> int \<Rightarrow> timestamp option" where
  "coolingDeadline nowIso backoff generation =
     iso_plus_seconds nowIso (backoffSeconds backoff (nat (max 0 generation)))"

definition keepTruthy :: "string option \<Rightarrow> string option" where
  "keepTruthy s = (if truthy s then s else None)"

definition buildCoolingRecord ::
  "CoolingReason \<Rightarrow> timestamp \<Rightarrow> timestamp \<Rightarrow> string option \<Rightarrow> string option \<Rightarrow> string option
    \<Rightarrow> StopReason option \<Rightarrow> string option \<Rightarrow> LoopCoolingRecord" where
  "buildCoolingRecord reason time nextEligibleAt itemId theme candidateEpoch historicalEvidence quarantinePath =
     \<lparr>co_reason = reason, co_time = time, co_item_id = keepTruthy itemId, co_theme = keepTruthy theme,
      co_candidate_epoch = keepTruthy candidateEpoch, co_next_eligible_at = Some nextEligibleAt,
      co_historical_evidence = historicalEvidence, co_quarantine_path = keepTruthy quarantinePath\<rparr>"

definition coolingIsActive :: "LoopCoolingRecord option \<Rightarrow> timestamp \<Rightarrow> bool" where
  "coolingIsActive cooling nowIso =
     (case cooling of None \<Rightarrow> False
      | Some c \<Rightarrow> if \<not> ts_truthy (co_next_eligible_at c) then True
                  else (case co_next_eligible_at c of None \<Rightarrow> True | Some t \<Rightarrow> date_gt t nowIso))"

definition coolingRecordForItem :: "LoopLedger \<Rightarrow> string \<Rightarrow> LoopCoolingRecord option" where
  "coolingRecordForItem ledger itemId =
     (case Option.bind (ll_item_cooling ledger) (\<lambda>m. rec_get m itemId) of
        Some c \<Rightarrow> Some c
      | None \<Rightarrow> (case ll_cooling ledger of
          Some c \<Rightarrow> if co_item_id c = Some itemId then Some c else None
        | None \<Rightarrow> None))"

definition stampEpisodeNextEligibleAt ::
  "LoopRecoveryAttempt list \<Rightarrow> string \<Rightarrow> timestamp \<Rightarrow> LoopRecoveryAttempt list" where
  "stampEpisodeNextEligibleAt attempts itemId nextEligibleAt =
     (case find_last (\<lambda>a. ra_item_id a = itemId \<and> truthy (ra_episode_id a)) attempts of
        None \<Rightarrow> attempts
      | Some latest \<Rightarrow>
          map (\<lambda>a. if ra_episode_id a = ra_episode_id latest
                   then a\<lparr>ra_next_eligible_at := Some nextEligibleAt\<rparr> else a) attempts)"

section \<open>Writing an episode onto an attempt\<close>

definition assertRecoveryEpisodeFields :: "LoopRecoveryAttempt \<Rightarrow> unit result" where
  "assertRecoveryEpisodeFields a =
     (let missing =
        (if ra_invariant a = None then [''invariant''] else [])
        @ (if ra_candidate_epoch a = None then [''candidate_epoch''] else [])
        @ (if ra_evidence_identity a = None then [''evidence_identity''] else [])
        @ (if ra_attempts_per_strategy a = None then [''attempts_per_strategy''] else [])
        @ (if ra_strategy_cursor a = None then [''strategy_cursor''] else [])
        @ (if ra_next_eligible_at a = None then [''next_eligible_at''] else [])
      in if missing \<noteq> []
         then Inl (LoopError Validation
                (''Recovery Episode missing required field(s): '' @ js_join '', '' missing))
         else Inr ())"

definition attachEpisodeFields ::
  "LoopRecoveryAttempt \<Rightarrow> RecoveryEpisodeRecord \<Rightarrow> string option \<Rightarrow> LoopRecoveryAttempt result" where
  "attachEpisodeFields attempt episode fenceToken =
     (let next = attempt\<lparr>
            ra_episode_id := Some (er_episode_id episode),
            ra_operation := Some (er_operation episode),
            ra_invariant := Some (er_invariant episode),
            ra_candidate_epoch := Some (er_candidate_epoch episode),
            ra_evidence_identity := Some (er_evidence_identity episode),
            ra_attempts_per_strategy := Some (er_attempts_per_strategy episode),
            ra_strategy_cursor := Some (er_strategy_cursor episode),
            ra_skipped_strategies := Some (er_skipped_strategies episode),
            ra_next_eligible_at := Some (er_next_eligible_at episode),
            ra_side_effect_certainty := (case ra_side_effect_certainty attempt of Some c \<Rightarrow> Some c
              | None \<Rightarrow> if ra_outcome attempt = Started then Some Uncertain else None),
            ra_fence_token := (if truthy fenceToken then fenceToken else ra_fence_token attempt)\<rparr>
      in case assertRecoveryEpisodeFields next of Inl e \<Rightarrow> Inl e | Inr _ \<Rightarrow> Inr next)"

definition applyClaimToEpisode ::
  "RecoveryEpisodeRecord \<Rightarrow> RecoveryRecipe \<Rightarrow> timestamp \<Rightarrow> RecoveryEpisodeRecord" where
  "applyClaimToEpisode episode recipe nextEligibleAt =
     episode\<lparr>er_attempts_per_strategy :=
         AList.update recipe (spentOn (er_attempts_per_strategy episode) recipe + 1)
           (er_attempts_per_strategy episode),
       er_next_eligible_at := nextEligibleAt\<rparr>"

definition applySkipToEpisode :: "RecoveryEpisodeRecord \<Rightarrow> RecoveryRecipe \<Rightarrow> int \<Rightarrow> RecoveryEpisodeRecord" where
  "applySkipToEpisode episode recipe nextCursor =
     episode\<lparr>er_strategy_cursor := nextCursor,
       er_skipped_strategies := er_skipped_strategies episode @ [recipe]\<rparr>"

definition advanceCursor :: "RecoveryEpisodeRecord \<Rightarrow> int \<Rightarrow> timestamp \<Rightarrow> RecoveryEpisodeRecord" where
  "advanceCursor episode nextCursor nextEligibleAt =
     episode\<lparr>er_strategy_cursor := nextCursor, er_next_eligible_at := nextEligibleAt\<rparr>"

definition sameEpisodeKey :: "RecoveryEpisodeKey \<Rightarrow> RecoveryEpisodeKey \<Rightarrow> bool" where
  "sameEpisodeKey a b \<longleftrightarrow> ek_operation a = ek_operation b \<and> ek_invariant a = ek_invariant b
     \<and> ek_candidate_epoch a = ek_candidate_epoch b \<and> ek_evidence_identity a = ek_evidence_identity b"

definition assertCompleteRecoveryEpisodeKey ::
  "RecoveryEpisodeKey option \<Rightarrow> string \<Rightarrow> RecoveryEpisodeKey result" where
  "assertCompleteRecoveryEpisodeKey key context =
     (case key of
        None \<Rightarrow> Inl (LoopError Validation (context @ '' requires a complete RecoveryEpisodeKey''))
      | Some k \<Rightarrow>
          (let missing = map fst (filter (\<lambda>(_, v). js_trim v = [])
                 [(''operation'', ek_operation k), (''invariant'', ek_invariant k),
                  (''candidate_epoch'', ek_candidate_epoch k), (''evidence_identity'', ek_evidence_identity k)])
           in if missing \<noteq> []
              then Inl (LoopError Validation (context @ '' requires a complete RecoveryEpisodeKey (missing ''
                     @ js_join '', '' missing @ '')''))
              else Inr k))"

definition assertCursorDoesNotRegress :: "int \<Rightarrow> int \<Rightarrow> int result" where
  "assertCursorDoesNotRegress previous next =
     (if next < 0
      then Inl (LoopError Validation (''strategy cursor must be a non-negative number, got '' @ show_int next))
      else if next < previous
      then Inl (LoopError Validation
             (''strategy cursor cannot regress from '' @ show_int previous @ '' to '' @ show_int next))
      else Inr next)"

definition episodeKeyFromAttempt :: "LoopRecoveryAttempt \<Rightarrow> string \<Rightarrow> RecoveryEpisodeKey" where
  "episodeKeyFromAttempt attempt fallbackOperation =
     \<lparr>ek_operation = orElse (ra_operation attempt) fallbackOperation,
      ek_invariant = orElse (ra_invariant attempt) (blockerClassName (ra_class attempt)),
      ek_candidate_epoch = orElse (ra_candidate_epoch attempt) (orElse (ra_candidate_identity attempt) []),
      ek_evidence_identity = orElse (ra_evidence_identity attempt) (ra_evidence_fingerprint attempt)\<rparr>"

datatype ClaimReconciliation = ReconcileForward | Replay | WaitForObserver

definition reconcileUncertainClaim :: "SideEffectCertainty \<Rightarrow> ClaimReconciliation" where
  "reconcileUncertainClaim certainty =
     (if certainty = KnownComplete then ReconcileForward
      else if certainty = KnownAbsent then Replay else WaitForObserver)"

definition chargedAttemptsForStrategy :: "RecoveryEpisodeRecord \<Rightarrow> RecoveryRecipe \<Rightarrow> int" where
  "chargedAttemptsForStrategy episode recipe = spentOn (er_attempts_per_strategy episode) recipe"

definition classWideRemainingProjection :: "rat \<Rightarrow> bool \<Rightarrow> rat" where
  "classWideRemainingProjection classRemaining chargedThisClaim =
     (if \<not> chargedThisClaim then classRemaining else max 0 (classRemaining - 1))"


section \<open>Lemmas\<close>

definition usable :: "(RecoveryRecipe \<times> int) list \<Rightarrow> (RecoveryRecipe \<Rightarrow> rat) \<Rightarrow> (RecoveryRecipe \<Rightarrow> bool)
    \<Rightarrow> RecoveryRecipe \<Rightarrow> bool" where
  "usable counts strategyBound isApplicable r \<longleftrightarrow> of_int (spentOn counts r) < strategyBound r \<and> isApplicable r"

lemma selectFrom_eq:
  "selectFrom rs c counts b app sk =
     (let pre = takeWhile (\<lambda>r. \<not> usable counts b app r) rs;
          sk' = sk @ filter (\<lambda>r. of_int (spentOn counts r) < b r) pre
      in if length pre < length rs then Claim (rs ! length pre) (c + length pre) sk'
         else ExhaustedStrategies sk')"
  by (induction rs c counts b app sk rule: selectFrom.induct) (auto simp: usable_def Let_def)

text \<open>What a selection means for the recipes at and after the cursor.\<close>

lemma takeWhile_not_nth: "i < length (takeWhile P xs) \<Longrightarrow> P (xs ! i)"
  by (metis nth_mem set_takeWhileD takeWhile_nth)

lemma select_claim:
  assumes "selectNextApplicableStrategy recipes cursor counts b app = Claim r c sk"
  shows "nat cursor \<le> c \<and> c < length recipes \<and> recipes ! c = r \<and> usable counts b app r
    \<and> (\<forall>i. nat cursor \<le> i \<longrightarrow> i < c \<longrightarrow> \<not> usable counts b app (recipes ! i))
    \<and> (\<forall>s\<in>set sk. \<not> app s \<and> of_int (spentOn counts s) < b s)"
proof -
  let ?n = "nat cursor" and ?P = "\<lambda>r. \<not> usable counts b app r"
  let ?rs = "drop ?n recipes"
  let ?pre = "takeWhile ?P ?rs"
  have n: "nat (max 0 cursor) = ?n" by simp
  have len: "length ?pre < length ?rs" and c: "c = ?n + length ?pre" "r = ?rs ! length ?pre"
    and sk: "sk = filter (\<lambda>r. of_int (spentOn counts r) < b r) ?pre"
    using assms by (auto simp: selectNextApplicableStrategy_def n selectFrom_eq Let_def split: if_splits)
  have u: "usable counts b app r" using nth_length_takeWhile [OF len] c by simp
  have before: "\<not> usable counts b app (recipes ! i)" if "?n \<le> i" "i < c" for i
  proof -
    have "i - ?n < length ?pre" using that c by simp
    from takeWhile_not_nth [OF this] show ?thesis using that len by simp
  qed
  have "\<not> usable counts b app s" if "s \<in> set ?pre" for s using set_takeWhileD [OF that] by simp
  then have skp: "\<forall>s\<in>set sk. \<not> app s \<and> of_int (spentOn counts s) < b s"
    unfolding sk by (auto simp: usable_def)
  show ?thesis using len c u before skp by (auto simp: add.commute)
qed

lemma select_exhausted:
  "(\<exists>sk. selectNextApplicableStrategy recipes cursor counts b app = ExhaustedStrategies sk) \<longleftrightarrow>
     (\<forall>r\<in>set (drop (nat cursor) recipes). \<not> usable counts b app r)"
proof -
  let ?P = "\<lambda>r. \<not> usable counts b app r" and ?rs = "drop (nat cursor) recipes"
  have n: "nat (max 0 cursor) = nat cursor" by simp
  have "\<not> length (takeWhile ?P ?rs) < length ?rs \<longleftrightarrow> (\<forall>r\<in>set ?rs. ?P r)"
    by (metis length_takeWhile_le nat_less_le takeWhile_eq_all_conv takeWhile_eq_take take_all_iff not_less)
  then show ?thesis by (auto simp: selectNextApplicableStrategy_def n selectFrom_eq Let_def)
qed

definition nulFree :: "RecoveryEpisodeKey \<Rightarrow> bool" where
  "nulFree k \<longleftrightarrow> CHR 0x00 \<notin> set (ek_operation k) \<and> CHR 0x00 \<notin> set (ek_invariant k)
     \<and> CHR 0x00 \<notin> set (ek_candidate_epoch k) \<and> CHR 0x00 \<notin> set (ek_evidence_identity k)"

definition canonicalKey :: "RecoveryEpisodeKey \<Rightarrow> string" where
  "canonicalKey key = js_join NUL [''pipeline-recovery-episode@1'', ek_operation key, ek_invariant key,
       ek_candidate_epoch key, ek_evidence_identity key]"

lemma canonicalKey_inject: "nulFree k \<Longrightarrow> nulFree k' \<Longrightarrow> canonicalKey k = canonicalKey k' \<Longrightarrow> k = k'"
  by (cases k; cases k') (auto simp: nulFree_def canonicalKey_def NUL_def sep_inject)

lemma spentOn_update [simp]:
  "spentOn (AList.update r n counts) r' = (if r' = r then n else spentOn counts r')"
  by (simp add: spentOn_def update_conv')

section \<open>Authority of a persisted episode\<close>

lemma attach_ok: "\<exists>next. attachEpisodeFields attempt episode token = Inr next"
  by (simp add: attachEpisodeFields_def assertRecoveryEpisodeFields_def Let_def)

lemma justified_prefix:
  "rat_of_nat n \<le> of_nat (justifiedStrategyCursor recipes b counts skipped) \<Longrightarrow> i < n
    \<Longrightarrow> accounted b counts skipped (recipes ! i)"
  by (auto simp: justifiedStrategyCursor_def intro: takeWhile_not_nth)

lemma integerNum_nat: "isIntegerNum v \<Longrightarrow> 0 \<le> numVal v \<Longrightarrow> \<exists>n. numVal v = rat_of_nat n"
  by (intro exI [of _ "nat \<lfloor>numVal v\<rfloor>"]) (auto simp: isIntegerNum_def ratIsInteger_def)

lemma authoritativeE:
  assumes "isAuthoritativeEpisodeState sha v siblings P"
  obtains recipes b skipped persisted n where
    "episodeSequence v P = Some (recipes, b)" "collectSkippedRecipes v siblings = Some skipped"
    "jprop v ''attempts_per_strategy'' = JObj persisted"
    "numVal (jprop v ''strategy_cursor'') = rat_of_nat n"
    "\<And>i. i < n \<Longrightarrow> i < length recipes \<and> accounted b
       (if siblings \<noteq> [] \<and> jprop v ''outcome'' \<noteq> JStr ''superseded''
        then derivedAttemptCounts (jprop v ''episode_id'') siblings else numericCounts persisted)
       skipped (recipes ! i)"
    "jprop v ''episode_id'' = JStr (recoveryEpisodeId sha
       \<lparr>ek_operation = strVal (jprop v ''operation''), ek_invariant = strVal (jprop v ''invariant''),
        ek_candidate_epoch = strVal (jprop v ''candidate_epoch''),
        ek_evidence_identity = strVal (jprop v ''evidence_identity'')\<rparr>)"
    "siblings \<noteq> [] \<and> jprop v ''outcome'' \<noteq> JStr ''superseded'' \<longrightarrow>
       countsMatchPersisted persisted (derivedAttemptCounts (jprop v ''episode_id'') siblings)"
    "list_all (allowedName recipes) skipped"
proof -
  obtain recipes b where seq: "episodeSequence v P = Some (recipes, b)"
    using assms by (auto simp: isAuthoritativeEpisodeState_def split: if_splits option.splits)
  obtain skipped where sk: "collectSkippedRecipes v siblings = Some skipped"
    using assms seq by (auto simp: isAuthoritativeEpisodeState_def split: if_splits option.splits)
  obtain persisted where ps: "jprop v ''attempts_per_strategy'' = JObj persisted"
    using assms seq sk
    by (cases "jprop v ''attempts_per_strategy''") (auto simp: isAuthoritativeEpisodeState_def split: if_splits)
  let ?rel = "siblings \<noteq> [] \<and> jprop v ''outcome'' \<noteq> JStr ''superseded''"
  let ?counts = "if ?rel then derivedAttemptCounts (jprop v ''episode_id'') siblings else numericCounts persisted"
  have int: "isIntegerNum (jprop v ''strategy_cursor'')" "0 \<le> numVal (jprop v ''strategy_cursor'')"
    and len: "numVal (jprop v ''strategy_cursor'') \<le> of_nat (length recipes)"
    and just: "numVal (jprop v ''strategy_cursor'') \<le> of_nat (justifiedStrategyCursor recipes b ?counts skipped)"
    and ident: "jprop v ''episode_id'' = JStr (recoveryEpisodeId sha
       \<lparr>ek_operation = strVal (jprop v ''operation''), ek_invariant = strVal (jprop v ''invariant''),
        ek_candidate_epoch = strVal (jprop v ''candidate_epoch''),
        ek_evidence_identity = strVal (jprop v ''evidence_identity'')\<rparr>)"
    and allowed: "list_all (allowedName recipes) skipped"
    using assms seq sk ps
    by (auto simp add: isAuthoritativeEpisodeState_def Let_def not_less split: if_splits)
  have counts: "?rel \<longrightarrow> countsMatchPersisted persisted (derivedAttemptCounts (jprop v ''episode_id'') siblings)"
    using assms seq sk ps
    by (auto simp add: isAuthoritativeEpisodeState_def Let_def split: if_splits)
  obtain n where n: "numVal (jprop v ''strategy_cursor'') = rat_of_nat n"
    using integerNum_nat [OF int] by blast
  have "i < length recipes \<and> accounted b ?counts skipped (recipes ! i)" if "i < n" for i
    using that len just n justified_prefix [of n recipes b ?counts skipped i] by simp
  from that [OF seq sk ps n this ident counts allowed] show ?thesis by blast
qed

lemma allowed_recipe: "allowedName recipes s \<Longrightarrow> \<exists>r\<in>set recipes. s = recipeName r"
proof -
  assume a: "allowedName recipes s"
  then obtain r where r: "recipeOf s = Some r" "r \<in> set recipes"
    by (auto simp: allowedName_def split: option.splits)
  then have "s = recipeName r" by (auto simp: recipeOf_def find_Some_iff)
  with r(2) show ?thesis by blast
qed

lemma fold_addSkipped_absorb:
  "(\<And>a r. a \<in> set as \<Longrightarrow> ra_outcome a = SkippedAttempt \<Longrightarrow> ra_action a = Some r \<Longrightarrow> r \<in> set sk)
    \<Longrightarrow> fold addSkipped as sk = sk"
proof (induction as)
  case (Cons a as)
  have "addSkipped a sk = sk"
    using Cons.prems [of a] by (auto simp: addSkipped_def set_add_def split: option.splits)
  moreover have "fold addSkipped as sk = sk"
    by (rule Cons.IH) (use Cons.prems in auto)
  ultimately show ?case by simp
qed simp

section \<open>Properties\<close>

text \<open>Strategy selection claims the first recipe at or after the cursor that is applicable and has
  bound left, skips over only recipes that are inapplicable or spent, and reports exhaustion exactly
  when no recipe from the cursor on is usable; in particular a claim is always within its bound.\<close>

lemma select_strategy_correct:
  "(case selectNextApplicableStrategy recipes cursor counts strategyBound isApplicable of
      Claim r c skipped \<Rightarrow>
        nat cursor \<le> c \<and> c < length recipes \<and> recipes ! c = r
        \<and> isApplicable r \<and> of_int (spentOn counts r) < strategyBound r
        \<and> (\<forall>i\<in>{nat cursor..<c}. \<not> usable counts strategyBound isApplicable (recipes ! i))
        \<and> (\<forall>s\<in>set skipped. \<not> isApplicable s)
    | ExhaustedStrategies skipped \<Rightarrow>
        (\<forall>r\<in>set (drop (nat cursor) recipes). \<not> usable counts strategyBound isApplicable r))"
proof (cases "selectNextApplicableStrategy recipes cursor counts strategyBound isApplicable")
  case (Claim r c skipped)
  with select_claim [OF Claim] show ?thesis by (auto simp: usable_def)
next
  case (ExhaustedStrategies skipped)
  with select_exhausted [of recipes cursor counts strategyBound isApplicable] show ?thesis by auto
qed

text \<open>The charges of an episode in the history, counted directly.\<close>

definition chargesFor :: "jsval \<Rightarrow> string \<Rightarrow> jsval list \<Rightarrow> nat" where
  "chargesFor episodeId name history =
     length (filter (\<lambda>a. charges episodeId a \<and> strVal (jprop a ''action'') = name) history)"

definition persistedCount :: "(string \<times> jsval) list \<Rightarrow> string \<Rightarrow> jsnum" where
  "persistedCount persisted name = (case map_of persisted name of Some (JNum n) \<Rightarrow> n | _ \<Rightarrow> Fin 0)"

lemma countOf_update [simp]: "countOf (AList.update k n counts) k' = (if k' = k then n else countOf counts k')"
  by (simp add: countOf_def update_conv')

lemma derived_charges: "countOf (derivedAttemptCounts episodeId history) name = Fin (of_nat (chargesFor episodeId name history))"
proof -
  have "countOf (fold (\<lambda>a derived. if charges episodeId a then (let action = strVal (jprop a ''action'')
            in AList.update action (num_succ (countOf derived action)) derived) else derived) history acc) name
      = Fin (r + of_nat (chargesFor episodeId name history))" if "countOf acc name = Fin r" for acc r
    using that
  proof (induction history arbitrary: acc r)
    case (Cons a history)
    show ?case
    proof (cases "charges episodeId a \<and> strVal (jprop a ''action'') = name")
      case True
      with Cons.IH [of "AList.update name (num_succ (countOf acc name)) acc" "r + 1"] Cons.prems show ?thesis
        by (simp add: Let_def chargesFor_def add.assoc)
    next
      case False
      with Cons.IH [of "if charges episodeId a then AList.update (strVal (jprop a ''action''))
          (num_succ (countOf acc (strVal (jprop a ''action'')))) acc else acc" r] Cons.prems show ?thesis
        by (auto simp: Let_def chargesFor_def)
    qed
  qed (simp add: chargesFor_def)
  from this [of "[]" 0] show ?thesis by (simp add: derivedAttemptCounts_def countOf_def)
qed

lemma matching_counts:
  assumes "countsMatchPersisted persisted derived"
  shows "persistedCount persisted name = countOf derived name"
proof (cases "name \<in> set (map fst persisted @ map fst derived)")
  case True
  with assms show ?thesis by (fastforce simp: countsMatchPersisted_def list_all_iff persistedCount_def Let_def)
next
  case False
  then have "map_of persisted name = None" "map_of derived name = None" by (auto simp: map_of_eq_None_iff)
  then show ?thesis by (simp add: persistedCount_def countOf_def)
qed

text \<open>C19: an episode read from disk together with its attempt history, in a record that is not
  superseded, is accepted as live authority only if its id is the digest of its own key fields, the
  counter it carries for every recipe is exactly the number of attempts in the history that charged
  this episode with the recipe (none where it carries no counter), and its cursor is a whole number
  of recipes of the sequence each of which is either recorded as skipped or has spent its bound: a
  forged id, counter or cursor is refused.\<close>

theorem authoritative_episode_justified:
  assumes "isAuthoritativeEpisodeState sha256 v siblings policy"
    and "siblings \<noteq> []" and "jprop v ''outcome'' \<noteq> JStr ''superseded''"
  shows "jprop v ''episode_id'' = JStr (recoveryEpisodeId sha256
       \<lparr>ek_operation = strVal (jprop v ''operation''), ek_invariant = strVal (jprop v ''invariant''),
        ek_candidate_epoch = strVal (jprop v ''candidate_epoch''),
        ek_evidence_identity = strVal (jprop v ''evidence_identity'')\<rparr>)
    \<and> (\<exists>persisted. jprop v ''attempts_per_strategy'' = JObj persisted
         \<and> (\<forall>name. persistedCount persisted name = Fin (of_nat (chargesFor (jprop v ''episode_id'') name siblings))))
    \<and> (\<exists>recipes bound skipped n.
         episodeSequence v policy = Some (recipes, bound)
         \<and> collectSkippedRecipes v siblings = Some skipped
         \<and> jprop v ''strategy_cursor'' = JNum (Fin (of_nat n)) \<and> n \<le> length recipes
         \<and> (\<forall>i<n. recipeName (recipes ! i) \<in> set skipped
              \<or> num_le (Fin (bound (recipes ! i)))
                  (Fin (of_nat (chargesFor (jprop v ''episode_id'') (recipeName (recipes ! i)) siblings)))))"
proof -
  obtain recipes b skipped persisted n where f:
    "episodeSequence v policy = Some (recipes, b)" "collectSkippedRecipes v siblings = Some skipped"
    "jprop v ''attempts_per_strategy'' = JObj persisted"
    "numVal (jprop v ''strategy_cursor'') = rat_of_nat n"
    "\<And>i. i < n \<Longrightarrow> i < length recipes \<and> accounted b
       (if siblings \<noteq> [] \<and> jprop v ''outcome'' \<noteq> JStr ''superseded''
        then derivedAttemptCounts (jprop v ''episode_id'') siblings else numericCounts persisted)
       skipped (recipes ! i)"
    "jprop v ''episode_id'' = JStr (recoveryEpisodeId sha256
       \<lparr>ek_operation = strVal (jprop v ''operation''), ek_invariant = strVal (jprop v ''invariant''),
        ek_candidate_epoch = strVal (jprop v ''candidate_epoch''),
        ek_evidence_identity = strVal (jprop v ''evidence_identity'')\<rparr>)"
    "countsMatchPersisted persisted (derivedAttemptCounts (jprop v ''episode_id'') siblings)"
    using authoritativeE [OF assms(1)] assms(2,3) by metis
  have "isIntegerNum (jprop v ''strategy_cursor'')"
    using assms(1) by (simp add: isAuthoritativeEpisodeState_def split: if_splits)
  then have cursor: "jprop v ''strategy_cursor'' = JNum (Fin (of_nat n))"
    using f(4) by (auto simp: isIntegerNum_def isFiniteNum_def numVal_def split: jsval.splits jsnum.splits)
  have "n \<le> length recipes" using f(5) by (metis less_irrefl not_le)
  moreover have "\<forall>i<n. recipeName (recipes ! i) \<in> set skipped
      \<or> num_le (Fin (b (recipes ! i))) (Fin (of_nat (chargesFor (jprop v ''episode_id'') (recipeName (recipes ! i)) siblings)))"
    using f(5) assms(2,3) by (auto simp: accounted_def derived_charges)
  moreover have "persistedCount persisted name = Fin (of_nat (chargesFor (jprop v ''episode_id'') name siblings))" for name
    using matching_counts [OF f(7)] derived_charges by simp
  ultimately show ?thesis using f(1-3,6) cursor by blast
qed

definition exampleEpisode :: "nat \<Rightarrow> jsval" where
  "exampleEpisode cursor = JObj [(''operation'', JStr ''loop_recovery''), (''invariant'', JStr ''workflow-state''),
     (''class'', JStr ''workflow-state''), (''candidate_epoch'', JStr ''h''), (''evidence_identity'', JStr ''e''),
     (''episode_id'', JStr (recoveryEpisodeId id \<lparr>ek_operation = ''loop_recovery'', ek_invariant = ''workflow-state'',
        ek_candidate_epoch = ''h'', ek_evidence_identity = ''e''\<rparr>)),
     (''outcome'', JStr ''started''), (''action'', JStr ''repair_pipeline_item''),
     (''attempts_per_strategy'', JObj [(''repair_pipeline_item'', JNumNat 1)]),
     (''strategy_cursor'', JNumNat cursor), (''skipped_strategies'', JArr [JStr ''resync_workflow_state''])]"

theorem authoritative_episode_justified_witness:
  "isAuthoritativeEpisodeState id (exampleEpisode 1) [exampleEpisode 1] JUndef
   \<and> (\<exists>persisted. jprop (exampleEpisode 1) ''attempts_per_strategy'' = JObj persisted
       \<and> persistedCount persisted ''repair_pipeline_item''
         = Fin (of_nat (chargesFor (jprop (exampleEpisode 1) ''episode_id'') ''repair_pipeline_item'' [exampleEpisode 1])))"
proof -
  have a: "isAuthoritativeEpisodeState id (exampleEpisode 1) [exampleEpisode 1] JUndef" by code_simp
  have "jprop (exampleEpisode 1) ''outcome'' \<noteq> JStr ''superseded''" by code_simp
  from authoritative_episode_justified [OF a _ this] a show ?thesis by blast
qed

text \<open>Episode identities are as distinct as the digest: two keys whose fields contain no NUL
  character and whose canonical encodings do not collide under the digest have equal episode ids
  only if they are the same key.\<close>

lemma episode_id_injective:
  assumes no_collision: "inj_on sha256 {canonicalKey k, canonicalKey k'}"
    and "nulFree k" "nulFree k'" "recoveryEpisodeId sha256 k = recoveryEpisodeId sha256 k'"
  shows "sameEpisodeKey k k'"
proof -
  have "sha256 (canonicalKey k) = sha256 (canonicalKey k')"
    using assms(4) by (simp add: recoveryEpisodeId_def canonicalKey_def)
  then have "canonicalKey k = canonicalKey k'" using no_collision by (auto dest: inj_onD)
  then have "k = k'" using assms(2,3) by (rule canonicalKey_inject [rotated 2])
  then show ?thesis by (simp add: sameEpisodeKey_def)
qed

text \<open>Persisting a claim and resuming gives back the episode: when the attempt that carries the
  episode's fields is appended to the history, the episode resumed from the history under the same
  key is the one that was written, with the fencing token of the writer.\<close>

lemma episode_persist_resume:
  assumes attach: "attachEpisodeFields attempt episode (Some token) = Inr next"
    and fresh: "er_episode_id episode = recoveryEpisodeId sha256 key" "token \<noteq> []"
    and charged: "er_attempts_per_strategy episode \<noteq> []"
    and skips: "\<forall>a\<in>set (attempts @ [next]). \<forall>r. ra_outcome a = SkippedAttempt \<and> ra_action a = Some r
      \<longrightarrow> r \<in> set (er_skipped_strategies episode)"
  shows "resumeEpisodeFromAttempts sha256 (attempts @ [next]) key = Some (episode\<lparr>er_fence_token := Some token\<rparr>)"
proof -
  have n: "ra_episode_id next = Some (er_episode_id episode)" "ra_operation next = Some (er_operation episode)"
    "ra_invariant next = Some (er_invariant episode)" "ra_candidate_epoch next = Some (er_candidate_epoch episode)"
    "ra_evidence_identity next = Some (er_evidence_identity episode)"
    "ra_attempts_per_strategy next = Some (er_attempts_per_strategy episode)"
    "ra_strategy_cursor next = Some (er_strategy_cursor episode)"
    "ra_skipped_strategies next = Some (er_skipped_strategies episode)"
    "ra_next_eligible_at next = Some (er_next_eligible_at episode)" "ra_fence_token next = Some token"
    using attach fresh(2) by (auto simp: attachEpisodeFields_def assertRecoveryEpisodeFields_def Let_def)
  let ?m = "filter (\<lambda>a. ra_episode_id a = Some (recoveryEpisodeId sha256 key)) attempts @ [next]"
  have "fold addSkipped ?m (er_skipped_strategies episode) = er_skipped_strategies episode"
    by (rule fold_addSkipped_absorb) (use skips in auto)
  then have "projectEpisode sha256 ?m key = episode\<lparr>er_fence_token := Some token\<rparr>"
    using charged unfolding projectEpisode_def Let_def last_snoc n by simp
  then show ?thesis using n(1) fresh(1) by (simp add: resumeEpisodeFromAttempts_def Let_def)
qed

definition blankAttempt :: "string \<Rightarrow> DurableBlockerClass \<Rightarrow> RecoveryRecipe \<Rightarrow> RecoveryAttemptOutcome \<Rightarrow> LoopRecoveryAttempt" where
  "blankAttempt item cls action outcome =
     \<lparr>ra_attempt_id = None, ra_seq = 0, ra_time = Iso 0, ra_not_before = None, ra_next_attempt_at = None,
      ra_completed_at = None, ra_item_id = item, ra_class = cls, ra_candidate_identity = None,
      ra_action = Some action, ra_actions = [action], ra_evidence_fingerprint = ''e'', ra_outcome = outcome,
      ra_status = Some outcome, ra_budget_remaining = None, ra_error = None, ra_last_error = None,
      ra_typed_reason = None, ra_terminal_outcome = None, ra_idempotency_key = None, ra_head_sha = None,
      ra_invariant = None, ra_candidate_epoch = None, ra_evidence_identity = None,
      ra_attempts_per_strategy = None, ra_strategy_cursor = None, ra_skipped_strategies = None,
      ra_next_eligible_at = None, ra_fence_token = None, ra_side_effect_certainty = None,
      ra_episode_id = None, ra_operation = None\<rparr>"

text \<open>A cooling deadline lies between the present and the configured maximum after it, for a
  finite backoff schedule with a non-negative initial delay, and the deadline always exists when it
  is inside the range of dates.\<close>

lemma cooling_deadline_bounds:
  assumes "backoff = \<lparr>bo_initial_seconds = Fin i, bo_multiplier = Fin m, bo_max_seconds = Fin x\<rparr>"
    and "0 \<le> i" "0 \<le> m" "0 \<le> x" "0 \<le> now" "of_int now + x * 1000 \<le> MAX_TIME"
  shows "\<exists>t. coolingDeadline (Iso now) backoff generation = Some (Iso t)
    \<and> now \<le> t \<and> of_int t \<le> of_int now + x * 1000"
proof -
  have pow: "num_pow (Fin m) k = Fin (m ^ k)" for k
    by (induction k) auto
  obtain s where s: "backoffSeconds backoff (nat (max 0 generation)) = Fin s" "0 \<le> s" "s \<le> x"
  proof -
    let ?d = "i * m ^ nat (max 0 generation)"
    have "backoffSeconds backoff (nat (max 0 generation)) = Fin (min x ?d)"
      by (simp add: assms(1) backoffSeconds_def pow num_min_def min_def)
    moreover have "0 \<le> min x ?d" "min x ?d \<le> x" using assms by simp_all
    ultimately show ?thesis using that by blast
  qed
  let ?v = "of_int now + s * 1000 :: rat"
  have v: "0 \<le> ?v" "?v \<le> of_int now + x * 1000" "\<bar>?v\<bar> \<le> MAX_TIME" "of_int now \<le> ?v"
    using s assms by auto
  have "coolingDeadline (Iso now) backoff generation = Some (Iso \<lfloor>?v\<rfloor>)"
    using s v by (simp add: coolingDeadline_def iso_plus_seconds_def trunc_rat_def)
  moreover have "now \<le> \<lfloor>?v\<rfloor>" using v(4) by (simp add: le_floor_iff)
  moreover have "of_int \<lfloor>?v\<rfloor> \<le> of_int now + x * 1000" using v(2) of_int_floor_le order_trans by blast
  ultimately show ?thesis by blast
qed

end
