(* ===== verification/Contract_Compile.thy ===== *)
theory Contract_Compile
  imports Loop_Types
begin

text \<open>
  Contract compilation (\<open>compileContractItems\<close> of \<open>core/scripts/loop/dependencies.ts\<close>): the
  partition of declared dependencies by snapshot membership and the depth-first topological order.
  The nested function \<open>visit\<close> and its loop over the dependencies are two mutually recursive
  functions on the state (\<open>permanent\<close>, \<open>ordered\<close>); \<open>inStack\<close> holds exactly the path of the
  current call, so it is the path argument. The lemmas show that compilation terminates, that it
  succeeds exactly on snapshots with distinct ids and no dependency cycle, and that the result is a
  permutation of the partitioned items in which every item follows its dependencies.
\<close>

section \<open>Definitions\<close>

record RawContractItem =
  ri_id :: string
  ri_depends_on :: "string list option"

fun firstDuplicate :: "string list \<Rightarrow> string list \<Rightarrow> string option" where
  "firstDuplicate seen [] = None"
| "firstDuplicate seen (i # is) = (if i \<in> set seen then Some i else firstDuplicate (i # seen) is)"

definition partitionItem :: "string set \<Rightarrow> RawContractItem \<Rightarrow> LoopContractItem" where
  "partitionItem idSet item =
     (let declared = orElse (ri_depends_on item) []
      in \<lparr>ci_id = ri_id item, ci_depends_on = filter (\<lambda>d. d \<in> idSet) declared,
          ci_external_depends_on = Some (filter (\<lambda>d. d \<notin> idSet) declared), ci_ownership = None\<rparr>)"

definition cycleError :: "string list \<Rightarrow> string \<Rightarrow> LoopError" where
  "cycleError path i = LoopError Validation (''dependency cycle detected: '' @ js_join '' -> '' (path @ [i]))"

text \<open>
  \<open>deps\<close> is the dependency list of a node of the finite node set \<open>nodes\<close>. The path only ever
  holds nodes, so the number of nodes off the path bounds the depth of the recursion. An id that is
  no node has no dependencies; declared dependencies are filtered to the nodes, so none is visited.
\<close>

function visit :: "string list \<Rightarrow> (string \<Rightarrow> string list) \<Rightarrow> string list \<Rightarrow> string \<Rightarrow> string list
      \<Rightarrow> string list result"
  and visitDeps :: "string list \<Rightarrow> (string \<Rightarrow> string list) \<Rightarrow> string list \<Rightarrow> string list \<Rightarrow> string list
      \<Rightarrow> string list result" where
  "visit nodes deps path i ordered =
     (if i \<in> set ordered then Inr ordered
      else if i \<in> set path then Inl (cycleError path i)
      else if i \<notin> set nodes then Inr (ordered @ [i])
      else (case visitDeps nodes deps (path @ [i]) (deps i) ordered of
              Inl e \<Rightarrow> Inl e
            | Inr ordered' \<Rightarrow> Inr (ordered' @ [i])))"
| "visitDeps nodes deps path ds ordered =
     (case ds of [] \<Rightarrow> Inr ordered
      | d # rest \<Rightarrow> (case visit nodes deps path d ordered of
           Inl e \<Rightarrow> Inl e
         | Inr ordered' \<Rightarrow> visitDeps nodes deps path rest ordered'))"
  by pat_completeness auto
termination
proof (relation "inv_image (less_than <*lex*> less_than)
    (\<lambda>x. case x of Inl (nodes, deps, path, i, ordered) \<Rightarrow> (card (set nodes - set path), 0)
                  | Inr (nodes, deps, path, ds, ordered) \<Rightarrow> (card (set nodes - set path), Suc (length ds)))",
    goal_cases)
  case (2 nodes deps path i ordered)
  then have "set nodes - set (path @ [i]) \<subset> set nodes - set path" by auto
  then have "card (set nodes - set (path @ [i])) < card (set nodes - set path)"
    by (intro psubset_card_mono) auto
  then show ?case by simp
qed auto

declare visit.simps [simp del] visitDeps.simps [simp del]

definition itemOf :: "LoopContractItem list \<Rightarrow> string \<Rightarrow> LoopContractItem option" where
  "itemOf items i = find (\<lambda>x. ci_id x = i) items"

definition dependsOnOf :: "LoopContractItem list \<Rightarrow> string \<Rightarrow> string list" where
  "dependsOnOf items i = (case itemOf items i of None \<Rightarrow> [] | Some x \<Rightarrow> ci_depends_on x)"

definition partitionItems :: "RawContractItem list \<Rightarrow> LoopContractItem list" where
  "partitionItems rawItems = map (partitionItem (set (map ri_id rawItems))) rawItems"

definition compileContractItems :: "RawContractItem list \<Rightarrow> LoopContractItem list result" where
  "compileContractItems rawItems =
     (let ids = map ri_id rawItems
      in case firstDuplicate [] ids of
           Some i \<Rightarrow> Inl (LoopError Validation (''duplicate item id '' @ quoted i @ '' in snapshot''))
         | None \<Rightarrow>
             (let partitioned = partitionItems rawItems
              in case visitDeps ids (dependsOnOf partitioned) [] ids [] of
                   Inl e \<Rightarrow> Inl e
                 | Inr ordered \<Rightarrow> Inr (List.map_filter (itemOf partitioned) ordered)))"

definition upgradeContractForDependencyIntegrity :: "LoopContract \<Rightarrow> LoopContract" where
  "upgradeContractForDependencyIntegrity contract =
     (if list_all (\<lambda>i. ci_external_depends_on i \<noteq> None) (lc_items contract) then contract
      else contract\<lparr>lc_items := map (\<lambda>i. i\<lparr>ci_external_depends_on := Some (orElse (ci_external_depends_on i) [])\<rparr>)
             (lc_items contract)\<rparr>)"

section \<open>The depth-first order\<close>

definition edges :: "(string \<Rightarrow> string list) \<Rightarrow> (string \<times> string) set" where
  "edges deps = {(a, b). b \<in> set (deps a)}"

definition topo :: "(string \<Rightarrow> string list) \<Rightarrow> string list \<Rightarrow> bool" where
  "topo deps xs \<longleftrightarrow> (\<forall>k<length xs. set (deps (xs ! k)) \<subseteq> set (take k xs))"

definition closed :: "string list \<Rightarrow> (string \<Rightarrow> string list) \<Rightarrow> bool" where
  "closed nodes deps \<longleftrightarrow> (\<forall>i\<in>set nodes. set (deps i) \<subseteq> set nodes)"

definition good :: "string list \<Rightarrow> (string \<Rightarrow> string list) \<Rightarrow> string list \<Rightarrow> string list \<Rightarrow> bool" where
  "good nodes deps path xs \<longleftrightarrow> distinct xs \<and> set xs \<subseteq> set nodes \<and> topo deps xs \<and> set path \<inter> set xs = {}"

lemma topo_snoc: "topo deps (xs @ [i]) \<longleftrightarrow> topo deps xs \<and> set (deps i) \<subseteq> set xs"
  by (auto simp: topo_def nth_append less_Suc_eq)

lemma visit_Inr:
  "closed nodes deps \<Longrightarrow> i \<in> set nodes \<Longrightarrow> good nodes deps path xs \<Longrightarrow> visit nodes deps path i xs = Inr ys
    \<Longrightarrow> good nodes deps path ys \<and> insert i (set xs) \<subseteq> set ys"
  "closed nodes deps \<Longrightarrow> set ds \<subseteq> set nodes \<Longrightarrow> good nodes deps path xs \<Longrightarrow> visitDeps nodes deps path ds xs = Inr ys
    \<Longrightarrow> good nodes deps path ys \<and> set ds \<union> set xs \<subseteq> set ys"
proof (induction nodes deps path i xs and nodes deps path ds xs arbitrary: ys and ys rule: visit_visitDeps.induct)
  case (1 nodes deps path i xs)
  show ?case
  proof (cases "i \<in> set xs \<or> i \<in> set path")
    case True
    with 1 show ?thesis by (auto simp: visit.simps split: if_splits)
  next
    case False
    then obtain zs where zs: "visitDeps nodes deps (path @ [i]) (deps i) xs = Inr zs" "ys = zs @ [i]"
      using 1(3,5) by (auto simp: visit.simps split: if_splits sum.splits)
    have "good nodes deps (path @ [i]) xs" using 1(4) False by (auto simp: good_def)
    moreover have "set (deps i) \<subseteq> set nodes" using 1(2,3) by (auto simp: closed_def)
    ultimately have "good nodes deps (path @ [i]) zs \<and> set (deps i) \<union> set xs \<subseteq> set zs"
      using 1(1) [of zs] False 1(2,3) zs(1) by simp
    with False 1(3) zs(2) show ?thesis by (auto simp: good_def topo_snoc)
  qed
next
  case (2 nodes deps path ds xs)
  show ?case
  proof (cases ds)
    case Nil
    with 2(5,6) show ?thesis by (simp add: visitDeps.simps)
  next
    case (Cons d rest)
    then obtain zs where zs: "visit nodes deps path d xs = Inr zs" "visitDeps nodes deps path rest zs = Inr ys"
      using 2(6) by (auto simp: visitDeps.simps [of _ _ _ "d # rest"] split: sum.splits)
    have z: "good nodes deps path zs \<and> insert d (set xs) \<subseteq> set zs"
      using 2(1) [OF Cons 2(3) _ 2(5) zs(1)] 2(4) Cons by simp
    then have "good nodes deps path ys \<and> set rest \<union> set zs \<subseteq> set ys"
      using 2(2) [OF Cons zs(1) 2(3) _ _ zs(2)] 2(4) Cons by simp
    with z Cons show ?thesis by auto
  qed
qed

text \<open>An error is a cycle: every id on the path reaches the visited one.\<close>

lemma visit_Inl:
  "(\<And>x. x \<in> set path \<Longrightarrow> (x, i) \<in> (edges deps)\<^sup>+) \<Longrightarrow> visit nodes deps path i xs = Inl e
    \<Longrightarrow> loopFailureClass e = Validation \<and> \<not> acyclic (edges deps)"
  "(\<And>x d. x \<in> set path \<Longrightarrow> d \<in> set ds \<Longrightarrow> (x, d) \<in> (edges deps)\<^sup>+) \<Longrightarrow> visitDeps nodes deps path ds xs = Inl e
    \<Longrightarrow> loopFailureClass e = Validation \<and> \<not> acyclic (edges deps)"
proof (induction nodes deps path i xs and nodes deps path ds xs rule: visit_visitDeps.induct)
  case (1 nodes deps path i xs)
  show ?case
  proof (cases "i \<in> set path")
    case True
    with 1(2) [OF True] 1(3) show ?thesis
      by (auto simp: visit.simps acyclic_def cycleError_def split: if_splits)
  next
    case False
    with 1(3) have v: "visitDeps nodes deps (path @ [i]) (deps i) xs = Inl e" "i \<notin> set xs" "i \<in> set nodes"
      by (auto simp: visit.simps split: if_splits sum.splits)
    have "(x, d) \<in> (edges deps)\<^sup>+" if "x \<in> set (path @ [i])" "d \<in> set (deps i)" for x d
    proof -
      have "(i, d) \<in> edges deps" using that(2) by (simp add: edges_def)
      with that(1) 1(2) [of x] show ?thesis by (auto intro: trancl_into_trancl)
    qed
    from 1(1) [OF v(2) False _ this v(1)] v(3) show ?thesis by simp
  qed
next
  case (2 nodes deps path ds xs)
  show ?case
  proof (cases ds)
    case Nil
    with 2(4) show ?thesis by (simp add: visitDeps.simps)
  next
    case (Cons d rest)
    show ?thesis
    proof (cases "visit nodes deps path d xs")
      case (Inl e')
      then have "e' = e" using 2(4) Cons by (auto simp: visitDeps.simps [of _ _ _ "d # rest"])
      with 2(1) [OF Cons] 2(3) Cons Inl show ?thesis by simp
    next
      case (Inr zs)
      then have "visitDeps nodes deps path rest zs = Inl e"
        using 2(4) Cons by (auto simp: visitDeps.simps [of _ _ _ "d # rest"])
      with 2(2) [OF Cons Inr] 2(3) Cons show ?thesis by simp
    qed
  qed
qed

text \<open>A topological order of all nodes excludes cycles.\<close>

lemma topo_acyclic:
  assumes "topo deps xs" "distinct xs" "\<And>a. a \<notin> set xs \<Longrightarrow> deps a = []"
  shows "acyclic (edges deps)"
proof -
  define pos where "pos x = (LEAST k. k < length xs \<and> xs ! k = x)" for x
  have pos: "pos (xs ! k) = k" if "k < length xs" for k
    unfolding pos_def using that assms(2) by (intro Least_equality) (auto simp: nth_eq_iff_index_eq)
  have "pos b < pos a" if "(a, b) \<in> edges deps" for a b
  proof -
    from that assms(3) have "a \<in> set xs" by (force simp: edges_def)
    then obtain k where k: "k < length xs" "xs ! k = a" by (auto simp: in_set_conv_nth)
    then have "b \<in> set (take k xs)" using assms(1) that by (auto simp: topo_def edges_def)
    then obtain j where "j < k" "j < length xs" "xs ! j = b" using k by (auto simp: in_set_conv_nth)
    with k pos show ?thesis by metis
  qed
  then have "edges deps \<subseteq> inv_image {(x, y). y < x} pos" by (auto simp: inv_image_def)
  moreover have "acyclic (inv_image {(x, y :: nat). y < x} pos)"
  proof -
    have "wf ((inv_image {(x, y :: nat). y < x} pos)\<inverse>)"
      by (rule wf_subset [OF wf_measure [of pos]]) (auto simp: measure_def inv_image_def less_eq)
    then show ?thesis by (metis acyclic_converse wf_acyclic)
  qed
  ultimately show ?thesis by (rule acyclic_subset [rotated])
qed

lemma firstDuplicate_None: "firstDuplicate seen xs = None \<longleftrightarrow> distinct xs \<and> set xs \<inter> set seen = {}"
  by (induction seen xs rule: firstDuplicate.induct) auto

section \<open>Compiled contracts\<close>

lemma itemOf_partition:
  assumes "distinct (map ri_id rawItems)" "r \<in> set rawItems"
  shows "itemOf (partitionItems rawItems) (ri_id r) = Some (partitionItem (set (map ri_id rawItems)) r)"
proof -
  have "find (\<lambda>x. ci_id x = ri_id r) (map (partitionItem S) rs) = Some (partitionItem S r)"
    if "distinct (map ri_id rs)" "r \<in> set rs" for rs S
    using that by (induction rs) (auto simp: partitionItem_def Let_def image_iff)
  with assms show ?thesis by (simp add: itemOf_def partitionItems_def)
qed

lemma itemOf_partition_None:
  "i \<notin> set (map ri_id rawItems) \<Longrightarrow> itemOf (partitionItems rawItems) i = None"
  by (auto simp: itemOf_def partitionItems_def partitionItem_def Let_def find_None_iff)

lemma dependsOnOf_partition:
  assumes "distinct (map ri_id rawItems)"
  shows "closed (map ri_id rawItems) (dependsOnOf (partitionItems rawItems))"
    and "i \<notin> set (map ri_id rawItems) \<Longrightarrow> dependsOnOf (partitionItems rawItems) i = []"
  using assms by (auto simp: closed_def dependsOnOf_def itemOf_partition itemOf_partition_None
      partitionItem_def Let_def)

lemma set_map_filter: "set (List.map_filter f xs) = {y. \<exists>x\<in>set xs. f x = Some y}"
  by (induction xs) (auto simp: List.map_filter_simps split: option.splits)

lemma map_filter_itemOf:
  assumes "distinct (map ri_id rawItems)" "set xs \<subseteq> set (map ri_id rawItems)"
  shows "map ci_id (List.map_filter (itemOf (partitionItems rawItems)) xs) = xs"
  using assms(2)
proof (induction xs)
  case (Cons x xs)
  then obtain r where "r \<in> set rawItems" "x = ri_id r" by auto
  with Cons itemOf_partition [OF assms(1), of r] show ?case
    by (simp add: List.map_filter_simps partitionItem_def Let_def)
qed (simp add: List.map_filter_simps)

lemma compile_Inr:
  assumes "compileContractItems rawItems = Inr items"
  shows "distinct (map ri_id rawItems) \<and> mset items = mset (partitionItems rawItems)
    \<and> topo (dependsOnOf (partitionItems rawItems)) (map ci_id items)"
proof -
  let ?ids = "map ri_id rawItems" and ?p = "partitionItems rawItems"
  have d: "distinct ?ids" using assms by (auto simp: compileContractItems_def Let_def firstDuplicate_None split: option.splits)
  obtain xs where xs: "visitDeps ?ids (dependsOnOf ?p) [] ?ids [] = Inr xs"
    and items: "items = List.map_filter (itemOf ?p) xs"
    using assms by (auto simp: compileContractItems_def Let_def split: option.splits sum.splits)
  have "good ?ids (dependsOnOf ?p) [] xs \<and> set ?ids \<union> set [] \<subseteq> set xs"
    using visit_Inr(2) [OF dependsOnOf_partition(1) [OF d] _ _ xs] by (simp add: good_def topo_def)
  then have g: "distinct xs" "set xs = set ?ids" "topo (dependsOnOf ?p) xs" by (auto simp: good_def)
  have ids: "map ci_id items = xs" unfolding items using map_filter_itemOf [OF d, of xs] g(2) by simp
  have pid: "map ci_id ?p = ?ids" by (simp add: partitionItems_def partitionItem_def Let_def)
  have "set items = set ?p"
  proof -
    have "set items = {x. \<exists>i\<in>set ?ids. itemOf ?p i = Some x}"
      unfolding items using g(2) by (simp add: set_map_filter)
    also have "\<dots> = set ?p" using itemOf_partition [OF d] by (auto simp: partitionItems_def)
    finally show ?thesis .
  qed
  moreover have "distinct items" "distinct ?p"
    using ids g(1) pid d by (metis distinct_map)+
  ultimately have "mset items = mset ?p" by (simp add: set_eq_iff_mset_eq_distinct)
  with d g(3) ids show ?thesis by simp
qed

section \<open>Properties\<close>

text \<open>C37: compilation always terminates with a result, and it succeeds exactly on snapshots whose ids
  are distinct and whose in-snapshot dependency graph has no cycle; every refusal is a
  \<open>validation\<close> failure.\<close>

theorem compile_succeeds_iff:
  "((\<exists>items. compileContractItems rawItems = Inr items) \<longleftrightarrow>
      distinct (map ri_id rawItems) \<and> acyclic (edges (dependsOnOf (partitionItems rawItems))))
   \<and> (\<forall>e. compileContractItems rawItems = Inl e \<longrightarrow> loopFailureClass e = Validation)"
proof -
  let ?ids = "map ri_id rawItems" and ?p = "partitionItems rawItems"
  have err: "loopFailureClass e = Validation \<and> \<not> (distinct ?ids \<and> acyclic (edges (dependsOnOf ?p)))"
    if "compileContractItems rawItems = Inl e" for e
  proof (cases "distinct ?ids")
    case True
    then have "visitDeps ?ids (dependsOnOf ?p) [] ?ids [] = Inl e"
      using that firstDuplicate_None [of "[]" ?ids]
      by (auto simp: compileContractItems_def Let_def split: sum.splits)
    with visit_Inl(2) [of "[]" ?ids "dependsOnOf ?p" ?ids "[]" e] show ?thesis by simp
  next
    case False
    then show ?thesis using that firstDuplicate_None [of "[]" ?ids]
      by (auto simp: compileContractItems_def Let_def split: option.splits)
  qed
  have ok: "distinct ?ids \<and> acyclic (edges (dependsOnOf ?p))"
    if "compileContractItems rawItems = Inr items" for items
  proof -
    note f = compile_Inr [OF that]
    have pid: "map ci_id ?p = ?ids" by (simp add: partitionItems_def partitionItem_def Let_def)
    have "mset (map ci_id items) = mset ?ids" using f pid by (metis mset_map)
    then have "set (map ci_id items) = set ?ids" "distinct (map ci_id items)"
      using f by (metis set_mset_mset, metis mset_eq_imp_distinct_iff)
    with f topo_acyclic [of "dependsOnOf ?p" "map ci_id items"] dependsOnOf_partition(2) show ?thesis by auto
  qed
  show ?thesis using err ok by (cases "compileContractItems rawItems") auto
qed

definition exampleRaw :: "RawContractItem list" where
  "exampleRaw = [\<lparr>ri_id = ''3'', ri_depends_on = Some [''1'', ''99'']\<rparr>, \<lparr>ri_id = ''1'', ri_depends_on = None\<rparr>,
     \<lparr>ri_id = ''2'', ri_depends_on = Some [''3'']\<rparr>]"

theorem compile_succeeds_iff_witness:
  "acyclic (edges (dependsOnOf (partitionItems exampleRaw)))
   \<and> \<not> acyclic (edges (dependsOnOf (partitionItems [\<lparr>ri_id = ''1'', ri_depends_on = Some [''1'']\<rparr>])))"
proof -
  have "\<not> isl (compileContractItems exampleRaw)"
    "isl (compileContractItems [\<lparr>ri_id = ''1'', ri_depends_on = Some [''1'']\<rparr>])"
    by code_simp+
  then show ?thesis
    using compile_succeeds_iff [of exampleRaw] compile_succeeds_iff [of "[\<lparr>ri_id = ''1'', ri_depends_on = Some [''1'']\<rparr>]"]
    by (cases "compileContractItems exampleRaw") (auto simp: isl_def)
qed

text \<open>A compiled contract holds exactly the partitioned items, each once; an item's in-snapshot
  dependencies all occur before it, and its declared dependencies are split by membership in the
  snapshot without loss.\<close>

lemma compile_order_correct:
  assumes "compileContractItems rawItems = Inr items"
  shows "mset items = mset (partitionItems rawItems)
    \<and> (\<forall>k<length items. set (ci_depends_on (items ! k)) \<subseteq> ci_id ` set (take k items))
    \<and> (\<forall>i\<in>set items. \<exists>r\<in>set rawItems. ci_id i = ri_id r
         \<and> set (ci_depends_on i) \<union> set (orElse (ci_external_depends_on i) []) = set (orElse (ri_depends_on r) [])
         \<and> set (orElse (ci_external_depends_on i) []) \<inter> set (map ri_id rawItems) = {})"
proof -
  let ?p = "partitionItems rawItems"
  note f = compile_Inr [OF assms]
  have set: "set items = set ?p" using f by (metis set_mset_mset)
  have dep: "dependsOnOf ?p (ci_id i) = ci_depends_on i" if i: "i \<in> set items" for i
  proof -
    from i set obtain r where r: "r \<in> set rawItems" "i = partitionItem (set (map ri_id rawItems)) r"
      by (auto simp: partitionItems_def)
    with itemOf_partition [of rawItems r] f show ?thesis
      by (simp add: dependsOnOf_def partitionItem_def Let_def)
  qed
  have "set (ci_depends_on (items ! k)) \<subseteq> ci_id ` set (take k items)" if "k < length items" for k
    using f that dep [of "items ! k"] by (simp add: topo_def take_map) metis
  moreover have "\<forall>i\<in>set items. \<exists>r\<in>set rawItems. ci_id i = ri_id r
         \<and> set (ci_depends_on i) \<union> set (orElse (ci_external_depends_on i) []) = set (orElse (ri_depends_on r) [])
         \<and> set (orElse (ci_external_depends_on i) []) \<inter> set (map ri_id rawItems) = {}"
    unfolding set by (auto simp: partitionItems_def partitionItem_def Let_def)
  ultimately show ?thesis using f by blast
qed

end
