(* ===== verification/Recovery_Select.thy ===== *)
theory Recovery_Select
  imports Lifecycle Recovery_Episodes Contract_Compile
begin

text \<open>
  The pure half of \<open>core/scripts/loop/recovery.ts\<close>: the upgrade of contracts and ledgers written
  by earlier versions, blocker classification, the idempotency key of a recovery action, and the
  selection of pending items that may start while others are blocked. The lemmas characterise the
  eligible set exactly and show that the upgrades are idempotent and change nothing they need not.
\<close>

section \<open>Upgrading persisted state\<close>

definition upgradeContractForRecovery :: "LoopContract \<Rightarrow> LoopContract result" where
  "upgradeContractForRecovery contract =
     (let normalized = normalizeRecoveryPolicyCompatibility (lc_recovery_policy contract)
      in case compileRecoveryPolicy normalized of
           Inl e \<Rightarrow> Inl e
         | Inr _ \<Rightarrow> Inr (contract\<lparr>lc_recovery_policy := normalized\<rparr>))"

text \<open>
  \<open>contract.recovery_policy[cls]\<close> on an upgraded contract: compilation copies the fields of the
  raw entry, so the compiled entry is the value the code reads.
\<close>

definition policyEntryFor :: "LoopContract \<Rightarrow> DurableBlockerClass \<Rightarrow> RecoveryPolicyEntry" where
  "policyEntryFor contract cls = projr (compileRecoveryPolicy (lc_recovery_policy contract)) cls"

definition recoveryAttemptId :: "(string \<Rightarrow> string) \<Rightarrow> string \<Rightarrow> string \<Rightarrow> string \<Rightarrow> RecoveryRecipe \<Rightarrow> string" where
  "recoveryAttemptId sha256 itemId candidateIdentity evidenceFingerprint action =
     sha256 (js_join NUL [''pipeline-recovery-attempt@1'', itemId, candidateIdentity, evidenceFingerprint,
       recipeName action])"

definition hasCoreFields :: "LoopRecoveryAttempt \<Rightarrow> bool" where
  "hasCoreFields a \<longleftrightarrow> truthy (ra_attempt_id a) \<and> truthy (ra_candidate_identity a)
     \<and> ra_action a \<noteq> None \<and> ra_budget_remaining a \<noteq> None"

text \<open>\<open>normalizeStartedRecoveryEpisodeIdentity\<close> on a typed attempt.\<close>

definition blankOpt :: "string option \<Rightarrow> bool" where
  "blankOpt s = (case s of None \<Rightarrow> True | Some t \<Rightarrow> js_trim t = [])"

definition normalizeStartedAttempt :: "(string \<Rightarrow> string) \<Rightarrow> LoopRecoveryAttempt \<Rightarrow> LoopRecoveryAttempt" where
  "normalizeStartedAttempt sha256 a =
     (if ra_outcome a \<noteq> Started \<or> ra_episode_id a \<noteq> None then a
      else (let evidenceIdentity = orElse (ra_evidence_identity a) (ra_evidence_fingerprint a)
            in if blankOpt (ra_operation a) \<or> blankOpt (ra_invariant a) \<or> blankOpt (ra_candidate_epoch a)
                  \<or> js_trim evidenceIdentity = []
               then a
               else a\<lparr>ra_evidence_identity := Some evidenceIdentity,
                      ra_episode_id := Some (recoveryEpisodeId sha256
                        \<lparr>ek_operation = the (ra_operation a), ek_invariant = the (ra_invariant a),
                         ek_candidate_epoch = the (ra_candidate_epoch a),
                         ek_evidence_identity = evidenceIdentity\<rparr>)\<rparr>))"

definition upgradeAttempt :: "(string \<Rightarrow> string) \<Rightarrow> LoopRecoveryAttempt \<Rightarrow> LoopRecoveryAttempt" where
  "upgradeAttempt sha256 a =
     (let action = (case ra_action a of Some r \<Rightarrow> Some r
            | None \<Rightarrow> (case ra_actions a of [] \<Rightarrow> None | r # _ \<Rightarrow> Some r))
      in if hasCoreFields a then normalizeStartedAttempt sha256 a
         else (case action of
           None \<Rightarrow> a
         | Some act \<Rightarrow>
             (let candidateIdentity = orElse (ra_candidate_identity a) (''legacy:'' @ show_int (ra_seq a))
              in normalizeStartedAttempt sha256 (a\<lparr>
                   ra_attempt_id := Some (orElse (ra_attempt_id a)
                     (recoveryAttemptId sha256 (ra_item_id a) candidateIdentity (ra_evidence_fingerprint a) act)),
                   ra_candidate_identity := Some candidateIdentity,
                   ra_action := Some act,
                   ra_budget_remaining := Some (orElse (ra_budget_remaining a) 0)\<rparr>))))"

definition upgradeItemTheme :: "LoopItemLedgerEntry \<Rightarrow> LoopItemLedgerEntry" where
  "upgradeItemTheme item =
     (case le_blocked_theme item of
        None \<Rightarrow> item
      | Some theme \<Rightarrow>
          if theme \<noteq> [] \<and> \<not> isDurableBlockerClass theme
          then (case mapLegacyThemeToBlockerClass theme of
                  Inr cls \<Rightarrow> item\<lparr>le_blocked_theme := Some (blockerClassName cls)\<rparr>
                | Inl _ \<Rightarrow> item)
          else item)"

definition upgradeLedgerForRecovery :: "(string \<Rightarrow> string) \<Rightarrow> LoopLedger \<Rightarrow> LoopLedger" where
  "upgradeLedgerForRecovery sha256 ledger =
     ledger\<lparr>ll_items := map (map_prod id upgradeItemTheme) (ll_items ledger),
            ll_recovery_attempts := Some (map (upgradeAttempt sha256) (orElse (ll_recovery_attempts ledger) []))\<rparr>"

definition attemptsOf :: "LoopLedger \<Rightarrow> LoopRecoveryAttempt list" where
  "attemptsOf ledger = orElse (ll_recovery_attempts ledger) []"

section \<open>Classification\<close>

definition classifyBlocker :: "string list \<Rightarrow> DurableBlockerClass result" where
  "classifyBlocker candidates =
     (let matches = filter isDurableBlockerClass (uniq candidates)
      in case matches of
           [] \<Rightarrow> Inl (LoopError Stop
             (''blocker classification failed: no candidate matched a known DurableBlockerClass (candidates: ''
              @ (if js_join '', '' candidates = [] then ''none'' else js_join '', '' candidates) @ '')''))
         | [m] \<Rightarrow> Inr (the (blockerClassOf m))
         | _ \<Rightarrow> Inl (LoopError Stop (''blocker classification failed: ambiguous -- multiple classes matched (''
             @ js_join '', '' matches @ '')'')))"

definition isReviewFindingsPrepUnlink :: "DurableBlockerClass option \<Rightarrow> RecoveryRecipe option \<Rightarrow> bool" where
  "isReviewFindingsPrepUnlink blockerClass action \<longleftrightarrow>
     blockerClass = Some ReviewFindings \<and> action = Some UnlinkEngineScratch"

definition recoveryCandidateIdentity :: "string option \<Rightarrow> string \<Rightarrow> int \<Rightarrow> string" where
  "recoveryCandidateIdentity requested evidenceFingerprint repeatedEvidenceCount =
     (let explicit = map_option js_trim requested
      in if truthy explicit then the explicit
         else ''block:'' @ show_int repeatedEvidenceCount @ '':'' @ evidenceFingerprint)"

definition recoveryEpisodeCandidateEpoch :: "LoopItemLedgerEntry option \<Rightarrow> string \<Rightarrow> string" where
  "recoveryEpisodeCandidateEpoch item fallback =
     (case Option.bind item le_last_verified_identity of
        None \<Rightarrow> fallback
      | Some identity \<Rightarrow>
          (case ei_logical_candidate_epoch identity of
             None \<Rightarrow> fallback
           | Some epoch \<Rightarrow> (let logical = js_trim (orElse epoch [])
                           in if logical \<noteq> [] then logical else fallback)))"

section \<open>Eligible items\<close>

definition DONE_STATES :: "LoopItemState set" where
  "DONE_STATES = {Ready, Merged, Released, Deployed}"

text \<open>A \<open>Map\<close> built from the contract's items: a later item with the same id overrides.\<close>

definition contractDeps :: "LoopContractItem list \<Rightarrow> string \<Rightarrow> string list" where
  "contractDeps items i = orElse (map_of (rev (map (\<lambda>x. (ci_id x, ci_depends_on x)) items)) i) []"

definition contractExternalDeps :: "LoopContractItem list \<Rightarrow> string \<Rightarrow> string list" where
  "contractExternalDeps items i =
     orElse (map_of (rev (map (\<lambda>x. (ci_id x, orElse (ci_external_depends_on x) [])) items)) i) []"

definition blockedIds :: "LoopLedger \<Rightarrow> string list" where
  "blockedIds ledger = map le_id (filter (\<lambda>item. le_state item = Blocked) (rec_values (ll_items ledger)))"

definition itemState :: "LoopLedger \<Rightarrow> string \<Rightarrow> LoopItemState option" where
  "itemState ledger i = map_option le_state (rec_get (ll_items ledger) i)"

definition isDone :: "LoopLedger \<Rightarrow> string \<Rightarrow> bool" where
  "isDone ledger i = (case itemState ledger i of None \<Rightarrow> False | Some s \<Rightarrow> s \<in> DONE_STATES)"

definition anyInProgress :: "LoopLedger \<Rightarrow> bool" where
  "anyInProgress ledger = list_ex (\<lambda>item. le_state item = InProgress) (rec_values (ll_items ledger))"

definition exhaustedItemId :: "LoopLedger \<Rightarrow> string option" where
  "exhaustedItemId ledger = (if stopIsMechanical (ll_stop ledger) then Option.bind (ll_stop ledger) st_item_id else None)"

definition eligibleItem ::
  "LoopContract \<Rightarrow> LoopLedger \<Rightarrow> ExternalDependencyStatus js_record \<Rightarrow> LoopContractItem \<Rightarrow> bool" where
  "eligibleItem contract ledger externalStatuses i =
     (if itemState ledger (ci_id i) \<noteq> Some Pending then False
      else if truthy (exhaustedItemId ledger) \<and> exhaustedItemId ledger = Some (ci_id i) then False
      else (let deps = contractDeps (lc_items contract) (ci_id i)
            in if list_ex (\<lambda>d. d \<in> set (blockedIds ledger)) deps then False
               else if \<not> list_all (isDone ledger) deps then False
               else list_all (\<lambda>e. rec_get externalStatuses e = Some Satisfied)
                      (contractExternalDeps (lc_items contract) (ci_id i))))"

definition eligibleIndependentItems ::
  "(string \<Rightarrow> string) \<Rightarrow> LoopContract \<Rightarrow> LoopLedger \<Rightarrow> ExternalDependencyStatus js_record \<Rightarrow> string list result" where
  "eligibleIndependentItems sha256 contractInput ledgerInput externalStatuses =
     (case upgradeContractForRecovery contractInput of
        Inl e \<Rightarrow> Inl e
      | Inr contract \<Rightarrow>
          (let ledger = upgradeLedgerForRecovery sha256 ledgerInput
           in if ll_stop ledger \<noteq> None \<and> \<not> stopIsMechanical (ll_stop ledger) then Inr []
              else if anyInProgress ledger then Inr []
              else Inr (map ci_id (filter (eligibleItem contract ledger externalStatuses) (lc_items contract)))))"

definition isRunFatalBlocked :: "(string \<Rightarrow> string) \<Rightarrow> LoopContract \<Rightarrow> LoopLedger \<Rightarrow> bool result" where
  "isRunFatalBlocked sha256 contractInput ledgerInput =
     (case upgradeContractForRecovery contractInput of
        Inl e \<Rightarrow> Inl e
      | Inr contract \<Rightarrow>
          Inr (list_ex (\<lambda>item. le_state item = Blocked
             \<and> (case Option.bind (le_blocked_theme item) blockerClassOf of
                  None \<Rightarrow> False | Some cls \<Rightarrow> pe_run_fatal (policyEntryFor contract cls)))
             (rec_values (ll_items (upgradeLedgerForRecovery sha256 ledgerInput)))))"

section \<open>Lemmas\<close>

lemma upgradeItemTheme_fields [simp]:
  "le_state (upgradeItemTheme item) = le_state item" "le_id (upgradeItemTheme item) = le_id item"
  by (auto simp: upgradeItemTheme_def split: option.splits sum.splits)

lemma upgradeItemTheme_idem [simp]: "upgradeItemTheme (upgradeItemTheme item) = upgradeItemTheme item"
  by (auto simp: upgradeItemTheme_def split: option.splits sum.splits)

lemma upgradeLedger_fields [simp]:
  "ll_stop (upgradeLedgerForRecovery sha ledger) = ll_stop ledger"
  "ll_lifecycle (upgradeLedgerForRecovery sha ledger) = ll_lifecycle ledger"
  "ll_run_id (upgradeLedgerForRecovery sha ledger) = ll_run_id ledger"
  by (simp_all add: upgradeLedgerForRecovery_def)

lemma rec_get_map_prod: "rec_get (map (map_prod id f) r) k = map_option f (rec_get r k)"
  by (induction r) (auto simp: rec_get_def)

lemma rec_values_map_prod: "rec_values (map (map_prod id f) r) = map f (rec_values r)"
  by (simp add: rec_values_def)

lemma upgradeLedger_items:
  "rec_get (ll_items (upgradeLedgerForRecovery sha ledger)) k = map_option upgradeItemTheme (rec_get (ll_items ledger) k)"
  "rec_values (ll_items (upgradeLedgerForRecovery sha ledger)) = map upgradeItemTheme (rec_values (ll_items ledger))"
  by (simp_all add: upgradeLedgerForRecovery_def rec_get_map_prod rec_values_map_prod)

lemma itemState_upgrade [simp]: "itemState (upgradeLedgerForRecovery sha ledger) i = itemState ledger i"
  by (simp add: itemState_def upgradeLedger_items option.map_comp comp_def)

lemma isDone_upgrade [simp]: "isDone (upgradeLedgerForRecovery sha ledger) = isDone ledger"
  by (rule ext) (simp add: isDone_def)

lemma anyInProgress_upgrade [simp]: "anyInProgress (upgradeLedgerForRecovery sha ledger) = anyInProgress ledger"
  by (simp add: anyInProgress_def upgradeLedger_items list_ex_iff)

lemma blockedIds_upgrade [simp]: "blockedIds (upgradeLedgerForRecovery sha ledger) = blockedIds ledger"
  by (simp add: blockedIds_def upgradeLedger_items filter_map comp_def)

lemma exhaustedItemId_upgrade [simp]: "exhaustedItemId (upgradeLedgerForRecovery sha ledger) = exhaustedItemId ledger"
  by (simp add: exhaustedItemId_def)

lemma eligibleItem_upgrade [simp]:
  "eligibleItem contract (upgradeLedgerForRecovery sha ledger) st = eligibleItem contract ledger st"
  by (rule ext) (simp only: eligibleItem_def itemState_upgrade exhaustedItemId_upgrade blockedIds_upgrade isDone_upgrade)

lemma upgradeContract_items:
  "upgradeContractForRecovery c = Inr c' \<Longrightarrow> lc_items c' = lc_items c"
  by (auto simp: upgradeContractForRecovery_def Let_def split: sum.splits)

lemma eligibleItem_contract:
  "lc_items c = lc_items c' \<Longrightarrow> eligibleItem c ledger st = eligibleItem c' ledger st"
  by (rule ext) (simp only: eligibleItem_def itemState_upgrade exhaustedItemId_upgrade blockedIds_upgrade isDone_upgrade)

lemma eligible_eq:
  assumes "upgradeContractForRecovery c = Inr c'"
  shows "eligibleIndependentItems sha c ledger st = Inr
     (if ll_stop ledger \<noteq> None \<and> \<not> stopIsMechanical (ll_stop ledger) \<or> anyInProgress ledger then []
      else map ci_id (filter (eligibleItem c ledger st) (lc_items c)))"
proof -
  have "eligibleItem c' ledger st = eligibleItem c ledger st"
    using upgradeContract_items [OF assms] by (rule eligibleItem_contract)
  then show ?thesis
    using assms upgradeContract_items [OF assms] by (simp add: eligibleIndependentItems_def Let_def)
qed

lemma map_of_rev_items:
  assumes "distinct (map ci_id items)" "i \<in> set items"
  shows "map_of (rev (map (\<lambda>x. (ci_id x, f x)) items)) (ci_id i) = Some (f i)"
proof (rule map_of_is_SomeI)
  show "distinct (map fst (rev (map (\<lambda>x. (ci_id x, f x)) items)))"
    using assms(1) by (simp add: rev_map [symmetric] comp_def)
qed (use assms(2) in auto)

lemma contractDeps_distinct:
  assumes "distinct (map ci_id items)" "i \<in> set items"
  shows "contractDeps items (ci_id i) = ci_depends_on i"
    and "contractExternalDeps items (ci_id i) = orElse (ci_external_depends_on i) []"
  using map_of_rev_items [OF assms, of ci_depends_on]
    map_of_rev_items [OF assms, of "\<lambda>x. orElse (ci_external_depends_on x) []"]
  by (simp_all add: contractDeps_def contractExternalDeps_def)

lemma normalizeStarted_idem [simp]:
  "normalizeStartedAttempt sha (normalizeStartedAttempt sha a) = normalizeStartedAttempt sha a"
  by (auto simp: normalizeStartedAttempt_def Let_def)

lemma hasCore_normalize [simp]: "hasCoreFields (normalizeStartedAttempt sha a) = hasCoreFields a"
  by (simp add: hasCoreFields_def normalizeStartedAttempt_def Let_def)

lemma upgradeAttempt_filled:
  "ra_action b = Some act \<Longrightarrow> ra_attempt_id b = Some x \<Longrightarrow> ra_candidate_identity b = Some c
    \<Longrightarrow> ra_budget_remaining b = Some q \<Longrightarrow> upgradeAttempt sha b = normalizeStartedAttempt sha b"
  by (cases b) (simp add: upgradeAttempt_def)

lemma upgradeAttempt_idem [simp]: "upgradeAttempt sha (upgradeAttempt sha a) = upgradeAttempt sha a"
proof (cases "hasCoreFields a")
  case True
  then show ?thesis by (simp add: upgradeAttempt_def)
next
  case False
  show ?thesis
  proof (cases "ra_action a = None \<and> ra_actions a = []")
    case True
    with False show ?thesis by (simp add: upgradeAttempt_def)
  next
    case b: False
    then obtain act where act: "(case ra_action a of Some r \<Rightarrow> Some r
        | None \<Rightarrow> (case ra_actions a of [] \<Rightarrow> None | r # _ \<Rightarrow> Some r)) = Some act"
      by (cases "ra_action a"; cases "ra_actions a") auto
    define a' where "a' = a\<lparr>ra_attempt_id := Some (orElse (ra_attempt_id a)
            (recoveryAttemptId sha (ra_item_id a) (orElse (ra_candidate_identity a) (''legacy:'' @ show_int (ra_seq a)))
              (ra_evidence_fingerprint a) act)),
          ra_candidate_identity := Some (orElse (ra_candidate_identity a) (''legacy:'' @ show_int (ra_seq a))),
          ra_action := Some act, ra_budget_remaining := Some (orElse (ra_budget_remaining a) 0)\<rparr>"
    have u: "upgradeAttempt sha a = normalizeStartedAttempt sha a'"
      using False act by (simp add: upgradeAttempt_def Let_def a'_def)
    have keep: "ra_action (normalizeStartedAttempt sha a') = Some act"
      "ra_attempt_id (normalizeStartedAttempt sha a') = ra_attempt_id a'"
      "ra_candidate_identity (normalizeStartedAttempt sha a') = ra_candidate_identity a'"
      "ra_budget_remaining (normalizeStartedAttempt sha a') = ra_budget_remaining a'"
      by (simp_all add: normalizeStartedAttempt_def Let_def a'_def)
    then show ?thesis unfolding u
      by (subst upgradeAttempt_filled [of _ act]) (simp_all add: a'_def)
  qed
qed

lemma upgrade_default:
  "lc_recovery_policy c = JUndef \<Longrightarrow>
     upgradeContractForRecovery c = Inr (c\<lparr>lc_recovery_policy := DEFAULT_RECOVERY_POLICY_INPUT\<rparr>)"
  by (simp add: upgradeContractForRecovery_def normalizeRecoveryPolicyCompatibility_def compile_default)

text \<open>Small contracts and ledgers to evaluate the definitions on.\<close>

definition mkItem :: "string \<Rightarrow> string list \<Rightarrow> string list \<Rightarrow> LoopContractItem" where
  "mkItem i deps ext = \<lparr>ci_id = i, ci_depends_on = deps, ci_external_depends_on = Some ext, ci_ownership = None\<rparr>"

definition mkContract :: "LoopContractItem list \<Rightarrow> LoopContract" where
  "mkContract items =
     \<lparr>lc_run_id = ''r1'', lc_logical_operation_id = None, lc_engine = Claude, lc_repo_name = ''o/r'',
      lc_repo_base_branch = ''main'', lc_selector = JUndef, lc_objective = [], lc_worktree_policy = [],
      lc_authority_grants = [], lc_recovery_budgets = [], lc_recovery_policy = JUndef,
      lc_consecutive_blocked_limit = 3, lc_verification = JUndef, lc_report_format = [], lc_items = items,
      lc_canonical_hash = [], lc_consecutive_no_progress_limit = None, lc_imported_from_schema = None,
      lc_supersedes = None, lc_max_concurrent = None, lc_dependency_discovery = None\<rparr>"

definition mkEntry :: "string \<Rightarrow> LoopItemState \<Rightarrow> LoopItemLedgerEntry" where
  "mkEntry i s =
     \<lparr>le_id = i, le_state = s, le_history = [], le_blocked_theme = None, le_recovery_budgets_remaining = [],
      le_evidence_fingerprint = None, le_blocker_candidate_epoch = None, le_blocker_candidate_head = None,
      le_repeated_evidence_count = None, le_hold_request = None, le_last_verified_identity = None,
      le_current_stage = None, le_current_stage_round = None, le_current_stage_updated_at = None,
      le_advance_run_id = None\<rparr>"

definition mkLedger :: "LoopItemLedgerEntry list \<Rightarrow> LoopLedger" where
  "mkLedger entries =
     \<lparr>ll_run_id = ''r1'', ll_items = map (\<lambda>e. (le_id e, e)) entries, ll_consecutive_blocked = 0,
      ll_merge_barrier = None, ll_stop = None, ll_cooling = None, ll_item_cooling = None, ll_lifecycle = None,
      ll_last_native_goal_check = None, ll_last_reconciliation = None, ll_reconciliation_sequence = 0,
      ll_recovery_attempts = Some [], ll_authority_amendments = Some [], ll_superseded_by = None\<rparr>"

lemma upgrade_mkContract:
  "upgradeContractForRecovery (mkContract items) = Inr ((mkContract items)\<lparr>lc_recovery_policy := DEFAULT_RECOVERY_POLICY_INPUT\<rparr>)"
  by (rule upgrade_default) (simp add: mkContract_def)

section \<open>Properties\<close>

text \<open>Upgrading a ledger is idempotent and keeps every item's id, state and order, the stop record
  and the lifecycle record, so an upgraded run is read the same way again.\<close>

lemma upgrade_ledger_idempotent:
  "upgradeLedgerForRecovery sha256 (upgradeLedgerForRecovery sha256 ledger) = upgradeLedgerForRecovery sha256 ledger
   \<and> rec_keys (ll_items (upgradeLedgerForRecovery sha256 ledger)) = rec_keys (ll_items ledger)
   \<and> itemState (upgradeLedgerForRecovery sha256 ledger) = itemState ledger
   \<and> ll_stop (upgradeLedgerForRecovery sha256 ledger) = ll_stop ledger"
proof -
  have "upgradeItemTheme \<circ> upgradeItemTheme = upgradeItemTheme" by (rule ext) simp
  moreover have "upgradeAttempt sha256 \<circ> upgradeAttempt sha256 = upgradeAttempt sha256" by (rule ext) simp
  ultimately have "upgradeLedgerForRecovery sha256 (upgradeLedgerForRecovery sha256 ledger) = upgradeLedgerForRecovery sha256 ledger"
    by (simp add: upgradeLedgerForRecovery_def prod.map_comp comp_def [of "map_prod _ _"])
  then show ?thesis by (auto simp: upgradeLedgerForRecovery_def [of _ ledger] rec_keys_def fun_eq_iff itemState_def
        rec_get_map_prod option.map_comp comp_def)
qed

text \<open>With distinct item ids, the eligible items are exactly the contract's pending items whose
  in-snapshot dependencies are all done (none of them blocked), whose external dependencies are all
  satisfied and which no mechanical stop names; nothing is eligible while an item is in progress or
  under a non-mechanical stop.\<close>

lemma eligible_items_exact:
  assumes "eligibleIndependentItems sha256 contract ledger externalStatuses = Inr ids"
    and "distinct (map ci_id (lc_items contract))"
  shows "distinct ids
    \<and> (i \<in> set ids \<longleftrightarrow>
        (ll_stop ledger = None \<or> stopIsMechanical (ll_stop ledger)) \<and> \<not> anyInProgress ledger
        \<and> (\<exists>c\<in>set (lc_items contract). ci_id c = i \<and> itemState ledger i = Some Pending
            \<and> (\<forall>d\<in>set (ci_depends_on c). isDone ledger d \<and> d \<notin> set (blockedIds ledger))
            \<and> (\<forall>e\<in>set (orElse (ci_external_depends_on c) []). rec_get externalStatuses e = Some Satisfied)
            \<and> \<not> (truthy (exhaustedItemId ledger) \<and> exhaustedItemId ledger = Some i)))"
proof -
  obtain c' where up: "upgradeContractForRecovery contract = Inr c'"
    using assms(1) by (cases "upgradeContractForRecovery contract") (auto simp: eligibleIndependentItems_def)
  have ids: "ids = (if ll_stop ledger \<noteq> None \<and> \<not> stopIsMechanical (ll_stop ledger) \<or> anyInProgress ledger then []
      else map ci_id (filter (eligibleItem contract ledger externalStatuses) (lc_items contract)))"
    using assms(1) eligible_eq [OF up] by simp
  have el: "eligibleItem contract ledger externalStatuses c \<longleftrightarrow> itemState ledger (ci_id c) = Some Pending
      \<and> (\<forall>d\<in>set (ci_depends_on c). isDone ledger d \<and> d \<notin> set (blockedIds ledger))
      \<and> (\<forall>e\<in>set (orElse (ci_external_depends_on c) []). rec_get externalStatuses e = Some Satisfied)
      \<and> \<not> (truthy (exhaustedItemId ledger) \<and> exhaustedItemId ledger = Some (ci_id c))"
    if "c \<in> set (lc_items contract)" for c
    unfolding eligibleItem_def Let_def contractDeps_distinct [OF assms(2) that] list_all_iff list_ex_iff by auto
  have "distinct (map ci_id (filter P (lc_items contract)))" for P
    using assms(2) by (rule distinct_map_filter)
  with ids el show ?thesis by auto
qed

text \<open>Classification names a class exactly when one and only one of the distinct candidates is a
  known class; zero or several matches are a \<open>stop\<close> failure, never a guess.\<close>

lemma classify_blocker_exact:
  "(classifyBlocker candidates = Inr cls \<longleftrightarrow>
      {c. blockerClassName c \<in> set candidates} = {cls})
   \<and> (\<forall>e. classifyBlocker candidates = Inl e \<longrightarrow> loopFailureClass e = Stop)"
proof -
  let ?m = "filter isDurableBlockerClass (uniq candidates)"
  have d: "distinct ?m" by simp
  have s: "set ?m = blockerClassName ` {c. blockerClassName c \<in> set candidates}"
    by (auto simp: isDurableBlockerClass_iff blockerClassOf_Some)
  have inj: "inj blockerClassName" by (simp add: inj_def)
  have "{c. blockerClassName c \<in> set candidates} = {cls} \<longleftrightarrow> set ?m = {blockerClassName cls}"
    unfolding s using inj_image_eq_iff [OF inj, of _ "{cls}"] by simp
  also have "\<dots> \<longleftrightarrow> ?m = [blockerClassName cls]"
    using d by (cases ?m rule: list.exhaust; cases "tl ?m") (auto dest!: arg_cong [of _ _ set])
  finally have eq: "{c. blockerClassName c \<in> set candidates} = {cls} \<longleftrightarrow> ?m = [blockerClassName cls]" .
  show ?thesis
  proof (cases ?m)
    case Nil
    with eq show ?thesis by (simp add: classifyBlocker_def)
  next
    case (Cons m rest)
    have "m \<in> set ?m" unfolding Cons by simp
    then obtain c where c: "m = blockerClassName c" using s by auto
    show ?thesis using eq Cons c by (cases rest) (auto simp: classifyBlocker_def)
  qed
qed


end
