(* ===== verification/Schedule.thy ===== *)
theory Schedule
  imports Ownership Recovery_Select
begin

text \<open>
  The independent-set scheduler (\<open>core/scripts/loop/schedule.ts\<close>): the two graph searches over
  declared dependencies, the greedy admission of frontier items, and the detection of changed-file
  overlap. The admission loop is an instance of a greedy contract stated as a locale; its lemmas give
  the safety of the selected set, and the searches are shown equal to the transitive closure.
\<close>

section \<open>Searching the dependency graph\<close>

definition allDeps :: "LoopContractItem list \<Rightarrow> string set" where
  "allDeps items = \<Union> (set ` ci_depends_on ` set items)"

lemma contractDeps_subset: "set (contractDeps items i) \<subseteq> allDeps items"
proof (cases "map_of (rev (map (\<lambda>x. (ci_id x, ci_depends_on x)) items)) i")
  case (Some ds)
  then have "(i, ds) \<in> set (rev (map (\<lambda>x. (ci_id x, ci_depends_on x)) items))" by (rule map_of_SomeD)
  with Some show ?thesis by (auto simp: contractDeps_def allDeps_def)
qed (simp add: contractDeps_def)

lemma finite_allDeps [simp]: "finite (allDeps items)"
  by (simp add: allDeps_def)

text \<open>The inner loop: \<open>None\<close> for the early return, else the new visited set and stack (top first).\<close>

fun scanDeps :: "string \<Rightarrow> string list \<Rightarrow> string list \<Rightarrow> string list \<Rightarrow> (string list \<times> string list) option" where
  "scanDeps to [] visited stack = Some (visited, stack)"
| "scanDeps to (dep # rest) visited stack =
     (if dep = to then None
      else if dep \<in> set visited then scanDeps to rest visited stack
      else scanDeps to rest (dep # visited) (dep # stack))"

function depSearch :: "LoopContractItem list \<Rightarrow> string \<Rightarrow> string list \<Rightarrow> string list \<Rightarrow> bool" where
  "depSearch items to visited stack =
     (case stack of [] \<Rightarrow> False
      | current # rest \<Rightarrow>
          (case scanDeps to (contractDeps items current) visited rest of
             None \<Rightarrow> True
           | Some (visited', stack') \<Rightarrow> depSearch items to visited' stack'))"
  by pat_completeness auto

lemma scanDeps_Some:
  "scanDeps to ds visited stack = Some (v, s) \<Longrightarrow>
     \<exists>new. v = new @ visited \<and> s = new @ stack \<and> distinct new \<and> set new \<inter> set visited = {}
       \<and> set new \<subseteq> set ds \<and> set ds \<subseteq> set v \<and> to \<notin> set ds"
proof (induction ds arbitrary: visited stack)
  case (Cons d ds)
  show ?case
  proof (cases "d \<in> set visited")
    case True
    with Cons.prems have "scanDeps to ds visited stack = Some (v, s)" "d \<noteq> to" by (auto split: if_splits)
    with Cons.IH [OF this(1)] True show ?thesis by auto
  next
    case False
    with Cons.prems have "scanDeps to ds (d # visited) (d # stack) = Some (v, s)" "d \<noteq> to" by (auto split: if_splits)
    with Cons.IH [OF this(1)] obtain new where n: "v = new @ d # visited" "s = new @ d # stack" "distinct new"
      "set new \<inter> set (d # visited) = {}" "set new \<subseteq> set ds" "set ds \<subseteq> set v" "to \<notin> set ds" by blast
    show ?thesis by (rule exI [of _ "new @ [d]"]) (use n False \<open>d \<noteq> to\<close> in auto)
  qed
qed simp

termination depSearch
proof (relation "measure (\<lambda>(items, to, visited, stack). length stack + 2 * card (allDeps items - set visited))",
    goal_cases)
  case (2 items to visited stack current rest p v s)
  obtain new where new: "v = new @ visited" "s = new @ rest" "distinct new" "set new \<inter> set visited = {}"
    "set new \<subseteq> set (contractDeps items current)"
    using 2(2,3) scanDeps_Some [of to "contractDeps items current" visited rest v s] by auto
  have sub: "set new \<subseteq> allDeps items - set visited" using new contractDeps_subset [of items current] by auto
  have "allDeps items - set v = (allDeps items - set visited) - set new" using new(1) by auto
  then have "card (allDeps items - set v) = card (allDeps items - set visited) - length new"
    using sub new(3) by (simp add: card_Diff_subset distinct_card)
  moreover have "length new \<le> card (allDeps items - set visited)"
    using card_mono [OF _ sub] new(3) by (simp add: distinct_card)
  ultimately show ?case using 2(1) new(2) by simp
qed simp

declare depSearch.simps [simp del]

definition dependsTransitively :: "LoopContractItem list \<Rightarrow> string \<Rightarrow> string \<Rightarrow> bool" where
  "dependsTransitively items from to = depSearch items to [] [from]"

definition hasDependencyPath :: "LoopContractItem list \<Rightarrow> string \<Rightarrow> string \<Rightarrow> bool" where
  "hasDependencyPath items a b \<longleftrightarrow> dependsTransitively items a b \<or> dependsTransitively items b a"

text \<open>The breadth-first walk that explains why a pending item is not in the frontier.\<close>

function blockedWalk :: "LoopContractItem list \<Rightarrow> string list \<Rightarrow> string list \<Rightarrow> string list" where
  "blockedWalk items queue visited =
     (case queue of [] \<Rightarrow> []
      | dep # rest \<Rightarrow>
          if dep \<in> set visited then blockedWalk items rest visited
          else dep # blockedWalk items (rest @ contractDeps items dep) (dep # visited))"
  by pat_completeness auto
termination
proof (relation "inv_image (less_than <*lex*> less_than)
    (\<lambda>(items, queue, visited). (card ((allDeps items \<union> set queue) - set visited), length queue))", goal_cases)
  case (2 items queue visited dep rest)
  then have "(allDeps items \<union> set rest) - set visited \<subseteq> (allDeps items \<union> set queue) - set visited" by auto
  then have "card ((allDeps items \<union> set rest) - set visited) \<le> card ((allDeps items \<union> set queue) - set visited)"
    by (rule card_mono [rotated]) simp
  with 2 show ?case by auto
next
  case (3 items queue visited dep rest)
  then have "(allDeps items \<union> set (rest @ contractDeps items dep)) - set (dep # visited)
      \<subset> (allDeps items \<union> set queue) - set visited"
    using contractDeps_subset [of items dep] by auto
  then have "card ((allDeps items \<union> set (rest @ contractDeps items dep)) - set (dep # visited))
      < card ((allDeps items \<union> set queue) - set visited)"
    by (rule psubset_card_mono [rotated]) simp
  then show ?case by simp
qed auto

declare blockedWalk.simps [simp del]

definition plainRationale :: "string \<Rightarrow> ScheduleDisposition \<Rightarrow> string option \<Rightarrow> string option \<Rightarrow> ScheduleRationale" where
  "plainRationale i disposition counterpart detail =
     \<lparr>sr_item_id = i, sr_disposition = disposition, sr_counterpart_item_id = counterpart, sr_detail = detail\<rparr>"

definition dependencyBlockedRationale :: "LoopContract \<Rightarrow> LoopLedger \<Rightarrow> ScheduleRationale list" where
  "dependencyBlockedRationale contract ledger =
     concat (map (\<lambda>item.
        if itemState ledger (ci_id item) \<noteq> Some Pending then []
        else map (\<lambda>dep. plainRationale (ci_id item) DependencyPath (Some dep) None)
               (filter (\<lambda>dep. \<not> isDone ledger dep) (blockedWalk (lc_items contract) (ci_depends_on item) [])))
      (lc_items contract))"

section \<open>Admission\<close>

definition concurrencyBudget :: "LoopContract \<Rightarrow> nat" where
  "concurrencyBudget contract =
     (case orElse (lc_max_concurrent contract) (Fin 1) of
        Fin r \<Rightarrow> if r \<ge> 1 then nat \<lfloor>r\<rfloor> else 1
      | _ \<Rightarrow> 1)"

definition evalInputsById :: "LoopContractItem list \<Rightarrow> string \<Rightarrow> OwnershipEvalInput" where
  "evalInputsById items i =
     evalInput i (orElse (map_of (rev (map (\<lambda>x. (ci_id x, ci_ownership x)) items)) i) None)"

definition unresolvedDrift :: "LoopReconciliation \<Rightarrow> LoopDrift \<Rightarrow> bool" where
  "unresolvedDrift r d =
     (let action = rec_get (rc_next_actions r) (dr_item_id d)
      in if action = Some RepairForward then False
         else if action = Some Reconstruct
         then (let observed = rec_get (rc_observed r) (dr_item_id d)
               in dr_class d = IdentityMismatch
                  \<and> (Option.bind observed ei_rebase_in_progress = Some True
                     \<or> Option.bind observed ei_product_dirt = Some True))
         else True)"

definition unresolvedDriftIds :: "LoopLedger \<Rightarrow> string list" where
  "unresolvedDriftIds ledger =
     (case ll_last_reconciliation ledger of
        None \<Rightarrow> []
      | Some r \<Rightarrow> map dr_item_id (filter (unresolvedDrift r) (rc_drift r)))"

definition conflictRationale :: "string \<Rightarrow> string \<Rightarrow> OwnershipConflictReason \<Rightarrow> ScheduleRationale" where
  "conflictRationale candidateId admittedId reason =
     (case reason of
        UnknownOwnershipReason detail \<Rightarrow> plainRationale candidateId UnknownOwnership (Some admittedId) (Some detail)
      | OverlappingSurface s \<Rightarrow> plainRationale candidateId ConflictEdge (Some admittedId)
          (Some (surfaceKindName (ns_kind s) @ '':'' @ ns_pattern s))
      | ExplicitEdge \<Rightarrow> plainRationale candidateId ConflictEdge (Some admittedId) None)"

fun firstConflict :: "LoopContractItem list \<Rightarrow> string \<Rightarrow> string list \<Rightarrow> ScheduleRationale option" where
  "firstConflict items candidateId [] = None"
| "firstConflict items candidateId (admittedId # rest) =
     (case evaluateConflict (evalInputsById items candidateId) (evalInputsById items admittedId) of
        Disjoint \<Rightarrow> firstConflict items candidateId rest
      | ConflictVerdict reason \<Rightarrow> Some (conflictRationale candidateId admittedId reason))"

definition denial :: "LoopContract \<Rightarrow> LoopLedger \<Rightarrow> string list \<Rightarrow> string \<Rightarrow> ScheduleRationale option" where
  "denial contract ledger selected candidateId =
     (case find (hasDependencyPath (lc_items contract) candidateId) selected of
        Some admittedId \<Rightarrow> Some (plainRationale candidateId DependencyPath (Some admittedId) None)
      | None \<Rightarrow> (case firstConflict (lc_items contract) candidateId selected of
          Some r \<Rightarrow> Some r
        | None \<Rightarrow>
            if candidateId \<in> set (unresolvedDriftIds ledger)
            then Some (plainRationale candidateId UnresolvedDrift None None)
            else if length selected \<ge> concurrencyBudget contract
            then Some (plainRationale candidateId BudgetTruncation None None)
            else None))"

text \<open>The walk over the frontier: admit a candidate no rule denies, and record why.\<close>

fun greedy :: "('a list \<Rightarrow> 'a \<Rightarrow> 'r option) \<Rightarrow> ('a \<Rightarrow> 'r) \<Rightarrow> 'a list \<Rightarrow> 'a list \<Rightarrow> 'a list \<times> 'r list" where
  "greedy deny admit selected [] = (selected, [])"
| "greedy deny admit selected (c # cs) =
     (case deny selected c of
        Some r \<Rightarrow> (case greedy deny admit selected cs of (sel, rs) \<Rightarrow> (sel, r # rs))
      | None \<Rightarrow> (case greedy deny admit (selected @ [c]) cs of (sel, rs) \<Rightarrow> (sel, admit c # rs)))"

definition admitted :: "string \<Rightarrow> ScheduleRationale" where
  "admitted i = plainRationale i Admitted None None"

definition selectSchedulableSet :: "(string \<Rightarrow> string) \<Rightarrow> LoopContract \<Rightarrow> LoopLedger
    \<Rightarrow> ExternalDependencyStatus js_record \<Rightarrow> ScheduleDecision result" where
  "selectSchedulableSet sha256 contract ledger externalStatuses =
     (case eligibleIndependentItems sha256 contract ledger externalStatuses of
        Inl e \<Rightarrow> Inl e
      | Inr frontier \<Rightarrow>
          (let dependencyBlocked = dependencyBlockedRationale contract ledger
           in if frontier = [] then Inr \<lparr>sd_selected = [], sd_rationale = dependencyBlocked\<rparr>
              else if ll_merge_barrier ledger \<noteq> None
              then Inr \<lparr>sd_selected = [],
                     sd_rationale = map (\<lambda>i. plainRationale i MergeBarrier None None) frontier @ dependencyBlocked\<rparr>
              else (case greedy (denial contract ledger) admitted [] frontier of
                (selected, rationale) \<Rightarrow>
                  Inr \<lparr>sd_selected = selected, sd_rationale = rationale @ dependencyBlocked\<rparr>)))"

section \<open>Changed-file overlap\<close>

record ChangedFileOverlapResult =
  cf_affected_item_ids :: "string list"
  cf_overlapping_paths :: "string list"

fun overlapStep :: "string list js_record \<Rightarrow> string \<times> string \<Rightarrow> string list \<times> string list
    \<Rightarrow> string list \<times> string list" where
  "overlapStep files (a, b) acc =
     (let filesA = orElse (rec_get files a) []; filesB = orElse (rec_get files b) []
      in fold (\<lambda>path (affected, overlapping).
           if path \<in> set filesB
           then (set_add b (set_add a affected), set_add path overlapping)
           else (affected, overlapping)) filesA acc)"

declare overlapStep.simps [simp del]

definition detectChangedFileOverlap :: "string list js_record \<Rightarrow> ChangedFileOverlapResult" where
  "detectChangedFileOverlap files =
     (let ids = sort (rec_keys files);
          (affected, overlapping) = fold (overlapStep files) (pairs_of ids) ([], [])
      in \<lparr>cf_affected_item_ids = sort affected, cf_overlapping_paths = sort overlapping\<rparr>)"

definition buildReplanRequest :: "ChangedFileOverlapResult \<Rightarrow> timestamp \<Rightarrow> LoopReplanRequest option" where
  "buildReplanRequest result time =
     (if cf_affected_item_ids result = [] then None
      else Some \<lparr>rp_time = time, rp_affected_item_ids = cf_affected_item_ids result,
        rp_overlapping_paths = cf_overlapping_paths result,
        rp_reason = ''observed changed-file overlap not predicted by declared ownership: ''
          @ js_join '', '' (cf_overlapping_paths result)\<rparr>)"


section \<open>The searches compute the transitive closure\<close>

abbreviation E :: "LoopContractItem list \<Rightarrow> (string \<times> string) set" where
  "E items \<equiv> edges (contractDeps items)"

text \<open>Expanded nodes are those visited (or the start) and no longer on the stack.\<close>

definition searchInv :: "LoopContractItem list \<Rightarrow> string \<Rightarrow> string \<Rightarrow> string list \<Rightarrow> string list \<Rightarrow> bool" where
  "searchInv items from to visited stack \<longleftrightarrow>
     set stack \<union> set visited \<subseteq> (E items)\<^sup>* `` {from}
     \<and> set stack \<subseteq> insert from (set visited) \<and> (from \<in> set stack \<or> set (contractDeps items from) \<subseteq> set visited \<and> to \<notin> set (contractDeps items from))
     \<and> (\<forall>x\<in>set visited - set stack. set (contractDeps items x) \<subseteq> set visited \<and> to \<notin> set (contractDeps items x))"

lemma scanDeps_None: "scanDeps to ds visited stack = None \<longleftrightarrow> to \<in> set ds"
  by (induction to ds visited stack rule: scanDeps.induct) auto

lemma depSearch_iff:
  "searchInv items from to visited stack \<Longrightarrow> depSearch items to visited stack \<longleftrightarrow> (from, to) \<in> (E items)\<^sup>+"
proof (induction items to visited stack rule: depSearch.induct)
  case (1 items to visited stack)
  show ?case
  proof (cases stack)
    case Nil
    let ?R = "insert from (set visited)"
    have closed: "b \<in> set visited \<and> b \<noteq> to" if "a \<in> ?R" "(a, b) \<in> E items" for a b
      using 1(2) that Nil by (auto simp: searchInv_def edges_def)
    have "b \<in> set visited \<and> b \<noteq> to" if "(from, b) \<in> (E items)\<^sup>+" for b
      using that by induction (use closed in auto)
    with Nil show ?thesis by (auto simp: depSearch.simps)
  next
    case (Cons current rest)
    have reach: "(from, current) \<in> (E items)\<^sup>*" using 1(2) Cons by (auto simp: searchInv_def)
    show ?thesis
    proof (cases "scanDeps to (contractDeps items current) visited rest")
      case None
      then have "(current, to) \<in> E items" by (simp add: scanDeps_None edges_def)
      with reach have "(from, to) \<in> (E items)\<^sup>+" by (rule rtrancl_into_trancl1)
      with None Cons show ?thesis by (simp add: depSearch.simps)
    next
      case (Some vs)
      obtain v s where vs: "vs = (v, s)" by (cases vs)
      obtain new where new: "v = new @ visited" "s = new @ rest" "set new \<subseteq> set (contractDeps items current)"
        "set (contractDeps items current) \<subseteq> set v" "to \<notin> set (contractDeps items current)"
        using scanDeps_Some [of to "contractDeps items current" visited rest v s] Some vs by auto
      have "set new \<subseteq> (E items)\<^sup>* `` {from}"
        using new(3) reach by (auto simp: edges_def intro: rtrancl_into_rtrancl)
      then have "searchInv items from to v s"
        using 1(2) new unfolding searchInv_def Cons by auto
      with 1(1) [OF Cons Some] vs show ?thesis by (simp add: depSearch.simps [of items to visited "current # rest"] Cons Some)
    qed
  qed
qed

lemma dependsTransitively_iff: "dependsTransitively items from to \<longleftrightarrow> (from, to) \<in> (E items)\<^sup>+"
  unfolding dependsTransitively_def by (rule depSearch_iff) (auto simp: searchInv_def)

text \<open>The breadth-first walk lists every reachable node once.\<close>

lemma blockedWalk_facts:
  "distinct (blockedWalk items queue visited) \<and> set (blockedWalk items queue visited) \<inter> set visited = {}
   \<and> set (blockedWalk items queue visited) \<subseteq> (E items)\<^sup>* `` set queue
   \<and> set queue \<subseteq> set (blockedWalk items queue visited) \<union> set visited
   \<and> (\<forall>x\<in>set (blockedWalk items queue visited).
        set (contractDeps items x) \<subseteq> set (blockedWalk items queue visited) \<union> set visited)"
proof (induction items queue visited rule: blockedWalk.induct)
  case (1 items queue visited)
  show ?case
  proof (cases queue)
    case Nil
    then show ?thesis by (simp add: blockedWalk.simps)
  next
    case (Cons dep rest)
    show ?thesis
    proof (cases "dep \<in> set visited")
      case True
      with Cons have "blockedWalk items queue visited = blockedWalk items rest visited"
        by (simp add: blockedWalk.simps [of items "dep # rest" visited])
      with 1(1) [OF Cons True] Cons True show ?thesis by auto
    next
      case False
      let ?w = "blockedWalk items (rest @ contractDeps items dep) (dep # visited)"
      have eq: "blockedWalk items queue visited = dep # ?w"
        using Cons False by (simp add: blockedWalk.simps [of items "dep # rest" visited])
      note ih = 1(2) [OF Cons False]
      have step: "set (contractDeps items dep) \<subseteq> (E items)\<^sup>* `` {dep}" by (auto simp: edges_def)
      have "(E items)\<^sup>* `` set (rest @ contractDeps items dep) \<subseteq> (E items)\<^sup>* `` set queue"
      proof
        fix y assume "y \<in> (E items)\<^sup>* `` set (rest @ contractDeps items dep)"
        then obtain x where x: "x \<in> set rest \<or> x \<in> set (contractDeps items dep)" "(x, y) \<in> (E items)\<^sup>*" by auto
        then show "y \<in> (E items)\<^sup>* `` set queue"
          using step Cons by (auto intro: rtrancl_trans)
      qed
      with ih Cons False show ?thesis unfolding eq by auto
    qed
  qed
qed

lemma blockedWalk_set:
  assumes "ci_depends_on item = contractDeps items (ci_id item)"
  shows "set (blockedWalk items (ci_depends_on item) []) = (E items)\<^sup>+ `` {ci_id item}"
proof -
  let ?w = "blockedWalk items (ci_depends_on item) []"
  note f = blockedWalk_facts [of items "ci_depends_on item" "[]"]
  have deps: "(ci_id item, d) \<in> E items \<longleftrightarrow> d \<in> set (ci_depends_on item)" for d
    using assms by (simp add: edges_def)
  have "y \<in> (E items)\<^sup>+ `` {ci_id item}" if y: "y \<in> set ?w" for y
  proof -
    obtain x where x: "x \<in> set (ci_depends_on item)" "(x, y) \<in> (E items)\<^sup>*" using f y by blast
    then show ?thesis using deps [of x] by (auto intro: rtrancl_into_trancl2)
  qed
  moreover have "y \<in> set ?w" if "(ci_id item, y) \<in> (E items)\<^sup>+" for y
    using that
  proof induction
    case (base y)
    then show ?case using f deps by auto
  next
    case (step y z)
    then show ?case using f by (auto simp: edges_def)
  qed
  ultimately show ?thesis by blast
qed

section \<open>Greedy admission\<close>

text \<open>
  The contract of the walk: a candidate that is not denied is compatible with every admitted item
  and there is room for it.
\<close>

locale admission =
  fixes deny :: "'a list \<Rightarrow> 'a \<Rightarrow> 'r option"
    and admit :: "'a \<Rightarrow> 'r"
    and compatible :: "'a \<Rightarrow> 'a \<Rightarrow> bool"
    and allowed :: "'a \<Rightarrow> bool"
    and budget :: nat
  assumes deny_compatible: "deny selected c = None \<Longrightarrow> a \<in> set selected \<Longrightarrow> compatible c a"
    and deny_allowed: "deny selected c = None \<Longrightarrow> allowed c"
    and deny_budget: "deny selected c = None \<Longrightarrow> length selected < budget"
begin

definition ok :: "'a list \<Rightarrow> bool" where
  "ok xs \<longleftrightarrow> (\<forall>x\<in>set xs. allowed x) \<and> length xs \<le> budget \<and> (\<forall>(x, y)\<in>set (pairs_of xs). compatible y x)"

lemma ok_snoc: "ok xs \<Longrightarrow> deny xs c = None \<Longrightarrow> ok (xs @ [c])"
  using deny_compatible deny_allowed deny_budget by (fastforce simp: ok_def pairs_of_snoc)

lemma greedy_ok: "ok selected \<Longrightarrow> greedy deny admit selected cs = (sel, rs) \<Longrightarrow> ok sel"
  by (induction cs arbitrary: selected sel rs) (auto split: option.splits prod.splits intro: ok_snoc)

lemma greedy_selected:
  "greedy deny admit selected cs = (sel, rs) \<Longrightarrow>
     \<exists>new. sel = selected @ new \<and> set new \<subseteq> set cs \<and> (distinct cs \<longrightarrow> distinct new) \<and> length rs = length cs"
proof (induction cs arbitrary: selected sel rs)
  case (Cons c cs)
  show ?case
  proof (cases "deny selected c")
    case None
    then obtain rs' where g: "greedy deny admit (selected @ [c]) cs = (sel, rs')" "rs = admit c # rs'"
      using Cons.prems by (auto split: prod.splits)
    from Cons.IH [OF g(1)] obtain new where "sel = (selected @ [c]) @ new" "set new \<subseteq> set cs"
      "distinct cs \<longrightarrow> distinct new" "length rs' = length cs" by blast
    then show ?thesis using g(2) by (intro exI [of _ "c # new"]) auto
  next
    case (Some r)
    then obtain rs' where g: "greedy deny admit selected cs = (sel, rs')" "rs = r # rs'"
      using Cons.prems by (auto split: prod.splits)
    from Cons.IH [OF g(1)] g(2) show ?thesis by auto
  qed
qed simp

end

lemma firstConflict_None:
  "firstConflict items c sel = None \<longleftrightarrow>
     (\<forall>a\<in>set sel. evaluateConflict (evalInputsById items c) (evalInputsById items a) = Disjoint)"
  by (induction sel) (auto split: OwnershipConflictVerdict.splits)

definition independent :: "LoopContractItem list \<Rightarrow> string \<Rightarrow> string \<Rightarrow> bool" where
  "independent items a b \<longleftrightarrow> \<not> hasDependencyPath items a b
     \<and> evaluateConflict (evalInputsById items a) (evalInputsById items b) = Disjoint"

lemma denial_None:
  "denial contract ledger sel c = None \<longleftrightarrow>
     (\<forall>a\<in>set sel. independent (lc_items contract) c a) \<and> c \<notin> set (unresolvedDriftIds ledger)
     \<and> length sel < concurrencyBudget contract"
proof -
  have "denial contract ledger sel c = None \<longleftrightarrow>
      find (hasDependencyPath (lc_items contract) c) sel = None \<and> firstConflict (lc_items contract) c sel = None
      \<and> c \<notin> set (unresolvedDriftIds ledger) \<and> length sel < concurrencyBudget contract"
    by (cases "find (hasDependencyPath (lc_items contract) c) sel"; cases "firstConflict (lc_items contract) c sel")
      (simp_all add: denial_def not_le)
  then show ?thesis by (auto simp: firstConflict_None find_None_iff independent_def)
qed

interpretation sched: admission "denial contract ledger" admitted "independent (lc_items contract)"
  "\<lambda>i. i \<notin> set (unresolvedDriftIds ledger)" "concurrencyBudget contract" for contract ledger
  by unfold_locales (simp_all add: denial_None)

text \<open>Every candidate gets one rationale, in order; it is \<open>admitted\<close> exactly when it is selected.\<close>

lemma greedy_rationale:
  assumes "\<And>sel c r. deny sel c = Some r \<Longrightarrow> key r = c \<and> \<not> adm r" "\<And>c. key (admit c) = c \<and> adm (admit c)"
    and "greedy deny admit selected cs = (sel, rs)"
  shows "map key rs = cs \<and> sel = selected @ map key (filter adm rs)"
  using assms(3)
proof (induction cs arbitrary: selected sel rs)
  case (Cons c cs)
  show ?case
  proof (cases "deny selected c")
    case None
    then obtain rs' where g: "greedy deny admit (selected @ [c]) cs = (sel, rs')" "rs = admit c # rs'"
      using Cons.prems by (auto split: prod.splits)
    with Cons.IH [OF g(1)] assms(2) show ?thesis by simp
  next
    case (Some r)
    then obtain rs' where g: "greedy deny admit selected cs = (sel, rs')" "rs = r # rs'"
      using Cons.prems by (auto split: prod.splits)
    with Cons.IH [OF g(1)] assms(1) [OF Some] show ?thesis by simp
  qed
qed simp

lemma firstConflict_key:
  "firstConflict items c sel = Some r \<Longrightarrow> sr_item_id r = c \<and> sr_disposition r \<noteq> Admitted"
  by (induction sel) (auto simp: conflictRationale_def plainRationale_def
      split: OwnershipConflictVerdict.splits OwnershipConflictReason.splits)

lemma denial_key: "denial contract ledger sel c = Some r \<Longrightarrow> sr_item_id r = c \<and> sr_disposition r \<noteq> Admitted"
  by (auto simp: denial_def plainRationale_def dest: firstConflict_key split: option.splits if_splits)

lemma selectE:
  assumes "selectSchedulableSet sha contract ledger st = Inr d"
  obtains frontier where "eligibleIndependentItems sha contract ledger st = Inr frontier"
    "frontier = [] \<or> ll_merge_barrier ledger \<noteq> None \<Longrightarrow> sd_selected d = []"
    "frontier \<noteq> [] \<Longrightarrow> ll_merge_barrier ledger = None \<Longrightarrow> \<exists>rs. greedy (denial contract ledger) admitted [] frontier
       = (sd_selected d, rs) \<and> sd_rationale d = rs @ dependencyBlockedRationale contract ledger"
proof -
  obtain frontier where f: "eligibleIndependentItems sha contract ledger st = Inr frontier"
    using assms by (auto simp: selectSchedulableSet_def split: sum.splits)
  show thesis
    by (rule that [OF f]) (use assms f in \<open>auto simp: selectSchedulableSet_def Let_def split: if_splits prod.splits\<close>)
qed

lemma select_total:
  "eligibleIndependentItems sha contract ledger st = Inr f \<Longrightarrow> \<exists>d. selectSchedulableSet sha contract ledger st = Inr d"
  by (cases "greedy (denial contract ledger) admitted [] f") (simp add: selectSchedulableSet_def Let_def)

lemma greedy_prefix: "\<exists>new. fst (greedy deny admit sel cs) = sel @ new"
proof (induction cs arbitrary: sel)
  case (Cons c cs)
  show ?case
    using Cons [of sel] Cons [of "sel @ [c]"]
    by (cases "deny sel c"; cases "greedy deny admit sel cs"; cases "greedy deny admit (sel @ [c]) cs") auto
qed simp

lemma mem_dependencyBlocked:
  "plainRationale i DependencyPath (Some dep) None \<in> set (dependencyBlockedRationale contract ledger) \<longleftrightarrow>
     (\<exists>j\<in>set (lc_items contract). ci_id j = i \<and> itemState ledger i = Some Pending \<and> \<not> isDone ledger dep
        \<and> dep \<in> set (blockedWalk (lc_items contract) (ci_depends_on j) []))"
proof -
  have inj: "plainRationale a DependencyPath (Some x) None = plainRationale b DependencyPath (Some y) None
      \<longleftrightarrow> a = b \<and> x = y" for a b x y
    by (simp add: plainRationale_def)
  show ?thesis by (auto simp: dependencyBlockedRationale_def inj)
qed

lemma concurrencyBudget_pos: "1 \<le> concurrencyBudget contract"
  by (auto simp: concurrencyBudget_def le_nat_iff le_floor_iff split: jsnum.splits)

lemma independent_sym: "independent items a b = independent items b a"
proof -
  have "evaluateConflict x y = Disjoint \<longleftrightarrow> evaluateConflict y x = Disjoint" for x y
    by (auto simp: evaluateConflict_Disjoint pairAllowed_sym [of x y])
  then show ?thesis by (auto simp: independent_def hasDependencyPath_def)
qed

section \<open>Properties\<close>

text \<open>The stack search of the scheduler terminates and answers true exactly when a chain of declared
  dependencies leads from one item to the other.\<close>

lemma depends_transitively_correct:
  "dependsTransitively items from to \<longleftrightarrow> (from, to) \<in> (edges (contractDeps items))\<^sup>+"
  by (rule dependsTransitively_iff)

text \<open>C14: the selected set is safe: it consists of distinct eligible items without unresolved drift, is
  within the concurrency budget, is empty behind a merge barrier, and any two of its items have no
  dependency path between them in either direction and disjoint declared ownership.\<close>

theorem schedule_safe:
  assumes "selectSchedulableSet sha256 contract ledger externalStatuses = Inr d"
    and "distinct (map ci_id (lc_items contract))"
  shows "(\<exists>frontier. eligibleIndependentItems sha256 contract ledger externalStatuses = Inr frontier
           \<and> set (sd_selected d) \<subseteq> set frontier)
    \<and> distinct (sd_selected d) \<and> length (sd_selected d) \<le> concurrencyBudget contract
    \<and> (ll_merge_barrier ledger \<noteq> None \<longrightarrow> sd_selected d = [])
    \<and> (\<forall>i\<in>set (sd_selected d). i \<notin> set (unresolvedDriftIds ledger))
    \<and> (\<forall>a\<in>set (sd_selected d). \<forall>b\<in>set (sd_selected d). a \<noteq> b \<longrightarrow>
         (a, b) \<notin> (edges (contractDeps (lc_items contract)))\<^sup>+
         \<and> evaluateConflict (evalInputsById (lc_items contract) a) (evalInputsById (lc_items contract) b) = Disjoint)"
proof -
  obtain frontier where f: "eligibleIndependentItems sha256 contract ledger externalStatuses = Inr frontier"
    and none: "frontier = [] \<or> ll_merge_barrier ledger \<noteq> None \<Longrightarrow> sd_selected d = []"
    and some: "frontier \<noteq> [] \<Longrightarrow> ll_merge_barrier ledger = None \<Longrightarrow> \<exists>rs. greedy (denial contract ledger) admitted [] frontier
       = (sd_selected d, rs) \<and> sd_rationale d = rs @ dependencyBlockedRationale contract ledger"
    using selectE [OF assms(1)] by blast
  show ?thesis
  proof (cases "frontier = [] \<or> ll_merge_barrier ledger \<noteq> None")
    case True
    with f none show ?thesis by simp
  next
    case False
    then obtain rs where g: "greedy (denial contract ledger) admitted [] frontier = (sd_selected d, rs)"
      using some by blast
    obtain c' where up: "upgradeContractForRecovery contract = Inr c'"
      using f by (cases "upgradeContractForRecovery contract") (auto simp: eligibleIndependentItems_def)
    have "distinct frontier"
      using f assms(2) unfolding eligible_eq [OF up] by (auto intro: distinct_map_filter)
    then have sel: "set (sd_selected d) \<subseteq> set frontier" "distinct (sd_selected d)"
      using sched.greedy_selected [OF g] by auto
    have "sched.ok contract ledger []" by (simp add: sched.ok_def)
    from sched.greedy_ok [OF this g] have ok: "sched.ok contract ledger (sd_selected d)" .
    have "independent (lc_items contract) a b" if "a \<in> set (sd_selected d)" "b \<in> set (sd_selected d)" "a \<noteq> b" for a b
      using ok pairs_of_total [OF that] independent_sym by (auto simp: sched.ok_def)
    with f False sel ok show ?thesis
      by (auto simp: sched.ok_def independent_def hasDependencyPath_def dependsTransitively_iff)
  qed
qed

theorem schedule_safe_witness:
  "\<exists>d. selectSchedulableSet id (mkContract [mkItem ''1'' [] [], mkItem ''2'' [] []])
        (mkLedger [mkEntry ''1'' Pending, mkEntry ''2'' Pending]) [] = Inr d
     \<and> sd_selected d = [''1''] \<and> distinct (sd_selected d)"
proof -
  let ?c = "mkContract [mkItem ''1'' [] [], mkItem ''2'' [] []]"
  let ?l = "mkLedger [mkEntry ''1'' Pending, mkEntry ''2'' Pending]"
  have b: "map ci_id (filter (eligibleItem ?c ?l []) (lc_items ?c)) = [''1'', ''2'']" "ll_stop ?l = None"
    "\<not> anyInProgress ?l" "ll_merge_barrier ?l = None" "distinct (map ci_id (lc_items ?c))"
    "fst (greedy (denial ?c ?l) admitted [] [''1'', ''2'']) = [''1'']"
    by code_simp+
  have "eligibleIndependentItems id ?c ?l [] = Inr [''1'', ''2'']"
    unfolding eligible_eq [OF upgrade_mkContract] using b by simp
  then obtain d where d: "selectSchedulableSet id ?c ?l [] = Inr d" "sd_selected d = [''1'']"
    using b(4,6) by (cases "greedy (denial ?c ?l) admitted [] [''1'', ''2'']")
      (auto simp: selectSchedulableSet_def Let_def)
  from schedule_safe [OF d(1) b(5)] d show ?thesis by blast
qed

text \<open>The decision explains itself: its rationale starts with exactly one entry per frontier item, in
  frontier order, marked admitted exactly for the selected items, followed by one entry for each
  dependency that is not done of each pending item, taken over the transitive closure of the declared
  dependencies.\<close>

lemma schedule_rationale_complete:
  assumes "selectSchedulableSet sha256 contract ledger externalStatuses = Inr d"
    and "eligibleIndependentItems sha256 contract ledger externalStatuses = Inr frontier"
    and "ll_merge_barrier ledger = None" "distinct (map ci_id (lc_items contract))"
  shows "map sr_item_id (take (length frontier) (sd_rationale d)) = frontier
    \<and> sd_selected d = map sr_item_id (filter (\<lambda>r. sr_disposition r = Admitted) (take (length frontier) (sd_rationale d)))
    \<and> drop (length frontier) (sd_rationale d) = dependencyBlockedRationale contract ledger
    \<and> (\<forall>i\<in>set (lc_items contract). \<forall>dep.
         plainRationale (ci_id i) DependencyPath (Some dep) None \<in> set (dependencyBlockedRationale contract ledger)
         \<longleftrightarrow> itemState ledger (ci_id i) = Some Pending \<and> \<not> isDone ledger dep
            \<and> (ci_id i, dep) \<in> (edges (contractDeps (lc_items contract)))\<^sup>+)"
proof -
  have dep: "plainRationale (ci_id i) DependencyPath (Some dep) None \<in> set (dependencyBlockedRationale contract ledger)
      \<longleftrightarrow> itemState ledger (ci_id i) = Some Pending \<and> \<not> isDone ledger dep
            \<and> (ci_id i, dep) \<in> (edges (contractDeps (lc_items contract)))\<^sup>+"
    if i: "i \<in> set (lc_items contract)" for i dep
  proof -
    have same: "j = i" if "j \<in> set (lc_items contract)" "ci_id j = ci_id i" for j
      using that i assms(4) by (metis inj_onD distinct_map)
    have "set (blockedWalk (lc_items contract) (ci_depends_on i) []) = (E (lc_items contract))\<^sup>+ `` {ci_id i}"
      by (rule blockedWalk_set) (simp add: contractDeps_distinct [OF assms(4) i])
    then show ?thesis
      unfolding mem_dependencyBlocked using i same by blast
  qed
  have eq: "\<exists>rs. greedy (denial contract ledger) admitted [] frontier = (sd_selected d, rs)
      \<and> sd_rationale d = rs @ dependencyBlockedRationale contract ledger"
    using assms(1-3) by (cases "frontier = []") (auto simp: selectSchedulableSet_def Let_def split: prod.splits)
  then obtain rs where g: "greedy (denial contract ledger) admitted [] frontier = (sd_selected d, rs)"
    "sd_rationale d = rs @ dependencyBlockedRationale contract ledger" by blast
  have r: "map sr_item_id rs = frontier \<and> sd_selected d = [] @ map sr_item_id (filter (\<lambda>r. sr_disposition r = Admitted) rs)"
    by (rule greedy_rationale [OF _ _ g(1)]) (auto simp: admitted_def plainRationale_def dest: denial_key)
  then have "length rs = length frontier" by (metis length_map)
  with r g(2) dep show ?thesis by simp
qed

text \<open>C40: scheduling makes progress: without a merge barrier, if some eligible item has no unresolved
  drift then at least one item is selected.\<close>

theorem schedule_progress:
  assumes "selectSchedulableSet sha256 contract ledger externalStatuses = Inr d"
    and "eligibleIndependentItems sha256 contract ledger externalStatuses = Inr frontier"
    and "ll_merge_barrier ledger = None" "i \<in> set frontier" "i \<notin> set (unresolvedDriftIds ledger)"
  shows "sd_selected d \<noteq> []"
proof -
  have free: "denial contract ledger [] i = None"
    using assms(5) concurrencyBudget_pos [of contract] by (simp add: denial_None)
  have "fst (greedy (denial contract ledger) admitted [] cs) \<noteq> []" if "i \<in> set cs" for cs
    using that
  proof (induction cs)
    case (Cons c cs)
    show ?case
    proof (cases "denial contract ledger [] c")
      case None
      then show ?thesis using greedy_prefix [of "denial contract ledger" admitted "[c]" cs]
        by (auto split: prod.splits)
    next
      case (Some r)
      then have "c \<noteq> i" using free by auto
      with Cons Some show ?thesis by (auto split: prod.splits)
    qed
  qed simp
  with assms(4) have "fst (greedy (denial contract ledger) admitted [] frontier) \<noteq> []" by blast
  with assms(1-4) show ?thesis by (auto simp: selectSchedulableSet_def Let_def split: if_splits prod.splits)
qed

theorem schedule_progress_witness:
  "\<exists>d. selectSchedulableSet id (mkContract [mkItem ''1'' [] []]) (mkLedger [mkEntry ''1'' Pending]) [] = Inr d
     \<and> sd_selected d \<noteq> []"
proof -
  let ?c = "mkContract [mkItem ''1'' [] []]" and ?l = "mkLedger [mkEntry ''1'' Pending]"
  have b: "map ci_id (filter (eligibleItem ?c ?l []) (lc_items ?c)) = [''1'']" "ll_stop ?l = None"
    "\<not> anyInProgress ?l" "ll_merge_barrier ?l = None" "unresolvedDriftIds ?l = []"
    by code_simp+
  have e: "eligibleIndependentItems id ?c ?l [] = Inr [''1'']"
    unfolding eligible_eq [OF upgrade_mkContract] using b by simp
  then obtain d where d: "selectSchedulableSet id ?c ?l [] = Inr d"
    using select_total by blast
  have "sd_selected d \<noteq> []"
    by (rule schedule_progress [OF d e b(4), of "''1''"]) (simp_all add: b(5))
  with d show ?thesis by blast
qed

text \<open>The overlap scan over one pair, and over all pairs.\<close>

abbreviation filesOf :: "string list js_record \<Rightarrow> string \<Rightarrow> string list" where
  "filesOf files i \<equiv> orElse (rec_get files i) []"

lemma overlapStep_sets:
  "set (fst (overlapStep files (a, b) acc)) = set (fst acc)
     \<union> (if set (filesOf files a) \<inter> set (filesOf files b) = {} then {} else {a, b})
   \<and> set (snd (overlapStep files (a, b) acc)) = set (snd acc) \<union> set (filesOf files a) \<inter> set (filesOf files b)
   \<and> (distinct (fst acc) \<longrightarrow> distinct (fst (overlapStep files (a, b) acc)))
   \<and> (distinct (snd acc) \<longrightarrow> distinct (snd (overlapStep files (a, b) acc)))"
proof -
  let ?f = "\<lambda>fb path (affected, overlapping).
       if path \<in> set fb then (set_add b (set_add a affected), set_add path overlapping)
       else (affected, overlapping)"
  have "set (fst (fold (?f fb) fa acc)) = set (fst acc) \<union> (if set fa \<inter> set fb = {} then {} else {a, b})
     \<and> set (snd (fold (?f fb) fa acc)) = set (snd acc) \<union> set fa \<inter> set fb
     \<and> (distinct (fst acc) \<longrightarrow> distinct (fst (fold (?f fb) fa acc)))
     \<and> (distinct (snd acc) \<longrightarrow> distinct (snd (fold (?f fb) fa acc)))" for fa fb acc
  proof (induction fa arbitrary: acc)
    case (Cons p fa)
    then show ?case by (cases acc) auto
  qed simp
  from this [of "filesOf files b" "filesOf files a" acc] show ?thesis
    unfolding overlapStep.simps Let_def .
qed

lemma overlapFold_sets:
  "set (fst (fold (overlapStep files) ps acc)) = set (fst acc)
     \<union> (\<Union>(a, b)\<in>set ps. if set (filesOf files a) \<inter> set (filesOf files b) = {} then {} else {a, b})
   \<and> set (snd (fold (overlapStep files) ps acc)) = set (snd acc)
     \<union> (\<Union>(a, b)\<in>set ps. set (filesOf files a) \<inter> set (filesOf files b))
   \<and> (distinct (fst acc) \<longrightarrow> distinct (fst (fold (overlapStep files) ps acc)))
   \<and> (distinct (snd acc) \<longrightarrow> distinct (snd (fold (overlapStep files) ps acc)))"
proof (induction ps arbitrary: acc)
  case (Cons p ps)
  obtain a b where p: "p = (a, b)" by (cases p)
  show ?case using Cons [of "overlapStep files (a, b) acc"] overlapStep_sets [of files a b acc]
    unfolding p by auto
qed simp

text \<open>The changed-file safety net is exact: an item is reported exactly when some other item changed
  one of its files, a path is reported exactly when two items changed it, both lists are sorted
  without repetition, and a replan request is built exactly when there is an overlap.\<close>

lemma changed_file_overlap_exact:
  assumes "rec_wf files"
  shows "(i \<in> set (cf_affected_item_ids (detectChangedFileOverlap files)) \<longleftrightarrow>
          (\<exists>j fi fj. j \<noteq> i \<and> rec_get files i = Some fi \<and> rec_get files j = Some fj \<and> set fi \<inter> set fj \<noteq> {}))
    \<and> (p \<in> set (cf_overlapping_paths (detectChangedFileOverlap files)) \<longleftrightarrow>
          (\<exists>a b fa fb. a \<noteq> b \<and> rec_get files a = Some fa \<and> rec_get files b = Some fb \<and> p \<in> set fa \<and> p \<in> set fb))
    \<and> sorted (cf_affected_item_ids (detectChangedFileOverlap files))
    \<and> distinct (cf_affected_item_ids (detectChangedFileOverlap files))
    \<and> sorted (cf_overlapping_paths (detectChangedFileOverlap files))
    \<and> distinct (cf_overlapping_paths (detectChangedFileOverlap files))
    \<and> (buildReplanRequest (detectChangedFileOverlap files) t = None \<longleftrightarrow>
         cf_overlapping_paths (detectChangedFileOverlap files) = [])"
proof -
  let ?ids = "sort (rec_keys files)"
  let ?r = "fold (overlapStep files) (pairs_of ?ids) ([], [])"
  have r: "cf_affected_item_ids (detectChangedFileOverlap files) = sort (fst ?r)"
    "cf_overlapping_paths (detectChangedFileOverlap files) = sort (snd ?r)"
    by (simp_all add: detectChangedFileOverlap_def Let_def split: prod.splits)
  note s = overlapFold_sets [of files "pairs_of ?ids" "([], [])"]
  have s1: "set (fst ?r) = (\<Union>(a, b)\<in>set (pairs_of ?ids). if set (filesOf files a) \<inter> set (filesOf files b) = {} then {} else {a, b})"
    and s2: "set (snd ?r) = (\<Union>(a, b)\<in>set (pairs_of ?ids). set (filesOf files a) \<inter> set (filesOf files b))"
    using s by simp_all
  have d: "distinct ?ids" using assms by (simp add: rec_wf_def)
  have neq: "a \<noteq> b" if "(a, b) \<in> set (pairs_of ?ids)" for a b
    using that d by (auto simp: set_pairs_of nth_eq_iff_index_eq)
  have key: "k \<in> set ?ids" if "filesOf files k \<noteq> []" for k
    using that rec_get_in_keys by (cases "rec_get files k") auto
  have pair: "(a, b) \<in> set (pairs_of ?ids) \<or> (b, a) \<in> set (pairs_of ?ids)"
    if "a \<noteq> b" "filesOf files a \<noteq> []" "filesOf files b \<noteq> []" for a b
    using pairs_of_total [OF key [OF that(2)] key [OF that(3)] that(1)] .
  have some: "\<exists>f. rec_get files k = Some f \<and> filesOf files k = f" if "filesOf files k \<noteq> []" for k
    using that by (cases "rec_get files k") auto
  have aff: "x \<in> set (fst ?r) \<longleftrightarrow> (\<exists>y. y \<noteq> x \<and> set (filesOf files x) \<inter> set (filesOf files y) \<noteq> {})" for x
  proof
    assume "x \<in> set (fst ?r)"
    then obtain a b where ab: "(a, b) \<in> set (pairs_of ?ids)" "set (filesOf files a) \<inter> set (filesOf files b) \<noteq> {}" "x = a \<or> x = b"
      unfolding s1 by (auto split: if_splits)
    from neq [OF ab(1)] ab(2,3) show "\<exists>y. y \<noteq> x \<and> set (filesOf files x) \<inter> set (filesOf files y) \<noteq> {}"
      by (metis inf_commute)
  next
    assume "\<exists>y. y \<noteq> x \<and> set (filesOf files x) \<inter> set (filesOf files y) \<noteq> {}"
    then obtain y where y: "y \<noteq> x" "set (filesOf files x) \<inter> set (filesOf files y) \<noteq> {}" by blast
    then have "(x, y) \<in> set (pairs_of ?ids) \<or> (y, x) \<in> set (pairs_of ?ids)" by (intro pair) auto
    then show "x \<in> set (fst ?r)"
    proof
      assume "(x, y) \<in> set (pairs_of ?ids)"
      with y(2) show ?thesis unfolding s1 by (intro UN_I [of "(x, y)"]) auto
    next
      assume "(y, x) \<in> set (pairs_of ?ids)"
      with y(2) show ?thesis unfolding s1 by (intro UN_I [of "(y, x)"]) auto
    qed
  qed
  have path: "q \<in> set (snd ?r) \<longleftrightarrow> (\<exists>a b. a \<noteq> b \<and> q \<in> set (filesOf files a) \<and> q \<in> set (filesOf files b))" for q
  proof
    assume "\<exists>a b. a \<noteq> b \<and> q \<in> set (filesOf files a) \<and> q \<in> set (filesOf files b)"
    then obtain a b where q: "a \<noteq> b" "q \<in> set (filesOf files a)" "q \<in> set (filesOf files b)" by blast
    then have "(a, b) \<in> set (pairs_of ?ids) \<or> (b, a) \<in> set (pairs_of ?ids)" by (intro pair) auto
    then show "q \<in> set (snd ?r)"
    proof
      assume "(a, b) \<in> set (pairs_of ?ids)"
      with q show ?thesis unfolding s2 by (intro UN_I [of "(a, b)"]) auto
    next
      assume "(b, a) \<in> set (pairs_of ?ids)"
      with q show ?thesis unfolding s2 by (intro UN_I [of "(b, a)"]) auto
    qed
  next
    assume "q \<in> set (snd ?r)"
    then show "\<exists>a b. a \<noteq> b \<and> q \<in> set (filesOf files a) \<and> q \<in> set (filesOf files b)"
      unfolding s2 by (auto dest: neq)
  qed
  have emp: "fst ?r = [] \<longleftrightarrow> snd ?r = []"
  proof -
    have "fst ?r = [] \<longleftrightarrow> (\<forall>x. x \<notin> set (fst ?r))" "snd ?r = [] \<longleftrightarrow> (\<forall>q. q \<notin> set (snd ?r))"
      by (simp_all only: set_empty2 [symmetric, of "fst ?r"] set_empty2 [symmetric, of "snd ?r"]) auto
    then show ?thesis unfolding aff path by blast
  qed
  have conv: "(\<exists>j fi fj. j \<noteq> i \<and> rec_get files i = Some fi \<and> rec_get files j = Some fj \<and> set fi \<inter> set fj \<noteq> {})
      \<longleftrightarrow> (\<exists>y. y \<noteq> i \<and> set (filesOf files i) \<inter> set (filesOf files y) \<noteq> {})"
  proof
    assume "\<exists>y. y \<noteq> i \<and> set (filesOf files i) \<inter> set (filesOf files y) \<noteq> {}"
    then obtain y where y: "y \<noteq> i" "set (filesOf files i) \<inter> set (filesOf files y) \<noteq> {}" by blast
    then have "filesOf files i \<noteq> []" "filesOf files y \<noteq> []" by auto
    then show "\<exists>j fi fj. j \<noteq> i \<and> rec_get files i = Some fi \<and> rec_get files j = Some fj \<and> set fi \<inter> set fj \<noteq> {}"
      using y some [of i] some [of y] by metis
  qed (metis orElse_simps(2))
  have convp: "(\<exists>a b fa fb. a \<noteq> b \<and> rec_get files a = Some fa \<and> rec_get files b = Some fb \<and> p \<in> set fa \<and> p \<in> set fb)
      \<longleftrightarrow> (\<exists>a b. a \<noteq> b \<and> p \<in> set (filesOf files a) \<and> p \<in> set (filesOf files b))"
  proof
    assume "\<exists>a b. a \<noteq> b \<and> p \<in> set (filesOf files a) \<and> p \<in> set (filesOf files b)"
    then obtain a b where ab: "a \<noteq> b" "p \<in> set (filesOf files a)" "p \<in> set (filesOf files b)" by blast
    then have "filesOf files a \<noteq> []" "filesOf files b \<noteq> []" by auto
    then show "\<exists>a b fa fb. a \<noteq> b \<and> rec_get files a = Some fa \<and> rec_get files b = Some fb \<and> p \<in> set fa \<and> p \<in> set fb"
      using ab some [of a] some [of b] by metis
  qed (metis orElse_simps(2))
  have dist: "distinct (fst ?r)" "distinct (snd ?r)" using s by simp_all
  have ne: "sort xs = [] \<longleftrightarrow> xs = []" for xs :: "string list" by (metis set_empty set_sort)
  show ?thesis
    unfolding r set_sort aff path conv convp buildReplanRequest_def ne emp using dist by simp
qed


end
