(* ===== verification/Dependencies.thy ===== *)
theory Dependencies
  imports Recovery_Select
begin

text \<open>
  Dependency integrity (the rest of \<open>core/scripts/loop/dependencies.ts\<close>): the three-valued status
  of an external dependency, skip propagation and deadlock detection. The live observations of the
  \<open>ReconcileObserveDeps\<close> seam are parameters. The lemmas show that propagation terminates and
  computes the least set of doomed items, and that a run whose pending items cannot start is either
  reported as a dependency deadlock or waits on an item with its own resolution path.
\<close>

section \<open>External dependencies\<close>

datatype IssueState = IssueOpen | IssueClosed

datatype IssueStateReason = Completed | NotPlanned | Reopened

record ObservedIssue =
  is_state :: IssueState
  is_stateReason :: "IssueStateReason option"

definition externalDependencyStatus :: "ObservedIssue option \<Rightarrow> bool \<Rightarrow> ExternalDependencyStatus" where
  "externalDependencyStatus issueState linkedPrMerged =
     (if linkedPrMerged then Satisfied
      else (case issueState of
        None \<Rightarrow> PendingDep
      | Some i \<Rightarrow>
          if is_state i = IssueOpen then PendingDep
          else if is_stateReason i = Some Completed then Satisfied
          else if is_stateReason i = Some NotPlanned then Unsatisfiable
          else PendingDep))"

definition collectExternalDependencyIds :: "LoopContract \<Rightarrow> string list" where
  "collectExternalDependencyIds contract =
     uniq (concat (map (\<lambda>i. orElse (ci_external_depends_on i) []) (lc_items contract)))"

text \<open>\<open>/^[1-9][0-9]*$/\<close>.\<close>

definition canonicalIssueId :: "string \<Rightarrow> bool" where
  "canonicalIssueId s = (case s of [] \<Rightarrow> False | c # cs \<Rightarrow> is_digit c \<and> c \<noteq> CHR ''0'' \<and> list_all is_digit cs)"

definition computeExternalDependencyStatuses ::
  "(nat \<Rightarrow> ObservedIssue option) \<Rightarrow> (nat \<Rightarrow> nat option) \<Rightarrow> (nat \<Rightarrow> PrState option) \<Rightarrow> LoopContract
    \<Rightarrow> ExternalDependencyStatus js_record" where
  "computeExternalDependencyStatuses getIssueState findPrForIssue getPrState contract =
     fold (\<lambda>i statuses. rec_put i
         (if \<not> canonicalIssueId i then PendingDep
          else (let issueNumber = digits_val i 0
                in externalDependencyStatus (getIssueState issueNumber)
                     (Option.bind (findPrForIssue issueNumber) getPrState = Some PrMerged))) statuses)
       (collectExternalDependencyIds contract) []"

definition allExternalDependenciesSatisfied ::
  "LoopContractItem \<Rightarrow> ExternalDependencyStatus js_record \<Rightarrow> bool" where
  "allExternalDependenciesSatisfied item externalStatuses =
     list_all (\<lambda>i. rec_get externalStatuses i = Some Satisfied) (orElse (ci_external_depends_on item) [])"

section \<open>Skip propagation\<close>

definition SKIPPABLE_FROM_STATES :: "LoopItemState set" where
  "SKIPPABLE_FROM_STATES = {Pending, Blocked}"

fun dependencyKindName :: "DependencyKind \<Rightarrow> string" where
  "dependencyKindName InRun = ''in_run''"
| "dependencyKindName ExternalDep = ''external''"

definition stateOf :: "LoopItemLedgerEntry js_record \<Rightarrow> string \<Rightarrow> LoopItemState option" where
  "stateOf items i = map_option le_state (rec_get items i)"

definition deadDep :: "LoopItemLedgerEntry js_record \<Rightarrow> string \<Rightarrow> bool" where
  "deadDep items d \<longleftrightarrow> stateOf items d = Some Abandoned \<or> stateOf items d = Some Skipped"

definition findSkipCause :: "LoopContractItem \<Rightarrow> LoopItemLedgerEntry js_record
    \<Rightarrow> ExternalDependencyStatus js_record \<Rightarrow> (string \<times> DependencyKind) option" where
  "findSkipCause item items externalStatuses =
     (case find (deadDep items) (ci_depends_on item) of
        Some d \<Rightarrow> Some (d, InRun)
      | None \<Rightarrow> map_option (\<lambda>e. (e, ExternalDep))
          (find (\<lambda>e. rec_get externalStatuses e = Some Unsatisfiable) (orElse (ci_external_depends_on item) [])))"

text \<open>The loop state: the items, the skipped ids, the number of clock readings, the changed flag.\<close>

record SkipState =
  ks_items :: "LoopItemLedgerEntry js_record"
  ks_skipped :: "string list"
  ks_ticks :: nat
  ks_changed :: bool

definition skipEntry :: "LoopItemLedgerEntry \<Rightarrow> timestamp \<Rightarrow> LoopEngineName \<Rightarrow> string \<times> DependencyKind \<Rightarrow> LoopItemLedgerEntry" where
  "skipEntry entry time engine cause =
     entry\<lparr>le_state := Skipped,
       le_history := le_history entry @ [\<lparr>he_time = time, he_from = le_state entry, he_to = Skipped,
         he_engine = engine, he_theme = None, he_evidence = None,
         he_note = Some (''skipped: '' @ dependencyKindName (snd cause) @ '' dependency '' @ quoted (fst cause)
           @ '' will never be satisfied'')\<rparr>]\<rparr>"

definition skipItem :: "(nat \<Rightarrow> timestamp) \<Rightarrow> LoopEngineName \<Rightarrow> ExternalDependencyStatus js_record
    \<Rightarrow> LoopContractItem \<Rightarrow> SkipState \<Rightarrow> SkipState" where
  "skipItem now engine externalStatuses item st =
     (case rec_get (ks_items st) (ci_id item) of
        None \<Rightarrow> st
      | Some entry \<Rightarrow>
          if le_state entry \<notin> SKIPPABLE_FROM_STATES then st
          else (case findSkipCause item (ks_items st) externalStatuses of
            None \<Rightarrow> st
          | Some cause \<Rightarrow>
              \<lparr>ks_items = rec_put (ci_id item) (skipEntry entry (now (ks_ticks st)) engine cause) (ks_items st),
               ks_skipped = ks_skipped st @ [ci_id item],
               ks_ticks = Suc (ks_ticks st), ks_changed = True\<rparr>))"

definition skipPass :: "(nat \<Rightarrow> timestamp) \<Rightarrow> LoopEngineName \<Rightarrow> ExternalDependencyStatus js_record
    \<Rightarrow> LoopContractItem list \<Rightarrow> SkipState \<Rightarrow> SkipState" where
  "skipPass now engine externalStatuses items st =
     fold (skipItem now engine externalStatuses) items (st\<lparr>ks_changed := False\<rparr>)"

text \<open>Every skip takes one entry out of the skippable states, which bounds the passes.\<close>

definition skippableCount :: "LoopItemLedgerEntry js_record \<Rightarrow> nat" where
  "skippableCount items = length (filter (\<lambda>e. le_state e \<in> SKIPPABLE_FROM_STATES) (rec_values items))"

function propagateLoop :: "(nat \<Rightarrow> timestamp) \<Rightarrow> LoopEngineName \<Rightarrow> ExternalDependencyStatus js_record
    \<Rightarrow> LoopContractItem list \<Rightarrow> SkipState \<Rightarrow> SkipState" where
  "propagateLoop now engine externalStatuses items st =
     (let st' = skipPass now engine externalStatuses items st
      in if ks_changed st' then propagateLoop now engine externalStatuses items st' else st')"
  by pat_completeness auto

lemma rec_replace_count:
  "rec_get r k = Some e \<Longrightarrow> P e \<Longrightarrow> \<not> P e' \<Longrightarrow>
     length (filter P (rec_values (rec_put k e' r))) < length (filter P (rec_values r))"
proof -
  assume a: "rec_get r k = Some e" "P e" "\<not> P e'"
  have "length (filter P (map snd (rec_replace k e' r))) < length (filter P (map snd r))"
    if "map_of r k = Some e" for r
    using that a(2,3)
  proof (induction k e' r rule: rec_replace.induct)
    case (2 k e' k2 v2 r)
    then show ?case by (cases "k = k2") auto
  qed simp
  then show ?thesis using a(1) rec_get_in_keys [OF a(1)] by (simp add: rec_put_def rec_values_def rec_get_def)
qed

lemma skipItem_count:
  "skippableCount (ks_items (skipItem now eng ext item st)) \<le> skippableCount (ks_items st)
   \<and> (ks_changed (skipItem now eng ext item st) \<and> \<not> ks_changed st \<longrightarrow>
        skippableCount (ks_items (skipItem now eng ext item st)) < skippableCount (ks_items st))"
proof -
  have "skippableCount (rec_put k e' r) < skippableCount r"
    if "rec_get r k = Some e" "le_state e \<in> SKIPPABLE_FROM_STATES" "le_state e' = Skipped" for k e e' r
    unfolding skippableCount_def
    using that by (intro rec_replace_count) (auto simp: SKIPPABLE_FROM_STATES_def)
  then show ?thesis
    by (auto simp: skipItem_def skipEntry_def split: option.splits intro: less_imp_le)
qed

lemma skipFold_count:
  "skippableCount (ks_items (fold (skipItem now eng ext) items st)) \<le> skippableCount (ks_items st)
   \<and> (ks_changed (fold (skipItem now eng ext) items st) \<and> \<not> ks_changed st \<longrightarrow>
        skippableCount (ks_items (fold (skipItem now eng ext) items st)) < skippableCount (ks_items st))"
proof (induction items arbitrary: st)
  case (Cons i items)
  note a = Cons.IH [of "skipItem now eng ext i st"] and b = skipItem_count [of now eng ext i st]
  show ?case
  proof (cases "ks_changed (skipItem now eng ext i st)")
    case True
    with a b show ?thesis by auto
  next
    case False
    with a b show ?thesis by auto
  qed
qed simp

termination propagateLoop
proof (relation "measure (\<lambda>(_, _, _, _, st). skippableCount (ks_items st))", goal_cases)
  case (2 now engine ext items st x)
  then show ?case using skipFold_count [of now engine ext items "st\<lparr>ks_changed := False\<rparr>"]
    by (simp add: skipPass_def)
qed simp

declare propagateLoop.simps [simp del]

definition propagateSkips :: "LoopContract \<Rightarrow> LoopLedger \<Rightarrow> ExternalDependencyStatus js_record
    \<Rightarrow> (nat \<Rightarrow> timestamp) \<Rightarrow> LoopEngineName \<Rightarrow> LoopLedger \<times> string list" where
  "propagateSkips contract ledger externalStatuses now engine =
     (let st = propagateLoop now engine externalStatuses (lc_items contract)
            \<lparr>ks_items = ll_items ledger, ks_skipped = [], ks_ticks = 0, ks_changed = True\<rparr>
      in (ledger\<lparr>ll_items := ks_items st\<rparr>, ks_skipped st))"

section \<open>Deadlock detection\<close>

definition TERMINAL_ITEM_STATES :: "LoopItemState set" where
  "TERMINAL_ITEM_STATES = {Ready, Merged, Released, Deployed, Abandoned, Skipped}"

definition chainEntry :: "string \<Rightarrow> string \<Rightarrow> DependencyKind \<Rightarrow> string \<Rightarrow> LoopDeadlockChainEntry" where
  "chainEntry i d kind observed = \<lparr>dc_item_id = i, dc_waiting_on = d, dc_kind = kind, dc_observed_state = observed\<rparr>"

definition itemChain :: "LoopLedger \<Rightarrow> ExternalDependencyStatus js_record \<Rightarrow> LoopContractItem \<Rightarrow> LoopDeadlockChainEntry list" where
  "itemChain ledger externalStatuses item =
     (case itemState ledger (ci_id item) of
        None \<Rightarrow> []
      | Some s \<Rightarrow>
          if s \<in> TERMINAL_ITEM_STATES then []
          else List.map_filter (\<lambda>d. case itemState ledger d of
                   None \<Rightarrow> Some (chainEntry (ci_id item) d InRun ''missing'')
                 | Some ds \<Rightarrow> if ds = Pending then Some (chainEntry (ci_id item) d InRun (itemStateName ds)) else None)
                 (ci_depends_on item)
               @ List.map_filter (\<lambda>e.
                   (let status = orElse (rec_get externalStatuses e) PendingDep
                    in if status \<noteq> Satisfied then Some (chainEntry (ci_id item) e ExternalDep (externalStatusName status))
                       else None))
                 (orElse (ci_external_depends_on item) []))"

definition detectDependencyDeadlock :: "(string \<Rightarrow> string) \<Rightarrow> LoopContract \<Rightarrow> LoopLedger
    \<Rightarrow> ExternalDependencyStatus js_record \<Rightarrow> LoopDeadlockChainEntry list option result" where
  "detectDependencyDeadlock sha256 contract ledger externalStatuses =
     (if anyInProgress ledger then Inr None
      else (case eligibleIndependentItems sha256 contract ledger externalStatuses of
        Inl e \<Rightarrow> Inl e
      | Inr ids \<Rightarrow>
          if ids \<noteq> [] then Inr None
          else (let chain = concat (map (itemChain ledger externalStatuses) (lc_items contract))
                in Inr (if chain \<noteq> [] then Some chain else None))))"


section \<open>Propagation computes the least set of doomed items\<close>

text \<open>An item is doomed when it can be skipped and some prerequisite will never be satisfied.\<close>

inductive doomed :: "LoopContractItem list \<Rightarrow> LoopItemLedgerEntry js_record \<Rightarrow> ExternalDependencyStatus js_record
    \<Rightarrow> string \<Rightarrow> bool" for citems items st where
  external: "c \<in> set citems \<Longrightarrow> stateOf items (ci_id c) \<in> Some ` SKIPPABLE_FROM_STATES
    \<Longrightarrow> e \<in> set (orElse (ci_external_depends_on c) []) \<Longrightarrow> rec_get st e = Some Unsatisfiable
    \<Longrightarrow> doomed citems items st (ci_id c)"
| dead: "c \<in> set citems \<Longrightarrow> stateOf items (ci_id c) \<in> Some ` SKIPPABLE_FROM_STATES
    \<Longrightarrow> d \<in> set (ci_depends_on c) \<Longrightarrow> deadDep items d \<Longrightarrow> doomed citems items st (ci_id c)"
| chain: "c \<in> set citems \<Longrightarrow> stateOf items (ci_id c) \<in> Some ` SKIPPABLE_FROM_STATES
    \<Longrightarrow> d \<in> set (ci_depends_on c) \<Longrightarrow> doomed citems items st d \<Longrightarrow> doomed citems items st (ci_id c)"

lemma findSkipCause_None:
  "findSkipCause c items st = None \<longleftrightarrow>
     (\<forall>d\<in>set (ci_depends_on c). \<not> deadDep items d)
     \<and> (\<forall>e\<in>set (orElse (ci_external_depends_on c) []). rec_get st e \<noteq> Some Unsatisfiable)"
  by (auto simp: findSkipCause_def find_None_iff find_Some_iff split: option.splits)

definition skipInv :: "LoopContractItem list \<Rightarrow> LoopItemLedgerEntry js_record \<Rightarrow> ExternalDependencyStatus js_record
    \<Rightarrow> SkipState \<Rightarrow> bool" where
  "skipInv citems items st s \<longleftrightarrow> distinct (ks_skipped s)
     \<and> (\<forall>i. i \<notin> set (ks_skipped s) \<longrightarrow> rec_get (ks_items s) i = rec_get items i)
     \<and> (\<forall>i\<in>set (ks_skipped s). doomed citems items st i \<and> stateOf (ks_items s) i = Some Skipped)"

lemma skipItem_cases:
  obtains (same) "skipItem now eng st c s = s"
      "stateOf (ks_items s) (ci_id c) \<in> Some ` SKIPPABLE_FROM_STATES \<Longrightarrow> findSkipCause c (ks_items s) st = None"
  | (skip) entry cause where "rec_get (ks_items s) (ci_id c) = Some entry" "le_state entry \<in> SKIPPABLE_FROM_STATES"
      "findSkipCause c (ks_items s) st = Some cause"
      "skipItem now eng st c s = \<lparr>ks_items = rec_put (ci_id c) (skipEntry entry (now (ks_ticks s)) eng cause) (ks_items s),
         ks_skipped = ks_skipped s @ [ci_id c], ks_ticks = Suc (ks_ticks s), ks_changed = True\<rparr>"
proof (cases "rec_get (ks_items s) (ci_id c)")
  case None
  then show ?thesis by (intro same) (auto simp: skipItem_def stateOf_def)
next
  case (Some entry)
  then show ?thesis
    by (cases "le_state entry \<in> SKIPPABLE_FROM_STATES"; cases "findSkipCause c (ks_items s) st")
      (auto simp: skipItem_def stateOf_def intro: same skip)
qed

lemma skipInv_item:
  assumes inv: "skipInv citems items st s" and c: "c \<in> set citems"
  shows "skipInv citems items st (skipItem now eng st c s)"
proof (cases rule: skipItem_cases [of now eng st c s])
  case same
  with inv show ?thesis by simp
next
  case (skip entry cause)
  have st: "stateOf (ks_items s) (ci_id c) = Some (le_state entry)" using skip(1) by (simp add: stateOf_def)
  have notin: "ci_id c \<notin> set (ks_skipped s)"
    using inv st skip(2) by (auto simp: skipInv_def SKIPPABLE_FROM_STATES_def)
  then have init: "stateOf items (ci_id c) \<in> Some ` SKIPPABLE_FROM_STATES"
    using inv skip(1,2) by (auto simp: skipInv_def stateOf_def)
  have dead: "deadDep items d \<or> doomed citems items st d" if "deadDep (ks_items s) d" for d
    using that inv by (cases "d \<in> set (ks_skipped s)") (auto simp: skipInv_def deadDep_def stateOf_def)
  have "doomed citems items st (ci_id c)"
    using findSkipCause_None [of c "ks_items s" st] skip(3) dead doomed.intros [OF c init] by (metis option.distinct(1))
  with inv notin skip(4) show ?thesis by (auto simp: skipInv_def stateOf_def skipEntry_def)
qed

lemma skipInv_fold:
  "skipInv citems items st s \<Longrightarrow> set cs \<subseteq> set citems \<Longrightarrow> skipInv citems items st (fold (skipItem now eng st) cs s)"
  by (induction cs arbitrary: s) (auto intro: skipInv_item)

lemma skipFold_changed: "ks_changed s \<Longrightarrow> ks_changed (fold (skipItem now eng st) cs s)"
proof (induction cs arbitrary: s)
  case (Cons c cs)
  have "ks_changed (skipItem now eng st c s)"
    using Cons.prems by (cases rule: skipItem_cases [of now eng st c s]) simp_all
  with Cons.IH show ?case by simp
qed simp

lemma skipFold_unchanged:
  "\<not> ks_changed (fold (skipItem now eng st) cs s) \<Longrightarrow>
     fold (skipItem now eng st) cs s = s
     \<and> (\<forall>c\<in>set cs. stateOf (ks_items s) (ci_id c) \<in> Some ` SKIPPABLE_FROM_STATES \<longrightarrow> findSkipCause c (ks_items s) st = None)"
proof (induction cs arbitrary: s)
  case (Cons c cs)
  show ?case
  proof (cases rule: skipItem_cases [of now eng st c s])
    case same
    with Cons show ?thesis by auto
  next
    case (skip entry cause)
    then have "ks_changed (skipItem now eng st c s)" by simp
    with Cons.prems skipFold_changed show ?thesis by auto
  qed
qed simp

lemma propagateLoop_result:
  "skipInv citems items st s \<Longrightarrow> set cs \<subseteq> set citems \<Longrightarrow>
     skipInv citems items st (propagateLoop now eng st cs s)
     \<and> (\<forall>c\<in>set cs. stateOf (ks_items (propagateLoop now eng st cs s)) (ci_id c) \<in> Some ` SKIPPABLE_FROM_STATES
          \<longrightarrow> findSkipCause c (ks_items (propagateLoop now eng st cs s)) st = None)"
proof (induction now eng st cs s rule: propagateLoop.induct)
  case (1 now eng st cs s)
  let ?p = "skipPass now eng st cs s"
  have inv: "skipInv citems items st ?p"
    unfolding skipPass_def using 1(2,3) by (intro skipInv_fold) (simp_all add: skipInv_def)
  show ?case
  proof (cases "ks_changed ?p")
    case True
    with 1(1) [OF refl True inv 1(3)] show ?thesis by (simp add: propagateLoop.simps [of now eng st cs s] Let_def)
  next
    case False
    then have "propagateLoop now eng st cs s = ?p" by (simp add: propagateLoop.simps [of now eng st cs s] Let_def)
    moreover have "\<forall>c\<in>set cs. stateOf (ks_items ?p) (ci_id c) \<in> Some ` SKIPPABLE_FROM_STATES
        \<longrightarrow> findSkipCause c (ks_items ?p) st = None"
      using skipFold_unchanged [of now eng st cs "s\<lparr>ks_changed := False\<rparr>"] False unfolding skipPass_def by simp
    ultimately show ?thesis using inv by simp
  qed
qed

lemma doomed_skipped:
  assumes "doomed citems items st i" "skipInv citems items st s"
    and "\<forall>c\<in>set citems. stateOf (ks_items s) (ci_id c) \<in> Some ` SKIPPABLE_FROM_STATES
          \<longrightarrow> findSkipCause c (ks_items s) st = None"
  shows "i \<in> set (ks_skipped s)"
proof -
  have keep: "stateOf (ks_items s) j = stateOf items j" if "j \<notin> set (ks_skipped s)" for j
    using assms(2) that by (simp add: skipInv_def stateOf_def)
  have deadkeep: "deadDep (ks_items s) d" if "deadDep items d \<or> d \<in> set (ks_skipped s)" for d
    using that assms(2) keep [of d] by (cases "d \<in> set (ks_skipped s)") (auto simp: deadDep_def skipInv_def)
  show ?thesis using assms(1)
  proof induction
    case (external c e)
    then show ?case using assms(3) keep [of "ci_id c"] unfolding findSkipCause_None by metis
  next
    case (dead c d)
    then show ?case using assms(3) keep [of "ci_id c"] deadkeep [of d] unfolding findSkipCause_None by metis
  next
    case (chain c d)
    then show ?case using assms(3) keep [of "ci_id c"] deadkeep [of d] unfolding findSkipCause_None by metis
  qed
qed

lemma itemChain_Nil:
  "itemChain ledger st c = [] \<longleftrightarrow>
     (case itemState ledger (ci_id c) of None \<Rightarrow> True
      | Some s \<Rightarrow> s \<in> TERMINAL_ITEM_STATES
          \<or> (\<forall>d\<in>set (ci_depends_on c). itemState ledger d \<noteq> None \<and> itemState ledger d \<noteq> Some Pending)
             \<and> (\<forall>e\<in>set (orElse (ci_external_depends_on c) []). rec_get st e = Some Satisfied))"
proof -
  have mf: "List.map_filter f xs = [] \<longleftrightarrow> (\<forall>x\<in>set xs. f x = None)" for f :: "'a \<Rightarrow> 'b option" and xs
    by (induction xs) (auto simp: List.map_filter_simps split: option.splits)
  show ?thesis
    by (auto simp: itemChain_def mf Let_def orElse_def split: option.splits if_splits)
qed

section \<open>Properties\<close>

text \<open>C17: skip propagation terminates and computes a least fixpoint: an item ends up newly skipped
  exactly when it is pending or blocked and a chain of declared prerequisites leads from it, through
  contract items every one of which is pending or blocked, to an item that is abandoned or skipped or to
  an unsatisfiable external dependency; a chain through an item in any other state does not count, and one
  dead prerequisite is enough, whatever the others are. Every other ledger entry is untouched, and
  the reported ids are exactly the newly skipped ones, each once.\<close>

theorem propagate_skips_least_fixpoint:
  "let (ledger', skipped) = propagateSkips contract ledger externalStatuses now engine;
       dooms = doomed (lc_items contract) (ll_items ledger) externalStatuses
   in distinct skipped \<and> set skipped = Collect dooms
      \<and> (\<forall>i. itemState ledger' i = (if dooms i then Some Skipped else itemState ledger i))
      \<and> (\<forall>i. \<not> dooms i \<longrightarrow> rec_get (ll_items ledger') i = rec_get (ll_items ledger) i)"
proof -
  let ?ci = "lc_items contract" and ?it = "ll_items ledger"
  let ?init = "\<lparr>ks_items = ?it, ks_skipped = [], ks_ticks = 0, ks_changed = True\<rparr>"
  let ?fin = "propagateLoop now engine externalStatuses ?ci ?init"
  have r: "skipInv ?ci ?it externalStatuses ?fin"
    "\<forall>c\<in>set ?ci. stateOf (ks_items ?fin) (ci_id c) \<in> Some ` SKIPPABLE_FROM_STATES
       \<longrightarrow> findSkipCause c (ks_items ?fin) externalStatuses = None"
    using propagateLoop_result [of ?ci ?it externalStatuses ?init ?ci now engine] by (simp_all add: skipInv_def)
  have sk: "set (ks_skipped ?fin) = Collect (doomed ?ci ?it externalStatuses)"
    using doomed_skipped [OF _ r] r(1) by (auto simp: skipInv_def)
  have "itemState (ledger\<lparr>ll_items := ks_items ?fin\<rparr>) i =
      (if doomed ?ci ?it externalStatuses i then Some Skipped else itemState ledger i)" for i
    using r(1) sk by (auto simp: skipInv_def itemState_def stateOf_def)
  moreover have "rec_get (ks_items ?fin) i = rec_get ?it i" if "\<not> doomed ?ci ?it externalStatuses i" for i
    using r(1) sk that by (auto simp: skipInv_def)
  moreover have "distinct (ks_skipped ?fin)" using r(1) by (simp add: skipInv_def)
  ultimately show ?thesis using sk by (simp add: propagateSkips_def Let_def)
qed

theorem propagate_skips_least_fixpoint_witness:
  "doomed [mkItem ''1'' [] [], mkItem ''2'' [''1''] [], mkItem ''3'' [''2''] []]
     (ll_items (mkLedger [mkEntry ''1'' Abandoned, mkEntry ''2'' Blocked, mkEntry ''3'' Pending])) [] ''3''"
proof -
  let ?c = "mkContract [mkItem ''1'' [] [], mkItem ''2'' [''1''] [], mkItem ''3'' [''2''] []]"
  let ?l = "mkLedger [mkEntry ''1'' Abandoned, mkEntry ''2'' Blocked, mkEntry ''3'' Pending]"
  have "propagateSkips ?c ?l [] (\<lambda>n. Iso (int n)) Claude = (fst (propagateSkips ?c ?l [] (\<lambda>n. Iso (int n)) Claude), [''2'', ''3''])"
    by code_simp
  then have "set [''2'', ''3''] = Collect (doomed (lc_items ?c) (ll_items ?l) [])"
    using propagate_skips_least_fixpoint [of ?c ?l "[]" "\<lambda>n. Iso (int n)" Claude]
    by (simp add: Let_def split: prod.splits)
  then have "''3'' \<in> Collect (doomed (lc_items ?c) (ll_items ?l) [])" by auto
  then show ?thesis by (simp add: mkContract_def)
qed

text \<open>C38: a run is never silently stuck: in a run that has not stopped, or whose stop is mechanical, if no
  item is in progress, no item is eligible and no deadlock is reported, then every pending item that the
  stop does not name waits on an in-run dependency that has left \<open>pending\<close> but is not done (it is blocked,
  held, in review or dead), all its dependencies exist and its external dependencies are satisfied.\<close>

theorem no_silent_stall:
  assumes "eligibleIndependentItems sha256 contract ledger externalStatuses = Inr []"
    and "detectDependencyDeadlock sha256 contract ledger externalStatuses = Inr None"
    and "distinct (map ci_id (lc_items contract))"
    and "ll_stop ledger = None \<or> stopIsMechanical (ll_stop ledger)" "\<not> anyInProgress ledger"
    and "exhaustedItemId ledger \<noteq> Some (ci_id c)" "c \<in> set (lc_items contract)" "itemState ledger (ci_id c) = Some Pending"
  shows "(\<exists>d\<in>set (ci_depends_on c). (\<exists>s. itemState ledger d = Some s \<and> s \<noteq> Pending \<and> s \<notin> DONE_STATES)
            \<or> d \<in> set (blockedIds ledger))
    \<and> (\<forall>d\<in>set (ci_depends_on c). itemState ledger d \<noteq> None)
    \<and> (\<forall>e\<in>set (orElse (ci_external_depends_on c) []). rec_get externalStatuses e = Some Satisfied)"
proof -
  have "concat (map (itemChain ledger externalStatuses) (lc_items contract)) = []"
    using assms(1,2,5) by (auto simp: detectDependencyDeadlock_def split: if_splits)
  then have nil: "itemChain ledger externalStatuses c = []" using assms(7) by simp
  have deps: "\<forall>d\<in>set (ci_depends_on c). itemState ledger d \<noteq> None \<and> itemState ledger d \<noteq> Some Pending"
    and ext: "\<forall>e\<in>set (orElse (ci_external_depends_on c) []). rec_get externalStatuses e = Some Satisfied"
    using nil assms(8) by (simp_all add: itemChain_Nil TERMINAL_ITEM_STATES_def)
  obtain c' where up: "upgradeContractForRecovery contract = Inr c'"
    using assms(1) by (cases "upgradeContractForRecovery contract") (auto simp: eligibleIndependentItems_def)
  have "\<not> eligibleItem contract ledger externalStatuses c"
    using assms(1,4,5,7) unfolding eligible_eq [OF up] by (auto simp: filter_empty_conv)
  then obtain d where d: "d \<in> set (ci_depends_on c)" "\<not> isDone ledger d \<or> d \<in> set (blockedIds ledger)"
    using assms(6,8) ext contractDeps_distinct [OF assms(3,7)]
    unfolding eligibleItem_def Let_def list_all_iff list_ex_iff by (auto split: if_splits)
  then have "(\<exists>s. itemState ledger d = Some s \<and> s \<noteq> Pending \<and> s \<notin> DONE_STATES) \<or> d \<in> set (blockedIds ledger)"
    using deps by (auto simp: isDone_def split: option.splits)
  with d(1) deps ext show ?thesis by blast
qed

text \<open>Item 2 waits for item 1, which is on hold; a mechanical stop names item 3.\<close>

definition stalledLedger :: LoopLedger where
  "stalledLedger = (mkLedger [mkEntry ''1'' Waiting, mkEntry ''2'' Pending, mkEntry ''3'' Pending])\<lparr>ll_stop := Some
     \<lparr>st_reason = RecoveryExhausted, st_time = Iso 0, st_item_id = Some ''3'', st_theme = None, st_limit = None,
      st_fingerprint = None, st_deadlock_chain = None, st_outstanding_ready = []\<rparr>\<rparr>"

theorem no_silent_stall_witness:
  "stopIsMechanical (ll_stop stalledLedger) \<and> (\<exists>d\<in>set (ci_depends_on (mkItem ''2'' [''1''] [])).
     (\<exists>s. itemState stalledLedger d = Some s \<and> s \<noteq> Pending \<and> s \<notin> DONE_STATES) \<or> d \<in> set (blockedIds stalledLedger))"
proof -
  let ?c = "mkContract [mkItem ''1'' [] [], mkItem ''2'' [''1''] [], mkItem ''3'' [] []]"
  have b: "filter (eligibleItem ?c stalledLedger []) (lc_items ?c) = []" "stopIsMechanical (ll_stop stalledLedger)"
    "\<not> anyInProgress stalledLedger" "concat (map (itemChain stalledLedger []) (lc_items ?c)) = []"
    "distinct (map ci_id (lc_items ?c))" "exhaustedItemId stalledLedger \<noteq> Some (ci_id (mkItem ''2'' [''1''] []))"
    "itemState stalledLedger (ci_id (mkItem ''2'' [''1''] [])) = Some Pending" "mkItem ''2'' [''1''] [] \<in> set (lc_items ?c)"
    by code_simp+
  have e: "eligibleIndependentItems id ?c stalledLedger [] = Inr []"
    unfolding eligible_eq [OF upgrade_mkContract] using b by simp
  then have "detectDependencyDeadlock id ?c stalledLedger [] = Inr None"
    using b(4) by (simp add: detectDependencyDeadlock_def)
  from no_silent_stall [OF e this b(5) disjI2 [OF b(2)] b(3,6,8,7)] b(2) show ?thesis by blast
qed

text \<open>A dependency the observers cannot see, an open issue, or an id that is not a canonical issue
  number is never reported as satisfied; the status of a canonical id is decided by its issue and
  linked pull request alone, and every declared external dependency gets a status.\<close>

lemma external_status_fails_closed:
  "let statuses = computeExternalDependencyStatuses getIssueState findPr getPrState contract
   in \<forall>i. rec_get statuses i =
      (if i \<notin> set (collectExternalDependencyIds contract) then None
       else if \<not> canonicalIssueId i then Some PendingDep
       else Some (externalDependencyStatus (getIssueState (digits_val i 0))
              (Option.bind (findPr (digits_val i 0)) getPrState = Some PrMerged)))
    \<and> (externalDependencyStatus None False = PendingDep)
    \<and> (externalDependencyStatus (Some \<lparr>is_state = IssueOpen, is_stateReason = r\<rparr>) False = PendingDep)"
  by (auto simp: computeExternalDependencyStatuses_def Let_def js_dict.get_fold_put externalDependencyStatus_def
      rec_get_def [of "[]"])

end
