(* ===== verification/Store_Base.thy ===== *)
theory Store_Base
  imports Loop_Types "HOL-Library.AList"
begin

text \<open>
  The file level of the durable loop store (\<open>core/scripts/loop/store.ts\<close>): run directories, the
  injected I/O seam \<open>LoopStoreDeps\<close>, the append-only logs with their cached sequence numbers, and
  the exclusive lock.

  Every asynchronous function is a function of the world that returns a result or the exception it
  throws, together with the new world. The seam's primitives are those of the contract in the interface
  \<open>LoopStoreDeps\<close>: atomic, and without failures of the disk. (The default implementation of the two lock
  primitives is not atomic; \<open>Lock_Files\<close> models it call by call and shows what this costs.) An operation of the model runs without interleaving, and the interleaving of several
  processes is a sequence of operations on one world (the step relation of this theory). A file is
  keyed by its directory and base name. Its text is \<open>Written v\<close>, the text \<open>JSON.stringify\<close> gives
  for \<open>v\<close>, or \<open>Foreign s r\<close>, another text \<open>s\<close> with what \<open>JSON.parse\<close> reads from it. The
  sequence cache is process memory, so it is keyed by the process id.
\<close>

section \<open>World and operations\<close>

datatype 'a doc_text = Written 'a | Foreign string "'a option"

fun text_value :: "'a doc_text \<Rightarrow> 'a option" where
  "text_value (Written v) = Some v"
| "text_value (Foreign s r) = r"

fun text_empty :: "'a doc_text \<Rightarrow> bool" where
  "text_empty (Written v) = False"
| "text_empty (Foreign s r) = (s = [])"

type_synonym path = "string \<times> string"

datatype LoopSupervisorAction =
    ReconcileAction | StartItem | DispatchItem | BlockItemAction | AbandonItem | ResumeAction
  | StopAction | NoopAction | ExcludeItem

record LoopActionEvidence =
  ae_seq :: nat
  ae_time :: timestamp
  ae_item_id :: "string option"
  ae_action :: LoopSupervisorAction
  ae_outcome :: string
  ae_next_action :: "LoopNextAction option"
  ae_progress :: bool
  ae_worktree_root :: "string option"

record World =
  w_docs :: "(path \<times> jsval doc_text) list"
  w_locks :: "(path \<times> LoopLockRecord doc_text) list"
  w_supervisors :: "(path \<times> LoopSupervisorProcess doc_text) list"
  w_logs :: "(path \<times> LoopEvent doc_text list) list"
  w_evidence :: "(path \<times> LoopActionEvidence doc_text list) list"
  w_seqCache :: "((int \<times> path) \<times> nat) list"
  w_calls :: nat

text \<open>The seam: the process's environment, the host, the clock and the mint of unique ids (both
  answer the \<open>n\<close>-th call), and the library's date functions.\<close>

record LoopStoreDeps =
  de_env :: "(string \<times> string) list"
  de_resolve :: "string \<Rightarrow> string"
  de_homedir :: string
  de_hostname :: string
  de_pid :: int
  de_isPidAlive :: "int \<Rightarrow> bool"
  de_getProcessStartTime :: "int \<Rightarrow> string option"
  de_now :: "nat \<Rightarrow> int"
  de_uuid :: "nat \<Rightarrow> string"
  de_toISOString :: "int \<Rightarrow> string"
  de_dateParse :: "string \<Rightarrow> int option"
  de_sha256 :: "string \<Rightarrow> string"

text \<open>The combinators work on any state, here and over the typed runs.\<close>

type_synonym ('w, 'a) st_io = "'w \<Rightarrow> 'a result \<times> 'w"

type_synonym 'a io = "(World, 'a) st_io"

definition io_return :: "'a \<Rightarrow> ('w, 'a) st_io" where
  "io_return x w = (Inr x, w)"

definition io_throw :: "LoopError \<Rightarrow> ('w, 'a) st_io" where
  "io_throw e w = (Inl e, w)"

definition io_bind :: "('w, 'a) st_io \<Rightarrow> ('a \<Rightarrow> ('w, 'b) st_io) \<Rightarrow> ('w, 'b) st_io" where
  "io_bind m f w = (case m w of (Inl e, w') \<Rightarrow> (Inl e, w') | (Inr x, w') \<Rightarrow> f x w')"

definition io_then :: "('w, 'a) st_io \<Rightarrow> ('w, 'b) st_io \<Rightarrow> ('w, 'b) st_io" where
  "io_then m k = io_bind m (\<lambda>_. k)"

text \<open>A pure function that may throw.\<close>

definition io_lift :: "'a result \<Rightarrow> ('w, 'a) st_io" where
  "io_lift r w = (r, w)"

text \<open>\<open>promise.catch(() => undefined)\<close>.\<close>

definition io_ignore :: "('w, 'a) st_io \<Rightarrow> ('w, unit) st_io" where
  "io_ignore m w = (Inr (), snd (m w))"

lemma io_simps_base [io_simps]:
  "io_return x w = (Inr x, w)" "io_throw e w = (Inl e, w)" "io_lift r w = (r, w)"
  "io_then m k w = io_bind m (\<lambda>_. k) w" "io_ignore m w = (Inr (), snd (m w))"
  by (simp_all add: io_return_def io_throw_def io_lift_def io_then_def io_ignore_def)

lemma io_bind_Inr [io_simps]: "m w = (Inr x, w') \<Longrightarrow> io_bind m f w = f x w'"
  by (simp add: io_bind_def)

lemma io_bind_Inl [io_simps]: "m w = (Inl e, w') \<Longrightarrow> io_bind m f w = (Inl e, w')"
  by (simp add: io_bind_def)

lemma io_bind_Inr_D:
  assumes "io_bind m f w = (Inr y, w'')"
  obtains x w' where "m w = (Inr x, w')" "f x w' = (Inr y, w'')"
  using assms by (auto simp: io_bind_def split: prod.splits sum.splits)

section \<open>Primitives of the seam\<close>

definition io_now :: "LoopStoreDeps \<Rightarrow> int io" where
  "io_now deps w = (Inr (de_now deps (w_calls w)), w\<lparr>w_calls := Suc (w_calls w)\<rparr>)"

definition io_uuid :: "LoopStoreDeps \<Rightarrow> string io" where
  "io_uuid deps w = (Inr (de_uuid deps (w_calls w)), w\<lparr>w_calls := Suc (w_calls w)\<rparr>)"

definition readTextFile :: "path \<Rightarrow> jsval doc_text option io" where
  "readTextFile p w = (Inr (map_of (w_docs w) p), w)"

definition writeFileAtomic :: "path \<Rightarrow> jsval doc_text \<Rightarrow> unit io" where
  "writeFileAtomic p t w = (Inr (), w\<lparr>w_docs := AList.update p t (w_docs w)\<rparr>)"

definition fsExists :: "path \<Rightarrow> bool io" where
  "fsExists p w = (Inr (map_of (w_docs w) p \<noteq> None), w)"

definition removeFile :: "path \<Rightarrow> unit io" where
  "removeFile p w = (Inr (), w\<lparr>w_docs := AList.delete p (w_docs w), w_logs := AList.delete p (w_logs w)\<rparr>)"

text \<open>The exclusivity primitives act on lock files; these are the contracts of the interface.\<close>

definition createFileExclusive :: "path \<Rightarrow> LoopLockRecord doc_text \<Rightarrow> bool io" where
  "createFileExclusive p t w =
     (case map_of (w_locks w) p of
        Some _ \<Rightarrow> (Inr False, w)
      | None \<Rightarrow> (Inr True, w\<lparr>w_locks := AList.update p t (w_locks w)\<rparr>))"

definition removeFileIfMatches :: "path \<Rightarrow> LoopLockRecord doc_text \<Rightarrow> bool io" where
  "removeFileIfMatches p expected w =
     (if map_of (w_locks w) p = Some expected
      then (Inr True, w\<lparr>w_locks := AList.delete p (w_locks w)\<rparr>) else (Inr False, w))"

definition appendLine :: "path \<Rightarrow> LoopEvent \<Rightarrow> unit io" where
  "appendLine p e w =
     (Inr (), w\<lparr>w_logs := AList.update p (orElse (map_of (w_logs w) p) [] @ [Written e]) (w_logs w)\<rparr>)"

text \<open>\<open>renameDirExclusive\<close>: all files of the directory move, unless the target already exists.\<close>

definition move_dir :: "string \<Rightarrow> string \<Rightarrow> (path \<times> 'a) list \<Rightarrow> (path \<times> 'a) list" where
  "move_dir src dst m = map (\<lambda>((d, b), v). ((if d = src then dst else d, b), v)) m"

definition has_dir :: "string \<Rightarrow> (path \<times> 'a) list \<Rightarrow> bool" where
  "has_dir dir m = list_ex (\<lambda>((d, b), v). d = dir) m"

definition renameDirExclusive :: "string \<Rightarrow> string \<Rightarrow> bool io" where
  "renameDirExclusive src dst w =
     (if has_dir dst (w_docs w) \<or> has_dir dst (w_locks w) \<or> has_dir dst (w_supervisors w)
         \<or> has_dir dst (w_logs w) \<or> has_dir dst (w_evidence w)
      then (Inr False, w)
      else (Inr True, w\<lparr>w_docs := move_dir src dst (w_docs w), w_locks := move_dir src dst (w_locks w),
              w_supervisors := move_dir src dst (w_supervisors w), w_logs := move_dir src dst (w_logs w),
              w_evidence := move_dir src dst (w_evidence w)\<rparr>))"

section \<open>State home and run directories\<close>

definition joinPath :: "string \<Rightarrow> string \<Rightarrow> string" where
  "joinPath dir base = (if dir = ''/'' then ''/'' @ base else dir @ ''/'' @ base)"

definition PIPELINE_STATE_HOME_ENV :: string where
  "PIPELINE_STATE_HOME_ENV = ''AGENT_PIPELINE_STATE_HOME''"

definition LEGACY_PIPELINE_STATE_HOME_ENV :: string where
  "LEGACY_PIPELINE_STATE_HOME_ENV = ''PIPELINE_STATE_HOME''"

definition resolveStateHome :: "LoopStoreDeps \<Rightarrow> string" where
  "resolveStateHome deps =
     (let env = map_of (de_env deps)
      in if truthy (env PIPELINE_STATE_HOME_ENV) then de_resolve deps (the (env PIPELINE_STATE_HOME_ENV))
         else if truthy (env LEGACY_PIPELINE_STATE_HOME_ENV)
         then de_resolve deps (the (env LEGACY_PIPELINE_STATE_HOME_ENV))
         else if truthy (env ''XDG_STATE_HOME'')
         then joinPath (joinPath (de_resolve deps (the (env ''XDG_STATE_HOME''))) ''agent-pipeline'') ''loop''
         else joinPath (joinPath (joinPath (joinPath (de_homedir deps) ''.local'') ''state'') ''agent-pipeline'')
           ''loop'')"

definition safeRunIdChar :: "char \<Rightarrow> bool" where
  "safeRunIdChar c \<longleftrightarrow> (let n = of_char c :: nat
     in 65 \<le> n \<and> n \<le> 90 \<or> 97 \<le> n \<and> n \<le> 122 \<or> 48 \<le> n \<and> n \<le> 57
        \<or> c = CHR ''.'' \<or> c = CHR ''_'' \<or> c = CHR ''-'')"

definition SAFE_RUN_ID :: "string \<Rightarrow> bool" where
  "SAFE_RUN_ID s \<longleftrightarrow> s \<noteq> [] \<and> list_all safeRunIdChar s"

definition assertSafeRunId :: "string \<Rightarrow> unit result" where
  "assertSafeRunId runId =
     (if \<not> SAFE_RUN_ID runId \<or> runId = ''.'' \<or> runId = ''..'' \<or> js_includes runId ''..''
      then Inl (LoopError Validation (''invalid run id '' @ quoted runId
             @ '': must be a bare name with no path separators or '' @ quoted ''..''))
      else Inr ())"

definition runDir :: "LoopStoreDeps \<Rightarrow> string \<Rightarrow> string result" where
  "runDir deps runId =
     (case assertSafeRunId runId of Inl e \<Rightarrow> Inl e
      | Inr _ \<Rightarrow>
        (let root = joinPath (resolveStateHome deps) ''runs''; dir = joinPath root runId
         in if \<not> js_startsWith (dir @ ''/'') (root @ ''/'')
            then Inl (LoopError Validation (''invalid run id '' @ quoted runId @ '': resolves outside the runs root''))
            else Inr dir))"

definition contractPath :: "string \<Rightarrow> path" where
  "contractPath dir = (dir, ''contract.json'')"

definition ledgerPath :: "string \<Rightarrow> path" where
  "ledgerPath dir = (dir, ''ledger.json'')"

definition lockPath :: "string \<Rightarrow> path" where
  "lockPath dir = (dir, ''lock.json'')"

definition eventsPath :: "string \<Rightarrow> path" where
  "eventsPath dir = (dir, ''events.jsonl'')"

definition decisionsPath :: "string \<Rightarrow> path" where
  "decisionsPath dir = (dir, ''decisions.jsonl'')"

definition supervisorPath :: "string \<Rightarrow> path" where
  "supervisorPath dir = (dir, ''supervisor.json'')"

definition actionEvidencePath :: "string \<Rightarrow> path" where
  "actionEvidencePath dir = (dir, ''action-evidence.jsonl'')"

definition loopRunHandoffPath :: "string \<Rightarrow> path" where
  "loopRunHandoffPath dir = (dir, ''loop-run-handoff.json'')"

definition runEventsPath :: "LoopStoreDeps \<Rightarrow> string \<Rightarrow> path result" where
  "runEventsPath deps runId = map_sum (\<lambda>e. e) eventsPath (runDir deps runId)"

section \<open>Append-only logs\<close>

definition lineCount :: "'a doc_text list option \<Rightarrow> nat" where
  "lineCount lines = length (filter (\<lambda>l. \<not> text_empty l) (orElse lines []))"

definition nextSeq :: "LoopStoreDeps \<Rightarrow> path \<Rightarrow> nat io" where
  "nextSeq deps logPath w =
     (case map_of (w_seqCache w) (de_pid deps, logPath) of
        Some cached \<Rightarrow> (Inr cached, w)
      | None \<Rightarrow> (Inr (lineCount (map_of (w_logs w) logPath)), w))"

definition cacheSeq :: "LoopStoreDeps \<Rightarrow> path \<Rightarrow> nat \<Rightarrow> unit io" where
  "cacheSeq deps logPath n w =
     (Inr (), w\<lparr>w_seqCache := AList.update (de_pid deps, logPath) n (w_seqCache w)\<rparr>)"

definition appendLog :: "LoopStoreDeps \<Rightarrow> path \<Rightarrow> string \<Rightarrow> LogData \<Rightarrow> LoopEvent io" where
  "appendLog deps logPath kind data =
     io_bind (nextSeq deps logPath) (\<lambda>seq.
     io_bind (io_now deps) (\<lambda>t.
       let record = \<lparr>ev_seq = seq, ev_time = Iso t, ev_kind = kind, ev_data = data\<rparr>
       in io_then (appendLine logPath record)
         (io_then (cacheSeq deps logPath (Suc seq)) (io_return record))))"

definition appendEventUnchecked :: "LoopStoreDeps \<Rightarrow> string \<Rightarrow> string \<Rightarrow> LogData \<Rightarrow> LoopEvent io" where
  "appendEventUnchecked deps runId kind data =
     io_bind (io_lift (runDir deps runId)) (\<lambda>dir. appendLog deps (eventsPath dir) kind data)"

text \<open>\<open>JSON.parse\<close> of each line throws on a line that is not JSON.\<close>

fun parseLines :: "'a doc_text list \<Rightarrow> 'a list result" where
  "parseLines [] = Inr []"
| "parseLines (l # ls) =
     (if text_empty l then parseLines ls
      else (case text_value l of None \<Rightarrow> Inl (JsError ''SyntaxError'')
            | Some v \<Rightarrow> (case parseLines ls of Inl e \<Rightarrow> Inl e | Inr vs \<Rightarrow> Inr (v # vs))))"

definition readLog :: "path \<Rightarrow> LoopEvent list io" where
  "readLog p w = (parseLines (orElse (map_of (w_logs w) p) []), w)"

definition readEvents :: "LoopStoreDeps \<Rightarrow> string \<Rightarrow> LoopEvent list io" where
  "readEvents deps runId = io_bind (io_lift (runDir deps runId)) (\<lambda>dir. readLog (eventsPath dir))"

definition readDecisions :: "LoopStoreDeps \<Rightarrow> string \<Rightarrow> LoopEvent list io" where
  "readDecisions deps runId = io_bind (io_lift (runDir deps runId)) (\<lambda>dir. readLog (decisionsPath dir))"

section \<open>Locking\<close>

datatype LockStaleness = NotStale | StaleSameHostDeadPid | UnverifiableCrossHost

definition lockValue :: "LoopLockRecord doc_text option \<Rightarrow> LoopLockRecord option result" where
  "lockValue text =
     (case text of None \<Rightarrow> Inr None
      | Some t \<Rightarrow> if text_empty t then Inr None
                  else (case text_value t of None \<Rightarrow> Inl (JsError ''SyntaxError'') | Some r \<Rightarrow> Inr (Some r)))"

definition readLock :: "LoopStoreDeps \<Rightarrow> string \<Rightarrow> LoopLockRecord option io" where
  "readLock deps runId = io_bind (io_lift (runDir deps runId))
     (\<lambda>dir w. (lockValue (map_of (w_locks w) (lockPath dir)), w))"

definition classifyStaleness :: "LoopStoreDeps \<Rightarrow> LoopLockRecord \<Rightarrow> LockStaleness" where
  "classifyStaleness deps lock =
     (if lk_hostname lock \<noteq> de_hostname deps then UnverifiableCrossHost
      else if de_isPidAlive deps (lk_pid lock) then NotStale else StaleSameHostDeadPid)"

definition lockHolder :: "LoopLockRecord \<Rightarrow> string" where
  "lockHolder lock = engineName (lk_engine lock) @ '' pid '' @ show_int (lk_pid lock) @ '' on '' @ lk_hostname lock"

definition showTimestamp :: "LoopStoreDeps \<Rightarrow> timestamp \<Rightarrow> string" where
  "showTimestamp deps t = (case t of Iso ms \<Rightarrow> de_toISOString deps ms | Other s _ \<Rightarrow> s)"

definition acquireLock ::
  "LoopStoreDeps \<Rightarrow> string \<Rightarrow> LoopEngineName \<Rightarrow> (string \<times> LoopLockRecord) io" where
  "acquireLock deps runId engine =
     io_bind (io_uuid deps) (\<lambda>token.
     io_bind (io_now deps) (\<lambda>t.
       let starttime = de_getProcessStartTime deps (de_pid deps);
           record = \<lparr>lk_engine = engine, lk_pid = de_pid deps, lk_hostname = de_hostname deps,
             lk_acquired_at = Iso t, lk_token = token, lk_run_id = runId,
             lk_starttime = (if truthy starttime then starttime else None)\<rparr>
       in io_bind (io_lift (runDir deps runId)) (\<lambda>dir.
          io_bind (createFileExclusive (lockPath dir) (Written record)) (\<lambda>created.
            if created then io_return (token, record)
            else io_bind (readLock deps runId) (\<lambda>existing.
              io_throw (LoopError Lock (''loop run '' @ quoted runId @ '' is already locked by ''
                @ (case existing of None \<Rightarrow> ''an existing holder''
                   | Some l \<Rightarrow> lockHolder l @ '' (acquired '' @ showTimestamp deps (lk_acquired_at l) @ '')''))))))))"

definition requireToken :: "LoopStoreDeps \<Rightarrow> string \<Rightarrow> string \<Rightarrow> LoopLockRecord io" where
  "requireToken deps runId token =
     io_bind (readLock deps runId) (\<lambda>lock.
       case lock of
         Some l \<Rightarrow> if lk_token l = token then io_return l
           else io_throw (LoopError Lock (''loop run '' @ quoted runId
             @ '': mutating operation requires the current lock holder's token ('' @ lockHolder l @ '')''))
       | None \<Rightarrow> io_throw (LoopError Lock (''loop run '' @ quoted runId
             @ '': mutating operation requires the current lock holder's token (no holder)'')))"

definition releaseLock :: "LoopStoreDeps \<Rightarrow> string \<Rightarrow> string \<Rightarrow> unit io" where
  "releaseLock deps runId token =
     io_bind (requireToken deps runId token) (\<lambda>lock.
     io_bind (io_lift (runDir deps runId)) (\<lambda>dir.
     io_bind (removeFileIfMatches (lockPath dir) (Written lock)) (\<lambda>removed.
       if removed then io_return ()
       else io_throw (LoopError Lock (''loop run '' @ quoted runId
              @ '': lock was already superseded by another holder'')))))"

text \<open>\<open>recoverLock\<close> in its two halves: what it observes and decides, and the removal, which
  another process may have preceded.\<close>

definition recoveryReason :: "string \<Rightarrow> bool \<Rightarrow> LockStaleness \<Rightarrow> string" where
  "recoveryReason reason force staleness =
     (if force \<and> staleness \<noteq> StaleSameHostDeadPid then reason @ '' (forced)'' else reason)"

definition observeStaleLock ::
  "LoopStoreDeps \<Rightarrow> string \<Rightarrow> bool \<Rightarrow> LoopLockRecord option io" where
  "observeStaleLock deps runId force =
     io_bind (readLock deps runId) (\<lambda>lock.
       case lock of None \<Rightarrow> io_return None
       | Some l \<Rightarrow>
           if classifyStaleness deps l \<noteq> StaleSameHostDeadPid \<and> \<not> force
           then io_throw (LoopError Lock (''loop run '' @ quoted runId @ '': lock held by '' @ lockHolder l
                  @ '' is not verifiably stale -- refusing recovery without force''))
           else io_return (Some l))"

definition removeStaleLock ::
  "LoopStoreDeps \<Rightarrow> string \<Rightarrow> string \<Rightarrow> bool \<Rightarrow> LoopLockRecord \<Rightarrow> unit io" where
  "removeStaleLock deps runId reason force lock =
     io_bind (io_lift (runDir deps runId)) (\<lambda>dir.
     io_bind (removeFileIfMatches (lockPath dir) (Written lock)) (\<lambda>removed.
       if \<not> removed then io_return ()
       else io_then (appendEventUnchecked deps runId ''lock_recovered'' (DataObj (JObj
              [(''previous_holder'', JObj [(''engine'', JStr (engineName (lk_engine lock))),
                  (''pid'', JNum (Fin (of_int (lk_pid lock)))), (''hostname'', JStr (lk_hostname lock))]),
               (''reason'', JStr (recoveryReason reason force (classifyStaleness deps lock)))])))
            (io_return ())))"

definition recoverLock :: "LoopStoreDeps \<Rightarrow> string \<Rightarrow> string \<Rightarrow> bool \<Rightarrow> unit io" where
  "recoverLock deps runId reason force =
     io_bind (observeStaleLock deps runId force) (\<lambda>lock.
       case lock of None \<Rightarrow> io_return () | Some l \<Rightarrow> removeStaleLock deps runId reason force l)"

section \<open>Token-guarded appends and writes\<close>

definition appendEvent :: "LoopStoreDeps \<Rightarrow> string \<Rightarrow> string \<Rightarrow> string \<Rightarrow> LogData \<Rightarrow> LoopEvent io" where
  "appendEvent deps runId token kind data =
     io_then (requireToken deps runId token) (appendEventUnchecked deps runId kind data)"

definition appendDecision :: "LoopStoreDeps \<Rightarrow> string \<Rightarrow> string \<Rightarrow> string \<Rightarrow> LogData \<Rightarrow> LoopEvent io" where
  "appendDecision deps runId token kind data =
     io_then (requireToken deps runId token)
       (io_bind (io_lift (runDir deps runId)) (\<lambda>dir. appendLog deps (decisionsPath dir) kind data))"

definition nextEvidenceSeq :: "LoopStoreDeps \<Rightarrow> path \<Rightarrow> nat io" where
  "nextEvidenceSeq deps logPath w =
     (case map_of (w_seqCache w) (de_pid deps, logPath) of
        Some cached \<Rightarrow> (Inr cached, w)
      | None \<Rightarrow> (Inr (lineCount (map_of (w_evidence w) logPath)), w))"

definition appendEvidenceLine :: "path \<Rightarrow> LoopActionEvidence \<Rightarrow> unit io" where
  "appendEvidenceLine p e w =
     (Inr (), w\<lparr>w_evidence := AList.update p (orElse (map_of (w_evidence w) p) [] @ [Written e]) (w_evidence w)\<rparr>)"

text \<open>The entry's \<open>seq\<close> and \<open>time\<close> are filled in here.\<close>

definition appendActionEvidence ::
  "LoopStoreDeps \<Rightarrow> string \<Rightarrow> string \<Rightarrow> LoopActionEvidence \<Rightarrow> LoopActionEvidence io" where
  "appendActionEvidence deps runId token entry =
     io_then (requireToken deps runId token)
       (io_bind (io_lift (runDir deps runId)) (\<lambda>dir.
        io_bind (nextEvidenceSeq deps (actionEvidencePath dir)) (\<lambda>seq.
        io_bind (io_now deps) (\<lambda>t.
          let record = entry\<lparr>ae_seq := seq, ae_time := Iso t\<rparr>
          in io_then (appendEvidenceLine (actionEvidencePath dir) record)
             (io_then (cacheSeq deps (actionEvidencePath dir) (Suc seq)) (io_return record))))))"

definition readActionEvidence :: "LoopStoreDeps \<Rightarrow> string \<Rightarrow> LoopActionEvidence list io" where
  "readActionEvidence deps runId = io_bind (io_lift (runDir deps runId))
     (\<lambda>dir w. (parseLines (orElse (map_of (w_evidence w) (actionEvidencePath dir)) []), w))"

definition writeSupervisorProcess :: "LoopStoreDeps \<Rightarrow> LoopSupervisorProcess \<Rightarrow> string \<Rightarrow> unit io" where
  "writeSupervisorProcess deps record token =
     io_then (requireToken deps (sp_run_id record) token)
       (io_bind (io_lift (runDir deps (sp_run_id record))) (\<lambda>dir w.
          (Inr (), w\<lparr>w_supervisors := AList.update (supervisorPath dir) (Written record) (w_supervisors w)\<rparr>)))"

definition readSupervisorProcess :: "LoopStoreDeps \<Rightarrow> string \<Rightarrow> LoopSupervisorProcess option io" where
  "readSupervisorProcess deps runId = io_bind (io_lift (runDir deps runId)) (\<lambda>dir w.
     (case map_of (w_supervisors w) (supervisorPath dir) of None \<Rightarrow> Inr None
      | Some t \<Rightarrow> if text_empty t then Inr None
                  else (case text_value t of None \<Rightarrow> Inl (JsError ''SyntaxError'') | Some r \<Rightarrow> Inr (Some r)), w))"

definition writeLoopRunHandoff :: "LoopStoreDeps \<Rightarrow> jsval \<Rightarrow> string \<Rightarrow> unit io" where
  "writeLoopRunHandoff deps payload token =
     (let runId = strVal (jprop payload ''run_id'')
      in io_then (requireToken deps runId token)
        (io_bind (io_lift (runDir deps runId)) (\<lambda>dir. writeFileAtomic (loopRunHandoffPath dir) (Written payload))))"

definition readLoopRunHandoff :: "LoopStoreDeps \<Rightarrow> string \<Rightarrow> jsval option io" where
  "readLoopRunHandoff deps runId = io_bind (io_lift (runDir deps runId)) (\<lambda>dir w.
     (case map_of (w_docs w) (loopRunHandoffPath dir) of None \<Rightarrow> Inr None
      | Some t \<Rightarrow> if text_empty t then Inr None
                  else (case text_value t of None \<Rightarrow> Inl (JsError ''SyntaxError'') | Some r \<Rightarrow> Inr (Some r)), w))"


section \<open>Lemmas on the primitives\<close>

lemma prim_simps [io_simps]:
  "io_now deps w = (Inr (de_now deps (w_calls w)), w\<lparr>w_calls := Suc (w_calls w)\<rparr>)"
  "io_uuid deps w = (Inr (de_uuid deps (w_calls w)), w\<lparr>w_calls := Suc (w_calls w)\<rparr>)"
  "readTextFile p w = (Inr (map_of (w_docs w) p), w)"
  "fsExists p w = (Inr (map_of (w_docs w) p \<noteq> None), w)"
  "writeFileAtomic p t w = (Inr (), w\<lparr>w_docs := AList.update p t (w_docs w)\<rparr>)"
  "cacheSeq deps q n w = (Inr (), w\<lparr>w_seqCache := AList.update (de_pid deps, q) n (w_seqCache w)\<rparr>)"
  "appendLine p e w =
     (Inr (), w\<lparr>w_logs := AList.update p (orElse (map_of (w_logs w) p) [] @ [Written e]) (w_logs w)\<rparr>)"
  by (simp_all add: io_now_def io_uuid_def readTextFile_def fsExists_def writeFileAtomic_def cacheSeq_def
    appendLine_def)

lemma io_bind_return [io_simps]: "io_bind (\<lambda>w. (Inr (f w), g w)) k w = k (f w) (g w)"
  by (simp add: io_bind_def)

text \<open>The sequence number an append by a process would use.\<close>

definition seqFor :: "int \<Rightarrow> path \<Rightarrow> World \<Rightarrow> nat" where
  "seqFor pid p w = (case map_of (w_seqCache w) (pid, p) of Some n \<Rightarrow> n | None \<Rightarrow> lineCount (map_of (w_logs w) p))"

lemma nextSeq_eq [io_simps]: "nextSeq deps p w = (Inr (seqFor (de_pid deps) p w), w)"
  by (simp add: nextSeq_def seqFor_def split: option.splits)

definition appendedEvent :: "LoopStoreDeps \<Rightarrow> path \<Rightarrow> string \<Rightarrow> LogData \<Rightarrow> World \<Rightarrow> LoopEvent" where
  "appendedEvent deps p kind data w = \<lparr>ev_seq = seqFor (de_pid deps) p w, ev_time = Iso (de_now deps (w_calls w)),
     ev_kind = kind, ev_data = data\<rparr>"

lemma appendLog_eq:
  "appendLog deps p kind data w =
     (Inr (appendedEvent deps p kind data w),
      w\<lparr>w_calls := Suc (w_calls w),
        w_logs := AList.update p (orElse (map_of (w_logs w) p) [] @ [Written (appendedEvent deps p kind data w)]) (w_logs w),
        w_seqCache := AList.update (de_pid deps, p) (Suc (seqFor (de_pid deps) p w)) (w_seqCache w)\<rparr>)"
  by (simp add: appendLog_def io_bind_def io_simps appendedEvent_def Let_def)

lemma runDir_Inr: "runDir deps runId = Inr dir \<Longrightarrow> dir = joinPath (joinPath (resolveStateHome deps) ''runs'') runId"
  by (auto simp: runDir_def Let_def split: sum.splits if_splits)

lemma readLock_eq: "readLock deps runId w =
    (case runDir deps runId of Inl e \<Rightarrow> (Inl e, w) | Inr dir \<Rightarrow> (lockValue (map_of (w_locks w) (lockPath dir)), w))"
  by (simp add: readLock_def io_bind_def io_simps split: sum.splits)

lemma requireToken_world: "snd (requireToken deps runId token w) = w"
  by (auto simp: requireToken_def io_bind_def readLock_eq io_simps split: sum.splits option.splits)

lemma requireToken_Inr:
  assumes "requireToken deps runId token w = (Inr l, w')"
  shows "w' = w \<and> lk_token l = token \<and> (\<exists>dir t. runDir deps runId = Inr dir
    \<and> map_of (w_locks w) (lockPath dir) = Some t \<and> text_value t = Some l)"
  using assms
  by (auto simp: requireToken_def io_bind_def readLock_eq lockValue_def io_simps
    split: sum.splits option.splits if_splits)

lemma requireToken_held:
  assumes "runDir deps runId = Inr dir" "map_of (w_locks w) (lockPath dir) = Some (Written l)"
  shows "requireToken deps runId token w = (if token = lk_token l then (Inr l, w) else (Inl (LoopError Lock
      (''loop run '' @ quoted runId @ '': mutating operation requires the current lock holder's token (''
        @ lockHolder l @ '')'')), w))"
  using assms by (simp add: requireToken_def io_bind_def readLock_eq lockValue_def io_simps)

lemma requireToken_absent:
  assumes "runDir deps runId = Inr dir" "map_of (w_locks w) (lockPath dir) = None"
  shows "requireToken deps runId token w = (Inl (LoopError Lock
      (''loop run '' @ quoted runId @ '': mutating operation requires the current lock holder's token (no holder)'')), w)"
  using assms by (simp add: requireToken_def io_bind_def readLock_eq lockValue_def io_simps)

section \<open>The interface of a token-guarded operation\<close>

text \<open>An operation on a run that checks the caller's token before anything else. Without the
  current holder's token it throws and changes nothing, and it never touches a lock.\<close>

locale guarded_operation =
  fixes deps :: LoopStoreDeps and runId :: string and op :: "string \<Rightarrow> 'a io"
  assumes guard: "requireToken deps runId token w = (Inl e, w') \<Longrightarrow> op token w = (Inl e, w')"
    and keeps_locks: "w_locks (snd (op token w)) = w_locks w"
begin

lemma refused:
  assumes "runDir deps runId = Inr dir"
    and "case map_of (w_locks w) (lockPath dir) of None \<Rightarrow> True | Some t \<Rightarrow> \<exists>l. t = Written l \<and> lk_token l \<noteq> token"
  shows "\<exists>msg. op token w = (Inl (LoopError Lock msg), w)"
proof (cases "map_of (w_locks w) (lockPath dir)")
  case None
  then show ?thesis using guard [OF requireToken_absent [OF assms(1)]] by blast
next
  case (Some t)
  with assms(2) obtain l where l: "map_of (w_locks w) (lockPath dir) = Some (Written l)" "lk_token l \<noteq> token"
    by auto
  then have "requireToken deps runId token w = (Inl (LoopError Lock
      (''loop run '' @ quoted runId @ '': mutating operation requires the current lock holder's token (''
        @ lockHolder l @ '')'')), w)"
    using requireToken_held [OF assms(1) l(1), of token] by auto
  from guard [OF this] show ?thesis by blast
qed

lemma succeeds_only_with_token:
  assumes "op token w = (Inr x, w')"
  obtains l where "requireToken deps runId token w = (Inr l, w)"
proof (cases "requireToken deps runId token w")
  case (Pair r w1)
  have w1: "w1 = w" using requireToken_world [of deps runId token w] Pair by simp
  show ?thesis
  proof (cases r)
    case (Inl e)
    then show ?thesis using guard [of token w e w1] Pair assms by simp
  next
    case (Inr l)
    then show ?thesis using that Pair w1 by blast
  qed
qed

end

lemma io_then_guard: "m w = (Inl e, w') \<Longrightarrow> io_then m k w = (Inl e, w')"
  by (simp add: io_then_def io_bind_def)

lemma io_then_locks:
  assumes "snd (m w) = w" "\<And>w. w_locks (snd (k w)) = w_locks w"
  shows "w_locks (snd (io_then m k w)) = w_locks w"
  using assms by (auto simp: io_then_def io_bind_def split: prod.splits sum.splits)

lemma dir_locks:
  "(\<And>dir w. w_locks (snd (k dir w)) = w_locks w) \<Longrightarrow> w_locks (snd (io_bind (io_lift (runDir deps runId)) k w)) = w_locks w"
  by (auto simp: io_bind_def io_lift_def split: sum.splits)

interpretation append_event: guarded_operation deps runId "\<lambda>token. appendEvent deps runId token kind data"
  for deps runId kind data
  by unfold_locales
    (auto simp: appendEvent_def appendEventUnchecked_def appendLog_eq requireToken_world
      intro!: io_then_guard io_then_locks dir_locks)

interpretation append_decision: guarded_operation deps runId "\<lambda>token. appendDecision deps runId token kind data"
  for deps runId kind data
  by unfold_locales
    (auto simp: appendDecision_def appendLog_eq requireToken_world intro!: io_then_guard io_then_locks dir_locks)

interpretation append_evidence: guarded_operation deps runId "\<lambda>token. appendActionEvidence deps runId token entry"
  for deps runId entry
  by unfold_locales
    (auto simp: appendActionEvidence_def requireToken_world intro!: io_then_guard io_then_locks dir_locks,
     auto simp: nextEvidenceSeq_def io_bind_def io_simps Let_def appendEvidenceLine_def split: option.splits)

interpretation write_supervisor: guarded_operation deps "sp_run_id proc" "writeSupervisorProcess deps proc"
  for deps proc
  by unfold_locales
    (auto simp: writeSupervisorProcess_def requireToken_world intro!: io_then_guard io_then_locks dir_locks)

interpretation write_handoff: guarded_operation deps "strVal (jprop payload ''run_id'')" "writeLoopRunHandoff deps payload"
  for deps payload
  by unfold_locales
    (auto simp: writeLoopRunHandoff_def requireToken_world Let_def writeFileAtomic_def intro!: io_then_guard io_then_locks dir_locks)


section \<open>The lock under interleaving\<close>

lemma acquireLock_eq:
  assumes "runDir deps runId = Inr dir"
  shows "acquireLock deps runId engine w =
    (let w2 = w\<lparr>w_calls := Suc (Suc (w_calls w))\<rparr>;
         rec = \<lparr>lk_engine = engine, lk_pid = de_pid deps, lk_hostname = de_hostname deps,
           lk_acquired_at = Iso (de_now deps (Suc (w_calls w))), lk_token = de_uuid deps (w_calls w), lk_run_id = runId,
           lk_starttime = (if truthy (de_getProcessStartTime deps (de_pid deps))
             then de_getProcessStartTime deps (de_pid deps) else None)\<rparr>
     in case map_of (w_locks w) (lockPath dir) of
          None \<Rightarrow> (Inr (lk_token rec, rec), w2\<lparr>w_locks := AList.update (lockPath dir) (Written rec) (w_locks w)\<rparr>)
        | Some t \<Rightarrow> (case lockValue (Some t) of Inl e \<Rightarrow> (Inl e, w2)
            | Inr existing \<Rightarrow> (Inl (LoopError Lock (''loop run '' @ quoted runId @ '' is already locked by ''
                @ (case existing of None \<Rightarrow> ''an existing holder''
                   | Some l \<Rightarrow> lockHolder l @ '' (acquired '' @ showTimestamp deps (lk_acquired_at l) @ '')''))), w2)))"
  using assms
  by (auto simp: acquireLock_def io_bind_def io_simps Let_def createFileExclusive_def readLock_eq
    split: option.splits sum.splits)

lemma acquireLock_locks:
  "map_of (w_locks w) p = Some t \<Longrightarrow> map_of (w_locks (snd (acquireLock deps runId engine w))) p = Some t"
proof (cases "runDir deps runId")
  case (Inl e)
  then show "map_of (w_locks w) p = Some t \<Longrightarrow> ?thesis"
    by (simp add: acquireLock_def io_bind_def io_simps Let_def)
next
  case (Inr dir)
  then show "map_of (w_locks w) p = Some t \<Longrightarrow> ?thesis"
    by (auto simp: acquireLock_eq Let_def update_conv' split: option.splits sum.splits)
qed

lemma remove_keeps:
  assumes "map_of (w_locks w) p = Some (Written r)" "q = p \<longrightarrow> l \<noteq> r"
  shows "map_of (w_locks (snd (removeFileIfMatches q (Written l) w))) p = Some (Written r)"
  using assms by (auto simp: removeFileIfMatches_def delete_conv')

lemma appendEventUnchecked_locks: "w_locks (snd (appendEventUnchecked deps runId kind data w)) = w_locks w"
  unfolding appendEventUnchecked_def by (rule dir_locks) (simp add: appendLog_eq)

lemma removeStaleLock_locks:
  assumes "map_of (w_locks w) p = Some (Written r)" "l \<noteq> r"
  shows "map_of (w_locks (snd (removeStaleLock deps runId reason force l w))) p = Some (Written r)"
proof (cases "runDir deps runId")
  case (Inr dir)
  have "map_of (w_locks (snd (removeFileIfMatches (lockPath dir) (Written l) w))) p = Some (Written r)"
    using assms by (intro remove_keeps) auto
  moreover have "w_locks (snd (io_then (appendEventUnchecked deps runId k d) (io_return ()) w1)) = w_locks w1" for k d w1
    using appendEventUnchecked_locks [of deps runId k d w1]
    by (auto simp: io_then_def io_bind_def io_simps split: prod.splits sum.splits)
  ultimately show ?thesis
    by (cases "removeFileIfMatches (lockPath dir) (Written l) w")
      (auto simp: removeStaleLock_def Inr io_bind_def io_lift_def io_return_def split: sum.splits)
qed (use assms in \<open>simp add: removeStaleLock_def io_bind_def io_simps\<close>)

lemma releaseLock_locks:
  assumes "map_of (w_locks w) p = Some (Written r)" "token \<noteq> lk_token r"
  shows "map_of (w_locks (snd (releaseLock deps runId token w))) p = Some (Written r)"
proof (cases "requireToken deps runId token w")
  case (Pair a w1)
  show ?thesis
  proof (cases a)
    case (Inl e)
    with Pair requireToken_world [of deps runId token w] assms(1) show ?thesis
      by (simp add: releaseLock_def io_bind_def)
  next
    case (Inr l)
    note h = requireToken_Inr [OF Pair [unfolded Inr]]
    then obtain d t where d: "runDir deps runId = Inr d" "map_of (w_locks w) (lockPath d) = Some t" "text_value t = Some l"
      by blast
    have "l \<noteq> r" using h assms(2) by auto
    then show ?thesis
      using remove_keeps [OF assms(1), of "lockPath d" l] Pair Inr h d(1)
      by (auto simp: releaseLock_def io_bind_def io_simps split: prod.splits sum.splits)
  qed
qed

text \<open>What the other processes, and the holder itself short of a release, may do to the lock file
  \<open>p\<close> that holds \<open>r\<close>: try to acquire any lock, release with another token, recover without force
  where \<open>r\<close> is not verifiably stale, finish a removal (forced or not) decided on an earlier
  record, and every guarded operation with any token.\<close>

inductive foreign_step :: "path \<Rightarrow> LoopLockRecord \<Rightarrow> World \<Rightarrow> World \<Rightarrow> bool" for p r where
  acquire: "foreign_step p r w (snd (acquireLock deps runId engine w))"
| release: "token \<noteq> lk_token r \<Longrightarrow> foreign_step p r w (snd (releaseLock deps runId token w))"
| recover: "classifyStaleness deps r \<noteq> StaleSameHostDeadPid
    \<Longrightarrow> foreign_step p r w (snd (recoverLock deps runId reason False w))"
| late_removal: "l \<noteq> r \<Longrightarrow> foreign_step p r w (snd (removeStaleLock deps runId reason force l w))"
| event: "foreign_step p r w (snd (appendEvent deps runId token kind data w))"
| decision: "foreign_step p r w (snd (appendDecision deps runId token kind data w))"
| evidence: "foreign_step p r w (snd (appendActionEvidence deps runId token entry w))"
| supervisor: "foreign_step p r w (snd (writeSupervisorProcess deps proc token w))"
| handoff: "foreign_step p r w (snd (writeLoopRunHandoff deps payload token w))"

lemma recoverLock_locks:
  assumes "map_of (w_locks w) p = Some (Written r)" "classifyStaleness deps r \<noteq> StaleSameHostDeadPid"
  shows "map_of (w_locks (snd (recoverLock deps runId reason False w))) p = Some (Written r)"
proof (cases "observeStaleLock deps runId False w")
  case (Pair a w1)
  have w1: "w1 = w"
    using Pair by (auto simp: observeStaleLock_def io_bind_def readLock_eq io_simps split: sum.splits option.splits if_splits)
  have "l \<noteq> r" if "a = Inr (Some l)" for l
    using Pair that assms(2)
    by (auto simp: observeStaleLock_def io_bind_def readLock_eq io_simps split: sum.splits option.splits if_splits)
  then show ?thesis
    using removeStaleLock_locks [OF assms(1)] Pair w1 assms(1)
    by (auto simp: recoverLock_def io_bind_def io_simps split: sum.splits option.splits)
qed

lemma foreign_step_keeps:
  assumes "foreign_step p r w w'" "map_of (w_locks w) p = Some (Written r)"
  shows "map_of (w_locks w') p = Some (Written r)"
  using assms
  by (cases rule: foreign_step.cases)
    (simp_all add: acquireLock_locks releaseLock_locks recoverLock_locks removeStaleLock_locks append_event.keeps_locks
      append_decision.keeps_locks append_evidence.keeps_locks write_supervisor.keeps_locks write_handoff.keeps_locks)

lemma foreign_steps_keep:
  "(foreign_step p r)\<^sup>*\<^sup>* w w' \<Longrightarrow> map_of (w_locks w) p = Some (Written r) \<Longrightarrow> map_of (w_locks w') p = Some (Written r)"
  by (induction rule: rtranclp_induct) (auto intro: foreign_step_keeps)

text \<open>Under the contract of the seam the lock is exclusive: once a process holds a run's lock, whatever other
  processes do (acquire, release with other tokens, recover without force where the holder is not verifiably
  stale, finish a late removal decided on an earlier lock, mutate logs and documents) the lock file
  still names the holder; only the holder's token passes the guard, a second acquisition is refused
  with a lock failure, and an event under any other token is refused without changing the world.\<close>

lemma lock_exclusive_by_contract:
  assumes "runDir deps runId = Inr dir"
    and "acquireLock deps0 runId engine0 w0 = (Inr (token, r), w)" "runDir deps0 runId = Inr dir"
    and "(foreign_step (lockPath dir) r)\<^sup>*\<^sup>* w w'"
  shows "(\<forall>t. requireToken deps runId t w' = (Inr r, w') \<longleftrightarrow> t = token)
    \<and> (\<exists>msg. fst (acquireLock deps runId engine w') = Inl (LoopError Lock msg))
    \<and> (\<forall>t kind data. t = token \<or> (\<exists>msg. appendEvent deps runId t kind data w' = (Inl (LoopError Lock msg), w')))"
proof -
  have r: "lk_token r = token" "map_of (w_locks w) (lockPath dir) = Some (Written r)"
    using assms(2,3) by (auto simp: acquireLock_eq Let_def update_conv' split: option.splits sum.splits)
  have held: "map_of (w_locks w') (lockPath dir) = Some (Written r)"
    using foreign_steps_keep [OF assms(4) r(2)] .
  have "\<exists>msg. fst (acquireLock deps runId engine w') = Inl (LoopError Lock msg)"
    using held by (simp add: acquireLock_eq [OF assms(1)] Let_def lockValue_def)
  moreover have "\<exists>msg. appendEvent deps runId t kind data w' = (Inl (LoopError Lock msg), w')" if "t \<noteq> token" for t kind data
    by (rule append_event.refused [OF assms(1)]) (use held that r(1) in auto)
  ultimately show ?thesis using requireToken_held [OF assms(1) held] r(1) by auto
qed


text \<open>Two engines on one host for the examples.\<close>

definition exampleDeps :: "int \<Rightarrow> LoopStoreDeps" where
  "exampleDeps pid = \<lparr>de_env = [(''AGENT_PIPELINE_STATE_HOME'', ''/s'')], de_resolve = (\<lambda>p. p), de_homedir = ''/h'',
     de_hostname = ''host'', de_pid = pid, de_isPidAlive = (\<lambda>p. p \<in> {1, 2}), de_getProcessStartTime = (\<lambda>_. None),
     de_now = int, de_uuid = show_nat, de_toISOString = show_int, de_dateParse = (\<lambda>_. None), de_sha256 = (\<lambda>s. s)\<rparr>"

definition emptyWorld :: World where
  "emptyWorld = \<lparr>w_docs = [], w_locks = [], w_supervisors = [], w_logs = [], w_evidence = [], w_seqCache = [], w_calls = 0\<rparr>"

lemma example_runDir: "runDir (exampleDeps pid) ''r'' = Inr ''/s/runs/r''"
  by code_simp

section \<open>Logs\<close>

text \<open>A log whose lines are the events \<open>es\<close>, numbered densely from zero.\<close>

definition denseLog :: "path \<Rightarrow> LoopEvent list \<Rightarrow> World \<Rightarrow> bool" where
  "denseLog p es w \<longleftrightarrow> orElse (map_of (w_logs w) p) [] = map Written es \<and> map ev_seq es = [0..<length es]"

text \<open>A process's cache agrees with the log: it has not appended yet, or nobody else has since.\<close>

definition cacheFresh :: "int \<Rightarrow> path \<Rightarrow> World \<Rightarrow> bool" where
  "cacheFresh pid p w \<longleftrightarrow> seqFor pid p w = lineCount (map_of (w_logs w) p)"

definition appendAll :: "LoopStoreDeps \<Rightarrow> path \<Rightarrow> (string \<times> LogData) list \<Rightarrow> World \<Rightarrow> World" where
  "appendAll deps p entries w = fold (\<lambda>(kind, data) w. snd (appendLog deps p kind data w)) entries w"

lemma lineCount_Written [simp]: "orElse ls [] = map Written es \<Longrightarrow> lineCount ls = length es"
  by (simp add: lineCount_def filter_map comp_def)

lemma parseLines_Written [simp]: "parseLines (map Written es) = Inr es"
  by (induction es) auto

lemma appendLog_dense:
  assumes "denseLog p es w" "cacheFresh (de_pid deps) p w"
  shows "denseLog p (es @ [appendedEvent deps p kind data w]) (snd (appendLog deps p kind data w))
    \<and> cacheFresh (de_pid deps) p (snd (appendLog deps p kind data w))"
proof -
  have n: "seqFor (de_pid deps) p w = length es"
    using assms by (simp add: denseLog_def cacheFresh_def)
  then have "ev_seq (appendedEvent deps p kind data w) = length es" by (simp add: appendedEvent_def)
  with n assms(1) show ?thesis
    by (auto simp: appendLog_eq denseLog_def cacheFresh_def seqFor_def update_conv' lineCount_def filter_map comp_def)
qed

lemma appendAll_dense:
  assumes "denseLog p es w" "cacheFresh (de_pid deps) p w"
  shows "\<exists>new. denseLog p (es @ new) (appendAll deps p entries w) \<and> map (\<lambda>e. (ev_kind e, ev_data e)) new = entries"
  using assms
proof (induction entries arbitrary: es w)
  case (Cons x entries)
  obtain kind data where x: "x = (kind, data)" by (cases x)
  let ?e = "appendedEvent deps p kind data w"
  from Cons.IH appendLog_dense [OF Cons.prems] obtain new where
    "denseLog p ((es @ [?e]) @ new) (appendAll deps p entries (snd (appendLog deps p kind data w)))"
    "map (\<lambda>e. (ev_kind e, ev_data e)) new = entries" by blast
  then show ?case by (intro exI [of _ "?e # new"]) (simp add: x appendAll_def appendedEvent_def)
qed (simp add: appendAll_def)

text \<open>C22: a run's log is append-only, dense and monotonic while one process writes it: starting from a densely numbered log and
  a process whose cached number agrees with it, any sequence of appends keeps every earlier line,
  adds the appended entries in order, numbers all lines 0, 1, 2, ... without gap or repetition, and
  reading the log back gives exactly these events.\<close>

theorem append_log_dense:
  assumes "denseLog p es w" "cacheFresh (de_pid deps) p w"
  shows "\<exists>new. fst (readLog p (appendAll deps p entries w)) = Inr (es @ new)
    \<and> map ev_seq (es @ new) = [0..<length es + length entries]
    \<and> map (\<lambda>e. (ev_kind e, ev_data e)) new = entries"
proof -
  obtain new where new: "denseLog p (es @ new) (appendAll deps p entries w)" "map (\<lambda>e. (ev_kind e, ev_data e)) new = entries"
    using appendAll_dense [OF assms] by blast
  then have "length new = length entries" by (metis length_map)
  moreover have "fst (readLog p (appendAll deps p entries w)) = Inr (es @ new)"
    using new(1) unfolding denseLog_def readLog_def by (metis fst_conv parseLines_Written)
  ultimately show ?thesis using new by (intro exI [of _ new]) (simp add: denseLog_def)
qed

theorem append_log_dense_witness:
  "\<exists>new. fst (readLog (''/s/runs/r'', ''events.jsonl'')
      (appendAll (exampleDeps 1) (''/s/runs/r'', ''events.jsonl'') [(''a'', DataObj JNull), (''b'', DataObj JNull)] emptyWorld))
      = Inr ([] @ new) \<and> map ev_seq ([] @ new) = [0, 1]"
proof -
  have "denseLog p [] emptyWorld" "cacheFresh (de_pid (exampleDeps 1)) p emptyWorld" for p
    by (simp_all add: denseLog_def cacheFresh_def seqFor_def emptyWorld_def)
  from append_log_dense [OF this, of "(''/s/runs/r'', ''events.jsonl'')" "[(''a'', DataObj JNull), (''b'', DataObj JNull)]"]
  show ?thesis by (auto simp: upt_rec)
qed

text \<open>A turn of an engine on a run: it acquires the lock, appends events under its token and releases the
  lock.\<close>

fun appendEvents :: "LoopStoreDeps \<Rightarrow> string \<Rightarrow> string \<Rightarrow> (string \<times> LogData) list \<Rightarrow> unit io" where
  "appendEvents deps runId token [] = io_return ()"
| "appendEvents deps runId token ((kind, data) # entries) =
     io_then (appendEvent deps runId token kind data) (appendEvents deps runId token entries)"

definition lockedTurn :: "LoopStoreDeps \<Rightarrow> string \<Rightarrow> LoopEngineName \<Rightarrow> (string \<times> LogData) list \<Rightarrow> unit io" where
  "lockedTurn deps runId engine entries =
     io_bind (acquireLock deps runId engine) (\<lambda>(token, lock).
     io_then (appendEvents deps runId token entries) (releaseLock deps runId token))"

text \<open>What the appends of a process do to a log and to the caches: its numbers go on from its own cache.\<close>

definition appended_by :: "int \<Rightarrow> path \<Rightarrow> (string \<times> LogData) list \<Rightarrow> World \<Rightarrow> World \<Rightarrow> bool" where
  "appended_by pid p entries w w' \<longleftrightarrow> (\<exists>new. orElse (map_of (w_logs w') p) [] = orElse (map_of (w_logs w) p) [] @ map Written new
       \<and> map (\<lambda>e. (ev_kind e, ev_data e)) new = entries
       \<and> map ev_seq new = [seqFor pid p w..<seqFor pid p w + length entries])
     \<and> (if entries = [] then map_of (w_seqCache w') = map_of (w_seqCache w)
        else map_of (w_seqCache w') = (map_of (w_seqCache w))((pid, p) \<mapsto> seqFor pid p w + length entries))"

lemma appended_by_cong:
  "w_logs w1 = w_logs w \<Longrightarrow> w_seqCache w1 = w_seqCache w \<Longrightarrow> w_logs w2 = w_logs w' \<Longrightarrow> w_seqCache w2 = w_seqCache w'
    \<Longrightarrow> appended_by pid p entries w1 w2 = appended_by pid p entries w w'"
  by (simp only: appended_by_def seqFor_def)

lemma appendEvents_run:
  assumes "runDir deps runId = Inr dir" "map_of (w_locks w) (lockPath dir) = Some (Written l)" "lk_token l = token"
  shows "\<exists>w'. appendEvents deps runId token entries w = (Inr (), w') \<and> w_locks w' = w_locks w
    \<and> appended_by (de_pid deps) (eventsPath dir) entries w w'"
  using assms(2)
proof (induction entries arbitrary: w)
  case Nil
  then show ?case by (simp add: io_simps appended_by_def)
next
  case (Cons x entries)
  obtain kind data where x: "x = (kind, data)" by (cases x)
  let ?p = "eventsPath dir" and ?n = "seqFor (de_pid deps) (eventsPath dir) w"
  define e where "e = appendedEvent deps ?p kind data w"
  define w1 where "w1 = snd (appendLog deps ?p kind data w)"
  have app: "appendEvent deps runId token kind data w = (Inr e, w1)"
    using requireToken_held [OF assms(1) Cons.prems, of token] assms(1,3)
    by (simp add: appendEvent_def appendEventUnchecked_def io_then_def io_bind_def io_lift_def appendLog_eq e_def w1_def)
  have w1: "w_locks w1 = w_locks w" "orElse (map_of (w_logs w1) ?p) [] = orElse (map_of (w_logs w) ?p) [] @ [Written e]"
    "map_of (w_seqCache w1) = (map_of (w_seqCache w))((de_pid deps, ?p) \<mapsto> Suc ?n)" "seqFor (de_pid deps) ?p w1 = Suc ?n"
    by (simp_all add: w1_def appendLog_eq e_def update_conv' seqFor_def)
  obtain w' where w': "appendEvents deps runId token entries w1 = (Inr (), w')" "w_locks w' = w_locks w1"
    "appended_by (de_pid deps) ?p entries w1 w'"
    using Cons.IH [of w1] Cons.prems w1(1) by auto
  then obtain new where new: "orElse (map_of (w_logs w') ?p) [] = orElse (map_of (w_logs w1) ?p) [] @ map Written new"
    "map (\<lambda>e. (ev_kind e, ev_data e)) new = entries" "map ev_seq new = [Suc ?n..<Suc ?n + length entries]"
    unfolding appended_by_def w1(4) by blast
  have "appended_by (de_pid deps) ?p (x # entries) w w'"
    unfolding appended_by_def
  proof (intro conjI exI [of _ "e # new"])
    show "map ev_seq (e # new) = [?n..<?n + length (x # entries)]"
      using new(3) upt_conv_Cons [of ?n "?n + length (x # entries)"] by (simp add: e_def appendedEvent_def del: upt_Suc)
    show "if x # entries = [] then map_of (w_seqCache w') = map_of (w_seqCache w)
        else map_of (w_seqCache w') = (map_of (w_seqCache w))((de_pid deps, ?p) \<mapsto> ?n + length (x # entries))"
      using w'(3) w1(3,4) by (simp add: appended_by_def split: if_splits)
  qed (use new w1(2) x in \<open>simp_all add: e_def appendedEvent_def\<close>)
  moreover have "appendEvents deps runId token (x # entries) w = (Inr (), w')"
    using app w'(1) by (simp add: x io_then_def io_bind_def)
  ultimately show ?case using w'(2) w1(1) by auto
qed

lemma lockedTurn_run:
  assumes dir: "runDir deps runId = Inr dir" and free: "map_of (w_locks w) (lockPath dir) = None"
  shows "\<exists>w'. lockedTurn deps runId engine entries w = (Inr (), w') \<and> map_of (w_locks w') (lockPath dir) = None
    \<and> appended_by (de_pid deps) (eventsPath dir) entries w w'"
proof -
  have "\<exists>token l w1. acquireLock deps runId engine w = (Inr (token, l), w1) \<and> lk_token l = token
      \<and> map_of (w_locks w1) (lockPath dir) = Some (Written l) \<and> w_logs w1 = w_logs w \<and> w_seqCache w1 = w_seqCache w"
    unfolding acquireLock_eq [OF dir] Let_def free option.case by (intro exI conjI, rule refl) (simp_all add: update_conv')
  then obtain token l w1 where acq: "acquireLock deps runId engine w = (Inr (token, l), w1)" "lk_token l = token"
    "map_of (w_locks w1) (lockPath dir) = Some (Written l)" "w_logs w1 = w_logs w" "w_seqCache w1 = w_seqCache w" by blast
  obtain w2 where app: "appendEvents deps runId token entries w1 = (Inr (), w2)" "w_locks w2 = w_locks w1"
    "appended_by (de_pid deps) (eventsPath dir) entries w1 w2"
    using appendEvents_run [OF dir acq(3,2)] by blast
  have held: "map_of (w_locks w2) (lockPath dir) = Some (Written l)" using acq(3) app(2) by simp
  then have rel: "releaseLock deps runId token w2 = (Inr (), w2\<lparr>w_locks := AList.delete (lockPath dir) (w_locks w2)\<rparr>)"
    using requireToken_held [OF dir held, of token] acq(2) dir
    by (simp add: releaseLock_def io_bind_def io_lift_def removeFileIfMatches_def io_return_def)
  have "lockedTurn deps runId engine entries w = (Inr (), w2\<lparr>w_locks := AList.delete (lockPath dir) (w_locks w2)\<rparr>)"
    using acq(1) app(1) rel by (simp add: lockedTurn_def io_then_def io_bind_def)
  moreover have "appended_by (de_pid deps) (eventsPath dir) entries w (w2\<lparr>w_locks := AList.delete (lockPath dir) (w_locks w2)\<rparr>)"
    using app(3) appended_by_cong [OF acq(4,5)] by (simp add: appended_by_def)
  ultimately show ?thesis by (intro exI [of _ "w2\<lparr>w_locks := AList.delete (lockPath dir) (w_locks w2)\<rparr>"]) (simp add: delete_conv')
qed

text \<open>C23: the sequence cache of a process is not invalidated when it hands the lock over. Take any run whose log
  is dense and whose lock is free, a process whose cached number agrees with the log, and another process that
  has not appended yet. When they take three turns, each acquiring the lock, appending any events (at least
  one) and releasing the lock, then every call succeeds, all events are in the log in order, the events of
  the first two turns continue the numbering, but those of the third turn are numbered from where the
  first turn ended: the log, meant to be dense, holds sequence numbers twice.\<close>

theorem sequence_cache_stale_after_handover:
  assumes dir: "runDir d1 runId = Inr dir" "runDir d2 runId = Inr dir" and pids: "de_pid d1 \<noteq> de_pid d2"
    and free: "map_of (w_locks w) (lockPath dir) = None" and log: "denseLog (eventsPath dir) es w"
    and cache: "cacheFresh (de_pid d1) (eventsPath dir) w" "map_of (w_seqCache w) (de_pid d2, eventsPath dir) = None"
    and turns: "xs \<noteq> []" "ys \<noteq> []" "zs \<noteq> []"
  shows "\<exists>w' new. io_then (lockedTurn d1 runId engine1 xs) (io_then (lockedTurn d2 runId engine2 ys) (lockedTurn d1 runId engine1 zs)) w = (Inr (), w')
    \<and> fst (readEvents d1 runId w') = Inr (es @ new) \<and> map (\<lambda>e. (ev_kind e, ev_data e)) new = xs @ ys @ zs
    \<and> map ev_seq (es @ new) = [0..<length es + length xs + length ys] @ [length es + length xs..<length es + length xs + length zs]
    \<and> \<not> distinct (map ev_seq (es @ new))"
proof -
  let ?p = "eventsPath dir" and ?n = "length es"
  have es: "orElse (map_of (w_logs w) ?p) [] = map Written es" "map ev_seq es = [0..<?n]" using log by (simp_all add: denseLog_def)
  have s0: "seqFor (de_pid d1) ?p w = ?n" using cache(1) es(1) by (simp add: cacheFresh_def)
  obtain w1 where w1: "lockedTurn d1 runId engine1 xs w = (Inr (), w1)" "map_of (w_locks w1) (lockPath dir) = None" "appended_by (de_pid d1) ?p xs w w1"
    using lockedTurn_run [OF dir(1) free] by blast
  obtain a where a: "orElse (map_of (w_logs w1) ?p) [] = map Written (es @ a)" "map (\<lambda>e. (ev_kind e, ev_data e)) a = xs" "map ev_seq a = [?n..<?n + length xs]"
    and c1: "map_of (w_seqCache w1) = (map_of (w_seqCache w))((de_pid d1, ?p) \<mapsto> ?n + length xs)"
    using w1(3) es(1) turns(1) unfolding appended_by_def s0 by auto
  have la: "length a = length xs" using a(2) by (metis length_map)
  have s1: "seqFor (de_pid d2) ?p w1 = ?n + length xs"
    using cache(2) pids c1 lineCount_Written [OF a(1)] la by (simp add: seqFor_def)
  obtain w2 where w2: "lockedTurn d2 runId engine2 ys w1 = (Inr (), w2)" "map_of (w_locks w2) (lockPath dir) = None" "appended_by (de_pid d2) ?p ys w1 w2"
    using lockedTurn_run [OF dir(2) w1(2)] by blast
  obtain b where b: "orElse (map_of (w_logs w2) ?p) [] = map Written ((es @ a) @ b)" "map (\<lambda>e. (ev_kind e, ev_data e)) b = ys"
      "map ev_seq b = [?n + length xs..<?n + length xs + length ys]"
    and c2: "map_of (w_seqCache w2) = (map_of (w_seqCache w1))((de_pid d2, ?p) \<mapsto> ?n + length xs + length ys)"
    using w2(3) a(1) turns(2) unfolding appended_by_def s1 by auto
  have s2: "seqFor (de_pid d1) ?p w2 = ?n + length xs" using c1 c2 pids by (simp add: seqFor_def)
  obtain w3 where w3: "lockedTurn d1 runId engine1 zs w2 = (Inr (), w3)" "appended_by (de_pid d1) ?p zs w2 w3"
    using lockedTurn_run [OF dir(1) w2(2)] by blast
  obtain c where c: "orElse (map_of (w_logs w3) ?p) [] = map Written (((es @ a) @ b) @ c)" "map (\<lambda>e. (ev_kind e, ev_data e)) c = zs"
      "map ev_seq c = [?n + length xs..<?n + length xs + length zs]"
    using w3(2) b(1) unfolding appended_by_def s2 by auto
  have "parseLines (orElse (map_of (w_logs w3) ?p) []) = Inr (es @ a @ b @ c)" unfolding c(1) parseLines_Written by simp
  then have read: "fst (readEvents d1 runId w3) = Inr (es @ a @ b @ c)" using dir(1)
    by (simp add: readEvents_def readLog_def io_bind_def io_lift_def)
  have "[0..<?n] @ [?n..<?n + length xs] @ [?n + length xs..<?n + length xs + length ys] = [0..<?n + length xs + length ys]"
    using upt_add_eq_append [of 0 "?n + length xs" "length ys"] upt_add_eq_append [of 0 ?n "length xs"] by simp
  then have nums: "map ev_seq (es @ a @ b @ c) = [0..<?n + length xs + length ys] @ [?n + length xs..<?n + length xs + length zs]"
    using es(2) a(3) b(3) c(3) by (metis append.assoc map_append)
  have "?n + length xs \<in> set [0..<?n + length xs + length ys] \<inter> set [?n + length xs..<?n + length xs + length zs]"
    using turns(2,3) by (cases ys; cases zs) auto
  then have "\<not> distinct (map ev_seq (es @ a @ b @ c))" unfolding nums distinct_append by blast
  with read nums a(2) b(2) c(2) w1(1) w2(1) w3(1) show ?thesis
    by (intro exI [of _ w3] exI [of _ "a @ b @ c"]) (simp add: io_then_def io_bind_def)
qed

theorem sequence_cache_stale_after_handover_witness:
  "\<exists>w' new. fst (readEvents (exampleDeps 1) ''r'' w') = Inr ([] @ new) \<and> map ev_seq ([] @ new) = [0, 1, 1]"
proof -
  let ?x = "[(''a'', DataObj JNull)]"
  have "map_of (w_locks emptyWorld) (lockPath ''/s/runs/r'') = None" "denseLog (eventsPath ''/s/runs/r'') [] emptyWorld"
    "cacheFresh (de_pid (exampleDeps 1)) (eventsPath ''/s/runs/r'') emptyWorld"
    "map_of (w_seqCache emptyWorld) (de_pid (exampleDeps 2), eventsPath ''/s/runs/r'') = None"
    "de_pid (exampleDeps 1) \<noteq> de_pid (exampleDeps 2)"
    by (simp_all add: emptyWorld_def denseLog_def cacheFresh_def seqFor_def exampleDeps_def)
  from sequence_cache_stale_after_handover [OF example_runDir example_runDir this(5,1-4), of ?x ?x ?x Claude Codex, OF list.distinct(2) list.distinct(2) list.distinct(2)]
  obtain w' new where "fst (readEvents (exampleDeps 1) ''r'' w') = Inr ([] @ new)"
    "map ev_seq ([] @ new) = [0..<length ([] :: LoopEvent list) + length ?x + length ?x] @ [length ([] :: LoopEvent list) + length ?x..<length ([] :: LoopEvent list) + length ?x + length ?x]"
    by blast
  moreover have "[0..<length ([] :: LoopEvent list) + length ?x + length ?x] @ [length ([] :: LoopEvent list) + length ?x..<length ([] :: LoopEvent list) + length ?x + length ?x] = [0, 1, 1]"
    by (simp add: upt_rec)
  ultimately show ?thesis by metis
qed

lemma js_startsWith_append [simp]: "js_startsWith (p @ s) p"
  by (induction p) auto

lemma safeRunIdChar_no_slash: "safeRunIdChar c \<Longrightarrow> c \<noteq> CHR ''/''"
  by (auto simp: safeRunIdChar_def Let_def)

text \<open>A run id never escapes the runs root: a run directory is accepted exactly for a non-empty id over letters, digits,
  dot, underscore and hyphen without a double dot and different from a single dot, and it is then the
  direct child of the runs root named by the id, which contains no path separator; any other id is a
  validation failure.\<close>

lemma run_dir_confined:
  "case runDir deps runId of
     Inr dir \<Rightarrow> dir = joinPath (resolveStateHome deps) ''runs'' @ ''/'' @ runId
       \<and> runId \<noteq> [] \<and> CHR ''/'' \<notin> set runId \<and> \<not> js_includes runId ''..'' \<and> runId \<noteq> ''.''
   | Inl e \<Rightarrow> loopFailureClass e = Validation \<and> e \<noteq> JsError (message e)
       \<and> \<not> (SAFE_RUN_ID runId \<and> \<not> js_includes runId ''..'' \<and> runId \<noteq> ''.'')"
proof -
  let ?root = "joinPath (resolveStateHome deps) ''runs''"
  have "?root \<noteq> ''/''" by (auto simp: joinPath_def append_eq_Cons_conv)
  then have j: "joinPath ?root runId = ?root @ ''/'' @ runId" by (simp add: joinPath_def)
  have "js_startsWith ((?root @ ''/'' @ runId) @ ''/'') (?root @ ''/'')"
    using js_startsWith_append [of "?root @ ''/''" "runId @ ''/''"] by simp
  moreover have "CHR ''/'' \<notin> set runId" if "SAFE_RUN_ID runId"
    using that safeRunIdChar_no_slash by (auto simp: SAFE_RUN_ID_def list_all_iff)
  moreover have "js_includes ''..'' ''..''" by simp
  ultimately show ?thesis
    by (auto simp: runDir_def assertSafeRunId_def Let_def j SAFE_RUN_ID_def)
qed

end
