(* ===== verification/Lock_Files.thy ===== *)
theory Lock_Files
  imports Store_Base
begin

text \<open>
  The lock primitives as \<open>defaultLoopStoreDeps\<close> of \<open>core/scripts/loop/store.ts\<close> implements them on the file
  system. \<open>Store_Base\<close> uses the contract of the seam, under which both are atomic; here every system call is a step
  of its own and the calls of any number of processes interleave. \<open>createFileExclusive\<close> opens the file
  exclusively and writes it afterwards; \<open>removeFileIfMatches\<close> renames the file to a claim of its own, reads it,
  and removes the claim or links it back. A file is an inode that several names can share, so that a write
  through an open handle reaches the file wherever it has been renamed to. The theorem says what the lock of a
  holder is worth against removals that expect another record; a lemma shows the run in which it is lost.
\<close>

section \<open>Inodes, claims and calls\<close>

text \<open>The lock file's name, the claim names, the contents by inode, and the next unused number, from which inodes
  and claim names (\<open>crypto.randomUUID\<close>) are taken.\<close>

record LockDir =
  ld_lock :: "nat option"
  ld_claims :: "(nat \<times> nat) list"
  ld_text :: "nat \<Rightarrow> LoopLockRecord doc_text"
  ld_next :: nat

datatype FsCall =
    CreateOpen LoopLockRecord
  | CreateWrite nat LoopLockRecord
  | Created nat LoopLockRecord
  | CreateRefused
  | RemoveRename LoopLockRecord
  | RemoveRead LoopLockRecord nat
  | RemoveLink nat
  | RemoveDiscard nat bool
  | RemoveDone bool

definition emptyText :: "LoopLockRecord doc_text" where
  "emptyText = Foreign [] None"

text \<open>\<open>createFileExclusive\<close>: \<open>open(p, "wx")\<close> creates an empty file or fails with \<open>EEXIST\<close>; the write follows.\<close>

fun createStep :: "FsCall \<Rightarrow> LockDir \<Rightarrow> FsCall \<times> LockDir" where
  "createStep (CreateOpen r) d =
     (case ld_lock d of
        Some _ \<Rightarrow> (CreateRefused, d)
      | None \<Rightarrow> (CreateWrite (ld_next d) r,
          d\<lparr>ld_lock := Some (ld_next d), ld_text := (ld_text d)(ld_next d := emptyText), ld_next := Suc (ld_next d)\<rparr>))"
| "createStep (CreateWrite i r) d = (Created i r, d\<lparr>ld_text := (ld_text d)(i := Written r)\<rparr>)"
| "createStep call d = (call, d)"

text \<open>\<open>removeFileIfMatches\<close>: rename to a claim (\<open>ENOENT\<close>: false), read and compare, then remove the claim, or
  link it back (\<open>EEXIST\<close> is ignored) and remove it.\<close>

fun removeStep :: "FsCall \<Rightarrow> LockDir \<Rightarrow> FsCall \<times> LockDir" where
  "removeStep (RemoveRename expected) d =
     (case ld_lock d of
        None \<Rightarrow> (RemoveDone False, d)
      | Some i \<Rightarrow> (RemoveRead expected (ld_next d),
          d\<lparr>ld_lock := None, ld_claims := (ld_next d, i) # ld_claims d, ld_next := Suc (ld_next d)\<rparr>))"
| "removeStep (RemoveRead expected c) d =
     (if map_option (ld_text d) (map_of (ld_claims d) c) = Some (Written expected)
      then (RemoveDiscard c True, d) else (RemoveLink c, d))"
| "removeStep (RemoveLink c) d =
     (RemoveDiscard c False,
      case ld_lock d of None \<Rightarrow> d\<lparr>ld_lock := map_of (ld_claims d) c\<rparr> | Some _ \<Rightarrow> d)"
| "removeStep (RemoveDiscard c removed) d = (RemoveDone removed, d\<lparr>ld_claims := AList.delete c (ld_claims d)\<rparr>)"
| "removeStep call d = (call, d)"

definition callStep :: "FsCall \<Rightarrow> LockDir \<Rightarrow> FsCall \<times> LockDir" where
  "callStep call d = (case call of
      CreateOpen _ \<Rightarrow> createStep call d | CreateWrite _ _ \<Rightarrow> createStep call d | _ \<Rightarrow> removeStep call d)"

text \<open>The calls of all processes on one lock file. A new call can begin at any time; a removal begins with a
  record that satisfies \<open>ok\<close>.\<close>

inductive fs_step :: "(LoopLockRecord \<Rightarrow> bool) \<Rightarrow> FsCall list \<times> LockDir \<Rightarrow> FsCall list \<times> LockDir \<Rightarrow> bool" for ok where
  begin_create: "fs_step ok (calls, d) (calls @ [CreateOpen r], d)"
| begin_remove: "ok e \<Longrightarrow> fs_step ok (calls, d) (calls @ [RemoveRename e], d)"
| go_on: "k < length calls \<Longrightarrow> callStep (calls ! k) d = (call, d') \<Longrightarrow> fs_step ok (calls, d) (calls[k := call], d')"

inductive_cases fs_stepE: "fs_step ok (calls, d) s"

section \<open>What a held lock is worth\<close>

text \<open>A removal between its rename and its link carries the inode it has claimed.\<close>

fun carriedBy :: "FsCall \<Rightarrow> nat option" where
  "carriedBy (RemoveRead e c) = Some c"
| "carriedBy (RemoveLink c) = Some c"
| "carriedBy call = None"

definition carried :: "nat \<Rightarrow> FsCall list \<times> LockDir \<Rightarrow> bool" where
  "carried i s \<longleftrightarrow> (\<exists>call \<in> set (fst s). \<exists>c. carriedBy call = Some c \<and> map_of (ld_claims (snd s)) c = Some i)"

text \<open>The lock file is the holder's, or a removal has it and nobody else has put another one in its place.\<close>

definition kept_for :: "nat \<Rightarrow> LoopLockRecord \<Rightarrow> FsCall list \<times> LockDir \<Rightarrow> bool" where
  "kept_for i r s \<longleftrightarrow> ld_text (snd s) i = Written r
     \<and> (ld_lock (snd s) = Some i \<or> ld_lock (snd s) = None \<and> carried i s)"

text \<open>Another call opens the lock file while a removal carries the holder's.\<close>

definition opened_in_window :: "nat \<Rightarrow> FsCall list \<times> LockDir \<Rightarrow> FsCall list \<times> LockDir \<Rightarrow> bool" where
  "opened_in_window i s s' \<longleftrightarrow> carried i s \<and> (\<exists>k r call d. k < length (fst s) \<and> fst s ! k = CreateOpen r
     \<and> callStep (CreateOpen r) (snd s) = (call, d) \<and> call \<noteq> CreateRefused \<and> s' = ((fst s)[k := call], d))"

text \<open>The calls that may be under way when the holder's acquisition has returned: none of them carries a file,
  writes to the holder's, or expects the holder's record.\<close>

fun harmless :: "nat \<Rightarrow> LoopLockRecord \<Rightarrow> FsCall \<Rightarrow> bool" where
  "harmless i r (RemoveRename e) \<longleftrightarrow> e \<noteq> r"
| "harmless i r (RemoveRead e c) \<longleftrightarrow> False"
| "harmless i r (RemoveLink c) \<longleftrightarrow> False"
| "harmless i r (CreateWrite j q) \<longleftrightarrow> j \<noteq> i"
| "harmless i r call \<longleftrightarrow> True"

fun claimOf :: "FsCall \<Rightarrow> nat list" where
  "claimOf (RemoveRead e c) = [c]"
| "claimOf (RemoveLink c) = [c]"
| "claimOf (RemoveDiscard c b) = [c]"
| "claimOf call = []"

definition claimsOf :: "FsCall list \<Rightarrow> nat list" where
  "claimsOf calls = concat (map claimOf calls)"

text \<open>Inodes and claim names are below the next unused number, and every call has its own claim.\<close>

definition fs_wf :: "FsCall list \<times> LockDir \<Rightarrow> bool" where
  "fs_wf s \<longleftrightarrow> distinct (claimsOf (fst s)) \<and> (\<forall>c \<in> set (claimsOf (fst s)). c < ld_next (snd s))
     \<and> (\<forall>i. ld_lock (snd s) = Some i \<longrightarrow> i < ld_next (snd s))"

fun guarded_call :: "nat \<Rightarrow> LoopLockRecord \<Rightarrow> LockDir \<Rightarrow> FsCall \<Rightarrow> bool" where
  "guarded_call i r d (RemoveRename e) \<longleftrightarrow> e \<noteq> r"
| "guarded_call i r d (RemoveRead e c) \<longleftrightarrow> e \<noteq> r \<and> map_of (ld_claims d) c = Some i"
| "guarded_call i r d (RemoveLink c) \<longleftrightarrow> map_of (ld_claims d) c = Some i"
| "guarded_call i r d (CreateWrite j q) \<longleftrightarrow> j \<noteq> i"
| "guarded_call i r d call \<longleftrightarrow> True"

definition holder_inv :: "nat \<Rightarrow> LoopLockRecord \<Rightarrow> FsCall list \<times> LockDir \<Rightarrow> bool" where
  "holder_inv i r s \<longleftrightarrow> kept_for i r s \<and> fs_wf s \<and> i < ld_next (snd s) \<and> list_all (guarded_call i r (snd s)) (fst s)"

lemma claims_update:
  "k < length calls \<Longrightarrow> mset (claimsOf (calls[k := x])) + mset (claimOf (calls ! k)) = mset (claimsOf calls) + mset (claimOf x)"
proof (induction calls arbitrary: k)
  case (Cons y calls)
  then show ?case by (cases k) (auto simp: claimsOf_def ac_simps)
qed simp

lemma claims_same:
  assumes "k < length calls" "mset (claimOf x) \<subseteq># mset (claimOf (calls ! k))"
  shows "mset (claimsOf (calls[k := x])) \<subseteq># mset (claimsOf calls)"
  using claims_update [OF assms(1), of x] assms(2) by (metis (no_types) mset_subset_eq_mono_add_right_cancel add.commute subset_mset.add_left_mono)

lemma subset_distinct: "mset xs \<subseteq># mset ys \<Longrightarrow> distinct ys \<Longrightarrow> distinct xs"
  by (metis distinct_append mset_append mset_eq_imp_distinct_iff ex_mset subset_mset.add_diff_inverse)

lemma other_claim:
  assumes "distinct (claimsOf calls)" "j < length calls" "k < length calls" "j \<noteq> k" "c \<in> set (claimOf (calls ! j))"
  shows "c \<notin> set (claimOf (calls ! k))"
  using assms
proof (induction calls arbitrary: j k)
  case (Cons y calls)
  have mem: "c \<in> set (claimOf (calls ! n)) \<Longrightarrow> n < length calls \<Longrightarrow> c \<in> set (claimsOf calls)" for n
    by (auto simp: claimsOf_def)
  show ?case
  proof (cases j; cases k)
    fix m n assume "j = Suc m" "k = Suc n"
    with Cons show ?thesis by (auto simp: claimsOf_def)
  qed (use Cons.prems mem in \<open>auto simp: claimsOf_def\<close>)
qed simp

text \<open>A call that goes on replaces itself by one with no new claim and keeps the directory, except where noted.\<close>

lemma keep_inv:
  assumes inv: "holder_inv i r (calls, d)" and k: "k < length calls" and same: "ld_claims d' = ld_claims d" "ld_next d' = ld_next d" "ld_text d' i = ld_text d i"
    and lock: "ld_lock d' = ld_lock d" and claim: "mset (claimOf x) \<subseteq># mset (claimOf (calls ! k))"
    and ok: "guarded_call i r d x" "carriedBy (calls ! k) = None \<or> carriedBy x = carriedBy (calls ! k)"
  shows "holder_inv i r (calls[k := x], d')"
proof -
  have guard: "guarded_call i r d' y = guarded_call i r d y" for y using same(1) by (cases y) simp_all
  have sub: "mset (claimsOf (calls[k := x])) \<subseteq># mset (claimsOf calls)" by (rule claims_same [OF k claim])
  then have "fs_wf (calls[k := x], d')"
    using inv same(2) lock subset_distinct [OF sub] set_mset_mono [OF sub] by (auto simp: holder_inv_def fs_wf_def)
  moreover have "list_all (guarded_call i r d') (calls[k := x])"
    using inv ok(1) set_update_subset_insert [of calls k x] by (auto simp: holder_inv_def list_all_iff guard)
  moreover have "carried i (calls[k := x], d')" if car: "carried i (calls, d)"
  proof -
    from car obtain n c where n: "n < length calls" "carriedBy (calls ! n) = Some c" "map_of (ld_claims d) c = Some i"
      by (auto simp: carried_def in_set_conv_nth)
    then have "n \<noteq> k \<or> carriedBy x = Some c" using ok(2) by auto
    then have "carriedBy (calls[k := x] ! n) = Some c" using n(1,2) by (cases "n = k") auto
    moreover have "calls[k := x] ! n \<in> set (calls[k := x])" using n(1) by (simp add: nth_mem)
    ultimately show ?thesis using n(3) same(1) unfolding carried_def by auto
  qed
  ultimately show ?thesis using inv same lock by (auto simp: holder_inv_def kept_for_def)
qed

lemma rename_inv:
  assumes inv: "holder_inv i r (calls, d)" and k: "k < length calls" "calls ! k = RemoveRename e" and lock: "ld_lock d = Some j"
  shows "holder_inv i r (calls[k := RemoveRead e (ld_next d)], d\<lparr>ld_lock := None, ld_claims := (ld_next d, j) # ld_claims d, ld_next := Suc (ld_next d)\<rparr>)"
    (is "holder_inv i r (?calls, ?d)")
proof -
  have j: "j = i" using inv lock by (auto simp: holder_inv_def kept_for_def)
  have old: "c < ld_next d" if "c \<in> set (claimsOf calls)" for c using inv that by (auto simp: holder_inv_def fs_wf_def)
  have eq: "mset (claimsOf ?calls) = mset (claimsOf calls) + {#ld_next d#}"
    using claims_update [OF k(1), of "RemoveRead e (ld_next d)"] k(2) by simp
  then have "mset (claimsOf ?calls) = mset (ld_next d # claimsOf calls)" by simp
  then have "distinct (claimsOf ?calls)" "set (claimsOf ?calls) = insert (ld_next d) (set (claimsOf calls))"
    using inv old by (metis distinct.simps(2) fs_wf_def fst_conv holder_inv_def less_irrefl mset_eq_imp_distinct_iff, metis list.simps(15) set_mset_mset)
  moreover have "guarded_call i r ?d call" if call: "call \<in> set calls" for call
  proof -
    have "set (claimOf call) \<subseteq> set (claimsOf calls)" using call by (auto simp: claimsOf_def)
    then have "\<forall>c \<in> set (claimOf call). c < ld_next d" using old by blast
    moreover have "guarded_call i r d call" using inv call by (auto simp: holder_inv_def list_all_iff)
    ultimately show ?thesis by (cases call) auto
  qed
  moreover have "guarded_call i r ?d (RemoveRead e (ld_next d))"
    using inv k j by (auto simp: holder_inv_def list_all_length)
  moreover have "carried i (?calls, ?d)"
    unfolding carried_def by (intro bexI [of _ "RemoveRead e (ld_next d)"]) (use k j in \<open>auto intro: set_update_memI\<close>)
  ultimately show ?thesis
    using inv old set_update_subset_insert [of calls k "RemoveRead e (ld_next d)"]
    by (auto simp: holder_inv_def kept_for_def fs_wf_def list_all_iff less_Suc_eq)
qed

lemma link_inv:
  assumes inv: "holder_inv i r (calls, d)" and k: "k < length calls" "calls ! k = RemoveLink c"
  shows "holder_inv i r (calls[k := RemoveDiscard c False], case ld_lock d of None \<Rightarrow> d\<lparr>ld_lock := map_of (ld_claims d) c\<rparr> | Some _ \<Rightarrow> d)"
    (is "holder_inv i r (?calls, ?d)")
proof -
  have c: "map_of (ld_claims d) c = Some i" using inv k by (auto simp: holder_inv_def list_all_length)
  have d: "ld_lock ?d = Some i" "ld_claims ?d = ld_claims d" "ld_text ?d = ld_text d" "ld_next ?d = ld_next d"
    using inv c by (auto simp: holder_inv_def kept_for_def split: option.splits)
  have "mset (claimsOf ?calls) = mset (claimsOf calls)"
    using claims_update [OF k(1), of "RemoveDiscard c False"] k(2) by simp
  then have "distinct (claimsOf ?calls)" "set (claimsOf ?calls) = set (claimsOf calls)"
    using inv by (metis fs_wf_def fst_conv holder_inv_def mset_eq_imp_distinct_iff, metis set_mset_mset)
  moreover have "guarded_call i r ?d call = guarded_call i r d call" for call using d(2) by (cases call) simp_all
  ultimately show ?thesis
    using inv d set_update_subset_insert [of calls k "RemoveDiscard c False"]
    by (auto simp: holder_inv_def kept_for_def fs_wf_def list_all_iff)
qed

lemma discard_inv:
  assumes inv: "holder_inv i r (calls, d)" and k: "k < length calls" "calls ! k = RemoveDiscard c b"
  shows "holder_inv i r (calls[k := RemoveDone b], d\<lparr>ld_claims := AList.delete c (ld_claims d)\<rparr>)"
    (is "holder_inv i r (?calls, ?d)")
proof -
  have other: "c \<notin> set (claimOf (calls ! n))" if "n < length calls" "n \<noteq> k" for n
    using other_claim [of calls k n c] inv that k by (auto simp: holder_inv_def fs_wf_def)
  have sub: "mset (claimsOf ?calls) \<subseteq># mset (claimsOf calls)" by (rule claims_same [OF k(1)]) simp
  then have wf: "fs_wf (?calls, ?d)"
    using inv subset_distinct [OF sub] set_mset_mono [OF sub] by (auto simp: holder_inv_def fs_wf_def)
  have same: "guarded_call i r ?d (calls ! n)" if "n < length calls" "n \<noteq> k" for n
    using other [OF that] inv that by (cases "calls ! n") (auto simp: holder_inv_def list_all_length delete_conv')
  have "guarded_call i r ?d (?calls ! n)" if "n < length ?calls" for n
    using that same [of n] by (cases "n = k") auto
  then have all: "list_all (guarded_call i r ?d) ?calls" by (simp add: list_all_length)
  have "carried i (?calls, ?d)" if car: "carried i (calls, d)"
  proof -
    from car obtain n c' where n: "n < length calls" "carriedBy (calls ! n) = Some c'" "map_of (ld_claims d) c' = Some i"
      by (auto simp: carried_def in_set_conv_nth)
    then have "n \<noteq> k" using k(2) by auto
    moreover from n(2) have "c' \<in> set (claimOf (calls ! n))" by (cases "calls ! n") auto
    ultimately have "c' \<noteq> c" "?calls ! n = calls ! n" using other [of n] n(1) by auto
    moreover have "?calls ! n \<in> set ?calls" using n(1) by (simp add: nth_mem)
    ultimately show ?thesis using n(2,3) unfolding carried_def by (auto simp: delete_conv')
  qed
  with inv wf all show ?thesis by (auto simp: holder_inv_def kept_for_def)
qed

lemma holder_step:
  assumes inv: "holder_inv i r (calls, d)" and step: "fs_step (\<lambda>e. e \<noteq> r) (calls, d) s'"
  shows "holder_inv i r s' \<or> opened_in_window i (calls, d) s'"
proof -
  have app: "holder_inv i r (calls @ [x], d)" if "guarded_call i r d x" "claimOf x = []" "carriedBy x = None" for x
    using inv that by (auto simp: holder_inv_def kept_for_def fs_wf_def claimsOf_def carried_def)
  from step show ?thesis
  proof (cases rule: fs_step.cases)
    case (go_on k call d')
    note k = go_on(2) and st = go_on(3)
    have g: "guarded_call i r d (calls ! k)" using inv k by (simp add: holder_inv_def list_all_length)
    note keep = keep_inv [OF inv k]
    show ?thesis
    proof (cases "calls ! k")
      case (CreateOpen q)
      show ?thesis
      proof (cases "ld_lock d")
        case None
        with inv have "carried i (calls, d)" by (auto simp: holder_inv_def kept_for_def)
        with CreateOpen None st k show ?thesis unfolding opened_in_window_def go_on(1) fst_conv snd_conv
          by (intro disjI2 conjI exI [of _ k] exI [of _ q] exI [of _ call] exI [of _ d']) (auto simp: callStep_def)
      next
        case (Some j)
        with CreateOpen st have "call = CreateRefused" "d' = d" by (auto simp: callStep_def)
        with keep [of d CreateRefused] CreateOpen show ?thesis unfolding go_on(1) by simp
      qed
    next
      case (CreateWrite j q)
      with st have "call = Created j q" "d' = d\<lparr>ld_text := (ld_text d)(j := Written q)\<rparr>" by (auto simp: callStep_def)
      with keep [of d' "Created j q"] CreateWrite g show ?thesis unfolding go_on(1) by simp
    next
      case (RemoveRename e)
      show ?thesis
      proof (cases "ld_lock d")
        case None
        with RemoveRename st have "call = RemoveDone False" "d' = d" by (auto simp: callStep_def)
        with keep [of d "RemoveDone False"] RemoveRename show ?thesis unfolding go_on(1) by simp
      next
        case (Some j)
        with rename_inv [OF inv k RemoveRename Some] RemoveRename st show ?thesis unfolding go_on(1)
          by (auto simp: callStep_def)
      qed
    next
      case (RemoveRead e c)
      with g inv have "map_option (ld_text d) (map_of (ld_claims d) c) \<noteq> Some (Written e)"
        by (auto simp: holder_inv_def kept_for_def)
      with RemoveRead st have "call = RemoveLink c" "d' = d" by (auto simp: callStep_def split: if_splits)
      with keep [of d "RemoveLink c"] RemoveRead g show ?thesis unfolding go_on(1) by simp
    next
      case (RemoveLink c)
      with link_inv [OF inv k RemoveLink] st show ?thesis unfolding go_on(1) by (auto simp: callStep_def)
    next
      case (RemoveDiscard c b)
      with discard_inv [OF inv k RemoveDiscard] st show ?thesis unfolding go_on(1) by (auto simp: callStep_def)
    next
      case (Created j q)
      with st have "call = Created j q" "d' = d" by (auto simp: callStep_def)
      with keep [of d "Created j q"] Created show ?thesis unfolding go_on(1) by simp
    next
      case CreateRefused
      with st have "call = CreateRefused" "d' = d" by (auto simp: callStep_def)
      with keep [of d CreateRefused] CreateRefused show ?thesis unfolding go_on(1) by simp
    next
      case (RemoveDone b)
      with st have "call = RemoveDone b" "d' = d" by (auto simp: callStep_def)
      with keep [of d "RemoveDone b"] RemoveDone show ?thesis unfolding go_on(1) by simp
    qed
  qed (use app in auto)
qed

text \<open>C20: the lock of a holder on the file system. A process has acquired the lock: the lock file is its inode with its
  record, and no removal is between its rename and its link. From then on any number of other processes
  may try to acquire the lock and call the removal with records other than the holder's (a late removal decided on
  an earlier lock), their system calls interleaved in any way. Then, as long as no other call has opened the
  lock file, the holder's record is intact, and the lock file is the holder's, so that every acquisition is
  refused, or one of the removals carries it; once no removal is between its rename and its link the lock
  file is the holder's again. Another acquisition succeeds only in one case: it opens the lock file while a
  removal that does not concern the holder carries the holder's file.\<close>

theorem lock_lost_only_in_window:
  assumes "ld_lock d = Some i" "ld_text d i = Written r" "fs_wf (calls, d)" "list_all (harmless i r) calls"
    and "(fs_step (\<lambda>e. e \<noteq> r))\<^sup>*\<^sup>* (calls, d) s"
  shows "kept_for i r s \<and> (\<not> carried i s \<longrightarrow> ld_lock (snd s) = Some i \<and> (\<forall>q. callStep (CreateOpen q) (snd s) = (CreateRefused, snd s)))
    \<or> (\<exists>s1 s2. (fs_step (\<lambda>e. e \<noteq> r))\<^sup>*\<^sup>* (calls, d) s1 \<and> kept_for i r s1 \<and> opened_in_window i s1 s2 \<and> (fs_step (\<lambda>e. e \<noteq> r))\<^sup>*\<^sup>* s2 s)"
proof -
  have "guarded_call i r d call" if "harmless i r call" for call using that by (cases call) auto
  then have start: "holder_inv i r (calls, d)"
    using assms(1-4) by (auto simp: holder_inv_def kept_for_def fs_wf_def list_all_iff)
  have "holder_inv i r s \<or> (\<exists>s1 s2. (fs_step (\<lambda>e. e \<noteq> r))\<^sup>*\<^sup>* (calls, d) s1 \<and> holder_inv i r s1 \<and> opened_in_window i s1 s2
      \<and> (fs_step (\<lambda>e. e \<noteq> r))\<^sup>*\<^sup>* s2 s)"
    using assms(5)
  proof (induction rule: rtranclp_induct)
    case (step y z)
    then show ?case using holder_step [of i r "fst y" "snd y" z] by (metis prod.collapse rtranclp.rtrancl_into_rtrancl rtranclp.rtrancl_refl)
  qed (use start in blast)
  moreover have "ld_lock (snd s) = Some i \<and> (\<forall>q. callStep (CreateOpen q) (snd s) = (CreateRefused, snd s))"
    if "kept_for i r s" "\<not> carried i s"
    using that by (auto simp: kept_for_def callStep_def)
  ultimately show ?thesis unfolding holder_inv_def by metis
qed

section \<open>Schedules\<close>

text \<open>The calls that go on, in this order.\<close>

definition runCalls :: "nat list \<Rightarrow> FsCall list \<times> LockDir \<Rightarrow> FsCall list \<times> LockDir" where
  "runCalls ks s = fold (\<lambda>k (calls, d). case callStep (calls ! k) d of (call, d') \<Rightarrow> (calls[k := call], d')) ks s"

lemma runCalls_steps:
  assumes "list_all (\<lambda>k. k < length calls) ks"
  shows "(fs_step ok)\<^sup>*\<^sup>* (calls, d) (runCalls ks (calls, d))"
  using assms
proof (induction ks arbitrary: calls d)
  case (Cons k ks)
  obtain call d' where st: "callStep (calls ! k) d = (call, d')" by (cases "callStep (calls ! k) d")
  have "fs_step ok (calls, d) (calls[k := call], d')" using Cons.prems st by (intro fs_step.go_on) auto
  moreover have "(fs_step ok)\<^sup>*\<^sup>* (calls[k := call], d') (runCalls ks (calls[k := call], d'))"
    by (rule Cons.IH) (use Cons.prems in simp)
  ultimately show ?case using st by (simp add: runCalls_def converse_rtranclp_into_rtranclp)
qed (simp add: runCalls_def)

lemma begin_steps: "(fs_step ok)\<^sup>*\<^sup>* ([], d) ([RemoveRename l, RemoveRename l, CreateOpen r, CreateOpen q], d)" if "ok l"
  using that fs_step.begin_remove [of ok l "[]" d] fs_step.begin_remove [of ok l "[RemoveRename l]" d]
    fs_step.begin_create [of ok "[RemoveRename l, RemoveRename l]" d r]
    fs_step.begin_create [of ok "[RemoveRename l, RemoveRename l, CreateOpen r]" d q]
  by (auto intro: converse_rtranclp_into_rtranclp)

text \<open>The window is real. Two processes have both found the lock \<open>l\<close> stale. One of them removes it, a third process
  acquires the lock; then the late removal of the other one takes the new lock file away, a fourth process
  acquires the lock in the window, and the file cannot be linked back: both acquisitions have returned the lock,
  nobody has released it, and the record of the first is gone.\<close>

lemma late_removal_steals_lock:
  assumes "ld_lock d = Some i" "ld_text d i = Written l" "ld_claims d = []" "r \<noteq> l"
  shows "\<exists>d' j k. (fs_step (\<lambda>e. e = l))\<^sup>*\<^sup>* ([], d) ([RemoveDone True, RemoveDone False, Created j r, Created k q], d')
    \<and> j \<noteq> k \<and> ld_lock d' = Some k \<and> ld_claims d' = []"
proof -
  let ?start = "[RemoveRename l, RemoveRename l, CreateOpen r, CreateOpen q]" and ?n = "ld_next d"
  let ?s = "runCalls [0, 0, 0, 2, 2, 1, 3, 3, 1, 1, 1] (?start, d)"
  have "fst ?s = [RemoveDone True, RemoveDone False, Created (?n + 1) r, Created (?n + 3) q]"
    "ld_lock (snd ?s) = Some (?n + 3)" "ld_claims (snd ?s) = []"
    using assms by (simp_all add: runCalls_def callStep_def numeral_eq_Suc emptyText_def)
  moreover have "(fs_step (\<lambda>e. e = l))\<^sup>*\<^sup>* ([], d) ?s"
    by (rule rtranclp_trans [OF begin_steps runCalls_steps]) auto
  ultimately have "(fs_step (\<lambda>e. e = l))\<^sup>*\<^sup>* ([], d) ([RemoveDone True, RemoveDone False, Created (?n + 1) r, Created (?n + 3) q], snd ?s)"
    by (metis prod.collapse)
  moreover have "?n + 1 \<noteq> ?n + 3" by simp
  ultimately show ?thesis using \<open>ld_lock (snd ?s) = Some (?n + 3)\<close> \<open>ld_claims (snd ?s) = []\<close> by blast
qed

text \<open>A late removal beside an acquisition that comes too late: the lock is back when the removal is done.\<close>

definition exampleLock :: "int \<Rightarrow> LoopLockRecord" where
  "exampleLock pid = \<lparr>lk_engine = Claude, lk_pid = pid, lk_hostname = ''host'', lk_acquired_at = Iso 0,
     lk_token = show_int pid, lk_run_id = ''r'', lk_starttime = None\<rparr>"

definition exampleDir :: LockDir where
  "exampleDir = \<lparr>ld_lock = Some 0, ld_claims = [], ld_text = (\<lambda>_. Written (exampleLock 1)), ld_next = 1\<rparr>"

abbreviation exampleCalls :: "FsCall list" where
  "exampleCalls \<equiv> [RemoveRename (exampleLock 2), CreateOpen (exampleLock 3)]"

theorem lock_lost_only_in_window_witness:
  "let s = runCalls [0, 0, 0, 1, 0] (exampleCalls, exampleDir)
   in fst s = [RemoveDone False, CreateRefused] \<and> ld_lock (snd s) = Some 0
    \<and> (kept_for 0 (exampleLock 1) s \<or> (\<exists>s1 s2. (fs_step (\<lambda>e. e \<noteq> exampleLock 1))\<^sup>*\<^sup>* (exampleCalls, exampleDir) s1
        \<and> kept_for 0 (exampleLock 1) s1 \<and> opened_in_window 0 s1 s2 \<and> (fs_step (\<lambda>e. e \<noteq> exampleLock 1))\<^sup>*\<^sup>* s2 s))"
proof -
  let ?s = "runCalls [0, 0, 0, 1, 0] (exampleCalls, exampleDir)"
  have other: "exampleLock 2 \<noteq> exampleLock 1" by (simp add: exampleLock_def)
  then have "fst ?s = [RemoveDone False, CreateRefused]" "ld_lock (snd ?s) = Some 0"
    by (auto simp: runCalls_def callStep_def exampleDir_def)
  moreover have "(fs_step (\<lambda>e. e \<noteq> exampleLock 1))\<^sup>*\<^sup>* (exampleCalls, exampleDir) ?s"
    by (rule runCalls_steps) simp
  from lock_lost_only_in_window [OF _ _ _ _ this, of 0]
  have "kept_for 0 (exampleLock 1) ?s \<or> (\<exists>s1 s2. (fs_step (\<lambda>e. e \<noteq> exampleLock 1))\<^sup>*\<^sup>* (exampleCalls, exampleDir) s1
      \<and> kept_for 0 (exampleLock 1) s1 \<and> opened_in_window 0 s1 s2 \<and> (fs_step (\<lambda>e. e \<noteq> exampleLock 1))\<^sup>*\<^sup>* s2 ?s)"
    using other by (auto simp: exampleDir_def fs_wf_def claimsOf_def)
  ultimately show ?thesis by (simp only: Let_def simp_thms)
qed

end
