(* ===== verification/Store_Documents.thy ===== *)
theory Store_Documents
  imports Store_Base Recovery_Episodes
begin

text \<open>
  The documents of a run (\<open>core/scripts/loop/store.ts\<close>): the shape checks that decide whether a
  ledger or contract read from disk is live authority, the quarantine and reconstruction of an
  invalid generation, reading and writing of the ledger, initialization of a run and the
  supersession chain.

  A document is the JSON value that the text parses to, \<open>JUndef\<close> when it does not parse.
  \<open>jsonNorm\<close> is what \<open>JSON.stringify\<close> keeps of a value: \<open>undefined\<close> properties disappear and
  numbers that are not finite become \<open>null\<close>. Two documents with the same normal form have the same
  text. Leftover temporary files and the private episode file are read by the code and ignored, so
  they are left out.
\<close>

section \<open>JSON text\<close>

fun jsonNorm :: "jsval \<Rightarrow> jsval"
  and jsonElements :: "jsval list \<Rightarrow> jsval list"
  and jsonFields :: "(string \<times> jsval) list \<Rightarrow> (string \<times> jsval) list" where
  "jsonNorm (JNum (Fin r)) = JNum (Fin r)"
| "jsonNorm (JNum n) = JNull"
| "jsonNorm (JArr xs) = JArr (jsonElements xs)"
| "jsonNorm (JObj fs) = JObj (jsonFields fs)"
| "jsonNorm v = v"
| "jsonElements [] = []"
| "jsonElements (x # xs) = (if x = JUndef then JNull else jsonNorm x) # jsonElements xs"
| "jsonFields [] = []"
| "jsonFields ((k, v) # fs) = (if v = JUndef then jsonFields fs else (k, jsonNorm v) # jsonFields fs)"

definition stringify :: "jsval \<Rightarrow> jsval doc_text" where
  "stringify v = Written (jsonNorm v)"

definition parseJsonObject :: "jsval doc_text \<Rightarrow> jsval" where
  "parseJsonObject text = (case text_value text of None \<Rightarrow> JUndef | Some v \<Rightarrow> v)"

section \<open>Document shapes\<close>

definition LOOP_CONTRACT_SCHEMA :: string where
  "LOOP_CONTRACT_SCHEMA = ''pipeline/loop-contract@1''"

definition LOOP_LEDGER_SCHEMA :: string where
  "LOOP_LEDGER_SCHEMA = ''pipeline/loop-ledger@1''"

definition RECOVERY_EPISODE_REQUIRED_FIELDS :: "string list" where
  "RECOVERY_EPISODE_REQUIRED_FIELDS =
     [''invariant'', ''candidate_epoch'', ''evidence_identity'', ''attempts_per_strategy'', ''strategy_cursor'',
      ''next_eligible_at'']"

definition RECOVERY_ATTEMPT_OUTCOMES :: "string list" where
  "RECOVERY_ATTEMPT_OUTCOMES =
     [''started'', ''recovered'', ''superseded'', ''exhausted'', ''skipped'', ''repeated_no_progress'',
      ''needs_human'', ''human_authority'', ''failed'']"

definition DURABLE_GENERATION_QUARANTINE_THEME :: string where
  "DURABLE_GENERATION_QUARANTINE_THEME = ''durable_generation_quarantine''"

definition isNonEmptyString :: "jsval \<Rightarrow> bool" where
  "isNonEmptyString v = (case v of JStr s \<Rightarrow> s \<noteq> [] | _ \<Rightarrow> False)"

definition isIsoTimestamp :: "LoopStoreDeps \<Rightarrow> jsval \<Rightarrow> bool" where
  "isIsoTimestamp deps v = (case v of JStr s \<Rightarrow> s \<noteq> [] \<and> de_dateParse deps s \<noteq> None | _ \<Rightarrow> False)"

definition isNonNegativeInteger :: "jsval \<Rightarrow> bool" where
  "isNonNegativeInteger v \<longleftrightarrow> isIntegerNum v \<and> numVal v \<ge> 0"

definition isAttemptsPerStrategy :: "jsval \<Rightarrow> bool" where
  "isAttemptsPerStrategy v =
     (case v of JObj fs \<Rightarrow> list_all (\<lambda>(recipe, count). isRecoveryRecipe (JStr recipe) \<and> isFiniteNum count
                             \<and> numVal count \<ge> 0) fs
      | _ \<Rightarrow> False)"

definition attemptCarriesEpisodeState :: "jsval \<Rightarrow> bool" where
  "attemptCarriesEpisodeState v \<longleftrightarrow>
     \<not> isNullish (jprop v ''episode_id'') \<or> \<not> isNullish (jprop v ''operation'')
     \<or> list_ex (\<lambda>field. \<not> isNullish (jprop v field)) RECOVERY_EPISODE_REQUIRED_FIELDS"

definition isCompleteEpisodeState :: "LoopStoreDeps \<Rightarrow> jsval \<Rightarrow> jsval \<Rightarrow> bool" where
  "isCompleteEpisodeState deps v recoveryPolicy \<longleftrightarrow>
     isString (jprop v ''invariant'') \<and> isString (jprop v ''candidate_epoch'')
     \<and> isString (jprop v ''evidence_identity'') \<and> isAttemptsPerStrategy (jprop v ''attempts_per_strategy'')
     \<and> isNonNegativeInteger (jprop v ''strategy_cursor'') \<and> isIsoTimestamp deps (jprop v ''next_eligible_at'')
     \<and> isAuthoritativeEpisodeState (de_sha256 deps) v [] recoveryPolicy"

definition isLoopRecoveryAttemptShape :: "LoopStoreDeps \<Rightarrow> jsval \<Rightarrow> jsval \<Rightarrow> bool" where
  "isLoopRecoveryAttemptShape deps v recoveryPolicy \<longleftrightarrow>
     (let action = jprop v ''action''; actions = jprop v ''actions'' in
      isPlainObject v \<and> isNonEmptyString (jprop v ''item_id'') \<and> isFiniteNum (jprop v ''seq'')
      \<and> isNonEmptyString (jprop v ''time'') \<and> blockerClassJs (jprop v ''class'') \<noteq> None
      \<and> (action = JUndef \<or> isRecoveryRecipe action)
      \<and> (case actions of JUndef \<Rightarrow> True | JArr es \<Rightarrow> list_all isRecoveryRecipe es | _ \<Rightarrow> False)
      \<and> (isRecoveryRecipe action \<or> (case actions of JArr es \<Rightarrow> es \<noteq> [] | _ \<Rightarrow> False))
      \<and> (case jprop v ''outcome'' of JStr s \<Rightarrow> s \<in> set RECOVERY_ATTEMPT_OUTCOMES | _ \<Rightarrow> False)
      \<and> (attemptCarriesEpisodeState v \<longrightarrow> isCompleteEpisodeState deps v recoveryPolicy)
      \<and> (jprop v ''strategy_cursor'' = JUndef \<or> isNonNegativeInteger (jprop v ''strategy_cursor''))
      \<and> (jprop v ''attempts_per_strategy'' = JUndef \<or> isAttemptsPerStrategy (jprop v ''attempts_per_strategy'')))"

definition isCoolingRecordShape :: "LoopStoreDeps \<Rightarrow> jsval \<Rightarrow> bool" where
  "isCoolingRecordShape deps v \<longleftrightarrow>
     isPlainObject v
     \<and> (jprop v ''reason'' = JStr ''strategy_cursor_exhausted'' \<or> jprop v ''reason'' = JStr ''mechanical_exhaustion'')
     \<and> isIsoTimestamp deps (jprop v ''time'') \<and> isIsoTimestamp deps (jprop v ''next_eligible_at'')
     \<and> (jprop v ''candidate_epoch'' = JUndef \<or> isString (jprop v ''candidate_epoch''))"

definition jsValues :: "jsval \<Rightarrow> jsval list" where
  "jsValues v = (case v of JObj fs \<Rightarrow> map snd fs | _ \<Rightarrow> [])"

definition isLoopLedgerShape :: "LoopStoreDeps \<Rightarrow> jsval \<Rightarrow> jsval \<Rightarrow> bool" where
  "isLoopLedgerShape deps v recoveryPolicy \<longleftrightarrow>
     isPlainObject v \<and> jprop v ''schema'' = JStr LOOP_LEDGER_SCHEMA
     \<and> isNonEmptyString (jprop v ''run_id'') \<and> isPlainObject (jprop v ''items'')
     \<and> isNumber (jprop v ''consecutive_blocked'')
     \<and> ''stop'' \<in> set (jkeys v) \<and> ''merge_barrier'' \<in> set (jkeys v) \<and> ''last_reconciliation'' \<in> set (jkeys v)
     \<and> (case jprop v ''recovery_attempts'' of
          JUndef \<Rightarrow> True
        | JArr attempts \<Rightarrow> list_all (\<lambda>a. isLoopRecoveryAttemptShape deps a recoveryPolicy) attempts
            \<and> ledgerEpisodesAreAuthoritative (de_sha256 deps) (filter isPlainObject attempts) recoveryPolicy
        | _ \<Rightarrow> False)
     \<and> (isNullish (jprop v ''cooling'') \<or> isCoolingRecordShape deps (jprop v ''cooling''))
     \<and> (isNullish (jprop v ''item_cooling'')
        \<or> isPlainObject (jprop v ''item_cooling'')
          \<and> list_all (isCoolingRecordShape deps) (jsValues (jprop v ''item_cooling'')))"

definition isLoopContractShape :: "jsval \<Rightarrow> bool" where
  "isLoopContractShape v \<longleftrightarrow>
     isPlainObject v \<and> jprop v ''schema'' = JStr LOOP_CONTRACT_SCHEMA
     \<and> isNonEmptyString (jprop v ''run_id'') \<and> isString (jprop v ''engine'') \<and> isPlainObject (jprop v ''repo'')
     \<and> (case jprop v ''items'' of JArr _ \<Rightarrow> True | _ \<Rightarrow> False)
     \<and> (jprop v ''recovery_policy'' = JUndef \<or> isPlainObject (jprop v ''recovery_policy''))"

datatype DocKind = LedgerKind | ContractKind

fun docKindName :: "DocKind \<Rightarrow> string" where
  "docKindName LedgerKind = ''ledger''"
| "docKindName ContractKind = ''contract''"

fun documentShapeOk :: "LoopStoreDeps \<Rightarrow> DocKind \<Rightarrow> jsval \<Rightarrow> jsval \<Rightarrow> bool" where
  "documentShapeOk deps LedgerKind v recoveryPolicy = isLoopLedgerShape deps v recoveryPolicy"
| "documentShapeOk deps ContractKind v recoveryPolicy = isLoopContractShape v"

section \<open>Quarantine\<close>

definition lastValidPathFor :: "path \<Rightarrow> path" where
  "lastValidPathFor p = (fst p, snd p @ ''.last-valid'')"

definition quarantinePathFor :: "path \<Rightarrow> string \<Rightarrow> path" where
  "quarantinePathFor p nowIso =
     (fst p, snd p @ ''.quarantine.'' @ map (\<lambda>c. if c = CHR '':'' \<or> c = CHR ''.'' then CHR ''-'' else c) nowIso)"

definition pathText :: "path \<Rightarrow> string" where
  "pathText p = joinPath (fst p) (snd p)"

record QuarantineEvidence =
  qe_published_path :: path
  qe_quarantine_path :: path
  qe_reason :: string
  qe_reconstructed :: bool

definition quarantinePublished ::
  "LoopStoreDeps \<Rightarrow> path \<Rightarrow> jsval doc_text \<Rightarrow> string \<Rightarrow> DocKind \<Rightarrow> jsval \<Rightarrow> (jsval \<Rightarrow> jsval) \<Rightarrow> QuarantineEvidence io" where
  "quarantinePublished deps publishedPath raw reason kind recoveryPolicy normalizeValue =
     io_bind (io_now deps) (\<lambda>t.
       let quarantinePath = quarantinePathFor publishedPath (de_toISOString deps t);
           evidence = \<lparr>qe_published_path = publishedPath, qe_quarantine_path = quarantinePath,
                       qe_reason = reason, qe_reconstructed = False\<rparr>
       in io_then (writeFileAtomic quarantinePath raw)
         (io_bind (readTextFile (lastValidPathFor publishedPath)) (\<lambda>lastValidText.
           case lastValidText of None \<Rightarrow> io_return evidence
           | Some text \<Rightarrow>
             if text_empty text then io_return evidence
             else (let rawParsed = parseJsonObject text; parsed = normalizeValue rawParsed
                   in if parsed \<noteq> JUndef \<and> documentShapeOk deps kind parsed recoveryPolicy
                      then io_then (writeFileAtomic publishedPath (if parsed = rawParsed then text else stringify parsed))
                             (io_return (evidence\<lparr>qe_reconstructed := True\<rparr>))
                      else io_return evidence))))"

definition isQuarantineOwnedWait :: "jsval \<Rightarrow> bool" where
  "isQuarantineOwnedWait ledger \<longleftrightarrow>
     jprop (jprop ledger ''cooling'') ''theme'' = JStr DURABLE_GENERATION_QUARANTINE_THEME
     \<and> isNullish (jprop ledger ''last_reconciliation'')"

definition attemptsOrEmpty :: "jsval \<Rightarrow> jsval" where
  "attemptsOrEmpty ledger =
     (if isNullish (jprop ledger ''recovery_attempts'') then JArr [] else jprop ledger ''recovery_attempts'')"

definition quarantineWaitBlocksMutation :: "jsval \<Rightarrow> jsval \<Rightarrow> bool" where
  "quarantineWaitBlocksMutation current next =
     (if \<not> isQuarantineOwnedWait current then False
      else if \<not> isNullish (jprop next ''last_reconciliation'') then False
      else jsonNorm (jprop current ''items'') \<noteq> jsonNorm (jprop next ''items'')
        \<or> jsonNorm (attemptsOrEmpty current) \<noteq> jsonNorm (attemptsOrEmpty next))"

definition pendingItemEntry :: "string \<Rightarrow> jsval" where
  "pendingItemEntry i = JObj [(''id'', JStr i), (''state'', JStr ''pending''), (''history'', JArr []),
     (''recovery_budgets_remaining'', JObj [(''default'', JNumNat 0)])]"

definition jsElements :: "jsval \<Rightarrow> jsval list" where
  "jsElements v = (case v of JArr xs \<Rightarrow> xs | _ \<Rightarrow> [])"

definition salvageItemsFromContract :: "jsval \<Rightarrow> jsval" where
  "salvageItemsFromContract v =
     (if \<not> isLoopContractShape v then JObj []
      else JObj (fold (\<lambda>item items. if isNonEmptyString (jprop item ''id'')
             then rec_put (strVal (jprop item ''id'')) (pendingItemEntry (strVal (jprop item ''id''))) items
             else items) (jsElements (jprop v ''items'')) []))"

definition salvageItemsFromParsed :: "jsval \<Rightarrow> jsval option" where
  "salvageItemsFromParsed v =
     (case jprop v ''items'' of
        JObj entries \<Rightarrow>
          (let items = filter (\<lambda>(i, entry). isPlainObject entry \<and> isString (jprop entry ''id'')
                         \<and> isString (jprop entry ''state'')) entries
           in if items = [] then None else Some (JObj items))
      | _ \<Rightarrow> None)"

definition salvageRecoveryAttempts :: "LoopStoreDeps \<Rightarrow> jsval \<Rightarrow> jsval \<Rightarrow> jsval" where
  "salvageRecoveryAttempts deps v recoveryPolicy =
     JArr (filter (\<lambda>a. isLoopRecoveryAttemptShape deps a recoveryPolicy) (jsElements (jprop v ''recovery_attempts'')))"

definition waitCooling :: "LoopStoreDeps \<Rightarrow> int \<Rightarrow> path \<Rightarrow> jsval" where
  "waitCooling deps now quarantinePath = JObj
     [(''reason'', JStr ''mechanical_exhaustion''), (''time'', JStr (de_toISOString deps now)),
      (''next_eligible_at'', JStr (de_toISOString deps (now + 60000))),
      (''theme'', JStr DURABLE_GENERATION_QUARANTINE_THEME), (''quarantine_path'', JStr (pathText quarantinePath))]"

definition waitLedger :: "LoopStoreDeps \<Rightarrow> string \<Rightarrow> jsval \<Rightarrow> jsval \<Rightarrow> jsval \<Rightarrow> jsval \<Rightarrow> jsval \<Rightarrow> jsval" where
  "waitLedger deps runId cooling existingLedger existingContract parsed recoveryPolicy =
     (if isLoopLedgerShape deps existingLedger recoveryPolicy
      then withField (withField existingLedger ''cooling'' cooling) ''stop'' (jprop existingLedger ''stop'')
      else JObj
        [(''schema'', JStr LOOP_LEDGER_SCHEMA), (''run_id'', JStr runId),
         (''items'', orElse (salvageItemsFromParsed parsed)
            (salvageItemsFromContract (if isLoopContractShape existingContract then existingContract else JUndef))),
         (''consecutive_blocked'', JNumNat 0), (''merge_barrier'', JNull), (''stop'', JNull), (''cooling'', cooling),
         (''last_native_goal_check'', JNull), (''last_reconciliation'', JNull),
         (''reconciliation_sequence'', JNumNat 0),
         (''recovery_attempts'', salvageRecoveryAttempts deps parsed recoveryPolicy),
         (''authority_amendments'', JArr [])])"

definition publishLastValid :: "path \<Rightarrow> jsval doc_text \<Rightarrow> unit io" where
  "publishLastValid publishedPath content = writeFileAtomic (lastValidPathFor publishedPath) content"

definition parseOptional :: "jsval doc_text option \<Rightarrow> jsval" where
  "parseOptional text = (case text of None \<Rightarrow> JUndef | Some t \<Rightarrow> if text_empty t then JUndef else parseJsonObject t)"

definition baseName :: "string \<Rightarrow> string" where
  "baseName dir = last (js_split CHR ''/'' dir)"

definition persistUnreconstructableOwnedWait ::
  "LoopStoreDeps \<Rightarrow> path \<Rightarrow> DocKind \<Rightarrow> QuarantineEvidence \<Rightarrow> string \<Rightarrow> jsval \<Rightarrow> jsval
    \<Rightarrow> (jsval doc_text \<times> jsval) option io" where
  "persistUnreconstructableOwnedWait deps publishedPath kind evidence token parsed recoveryPolicy =
     (let dir = fst publishedPath; runId = baseName dir
      in if \<not> SAFE_RUN_ID runId then io_return None
         else io_then (requireToken deps runId token)
           (io_bind (io_now deps) (\<lambda>now.
            io_bind (if kind = LedgerKind then io_return None else readTextFile (ledgerPath dir)) (\<lambda>existingLedgerText.
            io_bind (readTextFile (contractPath dir)) (\<lambda>existingContractText.
              let wait = waitLedger deps runId (waitCooling deps now (qe_quarantine_path evidence))
                           (parseOptional existingLedgerText) (parseOptional existingContractText) parsed recoveryPolicy
              in io_then (writeFileAtomic (ledgerPath dir) (stringify wait))
                (io_then (publishLastValid (ledgerPath dir) (stringify wait))
                (io_then (io_ignore (appendEventUnchecked deps runId ''loop_generation_quarantined'' (DataObj (JObj
                     [(''kind'', JStr (docKindName kind)), (''reason'', JStr (qe_reason evidence)),
                      (''evidence'', JStr (pathText (qe_quarantine_path evidence))), (''reconstructed'', JBool False),
                      (''owned_wait'', JBool True)]))))
                (io_return (if kind = LedgerKind then Some (stringify wait, wait) else None)))))))))"

definition quarantinedMessage :: "DocKind \<Rightarrow> path \<Rightarrow> QuarantineEvidence \<Rightarrow> string" where
  "quarantinedMessage kind publishedPath q =
     ''quarantined invalid '' @ docKindName kind @ '' generation at '' @ pathText publishedPath @ '' ('' @ qe_reason q
     @ ''); reconstructed='' @ (if qe_reconstructed q then ''true'' else ''false'') @ ''; evidence=''
     @ pathText (qe_quarantine_path q)"

definition supportedSchema :: "DocKind \<Rightarrow> string" where
  "supportedSchema kind = (case kind of LedgerKind \<Rightarrow> LOOP_LEDGER_SCHEMA | ContractKind \<Rightarrow> LOOP_CONTRACT_SCHEMA)"

text \<open>What follows the quarantine: the reconstructed document, or an owned wait.\<close>

definition afterQuarantine ::
  "LoopStoreDeps \<Rightarrow> path \<Rightarrow> DocKind \<Rightarrow> string option \<Rightarrow> jsval \<Rightarrow> (jsval \<Rightarrow> jsval) \<Rightarrow> jsval
    \<Rightarrow> QuarantineEvidence \<Rightarrow> jsval io" where
  "afterQuarantine deps publishedPath kind token recoveryPolicy normalizeValue parsed q =
     io_bind (readTextFile publishedPath) (\<lambda>restored.
       let restoredParsed = (case restored of None \<Rightarrow> JUndef | Some t \<Rightarrow> normalizeValue (parseJsonObject t))
       in if qe_reconstructed q \<and> restoredParsed \<noteq> JUndef \<and> documentShapeOk deps kind restoredParsed recoveryPolicy
          then io_return restoredParsed
          else if \<not> truthy token
          then io_throw (LoopError Lock (quarantinedMessage kind publishedPath q
                 @ ''; persist requires the current lock holder's token''))
          else io_bind (persistUnreconstructableOwnedWait deps publishedPath kind q (the token) parsed recoveryPolicy)
            (\<lambda>ownedWait. case ownedWait of
               Some (text, v) \<Rightarrow> io_return v
             | None \<Rightarrow> io_throw (LoopError Validation (quarantinedMessage kind publishedPath q))))"

definition readPublishedDocument ::
  "LoopStoreDeps \<Rightarrow> path \<Rightarrow> DocKind \<Rightarrow> string option \<Rightarrow> jsval \<Rightarrow> (jsval \<Rightarrow> jsval) \<Rightarrow> jsval io" where
  "readPublishedDocument deps publishedPath kind token recoveryPolicy normalizeValue =
     io_bind (readTextFile publishedPath) (\<lambda>text.
       case text of None \<Rightarrow> io_throw (LoopError Validation (''loop run document not found under '' @ pathText publishedPath))
       | Some t \<Rightarrow>
         (let parsed = normalizeValue (parseJsonObject t); schema = jprop parsed ''schema''
          in if parsed \<noteq> JUndef \<and> documentShapeOk deps kind parsed recoveryPolicy then io_return parsed
             else if isString schema \<and> strVal schema \<noteq> supportedSchema kind
             then io_throw (LoopError Validation (''loop '' @ docKindName kind @ '' schema id '' @ quoted (strVal schema)
                    @ '' is outside the store's supported set''))
             else io_bind (quarantinePublished deps publishedPath t
                    (if parsed = JUndef then ''truncated_or_invalid_json'' else ''schema_failure'') kind recoveryPolicy
                    normalizeValue)
                  (afterQuarantine deps publishedPath kind token recoveryPolicy normalizeValue parsed)))"

section \<open>Reading and writing the documents\<close>

definition readContract :: "LoopStoreDeps \<Rightarrow> string \<Rightarrow> string option \<Rightarrow> jsval io" where
  "readContract deps runId token =
     io_bind (io_lift (runDir deps runId)) (\<lambda>dir.
     io_bind (readTextFile (contractPath dir)) (\<lambda>text.
       case text of
         None \<Rightarrow> io_throw (LoopError Validation (''loop run '' @ quoted runId @ '' not found under '' @ dir))
       | Some t \<Rightarrow> if isLoopContractShape (parseJsonObject t) then io_return (parseJsonObject t)
                   else readPublishedDocument deps (contractPath dir) ContractKind token JUndef (\<lambda>v. v)))"

text \<open>The policy a ledger is validated against: the contract's own policy upgraded and compiled, or
  as it stands when it does not compile.\<close>

definition validationPolicy :: "jsval \<Rightarrow> jsval" where
  "validationPolicy rawPolicy =
     (case effectiveRecoveryPolicyForLedgerValidation rawPolicy of Some p \<Rightarrow> policyJs p | None \<Rightarrow> rawPolicy)"

definition readLedger :: "LoopStoreDeps \<Rightarrow> string \<Rightarrow> string option \<Rightarrow> jsval io" where
  "readLedger deps runId token =
     io_bind (io_lift (runDir deps runId)) (\<lambda>dir.
     io_bind (readTextFile (contractPath dir)) (\<lambda>contractText.
     io_bind (readTextFile (ledgerPath dir)) (\<lambda>text.
       let parsedContract = (case contractText of None \<Rightarrow> JUndef | Some t \<Rightarrow> parseJsonObject t);
           contractIsValid = isLoopContractShape parsedContract;
           rawPolicy = (if contractIsValid then jprop parsedContract ''recovery_policy'' else JUndef);
           policy = (if contractIsValid then validationPolicy rawPolicy else JUndef);
           normalizeValue = (\<lambda>v. normalizeRecoveryLedgerCompatibility (de_sha256 deps) v rawPolicy)
       in case text of
            None \<Rightarrow> io_throw (LoopError Validation (''loop run '' @ quoted runId @ '' ledger not found under '' @ dir))
          | Some t \<Rightarrow>
            if isLoopLedgerShape deps (normalizeValue (parseJsonObject t)) policy
            then io_return (normalizeValue (parseJsonObject t))
            else readPublishedDocument deps (ledgerPath dir) LedgerKind token policy normalizeValue)))"

definition writeLedger :: "LoopStoreDeps \<Rightarrow> jsval \<Rightarrow> string \<Rightarrow> unit io" where
  "writeLedger deps ledger token =
     (let runId = strVal (jprop ledger ''run_id'')
      in io_then (requireToken deps runId token)
        (io_bind (readContract deps runId (Some token)) (\<lambda>contract.
         io_bind (io_lift (runDir deps runId)) (\<lambda>dir.
         io_bind (readTextFile (ledgerPath dir)) (\<lambda>current.
           let rawPolicy = jprop contract ''recovery_policy''; policy = validationPolicy rawPolicy;
               normalizeValue = (\<lambda>v. normalizeRecoveryLedgerCompatibility (de_sha256 deps) v rawPolicy);
               effectiveLedger = normalizeValue ledger;
               currentRawParsed = parseOptional current; currentParsed = normalizeValue currentRawParsed;
               dest = ledgerPath dir
           in if isLoopLedgerShape deps currentParsed policy \<and> quarantineWaitBlocksMutation currentParsed effectiveLedger
              then io_throw (LoopError Validation
                (''quarantined generation wait requires live reconciliation before mutation; evidence=''
                 @ (case jprop (jprop currentParsed ''cooling'') ''quarantine_path'' of JStr s \<Rightarrow> s | _ \<Rightarrow> ''missing'')))
              else io_then
                (case current of
                   Some t \<Rightarrow> if \<not> text_empty t \<and> isLoopLedgerShape deps currentParsed policy
                     then publishLastValid dest (if currentParsed = currentRawParsed then t else stringify currentParsed)
                     else io_return ()
                 | None \<Rightarrow> io_return ())
                (io_then (writeFileAtomic dest (stringify effectiveLedger))
                (if isLoopLedgerShape deps effectiveLedger policy then publishLastValid dest (stringify effectiveLedger)
                 else io_return ())))))))"

section \<open>Initialization and supersession\<close>

definition runExists :: "LoopStoreDeps \<Rightarrow> string \<Rightarrow> bool io" where
  "runExists deps runId = io_bind (io_lift (runDir deps runId)) (\<lambda>dir. fsExists (contractPath dir))"

definition initRun :: "LoopStoreDeps \<Rightarrow> jsval \<Rightarrow> jsval \<Rightarrow> unit io" where
  "initRun deps contract ledger =
     (let runId = strVal (jprop contract ''run_id'')
      in io_bind (io_lift (runDir deps runId)) (\<lambda>dir.
         io_bind (fsExists (contractPath dir)) (\<lambda>present.
           if present
           then io_throw (LoopError Conflict (''loop run '' @ quoted runId
                  @ '' already exists -- resume it instead of re-initializing''))
           else io_bind (io_uuid deps) (\<lambda>u.
             let staging = dir @ ''.init-'' @ u
             in io_then (writeFileAtomic (contractPath staging) (stringify contract))
               (io_then (writeFileAtomic (ledgerPath staging) (stringify ledger))
               (io_then (writeFileAtomic (lastValidPathFor (contractPath staging)) (stringify contract))
               (io_then (writeFileAtomic (lastValidPathFor (ledgerPath staging)) (stringify ledger))
               (io_then (appendLog deps (eventsPath staging) ''run_initialized''
                   (DataObj (JObj [(''run_id'', JStr runId), (''engine'', jprop contract ''engine'')])))
               (io_bind (renameDirExclusive staging dir) (\<lambda>published.
                 if published then io_return ()
                 else io_then (removeFile (contractPath staging))
                   (io_then (removeFile (ledgerPath staging))
                   (io_then (removeFile (lastValidPathFor (contractPath staging)))
                   (io_then (removeFile (lastValidPathFor (ledgerPath staging)))
                   (io_then (removeFile (eventsPath staging))
                   (io_throw (LoopError Conflict (''loop run '' @ quoted runId
                      @ '' was initialized concurrently -- resume it instead of re-initializing'')))))))))))))))))"

definition jsTruthy :: "jsval \<Rightarrow> bool" where
  "jsTruthy v = (case v of JUndef \<Rightarrow> False | JNull \<Rightarrow> False | JBool b \<Rightarrow> b
     | JNum n \<Rightarrow> n \<noteq> Fin 0 \<and> n \<noteq> NaN | JStr s \<Rightarrow> s \<noteq> [] | _ \<Rightarrow> True)"

definition markRunSuperseded :: "LoopStoreDeps \<Rightarrow> string \<Rightarrow> string \<Rightarrow> unit io" where
  "markRunSuperseded deps runId newRunId =
     io_bind (readLedger deps runId None) (\<lambda>ledger.
       if \<not> jsTruthy (jprop ledger ''stop'')
       then io_throw (LoopError Validation (''loop run '' @ quoted runId
              @ '' is not terminally stopped -- refusing to mark it superseded''))
       else io_bind (io_lift (runDir deps runId)) (\<lambda>dir.
         io_then (writeFileAtomic (ledgerPath dir) (stringify (withField ledger ''superseded_by'' (JStr newRunId))))
         (io_then (appendEventUnchecked deps runId ''loop_run_superseded'' (DataObj (JObj [(''superseded_by'', JStr newRunId)])))
         (io_return ()))))"

text \<open>The chain walk reads ledgers until one is not superseded; the loop of the code has no bound. Here \<open>fuel\<close>
  bounds the number of ledgers read, and \<open>None\<close> is the walk that has not ended by then. The fuel that
  \<open>resolveSupersessionChainHead\<close> gives is enough for every store: the runs read so far are different and each
  has a ledger, so \<open>supersession_chain_resolves\<close> shows that \<open>None\<close> is never the result.\<close>

fun chainFrom :: "LoopStoreDeps \<Rightarrow> string \<Rightarrow> nat \<Rightarrow> string \<Rightarrow> nat \<Rightarrow> string list \<Rightarrow> (string \<times> nat) option io" where
  "chainFrom deps runId 0 current chainLength seen = io_return None"
| "chainFrom deps runId (Suc fuel) current chainLength seen =
     io_bind (readLedger deps current None) (\<lambda>ledger.
       let next = jprop ledger ''superseded_by''
       in if \<not> jsTruthy next then io_return (Some (current, chainLength))
          else if strVal next \<in> set seen
          then io_throw (LoopError Validation (''loop run '' @ quoted runId @ '': supersession chain contains a cycle at ''
                 @ quoted (strVal next)))
          else chainFrom deps runId fuel (strVal next) (Suc chainLength) (seen @ [strVal next]))"

text \<open>The directories that hold a ledger; there are no more of them than documents.\<close>

definition ledgerDirs :: "World \<Rightarrow> string set" where
  "ledgerDirs w = {dir. map_of (w_docs w) (ledgerPath dir) \<noteq> None}"

definition resolveSupersessionChainHead :: "LoopStoreDeps \<Rightarrow> string \<Rightarrow> (string \<times> nat) option io" where
  "resolveSupersessionChainHead deps runId w =
     chainFrom deps runId (Suc (Suc (length (w_docs w)))) runId 0 [runId] w"


section \<open>Frames\<close>

text \<open>An operation keeps a component of the world; the rules follow the structure of the operation.\<close>

named_theorems io_frames \<open>frame rules for operations of the store\<close>

definition io_keeps :: "(World \<Rightarrow> 'b) \<Rightarrow> 'a io \<Rightarrow> bool" where
  "io_keeps f m \<longleftrightarrow> (\<forall>w. f (snd (m w)) = f w)"

lemma io_keepsD: "io_keeps f m \<Longrightarrow> f (snd (m w)) = f w"
  by (simp add: io_keeps_def)

lemma io_keeps_bind [io_frames]: "io_keeps f m \<Longrightarrow> (\<And>x. io_keeps f (k x)) \<Longrightarrow> io_keeps f (io_bind m k)"
  unfolding io_keeps_def io_bind_def by (auto split: prod.splits sum.splits) (metis snd_conv)+

lemma io_keeps_then [io_frames]: "io_keeps f m \<Longrightarrow> io_keeps f k \<Longrightarrow> io_keeps f (io_then m k)"
  unfolding io_then_def by (rule io_keeps_bind)

lemma io_keeps_pure [io_frames]:
  "io_keeps f (io_return x)" "io_keeps f (io_throw e)" "io_keeps f (io_lift r)" "io_keeps f (readTextFile p)"
  "io_keeps f (fsExists p)" "io_keeps f (requireToken deps runId token)" "io_keeps f (nextSeq deps p)"
  by (simp_all add: io_keeps_def io_simps requireToken_world)

lemma io_keeps_ignore [io_frames]: "io_keeps f m \<Longrightarrow> io_keeps f (io_ignore m)"
  by (simp add: io_keeps_def io_ignore_def)

lemma io_keeps_locks [io_frames]:
  "io_keeps w_locks (io_now deps)" "io_keeps w_locks (io_uuid deps)" "io_keeps w_locks (writeFileAtomic p t)"
  "io_keeps w_locks (appendLog deps p k d)" "io_keeps w_locks (appendEventUnchecked deps runId k d)"
  "io_keeps w_locks (publishLastValid p t)"
  by (simp_all add: io_keeps_def io_simps appendLog_eq appendEventUnchecked_locks publishLastValid_def)

lemma quarantinePublished_locks [io_frames]:
  "io_keeps w_locks (quarantinePublished deps p raw reason kind policy nv)"
  unfolding quarantinePublished_def Let_def by (intro io_frames) (auto split: option.splits intro!: io_frames)

lemma persist_locks [io_frames]:
  "io_keeps w_locks (persistUnreconstructableOwnedWait deps p kind ev token parsed policy)"
  unfolding persistUnreconstructableOwnedWait_def Let_def by (auto intro!: io_frames)

lemma readPublishedDocument_locks [io_frames]:
  "io_keeps w_locks (readPublishedDocument deps p kind token policy nv)"
  unfolding readPublishedDocument_def afterQuarantine_def Let_def
  by (auto split: option.splits intro!: io_frames)

lemma readContract_locks [io_frames]: "io_keeps w_locks (readContract deps runId token)"
  unfolding readContract_def by (auto split: option.splits intro!: io_frames)

lemma readLedger_locks [io_frames]: "io_keeps w_locks (readLedger deps runId token)"
  unfolding readLedger_def Let_def by (auto split: option.splits intro!: io_frames)

lemma writeLedger_locks [io_frames]: "io_keeps w_locks (writeLedger deps ledger token)"
  unfolding writeLedger_def Let_def by (auto split: option.splits intro!: io_frames)

interpretation write_ledger: guarded_operation deps "strVal (jprop ledger ''run_id'')" "writeLedger deps ledger"
  for deps ledger
proof
  fix token w e w'
  assume "requireToken deps (strVal (jprop ledger ''run_id'')) token w = (Inl e, w')"
  then show "writeLedger deps ledger token w = (Inl e, w')"
    unfolding writeLedger_def Let_def by (rule io_then_guard)
qed (rule io_keepsD [OF writeLedger_locks])


section \<open>The ledger document\<close>

text \<open>What the store makes of a ledger value under the run's contract, and which ones it accepts.\<close>

definition ledgerView :: "LoopStoreDeps \<Rightarrow> jsval \<Rightarrow> jsval \<Rightarrow> jsval" where
  "ledgerView deps contract v =
     normalizeRecoveryLedgerCompatibility (de_sha256 deps) v (jprop contract ''recovery_policy'')"

definition validLedger :: "LoopStoreDeps \<Rightarrow> jsval \<Rightarrow> jsval \<Rightarrow> bool" where
  "validLedger deps contract v = isLoopLedgerShape deps v (validationPolicy (jprop contract ''recovery_policy''))"

definition holdsContract :: "string \<Rightarrow> jsval \<Rightarrow> World \<Rightarrow> bool" where
  "holdsContract dir contract w \<longleftrightarrow> isLoopContractShape contract
     \<and> (case map_of (w_docs w) (contractPath dir) of None \<Rightarrow> False | Some t \<Rightarrow> parseJsonObject t = contract)"

lemma rec_replace_twice: "rec_replace k x (rec_replace k x r) = rec_replace k x r"
  by (induction k x r rule: rec_replace.induct) auto

lemma rec_replace_insert: "k \<notin> fst ` set r \<Longrightarrow> rec_replace k x (rec_insert k x r) = rec_insert k x r"
  by (induction k x r rule: rec_insert.induct) auto

lemma rec_put_twice: "rec_put k x (rec_put k x r) = rec_put k x r"
proof -
  have "k \<in> set (rec_keys (rec_put k x r))" by (simp add: set_rec_keys_put)
  then show ?thesis by (simp add: rec_put_def rec_keys_def rec_replace_twice rec_replace_insert)
qed

lemma withField_twice: "withField (withField a k x) k x = withField a k x"
  by (simp add: withField_def rec_put_twice split: jsval.splits)

lemma normalizeStartedIdentity_idem:
  "normalizeStartedRecoveryEpisodeIdentity h (normalizeStartedRecoveryEpisodeIdentity h v)
     = normalizeStartedRecoveryEpisodeIdentity h v"
proof (cases "normalizeStartedRecoveryEpisodeIdentity h v = v")
  case False
  then have "jprop (normalizeStartedRecoveryEpisodeIdentity h v) ''episode_id'' \<noteq> JUndef"
    unfolding normalizeStartedRecoveryEpisodeIdentity_def
    by (auto simp: Let_def split: if_splits)
  then show ?thesis
    unfolding normalizeStartedRecoveryEpisodeIdentity_def [of h "normalizeStartedRecoveryEpisodeIdentity h v"] by simp
qed simp

lemma normalizeStarted_rebased:
  assumes "normalizeStartedRecoveryEpisodeIdentity h a = a"
  shows "normalizeStartedRecoveryEpisodeIdentity h (rebaseCursor a) = rebaseCursor a"
proof (cases "rebaseCursor a = a")
  case False
  then have r: "rebaseCursor a = withField a ''strategy_cursor'' (JNumNat 3)" and p: "isPlainObject a"
    by (auto simp: rebaseCursor_def split: if_splits)
  have "\<not> (jprop a ''outcome'' = JStr ''started'' \<and> jprop a ''episode_id'' = JUndef
      \<and> \<not> (isBlankText (jprop a ''operation'') \<or> isBlankText (jprop a ''invariant'') \<or> isBlankText (jprop a ''candidate_epoch'')
        \<or> isBlankText (if isNullish (jprop a ''evidence_identity'') then jprop a ''evidence_fingerprint''
            else jprop a ''evidence_identity'')))"
  proof
    assume "jprop a ''outcome'' = JStr ''started'' \<and> jprop a ''episode_id'' = JUndef
      \<and> \<not> (isBlankText (jprop a ''operation'') \<or> isBlankText (jprop a ''invariant'') \<or> isBlankText (jprop a ''candidate_epoch'')
        \<or> isBlankText (if isNullish (jprop a ''evidence_identity'') then jprop a ''evidence_fingerprint''
            else jprop a ''evidence_identity''))"
    then have "jprop (normalizeStartedRecoveryEpisodeIdentity h a) ''episode_id'' \<noteq> JUndef"
      using p by (auto simp: normalizeStartedRecoveryEpisodeIdentity_def Let_def)
    with assms \<open>_ \<and> _\<close> show False by simp
  qed
  then show ?thesis unfolding r using p
    by (auto simp: normalizeStartedRecoveryEpisodeIdentity_def Let_def)
qed (simp add: assms)

lemma rebaseCursor_idem: "rebaseCursor (rebaseCursor a) = rebaseCursor a"
proof (cases "rebaseCursor a = a")
  case False
  then have r: "rebaseCursor a = withField a ''strategy_cursor'' (JNumNat 3)" and p: "isPlainObject a"
    by (auto simp: rebaseCursor_def split: if_splits)
  show ?thesis unfolding r by (simp add: rebaseCursor_def withField_twice)
qed simp

lemma ledgerView_idem: "ledgerView deps contract (ledgerView deps contract v) = ledgerView deps contract v"
proof (cases "jprop v ''recovery_attempts''")
  case (JArr attempts)
  define f where "f = (\<lambda>a. let n = normalizeStartedRecoveryEpisodeIdentity (de_sha256 deps) a
     in if samePolicyEntry (if isPlainObject (jprop contract ''recovery_policy'')
           then jprop (jprop contract ''recovery_policy'') ''workflow-engine-defect'' else JUndef)
          (last (STALE_DEFAULT_POLICY_ENTRIES WorkflowEngineDefect)) then rebaseCursor n else n)"
  have idem: "f (f a) = f a" for a
    by (simp add: f_def Let_def normalizeStartedIdentity_idem normalizeStarted_rebased rebaseCursor_idem)
  have view: "ledgerView deps contract u = (if map f xs = xs then u else withField u ''recovery_attempts'' (JArr (map f xs)))"
    if "jprop u ''recovery_attempts'' = JArr xs" for u xs
    using that by (simp add: ledgerView_def normalizeRecoveryLedgerCompatibility_def f_def Let_def)
  have p: "isPlainObject v" using JArr by (simp add: jprop_def isPlainObject_def split: jsval.splits)
  show ?thesis
    using view [OF JArr] view [of "withField v ''recovery_attempts'' (JArr (map f attempts))" "map f attempts"] p idem
    by (simp add: o_def)
qed (simp_all add: ledgerView_def normalizeRecoveryLedgerCompatibility_def)

lemma readLedger_valid:
  assumes "runDir deps runId = Inr dir" "holdsContract dir contract w" "map_of (w_docs w) (ledgerPath dir) = Some t"
    and "validLedger deps contract (ledgerView deps contract (parseJsonObject t))"
  shows "readLedger deps runId token w = (Inr (ledgerView deps contract (parseJsonObject t)), w)"
  using assms
  by (auto simp: readLedger_def io_bind_def io_simps Let_def holdsContract_def validLedger_def ledgerView_def
    split: option.splits)

lemma readContract_valid:
  assumes "runDir deps runId = Inr dir" "holdsContract dir contract w"
  shows "readContract deps runId token w = (Inr contract, w)"
  using assms by (auto simp: readContract_def io_bind_def io_simps holdsContract_def split: option.splits)


lemma paths_distinct [simp]:
  "contractPath dir \<noteq> ledgerPath dir'" "ledgerPath dir \<noteq> contractPath dir'"
  "lastValidPathFor (ledgerPath dir) \<noteq> ledgerPath dir'" "ledgerPath dir \<noteq> lastValidPathFor (ledgerPath dir')"
  "lastValidPathFor (ledgerPath dir) \<noteq> contractPath dir'" "contractPath dir \<noteq> lastValidPathFor (ledgerPath dir')"
  "quarantinePathFor (ledgerPath dir) s \<noteq> ledgerPath dir'" "ledgerPath dir \<noteq> quarantinePathFor (ledgerPath dir') s"
  "quarantinePathFor (ledgerPath dir) s \<noteq> contractPath dir'" "contractPath dir \<noteq> quarantinePathFor (ledgerPath dir') s"
  "quarantinePathFor (ledgerPath dir) s \<noteq> lastValidPathFor (ledgerPath dir')"
  "lastValidPathFor (ledgerPath dir) \<noteq> quarantinePathFor (ledgerPath dir') s"
  by (simp_all add: contractPath_def ledgerPath_def lastValidPathFor_def quarantinePathFor_def)

lemma ledgerPath_inject [simp]: "ledgerPath a = ledgerPath b \<longleftrightarrow> a = b"
  by (simp add: ledgerPath_def)

lemma parse_stringify [simp]: "parseJsonObject (stringify v) = jsonNorm v" "parseJsonObject (Written v) = v"
  by (simp_all add: parseJsonObject_def stringify_def)

lemma writeLedger_success:
  assumes "writeLedger deps ledger token w = (Inr (), w')"
    and "runDir deps (strVal (jprop ledger ''run_id'')) = Inr dir" "holdsContract dir contract w"
    and "validLedger deps contract (ledgerView deps contract ledger)"
  shows "map_of (w_docs w') (ledgerPath dir) = Some (stringify (ledgerView deps contract ledger))
    \<and> map_of (w_docs w') (lastValidPathFor (ledgerPath dir)) = Some (stringify (ledgerView deps contract ledger))
    \<and> map_of (w_docs w') (contractPath dir) = map_of (w_docs w) (contractPath dir)"
proof -
  obtain l where tok: "requireToken deps (strVal (jprop ledger ''run_id'')) token w = (Inr l, w)"
    using write_ledger.succeeds_only_with_token [OF assms(1)] .
  show ?thesis
    using assms(1) unfolding writeLedger_def Let_def
    by (auto simp: io_then_def io_bind_def tok readContract_valid [OF assms(2,3)] assms(2) io_simps
        publishLastValid_def update_conv' assms(4) [unfolded validLedger_def ledgerView_def]
        ledgerView_def
      split: if_splits option.splits)
qed

text \<open>A ledger text that the store quarantines: it is not a ledger of this run, and it does not name
  another schema (that is refused outright).\<close>

definition corruptLedger :: "LoopStoreDeps \<Rightarrow> jsval \<Rightarrow> jsval doc_text \<Rightarrow> bool" where
  "corruptLedger deps contract t \<longleftrightarrow>
     (let parsed = ledgerView deps contract (parseJsonObject t); schema = jprop parsed ''schema''
      in \<not> validLedger deps contract parsed \<and> \<not> (isString schema \<and> strVal schema \<noteq> LOOP_LEDGER_SCHEMA))"

lemma valid_not_undef: "validLedger deps contract v \<Longrightarrow> v \<noteq> JUndef"
  by (auto simp: validLedger_def isLoopLedgerShape_def isPlainObject_def)

lemma readLedger_reconstructs:
  assumes "runDir deps runId = Inr dir" "holdsContract dir contract w"
    and bad: "map_of (w_docs w) (ledgerPath dir) = Some bad" "corruptLedger deps contract bad"
    and last: "map_of (w_docs w) (lastValidPathFor (ledgerPath dir)) = Some (Written v)"
      "validLedger deps contract v" "ledgerView deps contract v = v"
  shows "readLedger deps runId token w = (Inr v, w\<lparr>w_calls := Suc (w_calls w),
     w_docs := AList.update (ledgerPath dir) (Written v) (AList.update
       (quarantinePathFor (ledgerPath dir) (de_toISOString deps (de_now deps (w_calls w)))) bad (w_docs w))\<rparr>)"
proof -
  let ?nv = "\<lambda>v. normalizeRecoveryLedgerCompatibility (de_sha256 deps) v (jprop contract ''recovery_policy'')"
  let ?policy = "validationPolicy (jprop contract ''recovery_policy'')"
  have nv: "?nv u = ledgerView deps contract u" for u by (simp add: ledgerView_def)
  have ok: "isLoopLedgerShape deps u ?policy = validLedger deps contract u" for u by (simp add: validLedger_def)
  have parsed: "\<not> validLedger deps contract (ledgerView deps contract (parseJsonObject bad))"
      "\<not> (isString (jprop (ledgerView deps contract (parseJsonObject bad)) ''schema'')
         \<and> strVal (jprop (ledgerView deps contract (parseJsonObject bad)) ''schema'') \<noteq> LOOP_LEDGER_SCHEMA)"
    using bad(2) by (simp_all add: corruptLedger_def Let_def)
  have "readLedger deps runId token w = readPublishedDocument deps (ledgerPath dir) LedgerKind token ?policy ?nv w"
    using assms(1,2) bad(1) parsed(1)
    by (auto simp: readLedger_def io_bind_def io_simps Let_def holdsContract_def nv ok split: option.splits)
  also have "\<dots> = (Inr v, w\<lparr>w_calls := Suc (w_calls w),
     w_docs := AList.update (ledgerPath dir) (Written v) (AList.update
       (quarantinePathFor (ledgerPath dir) (de_toISOString deps (de_now deps (w_calls w)))) bad (w_docs w))\<rparr>)"
    using bad(1) parsed last valid_not_undef [OF last(2)]
    by (auto simp: readPublishedDocument_def quarantinePublished_def afterQuarantine_def io_bind_def io_simps Let_def nv ok
        supportedSchema_def update_conv')
  finally show ?thesis .
qed

section \<open>Properties\<close>

text \<open>C21: a ledger written under the lock survives the corruption of its file: after a successful write of a JSON value that is a valid
  ledger of the run, reading gives that value (in its compatibility-normalized form) and changes nothing;
  and if the ledger file is then replaced by any text that is not a valid ledger and names no other
  schema, reading still gives the written value, puts it back, and keeps the bad text under a
  quarantine name.\<close>

theorem ledger_survives_corruption:
  assumes "runDir deps (strVal (jprop ledger ''run_id'')) = Inr dir" "holdsContract dir contract w"
    and "writeLedger deps ledger token w = (Inr (), w')"
    and "validLedger deps contract (ledgerView deps contract ledger)"
    and "jsonNorm (ledgerView deps contract ledger) = ledgerView deps contract ledger"
    and "corruptLedger deps contract bad"
  shows "readLedger deps (strVal (jprop ledger ''run_id'')) t w' = (Inr (ledgerView deps contract ledger), w')
    \<and> (let w'' = w'\<lparr>w_docs := AList.update (ledgerPath dir) bad (w_docs w')\<rparr>;
           r = readLedger deps (strVal (jprop ledger ''run_id'')) t w''
       in fst r = Inr (ledgerView deps contract ledger)
          \<and> map_of (w_docs (snd r)) (ledgerPath dir) = Some (Written (ledgerView deps contract ledger))
          \<and> Some bad \<in> range (\<lambda>s. map_of (w_docs (snd r)) (quarantinePathFor (ledgerPath dir) s)))"
proof -
  note s = writeLedger_success [OF assms(3,1,2,4)]
  have hold: "holdsContract dir contract w'"
    using s assms(2) by (simp add: holdsContract_def)
  then have hold': "holdsContract dir contract (w'\<lparr>w_docs := AList.update (ledgerPath dir) bad (w_docs w')\<rparr>)"
    by (simp add: holdsContract_def update_conv')
  have "readLedger deps (strVal (jprop ledger ''run_id'')) t w' = (Inr (ledgerView deps contract ledger), w')"
    using readLedger_valid [OF assms(1) hold conjunct1 [OF s], of t] assms(4,5) by (simp add: ledgerView_idem)
  moreover have "map_of (w_docs (w'\<lparr>w_docs := AList.update (ledgerPath dir) bad (w_docs w')\<rparr>)) (lastValidPathFor (ledgerPath dir))
      = Some (Written (ledgerView deps contract ledger))"
    using s assms(5) by (simp add: update_conv' stringify_def)
  from readLedger_reconstructs [OF assms(1) hold' _ assms(6) this assms(4) ledgerView_idem, of t]
  have "\<exists>q. readLedger deps (strVal (jprop ledger ''run_id'')) t (w'\<lparr>w_docs := AList.update (ledgerPath dir) bad (w_docs w')\<rparr>) =
     (Inr (ledgerView deps contract ledger), w'\<lparr>w_calls := Suc (w_calls w'),
      w_docs := AList.update (ledgerPath dir) (Written (ledgerView deps contract ledger)) (AList.update
       (quarantinePathFor (ledgerPath dir) q) bad (AList.update (ledgerPath dir) bad (w_docs w')))\<rparr>)"
    by (simp add: update_conv') blast
  ultimately show ?thesis by (auto simp: Let_def update_conv' intro!: rangeI image_eqI)
qed


text \<open>The holder's first write of a run's ledger always succeeds.\<close>

lemma writeLedger_first:
  assumes "requireToken deps (strVal (jprop ledger ''run_id'')) token w = (Inr l, w)"
    and "runDir deps (strVal (jprop ledger ''run_id'')) = Inr dir" "holdsContract dir contract w"
    and "map_of (w_docs w) (ledgerPath dir) = None"
  shows "fst (writeLedger deps ledger token w) = Inr ()"
proof -
  have "\<not> validLedger deps contract JUndef" using valid_not_undef by blast
  moreover have "ledgerView deps contract JUndef = JUndef"
    by (simp add: ledgerView_def normalizeRecoveryLedgerCompatibility_def jprop_def)
  ultimately show ?thesis
    using assms(4)
    by (simp add: writeLedger_def Let_def io_then_def io_bind_def assms(1,2) readContract_valid [OF assms(2,3)] io_simps
      parseOptional_def publishLastValid_def ledgerView_def validLedger_def)
qed

definition exampleContractDoc :: jsval where
  "exampleContractDoc = JObj [(''schema'', JStr LOOP_CONTRACT_SCHEMA), (''run_id'', JStr ''r''), (''engine'', JStr ''claude''),
     (''repo'', JObj []), (''items'', JArr [])]"

definition exampleLedgerDoc :: jsval where
  "exampleLedgerDoc = JObj [(''schema'', JStr LOOP_LEDGER_SCHEMA), (''run_id'', JStr ''r''), (''items'', JObj []),
     (''consecutive_blocked'', JNumNat 0), (''merge_barrier'', JNull), (''stop'', JNull), (''last_reconciliation'', JNull)]"

definition exampleWorld :: World where
  "exampleWorld = emptyWorld\<lparr>w_docs := [(contractPath ''/s/runs/r'', Written exampleContractDoc)],
     w_locks := [(lockPath ''/s/runs/r'', Written \<lparr>lk_engine = Claude, lk_pid = 1, lk_hostname = ''host'',
       lk_acquired_at = Iso 0, lk_token = ''t'', lk_run_id = ''r'', lk_starttime = None\<rparr>)]\<rparr>"

theorem ledger_survives_corruption_witness:
  "fst (readLedger (exampleDeps 1) ''r'' None
     ((snd (writeLedger (exampleDeps 1) exampleLedgerDoc ''t'' exampleWorld))\<lparr>w_docs :=
        AList.update (ledgerPath ''/s/runs/r'') (Foreign ''{'' None)
          (w_docs (snd (writeLedger (exampleDeps 1) exampleLedgerDoc ''t'' exampleWorld)))\<rparr>)) = Inr exampleLedgerDoc"
proof -
  let ?w = "snd (writeLedger (exampleDeps 1) exampleLedgerDoc ''t'' exampleWorld)"
  have dir: "runDir (exampleDeps 1) (strVal (jprop exampleLedgerDoc ''run_id'')) = Inr ''/s/runs/r''" by code_simp
  have hold: "holdsContract ''/s/runs/r'' exampleContractDoc exampleWorld" by code_simp
  have "fst (writeLedger (exampleDeps 1) exampleLedgerDoc ''t'' exampleWorld) = Inr ()"
    by (rule writeLedger_first [OF _ dir hold]) (simp_all add: requireToken_held [OF dir] exampleWorld_def emptyWorld_def)
  then have wrote: "writeLedger (exampleDeps 1) exampleLedgerDoc ''t'' exampleWorld = (Inr (), ?w)" by (simp add: prod_eq_iff)
  have view: "ledgerView (exampleDeps 1) exampleContractDoc exampleLedgerDoc = exampleLedgerDoc"
    by (simp add: ledgerView_def normalizeRecoveryLedgerCompatibility_def exampleLedgerDoc_def jprop_def)
  have valid: "validLedger (exampleDeps 1) exampleContractDoc (ledgerView (exampleDeps 1) exampleContractDoc exampleLedgerDoc)"
    unfolding view validLedger_def isLoopLedgerShape_def
    by (simp add: exampleLedgerDoc_def jprop_def isNonEmptyString_def isNumber_def jkeys_def isNullish_def JNumNat_def)
  have norm: "jsonNorm (ledgerView (exampleDeps 1) exampleContractDoc exampleLedgerDoc)
      = ledgerView (exampleDeps 1) exampleContractDoc exampleLedgerDoc"
    unfolding view by (simp add: exampleLedgerDoc_def JNumNat_def)
  have "ledgerView (exampleDeps 1) exampleContractDoc JUndef = JUndef"
    by (simp add: ledgerView_def normalizeRecoveryLedgerCompatibility_def jprop_def)
  then have bad: "corruptLedger (exampleDeps 1) exampleContractDoc (Foreign ''{'' None)"
    using valid_not_undef by (auto simp: corruptLedger_def parseJsonObject_def jprop_def isString_def)
  from ledger_survives_corruption [OF dir hold wrote valid norm bad, of None]
  show ?thesis unfolding view by (simp add: Let_def exampleLedgerDoc_def jprop_def strVal_def)
qed


section \<open>The supersession chain\<close>

lemma ledgerDirs_update [simp]:
  "(\<forall>d. p \<noteq> ledgerPath d) \<or> (\<exists>d\<in>ledgerDirs w. p = ledgerPath d)
   \<Longrightarrow> ledgerDirs (w\<lparr>w_docs := AList.update p t (w_docs w)\<rparr>) = ledgerDirs w"
  by (auto simp: ledgerDirs_def update_conv')

lemma ledgerDirs_calls [simp]: "ledgerDirs (w\<lparr>w_calls := n\<rparr>) = ledgerDirs w"
  by (simp add: ledgerDirs_def)

lemma quarantinePublished_ledgerDirs:
  assumes "d \<in> ledgerDirs w"
  shows "ledgerDirs (snd (quarantinePublished deps (ledgerPath d) raw reason kind policy nv w)) = ledgerDirs w"
proof -
  have d': "d \<in> ledgerDirs (w\<lparr>w_calls := n, w_docs := AList.update (quarantinePathFor (ledgerPath d) s) raw (w_docs w)\<rparr>)" for n s
    using assms by (simp add: ledgerDirs_def update_conv')
  show ?thesis
    using assms d'
    by (auto simp: quarantinePublished_def io_bind_def io_simps Let_def ledgerDirs_def update_conv'
      split: option.splits)
qed

lemma readLedger_None_token:
  assumes "readLedger deps runId None w = (Inr v, w')"
  shows "\<exists>dir. runDir deps runId = Inr dir \<and> dir \<in> ledgerDirs w \<and> ledgerDirs w' = ledgerDirs w"
proof -
  obtain dir where dir: "runDir deps runId = Inr dir"
    using assms by (auto simp: readLedger_def io_bind_def io_simps split: sum.splits)
  obtain t where t: "map_of (w_docs w) (ledgerPath dir) = Some t"
    using assms dir by (auto simp: readLedger_def io_bind_def io_simps Let_def split: option.splits)
  have mem: "dir \<in> ledgerDirs w" using t by (simp add: ledgerDirs_def)
  have pub: "ledgerDirs w1 = ledgerDirs w"
    if "readPublishedDocument deps (ledgerPath dir) LedgerKind None policy nv w = (Inr u, w1)" for policy nv u w1
  proof (cases "quarantinePublished deps (ledgerPath dir) t
      (if nv (parseJsonObject t) = JUndef then ''truncated_or_invalid_json'' else ''schema_failure'') LedgerKind policy nv w")
    case (Pair q w2)
    have "ledgerDirs w2 = ledgerDirs w"
      using quarantinePublished_ledgerDirs [OF mem] Pair by (metis snd_conv)
    then show ?thesis
      using that t Pair
      by (auto simp: readPublishedDocument_def afterQuarantine_def io_bind_def io_simps Let_def
        split: if_splits option.splits sum.splits)
  qed
  have "ledgerDirs w' = ledgerDirs w"
    using assms dir t pub
    by (auto simp: readLedger_def io_bind_def io_simps Let_def split: option.splits if_splits)
  with dir mem show ?thesis by blast
qed

lemma runDir_inject: "runDir deps a = Inr d \<Longrightarrow> runDir deps b = Inr d \<Longrightarrow> a = b"
proof -
  assume a: "runDir deps a = Inr d" and b: "runDir deps b = Inr d"
  have "joinPath (joinPath (resolveStateHome deps) ''runs'') a = joinPath (joinPath (resolveStateHome deps) ''runs'') b"
    using runDir_Inr [OF a] runDir_Inr [OF b] by simp
  then show "a = b" by (auto simp: joinPath_def split: if_splits)
qed

lemma card_ledgerDirs: "finite (ledgerDirs w)" "card (ledgerDirs w) \<le> length (w_docs w)"
proof -
  have sub: "ledgerDirs w \<subseteq> set (map (fst \<circ> fst) (w_docs w))"
    by (force simp: ledgerDirs_def ledgerPath_def dest: map_of_SomeD)
  then show "finite (ledgerDirs w)" using finite_subset by blast
  have "card (ledgerDirs w) \<le> card (set (map (fst \<circ> fst) (w_docs w)))" using sub by (rule card_mono [rotated]) simp
  also have "\<dots> \<le> length (w_docs w)" using card_length [of "map (fst \<circ> fst) (w_docs w)"] by simp
  finally show "card (ledgerDirs w) \<le> length (w_docs w)" .
qed

lemma length_read_runs:
  assumes "distinct prev" "\<And>r. r \<in> set prev \<Longrightarrow> \<exists>d. runDir deps r = Inr d \<and> d \<in> ledgerDirs w"
  shows "length prev \<le> card (ledgerDirs w)"
proof -
  let ?f = "\<lambda>r. projr (runDir deps r)"
  have "inj_on ?f (set prev)"
    by (rule inj_onI) (use assms(2) runDir_inject in \<open>metis sum.sel(2)\<close>)
  moreover have "?f ` set prev \<subseteq> ledgerDirs w" using assms(2) by fastforce
  ultimately have "card (set prev) \<le> card (ledgerDirs w)" using card_inj_on_le card_ledgerDirs(1) by blast
  with assms(1) show ?thesis by (simp add: distinct_card)
qed

text \<open>The runs already read all have a ledger, so the walk cannot be longer than the store.\<close>

lemma chainFrom_resolves:
  assumes "distinct seen" "seen = prev @ [current]"
    and "\<And>r. r \<in> set prev \<Longrightarrow> \<exists>d. runDir deps r = Inr d \<and> d \<in> ledgerDirs w"
    and "card (ledgerDirs w) + 2 \<le> fuel + length seen" "chainLength = length prev"
    and "chainFrom deps runId fuel current chainLength seen w = (Inr res, w')"
  shows "\<exists>head n ledger w1. res = Some (head, n) \<and> n \<le> card (ledgerDirs w)
    \<and> readLedger deps head None w1 = (Inr ledger, w') \<and> \<not> jsTruthy (jprop ledger ''superseded_by'')"
  using assms
proof (induction fuel arbitrary: current chainLength seen prev w)
  case 0
  have "length prev \<le> card (ledgerDirs w)" using 0(1,2,3) by (intro length_read_runs) auto
  with 0(2,4) show ?case by simp
next
  case (Suc fuel)
  from Suc.prems(6) obtain ledger w1 where r: "readLedger deps current None w = (Inr ledger, w1)"
    by (auto elim: io_bind_Inr_D)
  note d = readLedger_None_token [OF r]
  have lenprev: "length prev \<le> card (ledgerDirs w)" using Suc.prems(1,2,3) by (intro length_read_runs) auto
  let ?next = "jprop ledger ''superseded_by''"
  show ?case
  proof (cases "jsTruthy ?next")
    case False
    then have "res = Some (current, chainLength)" "w1 = w'"
      using Suc.prems(6) r by (simp_all add: io_bind_def io_simps Let_def)
    with False r lenprev Suc.prems(5) show ?thesis by blast
  next
    case True
    then have new: "strVal ?next \<notin> set seen"
      and rest: "chainFrom deps runId fuel (strVal ?next) (Suc chainLength) (seen @ [strVal ?next]) w1 = (Inr res, w')"
      using Suc.prems(6) r by (simp_all add: io_bind_def io_simps Let_def split: if_splits)
    have "\<exists>head n ledger w2. res = Some (head, n) \<and> n \<le> card (ledgerDirs w1)
      \<and> readLedger deps head None w2 = (Inr ledger, w') \<and> \<not> jsTruthy (jprop ledger ''superseded_by'')"
    proof (rule Suc.IH [OF _ _ _ _ _ rest])
      show "distinct (seen @ [strVal ?next])" "seen @ [strVal ?next] = seen @ [strVal ?next]"
        using Suc.prems(1) new by simp_all
      show "\<exists>d. runDir deps x = Inr d \<and> d \<in> ledgerDirs w1" if "x \<in> set seen" for x
        using that Suc.prems(2,3) d by auto
      show "card (ledgerDirs w1) + 2 \<le> fuel + length (seen @ [strVal ?next])" using Suc.prems(4) d by auto
      show "Suc chainLength = length seen" using Suc.prems(2,5) by simp
    qed
    with d show ?thesis by metis
  qed
qed

text \<open>C25: walking the supersession chain always ends, for any store: either with an error, or with the head of the chain,
  a run whose ledger was read as the last step and is not superseded, after at most as many
  supersessions as the store has documents; a cyclic chain never makes the walk run on.\<close>

theorem supersession_chain_resolves:
  "case resolveSupersessionChainHead deps runId w of
     (Inl e, w') \<Rightarrow> True
   | (Inr None, w') \<Rightarrow> False
   | (Inr (Some (head, n)), w') \<Rightarrow> n \<le> length (w_docs w)
       \<and> (\<exists>ledger w1. readLedger deps head None w1 = (Inr ledger, w') \<and> \<not> jsTruthy (jprop ledger ''superseded_by''))"
proof (cases "resolveSupersessionChainHead deps runId w")
  case (Pair r w')
  show ?thesis
  proof (cases r)
    case (Inr res)
    have eq: "chainFrom deps runId (Suc (Suc (length (w_docs w)))) runId 0 [runId] w = (Inr res, w')"
      using Pair Inr unfolding resolveSupersessionChainHead_def by simp
    have "\<exists>head n ledger w1. res = Some (head, n) \<and> n \<le> card (ledgerDirs w)
      \<and> readLedger deps head None w1 = (Inr ledger, w') \<and> \<not> jsTruthy (jprop ledger ''superseded_by'')"
      by (rule chainFrom_resolves [OF _ _ _ _ _ eq, of "[]"]) (use card_ledgerDirs(2) [of w] in simp_all)
    with Pair Inr card_ledgerDirs(2) [of w] show ?thesis by fastforce
  qed (simp add: Pair)
qed

section \<open>Initialization\<close>

lemma map_of_move_dir:
  assumes "\<not> has_dir dst m" "src \<noteq> dst"
  shows "map_of (move_dir src dst m) (d, b) =
    (if d = dst then map_of m (src, b) else if d = src then None else map_of m (d, b))"
  using assms by (induction m) (auto simp: move_dir_def has_dir_def split: if_splits)

lemma not_has_dir: "\<not> has_dir d m \<Longrightarrow> map_of m (d, b) = None"
  by (induction m) (auto simp: has_dir_def)

lemma has_dir_update [simp]: "has_dir d (AList.update p v m) \<longleftrightarrow> fst p = d \<or> has_dir d m"
  by (induction m) (auto simp: has_dir_def)

lemma removeFile_lookup [io_simps]:
  "removeFile p w = (Inr (), w\<lparr>w_docs := AList.delete p (w_docs w), w_logs := AList.delete p (w_logs w)\<rparr>)"
  by (simp add: removeFile_def)

lemmas path_defs = contractPath_def ledgerPath_def lastValidPathFor_def eventsPath_def

definition stagedDocs :: "string \<Rightarrow> jsval \<Rightarrow> jsval \<Rightarrow> World \<Rightarrow> World" where
  "stagedDocs staging contract ledger w = w\<lparr>w_calls := Suc (w_calls w), w_docs :=
     AList.update (lastValidPathFor (ledgerPath staging)) (stringify ledger)
      (AList.update (lastValidPathFor (contractPath staging)) (stringify contract)
       (AList.update (ledgerPath staging) (stringify ledger)
        (AList.update (contractPath staging) (stringify contract) (w_docs w))))\<rparr>"

definition stagedEvent :: "LoopStoreDeps \<Rightarrow> string \<Rightarrow> string \<Rightarrow> jsval \<Rightarrow> jsval \<Rightarrow> World \<Rightarrow> LoopEvent" where
  "stagedEvent deps runId staging contract ledger w =
     appendedEvent deps (eventsPath staging) ''run_initialized''
       (DataObj (JObj [(''run_id'', JStr runId), (''engine'', jprop contract ''engine'')])) (stagedDocs staging contract ledger w)"

definition stagedWorld :: "LoopStoreDeps \<Rightarrow> string \<Rightarrow> string \<Rightarrow> jsval \<Rightarrow> jsval \<Rightarrow> World \<Rightarrow> World" where
  "stagedWorld deps runId staging contract ledger w =
     snd (appendLog deps (eventsPath staging) ''run_initialized''
       (DataObj (JObj [(''run_id'', JStr runId), (''engine'', jprop contract ''engine'')])) (stagedDocs staging contract ledger w))"

text \<open>No file of a run directory.\<close>

definition noFiles :: "string \<Rightarrow> World \<Rightarrow> bool" where
  "noFiles dir w \<longleftrightarrow> \<not> has_dir dir (w_docs w) \<and> \<not> has_dir dir (w_locks w) \<and> \<not> has_dir dir (w_supervisors w)
     \<and> \<not> has_dir dir (w_logs w) \<and> \<not> has_dir dir (w_evidence w)"

lemma initRun_eq:
  assumes "runDir deps (strVal (jprop contract ''run_id'')) = Inr dir"
  shows "initRun deps contract ledger w =
    (let runId = strVal (jprop contract ''run_id''); staging = dir @ ''.init-'' @ de_uuid deps (w_calls w);
         w1 = stagedWorld deps runId staging contract ledger w
     in if map_of (w_docs w) (contractPath dir) \<noteq> None
        then (Inl (LoopError Conflict (''loop run '' @ quoted runId @ '' already exists -- resume it instead of re-initializing'')), w)
        else if fst (renameDirExclusive staging dir w1) = Inr True then (Inr (), snd (renameDirExclusive staging dir w1))
        else (Inl (LoopError Conflict (''loop run '' @ quoted runId
               @ '' was initialized concurrently -- resume it instead of re-initializing'')),
          w1\<lparr>w_docs := fold AList.delete [contractPath staging, ledgerPath staging, lastValidPathFor (contractPath staging),
                lastValidPathFor (ledgerPath staging), eventsPath staging] (w_docs w1),
             w_logs := fold AList.delete [contractPath staging, ledgerPath staging, lastValidPathFor (contractPath staging),
                lastValidPathFor (ledgerPath staging), eventsPath staging] (w_logs w1)\<rparr>))"
proof -
  let ?runId = "strVal (jprop contract ''run_id'')"
  let ?staging = "dir @ ''.init-'' @ de_uuid deps (w_calls w)"
  obtain e where app: "appendLog deps (eventsPath ?staging) ''run_initialized''
        (DataObj (JObj [(''run_id'', JStr ?runId), (''engine'', jprop contract ''engine'')]))
      (w\<lparr>w_calls := Suc (w_calls w), w_docs :=
         AList.update (lastValidPathFor (ledgerPath ?staging)) (stringify ledger)
          (AList.update (lastValidPathFor (contractPath ?staging)) (stringify contract)
           (AList.update (ledgerPath ?staging) (stringify ledger)
            (AList.update (contractPath ?staging) (stringify contract) (w_docs w))))\<rparr>)
      = (Inr e, stagedWorld deps ?runId ?staging contract ledger w)"
    unfolding stagedWorld_def stagedDocs_def appendLog_eq by simp
  have "\<exists>b w2. renameDirExclusive s d w1 = (Inr b, w2) \<and> (\<not> b \<longrightarrow> w2 = w1)" for s d w1
    unfolding renameDirExclusive_def by (cases "has_dir d (w_docs w1) \<or> has_dir d (w_locks w1) \<or> has_dir d (w_supervisors w1)
         \<or> has_dir d (w_logs w1) \<or> has_dir d (w_evidence w1)") auto
  then obtain b w2 where ren: "renameDirExclusive ?staging dir (stagedWorld deps ?runId ?staging contract ledger w) = (Inr b, w2)"
    and stay: "\<not> b \<longrightarrow> w2 = stagedWorld deps ?runId ?staging contract ledger w" by blast
  show ?thesis
    using app ren stay assms by (cases b) (simp_all add: initRun_def io_then_def io_bind_def io_simps Let_def)
qed


lemma staged_lookup:
  assumes "noFiles staging w" "staging \<noteq> dir"
  shows "map_of (w_docs (stagedWorld deps runId staging contract ledger w)) (d, b) =
      (if (d, b) \<in> {contractPath staging, lastValidPathFor (contractPath staging)} then Some (stringify contract)
       else if (d, b) \<in> {ledgerPath staging, lastValidPathFor (ledgerPath staging)} then Some (stringify ledger)
       else map_of (w_docs w) (d, b))"
    "map_of (w_logs (stagedWorld deps runId staging contract ledger w)) (d, b) =
      (if (d, b) = eventsPath staging then Some [Written (stagedEvent deps runId staging contract ledger w)]
       else map_of (w_logs w) (d, b))"
    "noFiles dir (stagedWorld deps runId staging contract ledger w) = noFiles dir w"
proof -
  have none: "map_of (w_logs w) (eventsPath staging) = None"
    using assms(1) not_has_dir unfolding noFiles_def eventsPath_def by blast
  show "map_of (w_docs (stagedWorld deps runId staging contract ledger w)) (d, b) =
      (if (d, b) \<in> {contractPath staging, lastValidPathFor (contractPath staging)} then Some (stringify contract)
       else if (d, b) \<in> {ledgerPath staging, lastValidPathFor (ledgerPath staging)} then Some (stringify ledger)
       else map_of (w_docs w) (d, b))"
    by (simp add: stagedWorld_def stagedDocs_def appendLog_eq update_conv' path_defs)
  show "map_of (w_logs (stagedWorld deps runId staging contract ledger w)) (d, b) =
      (if (d, b) = eventsPath staging then Some [Written (stagedEvent deps runId staging contract ledger w)]
       else map_of (w_logs w) (d, b))"
    using none by (simp add: stagedWorld_def stagedDocs_def stagedEvent_def appendLog_eq update_conv')
  show "noFiles dir (stagedWorld deps runId staging contract ledger w) = noFiles dir w"
    using assms(2) by (simp add: noFiles_def stagedWorld_def stagedDocs_def appendLog_eq path_defs)
qed

text \<open>C24: initialization of a run is all or nothing: with a fresh staging name, it succeeds exactly when the run directory holds no
  file at all; then the directory holds the contract and the ledger, each with its last-valid copy,
  and one initialization event, and every other document and log is as before. Otherwise it is a
  conflict, and every document and log, those of the existing run included, is as before. This holds also for a
  directory with a contract and no ledger: the code does not complete such an initialization, although the
  comment on \<open>initRun\<close> says that it does.\<close>

theorem init_run_atomic:
  assumes "runDir deps (strVal (jprop contract ''run_id'')) = Inr dir"
    and "noFiles (dir @ ''.init-'' @ de_uuid deps (w_calls w)) w"
  shows "case initRun deps contract ledger w of
      (Inr _, w') \<Rightarrow> noFiles dir w
        \<and> map_of (w_docs w') (contractPath dir) = Some (stringify contract)
        \<and> map_of (w_docs w') (ledgerPath dir) = Some (stringify ledger)
        \<and> map_of (w_docs w') (lastValidPathFor (contractPath dir)) = Some (stringify contract)
        \<and> map_of (w_docs w') (lastValidPathFor (ledgerPath dir)) = Some (stringify ledger)
        \<and> map_option length (map_of (w_logs w') (eventsPath dir)) = Some 1
        \<and> (\<forall>d b. d = dir \<or> map_of (w_docs w') (d, b) = map_of (w_docs w) (d, b)
             \<and> map_of (w_logs w') (d, b) = map_of (w_logs w) (d, b))
    | (Inl e, w') \<Rightarrow> \<not> noFiles dir w \<and> loopFailureClass e = Conflict
        \<and> map_of (w_docs w') = map_of (w_docs w) \<and> map_of (w_logs w') = map_of (w_logs w)"
proof -
  define runId staging where "runId = strVal (jprop contract ''run_id'')"
    and "staging = dir @ ''.init-'' @ de_uuid deps (w_calls w)"
  note init = initRun_eq [OF assms(1), of ledger w, folded runId_def staging_def, unfolded Let_def]
  define w1 where "w1 = stagedWorld deps runId staging contract ledger w"
  have ne: "staging \<noteq> dir" by (simp add: staging_def)
  have fresh: "noFiles staging w" using assms(2) by (simp add: staging_def)
  note st = staged_lookup [OF fresh ne, of deps runId contract ledger, folded w1_def]
  have empty: "map_of (w_docs w) (staging, b) = None" "map_of (w_logs w) (staging, b) = None" for b
    using fresh not_has_dir unfolding noFiles_def by blast+
  show ?thesis
  proof (cases "noFiles dir w")
    case True
    then have "map_of (w_docs w) (contractPath dir) = None"
      using not_has_dir unfolding noFiles_def contractPath_def by blast
    moreover have clear: "\<not> has_dir dir (w_docs w1)" "\<not> has_dir dir (w_logs w1)" and
      "\<not> has_dir dir (w_locks w1)" "\<not> has_dir dir (w_supervisors w1)" "\<not> has_dir dir (w_evidence w1)"
      using True st(3) by (simp_all add: noFiles_def)
    ultimately obtain w2 where w2: "initRun deps contract ledger w = (Inr (), w2)"
      "w_docs w2 = move_dir staging dir (w_docs w1)" "w_logs w2 = move_dir staging dir (w_logs w1)"
      using init by (simp_all add: renameDirExclusive_def w1_def)
    note mv = map_of_move_dir [OF clear(1) ne, folded w2] map_of_move_dir [OF clear(2) ne, folded w2]
    have frame: "map_of (w_docs w2) (d, b) = map_of (w_docs w) (d, b) \<and> map_of (w_logs w2) (d, b) = map_of (w_logs w) (d, b)"
      if "d \<noteq> dir" for d b
      using that empty by (simp add: mv st path_defs)
    have own: "map_of (w_docs w2) (contractPath dir) = Some (stringify contract)"
        "map_of (w_docs w2) (ledgerPath dir) = Some (stringify ledger)"
        "map_of (w_docs w2) (lastValidPathFor (contractPath dir)) = Some (stringify contract)"
        "map_of (w_docs w2) (lastValidPathFor (ledgerPath dir)) = Some (stringify ledger)"
        "map_option length (map_of (w_logs w2) (eventsPath dir)) = Some 1"
      by (simp_all add: mv st path_defs)
    show ?thesis using True frame own by (simp add: w2(1)) blast
  next
    case False
    then have "fst (renameDirExclusive staging dir w1) \<noteq> Inr True"
      using st(3) by (simp add: renameDirExclusive_def noFiles_def)
    then obtain msg w' where w': "initRun deps contract ledger w = (Inl (LoopError Conflict msg), w')"
      "w' = w \<or> (w_docs w' = fold AList.delete [contractPath staging, ledgerPath staging, lastValidPathFor (contractPath staging),
                lastValidPathFor (ledgerPath staging), eventsPath staging] (w_docs w1)
           \<and> w_logs w' = fold AList.delete [contractPath staging, ledgerPath staging, lastValidPathFor (contractPath staging),
                lastValidPathFor (ledgerPath staging), eventsPath staging] (w_logs w1))"
      using init unfolding w1_def by (cases "map_of (w_docs w) (contractPath dir)") auto
    have "map_of (fold AList.delete [contractPath staging, ledgerPath staging, lastValidPathFor (contractPath staging),
                lastValidPathFor (ledgerPath staging), eventsPath staging] (w_docs w1)) p = map_of (w_docs w) p"
        "map_of (fold AList.delete [contractPath staging, ledgerPath staging, lastValidPathFor (contractPath staging),
                lastValidPathFor (ledgerPath staging), eventsPath staging] (w_logs w1)) p = map_of (w_logs w) p" for p
      by (cases p, simp add: delete_conv' st path_defs empty)+
    with w'(2) have "map_of (w_docs w') = map_of (w_docs w) \<and> map_of (w_logs w') = map_of (w_logs w)"
      by (auto simp: fun_eq_iff)
    with False w'(1) show ?thesis by simp
  qed
qed

theorem init_run_atomic_witness:
  "map_of (w_docs (snd (initRun (exampleDeps 1) exampleContractDoc exampleLedgerDoc emptyWorld))) (ledgerPath ''/s/runs/r'')
     = Some (stringify exampleLedgerDoc)"
proof -
  have dir: "runDir (exampleDeps 1) (strVal (jprop exampleContractDoc ''run_id'')) = Inr ''/s/runs/r''" by code_simp
  have none: "noFiles d emptyWorld" for d by (simp add: noFiles_def emptyWorld_def has_dir_def)
  from init_run_atomic [OF dir none, of exampleLedgerDoc] none
  show ?thesis by (auto split: prod.splits sum.splits)
qed

end
