(* ===== verification/Loop_Run.thy ===== *)
theory Loop_Run
  imports Store_Documents Recovery_Select
begin

text \<open>
  Runs as the operations on them see them: the store of \<open>Store_Base\<close> with its locks, logs and clock,
  and the two documents of each run as values of the engine's types. \<open>readRunLedger\<close>,
  \<open>writeRunLedger\<close> and \<open>readRunContract\<close> are \<open>readLedger\<close>, \<open>writeLedger\<close> and \<open>readContract\<close> of
  \<open>core/scripts/loop/store.ts\<close> on documents that pass the shape checks; what the store does with any
  other text is the subject of \<open>Store_Documents\<close>. Records are compared by value, where the code
  compares their JSON text.

  Operations are reasoned about by the weakest-precondition rules of \<open>wp\<close>. The locale
  \<open>ledger_operation\<close> is the contract between an operation and the engine that runs it: what the
  operation may do to the ledger of its run, that it touches no other run, no contract and no lock,
  and that without the token of the current holder it changes no ledger. \<open>Recovery\<close> and \<open>Pause\<close> interpret it.
\<close>

section \<open>Typed runs\<close>

record RunWorld =
  rw_store :: World
  rw_contracts :: "(string \<times> LoopContract) list"
  rw_ledgers :: "(string \<times> LoopLedger) list"

type_synonym 'a run_io = "(RunWorld, 'a) st_io"

definition on_store :: "'a io \<Rightarrow> 'a run_io" where
  "on_store m w = (case m (rw_store w) of (r, s) \<Rightarrow> (r, w\<lparr>rw_store := s\<rparr>))"

definition rebaseAttempt :: "LoopRecoveryAttempt \<Rightarrow> LoopRecoveryAttempt" where
  "rebaseAttempt a =
     (if ra_class a \<noteq> WorkflowEngineDefect \<and> ra_invariant a \<noteq> Some (blockerClassName WorkflowEngineDefect) then a
      else (case ra_strategy_cursor a of None \<Rightarrow> a
            | Some c \<Rightarrow> if c < 3 then a else a\<lparr>ra_strategy_cursor := Some 3\<rparr>))"

definition policyNeedsRebase :: "jsval \<Rightarrow> bool" where
  "policyNeedsRebase policy =
     samePolicyEntry (if isPlainObject policy then jprop policy ''workflow-engine-defect'' else JUndef)
       (last (STALE_DEFAULT_POLICY_ENTRIES WorkflowEngineDefect))"

definition normalizeLedger :: "(string \<Rightarrow> string) \<Rightarrow> jsval \<Rightarrow> LoopLedger \<Rightarrow> LoopLedger" where
  "normalizeLedger sha256 policy ledger =
     ledger\<lparr>ll_recovery_attempts := map_option (map (\<lambda>a.
       let n = normalizeStartedAttempt sha256 a in if policyNeedsRebase policy then rebaseAttempt n else n))
       (ll_recovery_attempts ledger)\<rparr>"

definition quarantineOwned :: "LoopLedger \<Rightarrow> bool" where
  "quarantineOwned ledger \<longleftrightarrow>
     Option.bind (ll_cooling ledger) co_theme = Some DURABLE_GENERATION_QUARANTINE_THEME
     \<and> ll_last_reconciliation ledger = None"

definition waitBlocks :: "LoopLedger \<Rightarrow> LoopLedger \<Rightarrow> bool" where
  "waitBlocks current next \<longleftrightarrow>
     quarantineOwned current \<and> ll_last_reconciliation next = None
     \<and> (ll_items current \<noteq> ll_items next \<or> attemptsOf current \<noteq> attemptsOf next)"

definition runPolicy :: "RunWorld \<Rightarrow> string \<Rightarrow> jsval" where
  "runPolicy w dir = (case map_of (rw_contracts w) dir of None \<Rightarrow> JUndef | Some c \<Rightarrow> lc_recovery_policy c)"

definition readRunContract :: "LoopStoreDeps \<Rightarrow> string \<Rightarrow> LoopContract run_io" where
  "readRunContract deps runId =
     io_bind (io_lift (runDir deps runId)) (\<lambda>dir w.
       case map_of (rw_contracts w) dir of
         None \<Rightarrow> (Inl (LoopError Validation (''loop run '' @ quoted runId @ '' not found under '' @ dir)), w)
       | Some c \<Rightarrow> (Inr c, w))"

definition readRunLedger :: "LoopStoreDeps \<Rightarrow> string \<Rightarrow> LoopLedger run_io" where
  "readRunLedger deps runId =
     io_bind (io_lift (runDir deps runId)) (\<lambda>dir w.
       case map_of (rw_ledgers w) dir of
         None \<Rightarrow> (Inl (LoopError Validation (''loop run '' @ quoted runId @ '' ledger not found under '' @ dir)), w)
       | Some l \<Rightarrow> (Inr (normalizeLedger (de_sha256 deps) (runPolicy w dir) l), w))"

definition writeRunLedger :: "LoopStoreDeps \<Rightarrow> LoopLedger \<Rightarrow> string \<Rightarrow> unit run_io" where
  "writeRunLedger deps ledger token =
     (let runId = ll_run_id ledger
      in io_then (on_store (requireToken deps runId token))
        (io_bind (readRunContract deps runId) (\<lambda>contract.
         io_bind (io_lift (runDir deps runId)) (\<lambda>dir w.
           let normalizeValue = normalizeLedger (de_sha256 deps) (lc_recovery_policy contract);
               current = map_option normalizeValue (map_of (rw_ledgers w) dir);
               effective = normalizeValue ledger
           in if (case current of None \<Rightarrow> False | Some c \<Rightarrow> waitBlocks c effective)
              then (Inl (LoopError Validation
                (''quarantined generation wait requires live reconciliation before mutation; evidence=''
                 @ orElse (Option.bind (Option.bind current ll_cooling) co_quarantine_path) ''missing'')), w)
              else (Inr (), w\<lparr>rw_ledgers := AList.update dir effective (rw_ledgers w)\<rparr>)))))"

text \<open>The appends and the clock of the store, on a typed run.\<close>

definition runNow :: "LoopStoreDeps \<Rightarrow> timestamp run_io" where
  "runNow deps = io_bind (on_store (io_now deps)) (\<lambda>t. io_return (Iso t))"

definition runEvent :: "LoopStoreDeps \<Rightarrow> string \<Rightarrow> string \<Rightarrow> string \<Rightarrow> LogData \<Rightarrow> unit run_io" where
  "runEvent deps runId token kind data = io_then (on_store (appendEvent deps runId token kind data)) (io_return ())"

definition runDecision :: "LoopStoreDeps \<Rightarrow> string \<Rightarrow> string \<Rightarrow> string \<Rightarrow> LogData \<Rightarrow> unit run_io" where
  "runDecision deps runId token kind data = io_then (on_store (appendDecision deps runId token kind data)) (io_return ())"

text \<open>Fragments the operations share.\<close>

definition stoppedError :: "string \<Rightarrow> LoopLedger \<Rightarrow> LoopError" where
  "stoppedError runId ledger = LoopError Stop (''loop run '' @ quoted runId @ '' is already stopped: ''
     @ (case ll_stop ledger of None \<Rightarrow> [] | Some s \<Rightarrow> stopReasonName (st_reason s)))"

definition requireNotStopped :: "string \<Rightarrow> LoopLedger \<Rightarrow> string \<Rightarrow> unit result" where
  "requireNotStopped runId ledger itemId =
     (if compatibilityStopRefusesItem (ll_stop ledger) itemId then Inl (stoppedError runId ledger) else Inr ())"

definition updateItem :: "string \<Rightarrow> (LoopItemLedgerEntry \<Rightarrow> LoopItemLedgerEntry) \<Rightarrow> LoopLedger \<Rightarrow> LoopLedger" where
  "updateItem itemId f ledger =
     (case rec_get (ll_items ledger) itemId of None \<Rightarrow> ledger
      | Some item \<Rightarrow> ledger\<lparr>ll_items := rec_put itemId (f item) (ll_items ledger)\<rparr>)"

definition trimmed :: "string option \<Rightarrow> string" where
  "trimmed s = (case s of None \<Rightarrow> [] | Some t \<Rightarrow> js_trim t)"

definition optJs :: "string option \<Rightarrow> jsval" where
  "optJs s = (case s of None \<Rightarrow> JUndef | Some t \<Rightarrow> JStr t)"

definition firstNonEmpty :: "string \<Rightarrow> string \<Rightarrow> string" where
  "firstNonEmpty a b = (if a = [] then b else a)"

section \<open>Reasoning about operations\<close>

text \<open>\<open>wp m Q E w\<close>: run from \<open>w\<close>, the operation returns with \<open>Q\<close> or throws with \<open>E\<close>.\<close>

named_theorems wp_intros \<open>rules that decompose an operation\<close>

definition wp :: "('w, 'a) st_io \<Rightarrow> ('a \<Rightarrow> 'w \<Rightarrow> bool) \<Rightarrow> (LoopError \<Rightarrow> 'w \<Rightarrow> bool) \<Rightarrow> 'w \<Rightarrow> bool" where
  "wp m Q E w = (case m w of (Inl e, w') \<Rightarrow> E e w' | (Inr x, w') \<Rightarrow> Q x w')"

lemma wp_return [wp_intros]: "Q x w \<Longrightarrow> wp (io_return x) Q E w"
  by (simp add: wp_def io_return_def)

lemma wp_throw [wp_intros]: "E e w \<Longrightarrow> wp (io_throw e) Q E w"
  by (simp add: wp_def io_throw_def)

lemma wp_lift [wp_intros]:
  "(\<And>x. r = Inr x \<Longrightarrow> Q x w) \<Longrightarrow> (\<And>e. r = Inl e \<Longrightarrow> E e w) \<Longrightarrow> wp (io_lift r) Q E w"
  by (cases r) (simp_all add: wp_def io_lift_def)

lemma wp_bind [wp_intros]: "wp m (\<lambda>x. wp (f x) Q E) E w \<Longrightarrow> wp (io_bind m f) Q E w"
  by (simp add: wp_def io_bind_def split: prod.splits sum.splits)

lemma wp_then [wp_intros]: "wp m (\<lambda>_. wp k Q E) E w \<Longrightarrow> wp (io_then m k) Q E w"
  unfolding io_then_def by (rule wp_bind)

lemma wp_if [wp_intros]:
  "(b \<Longrightarrow> wp m Q E w) \<Longrightarrow> (\<not> b \<Longrightarrow> wp k Q E w) \<Longrightarrow> wp (if b then m else k) Q E w"
  by simp

lemma wp_option [wp_intros]:
  "(x = None \<Longrightarrow> wp m Q E w) \<Longrightarrow> (\<And>y. x = Some y \<Longrightarrow> wp (k y) Q E w)
    \<Longrightarrow> wp (case x of None \<Rightarrow> m | Some y \<Rightarrow> k y) Q E w"
  by (cases x) simp_all

lemma wp_prod [wp_intros]:
  "(\<And>a b. x = (a, b) \<Longrightarrow> wp (k a b) Q E w) \<Longrightarrow> wp (case x of (a, b) \<Rightarrow> k a b) Q E w"
  by (cases x) simp

lemma wp_mono:
  "wp m Q E w \<Longrightarrow> (\<And>x w'. Q x w' \<Longrightarrow> Q' x w') \<Longrightarrow> (\<And>e w'. E e w' \<Longrightarrow> E' e w') \<Longrightarrow> wp m Q' E' w"
  by (auto simp: wp_def split: prod.splits sum.splits)

lemma wpD: "wp m (\<lambda>_ w'. A w') (\<lambda>_ w'. A w') w \<Longrightarrow> A (snd (m w))"
  by (auto simp: wp_def split: prod.splits sum.splits)

lemma wp_success: "wp m Q E w \<Longrightarrow> m w = (Inr x, w') \<Longrightarrow> Q x w'"
  by (simp add: wp_def)

text \<open>The store after clock readings and appends: the same locks, and logs that only grew.\<close>

definition store_grows :: "World \<Rightarrow> World \<Rightarrow> bool" where
  "store_grows s s' \<longleftrightarrow> w_locks s' = w_locks s
     \<and> (\<forall>p. \<exists>new. orElse (map_of (w_logs s') p) [] = orElse (map_of (w_logs s) p) [] @ new)"

definition world_grows :: "RunWorld \<Rightarrow> RunWorld \<Rightarrow> bool" where
  "world_grows w w' \<longleftrightarrow> rw_contracts w' = rw_contracts w \<and> rw_ledgers w' = rw_ledgers w \<and> store_grows (rw_store w) (rw_store w')"

lemma store_grows_refl [simp]: "store_grows s s"
  by (simp add: store_grows_def)

lemma store_grows_trans: "store_grows s t \<Longrightarrow> store_grows t u \<Longrightarrow> store_grows s u"
  unfolding store_grows_def by (metis append.assoc)

lemma world_grows_refl [simp]: "world_grows w w"
  by (simp add: world_grows_def)

lemma world_grows_trans: "world_grows v w \<Longrightarrow> world_grows u v \<Longrightarrow> world_grows u w"
  unfolding world_grows_def by (metis store_grows_trans)

lemma grows_appendLog: "store_grows s (snd (appendLog deps p kind data s))"
  by (auto simp: store_grows_def appendLog_eq update_conv')

lemma grows_guarded:
  "store_grows s (snd (appendEvent deps runId token kind data s))"
  "store_grows s (snd (appendDecision deps runId token kind data s))"
  using requireToken_world [of deps runId token s]
  by (auto simp: appendEvent_def appendDecision_def appendEventUnchecked_def io_then_def io_bind_def io_lift_def
    grows_appendLog split: prod.splits sum.splits)

lemma wp_on_store:
  "(\<And>x s. m (rw_store w) = (Inr x, s) \<Longrightarrow> Q x (w\<lparr>rw_store := s\<rparr>))
    \<Longrightarrow> (\<And>e s. m (rw_store w) = (Inl e, s) \<Longrightarrow> E e (w\<lparr>rw_store := s\<rparr>)) \<Longrightarrow> wp (on_store m) Q E w"
  by (auto simp: wp_def on_store_def split: prod.splits sum.splits)

lemma requireToken_Inl: "requireToken deps runId token s = (Inl e, s') \<Longrightarrow> s' = s"
  using requireToken_world [of deps runId token s] by simp

lemma wp_requireToken [wp_intros]:
  "(\<And>l. requireToken deps runId token (rw_store w) = (Inr l, rw_store w) \<Longrightarrow> Q l w) \<Longrightarrow> (\<And>e. E e w)
    \<Longrightarrow> wp (on_store (requireToken deps runId token)) Q E w"
  by (rule wp_on_store) (auto dest: requireToken_Inl requireToken_Inr)

lemma wp_clock [wp_intros]:
  "(\<And>t w'. world_grows w w' \<Longrightarrow> Q t w') \<Longrightarrow> wp (on_store (io_now deps)) Q E w"
  "(\<And>u w'. world_grows w w' \<Longrightarrow> Q' u w') \<Longrightarrow> wp (on_store (io_uuid deps)) Q' E w"
  by (simp_all add: wp_def on_store_def io_simps world_grows_def store_grows_def)

lemma wp_runNow [wp_intros]: "(\<And>t w'. world_grows w w' \<Longrightarrow> Q (Iso t) w') \<Longrightarrow> wp (runNow deps) Q E w"
  unfolding runNow_def by (intro wp_intros)

lemma wp_append:
  assumes "\<And>s. store_grows s (snd (m s))" "\<And>w'. world_grows w w' \<Longrightarrow> Q () w'" "\<And>e w'. world_grows w w' \<Longrightarrow> E e w'"
  shows "wp (io_then (on_store m) (io_return ())) Q E w"
  using assms(1) [of "rw_store w"] assms(2,3)
  by (intro wp_intros wp_on_store) (auto simp: world_grows_def)

lemma wp_runEvent [wp_intros]:
  "(\<And>w'. world_grows w w' \<Longrightarrow> Q () w') \<Longrightarrow> (\<And>e w'. world_grows w w' \<Longrightarrow> E e w')
    \<Longrightarrow> wp (runEvent deps runId token kind data) Q E w"
  unfolding runEvent_def by (rule wp_append) (auto simp: grows_guarded)

lemma wp_runDecision [wp_intros]:
  "(\<And>w'. world_grows w w' \<Longrightarrow> Q () w') \<Longrightarrow> (\<And>e w'. world_grows w w' \<Longrightarrow> E e w')
    \<Longrightarrow> wp (runDecision deps runId token kind data) Q E w"
  unfolding runDecision_def by (rule wp_append) (auto simp: grows_guarded)

text \<open>A decision that was appended is the last line of the log.\<close>

lemma wp_runDecision_logged:
  assumes "\<And>w' dir e. world_grows w w' \<Longrightarrow> runDir deps runId = Inr dir
      \<Longrightarrow> orElse (map_of (w_logs (rw_store w')) (decisionsPath dir)) []
          = orElse (map_of (w_logs (rw_store w)) (decisionsPath dir)) [] @ [Written e]
      \<Longrightarrow> ev_kind e = kind \<Longrightarrow> ev_data e = data \<Longrightarrow> Q () w'"
    and "\<And>e w'. world_grows w w' \<Longrightarrow> E e w'"
  shows "wp (runDecision deps runId token kind data) Q E w"
  unfolding runDecision_def
proof (intro wp_intros wp_on_store)
  fix x s assume m: "appendDecision deps runId token kind data (rw_store w) = (Inr x, s)"
  then obtain dir where d: "runDir deps runId = Inr dir" "(x, s) = (appendedEvent deps (decisionsPath dir) kind data (rw_store w),
      snd (appendLog deps (decisionsPath dir) kind data (rw_store w)))"
    using requireToken_world [of deps runId token "rw_store w"]
    by (auto simp: appendDecision_def io_then_def io_bind_def io_lift_def appendLog_eq split: prod.splits sum.splits)
  have "store_grows (rw_store w) s" using m grows_guarded(2) [of "rw_store w" deps runId token kind data] by simp
  then show "Q () (w\<lparr>rw_store := s\<rparr>)"
    by (intro assms(1) [OF _ d(1), of _ x])
      (use d(2) in \<open>auto simp: world_grows_def appendLog_eq update_conv' appendedEvent_def\<close>)
next
  fix e s assume "appendDecision deps runId token kind data (rw_store w) = (Inl e, s)"
  then have "store_grows (rw_store w) s" using grows_guarded(2) [of "rw_store w" deps runId token kind data] by simp
  then show "E e (w\<lparr>rw_store := s\<rparr>)" by (intro assms(2)) (simp add: world_grows_def)
qed

lemma wp_readRunLedger [wp_intros]:
  assumes "\<And>dir l. runDir deps runId = Inr dir \<Longrightarrow> map_of (rw_ledgers w) dir = Some l
      \<Longrightarrow> Q (normalizeLedger (de_sha256 deps) (runPolicy w dir) l) w"
    and "\<And>e. E e w"
  shows "wp (readRunLedger deps runId) Q E w"
  using assms by (auto simp: wp_def readRunLedger_def io_bind_def io_lift_def split: sum.splits option.splits)

lemma wp_writeRunLedger:
  assumes "\<And>dir c lock. runDir deps (ll_run_id next) = Inr dir \<Longrightarrow> map_of (rw_contracts w) dir = Some c
      \<Longrightarrow> requireToken deps (ll_run_id next) token (rw_store w) = (Inr lock, rw_store w)
      \<Longrightarrow> Q () (w\<lparr>rw_ledgers := AList.update dir (normalizeLedger (de_sha256 deps) (lc_recovery_policy c) next) (rw_ledgers w)\<rparr>)"
    and "\<And>e. E e w"
  shows "wp (writeRunLedger deps next token) Q E w"
  unfolding writeRunLedger_def Let_def
  by (intro wp_intros assms)
    (use assms in \<open>auto simp: wp_def readRunContract_def io_bind_def io_lift_def split: sum.splits option.splits\<close>)

lemma updateItem_fields [simp]:
  "ll_run_id (updateItem i f l) = ll_run_id l" "ll_stop (updateItem i f l) = ll_stop l"
  "attemptsOf (updateItem i f l) = attemptsOf l"
  by (simp_all add: updateItem_def attemptsOf_def split: option.splits)

section \<open>The interface of an operation on a ledger\<close>

text \<open>Ledgers are filed under the directory of their own run id, and no item is listed twice.\<close>

definition runs_named :: "LoopStoreDeps \<Rightarrow> RunWorld \<Rightarrow> bool" where
  "runs_named deps w \<longleftrightarrow> (\<forall>dir l. map_of (rw_ledgers w) dir = Some l
     \<longrightarrow> runDir deps (ll_run_id l) = Inr dir \<and> rec_wf (ll_items l))"

text \<open>What a step keeps for the ledger to stay filed: its run id and its items' ids.\<close>

definition same_file :: "LoopLedger \<Rightarrow> LoopLedger \<Rightarrow> bool" where
  "same_file l next \<longleftrightarrow> ll_run_id next = ll_run_id l \<and> rec_keys (ll_items next) = rec_keys (ll_items l)"

text \<open>One step between stored ledgers: the reader's view of the first takes an abstract step, and
  publication normalizes the result.\<close>

definition stored_step ::
  "LoopStoreDeps \<Rightarrow> jsval \<Rightarrow> (LoopLedger \<Rightarrow> LoopLedger \<Rightarrow> bool) \<Rightarrow> LoopLedger \<Rightarrow> LoopLedger \<Rightarrow> bool" where
  "stored_step deps policy step a b \<longleftrightarrow>
     (\<exists>next. step (normalizeLedger (de_sha256 deps) policy a) next \<and> b = normalizeLedger (de_sha256 deps) policy next)"

definition advances ::
  "(LoopLedger \<Rightarrow> LoopLedger \<Rightarrow> bool) \<Rightarrow> LoopStoreDeps \<Rightarrow> string \<Rightarrow> RunWorld \<Rightarrow> RunWorld \<Rightarrow> bool" where
  "advances step deps runId w w' \<longleftrightarrow>
     rw_contracts w' = rw_contracts w \<and> store_grows (rw_store w) (rw_store w')
     \<and> (\<forall>dir. if runDir deps runId = Inr dir
          then rel_option (stored_step deps (runPolicy w dir) step)\<^sup>*\<^sup>* (map_of (rw_ledgers w) dir) (map_of (rw_ledgers w') dir)
          else map_of (rw_ledgers w') dir = map_of (rw_ledgers w) dir)"

lemma run_dir_shape:
  "runDir deps r = Inr d \<Longrightarrow> d = joinPath (resolveStateHome deps) ''runs'' @ ''/'' @ r"
  using runDir_Inr [of deps r d] by (auto simp: joinPath_def append_eq_Cons_conv)

lemma runDir_inj: "runDir deps r = Inr d \<Longrightarrow> runDir deps q = Inr d \<Longrightarrow> r = q"
  using run_dir_shape by (metis append_same_eq same_append_eq)

lemma normalizeLedger_fields [simp]:
  "ll_run_id (normalizeLedger sha policy l) = ll_run_id l" "ll_items (normalizeLedger sha policy l) = ll_items l"
  "ll_stop (normalizeLedger sha policy l) = ll_stop l" "ll_lifecycle (normalizeLedger sha policy l) = ll_lifecycle l"
  "ll_authority_amendments (normalizeLedger sha policy l) = ll_authority_amendments l"
  by (simp_all add: normalizeLedger_def)

lemma rel_option_refl_rtranclp [simp]: "rel_option R\<^sup>*\<^sup>* x x"
  by (simp add: option.rel_refl)

lemma advances_refl [simp]: "advances step deps runId w w"
  by (simp add: advances_def)

lemma advances_trans:
  assumes "advances step deps runId u v" "advances step deps runId v w"
  shows "advances step deps runId u w"
proof -
  have "runPolicy v = runPolicy u" using assms(1) by (auto simp: advances_def runPolicy_def fun_eq_iff)
  moreover have "rel_option R\<^sup>*\<^sup>* x z" if "rel_option R\<^sup>*\<^sup>* x y" "rel_option R\<^sup>*\<^sup>* y z" for R :: "'x \<Rightarrow> 'x \<Rightarrow> bool" and x y z
    using that by (cases x; cases y; cases z) auto
  ultimately show ?thesis using assms store_grows_trans unfolding advances_def by (metis (full_types))
qed

lemma advances_grows: "world_grows w w' \<Longrightarrow> advances step deps runId u w \<Longrightarrow> advances step deps runId u w'"
  unfolding advances_def world_grows_def by (metis store_grows_trans)

lemma advances_write:
  assumes "advances step deps runId u w" "runDir deps runId = Inr dir" "map_of (rw_ledgers w) dir = Some l"
    and "map_of (rw_contracts w) dir = Some c" "step (normalizeLedger (de_sha256 deps) (runPolicy w dir) l) next"
  shows "advances step deps runId u
    (w\<lparr>rw_ledgers := AList.update dir (normalizeLedger (de_sha256 deps) (lc_recovery_policy c) next) (rw_ledgers w)\<rparr>)"
proof (rule advances_trans [OF assms(1)])
  have "runPolicy w dir = lc_recovery_policy c" using assms(4) by (simp add: runPolicy_def)
  then have "stored_step deps (runPolicy w dir) step l (normalizeLedger (de_sha256 deps) (lc_recovery_policy c) next)"
    using assms(5) by (auto simp: stored_step_def)
  then show "advances step deps runId w
    (w\<lparr>rw_ledgers := AList.update dir (normalizeLedger (de_sha256 deps) (lc_recovery_policy c) next) (rw_ledgers w)\<rparr>)"
    using assms(2,3) by (auto simp: advances_def update_conv')
qed

lemma advances_ledger:
  assumes "advances step deps runId w w'" "map_of (rw_ledgers w') dir = Some b"
  shows "\<exists>a. map_of (rw_ledgers w) dir = Some a \<and> (stored_step deps (runPolicy w dir) step)\<^sup>*\<^sup>* a b"
proof -
  have "rel_option (stored_step deps (runPolicy w dir) step)\<^sup>*\<^sup>* (map_of (rw_ledgers w) dir) (map_of (rw_ledgers w') dir)"
    using assms(1) by (cases "runDir deps runId = Inr dir") (simp_all add: advances_def)
  then show ?thesis using assms(2) by (cases "map_of (rw_ledgers w) dir") auto
qed

lemma stored_steps_same_file:
  assumes "(stored_step deps policy step)\<^sup>*\<^sup>* a b" "\<And>l next. step l next \<Longrightarrow> same_file l next"
  shows "same_file a b"
  using assms(1) by (induction rule: rtranclp_induct) (auto simp: stored_step_def same_file_def dest!: assms(2))

lemma runs_named_steps:
  assumes "runs_named deps w" "advances step deps runId w w'" "\<And>l next. step l next \<Longrightarrow> same_file l next"
  shows "runs_named deps w'"
  unfolding runs_named_def
proof (intro allI impI)
  fix dir b assume "map_of (rw_ledgers w') dir = Some b"
  from advances_ledger [OF assms(2) this] obtain a
    where a: "map_of (rw_ledgers w) dir = Some a" "(stored_step deps (runPolicy w dir) step)\<^sup>*\<^sup>* a b" by blast
  from stored_steps_same_file [OF a(2) assms(3)] a(1) assms(1)
  show "runDir deps (ll_run_id b) = Inr dir \<and> rec_wf (ll_items b)"
    by (auto simp: runs_named_def same_file_def rec_wf_def)
qed

lemma requireToken_locks:
  assumes "w_locks s' = w_locks s" "requireToken deps runId token s = (Inl e, t)"
  shows "requireToken deps runId token s' = (Inl e, s')"
  using assms
  by (auto simp: requireToken_def io_bind_def readLock_eq io_simps split: sum.splits option.splits if_splits)

definition conforms ::
  "(LoopLedger \<Rightarrow> LoopLedger \<Rightarrow> bool) \<Rightarrow> LoopStoreDeps \<Rightarrow> string \<Rightarrow> string \<Rightarrow> RunWorld \<Rightarrow> RunWorld \<Rightarrow> bool" where
  "conforms step deps runId token w w' \<longleftrightarrow> advances step deps runId w w'
     \<and> (\<forall>e s. requireToken deps runId token (rw_store w) = (Inl e, s) \<longrightarrow> rw_ledgers w' = rw_ledgers w)"

lemma conforms_refl [simp]: "conforms step deps runId token w w"
  by (simp add: conforms_def)

lemma conforms_grows:
  "world_grows w w' \<Longrightarrow> conforms step deps runId token u w \<Longrightarrow> conforms step deps runId token u w'"
  by (auto simp: conforms_def intro: advances_grows) (metis world_grows_def)

lemma world_grows_ledgers: "world_grows w w' \<Longrightarrow> rw_ledgers w' = rw_ledgers w"
  by (simp add: world_grows_def)

lemma conforms_trans:
  assumes "conforms step deps runId token u v" "conforms step deps runId token v w"
  shows "conforms step deps runId token u w"
proof -
  have "w_locks (rw_store v) = w_locks (rw_store u)" using assms(1) by (simp add: conforms_def advances_def store_grows_def)
  then show ?thesis
    using assms advances_trans requireToken_locks unfolding conforms_def by metis
qed

lemma conforms_of_grows: "world_grows w w' \<Longrightarrow> conforms step deps runId token w w'"
  by (rule conforms_grows [OF _ conforms_refl])

lemmas grow_intros = conforms_refl conforms_of_grows conforms_grows world_grows_refl world_grows_trans

text \<open>Writing the next ledger of the run that was read.\<close>

lemma wp_commit:
  assumes "runs_named deps u" "runDir deps runId = Inr dir" "map_of (rw_ledgers u) dir = Some l"
    and grows: "world_grows u w"
    and "step (normalizeLedger (de_sha256 deps) (runPolicy u dir) l) next" "ll_run_id next = ll_run_id l"
    and Q: "\<And>w'. conforms step deps runId token u w' \<Longrightarrow> Q () w'" and E: "\<And>e. E e w"
  shows "wp (writeRunLedger deps next token) Q E w"
proof (rule wp_writeRunLedger)
  fix dir' c lock
  assume d: "runDir deps (ll_run_id next) = Inr dir'" and c: "map_of (rw_contracts w) dir' = Some c"
    and lock: "requireToken deps (ll_run_id next) token (rw_store w) = (Inr lock, rw_store w)"
  have named: "runDir deps (ll_run_id l) = Inr dir" using assms(1,3) by (simp add: runs_named_def)
  then have id: "ll_run_id next = runId" "dir' = dir"
    using assms(2,6) d runDir_inj [of deps "ll_run_id l" dir runId] by simp_all
  have adv: "advances step deps runId u w" by (rule advances_grows [OF grows advances_refl])
  then have pol: "runPolicy w dir = runPolicy u dir" by (simp add: advances_def runPolicy_def)
  have "advances step deps runId u
      (w\<lparr>rw_ledgers := AList.update dir (normalizeLedger (de_sha256 deps) (lc_recovery_policy c) next) (rw_ledgers w)\<rparr>)"
    by (rule advances_write [OF adv assms(2)]) (use assms(3,5) world_grows_ledgers [OF grows] c id pol in auto)
  moreover have "requireToken deps runId token (rw_store u) \<noteq> (Inl e, s)" for e s
    using requireToken_locks [of "rw_store w" "rw_store u" deps runId token e s] adv lock id
    by (auto simp: advances_def store_grows_def)
  ultimately show "Q () (w\<lparr>rw_ledgers := AList.update dir' (normalizeLedger (de_sha256 deps) (lc_recovery_policy c) next) (rw_ledgers w)\<rparr>)"
    using id by (intro Q) (simp add: conforms_def)
qed (rule E)

text \<open>The ledger a reader of the run sees.\<close>

definition viewOf :: "LoopStoreDeps \<Rightarrow> string \<Rightarrow> RunWorld \<Rightarrow> LoopLedger option" where
  "viewOf deps runId w = (case runDir deps runId of Inl _ \<Rightarrow> None
     | Inr dir \<Rightarrow> map_option (normalizeLedger (de_sha256 deps) (runPolicy w dir)) (map_of (rw_ledgers w) dir))"

lemma viewOf_Some: "runDir deps runId = Inr dir \<Longrightarrow> map_of (rw_ledgers w) dir = Some l
    \<Longrightarrow> viewOf deps runId w = Some (normalizeLedger (de_sha256 deps) (runPolicy w dir) l)"
  by (simp add: viewOf_def)

lemma normalize_cursor:
  "normalizeStartedAttempt sha (a\<lparr>ra_strategy_cursor := c\<rparr>) = (normalizeStartedAttempt sha a)\<lparr>ra_strategy_cursor := c\<rparr>"
  by (simp add: normalizeStartedAttempt_def Let_def)

lemma rebaseAttempt_cases: "rebaseAttempt a = a \<or> rebaseAttempt a = a\<lparr>ra_strategy_cursor := Some 3\<rparr>"
  by (simp add: rebaseAttempt_def split: option.splits)

lemma rebaseAttempt_idem: "rebaseAttempt (rebaseAttempt a) = rebaseAttempt a"
  by (simp add: rebaseAttempt_def split: option.splits)

lemma rebased_normal:
  "normalizeStartedAttempt sha (rebaseAttempt (normalizeStartedAttempt sha a)) = rebaseAttempt (normalizeStartedAttempt sha a)"
  using rebaseAttempt_cases [of "normalizeStartedAttempt sha a"] by (elim disjE) (simp_all add: normalize_cursor)

lemma normalizeLedger_idem [simp]:
  "normalizeLedger sha policy (normalizeLedger sha policy l) = normalizeLedger sha policy l"
  by (simp add: normalizeLedger_def option.map_comp comp_def Let_def rebased_normal rebaseAttempt_idem cong: if_cong)

lemma wp_runEvent_held:
  assumes "requireToken deps runId token (rw_store w) = (Inr lock, rw_store w)" "\<And>w'. world_grows w w' \<Longrightarrow> Q () w'"
  shows "wp (runEvent deps runId token kind data) Q E w"
proof -
  obtain dir where "runDir deps runId = Inr dir" using requireToken_Inr [OF assms(1)] by blast
  with assms(1) have "appendEvent deps runId token kind data (rw_store w)
      = appendLog deps (eventsPath dir) kind data (rw_store w)"
    by (simp add: appendEvent_def appendEventUnchecked_def io_then_def io_bind_def io_lift_def)
  then show ?thesis
    using grows_appendLog [of "rw_store w" deps "eventsPath dir" kind data] assms(2)
    unfolding runEvent_def by (intro wp_intros wp_on_store) (auto simp: appendLog_eq world_grows_def)
qed

text \<open>The write of a run that is filed under its own id: the token stays valid for the events that follow.\<close>

lemma wp_write_named:
  assumes "runs_named deps u" "runDir deps runId = Inr dir" "map_of (rw_ledgers u) dir = Some l"
    and "world_grows u w" "ll_run_id next = ll_run_id l" "\<And>e. E e w"
    and "\<And>c lock. map_of (rw_contracts w) dir = Some c \<Longrightarrow> requireToken deps runId token (rw_store w) = (Inr lock, rw_store w)
      \<Longrightarrow> Q () (w\<lparr>rw_ledgers := AList.update dir (normalizeLedger (de_sha256 deps) (lc_recovery_policy c) next) (rw_ledgers w)\<rparr>)"
  shows "wp (writeRunLedger deps next token) Q E w"
proof (rule wp_writeRunLedger)
  fix dir' c lock
  assume d: "runDir deps (ll_run_id next) = Inr dir'" and c: "map_of (rw_contracts w) dir' = Some c"
    and lock: "requireToken deps (ll_run_id next) token (rw_store w) = (Inr lock, rw_store w)"
  have "runDir deps (ll_run_id l) = Inr dir" using assms(1,3) by (simp add: runs_named_def)
  then have "ll_run_id next = runId" "dir' = dir"
    using assms(2,5) d runDir_inj [of deps "ll_run_id l" dir runId] by simp_all
  with c lock assms(7) show "Q () (w\<lparr>rw_ledgers := AList.update dir' (normalizeLedger (de_sha256 deps) (lc_recovery_policy c) next) (rw_ledgers w)\<rparr>)"
    by simp
qed (rule assms(6))

text \<open>How the operations end: the next ledger is written, an event is appended, a value is returned. An
  operation that throws here has written nothing, and one that returns has published its ledger.\<close>

lemma wp_publish:
  assumes "runs_named deps u" "runDir deps runId = Inr dir" "map_of (rw_ledgers u) dir = Some l"
    and "world_grows u w" "ll_run_id next = ll_run_id l" "\<And>e. E e w"
    and "\<And>w'. viewOf deps runId w' = Some (normalizeLedger (de_sha256 deps) (runPolicy u dir) next)
      \<Longrightarrow> store_grows (rw_store w) (rw_store w') \<Longrightarrow> Q x w'"
  shows "wp (io_then (writeRunLedger deps next token) (io_then (runEvent deps runId token kind data) (io_return x))) Q E w"
proof (rule wp_then, rule wp_write_named [OF assms(1-5)])
  fix c lock assume c: "map_of (rw_contracts w) dir = Some c"
    and lock: "requireToken deps runId token (rw_store w) = (Inr lock, rw_store w)"
  have policy: "runPolicy u dir = lc_recovery_policy c" using c assms(4) by (simp add: runPolicy_def world_grows_def)
  show "wp (io_then (runEvent deps runId token kind data) (io_return x)) Q E
      (w\<lparr>rw_ledgers := AList.update dir (normalizeLedger (de_sha256 deps) (lc_recovery_policy c) next) (rw_ledgers w)\<rparr>)"
    by (intro wp_then wp_runEvent_held wp_return assms(7))
      (use lock policy assms(2) c in \<open>auto simp: viewOf_def world_grows_def runPolicy_def update_conv'\<close>)
qed (rule assms(6))

text \<open>The contract every mutating operation of the engine keeps: whatever it returns or throws, the
  run's ledger advanced by the operation's abstract steps only, other runs, contracts and locks are
  untouched, and without the current holder's token no ledger changes.\<close>

locale ledger_operation =
  fixes deps :: LoopStoreDeps and runId :: string and step :: "LoopLedger \<Rightarrow> LoopLedger \<Rightarrow> bool"
    and op :: "string \<Rightarrow> 'a run_io"
  assumes op_conforms: "runs_named deps w \<Longrightarrow> conforms step deps runId token w (snd (op token w))"
    and step_files: "step l next \<Longrightarrow> same_file l next"
begin

lemma op_advances: "runs_named deps w \<Longrightarrow> advances step deps runId w (snd (op token w))"
  using op_conforms by (simp add: conforms_def)

lemma ledger_after:
  assumes "runs_named deps w" "map_of (rw_ledgers (snd (op token w))) dir = Some b"
  obtains a where "map_of (rw_ledgers w) dir = Some a" "(stored_step deps (runPolicy w dir) step)\<^sup>*\<^sup>* a b"
  using advances_ledger [OF op_advances [OF assms(1), of token] assms(2)] by blast

lemma keeps_names: "runs_named deps w \<Longrightarrow> runs_named deps (snd (op token w))"
  by (rule runs_named_steps [OF _ op_advances]) (auto dest: step_files)

lemma keeps_invariant:
  assumes "runs_named deps w" and "\<And>dir l. map_of (rw_ledgers w) dir = Some l \<Longrightarrow> holds l"
    and "\<And>l next. holds l \<Longrightarrow> step l next \<Longrightarrow> holds next"
    and "\<And>policy l. holds l \<Longrightarrow> holds (normalizeLedger (de_sha256 deps) policy l)"
    and "map_of (rw_ledgers (snd (op token w))) dir = Some b"
  shows "holds b"
proof -
  from ledger_after [OF assms(1,5)] obtain a
    where a: "map_of (rw_ledgers w) dir = Some a" "(stored_step deps (runPolicy w dir) step)\<^sup>*\<^sup>* a b" .
  from a(2) assms(2) [OF a(1)] show ?thesis
    by (induction rule: rtranclp_induct) (auto simp: stored_step_def intro: assms(3,4))
qed

end

end
