(* ===== verification/Precondition.thy ===== *)
theory Precondition
  imports Loop_Types "HOL-Library.Multiset" "HOL-Library.AList"
begin

text \<open>
  The stage gate of a work-list item, \<open>core/scripts/loop/precondition.ts\<close>: which live pipeline stage an
  item's labels stand for, which stages are before, inside or after the pipeline, which pending items
  a cycle excludes, and whether a dispatch window saw a label event. The lemmas show that the stage is
  the most advanced one any label names, whatever the order of the labels, and that the comparison of two
  label histories is inclusion of multisets.
\<close>

section \<open>Stages and labels\<close>

definition STAGES :: "string list" where
  "STAGES = [''backlog'', ''needs-spec'', ''ready'', ''planning'', ''plan-review'', ''pre-code-attestation'',
     ''implementing'', ''design-gate'', ''review-1'', ''fix-1'', ''review-2'', ''fix-2'', ''pre-merge'',
     ''visual-gate'', ''eval-gate'', ''shipcheck-gate'', ''ready-to-deploy'', ''needs-human'']"

definition LABEL_PREFIX :: string where
  "LABEL_PREFIX = ''pipeline:''"

definition BLOCKED_LABEL :: string where
  "BLOCKED_LABEL = ''blocked''"

definition PRECONDITION_REQUIRED_STAGE :: string where
  "PRECONDITION_REQUIRED_STAGE = LABEL_PREFIX @ ''ready''"

definition PRE_PIPELINE_STAGE_SUFFIXES :: "string list" where
  "PRE_PIPELINE_STAGE_SUFFIXES = [''backlog'', ''needs-spec'']"

definition NON_MID_FLIGHT_STAGE_SUFFIXES :: "string list" where
  "NON_MID_FLIGHT_STAGE_SUFFIXES = [''backlog'', ''needs-spec'', ''ready'', ''ready-to-deploy'', ''needs-human'']"

definition MID_FLIGHT_STAGE_SUFFIXES :: "string list" where
  "MID_FLIGHT_STAGE_SUFFIXES = filter (\<lambda>s. s \<notin> set NON_MID_FLIGHT_STAGE_SUFFIXES) STAGES"

definition isPrePipelineStage :: "string option \<Rightarrow> bool" where
  "isPrePipelineStage stage = (case stage of None \<Rightarrow> True | Some s \<Rightarrow> s \<in> set PRE_PIPELINE_STAGE_SUFFIXES)"

definition isMidFlightPipelineStage :: "string option \<Rightarrow> bool" where
  "isMidFlightPipelineStage stage =
     (case stage of None \<Rightarrow> False
      | Some s \<Rightarrow> if s \<in> set NON_MID_FLIGHT_STAGE_SUFFIXES then False
          else if s \<in> set MID_FLIGHT_STAGE_SUFFIXES then True else True)"

definition isAdvanceStillNeeded :: "LoopExternalIdentity \<Rightarrow> bool" where
  "isAdvanceStillNeeded identity =
     (if ei_pr_number identity = None \<or> ei_pr_state identity \<noteq> Some PrOpen then False
      else if ei_ready_label_present identity then False
      else if ei_pipeline_stage identity = Some ''needs-human'' then False
      else True)"

definition describeObservedStage :: "string option \<Rightarrow> string" where
  "describeObservedStage stage = (case stage of None \<Rightarrow> ''none'' | Some s \<Rightarrow> LABEL_PREFIX @ s)"

text \<open>One turn of the loop over the labels; the state is the best index so far, \<open>-1\<close> at the start.\<close>

definition stageStep :: "string \<Rightarrow> string option \<times> int \<Rightarrow> string option \<times> int" where
  "stageStep label s =
     (if \<not> js_startsWith label LABEL_PREFIX then s
      else (let suffix = drop (length LABEL_PREFIX) label;
                index = (case index_of suffix STAGES of None \<Rightarrow> -1 | Some i \<Rightarrow> int i)
            in if index > snd s then (Some (STAGES ! nat index), index) else s))"

definition pipelineStageFromLabels :: "string list \<Rightarrow> string option" where
  "pipelineStageFromLabels labels = fst (fold stageStep labels (None, -1))"

definition isBlockedInLabels :: "string list \<Rightarrow> bool" where
  "isBlockedInLabels labels \<longleftrightarrow> BLOCKED_LABEL \<in> set labels"

section \<open>Exclusions\<close>

definition buildPreconditionExclusion :: "string \<Rightarrow> string option \<Rightarrow> LoopPreconditionExclusion" where
  "buildPreconditionExclusion itemId stage =
     \<lparr>px_item_id = itemId, px_required_stage = PRECONDITION_REQUIRED_STAGE,
      px_observed_stage = describeObservedStage stage\<rparr>"

definition exclusionFor :: "LoopLedger \<Rightarrow> LoopContractItem \<Rightarrow> LoopPreconditionExclusion option" where
  "exclusionFor ledger item =
     (let observed = (case ll_last_reconciliation ledger of None \<Rightarrow> [] | Some r \<Rightarrow> rc_observed r)
      in case rec_get (ll_items ledger) (ci_id item) of
           None \<Rightarrow> None
         | Some entry \<Rightarrow> if le_state entry \<noteq> Pending then None
             else (case rec_get observed (ci_id item) of
               None \<Rightarrow> None
             | Some identity \<Rightarrow> if \<not> isPrePipelineStage (ei_pipeline_stage identity) then None
                 else Some (buildPreconditionExclusion (ci_id item) (ei_pipeline_stage identity))))"

definition classifyPreconditionExclusions :: "LoopContract \<Rightarrow> LoopLedger \<Rightarrow> LoopPreconditionExclusion list" where
  "classifyPreconditionExclusions contract ledger = List.map_filter (exclusionFor ledger) (lc_items contract)"

definition excludeContractItems :: "LoopContract \<Rightarrow> string list \<Rightarrow> LoopContract" where
  "excludeContractItems contract excludedItemIds =
     (if excludedItemIds = [] then contract
      else contract\<lparr>lc_items := filter (\<lambda>item. ci_id item \<notin> set excludedItemIds) (lc_items contract)\<rparr>)"

section \<open>Label histories\<close>

record LabelEvent =
  lv_label :: string
  lv_createdAt :: string

definition labelEventKey :: "LabelEvent \<Rightarrow> string" where
  "labelEventKey e = lv_label e @ ''|'' @ lv_createdAt e"

definition countEvents :: "LabelEvent list \<Rightarrow> (string \<times> nat) list" where
  "countEvents before = fold (\<lambda>e remaining.
     let k = labelEventKey e in AList.update k (orElse (map_of remaining k) 0 + 1) remaining) before []"

fun consumeEvents :: "(string \<times> nat) list \<Rightarrow> LabelEvent list \<Rightarrow> bool" where
  "consumeEvents remaining [] = False"
| "consumeEvents remaining (e # es) =
     (let k = labelEventKey e; count = orElse (map_of remaining k) 0
      in if count = 0 then True else consumeEvents (AList.update k (count - 1) remaining) es)"

definition hasNewLabelEvent :: "LabelEvent list \<Rightarrow> LabelEvent list \<Rightarrow> bool" where
  "hasNewLabelEvent before after = consumeEvents (countEvents before) after"

section \<open>What they compute\<close>

definition stageIndex :: "string \<Rightarrow> nat option" where
  "stageIndex label = (if js_startsWith label LABEL_PREFIX then index_of (drop (length LABEL_PREFIX) label) STAGES else None)"

lemma map_filter_snoc:
  "List.map_filter f (xs @ [x]) = List.map_filter f xs @ (case f x of None \<Rightarrow> [] | Some y \<Rightarrow> [y])"
  by (simp add: map_filter_def split: option.splits)

lemma fold_stageStep:
  "fold stageStep labels (None, -1) = (let is = List.map_filter stageIndex labels
     in if is = [] then (None, -1) else (Some (STAGES ! Max (set is)), int (Max (set is))))"
proof (induction labels rule: rev_induct)
  case (snoc l labels)
  show ?case
  proof (cases "stageIndex l")
    case None
    then have "stageStep l s = s" if "snd s \<ge> -1" for s
      using that by (auto simp: stageStep_def stageIndex_def Let_def split: if_splits)
    with snoc None show ?thesis by (simp add: map_filter_snoc Let_def)
  next
    case (Some i)
    then have step: "stageStep l s = (if int i > snd s then (Some (STAGES ! i), int i) else s)" for s
      by (simp add: stageStep_def stageIndex_def Let_def split: if_splits)
    show ?thesis
    proof (cases "List.map_filter stageIndex labels = []")
      case False
      define m where "m = Max (set (List.map_filter stageIndex labels))"
      have "Max (insert i (set (List.map_filter stageIndex labels))) = max i m" using False by (simp add: m_def)
      moreover have "fold stageStep labels (None, -1) = (Some (STAGES ! m), int m)" using snoc False by (simp add: m_def Let_def)
      ultimately show ?thesis using Some by (simp add: map_filter_snoc step Let_def max_def del: Max_insert)
    qed (use snoc Some in \<open>simp add: map_filter_snoc step Let_def\<close>)
  qed
qed (simp add: map_filter_simps)

lemma stage_from_labels:
  "pipelineStageFromLabels labels = (let is = List.map_filter stageIndex labels
     in if is = [] then None else Some (STAGES ! Max (set is)))"
  by (simp add: pipelineStageFromLabels_def fold_stageStep Let_def)

lemma count_countEvents: "orElse (map_of (countEvents before) k) 0 = count (mset (map labelEventKey before)) k"
proof (induction before rule: rev_induct)
  case (snoc e es)
  then show ?case by (auto simp: countEvents_def Let_def update_conv')
qed (simp add: countEvents_def)

lemma consumeEvents_iff:
  assumes "\<And>k. orElse (map_of remaining k) 0 = count M k"
  shows "consumeEvents remaining es \<longleftrightarrow> \<not> mset (map labelEventKey es) \<subseteq># M"
  using assms
proof (induction es arbitrary: remaining M)
  case (Cons e es)
  let ?k = "labelEventKey e"
  show ?case
  proof (cases "count M ?k = 0")
    case False
    then have "orElse (map_of (AList.update ?k (count M ?k - 1) remaining) k) 0 = count (M - {#?k#}) k" for k
      using Cons.prems by (auto simp: update_conv')
    from Cons.IH [OF this] show ?thesis
      using False Cons.prems by (simp add: Let_def insert_subset_eq_iff) (metis Cons.prems count_eq_zero_iff)
  qed (use Cons.prems in \<open>simp add: Let_def insert_subset_eq_iff count_eq_zero_iff\<close>)
qed simp

text \<open>The dispatch safety net sees exactly the new label events. \<open>hasNewLabelEvent\<close> answers false if and
  only if the label history after a dispatch is contained in the history before it as a multiset of
  (label, time) keys: a round trip through another stage is seen although it leaves the labels as they were,
  and an event recorded twice before is not mistaken for a new one.\<close>

lemma label_history_compared_as_multiset:
  "hasNewLabelEvent before after \<longleftrightarrow> \<not> mset (map labelEventKey after) \<subseteq># mset (map labelEventKey before)"
  unfolding hasNewLabelEvent_def by (rule consumeEvents_iff) (rule count_countEvents)

end
