(* ===== verification/Observation.thy ===== *)
theory Observation
  imports Loop_Run Precondition
begin

text \<open>
  The engine's own view of the outside world. \<open>core/scripts/operation-observation.ts\<close> says when the
  pull requests linked to an issue prove that its change is integrated; \<open>observeExternalIdentity\<close> of
  \<open>core/scripts/loop/reconcile.ts\<close> reads GitHub and git through the injected seam and binds one item to a
  structured identity.

  The seam is a parameter: \<open>ReconcileObserveDeps\<close> holds one function per call, each of which is given the
  number of the call, so that two reads may differ, and may throw. The functions the code marks optional
  are options. What the model needs of them is nothing: every lemma holds for every seam.
\<close>

section \<open>Side-effect certainty\<close>

definition mayReplaySideEffect :: "SideEffectCertainty \<Rightarrow> bool" where
  "mayReplaySideEffect certainty \<longleftrightarrow> certainty = KnownAbsent"

datatype SideEffectTreatment = TreatComplete | TreatReplay | TreatCooling

definition treatmentForSideEffectCertainty :: "SideEffectCertainty \<Rightarrow> SideEffectTreatment" where
  "treatmentForSideEffectCertainty certainty =
     (if certainty = KnownComplete then TreatComplete
      else if certainty = KnownAbsent then TreatReplay
      else TreatCooling)"

record LinkedPrIntegrationFact =
  lp_number :: int
  lp_state :: PrState
  lp_merge_commit_sha :: "string option"
  lp_contained :: "bool option"
  lp_artifact_role :: "ArtifactRole option"
  lp_artifact_identity :: "string option"
  lp_candidate_sha :: "string option"
  lp_candidate_epoch :: "string option"
  lp_logical_operation_id :: "string option"

record ExpectedLinkedPrBinding =
  eb_candidateSha :: "string option"
  eb_logicalOperationId :: "string option"

definition trimLower :: "string option \<Rightarrow> string" where
  "trimLower s = (case s of None \<Rightarrow> [] | Some t \<Rightarrow> js_lower (js_trim t))"

definition isExactLinkedImplementation :: "LinkedPrIntegrationFact \<Rightarrow> ExpectedLinkedPrBinding \<Rightarrow> bool" where
  "isExactLinkedImplementation pr expected =
     (let sha = trimLower (lp_candidate_sha pr);
          epoch = trimLower (lp_candidate_epoch pr);
          expectedSha = trimLower (eb_candidateSha expected);
          expectedOperation = trimmed (eb_logicalOperationId expected)
      in lp_artifact_role pr = Some ImplementationRole \<and> trimmed (lp_artifact_identity pr) \<noteq> []
         \<and> sha \<noteq> [] \<and> sha = epoch \<and> (expectedSha = [] \<or> sha = expectedSha)
         \<and> (expectedOperation = [] \<or> map_option js_trim (lp_logical_operation_id pr) = Some expectedOperation))"

definition integrationSideEffectCertainty ::
  "LinkedPrIntegrationFact list \<Rightarrow> bool \<Rightarrow> bool \<Rightarrow> ExpectedLinkedPrBinding \<Rightarrow> SideEffectCertainty" where
  "integrationSideEffectCertainty linked truncated incompleteDetails expected =
     (if list_ex (\<lambda>pr. lp_state pr = PrMerged \<and> lp_contained pr = Some True
           \<and> isExactLinkedImplementation pr expected) linked then KnownComplete
      else if truncated \<or> incompleteDetails then Uncertain
      else if list_ex (\<lambda>pr. lp_state pr = PrMerged) linked then Uncertain
      else KnownAbsent)"

text \<open>The two permissions, \<open>openSuccessorPr\<close> and \<open>rebaseContainedCommits\<close>.\<close>

definition successorMutationsAllowed :: "SideEffectCertainty \<Rightarrow> bool \<times> bool" where
  "successorMutationsAllowed certainty = (let allowed = (certainty = KnownAbsent) in (allowed, allowed))"

definition selectAuthoritativeLinkedPr ::
  "LinkedPrIntegrationFact list \<Rightarrow> ExpectedLinkedPrBinding \<Rightarrow> LinkedPrIntegrationFact option" where
  "selectAuthoritativeLinkedPr linked expected =
     (case find (\<lambda>pr. lp_state pr = PrMerged \<and> lp_contained pr = Some True
             \<and> isExactLinkedImplementation pr expected) linked of
        Some pr \<Rightarrow> Some pr
      | None \<Rightarrow> (case find (\<lambda>pr. lp_state pr = PrOpen \<and> isExactLinkedImplementation pr expected) linked of
          Some pr \<Rightarrow> Some pr
        | None \<Rightarrow> (case find (\<lambda>pr. lp_state pr = PrMerged) linked of
            Some pr \<Rightarrow> Some pr
          | None \<Rightarrow> (case linked of [] \<Rightarrow> None | pr # _ \<Rightarrow> Some pr))))"

record ArchiveReplay =
  ax_archive_certainty :: SideEffectCertainty
  ax_replay_archive :: bool
  ax_dirty_fail_closed :: bool
  ax_rebase_in_progress :: bool

definition archiveReplayDecision :: "bool \<Rightarrow> bool \<Rightarrow> string list \<Rightarrow> ArchiveReplay" where
  "archiveReplayDecision archiveAlreadyDone rebaseInProgress productDirt =
     (let certainty = (if archiveAlreadyDone then KnownComplete else if rebaseInProgress then Uncertain else KnownAbsent)
      in \<lparr>ax_archive_certainty = certainty, ax_replay_archive = mayReplaySideEffect certainty,
          ax_dirty_fail_closed = (productDirt \<noteq> []), ax_rebase_in_progress = rebaseInProgress\<rparr>)"

section \<open>Checks, commits, item ids\<close>

record ChecksAggregate =
  cg_passed :: bool
  cg_pending :: bool
  cg_failed :: "string list"

definition checkStep :: "string \<Rightarrow> bool \<times> bool \<times> string list \<Rightarrow> bool \<times> bool \<times> string list" where
  "checkStep rawBucket s = (case s of (passed, pending, failed) \<Rightarrow>
     (let bucket = js_lower rawBucket
      in if bucket = ''pass'' \<or> bucket = ''skipping'' then s
         else if bucket = ''fail'' \<or> bucket = ''cancel'' then (False, pending, failed @ [bucket])
         else (passed, True, failed)))"

text \<open>A check run is its bucket here: the names only label the failures.\<close>

definition parseChecksAggregate :: "string list \<Rightarrow> ChecksAggregate" where
  "parseChecksAggregate checks =
     (case fold checkStep checks (True, False, []) of (passed, pending, failed) \<Rightarrow>
        \<lparr>cg_passed = passed \<and> \<not> pending, cg_pending = pending, cg_failed = failed\<rparr>)"

definition deriveChecksConclusion :: "string list \<Rightarrow> ChecksConclusion" where
  "deriveChecksConclusion checks =
     (if checks = [] then ChecksNone
      else (let a = parseChecksAggregate checks
            in if cg_failed a \<noteq> [] then ChecksFailure
               else if cg_pending a then ChecksPending
               else if cg_passed a then ChecksSuccess else ChecksPending))"

definition allDigits :: "string \<Rightarrow> bool" where
  "allDigits s \<longleftrightarrow> s \<noteq> [] \<and> list_all is_digit s"

definition OPENSPEC_ARCHIVE_PREFIX :: string where
  "OPENSPEC_ARCHIVE_PREFIX = ''chore: archive OpenSpec change(s) for #''"

definition VISUAL_PUBLISH_COMMIT_PREFIX :: string where
  "VISUAL_PUBLISH_COMMIT_PREFIX = ''chore: publish visual-gate evidence for #''"

definition visualPublishCommit :: "string \<Rightarrow> bool" where
  "visualPublishCommit s \<longleftrightarrow> js_startsWith s VISUAL_PUBLISH_COMMIT_PREFIX
     \<and> allDigits (drop (length VISUAL_PUBLISH_COMMIT_PREFIX) s)"

definition docsRegenerateCommit :: "string \<Rightarrow> bool" where
  "docsRegenerateCommit s =
     (let prefix = ''docs: regenerate generated docs (#''; rest = drop (length prefix) s
      in js_startsWith s prefix \<and> rest \<noteq> [] \<and> last rest = CHR '')'' \<and> allDigits (butlast rest))"

definition isPipelineInternalCommit :: "string \<Rightarrow> bool" where
  "isPipelineInternalCommit messageHeadline \<longleftrightarrow>
     js_startsWith messageHeadline OPENSPEC_ARCHIVE_PREFIX \<or> visualPublishCommit messageHeadline
     \<or> docsRegenerateCommit messageHeadline"

text \<open>\<open>Number(s)\<close> of a string: white space is trimmed, the empty string is zero, then a radix literal,
  \<open>Infinity\<close>, or a signed decimal with an optional fraction and exponent.\<close>

definition radixDigit :: "nat \<Rightarrow> char \<Rightarrow> nat option" where
  "radixDigit base c =
     (let n = of_char c; v = (if is_digit c then digit_val c
            else if 97 \<le> n \<and> n \<le> 102 then n - 87 else if 65 \<le> n \<and> n \<le> 70 then n - 55 else base)
      in if v < base then Some v else None)"

definition radixNumber :: "nat \<Rightarrow> string \<Rightarrow> jsnum" where
  "radixNumber base s =
     (if s = [] \<or> list_ex (\<lambda>c. radixDigit base c = None) s then NaN
      else Fin (of_nat (foldl (\<lambda>acc c. acc * base + the (radixDigit base c)) 0 s)))"

definition exponentOf :: "string \<Rightarrow> int option" where
  "exponentOf s =
     (case s of [] \<Rightarrow> Some 0
      | c # r \<Rightarrow> if c \<noteq> CHR ''e'' \<and> c \<noteq> CHR ''E'' then None
          else (let sign = (if take 1 r = ''-'' then -1 else 1);
                    digits = (if take 1 r = ''-'' \<or> take 1 r = ''+'' then drop 1 r else r)
                in if allDigits digits then Some (sign * int (digits_val digits 0)) else None))"

definition decimalNumber :: "string \<Rightarrow> jsnum" where
  "decimalNumber s =
     (let whole = takeWhile is_digit s; r = dropWhile is_digit s;
          frac = (if take 1 r = ''.'' then takeWhile is_digit (drop 1 r) else []);
          rest = (if take 1 r = ''.'' then dropWhile is_digit (drop 1 r) else r)
      in if whole = [] \<and> frac = [] then NaN
         else (case exponentOf rest of None \<Rightarrow> NaN
           | Some e \<Rightarrow> Fin (of_nat (digits_val (whole @ frac) 0) * 10 powi (e - int (length frac)))))"

definition js_number :: "string \<Rightarrow> jsnum" where
  "js_number raw =
     (let s = js_trim raw; sign = take 1 s; body = (if sign = ''-'' \<or> sign = ''+'' then drop 1 s else s)
      in if s = [] then Fin 0
         else if js_startsWith (js_lower s) ''0x'' then radixNumber 16 (drop 2 s)
         else if js_startsWith (js_lower s) ''0o'' then radixNumber 8 (drop 2 s)
         else if js_startsWith (js_lower s) ''0b'' then radixNumber 2 (drop 2 s)
         else if body = ''Infinity'' then (if sign = ''-'' then NegInf else PosInf)
         else (case decimalNumber body of Fin q \<Rightarrow> Fin (if sign = ''-'' then - q else q) | n \<Rightarrow> n))"

definition parseItemIssueNumber :: "string \<Rightarrow> int result" where
  "parseItemIssueNumber itemId =
     (case js_number itemId of
        Fin n \<Rightarrow> if ratIsInteger n \<and> n > 0 then Inr \<lfloor>n\<rfloor>
          else Inl (LoopError Validation (''item id '' @ quoted itemId
                 @ '' is not a valid issue number -- reconciliation cannot observe it''))
      | _ \<Rightarrow> Inl (LoopError Validation (''item id '' @ quoted itemId
               @ '' is not a valid issue number -- reconciliation cannot observe it'')))"

section \<open>The seam\<close>

record PrDetail =
  pd_state :: PrState
  pd_head_ref :: string
  pd_head_sha :: string
  pd_merge_commit_sha :: "string option"
  pd_body :: "string option"

record PrCommit =
  pc_oid :: string
  pc_messageHeadline :: string

record ArtifactBinding =
  ab_role :: ArtifactRole
  ab_artifactIdentity :: "string option"
  ab_candidateSha :: "string option"
  ab_candidateEpoch :: "string option"
  ab_logicalOperationId :: "string option"

record LocalHead =
  lh_branch :: string
  lh_sha :: string
  lh_rebase_in_progress :: "bool option"
  lh_product_dirt :: "bool option"

datatype ListedPrs = BarePrs "int list" | LinkedIssuePrs "int list" bool

text \<open>The result is the numbers and whether the scan was truncated.\<close>

definition normalizeLinkedIssuePrs :: "ListedPrs \<Rightarrow> int list \<times> bool" where
  "normalizeLinkedIssuePrs listed = (case listed of BarePrs ns \<Rightarrow> (ns, False) | LinkedIssuePrs ns truncated \<Rightarrow> (ns, truncated))"

record ReconcileObserveDeps =
  ob_getIssueStateAndLabels :: "nat \<Rightarrow> int \<Rightarrow> (bool \<times> string list) option result"
  ob_findPrForIssue :: "nat \<Rightarrow> int \<Rightarrow> int option result"
  ob_listLinkedPrs :: "(nat \<Rightarrow> int \<Rightarrow> ListedPrs result) option"
  ob_getPrDetail :: "nat \<Rightarrow> int \<Rightarrow> PrDetail option result"
  ob_getPrChecks :: "nat \<Rightarrow> int \<Rightarrow> string list result"
  ob_getPrCommits :: "(nat \<Rightarrow> int \<Rightarrow> PrCommit list result) option"
  ob_getPrArtifactBinding :: "(nat \<Rightarrow> int \<Rightarrow> PrDetail \<Rightarrow> ArtifactBinding result) option"
  ob_getLocalHead :: "nat \<Rightarrow> int \<Rightarrow> LocalHead option result"
  ob_baseBranchContainsSha :: "nat \<Rightarrow> string \<Rightarrow> bool option result"
  ob_now :: "nat \<Rightarrow> int"

text \<open>One call through the seam, numbered like the calls of the clock.\<close>

definition observe :: "(nat \<Rightarrow> 'a result) \<Rightarrow> 'a run_io" where
  "observe f = on_store (\<lambda>s. (f (w_calls s), s\<lparr>w_calls := Suc (w_calls s)\<rparr>))"

text \<open>\<open>try\<close> with a default in the \<open>catch\<close>.\<close>

definition io_catch :: "('w, 'a) st_io \<Rightarrow> 'a \<Rightarrow> ('w, 'a) st_io" where
  "io_catch m d w = (case m w of (Inl _, w') \<Rightarrow> (Inr d, w') | (Inr x, w') \<Rightarrow> (Inr x, w'))"

section \<open>One item's live identity\<close>

text \<open>The linked pull requests, in order: the details read so far, the facts, whether one was unreadable.\<close>

record LinkedScan =
  ls_details :: "(int \<times> PrDetail option) list"
  ls_facts :: "LinkedPrIntegrationFact list"
  ls_incomplete :: bool

definition noArtifact :: ArtifactBinding where
  "noArtifact = \<lparr>ab_role = UnknownRole, ab_artifactIdentity = None, ab_candidateSha = None, ab_candidateEpoch = None,
     ab_logicalOperationId = None\<rparr>"

definition linkedFact :: "int \<Rightarrow> PrDetail \<Rightarrow> bool option \<Rightarrow> ArtifactBinding \<Rightarrow> LinkedPrIntegrationFact" where
  "linkedFact n detail isContained artifact =
     \<lparr>lp_number = n, lp_state = pd_state detail, lp_merge_commit_sha = pd_merge_commit_sha detail,
      lp_contained = isContained, lp_artifact_role = Some (ab_role artifact),
      lp_artifact_identity = ab_artifactIdentity artifact, lp_candidate_sha = ab_candidateSha artifact,
      lp_candidate_epoch = ab_candidateEpoch artifact, lp_logical_operation_id = ab_logicalOperationId artifact\<rparr>"

fun scanLinked :: "ReconcileObserveDeps \<Rightarrow> int list \<Rightarrow> LinkedScan \<Rightarrow> LinkedScan run_io" where
  "scanLinked deps [] s = io_return s"
| "scanLinked deps (n # ns) s =
     io_bind (observe (\<lambda>k. ob_getPrDetail deps k n)) (\<lambda>found.
       let s1 = s\<lparr>ls_details := AList.update n found (ls_details s)\<rparr>
       in case found of
            None \<Rightarrow> scanLinked deps ns (s1\<lparr>ls_incomplete := True\<rparr>)
          | Some detail \<Rightarrow>
              io_bind (if pd_state detail = PrMerged \<and> truthy (pd_merge_commit_sha detail)
                then observe (\<lambda>k. ob_baseBranchContainsSha deps k (the (pd_merge_commit_sha detail)))
                else io_return None) (\<lambda>isContained.
              io_bind (case ob_getPrArtifactBinding deps of
                  None \<Rightarrow> io_return noArtifact
                | Some f \<Rightarrow> observe (\<lambda>k. f k n detail)) (\<lambda>artifact.
              scanLinked deps ns (s1\<lparr>ls_facts := ls_facts s @ [linkedFact n detail isContained artifact]\<rparr>))))"

text \<open>The newest commit up to the head that is not the pipeline's own.\<close>

definition candidateEpochOf :: "PrCommit list \<Rightarrow> string \<Rightarrow> string option" where
  "candidateEpochOf commits head_sha =
     (let same = (\<lambda>c. js_lower (js_trim (pc_oid c)) = js_lower (js_trim head_sha))
      in if list_ex same commits
         then (let upTo = takeWhile (Not \<circ> same) commits @ take 1 (dropWhile (Not \<circ> same) commits)
               in Some (case find (\<lambda>c. \<not> isPipelineInternalCommit (pc_messageHeadline c)) (rev upTo) of
                    Some c \<Rightarrow> js_lower (js_trim (pc_oid c))
                  | None \<Rightarrow> js_lower (js_trim head_sha)))
         else None)"

text \<open>What the chosen pull request contributes; the default when there is none.\<close>

record PrProjection =
  pj_number :: "int option"
  pj_state :: "PrState option"
  pj_head_branch :: string
  pj_head_sha :: string
  pj_merge_commit_sha :: "string option"
  pj_checks :: ChecksConclusion
  pj_epoch :: "string option option"

definition noPr :: PrProjection where
  "noPr = \<lparr>pj_number = None, pj_state = None, pj_head_branch = [], pj_head_sha = [], pj_merge_commit_sha = None,
     pj_checks = ChecksNone, pj_epoch = None\<rparr>"

definition projectPr :: "ReconcileObserveDeps \<Rightarrow> int \<Rightarrow> PrDetail \<Rightarrow> PrProjection run_io" where
  "projectPr deps n detail =
     io_bind (observe (\<lambda>k. ob_getPrChecks deps k n)) (\<lambda>checks.
     io_bind (case ob_getPrCommits deps of
         None \<Rightarrow> io_return None
       | Some f \<Rightarrow> io_catch (io_bind (observe (\<lambda>k. f k n)) (\<lambda>commits.
           io_return (Some (candidateEpochOf commits (pd_head_sha detail))))) (Some None)) (\<lambda>epoch.
     io_return \<lparr>pj_number = Some n, pj_state = Some (pd_state detail), pj_head_branch = pd_head_ref detail,
       pj_head_sha = pd_head_sha detail, pj_merge_commit_sha = pd_merge_commit_sha detail,
       pj_checks = deriveChecksConclusion checks, pj_epoch = epoch\<rparr>))"

definition observeChosen :: "ReconcileObserveDeps \<Rightarrow> LinkedScan \<Rightarrow> int option \<Rightarrow> PrProjection run_io" where
  "observeChosen deps scan chosen =
     (case chosen of None \<Rightarrow> io_return noPr
      | Some n \<Rightarrow> io_bind (case map_of (ls_details scan) n of
            Some (Some detail) \<Rightarrow> io_return (Some detail)
          | _ \<Rightarrow> observe (\<lambda>k. ob_getPrDetail deps k n)) (\<lambda>found.
          case found of None \<Rightarrow> io_return noPr | Some detail \<Rightarrow> projectPr deps n detail))"

definition choosePr ::
  "SideEffectCertainty \<Rightarrow> int option \<Rightarrow> LinkedPrIntegrationFact option \<Rightarrow> int option" where
  "choosePr certainty foundPrNumber authoritative =
     (if certainty = KnownComplete
      then (case authoritative of Some f \<Rightarrow> Some (lp_number f) | None \<Rightarrow> foundPrNumber)
      else (case foundPrNumber of Some n \<Rightarrow> Some n | None \<Rightarrow> map_option lp_number authoritative))"

definition READY_LABEL :: string where
  "READY_LABEL = LABEL_PREFIX @ ''ready-to-deploy''"

definition observeExternalIdentity ::
  "ReconcileObserveDeps \<Rightarrow> string \<Rightarrow> string option \<Rightarrow> LoopExternalIdentity run_io" where
  "observeExternalIdentity deps itemId expectedLogicalOperationId =
     io_bind (io_lift (parseItemIssueNumber itemId)) (\<lambda>issueNumber.
     io_bind (observe (\<lambda>k. ob_getIssueStateAndLabels deps k issueNumber)) (\<lambda>issue.
     io_bind (observe (\<lambda>k. ob_findPrForIssue deps k issueNumber)) (\<lambda>foundPrNumber.
     io_bind (case ob_listLinkedPrs deps of
         None \<Rightarrow> io_return None
       | Some f \<Rightarrow> io_bind (observe (\<lambda>k. f k issueNumber)) (\<lambda>l. io_return (Some (normalizeLinkedIssuePrs l)))) (\<lambda>listed.
     let labels = (case issue of None \<Rightarrow> [] | Some (_, ls) \<Rightarrow> ls);
         linked_pr_numbers = (case listed of Some (ns, _) \<Rightarrow> ns
           | None \<Rightarrow> (case foundPrNumber of Some n \<Rightarrow> [n] | None \<Rightarrow> []))
     in io_bind (scanLinked deps linked_pr_numbers \<lparr>ls_details = [], ls_facts = [], ls_incomplete = False\<rparr>) (\<lambda>scan.
     let currentPrDetail = Option.bind foundPrNumber (\<lambda>n. Option.bind (map_of (ls_details scan) n) id)
     in io_bind (if currentPrDetail \<noteq> None
          then io_catch (observe (\<lambda>k. ob_getLocalHead deps k issueNumber)) None
          else observe (\<lambda>k. ob_getLocalHead deps k issueNumber)) (\<lambda>local.
     let binding = \<lparr>eb_candidateSha = (case local of Some l \<Rightarrow> Some (lh_sha l) | None \<Rightarrow> map_option pd_head_sha currentPrDetail),
           eb_logicalOperationId = expectedLogicalOperationId\<rparr>;
         certainty = integrationSideEffectCertainty (ls_facts scan)
           (case listed of None \<Rightarrow> False | Some (_, truncated) \<Rightarrow> truncated) (ls_incomplete scan) binding;
         authoritative = (if listed \<noteq> None then selectAuthoritativeLinkedPr (ls_facts scan) binding
           else (case ls_facts scan of [] \<Rightarrow> None | f # _ \<Rightarrow> Some f));
         chosen = choosePr certainty foundPrNumber authoritative;
         projected = (case find (\<lambda>f. Some (lp_number f) = chosen) (ls_facts scan) of Some f \<Rightarrow> Some f | None \<Rightarrow> authoritative)
     in io_bind (observeChosen deps scan chosen) (\<lambda>pr.
        io_bind (observe (\<lambda>k. Inr (ob_now deps k))) (\<lambda>t.
          let useLocal = (pj_head_branch pr = [] \<and> local \<noteq> None)
          in io_return \<lparr>ei_issue_number = issueNumber,
            ei_issue_open = (case issue of None \<Rightarrow> False | Some (isOpen, _) \<Rightarrow> isOpen),
            ei_ready_label_present = (READY_LABEL \<in> set labels),
            ei_blocked_label_present = isBlockedInLabels labels,
            ei_pr_number = pj_number pr, ei_pr_state = pj_state pr,
            ei_head_branch = (if useLocal then lh_branch (the local) else pj_head_branch pr),
            ei_head_sha = (if useLocal then lh_sha (the local) else pj_head_sha pr),
            ei_merge_commit_sha = pj_merge_commit_sha pr, ei_checks_conclusion = pj_checks pr,
            ei_pipeline_stage = pipelineStageFromLabels labels, ei_observed_at = Iso t,
            ei_local_head_sha = map_option lh_sha local,
            ei_rebase_in_progress = Some (Option.bind local lh_rebase_in_progress = Some True),
            ei_product_dirt = Some (Option.bind local lh_product_dirt = Some True),
            ei_integration_certainty = Some certainty,
            ei_artifact_role = Some (orElse (Option.bind projected lp_artifact_role) UnknownRole),
            ei_artifact_identity = Option.bind projected lp_artifact_identity,
            ei_candidate_epoch = Option.bind projected lp_candidate_epoch,
            ei_logical_candidate_epoch = pj_epoch pr,
            ei_logical_operation_id = Option.bind projected lp_logical_operation_id,
            ei_expected_logical_operation_id = expectedLogicalOperationId,
            ei_linked_pr_numbers = Some linked_pr_numbers\<rparr>))))))))"

section \<open>What an observation changes and what it shows\<close>

text \<open>Calls through the seam and the clock only advance the call counter.\<close>

definition later :: "RunWorld \<Rightarrow> RunWorld \<Rightarrow> bool" where
  "later w w' \<longleftrightarrow> world_grows w w' \<and> w_calls (rw_store w) \<le> w_calls (rw_store w')"

lemma later_refl [simp]: "later w w"
  by (simp add: later_def)

lemma later_trans: "later v w \<Longrightarrow> later u v \<Longrightarrow> later u w"
  by (auto simp: later_def intro: world_grows_trans)

lemma later_grows: "later w w' \<Longrightarrow> world_grows w w'"
  by (simp add: later_def)

lemma wp_observe:
  assumes "\<And>x w'. f (w_calls (rw_store w)) = Inr x \<Longrightarrow> later w w' \<Longrightarrow> w_calls (rw_store w) < w_calls (rw_store w') \<Longrightarrow> Q x w'"
    and "\<And>e w'. later w w' \<Longrightarrow> E e w'"
  shows "wp (observe f) Q E w"
proof -
  have "later w (w\<lparr>rw_store := rw_store w\<lparr>w_calls := Suc (w_calls (rw_store w))\<rparr>\<rparr>)"
    by (simp add: later_def world_grows_def store_grows_def)
  with assms show ?thesis by (simp add: wp_def observe_def on_store_def split: sum.splits)
qed

lemma wp_catch: "wp m Q (\<lambda>_. Q d) w \<Longrightarrow> wp (io_catch m d) Q E w"
  by (auto simp: wp_def io_catch_def split: prod.splits sum.splits)

text \<open>The seam named the pull request for the issue, answered that it is merged, and answered that the base
  branch contains its merge commit.\<close>

definition pr_linked :: "ReconcileObserveDeps \<Rightarrow> int \<Rightarrow> int \<Rightarrow> bool" where
  "pr_linked deps issue n \<longleftrightarrow> (\<exists>k. ob_findPrForIssue deps k issue = Inr (Some n))
     \<or> (\<exists>f k listed. ob_listLinkedPrs deps = Some f \<and> f k issue = Inr listed \<and> n \<in> set (fst (normalizeLinkedIssuePrs listed)))"

definition merge_contained :: "ReconcileObserveDeps \<Rightarrow> int \<Rightarrow> bool" where
  "merge_contained deps n \<longleftrightarrow> (\<exists>j k detail sha. ob_getPrDetail deps j n = Inr (Some detail) \<and> pd_state detail = PrMerged
     \<and> pd_merge_commit_sha detail = Some sha \<and> sha \<noteq> [] \<and> ob_baseBranchContainsSha deps k sha = Inr (Some True))"

definition integration_seen :: "ReconcileObserveDeps \<Rightarrow> int \<Rightarrow> int \<Rightarrow> bool" where
  "integration_seen deps issue n \<longleftrightarrow> pr_linked deps issue n \<and> merge_contained deps n"

definition fact_seen :: "ReconcileObserveDeps \<Rightarrow> int \<Rightarrow> LinkedPrIntegrationFact \<Rightarrow> bool" where
  "fact_seen deps issue f \<longleftrightarrow> (lp_contained f = Some True \<longrightarrow> integration_seen deps issue (lp_number f))"

lemma wp_scanLinked:
  assumes "\<And>n. n \<in> set ns \<Longrightarrow> pr_linked deps issue n" "list_all (fact_seen deps issue) (ls_facts s)" "later u w"
    and "\<And>s' w'. list_all (fact_seen deps issue) (ls_facts s') \<Longrightarrow> length (ls_facts s') \<le> length (ls_facts s) + length ns
      \<Longrightarrow> later u w' \<Longrightarrow> Q s' w'" and "\<And>e w'. later u w' \<Longrightarrow> E e w'"
  shows "wp (scanLinked deps ns s) Q E w"
  using assms(1-4)
proof (induction ns arbitrary: s w)
  case Nil
  then show ?case by (auto intro!: wp_return)
next
  case (Cons n ns)
  have "fact_seen deps issue (linkedFact n detail c artifact)"
    if "ob_getPrDetail deps j n = Inr (Some detail)"
      "c = None \<or> pd_state detail = PrMerged \<and> truthy (pd_merge_commit_sha detail)
        \<and> ob_baseBranchContainsSha deps k (the (pd_merge_commit_sha detail)) = Inr c" for j k detail c artifact
    using that Cons.prems(1) by (auto simp: fact_seen_def linkedFact_def integration_seen_def merge_contained_def truthy_def split: option.splits)
  note seen = this
  have rest: "wp (io_bind (case ob_getPrArtifactBinding deps of None \<Rightarrow> io_return noArtifact | Some f \<Rightarrow> observe (\<lambda>k. f k n detail))
      (\<lambda>artifact. scanLinked deps ns (s\<lparr>ls_details := ds, ls_facts := ls_facts s @ [linkedFact n detail c artifact]\<rparr>))) Q E v"
    if "\<And>artifact. fact_seen deps issue (linkedFact n detail c artifact)" "later u v" for detail c v ds
    by (intro wp_bind wp_option wp_return wp_observe Cons.IH assms(5)) (use that Cons.prems in \<open>auto intro: later_trans\<close>)
  show ?case
    unfolding scanLinked.simps Let_def
    by (intro wp_bind [of "observe _"] wp_observe wp_option wp_bind [of "if _ then _ else _"] wp_if wp_return rest assms(5))
      (use Cons.prems in \<open>auto intro: later_trans Cons.IH seen\<close>)
qed

lemma wp_observeChosen:
  assumes "\<And>pr w'. later w w' \<Longrightarrow> pj_number pr = None \<longleftrightarrow> pj_state pr = None
      \<Longrightarrow> pj_number pr = None \<or> pj_number pr = chosen \<Longrightarrow> Q pr w'" "\<And>e w'. later w w' \<Longrightarrow> E e w'"
  shows "wp (observeChosen deps scan chosen) Q E w"
proof (cases chosen)
  case None
  then show ?thesis by (auto simp: observeChosen_def noPr_def intro!: wp_return assms)
next
  case (Some n)
  have project: "wp (projectPr deps n detail) Q E v" if "later w v" for detail v
    unfolding projectPr_def
    by (intro wp_bind [of "observe _"] wp_bind [of "case_option _ _ _"] wp_observe wp_option wp_return wp_catch assms)
      (use that Some in \<open>auto intro: later_trans\<close>)
  have none: "wp (io_return noPr) Q E v" if "later w v" for v
    by (intro wp_return assms(1)) (use that in \<open>auto simp: noPr_def\<close>)
  show ?thesis
    by (auto simp: observeChosen_def Some split: option.splits intro!: wp_bind wp_return wp_observe wp_option assms(2) project none)
qed

lemma integration_chosen:
  assumes "integrationSideEffectCertainty facts t inc b = KnownComplete" "list_all (fact_seen deps issue) facts"
    and "\<not> scanned \<Longrightarrow> length facts \<le> 1"
  shows "\<exists>n. choosePr (integrationSideEffectCertainty facts t inc b) found
      (if scanned then selectAuthoritativeLinkedPr facts b else (case facts of [] \<Rightarrow> None | f # _ \<Rightarrow> Some f)) = Some n
    \<and> integration_seen deps issue n" (is "\<exists>n. choosePr _ _ ?authoritative = _ \<and> _")
proof -
  let ?P = "\<lambda>pr. lp_state pr = PrMerged \<and> lp_contained pr = Some True \<and> isExactLinkedImplementation pr b"
  have "list_ex ?P facts" using assms(1) by (simp add: integrationSideEffectCertainty_def split: if_splits)
  then obtain f where f: "find ?P facts = Some f" by (metis (mono_tags, lifting) find_None_iff list_ex_iff not_None_eq)
  then have "f \<in> set facts" "lp_contained f = Some True" by (auto simp: find_Some_iff in_set_conv_nth)
  moreover have "?authoritative = Some f"
  proof (cases scanned)
    case False
    then have "facts = [f]" using assms(3) \<open>f \<in> set facts\<close> by (cases facts) auto
    then show ?thesis using False by simp
  qed (use f in \<open>simp add: selectAuthoritativeLinkedPr_def\<close>)
  ultimately show ?thesis using assms(1,2) by (auto simp: choosePr_def fact_seen_def list_all_iff)
qed

text \<open>What every identity shows that an observation returns: it carries the time of a clock reading taken
  among its own calls, and a merge known to be complete was seen as such.\<close>

definition shown :: "ReconcileObserveDeps \<Rightarrow> string \<Rightarrow> nat \<Rightarrow> nat \<Rightarrow> LoopExternalIdentity \<Rightarrow> bool" where
  "shown deps itemId start stop i \<longleftrightarrow> parseItemIssueNumber itemId = Inr (ei_issue_number i)
     \<and> (\<exists>k. start \<le> k \<and> k < stop \<and> ei_observed_at i = Iso (ob_now deps k))
     \<and> (ei_pr_number i = None \<longleftrightarrow> ei_pr_state i = None)
     \<and> (ei_pr_state i = Some PrMerged \<and> ei_integration_certainty i = Some KnownComplete
        \<longrightarrow> (\<exists>n. ei_pr_number i = Some n \<and> integration_seen deps (ei_issue_number i) n))"

lemma shownI:
  assumes "parseItemIssueNumber itemId = Inr issue" "ei_issue_number i = issue"
    and "ei_observed_at i = Iso (ob_now deps k)" "start \<le> k" "k < stop" "ei_pr_number i = None \<longleftrightarrow> ei_pr_state i = None"
    and "ei_integration_certainty i = Some KnownComplete \<Longrightarrow> \<exists>n. chosen = Some n \<and> integration_seen deps issue n"
    and "ei_pr_number i = None \<or> ei_pr_number i = chosen"
  shows "shown deps itemId start stop i"
  using assms unfolding shown_def by fastforce

lemma wp_listed:
  assumes "ob_findPrForIssue deps k issue = Inr found"
    and "\<And>listed w'. later w w' \<Longrightarrow> (\<And>n. n \<in> set (case listed of Some (ns, _) \<Rightarrow> ns
        | None \<Rightarrow> (case found of Some n \<Rightarrow> [n] | None \<Rightarrow> [])) \<Longrightarrow> pr_linked deps issue n) \<Longrightarrow> Q listed w'"
    and "\<And>e w'. later w w' \<Longrightarrow> E e w'"
  shows "wp (case ob_listLinkedPrs deps of None \<Rightarrow> io_return None
    | Some f \<Rightarrow> io_bind (observe (\<lambda>k. f k issue)) (\<lambda>l. io_return (Some (normalizeLinkedIssuePrs l)))) Q E w"
proof (intro wp_option wp_return wp_bind wp_observe assms(2,3))
  fix n assume "n \<in> set (case None of Some (ns, _) \<Rightarrow> ns | None \<Rightarrow> (case found of Some n \<Rightarrow> [n] | None \<Rightarrow> []))"
  with assms(1) show "pr_linked deps issue n" by (auto simp: pr_linked_def split: option.splits)
next
  fix f l n and w' :: RunWorld assume "ob_listLinkedPrs deps = Some f" "f (w_calls (rw_store w)) issue = Inr l"
    and "n \<in> set (case Some (normalizeLinkedIssuePrs l) of Some (ns, _) \<Rightarrow> ns | None \<Rightarrow> (case found of Some n \<Rightarrow> [n] | None \<Rightarrow> []))"
  then show "pr_linked deps issue n" unfolding pr_linked_def by (cases "normalizeLinkedIssuePrs l") force
qed auto

lemma wp_observeExternalIdentity:
  assumes Q: "\<And>i w'. later w w' \<Longrightarrow> shown deps itemId (w_calls (rw_store w)) (w_calls (rw_store w')) i \<Longrightarrow> Q i w'" and E: "\<And>e w'. later w w' \<Longrightarrow> E e w'"
  shows "wp (observeExternalIdentity deps itemId lop) Q E w"
  unfolding observeExternalIdentity_def Let_def
  apply (intro wp_bind [of "io_lift _"] wp_lift E later_refl)
  apply (rule wp_bind, rule wp_observe, rule wp_bind, rule wp_observe, rule wp_bind)
  apply (rule wp_listed)
     apply assumption
    apply (rule wp_bind, rule wp_scanLinked [where u = w])
         apply assumption
        apply simp
       apply (blast intro: later_trans)
      apply (rule wp_bind)
      apply (rule wp_mono [where Q = "\<lambda>_. later w" and E = "\<lambda>_. later w"])
        apply (auto intro!: wp_if wp_catch wp_observe intro: later_trans)[1]
       apply (rule wp_bind, rule wp_observeChosen, rule wp_bind, rule wp_observe, rule wp_return)
  subgoal for number issue w1 found w2 listed w3 scan w4 local w5 pr w6 t w7
    apply (rule Q)
     apply (blast intro: later_trans)
    apply (rule shownI [where k = "w_calls (rw_store w6)"])
           apply assumption
          prefer 7
          apply (simp only: LoopExternalIdentity.select_convs)
         apply simp
        apply simp
       apply (auto simp: later_def)[1]
      apply assumption
     apply simp
    apply (rule integration_chosen)
      apply (simp only: LoopExternalIdentity.select_convs option.inject)
     apply assumption
    apply (auto split: option.splits)
    done
  by (blast intro: E later_trans)+

end
