(* ===== verification/Lock_Ownership.thy ===== *)
theory Lock_Ownership
  imports Observation
begin

text \<open>
  Finding a live supervisor from its lock file, \<open>core/scripts/loop/lock-ownership.ts\<close>: the process id of
  the lock document, the walk from the lock holder up the process tree to the launcher, and the check that
  the launcher is still the process that was started. The process table is a parameter: \<open>parentOf\<close> and
  \<open>getStartTime\<close> answer a number, a text or nothing, as the injected functions of the code do. The walk
  remembers the processes it has seen but need not end on an infinite chain of parents, so it is a partial
  function; the theorem of this theory shows that it ends on every finite process table, with the right
  answer, cycles included.
\<close>

section \<open>The lock holder\<close>

text \<open>Process ids are kept exact: a text of digits above \<open>2^53\<close> would be rounded by the code.\<close>

definition positiveInteger :: "jsnum \<Rightarrow> int option" where
  "positiveInteger n = (case n of Fin q \<Rightarrow> if \<not> ratIsInteger q \<or> q \<le> 0 then None else Some \<lfloor>q\<rfloor> | _ \<Rightarrow> None)"

definition parseLockPid :: "jsval doc_text \<Rightarrow> int option" where
  "parseLockPid lockJsonText =
     (case text_value lockJsonText of
        None \<Rightarrow> None
      | Some obj \<Rightarrow>
          if \<not> isPlainObject obj then None
          else (case jprop obj ''pid'' of
            JNum raw \<Rightarrow> positiveInteger raw
          | JStr raw \<Rightarrow> if \<not> allDigits raw then None else positiveInteger (js_number raw)
          | _ \<Rightarrow> None))"

section \<open>The process tree\<close>

definition parentPid :: "(int \<Rightarrow> jsnum option) \<Rightarrow> int \<Rightarrow> int option" where
  "parentPid parentOf cur = Option.bind (parentOf cur) positiveInteger"

partial_function (option) ownerWalk :: "(int \<Rightarrow> jsnum option) \<Rightarrow> int \<Rightarrow> int \<Rightarrow> int list \<Rightarrow> bool option" where
  "ownerWalk parentOf launcherPid cur seen =
     (if \<not> cur > 0 then Some False
      else if cur \<in> set seen then Some False
      else if cur = launcherPid then Some True
      else (case parentPid parentOf cur of
        None \<Rightarrow> Some False
      | Some parent \<Rightarrow> if parent = cur then Some False else ownerWalk parentOf launcherPid parent (cur # seen)))"

declare ownerWalk.simps [code]

definition isLockPidOwnedByLauncher :: "jsnum \<Rightarrow> jsnum \<Rightarrow> (int \<Rightarrow> jsnum option) \<Rightarrow> bool option" where
  "isLockPidOwnedByLauncher lockPid launcherPid parentOf =
     (case (positiveInteger lockPid, positiveInteger launcherPid) of
        (Some l, Some la) \<Rightarrow> ownerWalk parentOf la l []
      | _ \<Rightarrow> Some False)"

datatype StartTime = TextTime string | NumTime jsnum

text \<open>\<open>String(n)\<close> of a number is the parameter \<open>showNum\<close>.\<close>

definition startTimeText :: "(jsnum \<Rightarrow> string) \<Rightarrow> StartTime \<Rightarrow> string" where
  "startTimeText showNum t = (case t of TextTime s \<Rightarrow> s | NumTime n \<Rightarrow> showNum n)"

definition isSameProcessInstance ::
  "(jsnum \<Rightarrow> string) \<Rightarrow> jsnum \<Rightarrow> StartTime \<Rightarrow> (int \<Rightarrow> StartTime option) \<Rightarrow> bool" where
  "isSameProcessInstance showNum pid expectedStartTime getStartTime =
     (case positiveInteger pid of
        None \<Rightarrow> False
      | Some p \<Rightarrow>
          (let expected = startTimeText showNum expectedStartTime
           in if expected = [] then False
              else (case getStartTime p of
                None \<Rightarrow> False
              | Some actual \<Rightarrow> if actual = TextTime [] then False else startTimeText showNum actual = expected)))"

definition isLiveOwnedLoopLock ::
  "(jsnum \<Rightarrow> string) \<Rightarrow> jsnum \<Rightarrow> jsnum \<Rightarrow> StartTime \<Rightarrow> (int \<Rightarrow> jsnum option) \<Rightarrow> (int \<Rightarrow> StartTime option) \<Rightarrow> bool option" where
  "isLiveOwnedLoopLock showNum lockPid launcherPid launcherStartTime parentOf getStartTime =
     (if \<not> isSameProcessInstance showNum launcherPid launcherStartTime getStartTime then Some False
      else isLockPidOwnedByLauncher lockPid launcherPid parentOf)"

section \<open>The walk decides descent\<close>

text \<open>The child relation of the process table, and descent in it.\<close>

definition child_of :: "(int \<Rightarrow> jsnum option) \<Rightarrow> int \<Rightarrow> int \<Rightarrow> bool" where
  "child_of parentOf c p \<longleftrightarrow> parentPid parentOf c = Some p"

lemma positiveInteger_pos: "positiveInteger n = Some p \<Longrightarrow> p > 0"
  by (auto simp: positiveInteger_def ratIsInteger_def split: jsnum.splits if_splits)

lemma parentPid_pos: "parentPid parentOf c = Some p \<Longrightarrow> p > 0"
  by (auto simp: parentPid_def positiveInteger_pos split: Option.bind_splits)

text \<open>Nothing outside a set that is closed under the parents is reached from inside.\<close>

lemma closed_unreached:
  assumes "\<And>x y. x \<in> S \<Longrightarrow> child_of parentOf x y \<Longrightarrow> y \<in> S" "a \<in> S" "b \<notin> S"
  shows "\<not> (child_of parentOf)\<^sup>*\<^sup>* a b"
proof
  assume "(child_of parentOf)\<^sup>*\<^sup>* a b"
  then have "b \<in> S" by (induction rule: rtranclp_induct) (use assms(1,2) in auto)
  with assms(3) show False by blast
qed

text \<open>The state of the walk: the processes seen are a path from the lock holder to the current one that
  does not meet the launcher.\<close>

definition on_path :: "(int \<Rightarrow> jsnum option) \<Rightarrow> int \<Rightarrow> int \<Rightarrow> int \<Rightarrow> int list \<Rightarrow> bool" where
  "on_path parentOf lock launcher cur seen \<longleftrightarrow> cur > 0 \<and> distinct seen \<and> lock \<in> insert cur (set seen) \<and> launcher \<notin> set seen
     \<and> (child_of parentOf)\<^sup>*\<^sup>* lock cur \<and> (\<forall>x \<in> set seen. \<forall>y. child_of parentOf x y \<longrightarrow> y \<in> insert cur (set seen))
     \<and> set seen \<subseteq> {x. parentOf x \<noteq> None}"

lemma ownerWalk_decides:
  assumes "finite {x. parentOf x \<noteq> None}"
  shows "on_path parentOf lock launcher cur seen \<Longrightarrow>
    ownerWalk parentOf launcher cur seen = Some ((child_of parentOf)\<^sup>*\<^sup>* lock launcher)"
proof (induction "card {x. parentOf x \<noteq> None} - length seen" arbitrary: cur seen rule: less_induct)
  case less
  note path = less.prems [unfolded on_path_def]
  have unreached: "\<not> (child_of parentOf)\<^sup>*\<^sup>* lock launcher"
    if "\<And>y. cur \<in> set seen \<or> (cur \<noteq> launcher \<and> (child_of parentOf cur y \<longrightarrow> y = cur))"
    using that path by (intro closed_unreached [of "insert cur (set seen)"]) auto
  show ?case
  proof (cases "cur \<in> set seen \<or> cur = launcher \<or> parentPid parentOf cur \<in> {None, Some cur}")
    case True
    then show ?thesis
      using path unreached by (subst ownerWalk.simps) (auto simp: child_of_def)
  next
    case False
    then obtain p where p: "parentPid parentOf cur = Some p" "p \<noteq> cur" "cur \<notin> set seen" "cur \<noteq> launcher" by auto
    have known: "parentOf cur \<noteq> None" using p(1) by (auto simp: parentPid_def split: Option.bind_splits)
    have "length (cur # seen) = card (set (cur # seen))" using p(3) path by (metis distinct.simps(2) distinct_card)
    also have "\<dots> \<le> card {x. parentOf x \<noteq> None}" using assms known path by (intro card_mono) auto
    finally have less_card: "card {x. parentOf x \<noteq> None} - length (cur # seen) < card {x. parentOf x \<noteq> None} - length seen" by simp
    have "on_path parentOf lock launcher p (cur # seen)"
      using path p known parentPid_pos [OF p(1)] by (auto simp: on_path_def child_of_def intro: rtranclp.rtrancl_into_rtrancl)
    from less.hyps [OF less_card this] show ?thesis using p path by (subst ownerWalk.simps) auto
  qed
qed

lemma owned_iff_descends:
  assumes "finite {x. parentOf x \<noteq> None}"
  shows "isLockPidOwnedByLauncher lockPid launcherPid parentOf =
    Some (\<exists>l la. positiveInteger lockPid = Some l \<and> positiveInteger launcherPid = Some la \<and> (child_of parentOf)\<^sup>*\<^sup>* l la)"
proof -
  have "ownerWalk parentOf la l [] = Some ((child_of parentOf)\<^sup>*\<^sup>* l la)" if "positiveInteger lockPid = Some l" for l la
    using positiveInteger_pos [OF that] by (intro ownerWalk_decides [OF assms]) (simp add: on_path_def)
  then show ?thesis by (auto simp: isLockPidOwnedByLauncher_def split: option.splits)
qed

text \<open>C28: a lock is taken for the launcher's own exactly when it is. On every finite process table,
  cycles included, the discovery guard answers, and it answers yes exactly when the launcher's process id
  still names the process with the expected, non-empty start time and the lock holder is the launcher or one of its descendants.\<close>

theorem live_owned_lock_exact:
  assumes "finite {x. parentOf x \<noteq> None}"
  shows "isLiveOwnedLoopLock showNum lockPid launcherPid started parentOf getStartTime = Some
    (\<exists>l la t. positiveInteger lockPid = Some l \<and> positiveInteger launcherPid = Some la \<and> (child_of parentOf)\<^sup>*\<^sup>* l la
      \<and> getStartTime la = Some t \<and> t \<noteq> TextTime [] \<and> startTimeText showNum t = startTimeText showNum started
      \<and> startTimeText showNum started \<noteq> [])"
  by (auto simp: isLiveOwnedLoopLock_def owned_iff_descends [OF assms] isSameProcessInstance_def Let_def
    split: option.splits if_splits)

text \<open>A table with a cycle: 12 and 13 are each other's parents, 123 is a child of 12, 9 is a child of 7.\<close>

definition exampleParents :: "int \<Rightarrow> jsnum option" where
  "exampleParents p = map_option Fin (map_of [(123, 12), (12, 13), (13, 12), (9, 7)] p)"

theorem live_owned_lock_exact_witness:
  "isLiveOwnedLoopLock (\<lambda>_. []) (Fin 9) (Fin 7) (TextTime ''t0'') exampleParents (\<lambda>_. Some (TextTime ''t0'')) = Some True
    \<and> (child_of exampleParents)\<^sup>*\<^sup>* 9 7
    \<and> isLiveOwnedLoopLock (\<lambda>_. []) (Fin 123) (Fin 1) (TextTime ''t0'') exampleParents (\<lambda>_. Some (TextTime ''t0'')) = Some False
    \<and> \<not> (child_of exampleParents)\<^sup>*\<^sup>* 123 1"
proof -
  have "{x. exampleParents x \<noteq> None} \<subseteq> {123, 12, 13, 9}" by (auto simp: exampleParents_def split: if_splits)
  then have fin: "finite {x. exampleParents x \<noteq> None}" using finite_subset by blast
  have "isLiveOwnedLoopLock (\<lambda>_. []) (Fin 9) (Fin 7) (TextTime ''t0'') exampleParents (\<lambda>_. Some (TextTime ''t0'')) = Some True"
    "isLiveOwnedLoopLock (\<lambda>_. []) (Fin 123) (Fin 1) (TextTime ''t0'') exampleParents (\<lambda>_. Some (TextTime ''t0'')) = Some False"
    by code_simp+
  moreover have "positiveInteger (Fin 9) = Some 9" "positiveInteger (Fin 7) = Some 7" "positiveInteger (Fin 123) = Some 123"
    "positiveInteger (Fin 1) = Some 1" by code_simp+
  ultimately show ?thesis
    unfolding live_owned_lock_exact [OF fin] by (simp add: startTimeText_def)
qed

end
