(* ===== verification/Artifact_Binding.thy ===== *)
theory Artifact_Binding
  imports Observation
begin

text \<open>
  The marker that binds the body of a pull request to a logical operation,
  \<open>logicalOperationIdFromArtifactBody\<close> and \<open>bindArtifactBodyToLogicalOperation\<close> of
  \<open>core/scripts/operation-observation.ts\<close>, with the round trip between them.
\<close>

definition markerIdChar :: "char \<Rightarrow> bool" where
  "markerIdChar c \<longleftrightarrow> (let n = of_char c :: nat
     in 65 \<le> n \<and> n \<le> 90 \<or> 97 \<le> n \<and> n \<le> 122 \<or> 48 \<le> n \<and> n \<le> 57 \<or> c \<in> set ''._:-'')"

definition markerLabel :: string where
  "markerLabel = ''pipeline-logical-operation:''"

text \<open>The expression \<open>LOGICAL_OPERATION_BODY_MARKER_RE\<close> at the head of a text. The id is matched greedily and
  given back character by character, since it may end in hyphens; the white space before it is followed by
  a character that is not white space, so that it never gives any back.\<close>

definition closesMarker :: "string \<Rightarrow> bool" where
  "closesMarker s \<longleftrightarrow> js_startsWith (dropWhile js_space s) ''-->''"

definition markerAt :: "string \<Rightarrow> string option" where
  "markerAt s =
     (let a = dropWhile js_space (drop 4 s); b = dropWhile js_space (drop (length markerLabel) a)
      in if \<not> js_startsWith s ''<!--'' \<or> \<not> js_startsWith a markerLabel then None
         else map_option (\<lambda>n. take n b)
           (find (\<lambda>n. closesMarker (drop n b)) (rev [1..<Suc (length (takeWhile markerIdChar b))])))"

fun logicalOperationIdFromArtifactBody :: "string \<Rightarrow> string option" where
  "logicalOperationIdFromArtifactBody [] = None"
| "logicalOperationIdFromArtifactBody (c # s) =
     (case markerAt (c # s) of Some i \<Rightarrow> Some i | None \<Rightarrow> logicalOperationIdFromArtifactBody s)"

definition js_trimEnd :: "string \<Rightarrow> string" where
  "js_trimEnd s = rev (dropWhile js_space (rev s))"

definition bindArtifactBodyToLogicalOperation :: "string \<Rightarrow> string option \<Rightarrow> string" where
  "bindArtifactBodyToLogicalOperation body logicalOperationId =
     (let i = trimmed logicalOperationId
      in if i = [] \<or> logicalOperationIdFromArtifactBody body \<noteq> None then body
         else js_trimEnd body @ [CHR 0x0A, CHR 0x0A] @ ''<!-- pipeline-logical-operation: '' @ i @ '' -->'')"

section \<open>Markers as texts\<close>

definition is_marker :: "string \<Rightarrow> bool" where
  "is_marker m \<longleftrightarrow> (\<exists>w1 w2 i w3. m = ''<!--'' @ w1 @ markerLabel @ w2 @ i @ w3 @ ''-->''
     \<and> list_all js_space w1 \<and> list_all js_space w2 \<and> list_all js_space w3 \<and> i \<noteq> [] \<and> list_all markerIdChar i)"

lemma startsWith_append: "js_startsWith s p \<longleftrightarrow> (\<exists>r. s = p @ r)"
  by (induction s p rule: js_startsWith.induct) auto

lemma dropWhile_space: "\<exists>w. s = w @ dropWhile js_space s \<and> list_all js_space w"
  by (metis list_all_iff set_takeWhileD takeWhile_dropWhile_id)

lemma dropWhile_skip: "list_all P w \<Longrightarrow> dropWhile P (w @ s) = dropWhile P s"
  by (induction w) auto

lemma marker_chars: "markerIdChar c \<Longrightarrow> \<not> js_space c \<and> c \<noteq> CHR ''<'' \<and> c \<noteq> CHR ''>''"
  by (auto simp: markerIdChar_def js_space_def Let_def)

lemma find_some: "x \<in> set xs \<Longrightarrow> P x \<Longrightarrow> find P xs \<noteq> None"
  by (auto simp: find_None_iff)

lemma markerAt_marker: "markerAt s \<noteq> None \<longleftrightarrow> (\<exists>m r. s = m @ r \<and> is_marker m)"
proof
  assume "markerAt s \<noteq> None"
  then obtain r1 r2 where r: "s = ''<!--'' @ r1" "dropWhile js_space r1 = markerLabel @ r2"
    by (auto simp: markerAt_def Let_def startsWith_append split: if_splits)
  define a b where "a = dropWhile js_space r1" and "b = dropWhile js_space r2"
  from \<open>markerAt s \<noteq> None\<close> obtain n where "find (\<lambda>n. closesMarker (drop n b)) (rev [1..<Suc (length (takeWhile markerIdChar b))]) = Some n"
    unfolding markerAt_def Let_def by (auto simp: r b_def simp del: upt_Suc split: if_splits)
  from find_hit [OF this] r have s: "s = ''<!--'' @ r1" "a = dropWhile js_space r1" "a = markerLabel @ r2" "b = dropWhile js_space r2"
    "closesMarker (drop n b)" "1 \<le> n" "n \<le> length (takeWhile markerIdChar b)"
    by (auto simp: a_def b_def simp del: upt_Suc)
  obtain w1 w2 w3 r where w: "r1 = w1 @ a" "r2 = w2 @ b" "drop n b = w3 @ ''-->'' @ r" "list_all js_space w1" "list_all js_space w2" "list_all js_space w3"
    using dropWhile_space [of r1] dropWhile_space [of r2] dropWhile_space [of "drop n b"] s(2,4,5)
    by (auto simp: closesMarker_def startsWith_append)
  have "take n b = take n (takeWhile markerIdChar b)" using s(7) by (metis append_take_drop_id takeWhile_eq_take take_take min.absorb1)
  then have "list_all markerIdChar (take n b)" by (metis in_set_takeD list_all_iff set_takeWhileD)
  moreover have "take n b \<noteq> []" using s(6,7) by auto
  moreover have "s = (''<!--'' @ w1 @ markerLabel @ w2 @ take n b @ w3 @ ''-->'') @ r"
    using s(1,3) w(1-3) append_take_drop_id [of n b] by auto
  ultimately show "\<exists>m r. s = m @ r \<and> is_marker m" using w(4-6) unfolding is_marker_def by blast
next
  assume "\<exists>m r. s = m @ r \<and> is_marker m"
  then obtain w1 w2 i w3 r where s: "s = ''<!--'' @ w1 @ markerLabel @ w2 @ i @ w3 @ ''-->'' @ r"
    and w: "list_all js_space w1" "list_all js_space w2" "list_all js_space w3" "i \<noteq> []" "list_all markerIdChar i"
    by (auto simp: is_marker_def)
  have a: "dropWhile js_space (drop 4 s) = markerLabel @ w2 @ i @ w3 @ ''-->'' @ r"
    using w(1) by (simp add: s dropWhile_skip markerLabel_def js_space_def)
  obtain c i' where c: "i = c # i'" "\<not> js_space c" using w(4,5) marker_chars by (cases i) auto
  have b: "dropWhile js_space (w2 @ i @ w3 @ ''-->'' @ r) = i @ w3 @ ''-->'' @ r"
    using w(2) c by (simp add: dropWhile_skip)
  have "length i \<le> length (takeWhile markerIdChar (i @ w3 @ ''-->'' @ r))" using w(5) by (simp add: takeWhile_append list_all_iff)
  then have "length i \<in> set (rev [1..<Suc (length (takeWhile markerIdChar (i @ w3 @ ''-->'' @ r)))])" using w(4) by (simp add: Suc_le_eq del: upt_Suc)
  moreover have "closesMarker (drop (length i) (i @ w3 @ ''-->'' @ r))"
    using w(3) by (simp add: closesMarker_def dropWhile_skip js_space_def)
  ultimately have "find (\<lambda>n. closesMarker (drop n (i @ w3 @ ''-->'' @ r))) (rev [1..<Suc (length (takeWhile markerIdChar (i @ w3 @ ''-->'' @ r)))]) \<noteq> None"
    by (rule find_some)
  then show "markerAt s \<noteq> None"
    using a b by (simp add: markerAt_def Let_def s)
qed

lemma body_None: "logicalOperationIdFromArtifactBody s = None \<longleftrightarrow> (\<forall>x y. s = x @ y \<longrightarrow> y \<noteq> [] \<longrightarrow> markerAt y = None)"
proof (induction s)
  case (Cons c s)
  show ?case by (auto simp: Cons.IH Cons_eq_append_conv split: option.splits)
qed simp

text \<open>A marker opens with the only \<open><\<close> in it and ends in \<open>>\<close>.\<close>

lemma not_angle [simp]: "\<not> js_space CHR ''<''" "\<not> markerIdChar CHR ''<''"
  by (simp_all add: js_space_def markerIdChar_def)

lemma marker_inner:
  assumes "is_marker m"
  shows "\<exists>m'. m = CHR ''<'' # m' \<and> CHR ''<'' \<notin> set m' \<and> last m = CHR ''>''"
proof -
  obtain w1 w2 i w3 where m: "m = ''<!--'' @ w1 @ markerLabel @ w2 @ i @ w3 @ ''-->''"
    "list_all js_space w1" "list_all js_space w2" "list_all js_space w3" "list_all markerIdChar i"
    using assms unfolding is_marker_def by blast
  have "CHR ''<'' \<notin> set w1" "CHR ''<'' \<notin> set w2" "CHR ''<'' \<notin> set w3" "CHR ''<'' \<notin> set i"
    using m(2-5) unfolding list_all_iff using not_angle by blast+
  then show ?thesis by (simp add: m(1) markerLabel_def)
qed

lemma marker_before:
  assumes "is_marker m" "m @ r = x @ [CHR 0x0A, CHR 0x0A] @ CHR ''<'' # t" "x \<noteq> []"
  shows "\<exists>x'. x = m @ x'"
proof -
  obtain m' where m: "m = CHR ''<'' # m'" "CHR ''<'' \<notin> set m'" "last m = CHR ''>''" using marker_inner [OF assms(1)] by blast
  consider us where "m = x @ us" | us where "x = m @ us" using assms(2) by (auto simp: append_eq_append_conv2)
  then show ?thesis
  proof cases
    case 1
    then have "us @ r = [CHR 0x0A, CHR 0x0A] @ CHR ''<'' # t" using assms(2) by simp
    moreover have "CHR ''<'' \<notin> set us" using m(1,2) 1 assms(3) by (cases x) auto
    ultimately have "us = [] \<or> us = [CHR 0x0A] \<or> us = [CHR 0x0A, CHR 0x0A]" by (auto simp: append_eq_Cons_conv)
    then show ?thesis using 1 m(3) by auto
  qed auto
qed

lemma trimEnd_split: "\<exists>w. body = js_trimEnd body @ w"
  unfolding js_trimEnd_def by (metis rev_append rev_rev_ident takeWhile_dropWhile_id)

lemma skip_body:
  assumes "\<And>x y. b = x @ y \<Longrightarrow> y \<noteq> [] \<Longrightarrow> markerAt (y @ t) = None"
  shows "logicalOperationIdFromArtifactBody (b @ t) = logicalOperationIdFromArtifactBody t"
  using assms
proof (induction b)
  case (Cons c b)
  have "markerAt ((c # b) @ t) = None" by (rule Cons.prems [of "[]"]) auto
  moreover have "markerAt (y @ t) = None" if "b = x @ y" "y \<noteq> []" for x y
    using Cons.prems [of "c # x" y] that by simp
  ultimately show ?case using Cons.IH by simp
qed simp

lemma skip_newlines: "logicalOperationIdFromArtifactBody ([CHR 0x0A, CHR 0x0A] @ t) = logicalOperationIdFromArtifactBody t"
  by (simp add: markerAt_def Let_def)

lemma own_marker:
  assumes "i \<noteq> []" "list_all markerIdChar i"
  shows "logicalOperationIdFromArtifactBody (''<!-- pipeline-logical-operation: '' @ i @ '' -->'') = Some i"
proof -
  obtain c i' where c: "i = c # i'" "\<not> js_space c" using assms marker_chars by (cases i) auto
  have "takeWhile markerIdChar (i @ '' -->'') = i"
    using assms(2) by (simp add: takeWhile_append list_all_iff) (simp add: markerIdChar_def)
  moreover have "length i \<ge> 1" using assms(1) by (cases i) auto
  ultimately have "markerAt (''<!-- pipeline-logical-operation: '' @ i @ '' -->'') = Some i"
    using c by (simp add: markerAt_def Let_def markerLabel_def js_space_def closesMarker_def)
  then show ?thesis by simp
qed

lemma bound_body:
  assumes "i = trimmed l" "i \<noteq> []" "list_all markerIdChar i" "logicalOperationIdFromArtifactBody body = None"
  shows "logicalOperationIdFromArtifactBody (bindArtifactBodyToLogicalOperation body l) = Some i"
proof -
  let ?m = "''<!-- pipeline-logical-operation: '' @ i @ '' -->''" and ?n = "[CHR 0x0A, CHR 0x0A]"
  have bound: "bindArtifactBodyToLogicalOperation body l = js_trimEnd body @ ?n @ ?m"
    using assms(1,2,4) by (simp add: bindArtifactBodyToLogicalOperation_def)
  have "markerAt (y @ ?n @ ?m) = None" if xy: "js_trimEnd body = x @ y" "y \<noteq> []" for x y
  proof (rule ccontr)
    assume "markerAt (y @ ?n @ ?m) \<noteq> None"
    then obtain m r where m: "is_marker m" "y @ ?n @ ?m = m @ r" using markerAt_marker by blast
    have "m @ r = y @ ?n @ CHR ''<'' # (''!-- pipeline-logical-operation: '' @ i @ '' -->'')" using m(2) by simp
    from marker_before [OF m(1) this xy(2)] obtain x' where "y = m @ x'" by blast
    moreover obtain w where "body = (x @ y) @ w" using trimEnd_split [of body] xy(1) by auto
    ultimately have "markerAt (y @ w) \<noteq> None" "body = x @ (y @ w)" using markerAt_marker [of "y @ w"] m(1) by auto
    moreover have "\<And>x y. body = x @ y \<Longrightarrow> y \<noteq> [] \<Longrightarrow> markerAt y = None" using assms(4) unfolding body_None by blast
    ultimately show False using xy(2) by (metis append_is_Nil_conv)
  qed
  then have "logicalOperationIdFromArtifactBody (js_trimEnd body @ ?n @ ?m) = logicalOperationIdFromArtifactBody (?n @ ?m)"
    by (rule skip_body)
  also have "\<dots> = Some i"
    by (subst skip_newlines) (rule own_marker [OF assms(2,3)])
  finally show ?thesis unfolding bound .
qed

text \<open>C33: binding a body to an operation and reading the operation back. A body that carries a marker is left
  as it is, and so is any body when the id is missing or blank. Otherwise, when the trimmed id is of the
  marker's alphabet, the bound body names exactly that id, whatever text the body has. Binding a bound
  body again, to any id, changes nothing.\<close>

theorem artifact_binding_roundtrip:
  "(trimmed l = [] \<or> logicalOperationIdFromArtifactBody body \<noteq> None \<longrightarrow> bindArtifactBodyToLogicalOperation body l = body)
    \<and> (trimmed l \<noteq> [] \<and> list_all markerIdChar (trimmed l) \<and> logicalOperationIdFromArtifactBody body = None
      \<longrightarrow> logicalOperationIdFromArtifactBody (bindArtifactBodyToLogicalOperation body l) = Some (trimmed l)
        \<and> bindArtifactBodyToLogicalOperation (bindArtifactBodyToLogicalOperation body l) j = bindArtifactBodyToLogicalOperation body l)"
proof (intro conjI impI)
  show "bindArtifactBodyToLogicalOperation body l = body" if "trimmed l = [] \<or> logicalOperationIdFromArtifactBody body \<noteq> None"
    using that by (auto simp: bindArtifactBodyToLogicalOperation_def)
  assume "trimmed l \<noteq> [] \<and> list_all markerIdChar (trimmed l) \<and> logicalOperationIdFromArtifactBody body = None"
  then show read: "logicalOperationIdFromArtifactBody (bindArtifactBodyToLogicalOperation body l) = Some (trimmed l)"
    using bound_body [OF refl] by blast
  show "bindArtifactBodyToLogicalOperation (bindArtifactBodyToLogicalOperation body l) j = bindArtifactBodyToLogicalOperation body l"
    unfolding bindArtifactBodyToLogicalOperation_def [of "bindArtifactBodyToLogicalOperation body l"] read by simp
qed

theorem artifact_binding_roundtrip_witness:
  "logicalOperationIdFromArtifactBody (bindArtifactBodyToLogicalOperation ''Fixes it. <!-- '' (Some ''lop-1--'')) = Some ''lop-1--''
    \<and> bindArtifactBodyToLogicalOperation ''Fixes it.'' (Some '' '') = ''Fixes it.''"
proof -
  have a: "list_all markerIdChar ''lop-1--''" "logicalOperationIdFromArtifactBody ''Fixes it. <!-- '' = None"
    by (simp_all add: markerIdChar_def markerAt_def js_space_def Let_def markerLabel_def)
  have b: "trimmed (Some ''lop-1--'') = ''lop-1--''" "trimmed (Some '' '') = []" by code_simp+
  from artifact_binding_roundtrip [of "Some ''lop-1--''" "''Fixes it. <!-- ''"] artifact_binding_roundtrip [of "Some '' ''" "''Fixes it.''"] a b
  show ?thesis by simp
qed

end
