(* ===== verification/Evidence_Text.thy ===== *)
theory Evidence_Text
  imports Store_Base
begin

text \<open>
  Evidence identities (\<open>normalizeEvidenceIdentity\<close> of \<open>core/scripts/loop/recovery-episodes.ts\<close>): the
  text of a failure without its incidental tokens, hashed. The regular expressions of the code are
  values of \<open>rx\<close>; \<open>rx_run\<close> lists the ways an expression matches at a position in the order in which
  the backtracking matcher of the language tries them, so the head of the list is the match. Only
  single characters are repeated, which is all the code uses.
\<close>

section \<open>Regular expressions\<close>

datatype rx =
    Lit string
  | Reps nat "nat option" "char \<Rightarrow> bool"
  | Sq rx rx
  | Alt rx rx
  | Eps
  | WordBoundary

definition word_char :: "char \<Rightarrow> bool" where
  "word_char c \<longleftrightarrow> (let n = of_char c :: nat
     in 65 \<le> n \<and> n \<le> 90 \<or> 97 \<le> n \<and> n \<le> 122 \<or> 48 \<le> n \<and> n \<le> 57 \<or> c = CHR ''_'')"

definition word_at :: "char option \<Rightarrow> bool" where
  "word_at c = (case c of None \<Rightarrow> False | Some d \<Rightarrow> word_char d)"

definition head_of :: "string \<Rightarrow> char option" where
  "head_of s = (case s of [] \<Rightarrow> None | c # _ \<Rightarrow> Some c)"

text \<open>Consume \<open>n\<close> characters; the state is the character before the position and the rest.\<close>

definition consume :: "nat \<Rightarrow> char option \<times> string \<Rightarrow> char option \<times> string" where
  "consume n st = (if n = 0 then fst st else Some (snd st ! (n - 1)), drop n (snd st))"

definition most :: "nat option \<Rightarrow> nat \<Rightarrow> nat" where
  "most hi n = (case hi of None \<Rightarrow> n | Some h \<Rightarrow> min h n)"

fun rx_run :: "rx \<Rightarrow> char option \<times> string \<Rightarrow> (char option \<times> string) list" where
  "rx_run (Lit l) st = (if js_startsWith (snd st) l then [consume (length l) st] else [])"
| "rx_run (Reps lo hi P) st =
     map (\<lambda>n. consume n st) (rev [lo..<Suc (most hi (length (takeWhile P (snd st))))])"
| "rx_run (Sq r q) st = concat (map (rx_run q) (rx_run r st))"
| "rx_run (Alt r q) st = rx_run r st @ rx_run q st"
| "rx_run Eps st = [st]"
| "rx_run WordBoundary st = (if word_at (fst st) \<noteq> word_at (head_of (snd st)) then [st] else [])"

text \<open>\<open>text.replace(/.../g, by)\<close> for an expression that never matches the empty text.\<close>

function replaceFrom :: "rx \<Rightarrow> string \<Rightarrow> char option \<Rightarrow> string \<Rightarrow> string" where
  "replaceFrom r by prev [] = []"
| "replaceFrom r by prev (c # s) =
     (case rx_run r (prev, c # s) of
        (prev', rest) # _ \<Rightarrow> if length rest < length (c # s) then by @ replaceFrom r by prev' rest
                            else c # replaceFrom r by (Some c) s
      | [] \<Rightarrow> c # replaceFrom r by (Some c) s)"
  by pat_completeness auto
termination by (relation "measure (\<lambda>(r, by, prev, s). length s)") auto

definition js_replace :: "rx \<Rightarrow> string \<Rightarrow> string \<Rightarrow> string" where
  "js_replace r by s = replaceFrom r by None s"

section \<open>Evidence identity\<close>

definition hex_char :: "char \<Rightarrow> bool" where
  "hex_char c \<longleftrightarrow> (let n = of_char c :: nat in 48 \<le> n \<and> n \<le> 57 \<or> 97 \<le> n \<and> n \<le> 102)"

abbreviation digits :: "nat \<Rightarrow> rx" where
  "digits n \<equiv> Reps n (Some n) is_digit"

abbreviation hexes :: "nat \<Rightarrow> rx" where
  "hexes n \<equiv> Reps n (Some n) hex_char"

definition oneOf :: "string \<Rightarrow> rx" where
  "oneOf cs = Reps 1 (Some 1) (\<lambda>c. c \<in> set cs)"

definition optionally :: "rx \<Rightarrow> rx" where
  "optionally r = Alt r Eps"

fun seqs :: "rx list \<Rightarrow> rx" where
  "seqs [] = Eps"
| "seqs (r # rs) = Sq r (seqs rs)"

definition timestampRx :: rx where
  "timestampRx = seqs [digits 4, Lit ''-'', digits 2, Lit ''-'', digits 2, Lit ''t'', digits 2, Lit '':'', digits 2,
     Lit '':'', digits 2, optionally (Sq (Lit ''.'') (Reps 1 None is_digit)),
     optionally (Alt (Lit ''z'') (seqs [oneOf ''+-'', digits 2, Lit '':'', digits 2]))]"

definition uuidRx :: rx where
  "uuidRx = seqs [WordBoundary, hexes 8, Lit ''-'', hexes 4, Lit ''-'', hexes 4, Lit ''-'', hexes 4, Lit ''-'', hexes 12,
     WordBoundary]"

definition requestIdRx :: rx where
  "requestIdRx = seqs [WordBoundary,
     Alt (Lit ''x-request-id'') (Alt (Lit ''x-github-request-id'')
       (seqs [Lit ''request'', optionally (oneOf ''-_''), Lit ''id''])),
     Reps 1 None (\<lambda>c. c \<in> set ''=:'' \<or> js_space c),
     Reps 1 None (\<lambda>c. is_digit c \<or> 97 \<le> (of_char c :: nat) \<and> (of_char c :: nat) \<le> 122 \<or> c \<in> set ''._:-'')]"

definition hashRx :: rx where
  "hashRx = seqs [WordBoundary, Reps 7 (Some 40) hex_char, WordBoundary]"

definition spacesRx :: rx where
  "spacesRx = Reps 1 None js_space"

definition normalizedEvidence :: "string \<Rightarrow> string" where
  "normalizedEvidence evidence =
     js_trim (js_replace spacesRx '' '' (js_replace hashRx ''<hash>'' (js_replace requestIdRx ''<reqid>''
       (js_replace uuidRx ''<id>'' (js_replace timestampRx ''<ts>'' (js_lower evidence))))))"

definition normalizeEvidenceIdentity :: "(string \<Rightarrow> string) \<Rightarrow> string \<Rightarrow> string" where
  "normalizeEvidenceIdentity sha256 evidence = sha256 (normalizedEvidence evidence)"

definition fingerprintEvidence :: "(string \<Rightarrow> string) \<Rightarrow> string \<Rightarrow> string" where
  "fingerprintEvidence sha256 evidence = normalizeEvidenceIdentity sha256 evidence"

lemma normalized_evidence_example:
  "normalizedEvidence ''HTTP 503 at 2024-01-02T03:04:05.678Z  sha deadBEEF12 x-request-id: ab-9 123'' 
    = ''http 503 at <ts> sha <hash> <reqid> 123''"
  by code_simp

end
