(* ===== verification/Operation_Claims.thy ===== *)
theory Operation_Claims
  imports Observation Evidence_Text
begin

text \<open>
  The claim store of \<open>core/scripts/operation-observation.ts\<close>: one durable record per domain and logical
  operation, written by any number of processes through a compare-and-swap protocol on the file system.

  A claim file is absent or holds a text; \<open>readClaimFile\<close> gives nothing for an absent file and for every text
  that is not a valid claim. Every process runs one call of \<open>persistOperationObservation\<close> at a time, and a
  step of a process is one call of the file system: the read, the exclusive creation and the write of a
  claim, the creation, the stamp and the removal of the lock file, the read inside the lock, the renaming of
  the new claim over the old one. The steps of different processes interleave freely. A lock file is known
  by the process that created it and by the number \<open>Number.parseInt\<close> reads from it: a stamp goes to the file
  that was opened, even when another one has taken its path. File-system errors other than the ones the code
  distinguishes do not occur.
\<close>

section \<open>Observations\<close>

definition OPERATION_OBSERVATION_SCHEMA_VERSION :: int where
  "OPERATION_OBSERVATION_SCHEMA_VERSION = 1"

definition LOGICAL_OPERATION_ID_PREFIX :: string where
  "LOGICAL_OPERATION_ID_PREFIX = ''lop-''"

definition isLogicalOperationId :: "string \<Rightarrow> bool" where
  "isLogicalOperationId s \<longleftrightarrow> js_startsWith s LOGICAL_OPERATION_ID_PREFIX \<and> length s > length LOGICAL_OPERATION_ID_PREFIX"

datatype ObservationLifecycleState = ActiveClaim | CoolingClaim | WaitingClaim | CompleteClaim

datatype ArtifactEvidenceRole = PlanningEvidence | ImplementationEvidence

record CapabilityRequestObservation =
  cq_capability :: string
  cq_detail :: string

record OperationIdentity =
  oi_domain :: string
  oi_logical_operation_id :: string
  oi_repository :: "string option"
  oi_issue :: "int option"
  oi_run_id :: "string option"

record OperationObservation = OperationIdentity +
  oo_schema_version :: int
  oo_operation :: string
  oo_form_id :: string
  oo_certainty :: SideEffectCertainty
  oo_lifecycle :: ObservationLifecycleState
  oo_human_owned :: bool
  oo_complete :: bool
  oo_cancelled :: bool
  oo_process_exit_is_completion :: bool
  oo_owned :: bool
  oo_fault :: "string option"
  oo_message :: string
  oo_capability_request :: "CapabilityRequestObservation option"
  oo_invariant :: "string option"
  oo_candidate_epoch :: "string option"
  oo_evidence_role :: "ArtifactEvidenceRole option"
  oo_artifact_identity :: "string option"
  oo_evidence_identity :: "string option"
  oo_attempts_per_strategy :: "int js_record option"
  oo_strategy_cursor :: "int option"
  oo_next_eligible_at :: "string option"
  oo_episode_id :: "string option"

record PersistedOperationObservation = OperationObservation +
  po_observation_id :: string
  po_recorded_at :: string
  po_transitioned_at :: "string option"
  po_claim_revision :: "int option"

text \<open>The fields of an observation with a literal type have their literal values.\<close>

definition typed_observation :: "'a OperationObservation_scheme \<Rightarrow> bool" where
  "typed_observation obs \<longleftrightarrow> oo_schema_version obs = OPERATION_OBSERVATION_SCHEMA_VERSION \<and> oo_owned obs
     \<and> \<not> oo_human_owned obs \<and> \<not> oo_cancelled obs \<and> \<not> oo_process_exit_is_completion obs"

definition operationClaimKey :: "string \<Rightarrow> string \<Rightarrow> string" where
  "operationClaimKey domain logicalOperationId = js_lower (js_trim domain) @ ''::'' @ logicalOperationId"

definition observationFileName :: "string \<Rightarrow> string" where
  "observationFileName key =
     js_replace (Reps 1 None (\<lambda>c. \<not> (word_char c \<or> c = CHR ''.'' \<or> c = CHR ''-''))) ''_'' key @ ''.json''"

definition textOrNone :: "string option \<Rightarrow> string option" where
  "textOrNone s = (if trimmed s = [] then None else Some (trimmed s))"

definition mintObservationIdentity ::
  "string \<Rightarrow> string option \<Rightarrow> string option \<Rightarrow> int option \<Rightarrow> string option \<Rightarrow> string \<Rightarrow> OperationIdentity result" where
  "mintObservationIdentity domain logical_operation_id repository issue run_id mint =
     (if js_trim domain = [] then Inl (LoopError Validation ''operation observation: domain is required'')
      else (let i = (if trimmed logical_operation_id \<noteq> [] then trimmed logical_operation_id else mint)
            in if \<not> isLogicalOperationId i
               then Inl (LoopError Validation ''operation observation: logical_operation_id is required'')
               else Inr \<lparr>oi_domain = js_trim domain, oi_logical_operation_id = i, oi_repository = textOrNone repository,
                       oi_issue = issue, oi_run_id = textOrNone run_id\<rparr>))"

record ObservationInput =
  in_operation :: string
  in_form_id :: string
  in_message :: string
  in_domain :: string
  in_logical_operation_id :: "string option"
  in_repository :: "string option"
  in_issue :: "int option"
  in_run_id :: "string option"
  in_mint :: string

definition observationBase ::
  "'a ObservationInput_scheme \<Rightarrow> SideEffectCertainty option \<Rightarrow> ObservationLifecycleState \<Rightarrow> bool \<Rightarrow> string option
     \<Rightarrow> CapabilityRequestObservation option \<Rightarrow> OperationObservation result" where
  "observationBase input certainty lifecycle finished fault capability_request =
     (case mintObservationIdentity (in_domain input) (in_logical_operation_id input) (in_repository input)
         (in_issue input) (in_run_id input) (in_mint input) of
        Inl e \<Rightarrow> Inl e
      | Inr identity \<Rightarrow> Inr (OperationIdentity.extend identity (OperationObservation.fields
          OPERATION_OBSERVATION_SCHEMA_VERSION (in_operation input) (in_form_id input) (orElse certainty Uncertain) lifecycle
          False finished False False True fault (in_message input) capability_request
          None None None None None None None None None)))"

definition ownedAdmissionObservation :: "ObservationInput \<Rightarrow> OperationObservation result" where
  "ownedAdmissionObservation input = observationBase input (Some Uncertain) ActiveClaim False None None"

definition completedOperationObservation :: "ObservationInput \<Rightarrow> OperationObservation result" where
  "completedOperationObservation input = observationBase input (Some KnownComplete) CompleteClaim True None None"

record FaultInput = ObservationInput +
  in_fault :: "string option"
  in_certainty :: "SideEffectCertainty option"
  in_capability_request :: "CapabilityRequestObservation option"

definition mechanicalFaultObservation :: "FaultInput \<Rightarrow> OperationObservation result" where
  "mechanicalFaultObservation input =
     observationBase input (Some (orElse (in_certainty input) Uncertain)) CoolingClaim False
       (Some (orElse (in_fault input) ''mechanical'')) (in_capability_request input)"

text \<open>The refusal of a public admission, with the identity it was bound to.\<close>

record AdmissionRefusal =
  ar_kind :: string
  ar_domain :: string
  ar_logicalOperationId :: string
  ar_repository :: string
  ar_issue :: "int option"
  ar_runId :: string
  ar_failure_kind :: string
  ar_step :: string
  ar_diagnostic :: string

definition reportPublicEntrypointAdmissionFailure :: "AdmissionRefusal \<Rightarrow> string \<Rightarrow> OperationObservation result" where
  "reportPublicEntrypointAdmissionFailure r mint =
     (if \<not> isLogicalOperationId (ar_logicalOperationId r)
      then Inl (LoopError Validation ''public admission refusal is missing its pre-bound Logical Operation identity'')
      else mechanicalFaultObservation \<lparr>in_operation = ar_kind r, in_form_id = ''public-admission:'' @ ar_kind r,
        in_message = ar_step r @ '': '' @ ar_diagnostic r, in_domain = ar_domain r,
        in_logical_operation_id = Some (ar_logicalOperationId r), in_repository = Some (ar_repository r),
        in_issue = ar_issue r, in_run_id = Some (ar_runId r), in_mint = mint, in_fault = Some (''admission.'' @ ar_failure_kind r),
        in_certainty = Some KnownAbsent, in_capability_request = None\<rparr>)"

section \<open>Deciding the nxt claim\<close>

definition stableObservationId :: "'a OperationObservation_scheme \<Rightarrow> string" where
  "stableObservationId obs = oi_logical_operation_id obs @ '':'' @ oo_form_id obs @ '':'' @ oo_operation obs"

definition sameClaimIdentity :: "'a OperationObservation_scheme \<Rightarrow> 'b OperationObservation_scheme \<Rightarrow> bool" where
  "sameClaimIdentity a b \<longleftrightarrow> oi_domain a = oi_domain b \<and> oi_logical_operation_id a = oi_logical_operation_id b
     \<and> oo_form_id a = oo_form_id b \<and> oo_operation a = oo_operation b"

type_synonym claim = PersistedOperationObservation

definition validClaim :: "claim \<Rightarrow> bool" where
  "validClaim raw \<longleftrightarrow> oo_owned raw \<and> oo_schema_version raw = OPERATION_OBSERVATION_SCHEMA_VERSION \<and> oi_domain raw \<noteq> []
     \<and> isLogicalOperationId (oi_logical_operation_id raw)"

text \<open>The text of a claim file. The code checks the fields \<open>owned\<close>, \<open>schema_version\<close>, \<open>domain\<close> and the operation id
  of whatever \<open>JSON.parse\<close> returns, and casts the rest. In the model a text has as its value a record with all
  fields of their declared types, or none: it is then no JSON, or JSON that fails these checks. A JSON text
  that passes the four checks but has a field of another type (which this module never writes) is outside
  the model.\<close>

definition readClaimFile :: "claim doc_text option \<Rightarrow> claim option" where
  "readClaimFile file =
     (case Option.bind file text_value of
        None \<Rightarrow> None
      | Some raw \<Rightarrow> if validClaim raw then Some raw else None)"

definition CLAIM_CAS_ATTEMPTS :: nat where
  "CLAIM_CAS_ATTEMPTS = 16"

primrec LIFECYCLE_RANK :: "ObservationLifecycleState \<Rightarrow> nat" where
  "LIFECYCLE_RANK ActiveClaim = 0"
| "LIFECYCLE_RANK CoolingClaim = 1"
| "LIFECYCLE_RANK WaitingClaim = 1"
| "LIFECYCLE_RANK CompleteClaim = 2"

definition lifecycleMayAdvance :: "ObservationLifecycleState \<Rightarrow> ObservationLifecycleState \<Rightarrow> bool" where
  "lifecycleMayAdvance s t \<longleftrightarrow> LIFECYCLE_RANK t \<ge> LIFECYCLE_RANK s"

definition claimRevisionOf :: "claim option \<Rightarrow> int" where
  "claimRevisionOf r = orElse (Option.bind r po_claim_revision) 0"

definition isDuplicateClaim :: "claim \<Rightarrow> OperationObservation \<Rightarrow> bool" where
  "isDuplicateClaim existing obs \<longleftrightarrow> oo_lifecycle existing = oo_lifecycle obs \<and> oo_fault existing = oo_fault obs
     \<and> oo_complete existing = oo_complete obs \<and> oo_message existing = oo_message obs"

text \<open>The decision keeps the existing claim, which the code tells by its identity as an object, or gives a
  new one. An optional field that the observation does not set keeps its value.\<close>

datatype NextClaim = Kept claim | New claim

definition optOr :: "'a option \<Rightarrow> 'a option \<Rightarrow> 'a option" where
  "optOr a b = (case a of None \<Rightarrow> b | Some _ \<Rightarrow> a)"

definition overlayObservation :: "claim \<Rightarrow> OperationObservation \<Rightarrow> OperationObservation" where
  "overlayObservation existing obs = obs\<lparr>
     oo_invariant := optOr (oo_invariant obs) (oo_invariant existing),
     oo_candidate_epoch := optOr (oo_candidate_epoch obs) (oo_candidate_epoch existing),
     oo_evidence_role := optOr (oo_evidence_role obs) (oo_evidence_role existing),
     oo_artifact_identity := optOr (oo_artifact_identity obs) (oo_artifact_identity existing),
     oo_evidence_identity := optOr (oo_evidence_identity obs) (oo_evidence_identity existing),
     oo_attempts_per_strategy := optOr (oo_attempts_per_strategy obs) (oo_attempts_per_strategy existing),
     oo_strategy_cursor := optOr (oo_strategy_cursor obs) (oo_strategy_cursor existing),
     oo_next_eligible_at := optOr (oo_next_eligible_at obs) (oo_next_eligible_at existing),
     oo_episode_id := optOr (oo_episode_id obs) (oo_episode_id existing)\<rparr>"

definition decideNextClaim :: "claim option \<Rightarrow> OperationObservation \<Rightarrow> string \<Rightarrow> NextClaim" where
  "decideNextClaim existing obs recorded_at =
     (case existing of
        None \<Rightarrow> New (OperationObservation.extend obs (PersistedOperationObservation.fields
          (stableObservationId obs) recorded_at None (Some 1)))
      | Some e \<Rightarrow>
          if \<not> lifecycleMayAdvance (oo_lifecycle e) (oo_lifecycle obs) then Kept e
          else if sameClaimIdentity e obs \<and> isDuplicateClaim e obs then Kept e
          else if sameClaimIdentity e obs
          then New (OperationObservation.extend (overlayObservation e obs) (PersistedOperationObservation.fields
            (po_observation_id e) (po_recorded_at e) (Some recorded_at) (Some (claimRevisionOf (Some e) + 1))))
          else New (OperationObservation.extend obs (PersistedOperationObservation.fields
            (stableObservationId obs) recorded_at None (Some (claimRevisionOf (Some e) + 1)))))"

definition claimCasEqual :: "claim option \<Rightarrow> claim \<Rightarrow> bool" where
  "claimCasEqual current expected =
     (case current of
        None \<Rightarrow> False
      | Some c \<Rightarrow> claimRevisionOf (Some c) = claimRevisionOf (Some expected)
          \<and> po_observation_id c = po_observation_id expected \<and> oo_lifecycle c = oo_lifecycle expected)"

section \<open>The protocol\<close>

record PersistCall =
  pc_obs :: OperationObservation
  pc_file :: string
  pc_recorded_at :: string

text \<open>Where a process stands in its call. The number is the attempt; a process that has read an existing
  claim carries it and the claim it means to put in its place.\<close>

datatype Pc =
    Idle
  | Reading PersistCall nat
  | Creating PersistCall nat claim
  | CreateWriting PersistCall claim
  | Opening PersistCall nat claim claim bool
  | Reclaiming PersistCall nat claim claim
  | Unlinking PersistCall nat claim claim
  | Stamping PersistCall nat claim claim
  | Comparing PersistCall nat claim claim
  | Swapping PersistCall nat claim claim
  | Unlocking PersistCall nat claim "claim option"
  | Returned PersistCall claim
  | Failed string

record CasLock =
  cl_inode :: int
  cl_holder :: "int option"

record ClaimSystem =
  cs_files :: "string \<Rightarrow> claim doc_text option"
  cs_locks :: "string \<Rightarrow> CasLock option"
  cs_procs :: "int \<Rightarrow> Pc"
  cs_alive :: "int \<Rightarrow> bool"

abbreviation stored :: "ClaimSystem \<Rightarrow> string \<Rightarrow> claim option" where
  "stored s f \<equiv> readClaimFile (cs_files s f)"

definition goto :: "int \<Rightarrow> Pc \<Rightarrow> ClaimSystem \<Rightarrow> ClaimSystem" where
  "goto p pc s = s\<lparr>cs_procs := (cs_procs s)(p := pc)\<rparr>"

definition putFile :: "string \<Rightarrow> claim doc_text \<Rightarrow> ClaimSystem \<Rightarrow> ClaimSystem" where
  "putFile f t s = s\<lparr>cs_files := (cs_files s)(f := Some t)\<rparr>"

definition putLock :: "string \<Rightarrow> CasLock option \<Rightarrow> ClaimSystem \<Rightarrow> ClaimSystem" where
  "putLock f l s = s\<lparr>cs_locks := (cs_locks s)(f := l)\<rparr>"

text \<open>\<open>reclaimStaleClaimLock\<close> up to the removal: the holder must be known and be the process itself or dead.\<close>

definition staleHolder :: "ClaimSystem \<Rightarrow> int \<Rightarrow> CasLock option \<Rightarrow> bool" where
  "staleHolder s p l =
     (case Option.bind l cl_holder of
        None \<Rightarrow> False
      | Some holder \<Rightarrow> holder > 0 \<and> (holder = p \<or> \<not> cs_alive s holder))"

definition readStep :: "int \<Rightarrow> PersistCall \<Rightarrow> nat \<Rightarrow> ClaimSystem \<Rightarrow> ClaimSystem" where
  "readStep p c attempt s =
     (case (stored s (pc_file c), decideNextClaim (stored s (pc_file c)) (pc_obs c) (pc_recorded_at c)) of
        (_, Kept e) \<Rightarrow> goto p (Returned c e) s
      | (existing, New nxt) \<Rightarrow>
          if attempt \<ge> CLAIM_CAS_ATTEMPTS
          then goto p (Failed ''operation observation: claim CAS retries exhausted'') s
          else (case existing of
            None \<Rightarrow> goto p (Creating c attempt nxt) s
          | Some e \<Rightarrow> goto p (Opening c attempt e nxt False) s))"

definition claimStep :: "int \<Rightarrow> ClaimSystem \<Rightarrow> ClaimSystem" where
  "claimStep p s =
     (case cs_procs s p of
        Reading c attempt \<Rightarrow> readStep p c attempt s
      | Creating c attempt nxt \<Rightarrow>
          if cs_files s (pc_file c) \<noteq> None then goto p (Reading c (Suc attempt)) s
          else goto p (CreateWriting c nxt) (putFile (pc_file c) (Foreign [] None) s)
      | CreateWriting c nxt \<Rightarrow> goto p (Returned c nxt) (putFile (pc_file c) (Written nxt) s)
      | Opening c attempt e nxt retry \<Rightarrow>
          if cs_locks s (pc_file c) = None
          then goto p (Stamping c attempt e nxt) (putLock (pc_file c) (Some \<lparr>cl_inode = p, cl_holder = None\<rparr>) s)
          else if retry then goto p (Reading c (Suc attempt)) s
          else goto p (Reclaiming c attempt e nxt) s
      | Reclaiming c attempt e nxt \<Rightarrow>
          if staleHolder s p (cs_locks s (pc_file c)) then goto p (Unlinking c attempt e nxt) s
          else goto p (Reading c (Suc attempt)) s
      | Unlinking c attempt e nxt \<Rightarrow>
          if cs_locks s (pc_file c) = None then goto p (Reading c (Suc attempt)) s
          else goto p (Opening c attempt e nxt True) (putLock (pc_file c) None s)
      | Stamping c attempt e nxt \<Rightarrow> goto p (Comparing c attempt e nxt)
          (if map_option cl_inode (cs_locks s (pc_file c)) = Some p
           then putLock (pc_file c) (Some \<lparr>cl_inode = p, cl_holder = Some p\<rparr>) s else s)
      | Comparing c attempt e nxt \<Rightarrow>
          if claimCasEqual (stored s (pc_file c)) e then goto p (Swapping c attempt e nxt) s
          else goto p (Unlocking c attempt e None) s
      | Swapping c attempt e nxt \<Rightarrow>
          goto p (Unlocking c attempt e (Some nxt)) (putFile (pc_file c) (Written nxt) s)
      | Unlocking c attempt e result \<Rightarrow>
          goto p (case result of None \<Rightarrow> Reading c (Suc attempt) | Some nxt \<Rightarrow> Returned c nxt) (putLock (pc_file c) None s)
      | _ \<Rightarrow> s)"

text \<open>A call begins with the check of the observation.\<close>

definition persistOperationObservation :: "int \<Rightarrow> OperationObservation \<Rightarrow> string \<Rightarrow> ClaimSystem \<Rightarrow> ClaimSystem" where
  "persistOperationObservation p obs recorded_at s =
     (if js_trim (oi_domain obs) = [] \<or> \<not> isLogicalOperationId (oi_logical_operation_id obs)
      then goto p (Failed ''operation observation: domain and logical_operation_id are required'') s
      else goto p (Reading \<lparr>pc_obs = obs,
             pc_file = observationFileName (operationClaimKey (oi_domain obs) (oi_logical_operation_id obs)),
             pc_recorded_at = recorded_at\<rparr> 0) s)"

section \<open>Consumers\<close>

definition ownedClaim :: "claim \<Rightarrow> bool" where
  "ownedClaim rec \<longleftrightarrow> oo_owned rec \<and> \<not> oo_complete rec \<and> \<not> oo_human_owned rec \<and> \<not> oo_cancelled rec"

definition loadOwnedOperationClaim :: "string \<Rightarrow> string \<Rightarrow> ClaimSystem \<Rightarrow> claim option" where
  "loadOwnedOperationClaim domain logicalOperationId s =
     (case stored s (observationFileName (operationClaimKey domain logicalOperationId)) of
        None \<Rightarrow> None
      | Some rec \<Rightarrow> if ownedClaim rec then Some rec else None)"

definition listPersistedOperationObservations :: "string list \<Rightarrow> ClaimSystem \<Rightarrow> claim list" where
  "listPersistedOperationObservations names s =
     List.map_filter (\<lambda>name. if js_startsWith (rev name) (rev ''.json'') then stored s name else None) names"

definition consumeOwnedOperation ::
  "claim \<Rightarrow> (ObservationLifecycleState \<times> string \<times> string \<times> int option \<times> string option) result" where
  "consumeOwnedOperation claim =
     (if \<not> ownedClaim claim
      then Inl (LoopError Validation ''recovery supervisor: claim is not an owned Logical Operation'')
      else Inr (oo_lifecycle claim, oi_domain claim, oi_logical_operation_id claim, oi_issue claim, oi_run_id claim))"

end
