(* ===== verification/Claim_Laws.thy ===== *)
theory Claim_Laws
  imports Operation_Claims
begin

text \<open>
  What the claim store of \<open>Operation_Claims\<close> promises. The invariant \<open>claim_inv\<close> says who holds a lock file
  and what each process knows at each point of its call; it gives the refinement to the contract
  \<open>claim_decision\<close>, one atomic decision per write. The contract needs that no process ends inside the
  lock: the last theorems show what a lock or a claim file left behind by a crash does.
\<close>

section \<open>Decisions\<close>

text \<open>The contract of the store: a claim is only ever replaced by the decision of an observation on it.\<close>

definition claim_decision :: "claim option \<Rightarrow> claim option \<Rightarrow> bool" where
  "claim_decision a b \<longleftrightarrow> (\<exists>obs t c. typed_observation obs \<and> oi_domain obs \<noteq> [] \<and> isLogicalOperationId (oi_logical_operation_id obs)
     \<and> decideNextClaim a obs t = New c \<and> b = Some c)"

abbreviation revision :: "claim \<Rightarrow> int" where
  "revision c \<equiv> claimRevisionOf (Some c)"

abbreviation rank :: "claim \<Rightarrow> nat" where
  "rank c \<equiv> LIFECYCLE_RANK (oo_lifecycle c)"

text \<open>A later claim has a higher revision, and never a lower rank.\<close>

definition claim_le :: "claim \<Rightarrow> claim \<Rightarrow> bool" where
  "claim_le a b \<longleftrightarrow> a = b \<or> (revision a < revision b \<and> rank a \<le> rank b)"

lemma claim_le_refl [simp]: "claim_le a a"
  by (simp add: claim_le_def)

lemma claim_le_trans: "claim_le a b \<Longrightarrow> claim_le b c \<Longrightarrow> claim_le a c"
  by (auto simp: claim_le_def)

lemma claim_le_revision: "claim_le a b \<Longrightarrow> revision a = revision b \<Longrightarrow> a = b"
  by (auto simp: claim_le_def)

lemmas claim_record = OperationObservation.extend_def PersistedOperationObservation.fields_def

lemma decide_new:
  assumes "decideNextClaim a obs t = New c"
  shows "a = Some e \<Longrightarrow> claim_le e c" "oo_lifecycle c = oo_lifecycle obs"
    and "validClaim c \<longleftrightarrow> oo_owned obs \<and> oo_schema_version obs = OPERATION_OBSERVATION_SCHEMA_VERSION \<and> oi_domain obs \<noteq> []
      \<and> isLogicalOperationId (oi_logical_operation_id obs)"
  using assms
  by (auto simp: decideNextClaim_def claim_record claim_le_def lifecycleMayAdvance_def overlayObservation_def claimRevisionOf_def
    validClaim_def split: option.splits if_splits)

lemma decide_kept: "decideNextClaim a obs t = Kept e \<Longrightarrow> a = Some e"
  by (auto simp: decideNextClaim_def split: option.splits if_splits)

lemma decision_advances: "claim_decision (Some a) b \<Longrightarrow> \<exists>c. b = Some c \<and> claim_le a c"
  using decide_new(1) unfolding claim_decision_def by blast

lemma decisions_advance: "claim_decision\<^sup>*\<^sup>* (Some a) b \<Longrightarrow> \<exists>c. b = Some c \<and> claim_le a c"
  by (induction rule: rtranclp_induct) (auto dest: decision_advances intro: claim_le_trans)


section \<open>Runs of the claim store\<close>

text \<open>A process inside the lock, by the file it works on.\<close>

fun section_of :: "Pc \<Rightarrow> string option" where
  "section_of (Stamping c k e n) = Some (pc_file c)"
| "section_of (Comparing c k e n) = Some (pc_file c)"
| "section_of (Swapping c k e n) = Some (pc_file c)"
| "section_of (Unlocking c k e r) = Some (pc_file c)"
| "section_of _ = None"

fun at_rest :: "Pc \<Rightarrow> bool" where
  "at_rest Idle = True"
| "at_rest (Returned c e) = True"
| "at_rest (Failed m) = True"
| "at_rest _ = False"

text \<open>Any number of processes call, step, end and start in any order. With \<open>crashes\<close> a process may end
  anywhere, without it a process does not end inside the lock.\<close>

inductive claim_move :: "bool \<Rightarrow> ClaimSystem \<Rightarrow> ClaimSystem \<Rightarrow> bool" for crashes where
  call: "cs_alive s p \<Longrightarrow> at_rest (cs_procs s p) \<Longrightarrow> typed_observation obs \<Longrightarrow> claim_move crashes s (persistOperationObservation p obs t s)"
| step: "cs_alive s p \<Longrightarrow> claim_move crashes s (claimStep p s)"
| exit: "crashes \<or> section_of (cs_procs s p) = None \<Longrightarrow> claim_move crashes s (s\<lparr>cs_alive := (cs_alive s)(p := False)\<rparr>)"
| spawn: "\<not> cs_alive s p \<Longrightarrow> section_of (cs_procs s p) = None \<Longrightarrow>
    claim_move crashes s (goto p Idle (s\<lparr>cs_alive := (cs_alive s)(p := True)\<rparr>))"

lemmas sys_simps = goto_def putFile_def putLock_def

fun reclaims :: "Pc \<Rightarrow> bool" where
  "reclaims (Unlinking c k e n) = True"
| "reclaims (Opening c k e n retry) = retry"
| "reclaims _ = False"

text \<open>The lock: the process inside it is alive and the one that created the lock file.\<close>

definition owner :: "ClaimSystem \<Rightarrow> string \<Rightarrow> int option" where
  "owner s f = map_option cl_inode (cs_locks s f)"

definition lock_inv :: "ClaimSystem \<Rightarrow> bool" where
  "lock_inv s \<longleftrightarrow> (\<forall>p f. section_of (cs_procs s p) = Some f \<longleftrightarrow> owner s f = Some p)
     \<and> (\<forall>f l h. cs_locks s f = Some l \<longrightarrow> cl_holder l = Some h \<longrightarrow> h = cl_inode l)
     \<and> (\<forall>p. section_of (cs_procs s p) = None \<or> cs_alive s p) \<and> (\<forall>p. \<not> reclaims (cs_procs s p))"

lemma sys_fields [simp]:
  "cs_procs (goto p pc s) = (cs_procs s)(p := pc)" "cs_procs (putFile f t s) = cs_procs s" "cs_procs (putLock f l s) = cs_procs s"
  "cs_files (goto p pc s) = cs_files s" "cs_files (putFile f t s) = (cs_files s)(f := Some t)" "cs_files (putLock f l s) = cs_files s"
  "cs_locks (goto p pc s) = cs_locks s" "cs_locks (putFile f t s) = cs_locks s" "cs_locks (putLock f l s) = (cs_locks s)(f := l)"
  "cs_alive (goto p pc s) = cs_alive s" "cs_alive (putFile f t s) = cs_alive s" "cs_alive (putLock f l s) = cs_alive s"
  by (simp_all add: sys_simps)

lemma owner_fields [simp]:
  "owner (goto p pc s) = owner s" "owner (putFile f t s) = owner s"
  "owner (putLock f l s) = (owner s)(f := map_option cl_inode l)"
  by (auto simp: owner_def)

lemma lock_inv_alone: "lock_inv s \<Longrightarrow> section_of (cs_procs s p) = Some f \<Longrightarrow> section_of (cs_procs s q) = Some f \<Longrightarrow> p = q"
  unfolding lock_inv_def by (metis option.inject)

lemma lock_inv_stale:
  assumes "lock_inv s" "section_of (cs_procs s p) = None"
  shows "\<not> staleHolder s p (cs_locks s f)"
proof
  assume "staleHolder s p (cs_locks s f)"
  then obtain l h where l: "cs_locks s f = Some l" "cl_holder l = Some h" "h = p \<or> \<not> cs_alive s h"
    by (auto simp: staleHolder_def split: option.splits Option.bind_splits)
  then have "owner s f = Some h" using assms(1) by (auto simp: lock_inv_def owner_def)
  then have "section_of (cs_procs s h) = Some f" using assms(1) by (simp add: lock_inv_def)
  with l(3) assms show False unfolding lock_inv_def by (metis option.distinct(1))
qed

text \<open>The ways a process moves with respect to the lock.\<close>

lemma lock_inv_putFile [simp]: "lock_inv (putFile f t s) = lock_inv s"
  by (simp add: lock_inv_def)

lemma lock_inv_same: "lock_inv s \<Longrightarrow> section_of pc = section_of (cs_procs s p) \<Longrightarrow> \<not> reclaims pc \<Longrightarrow> lock_inv (goto p pc s)"
  by (auto simp: lock_inv_def)

lemma lock_inv_change:
  assumes "lock_inv s" "\<not> reclaims pc" "section_of pc = None \<or> cs_alive s p"
    and "section_of (cs_procs s p) = None \<and> owner s f = None \<or> section_of (cs_procs s p) = Some f"
    and "section_of pc = (if l = None then None else Some f)" "\<And>k. l = Some k \<Longrightarrow> cl_inode k = p \<and> cl_holder k \<in> {None, Some p}"
  shows "lock_inv (goto p pc (putLock f l s))"
proof -
  have "section_of (cs_procs (goto p pc (putLock f l s)) q) = Some g \<longleftrightarrow> owner (goto p pc (putLock f l s)) g = Some q" for q g
  proof (cases "q = p")
    case True
    then show ?thesis using assms unfolding lock_inv_def by (cases "g = f"; cases l) (auto; metis option.distinct(1) option.inject)+
  next
    case False
    then show ?thesis using assms unfolding lock_inv_def by (cases "g = f"; cases l) (auto; metis option.distinct(1) option.inject)+
  qed
  then show ?thesis using assms unfolding lock_inv_def by (auto split: if_splits)
qed

text \<open>What a process knows at each point of its call: the claim it expects has been stored, and the one it
  means to store is the decision of its observation.\<close>

definition call_ok :: "PersistCall \<Rightarrow> bool" where
  "call_ok c \<longleftrightarrow> typed_observation (pc_obs c) \<and> oi_domain (pc_obs c) \<noteq> [] \<and> isLogicalOperationId (oi_logical_operation_id (pc_obs c))"

definition decides :: "PersistCall \<Rightarrow> claim option \<Rightarrow> claim \<Rightarrow> bool" where
  "decides c e n \<longleftrightarrow> call_ok c \<and> decideNextClaim e (pc_obs c) (pc_recorded_at c) = New n"

definition known :: "ClaimSystem \<Rightarrow> PersistCall \<Rightarrow> claim \<Rightarrow> bool" where
  "known s c e \<longleftrightarrow> (\<exists>cur. stored s (pc_file c) = Some cur \<and> claim_le e cur)"

fun pc_ok :: "ClaimSystem \<Rightarrow> Pc \<Rightarrow> bool" where
  "pc_ok s (Reading c k) = call_ok c"
| "pc_ok s (Creating c k n) = decides c None n"
| "pc_ok s (CreateWriting c n) = (decides c None n \<and> cs_files s (pc_file c) = Some (Foreign [] None))"
| "pc_ok s (Opening c k e n r) = (decides c (Some e) n \<and> known s c e)"
| "pc_ok s (Reclaiming c k e n) = (decides c (Some e) n \<and> known s c e)"
| "pc_ok s (Unlinking c k e n) = (decides c (Some e) n \<and> known s c e)"
| "pc_ok s (Stamping c k e n) = (decides c (Some e) n \<and> known s c e)"
| "pc_ok s (Comparing c k e n) = (decides c (Some e) n \<and> known s c e)"
| "pc_ok s (Swapping c k e n) = (decides c (Some e) n \<and> stored s (pc_file c) = Some e)"
| "pc_ok s (Unlocking c k e r) = (call_ok c \<and> (\<forall>n. r = Some n \<longrightarrow> known s c n))"
| "pc_ok s (Returned c e) = known s c e"
| "pc_ok s _ = True"

fun creates :: "Pc \<Rightarrow> string option" where
  "creates (CreateWriting c n) = Some (pc_file c)"
| "creates _ = None"

definition claim_inv :: "ClaimSystem \<Rightarrow> bool" where
  "claim_inv s \<longleftrightarrow> lock_inv s \<and> (\<forall>p. pc_ok s (cs_procs s p))
     \<and> (\<forall>p q f. creates (cs_procs s p) = Some f \<longrightarrow> creates (cs_procs s q) = Some f \<longrightarrow> p = q)"

lemma lock_inv_step:
  assumes "lock_inv s" "cs_alive s p"
  shows "lock_inv (claimStep p s)"
proof -
  have "\<not> reclaims (cs_procs s p)" using assms(1) by (simp add: lock_inv_def)
  moreover have "owner s f = Some p" if "section_of (cs_procs s p) = Some f" for f
    using assms(1) that by (simp add: lock_inv_def)
  moreover have "\<not> staleHolder s p (cs_locks s f)" if "section_of (cs_procs s p) = None" for f
    using lock_inv_stale [OF assms(1) that] .
  ultimately show ?thesis
    using assms
    by (cases "cs_procs s p") (auto simp: claimStep_def readStep_def owner_def split: NextClaim.splits option.splits
      intro!: lock_inv_same [of s] lock_inv_same [of "putFile _ _ s"] lock_inv_change [of s])
qed


lemma claimStep_files:
  "cs_files (claimStep p s) = (case cs_procs s p of
      Creating c k n \<Rightarrow> if cs_files s (pc_file c) = None then (cs_files s)(pc_file c := Some (Foreign [] None)) else cs_files s
    | CreateWriting c n \<Rightarrow> (cs_files s)(pc_file c := Some (Written n))
    | Swapping c k e n \<Rightarrow> (cs_files s)(pc_file c := Some (Written n))
    | _ \<Rightarrow> cs_files s)"
  by (auto simp: claimStep_def readStep_def split: Pc.splits NextClaim.splits option.splits)

lemma claimStep_procs: "q \<noteq> p \<Longrightarrow> cs_procs (claimStep p s) q = cs_procs s q"
  by (auto simp: claimStep_def readStep_def split: Pc.splits NextClaim.splits option.splits)

lemma read_simps [simp]:
  "readClaimFile None = None" "readClaimFile (Some (Foreign t None)) = None"
  "readClaimFile (Some (Written n)) = (if validClaim n then Some n else None)"
  by (auto simp: readClaimFile_def)

lemma read_Some: "readClaimFile t = Some e \<Longrightarrow> \<exists>y. t = Some y"
  by (auto simp: readClaimFile_def split: Option.bind_splits option.splits)

lemma decides_valid: "decides c a n \<Longrightarrow> validClaim n"
  by (auto simp: decides_def call_ok_def typed_observation_def decide_new(3))

lemma decides_decision: "decides c a n \<Longrightarrow> claim_decision a (Some n)"
  unfolding decides_def call_ok_def claim_decision_def by blast

text \<open>One step replaces at most one claim, by the decision on the claim that is there.\<close>

definition evolves :: "ClaimSystem \<Rightarrow> ClaimSystem \<Rightarrow> bool" where
  "evolves s s' \<longleftrightarrow> (\<forall>f. stored s' f = stored s f \<or> claim_decision (stored s f) (stored s' f))"

lemma known_evolves: "evolves s s' \<Longrightarrow> known s c e \<Longrightarrow> known s' c e"
  unfolding evolves_def known_def by (metis claim_le_trans decision_advances)

lemma step_evolves:
  assumes "claim_inv s"
  shows "evolves s (claimStep p s)"
proof -
  have "pc_ok s (cs_procs s p)" using assms by (simp add: claim_inv_def)
  then show ?thesis
    unfolding evolves_def claimStep_files
    by (cases "cs_procs s p") (auto simp: decides_valid dest: decides_decision)
qed

fun swaps :: "Pc \<Rightarrow> string option" where
  "swaps (Swapping c k e n) = Some (pc_file c)"
| "swaps _ = None"

lemma pc_ok_frame:
  assumes "pc_ok s pc" "evolves s s'" "\<And>f. creates pc = Some f \<Longrightarrow> cs_files s' f = cs_files s f"
    "\<And>f. swaps pc = Some f \<Longrightarrow> cs_files s' f = cs_files s f"
  shows "pc_ok s' pc"
  using assms by (cases pc) (auto intro: known_evolves)

text \<open>The file a process is about to write is written by no other one.\<close>

lemma step_frame:
  assumes "claim_inv s" "q \<noteq> p" "creates (cs_procs s q) = Some f \<or> swaps (cs_procs s q) = Some f"
  shows "cs_files (claimStep p s) f = cs_files s f"
proof -
  have ok: "pc_ok s (cs_procs s p)" "pc_ok s (cs_procs s q)" and lock: "lock_inv s" using assms(1) by (simp_all add: claim_inv_def)
  have "creates (cs_procs s p) \<noteq> creates (cs_procs s q) \<or> creates (cs_procs s p) = None"
    using assms(1,2) unfolding claim_inv_def by (metis not_None_eq)
  moreover have "swaps (cs_procs s p) \<noteq> Some g \<or> swaps (cs_procs s q) \<noteq> Some g" for g
    using lock_inv_alone [OF lock, of p g q] assms(2) by (cases "cs_procs s p"; cases "cs_procs s q") auto
  ultimately show ?thesis
    using ok assms(3) unfolding claimStep_files
    by (cases "cs_procs s p"; cases "cs_procs s q") (auto dest: read_Some)
qed

lemma cas_equal_expected:
  assumes "claimCasEqual (stored s (pc_file c)) e" "known s c e"
  shows "stored s (pc_file c) = Some e"
  using assms by (auto simp: claimCasEqual_def known_def dest: claim_le_revision)

lemma known_stored: "stored s (pc_file c) = Some e \<Longrightarrow> known s c e"
  by (simp add: known_def)

text \<open>The step of a process keeps what it knows.\<close>

lemma own_pc_ok:
  assumes "claim_inv s"
  shows "pc_ok (claimStep p s) (cs_procs (claimStep p s) p)"
proof -
  have ok: "pc_ok s (cs_procs s p)" using assms by (simp add: claim_inv_def)
  have keep: "known (claimStep p s) c e" if "known s c e" for c e using known_evolves [OF step_evolves [OF assms] that] .
  show ?thesis
  proof (cases "cs_procs s p")
    case (Reading c k)
    have same: "stored (claimStep p s) f = stored s f" for f unfolding claimStep_files by (simp add: Reading)
    show ?thesis
    proof (cases "decideNextClaim (stored s (pc_file c)) (pc_obs c) (pc_recorded_at c)")
      case (Kept e)
      then show ?thesis
        using decide_kept [OF Kept] by (simp add: known_def same) (simp add: claimStep_def readStep_def Reading known_def)
    next
      case (New n)
      with ok show ?thesis
        by (cases "stored s (pc_file c)")
          (simp_all add: claimStep_def readStep_def Reading decides_def known_def)
    qed
  qed (use ok keep in \<open>auto simp: claimStep_def decides_valid known_def decides_def dest: cas_equal_expected split: option.splits\<close>)
qed


lemma claimStep_creates: "creates (cs_procs (claimStep p s) p) = Some f \<Longrightarrow> cs_files s f = None"
  by (cases "cs_procs s p") (auto simp: claimStep_def readStep_def split: NextClaim.splits option.splits if_splits)

lemma claim_inv_step:
  assumes "claim_inv s" "cs_alive s p"
  shows "claim_inv (claimStep p s)"
proof -
  have "pc_ok (claimStep p s) (cs_procs (claimStep p s) q)" for q
  proof (cases "q = p")
    case False
    have "pc_ok s (cs_procs s q)" using assms(1) by (simp add: claim_inv_def)
    from pc_ok_frame [OF this step_evolves [OF assms(1)]] step_frame [OF assms(1) False] show ?thesis
      unfolding claimStep_procs [OF False] by blast
  qed (use own_pc_ok [OF assms(1)] in simp)
  moreover have "q = r" if "creates (cs_procs (claimStep p s) q) = Some f" "creates (cs_procs (claimStep p s) r) = Some f" for q r f
  proof -
    have "creates (cs_procs s x) = Some f" if "creates (cs_procs (claimStep p s) x) = Some f" "x \<noteq> p" for x
      using that claimStep_procs [of x p s] by simp
    moreover have "creates (cs_procs s x) \<noteq> Some f" if "creates (cs_procs (claimStep p s) p) = Some f" for x
    proof -
      have "pc_ok s (cs_procs s x)" using assms(1) by (simp add: claim_inv_def)
      then show ?thesis using claimStep_creates [OF that] by (cases "cs_procs s x") auto
    qed
    ultimately show ?thesis
      using that assms(1) unfolding claim_inv_def by metis
  qed
  ultimately show ?thesis
    using lock_inv_step [of s p] assms by (simp add: claim_inv_def)
qed

lemma at_rest_fields: "at_rest pc \<Longrightarrow> section_of pc = None \<and> creates pc = None \<and> swaps pc = None"
  by (cases pc) auto

lemma claim_inv_goto:
  assumes "claim_inv s" "pc_ok s pc" "section_of pc = section_of (cs_procs s p)" "\<not> reclaims pc" "creates pc = None"
  shows "claim_inv (goto p pc s)"
proof -
  have "pc_ok (goto p pc s) q = pc_ok s q" for q by (cases q) (simp_all add: known_def)
  then show ?thesis using assms lock_inv_same [of s pc p] by (auto simp: claim_inv_def)
qed

lemma claim_inv_alive:
  assumes "claim_inv s" "\<And>q. section_of (cs_procs s q) = None \<or> alive q"
  shows "claim_inv (s\<lparr>cs_alive := alive\<rparr>)"
proof -
  have "pc_ok (s\<lparr>cs_alive := alive\<rparr>) q = pc_ok s q" for q by (cases q) (simp_all add: known_def)
  moreover have "owner (s\<lparr>cs_alive := alive\<rparr>) = owner s" by (simp add: owner_def [abs_def])
  ultimately show ?thesis using assms by (simp add: claim_inv_def lock_inv_def)
qed

lemma js_trim_Nil [simp]: "js_trim [] = []"
  by (simp add: js_trim_def)

lemma claim_inv_move: "claim_move False s s' \<Longrightarrow> claim_inv s \<Longrightarrow> claim_inv s' \<and> evolves s s'"
proof (induction rule: claim_move.induct)
  case (call s p obs t)
  have "claim_inv (persistOperationObservation p obs t s)"
    using call at_rest_fields [OF call(2)]
    by (auto simp: persistOperationObservation_def call_ok_def intro!: claim_inv_goto)
  then show ?case by (auto simp: evolves_def persistOperationObservation_def)
next
  case (step s p)
  then show ?case using claim_inv_step step_evolves by blast
next
  case (exit s p)
  then have "claim_inv (s\<lparr>cs_alive := (cs_alive s)(p := False)\<rparr>)"
    by (intro claim_inv_alive) (auto simp: claim_inv_def lock_inv_def)
  then show ?case by (simp add: evolves_def)
next
  case (spawn s p)
  then have "claim_inv (s\<lparr>cs_alive := (cs_alive s)(p := True)\<rparr>)"
    by (intro claim_inv_alive) (auto simp: claim_inv_def lock_inv_def)
  then have "claim_inv (goto p Idle (s\<lparr>cs_alive := (cs_alive s)(p := True)\<rparr>))"
    by (rule claim_inv_goto) (use spawn in simp_all)
  then show ?case by (simp add: evolves_def)
qed

interpretation claims: simulation "claim_move False" claim_inv "\<lambda>s. stored s f" claim_decision for f
  by unfold_locales (use claim_inv_move in \<open>auto simp: evolves_def\<close>)

text \<open>A fresh system: nobody is inside a call, and there is no lock file.\<close>

definition fresh_claims :: "ClaimSystem \<Rightarrow> bool" where
  "fresh_claims s \<longleftrightarrow> (\<forall>p. cs_procs s p = Idle) \<and> (\<forall>f. cs_locks s f = None)"

lemma fresh_inv: "fresh_claims s \<Longrightarrow> claim_inv s"
  by (simp add: fresh_claims_def claim_inv_def lock_inv_def owner_def)


section \<open>The theorems\<close>

definition claimBy :: "ObservationLifecycleState \<Rightarrow> OperationObservation" where
  "claimBy lifecycle = (projr (completedOperationObservation \<lparr>in_operation = ''op'', in_form_id = ''form'', in_message = ''m'', in_domain = ''d'',
      in_logical_operation_id = Some ''lop-1'', in_repository = None, in_issue = None, in_run_id = None, in_mint = []\<rparr>))
     \<lparr>oo_lifecycle := lifecycle, oo_complete := (lifecycle = CompleteClaim)\<rparr>"

definition emptyClaims :: ClaimSystem where
  "emptyClaims = \<lparr>cs_files = (\<lambda>_. None), cs_locks = (\<lambda>_. None), cs_procs = (\<lambda>_. Idle), cs_alive = (\<lambda>p. p \<in> {1, 2})\<rparr>"

abbreviation exampleFile :: string where
  "exampleFile \<equiv> ''d_lop-1.json''"

lemma alive_fields [simp]:
  "cs_alive (claimStep p s) = cs_alive s" "cs_alive (persistOperationObservation p obs t s) = cs_alive s"
  by (auto simp: claimStep_def readStep_def persistOperationObservation_def split: Pc.splits NextClaim.splits option.splits)

lemma steps_reach: "\<forall>p \<in> set ps. cs_alive s p \<Longrightarrow> (claim_move crashes)\<^sup>*\<^sup>* s (fold claimStep ps s)"
proof (induction ps arbitrary: s)
  case (Cons p ps)
  then have "(claim_move crashes)\<^sup>*\<^sup>* (claimStep p s) (fold claimStep ps (claimStep p s))" by simp
  moreover have "claim_move crashes s (claimStep p s)" using Cons.prems by (simp add: claim_move.step)
  ultimately show ?case unfolding fold_simps by (rule converse_rtranclp_into_rtranclp [rotated])
qed simp

text \<open>C5: the claim store refines atomic decisions. From a system without locks, whatever calls any processes
  make, in whatever interleaving of their file-system operations, as long as no process ends inside the
  lock, every change of a claim file is the decision of one observation on the claim that is stored at that
  moment. So a stored claim is only replaced by one with a higher revision and never a lower rank, a
  completed claim stays completed, and a claim that a call has returned is still stored or has been advanced.\<close>

theorem claims_refine_decisions:
  assumes "fresh_claims s" "(claim_move False)\<^sup>*\<^sup>* s s'"
  shows "claim_decision\<^sup>*\<^sup>* (stored s f) (stored s' f)
    \<and> (\<forall>a. stored s f = Some a \<longrightarrow> (\<exists>b. stored s' f = Some b \<and> revision a \<le> revision b \<and> rank a \<le> rank b))
    \<and> (\<forall>p c e. cs_procs s' p = Returned c e \<longrightarrow> (\<exists>b. stored s' (pc_file c) = Some b \<and> revision e \<le> revision b \<and> rank e \<le> rank b))"
proof -
  have run: "claim_inv s'" "claim_decision\<^sup>*\<^sup>* (stored s f) (stored s' f)"
    using claims.run_keeps [OF assms(2)] claims.run_simulates [OF assms(2)] fresh_inv [OF assms(1)] by blast+
  have le: "revision a \<le> revision b \<and> rank a \<le> rank b" if "claim_le a b" for a b using that by (auto simp: claim_le_def)
  have "known s' c e" if "cs_procs s' p = Returned c e" for p c e
    using run(1) that unfolding claim_inv_def by (metis pc_ok.simps(11))
  then show ?thesis
    using run(2) decisions_advance le unfolding known_def by metis
qed

abbreviation exampleClaims :: ClaimSystem where
  "exampleClaims \<equiv> fold claimStep [1, 2, 1, 2, 1, 2, 2, 2, 2, 2, 2]
     (persistOperationObservation 2 (claimBy CoolingClaim) ''t'' (persistOperationObservation 1 (claimBy CompleteClaim) ''t'' emptyClaims))"

lemma example_typed: "typed_observation (claimBy l)"
  by (cases l) code_simp+

lemma example_calls:
  assumes "cs_alive s 1" "cs_alive s 2" "at_rest (cs_procs s 1)" "at_rest (cs_procs s 2)"
  shows "(claim_move crashes)\<^sup>*\<^sup>* s (persistOperationObservation 2 (claimBy CoolingClaim) t (persistOperationObservation 1 (claimBy CompleteClaim) t s))"
proof -
  let ?s1 = "persistOperationObservation 1 (claimBy CompleteClaim) t s"
  have "cs_alive ?s1 2" "at_rest (cs_procs ?s1 2)" using assms by (simp_all add: persistOperationObservation_def)
  then have "claim_move crashes s ?s1" "claim_move crashes ?s1 (persistOperationObservation 2 (claimBy CoolingClaim) t ?s1)"
    using assms example_typed by (auto intro: claim_move.call)
  then show ?thesis by (meson rtranclp.rtrancl_refl rtranclp.rtrancl_into_rtrancl)
qed

theorem claims_refine_decisions_witness:
  "claim_decision\<^sup>*\<^sup>* None (stored exampleClaims exampleFile) \<and> map_option rank (stored exampleClaims exampleFile) = Some 2
    \<and> map_option (\<lambda>e. rank e) (case cs_procs exampleClaims 2 of Returned c e \<Rightarrow> Some e | _ \<Rightarrow> None) = Some 2"
proof -
  let ?s = "persistOperationObservation 2 (claimBy CoolingClaim) ''t'' (persistOperationObservation 1 (claimBy CompleteClaim) ''t'' emptyClaims)"
  have "(claim_move False)\<^sup>*\<^sup>* emptyClaims ?s" by (rule example_calls) (simp_all add: emptyClaims_def)
  moreover have "(claim_move False)\<^sup>*\<^sup>* ?s exampleClaims"
    by (rule steps_reach) (simp add: emptyClaims_def)
  ultimately have "(claim_move False)\<^sup>*\<^sup>* emptyClaims exampleClaims" by (rule rtranclp_trans)
  from claims_refine_decisions [OF _ this, of exampleFile] have "claim_decision\<^sup>*\<^sup>* None (stored exampleClaims exampleFile)"
    by (simp add: fresh_claims_def emptyClaims_def)
  moreover have "map_option rank (stored exampleClaims exampleFile) = Some 2" by code_simp
  moreover have "map_option (\<lambda>e. rank e) (case cs_procs exampleClaims 2 of Returned c e \<Rightarrow> Some e | _ \<Rightarrow> None) = Some 2" by code_simp
  ultimately show ?thesis by blast
qed


text \<open>An active claim with a lock file left behind by the dead process 9, and two processes that report a
  completion and a fault. Both find the lock stale before either removes it; the second removes the lock of
  the first.\<close>

definition staleClaims :: ClaimSystem where
  "staleClaims = emptyClaims
     \<lparr>cs_files := (\<lambda>f. if f = exampleFile then 
          map_option Written (stored (fold claimStep [1, 1, 1] (persistOperationObservation 1 (claimBy ActiveClaim) ''t'' emptyClaims)) f) else None),
      cs_locks := (\<lambda>f. if f = exampleFile then Some \<lparr>cl_inode = 9, cl_holder = Some 9\<rparr> else None)\<rparr>"


abbreviation racing :: "int list \<Rightarrow> ClaimSystem" where
  "racing ps \<equiv> fold claimStep ps (persistOperationObservation 2 (claimBy CoolingClaim) ''t''
     (persistOperationObservation 1 (claimBy CompleteClaim) ''t'' staleClaims))"

lemma racing_run: "\<forall>p \<in> set ps. p \<in> {1, 2} \<Longrightarrow> (claim_move crashes)\<^sup>*\<^sup>* staleClaims (racing ps)"
  by (rule rtranclp_trans [OF example_calls steps_reach])
    (auto simp: staleClaims_def emptyClaims_def persistOperationObservation_def)

text \<open>C6: two processes that reclaim the same stale lock file lose a completion. There is a system whose only
  lock file belongs to a dead process, and a run of two processes in it, none of which ends, in which the
  call that reports the completion has returned the completed claim and the other one then replaces it by a
  cooling claim with the same revision: the removal of the lock file is not tied to the file whose holder
  was found dead.\<close>

theorem stale_lock_loses_completion:
  "\<exists>s s1 s2 c a b. (\<forall>p. cs_procs s p = Idle) \<and> cs_locks s = [pc_file c \<mapsto> \<lparr>cl_inode = 9, cl_holder = Some 9\<rparr>] \<and> \<not> cs_alive s 9
    \<and> (claim_move False)\<^sup>*\<^sup>* s s1 \<and> cs_procs s1 1 = Returned c a \<and> stored s1 (pc_file c) = Some a \<and> oo_lifecycle a = CompleteClaim
    \<and> (claim_move False)\<^sup>*\<^sup>* s1 s2 \<and> stored s2 (pc_file c) = Some b \<and> oo_lifecycle b = CoolingClaim \<and> revision b = revision a"
proof -
  let ?ps = "[1, 2, 1, 2, 1, 2, 1, 1, 1, 2, 2, 2, 2, 1, 1, 1] :: int list"
  have "(case cs_procs (racing ?ps) 1 of Returned c a \<Rightarrow> pc_file c = exampleFile \<and> stored (racing ?ps) exampleFile = Some a \<and> oo_lifecycle a = CompleteClaim \<and> revision a = 2
      | _ \<Rightarrow> False)" by code_simp
  then obtain c a where a: "cs_procs (racing ?ps) 1 = Returned c a" "pc_file c = exampleFile" "stored (racing ?ps) exampleFile = Some a"
    "oo_lifecycle a = CompleteClaim" "revision a = 2" by (auto split: Pc.splits)
  have "map_option (\<lambda>b. (oo_lifecycle b, revision b)) (stored (racing (?ps @ [2])) exampleFile) = Some (CoolingClaim, 2)" by code_simp
  then obtain b where b: "stored (racing (?ps @ [2])) exampleFile = Some b" "oo_lifecycle b = CoolingClaim" "revision b = 2" by auto
  have "(claim_move False)\<^sup>*\<^sup>* staleClaims (racing ?ps)" by (rule racing_run) simp
  moreover have "(claim_move False)\<^sup>*\<^sup>* (racing ?ps) (racing (?ps @ [2]))"
    unfolding fold_append comp_def
    by (rule steps_reach) (simp add: staleClaims_def emptyClaims_def)
  moreover have "\<forall>p. cs_procs staleClaims p = Idle" "cs_locks staleClaims = [exampleFile \<mapsto> \<lparr>cl_inode = 9, cl_holder = Some 9\<rparr>]" "\<not> cs_alive staleClaims 9"
    by (auto simp: staleClaims_def emptyClaims_def)
  ultimately show ?thesis using a b by metis
qed


text \<open>A process that has got past the exclusive creation of its claim file.\<close>

fun holds_claim :: "Pc \<Rightarrow> PersistCall option" where
  "holds_claim Idle = None"
| "holds_claim (Failed m) = None"
| "holds_claim (Reading c k) = None"
| "holds_claim (Creating c k n) = None"
| "holds_claim (CreateWriting c n) = Some c"
| "holds_claim (Opening c k e n r) = Some c"
| "holds_claim (Reclaiming c k e n) = Some c"
| "holds_claim (Unlinking c k e n) = Some c"
| "holds_claim (Stamping c k e n) = Some c"
| "holds_claim (Comparing c k e n) = Some c"
| "holds_claim (Swapping c k e n) = Some c"
| "holds_claim (Unlocking c k e r) = Some c"
| "holds_claim (Returned c e) = Some c"

definition blocked_file :: "string \<Rightarrow> claim doc_text \<Rightarrow> ClaimSystem \<Rightarrow> bool" where
  "blocked_file f t s \<longleftrightarrow> readClaimFile (Some t) = None \<and> cs_files s f = Some t \<and> (\<forall>p c. holds_claim (cs_procs s p) = Some c \<longrightarrow> pc_file c \<noteq> f)"

lemma decide_none: "decideNextClaim None obs t \<noteq> Kept e"
  by (simp add: decideNextClaim_def)

lemma blocked_file_step:
  assumes "blocked_file f t s"
  shows "blocked_file f t (claimStep p s)"
proof -
  have here: "readClaimFile (Some t) = None" "cs_files s f = Some t" and others: "holds_claim (cs_procs s q) = Some c \<Longrightarrow> pc_file c \<noteq> f" for q c
    using assms by (auto simp: blocked_file_def)
  have "cs_files (claimStep p s) f = Some t"
    using here others [of p] unfolding claimStep_files by (cases "cs_procs s p") auto
  moreover have "pc_file c \<noteq> f" if "holds_claim (cs_procs (claimStep p s) p) = Some c" for c
    using that here others [of p]
    by (cases "cs_procs s p") (auto simp: claimStep_def readStep_def decide_none split: NextClaim.splits option.splits if_splits)
  ultimately show ?thesis
    using here(1) others claimStep_procs [of _ p s] unfolding blocked_file_def by metis
qed

lemma blocked_file_move: "claim_move crashes s s' \<Longrightarrow> blocked_file f t s \<Longrightarrow> blocked_file f t s'"
proof (induction rule: claim_move.induct)
  case (step s p)
  then show ?case using blocked_file_step by blast
qed (auto simp: blocked_file_def persistOperationObservation_def)

interpretation blocked: kept "claim_move crashes" "blocked_file f t" for crashes f t
  by unfold_locales (rule blocked_file_move)

lemma exhausts:
  assumes "cs_files s (pc_file c) = Some t" "readClaimFile (Some t) = None" "cs_procs s p = Reading c k" "k + n = CLAIM_CAS_ATTEMPTS"
  shows "cs_procs ((claimStep p ^^ Suc (2 * n)) s) p = Failed ''operation observation: claim CAS retries exhausted''"
  using assms
proof (induction n arbitrary: k s)
  case 0
  then show ?case by (auto simp: claimStep_def readStep_def decide_none split: NextClaim.splits)
next
  case (Suc n)
  have "cs_procs (claimStep p (claimStep p s)) p = Reading c (Suc k)" "cs_files (claimStep p (claimStep p s)) = cs_files s"
    using Suc.prems by (auto simp: claimStep_def readStep_def decide_none split: NextClaim.splits)
  with Suc.IH [of "claimStep p (claimStep p s)" "Suc k"] Suc.prems
  have "cs_procs ((claimStep p ^^ Suc (2 * n)) (claimStep p (claimStep p s))) p = Failed ''operation observation: claim CAS retries exhausted''"
    by simp
  then show ?case by (simp add: funpow_swap1)
qed

text \<open>C8: an unreadable claim file refuses its operation for ever. When a claim file holds a text that is not
  a valid claim (an empty file, as a process leaves it that ends between the creation and the write), then in
  every run of any processes the file keeps that text, no call returns a claim for it, and a call that
  runs by itself fails after its sixteen attempts: the exclusive creation finds the file, and nothing
  replaces it.\<close>

theorem unreadable_claim_blocks:
  assumes "\<forall>p. cs_procs s p = Idle" "cs_files s f = Some t" "readClaimFile (Some t) = None" "(claim_move True)\<^sup>*\<^sup>* s s'"
    and "f = observationFileName (operationClaimKey (oi_domain obs) (oi_logical_operation_id obs))"
    and "js_trim (oi_domain obs) \<noteq> []" "isLogicalOperationId (oi_logical_operation_id obs)"
  shows "cs_files s' f = Some t \<and> (\<forall>q c e. cs_procs s' q = Returned c e \<longrightarrow> pc_file c \<noteq> f)
    \<and> cs_procs ((claimStep p ^^ 33) (persistOperationObservation p obs u s')) p
      = Failed ''operation observation: claim CAS retries exhausted''"
proof -
  have b: "blocked_file f t s'"
    using blocked.run_keeps [OF assms(4)] assms(1-3) by (simp add: blocked_file_def)
  let ?c = "\<lparr>pc_obs = obs, pc_file = f, pc_recorded_at = u\<rparr>"
  have start: "persistOperationObservation p obs u s' = goto p (Reading ?c 0) s'"
    using assms(5-7) by (simp add: persistOperationObservation_def)
  have "cs_procs ((claimStep p ^^ Suc (2 * 16)) (goto p (Reading ?c 0) s')) p = Failed ''operation observation: claim CAS retries exhausted''"
    by (rule exhausts [where c = ?c and t = t and k = 0]) (use b assms(3) in \<open>simp_all add: blocked_file_def CLAIM_CAS_ATTEMPTS_def\<close>)
  then have "cs_procs ((claimStep p ^^ 33) (persistOperationObservation p obs u s')) p = Failed ''operation observation: claim CAS retries exhausted''"
    unfolding start by simp
  moreover have "pc_file c \<noteq> f" if "cs_procs s' q = Returned c e" for q c e
    using b that unfolding blocked_file_def by (metis holds_claim.simps(13))
  ultimately show ?thesis using b by (simp add: blocked_file_def)
qed

theorem unreadable_claim_blocks_witness:
  "cs_procs ((claimStep 1 ^^ 33) (persistOperationObservation 1 (claimBy ActiveClaim) ''t''
      (emptyClaims\<lparr>cs_files := (\<lambda>f. if f = exampleFile then Some (Foreign [] None) else None)\<rparr>))) 1
    = Failed ''operation observation: claim CAS retries exhausted''"
proof -
  let ?s = "emptyClaims\<lparr>cs_files := (\<lambda>f. if f = exampleFile then Some (Foreign [] None) else None)\<rparr>"
  have "exampleFile = observationFileName (operationClaimKey (oi_domain (claimBy ActiveClaim)) (oi_logical_operation_id (claimBy ActiveClaim)))"
    "js_trim (oi_domain (claimBy ActiveClaim)) \<noteq> []" "isLogicalOperationId (oi_logical_operation_id (claimBy ActiveClaim))"
    by code_simp+
  from unreadable_claim_blocks [of ?s exampleFile "Foreign [] None" ?s, OF _ _ _ _ this] show ?thesis
    by (simp add: emptyClaims_def)
qed

text \<open>C7: an undisturbed call succeeds. When there is no lock file, and the claim file is absent or holds a
  valid claim, a call that runs by itself returns within seven steps; it returns the claim that is then
  stored, which is the existing claim or the decision on it, and it leaves no lock file behind.\<close>

theorem undisturbed_call_returns:
  assumes "cs_locks s f = None" "cs_files s f = None \<or> stored s f \<noteq> None" "typed_observation obs"
    and "f = observationFileName (operationClaimKey (oi_domain obs) (oi_logical_operation_id obs))"
    and "js_trim (oi_domain obs) \<noteq> []" "isLogicalOperationId (oi_logical_operation_id obs)"
  shows "\<exists>c r. cs_procs ((claimStep p ^^ 7) (persistOperationObservation p obs u s)) p = Returned c r
    \<and> stored ((claimStep p ^^ 7) (persistOperationObservation p obs u s)) f = Some r
    \<and> (decideNextClaim (stored s f) obs u = Kept r \<or> decideNextClaim (stored s f) obs u = New r)
    \<and> cs_locks ((claimStep p ^^ 7) (persistOperationObservation p obs u s)) f = None"
proof -
  let ?c = "\<lparr>pc_obs = obs, pc_file = f, pc_recorded_at = u\<rparr>"
  have start: "persistOperationObservation p obs u s = goto p (Reading ?c 0) s"
    using assms(4-6) by (simp add: persistOperationObservation_def)
  have domain: "oi_domain obs \<noteq> []" using assms(5) by auto
  have seven: "(claimStep p ^^ 7) x = claimStep p (claimStep p (claimStep p (claimStep p (claimStep p (claimStep p (claimStep p x))))))" for x
    by (simp add: eval_nat_numeral)
  show ?thesis
  proof (cases "decideNextClaim (stored s f) obs u")
    case (Kept r)
    with decide_kept [OF Kept] assms(1) show ?thesis
      unfolding start seven by (simp add: claimStep_def readStep_def)
  next
    case (New r)
    then have "decides ?c (stored s f) r" using assms(3,6) domain by (simp add: decides_def call_ok_def)
    note valid = decides_valid [OF this]
    show ?thesis
    proof (cases "cs_files s f")
      case None
      with New valid assms(1) show ?thesis
        unfolding start seven by (simp add: claimStep_def readStep_def CLAIM_CAS_ATTEMPTS_def)
    next
      case (Some t)
      with assms(2) obtain e where "stored s f = Some e" by auto
      with New valid assms(1) show ?thesis
        unfolding start seven by (simp add: claimStep_def readStep_def CLAIM_CAS_ATTEMPTS_def claimCasEqual_def)
    qed
  qed
qed

theorem undisturbed_call_returns_witness:
  "\<exists>c r. cs_procs ((claimStep 1 ^^ 7) (persistOperationObservation 1 (claimBy ActiveClaim) ''t'' emptyClaims)) 1 = Returned c r
    \<and> stored ((claimStep 1 ^^ 7) (persistOperationObservation 1 (claimBy ActiveClaim) ''t'' emptyClaims)) exampleFile = Some r"
proof -
  have "exampleFile = observationFileName (operationClaimKey (oi_domain (claimBy ActiveClaim)) (oi_logical_operation_id (claimBy ActiveClaim)))"
    "js_trim (oi_domain (claimBy ActiveClaim)) \<noteq> []" "isLogicalOperationId (oi_logical_operation_id (claimBy ActiveClaim))"
    by code_simp+
  from undisturbed_call_returns [of emptyClaims exampleFile "claimBy ActiveClaim" 1 "''t''", OF _ _ example_typed this] show ?thesis
    by (fastforce simp: emptyClaims_def)
qed

end
