(* ===== verification/Dependency_Grammar.thy ===== *)
theory Dependency_Grammar
  imports Evidence_Text "HOL-Library.Sublist"
begin

text \<open>
  The grammar of declared dependencies, \<open>core/scripts/declared-dependency-grammar.ts\<close>: issue ids after a
  dependency phrase (\<open>depends on\<close>, \<open>requires\<close>, \<open>blocked by\<close>, \<open>needs\<close>) and under a dependency heading.
  A scanner works on the rest of the text: a regular expression with the flag \<open>g\<close> is tried at every
  position and goes on behind its match. White space before a character that is not white space never
  gives any back, so that the expressions are deterministic.
\<close>

section \<open>The scanners\<close>

definition isCanonicalIssueId :: "string \<Rightarrow> bool" where
  "isCanonicalIssueId raw = (case raw of [] \<Rightarrow> False | c # cs \<Rightarrow> is_digit c \<and> c \<noteq> CHR ''0'' \<and> list_all is_digit cs)"

text \<open>\<open>/^#(\d+)/\<close>: the digits and the rest.\<close>

definition issueRef :: "string \<Rightarrow> (string \<times> string) option" where
  "issueRef s = (case s of [] \<Rightarrow> None
     | c # r \<Rightarrow> if c = CHR ''#'' \<and> takeWhile is_digit r \<noteq> [] then Some (takeWhile is_digit r, dropWhile is_digit r) else None)"

text \<open>The separator before a further reference: a comma with an optional \<open>and\<close>, \<open>and\<close> between white space,
  or white space.\<close>

definition andThen :: "string \<Rightarrow> string option" where
  "andThen s =
     (let r = drop 3 s
      in if js_startsWith (js_lower s) ''and'' \<and> dropWhile js_space r \<noteq> r then Some (dropWhile js_space r) else None)"

definition separator :: "string \<Rightarrow> string option" where
  "separator s =
     (let s1 = dropWhile js_space s; s2 = dropWhile js_space (drop 1 s1)
      in if take 1 s1 = '',''
         then (case andThen s2 of
                 Some r \<Rightarrow> if issueRef r \<noteq> None then Some r else None
               | None \<Rightarrow> if issueRef s2 \<noteq> None then Some s2 else None)
         else if s1 = s then None
         else (case andThen s1 of
                 Some r \<Rightarrow> if issueRef r \<noteq> None then Some r else None
               | None \<Rightarrow> if issueRef s1 \<noteq> None then Some s1 else None))"

lemma length_dropWhile_le: "length (dropWhile P s) \<le> length s"
  by (induction s) auto

lemma length_dropWhile_drop: "length (dropWhile P (drop n s)) \<le> length s"
  using length_dropWhile_le [of P "drop n s"] by simp

lemma issueRef_length: "issueRef s = Some (d, r) \<Longrightarrow> length r < length s"
  using length_dropWhile_le [of is_digit "tl s"] by (auto simp: issueRef_def split: list.splits if_splits)

lemma andThen_length: "andThen s = Some r \<Longrightarrow> length r \<le> length s"
  using length_dropWhile_le [of js_space "drop 3 s"] by (auto simp: andThen_def Let_def split: if_splits)

lemma separator_length: "separator s = Some r \<Longrightarrow> length r \<le> length s"
  using length_dropWhile_le [of js_space s] length_dropWhile_le [of js_space "drop 1 (dropWhile js_space s)"]
    andThen_length [of "dropWhile js_space (drop 1 (dropWhile js_space s))"] andThen_length [of "dropWhile js_space s"]
  by (fastforce simp: separator_def Let_def split: if_splits option.splits)

function furtherRefs :: "string \<Rightarrow> string list" where
  "furtherRefs s =
     (case separator s of
        None \<Rightarrow> []
      | Some r \<Rightarrow> (case issueRef r of None \<Rightarrow> [] | Some (d, rest) \<Rightarrow> d # furtherRefs rest))"
  by pat_completeness auto
termination
  by (relation "measure length") (auto dest!: separator_length issueRef_length)

declare furtherRefs.simps [simp del]

definition consumeReferenceList :: "string \<Rightarrow> string list" where
  "consumeReferenceList s =
     (case issueRef (dropWhile js_space s) of None \<Rightarrow> [] | Some (d, rest) \<Rightarrow> d # furtherRefs rest)"

definition PHRASES :: "string list" where
  "PHRASES = [''depends on'', ''requires'', ''blocked by'', ''needs'']"

text \<open>\<open>PHRASE_HEAD_RE\<close> at the head of a text: what follows the phrase, white space and a colon.\<close>

definition phraseHead :: "string \<Rightarrow> string option" where
  "phraseHead s =
     (case find (\<lambda>p. js_startsWith (js_lower s) p) PHRASES of
        None \<Rightarrow> None
      | Some p \<Rightarrow> (let r = dropWhile js_space (drop (length p) s) in Some (if take 1 r = '':'' then drop 1 r else r)))"

lemma phraseHead_length: "phraseHead s = Some r \<Longrightarrow> length r < length s"
proof -
  assume "phraseHead s = Some r"
  then obtain p where p: "p \<in> set PHRASES" "js_startsWith (js_lower s) p" "length r \<le> length (dropWhile js_space (drop (length p) s))"
    by (fastforce simp: phraseHead_def Let_def dest: find_hit split: option.splits if_splits)
  have "s \<noteq> []" "p \<noteq> []" using p(1,2) by (auto simp: PHRASES_def js_lower_def)
  with p(3) length_dropWhile_le [of js_space "drop (length p) s"] show ?thesis by (cases s; cases p) auto
qed

function phraseIds :: "string \<Rightarrow> string list" where
  "phraseIds [] = []"
| "phraseIds (c # s) =
     (case phraseHead (c # s) of Some r \<Rightarrow> consumeReferenceList r @ phraseIds r | None \<Rightarrow> phraseIds s)"
  by pat_completeness auto
termination
  by (relation "measure length") (auto dest!: phraseHead_length)

text \<open>\<open>#{1,6}\s+\<close>: one to six hashes and white space.\<close>

definition headingMark :: "string \<Rightarrow> string option" where
  "headingMark s =
     (let n = length (takeWhile (\<lambda>c. c = CHR ''#'') s); r = drop n s
      in if 1 \<le> n \<and> n \<le> 6 \<and> dropWhile js_space r \<noteq> r then Some (dropWhile js_space r) else None)"

lemma headingMark_length: "headingMark s = Some m \<Longrightarrow> length m < length s"
proof -
  assume h: "headingMark s = Some m"
  define n where "n = length (takeWhile (\<lambda>c. c = CHR ''#'') s)"
  from h have m: "m = dropWhile js_space (drop n s)" "1 \<le> n" by (auto simp: headingMark_def n_def Let_def split: if_splits)
  have "n \<le> length s" unfolding n_def by (rule length_takeWhile_le)
  with m length_dropWhile_le [of js_space "drop n s"] show ?thesis by simp
qed

definition lineStart :: "char option \<Rightarrow> bool" where
  "lineStart prev \<longleftrightarrow> (case prev of None \<Rightarrow> True | Some c \<Rightarrow> c = CHR 0x0A \<or> c = CHR 0x0D)"

text \<open>\<open>DEP_SECTION_HEADING_RE\<close> at the head of a text: the text behind the heading's line.\<close>

definition sectionHeading :: "string \<Rightarrow> string option" where
  "sectionHeading s =
     (case headingMark s of
        None \<Rightarrow> None
      | Some r \<Rightarrow>
          (case find (\<lambda>w. js_startsWith (js_lower r) w) [''dependency'', ''dependencies''] of
             None \<Rightarrow> None
           | Some w \<Rightarrow> if word_at (head_of (drop (length w) r)) then None
               else Some (dropWhile (\<lambda>c. c \<noteq> CHR 0x0A) (drop (length w) r))))"

text \<open>\<open>rest.search(/\n#{1,6}\s+\S/)\<close>: the text before the next heading.\<close>

fun sectionBody :: "string \<Rightarrow> string" where
  "sectionBody [] = []"
| "sectionBody (c # s) =
     (if c = CHR 0x0A \<and> headingMark s \<noteq> None \<and> headingMark s \<noteq> Some [] then [] else c # sectionBody s)"

function sectionRefs :: "string \<Rightarrow> string list" where
  "sectionRefs [] = []"
| "sectionRefs (c # s) = (case issueRef (c # s) of Some (d, r) \<Rightarrow> d # sectionRefs r | None \<Rightarrow> sectionRefs s)"
  by pat_completeness auto
termination
  by (relation "measure length") (auto dest!: issueRef_length)

lemma sectionHeading_length: "sectionHeading s = Some r \<Longrightarrow> length r < length s"
proof -
  assume h: "sectionHeading s = Some r"
  then obtain m where m: "headingMark s = Some m" by (auto simp: sectionHeading_def split: option.splits)
  with h have "length r \<le> length m"
    using length_dropWhile_drop by (auto simp: sectionHeading_def split: option.splits if_splits simp del: find.simps)
  moreover have "length m < length s" using headingMark_length [OF m] .
  ultimately show ?thesis by simp
qed

function sectionIds :: "char option \<Rightarrow> string \<Rightarrow> string list" where
  "sectionIds prev [] = []"
| "sectionIds prev (c # s) =
     (case (if lineStart prev then sectionHeading (c # s) else None) of
        Some r \<Rightarrow> sectionRefs (sectionBody r) @ sectionIds (Some (last (take (length (c # s) - length r) (c # s)))) r
      | None \<Rightarrow> sectionIds (Some c) s)"
  by pat_completeness auto
termination
  by (relation "measure (length \<circ> snd)") (auto dest!: sectionHeading_length split: if_splits)

definition parseDeclaredDependencyIds :: "string \<Rightarrow> string option \<Rightarrow> string list" where
  "parseDeclaredDependencyIds txt' selfId =
     (if txt' = [] then []
      else uniq (filter (\<lambda>raw. isCanonicalIssueId raw \<and> selfId \<noteq> Some raw) (phraseIds txt' @ sectionIds None txt')))"


section \<open>Every id is mentioned\<close>

text \<open>An id is mentioned: a hash, its digits, and no further digit.\<close>

definition mentions :: "string \<Rightarrow> string \<Rightarrow> bool" where
  "mentions d s \<longleftrightarrow> (\<exists>x r. s = x @ CHR ''#'' # d @ r \<and> (r = [] \<or> \<not> is_digit (hd r)))"

lemma mentions_suffix: "mentions d r \<Longrightarrow> suffix r s \<Longrightarrow> mentions d s"
  unfolding mentions_def suffix_def by (metis append.assoc)

lemma issueRef_Some:
  assumes "issueRef s = Some (d, r)"
  shows "s = CHR ''#'' # d @ r" "d \<noteq> []" "list_all is_digit d" "r = [] \<or> \<not> is_digit (hd r)" "suffix r s" "mentions d s"
proof -
  obtain t where t: "s = CHR ''#'' # t" "d = takeWhile is_digit t" "r = dropWhile is_digit t" "d \<noteq> []"
    using assms by (auto simp: issueRef_def split: list.splits if_splits)
  show s: "s = CHR ''#'' # d @ r" "d \<noteq> []" using t by simp_all
  show d: "list_all is_digit d" unfolding t(2) list_all_iff by (blast dest: set_takeWhileD)
  show e: "r = [] \<or> \<not> is_digit (hd r)" unfolding t(3) using hd_dropWhile [of is_digit t] by blast
  show "suffix r s" unfolding s(1) by (simp add: suffix_def)
  show "mentions d s" using s e unfolding mentions_def by blast
qed

lemma suffix_dropWhile_drop: "suffix (dropWhile P (drop n s)) s"
  by (meson suffix_dropWhile suffix_drop suffix_order.trans)

lemma andThen_suffix: "andThen s = Some r \<Longrightarrow> suffix r s"
  by (auto simp: andThen_def Let_def suffix_dropWhile_drop split: if_splits)

lemma separator_suffix: "separator s = Some r \<Longrightarrow> suffix r s"
  using suffix_dropWhile_drop [of js_space 1 "dropWhile js_space s"] suffix_dropWhile [of js_space s]
  by (fastforce simp: separator_def Let_def dest: andThen_suffix intro: suffix_order.trans split: if_splits option.splits)

lemma furtherRefs_mentioned: "d \<in> set (furtherRefs s) \<Longrightarrow> mentions d s"
proof (induction s rule: furtherRefs.induct)
  case (1 s)
  from 1(2) obtain r e rest where r: "separator s = Some r" "issueRef r = Some (e, rest)" "d = e \<or> d \<in> set (furtherRefs rest)"
    unfolding furtherRefs.simps [of s] by (cases "separator s"; cases "issueRef (the (separator s))") auto
  with 1(1) [OF r(1,2) refl] issueRef_Some(5,6) [OF r(2)] have "mentions d r" by (auto intro: mentions_suffix [of d rest])
  with separator_suffix [OF r(1)] show ?case by (rule mentions_suffix [rotated])
qed

lemma consumeReferenceList_mentioned: "d \<in> set (consumeReferenceList s) \<Longrightarrow> mentions d s"
proof -
  assume "d \<in> set (consumeReferenceList s)"
  then obtain e rest where r: "issueRef (dropWhile js_space s) = Some (e, rest)" "d = e \<or> d \<in> set (furtherRefs rest)"
    by (cases "issueRef (dropWhile js_space s)") (auto simp: consumeReferenceList_def)
  then have "mentions d (dropWhile js_space s)"
    using issueRef_Some(5,6) [OF r(1)] furtherRefs_mentioned by (auto intro: mentions_suffix)
  then show ?thesis using suffix_dropWhile by (rule mentions_suffix)
qed

lemma phraseHead_suffix: "phraseHead s = Some r \<Longrightarrow> suffix r s"
  using suffix_order.trans [OF suffix_drop suffix_dropWhile_drop]
  by (auto simp: phraseHead_def Let_def suffix_dropWhile_drop split: option.splits if_splits)

lemma phraseIds_mentioned: "d \<in> set (phraseIds s) \<Longrightarrow> mentions d s"
proof (induction s rule: phraseIds.induct)
  case (2 c s)
  then show ?case
    by (auto dest: consumeReferenceList_mentioned phraseHead_suffix intro: mentions_suffix suffix_ConsI split: option.splits)
qed simp

lemma sectionRefs_mentioned: "d \<in> set (sectionRefs s) \<Longrightarrow> mentions d s"
proof (induction s rule: sectionRefs.induct)
  case (2 c s)
  show ?case
  proof (cases "issueRef (c # s)")
    case None
    with 2 show ?thesis by (auto intro: mentions_suffix [of d s] suffix_ConsI)
  next
    case (Some a)
    then obtain e r where e: "issueRef (c # s) = Some (e, r)" by (cases a) auto
    with 2(2) [OF e refl] 2(3) issueRef_Some(5,6) [OF e] show ?thesis by (auto intro: mentions_suffix [of d r])
  qed
qed simp

lemma sectionBody_cut: "\<exists>q. s = sectionBody s @ q \<and> (q = [] \<or> hd q = CHR 0x0A)"
  by (induction s) auto

lemma sectionBody_mentions:
  assumes "mentions d (sectionBody s)"
  shows "mentions d s"
proof -
  obtain q where q: "s = sectionBody s @ q" "q = [] \<or> hd q = CHR 0x0A" using sectionBody_cut by blast
  obtain x r where r: "sectionBody s = x @ CHR ''#'' # d @ r" "r = [] \<or> \<not> is_digit (hd r)"
    using assms unfolding mentions_def by blast
  have "s = x @ CHR ''#'' # d @ (r @ q)" using q(1) r(1) by simp
  moreover have "r @ q = [] \<or> \<not> is_digit (hd (r @ q))" using q(2) r(2) by (cases r) (auto simp: is_digit_def)
  ultimately show ?thesis unfolding mentions_def by blast
qed

lemma headingMark_suffix: "headingMark s = Some r \<Longrightarrow> suffix r s"
  by (auto simp: headingMark_def Let_def suffix_dropWhile_drop split: if_splits)

lemma sectionHeading_suffix: "sectionHeading s = Some r \<Longrightarrow> suffix r s"
  by (auto simp: sectionHeading_def dest!: headingMark_suffix split: option.splits if_splits simp del: find.simps)
    (meson suffix_dropWhile_drop suffix_order.trans)

lemma sectionIds_mentioned: "d \<in> set (sectionIds prev s) \<Longrightarrow> mentions d s"
proof (induction prev s rule: sectionIds.induct)
  case (2 prev c s)
  then show ?case
    by (auto dest!: sectionRefs_mentioned sectionBody_mentions sectionHeading_suffix intro: mentions_suffix suffix_ConsI
      split: option.splits if_splits)
qed simp

lemma declared_mentioned:
  assumes "d \<in> set (parseDeclaredDependencyIds s self)"
  shows "isCanonicalIssueId d" "self \<noteq> Some d" "mentions d s"
  using assms phraseIds_mentioned sectionIds_mentioned
  by (auto simp: parseDeclaredDependencyIds_def split: if_splits)


section \<open>Written lists are read back\<close>

text \<open>A list of references as it is written: hashes, commas and blanks.\<close>

definition listed :: "string list \<Rightarrow> string" where
  "listed ids = js_join '', '' (map (\<lambda>i. CHR ''#'' # i) ids)"

fun tail_of :: "string list \<Rightarrow> string" where
  "tail_of [] = []"
| "tail_of (i # is) = '', #'' @ i @ tail_of is"

lemma listed_Cons: "listed (i # is) = CHR ''#'' # i @ tail_of is"
  unfolding listed_def by (induction "is" arbitrary: i) auto

definition numeral_id :: "string \<Rightarrow> bool" where
  "numeral_id d \<longleftrightarrow> d \<noteq> [] \<and> list_all is_digit d"

lemma canonical_numeral: "isCanonicalIssueId d \<Longrightarrow> numeral_id d"
  by (auto simp: isCanonicalIssueId_def numeral_id_def split: list.splits)

lemma takeWhile_digits: "list_all is_digit d \<Longrightarrow> takeWhile is_digit (d @ tail_of is) = d \<and> dropWhile is_digit (d @ tail_of is) = tail_of is"
  by (cases "is") (auto simp: list_all_iff is_digit_def)

lemma issueRef_listed: "numeral_id d \<Longrightarrow> issueRef (CHR ''#'' # d @ tail_of is) = Some (d, tail_of is)"
  by (simp add: issueRef_def numeral_id_def takeWhile_digits)

lemma furtherRefs_listed: "list_all numeral_id is \<Longrightarrow> furtherRefs (tail_of is) = is"
proof (induction "is")
  case (Cons i "is")
  have "separator (tail_of (i # is)) = Some (CHR ''#'' # i @ tail_of is)"
    using Cons.prems issueRef_listed [of i "is"] by (simp add: separator_def andThen_def js_space_def js_lower_def js_lower_char_def)
  with Cons issueRef_listed [of i "is"] show ?case unfolding furtherRefs.simps [of "tail_of (i # is)"] by simp
qed (simp add: furtherRefs.simps separator_def)

lemma phraseHead_written:
  assumes "p \<in> set PHRASES"
  shows "phraseHead (p @ s) = (let r = dropWhile js_space s in Some (if take 1 r = '':'' then drop 1 r else r))"
proof -
  have "js_lower p = p" using assms by (auto simp: PHRASES_def js_lower_def js_lower_char_def)
  then have lower: "js_lower (p @ s) = p @ js_lower s" by (simp add: js_lower_def)
  have "find (\<lambda>q. js_startsWith (p @ r) q) PHRASES = Some p" for r
    using assms unfolding PHRASES_def by (simp only: set_simps insert_iff empty_iff) (elim disjE; simp)
  then show ?thesis by (simp only: phraseHead_def lower option.case append_eq_conv_conj drop_append) (simp add: Let_def)
qed

definition plain_char :: "char \<Rightarrow> bool" where
  "plain_char c \<longleftrightarrow> is_digit c \<or> c \<in> set ''#, ''"

lemma plain_listed: "list_all numeral_id is \<Longrightarrow> list_all plain_char (tail_of is)"
  by (induction "is") (auto simp: plain_char_def numeral_id_def list_all_iff)

lemma plain_lower: "plain_char c \<Longrightarrow> js_lower_char c = c \<and> c \<notin> set ''drbn'' \<and> c \<noteq> CHR 0x0A \<and> c \<noteq> CHR 0x0D"
  by (auto simp: plain_char_def is_digit_def js_lower_char_def Let_def)

lemma plain_no_phrase: "plain_char c \<Longrightarrow> phraseHead (c # s) = None"
  using plain_lower [of c] by (simp add: phraseHead_def PHRASES_def js_lower_def)

lemma plain_phraseIds: "list_all plain_char s \<Longrightarrow> phraseIds s = []"
  by (induction s) (auto simp: plain_no_phrase)

lemma inline_sectionIds: "list_all (\<lambda>c. c \<noteq> CHR 0x0A \<and> c \<noteq> CHR 0x0D) s \<Longrightarrow> \<not> lineStart prev \<Longrightarrow> sectionIds prev s = []"
  by (induction s arbitrary: prev) (auto simp: lineStart_def)

text \<open>C32: a written list of prerequisites is read back. For every dependency phrase, with or without a
  colon, a text of the phrase and a non-empty list of canonical issue ids, written with hashes and
  separated by commas, declares exactly these ids, without the issue's own, each once, in the order of the list.\<close>

theorem declared_list_roundtrip:
  assumes "phrase \<in> set PHRASES" "list_all isCanonicalIssueId ids" "ids \<noteq> []"
  shows "parseDeclaredDependencyIds (phrase @ (if colon then '': '' else '' '') @ listed ids) self = uniq (filter (\<lambda>i. self \<noteq> Some i) ids)"
proof -
  obtain i "is" where ids: "ids = i # is" using assms(3) by (cases ids) auto
  have num: "numeral_id i" "list_all numeral_id is" using assms(2) canonical_numeral by (auto simp: ids list_all_iff)
  define t where "t = listed ids"
  have t: "t = CHR ''#'' # i @ tail_of is" by (simp add: t_def ids listed_Cons)
  define s where "s = phrase @ (if colon then '': '' else '' '') @ t"
  have "dropWhile js_space t = t" by (simp add: t js_space_def)
  then have list: "consumeReferenceList t = ids" "consumeReferenceList (CHR '' '' # t) = ids"
    using issueRef_listed [OF num(1), of "is"] furtherRefs_listed [OF num(2)]
    by (simp_all add: consumeReferenceList_def ids js_space_def) (simp_all add: t)
  have plain: "list_all plain_char t"
    using plain_listed [OF num(2)] num(1) by (auto simp: t plain_char_def numeral_id_def list_all_iff)
  have head: "phraseHead s = Some (if colon then CHR '' '' # t else t)"
    using phraseHead_written [OF assms(1), of "(if colon then '': '' else '' '') @ t"] \<open>dropWhile js_space t = t\<close>
    by (simp add: s_def js_space_def) (simp add: t)
  obtain c s' where c: "s = c # s'" "c \<in> set ''drbn''" using assms(1) by (auto simp: s_def PHRASES_def)
  have "phraseIds s = consumeReferenceList (if colon then CHR '' '' # t else t) @ phraseIds (if colon then CHR '' '' # t else t)"
    using head unfolding c(1) by simp
  also have "\<dots> = ids" using list plain_phraseIds [of t] plain_phraseIds [of "CHR '' '' # t"] plain by (auto simp: plain_char_def)
  finally have phrases: "phraseIds s = ids" .
  have "list_all (\<lambda>c. c \<noteq> CHR 0x0A \<and> c \<noteq> CHR 0x0D) t"
    using plain plain_lower unfolding list_all_iff by blast
  then have "list_all (\<lambda>c. c \<noteq> CHR 0x0A \<and> c \<noteq> CHR 0x0D) s"
    using assms(1) unfolding s_def PHRASES_def by (simp only: set_simps insert_iff empty_iff) (elim disjE; simp)
  moreover have "sectionHeading s = None" using c by (auto simp: sectionHeading_def headingMark_def)
  ultimately have sections: "sectionIds None s = []"
    using c inline_sectionIds [of s' "Some c"] by (auto simp: lineStart_def)
  have "filter (\<lambda>raw. isCanonicalIssueId raw \<and> self \<noteq> Some raw) ids = filter (\<lambda>i. self \<noteq> Some i) ids"
    using assms(2) by (auto simp: list_all_iff intro!: filter_cong)
  then show ?thesis
    using phrases sections c(1) by (simp add: parseDeclaredDependencyIds_def flip: t_def s_def)
qed

theorem declared_list_roundtrip_witness:
  "parseDeclaredDependencyIds ''blocked by: #12, #7, #12'' (Some ''7'') = [''12'']"
proof -
  have p: "''blocked by'' \<in> set PHRASES" "list_all isCanonicalIssueId [''12'', ''7'', ''12'']"
    by (simp_all add: PHRASES_def isCanonicalIssueId_def is_digit_def)
  have "''blocked by'' @ (if True then '': '' else '' '') @ listed [''12'', ''7'', ''12''] = ''blocked by: #12, #7, #12''"
    by (simp add: listed_def)
  with declared_list_roundtrip [OF p, of True "Some ''7''"] show ?thesis by (simp add: uniq_def set_add_def)
qed

end
