(* ===== verification/Work_List.thy ===== *)
theory Work_List
  imports Dependency_Grammar Contract_Compile "HOL-Library.AList"
begin

text \<open>
  The population of a work list with declared dependencies, \<open>core/scripts/loop/work-list-deps.ts\<close>: the three
  discovery sources, the hard-wait admission, the refusal of a run whose sources did not all answer, and the
  paginated read of GitHub's own blocking relation. The discovery seam is a parameter; a read that may be
  repeated is given the position of its issue in the list, and any read may throw. \<open>Map\<close> and \<open>Set\<close> iterate
  in insertion order, which \<open>AList.update\<close> and \<open>set_add\<close> keep.
\<close>

section \<open>Sources and observations\<close>

primrec discoveryStatusName :: "DiscoverySourceStatus \<Rightarrow> string" where
  "discoveryStatusName ObservedEmpty = ''observed-empty''"
| "discoveryStatusName ObservedWithEdges = ''observed-with-edges''"
| "discoveryStatusName Unavailable = ''unavailable''"
| "discoveryStatusName Incomplete = ''incomplete''"

primrec edgeSourceName :: "DependencyEdgeSource \<Rightarrow> string" where
  "edgeSourceName Lexical = ''lexical''"
| "edgeSourceName NativeBlockedBy = ''native-blocked-by''"
| "edgeSourceName RoadmapDeclared = ''roadmap-declared''"

record SourceObservation =
  so_source :: DependencyEdgeSource
  so_scope :: string
  so_status :: DiscoverySourceStatus
  so_observation_id :: string
  so_reason :: "string option"

definition observationIdentity :: "DependencyEdgeSource \<Rightarrow> string \<Rightarrow> DiscoverySourceStatus \<Rightarrow> string" where
  "observationIdentity source scope status =
     edgeSourceName source @ '':'' @ scope @ '':'' @ discoveryStatusName status"

definition observation :: "DependencyEdgeSource \<Rightarrow> string \<Rightarrow> DiscoverySourceStatus \<Rightarrow> string option \<Rightarrow> SourceObservation" where
  "observation source scope status reason =
     \<lparr>so_source = source, so_scope = scope, so_status = status,
      so_observation_id = observationIdentity source scope status, so_reason = (if truthy reason then reason else None)\<rparr>"

definition isIncompleteStatus :: "DiscoverySourceStatus \<Rightarrow> bool" where
  "isIncompleteStatus status \<longleftrightarrow> status = Unavailable \<or> status = Incomplete"

definition edgesStatus :: "bool \<Rightarrow> DiscoverySourceStatus" where
  "edgesStatus some = (if some then ObservedWithEdges else ObservedEmpty)"

section \<open>Hard-wait admission\<close>

record RawDeclaredEdge =
  rd_depender :: string
  rd_prerequisite :: string

primrec ignoredReasonName :: "IgnoredDepReason \<Rightarrow> string" where
  "ignoredReasonName NotOnSelector = ''not_on_selector''"
| "ignoredReasonName Closed = ''closed''"
| "ignoredReasonName NotOpen = ''not_open''"

record IgnoredDep =
  gd_depender :: string
  gd_target :: string
  gd_reason :: IgnoredDepReason

datatype PrerequisiteOpenClass = OpenClass | ClosedClass | NotOpenClass

datatype PrerequisiteObservation = SeenOpen | SeenClosed | SeenMerged

definition ignoreReason :: "string list \<Rightarrow> (string \<times> PrerequisiteOpenClass) list \<Rightarrow> string \<Rightarrow> IgnoredDepReason option" where
  "ignoreReason selectorIds openState target =
     (let state = orElse (map_of openState target) NotOpenClass
      in if state = ClosedClass then Some Closed
         else if target \<notin> set selectorIds then Some NotOnSelector
         else if state \<noteq> OpenClass then Some NotOpen
         else None)"

definition ignoredKey :: "IgnoredDep \<Rightarrow> string" where
  "ignoredKey i = gd_depender i @ '':'' @ gd_target i @ '':'' @ ignoredReasonName (gd_reason i)"

definition edgeKey :: "RawDeclaredEdge \<Rightarrow> string" where
  "edgeKey e = rd_depender e @ '':'' @ rd_prerequisite e"

text \<open>The sets \<open>seenIgnored\<close> and \<open>seenAdmitted\<close> hold the keys of the two lists.\<close>

definition admitStep ::
  "string list \<Rightarrow> (string \<times> PrerequisiteOpenClass) list \<Rightarrow> RawDeclaredEdge
     \<Rightarrow> RawDeclaredEdge list \<times> IgnoredDep list \<Rightarrow> RawDeclaredEdge list \<times> IgnoredDep list" where
  "admitStep selectorIds openState edge acc = (case acc of (admitted, ignored) \<Rightarrow>
     if \<not> isCanonicalIssueId (rd_depender edge) \<or> \<not> isCanonicalIssueId (rd_prerequisite edge)
        \<or> rd_depender edge = rd_prerequisite edge then acc
     else (case ignoreReason selectorIds openState (rd_prerequisite edge) of
        Some reason \<Rightarrow>
          (let i = \<lparr>gd_depender = rd_depender edge, gd_target = rd_prerequisite edge, gd_reason = reason\<rparr>
           in if ignoredKey i \<in> set (map ignoredKey ignored) then acc else (admitted, ignored @ [i]))
      | None \<Rightarrow> if edgeKey edge \<in> set (map edgeKey admitted) then acc else (admitted @ [edge], ignored)))"

definition compareIgnored :: "(string \<Rightarrow> string \<Rightarrow> int) \<Rightarrow> IgnoredDep \<Rightarrow> IgnoredDep \<Rightarrow> int" where
  "compareIgnored localeCompare a b =
     (if gd_depender a \<noteq> gd_depender b then localeCompare (gd_depender a) (gd_depender b)
      else if gd_target a \<noteq> gd_target b then localeCompare (gd_target a) (gd_target b)
      else localeCompare (ignoredReasonName (gd_reason a)) (ignoredReasonName (gd_reason b)))"

definition admitHardWaits ::
  "(string \<Rightarrow> string \<Rightarrow> int) \<Rightarrow> RawDeclaredEdge list \<Rightarrow> string list \<Rightarrow> (string \<times> PrerequisiteOpenClass) list
     \<Rightarrow> RawDeclaredEdge list \<times> IgnoredDep list" where
  "admitHardWaits localeCompare raw selectorIds openState =
     (case fold (admitStep selectorIds openState) raw ([], []) of
        (admitted, ignored) \<Rightarrow> (admitted, js_sort (compareIgnored localeCompare) ignored))"

section \<open>Discovery\<close>

text \<open>The first reference of a line names the depender, the phrases behind it the prerequisites.\<close>

fun firstRef :: "string \<Rightarrow> (string \<times> string) option" where
  "firstRef [] = None"
| "firstRef (c # s) = (case issueRef (c # s) of Some r \<Rightarrow> Some r | None \<Rightarrow> firstRef s)"

definition lineEdges :: "string \<Rightarrow> RawDeclaredEdge list" where
  "lineEdges rawLine =
     (let line = js_trim rawLine
      in if line = [] \<or> js_startsWith line ''#'' then []
         else (case firstRef line of
            None \<Rightarrow> []
          | Some (depender, rest) \<Rightarrow>
              if \<not> isCanonicalIssueId depender then []
              else map (\<lambda>p. \<lparr>rd_depender = depender, rd_prerequisite = p\<rparr>)
                     (parseDeclaredDependencyIds rest (Some depender))))"

definition extractRoadmapDeclaredEdges :: "string \<Rightarrow> RawDeclaredEdge list" where
  "extractRoadmapDeclaredEdges roadmapText =
     fold (\<lambda>e out. if edgeKey e \<in> set (map edgeKey out) then out else out @ [e])
       (concat (map lineEdges (js_split (CHR 0x0A) roadmapText))) []"

record WorkListDependencyDiscoverDeps =
  wd_getIssueTitleBody :: "nat \<Rightarrow> int \<Rightarrow> (string \<times> string) option result"
  wd_getBlockedByIssueNumbers :: "nat \<Rightarrow> int \<Rightarrow> int list option result"
  wd_getRoadmapDeclaredEdges :: "RawDeclaredEdge list option result option"
  wd_getIssueOpenState :: "(int \<Rightarrow> PrerequisiteObservation option result) option"

type_synonym provenance = "(string \<times> (string \<times> DependencyEdgeSource list) list) list"

definition addEdge :: "string \<Rightarrow> string \<Rightarrow> DependencyEdgeSource \<Rightarrow> provenance \<Rightarrow> provenance" where
  "addEdge depender prerequisite source prov =
     (if depender = prerequisite \<or> \<not> isCanonicalIssueId prerequisite then prov
      else (let byPrereq = orElse (map_of prov depender) [];
                sources = orElse (map_of byPrereq prerequisite) []
            in AList.update depender (AList.update prerequisite (set_add source sources) byPrereq) prov))"

type_synonym discovery = "SourceObservation list \<times> provenance"

definition usableRoadmapEdge :: "RawDeclaredEdge \<Rightarrow> bool" where
  "usableRoadmapEdge e \<longleftrightarrow> isCanonicalIssueId (rd_depender e) \<and> isCanonicalIssueId (rd_prerequisite e)
     \<and> rd_depender e \<noteq> rd_prerequisite e"

definition roadmapSource :: "WorkListDependencyDiscoverDeps \<Rightarrow> discovery" where
  "roadmapSource deps =
     (case wd_getRoadmapDeclaredEdges deps of
        None \<Rightarrow> ([], [])
      | Some (Inl e) \<Rightarrow> ([observation RoadmapDeclared ''*'' Unavailable (Some (message e))], [])
      | Some (Inr None) \<Rightarrow> ([observation RoadmapDeclared ''*'' Unavailable (Some ''roadmap edges returned null'')], [])
      | Some (Inr (Some es)) \<Rightarrow>
          (let usable = filter usableRoadmapEdge es
           in ([observation RoadmapDeclared ''*'' (edgesStatus (usable \<noteq> [])) None],
               fold (\<lambda>e. addEdge (rd_depender e) (rd_prerequisite e) RoadmapDeclared) usable [])))"

definition issueNumberOf :: "string \<Rightarrow> int" where
  "issueNumberOf i = int (digits_val i 0)"

definition lexicalSource :: "WorkListDependencyDiscoverDeps \<Rightarrow> nat \<Rightarrow> string \<Rightarrow> discovery \<Rightarrow> discovery" where
  "lexicalSource deps k i d = (case d of (obs, prov) \<Rightarrow>
     (case wd_getIssueTitleBody deps k (issueNumberOf i) of
        Inl e \<Rightarrow> (obs @ [observation Lexical i Unavailable (Some (message e))], prov)
      | Inr None \<Rightarrow> (obs @ [observation Lexical i Unavailable (Some ''issue title/body unobservable (null)'')], prov)
      | Inr (Some (title, body)) \<Rightarrow>
          (let ids = parseDeclaredDependencyIds (title @ [CHR 0x0A] @ body) (Some i)
           in (obs @ [observation Lexical i (edgesStatus (ids \<noteq> [])) None],
               fold (\<lambda>p. addEdge i p Lexical) ids prov))))"

definition incompleteMessage :: "string \<Rightarrow> bool" where
  "incompleteMessage msg \<longleftrightarrow> list_ex (js_includes (js_lower msg)) [''truncat'', ''pagination'', ''safety bound'', ''incomplete'']"

definition nativeSource :: "WorkListDependencyDiscoverDeps \<Rightarrow> nat \<Rightarrow> string \<Rightarrow> discovery \<Rightarrow> discovery" where
  "nativeSource deps k i d = (case d of (obs, prov) \<Rightarrow>
     (case wd_getBlockedByIssueNumbers deps k (issueNumberOf i) of
        Inl e \<Rightarrow> (obs @ [observation NativeBlockedBy i (if incompleteMessage (message e) then Incomplete else Unavailable)
            (Some (message e))], prov)
      | Inr None \<Rightarrow> (obs @ [observation NativeBlockedBy i Unavailable (Some ''blockedBy unobservable (null)'')], prov)
      | Inr (Some ns) \<Rightarrow>
          (let contributed = filter (\<lambda>p. isCanonicalIssueId p \<and> p \<noteq> i) (map show_int ns)
           in (obs @ [observation NativeBlockedBy i (edgesStatus (contributed \<noteq> [])) None],
               fold (\<lambda>p. addEdge i p NativeBlockedBy) contributed prov))))"

definition issueSources :: "WorkListDependencyDiscoverDeps \<Rightarrow> nat \<times> string \<Rightarrow> discovery \<Rightarrow> discovery" where
  "issueSources deps ki d =
     (if \<not> isCanonicalIssueId (snd ki) then d
      else nativeSource deps (fst ki) (snd ki) (lexicalSource deps (fst ki) (snd ki) d))"

definition discoverSources :: "string list \<Rightarrow> WorkListDependencyDiscoverDeps \<Rightarrow> discovery" where
  "discoverSources issueIds deps = fold (issueSources deps) (List.enumerate 0 issueIds) (roadmapSource deps)"

definition rawEdges :: "provenance \<Rightarrow> RawDeclaredEdge list" where
  "rawEdges prov =
     concat (map (\<lambda>(d, byPrereq). map (\<lambda>(p, _). \<lparr>rd_depender = d, rd_prerequisite = p\<rparr>) byPrereq) prov)"

definition openClassOf :: "WorkListDependencyDiscoverDeps \<Rightarrow> string \<Rightarrow> PrerequisiteOpenClass" where
  "openClassOf deps target =
     (case wd_getIssueOpenState deps of
        None \<Rightarrow> OpenClass
      | Some observe \<Rightarrow>
          (case observe (issueNumberOf target) of
             Inl e \<Rightarrow> NotOpenClass
           | Inr None \<Rightarrow> NotOpenClass
           | Inr (Some SeenOpen) \<Rightarrow> OpenClass
           | Inr (Some _) \<Rightarrow> ClosedClass))"

record DeclaredEdgeProvenance =
  dp_depender :: string
  dp_prerequisite :: string
  dp_sources :: "DependencyEdgeSource list"

record DeclaredDependencyDiscoveryResult =
  dr_items :: "RawContractItem list"
  dr_observations :: "SourceObservation list"
  dr_edge_provenance :: "DeclaredEdgeProvenance list"
  dr_ignored_deps :: "IgnoredDep list"
  dr_has_incomplete :: bool

definition provenanceRecords :: "provenance \<Rightarrow> DeclaredEdgeProvenance list" where
  "provenanceRecords prov =
     concat (map (\<lambda>(d, byPrereq). map (\<lambda>(p, ss). \<lparr>dp_depender = d, dp_prerequisite = p, dp_sources = ss\<rparr>) byPrereq) prov)"

definition compareProvenance :: "(string \<Rightarrow> string \<Rightarrow> int) \<Rightarrow> DeclaredEdgeProvenance \<Rightarrow> DeclaredEdgeProvenance \<Rightarrow> int" where
  "compareProvenance localeCompare a b =
     (if dp_depender a \<noteq> dp_depender b then localeCompare (dp_depender a) (dp_depender b)
      else localeCompare (dp_prerequisite a) (dp_prerequisite b))"

definition discoverDeclaredDependencies ::
  "(string \<Rightarrow> string \<Rightarrow> int) \<Rightarrow> string list \<Rightarrow> WorkListDependencyDiscoverDeps \<Rightarrow> DeclaredDependencyDiscoveryResult" where
  "discoverDeclaredDependencies localeCompare issueIds deps =
     (case discoverSources issueIds deps of (observations, prov) \<Rightarrow>
       (let raw = rawEdges prov;
            openState = map (\<lambda>t. (t, openClassOf deps t)) (uniq (map rd_prerequisite raw))
        in case admitHardWaits localeCompare raw (uniq (filter isCanonicalIssueId issueIds)) openState of
          (admitted, ignored) \<Rightarrow>
            \<lparr>dr_items = map (\<lambda>i. \<lparr>ri_id = i,
                 ri_depends_on = Some (map rd_prerequisite (filter (\<lambda>e. rd_depender e = i) admitted))\<rparr>) issueIds,
             dr_observations = observations,
             dr_edge_provenance = js_sort (compareProvenance localeCompare)
               (filter (\<lambda>r. edgeKey \<lparr>rd_depender = dp_depender r, rd_prerequisite = dp_prerequisite r\<rparr> \<in> set (map edgeKey admitted))
                 (provenanceRecords prov)),
             dr_ignored_deps = ignored,
             dr_has_incomplete = list_ex (\<lambda>o'. isIncompleteStatus (so_status o')) observations\<rparr>))"

definition incompleteDetail :: "SourceObservation \<Rightarrow> string" where
  "incompleteDetail o' = edgeSourceName (so_source o') @ '' scope='' @ so_scope o' @ '' status='' @ discoveryStatusName (so_status o')
     @ (if truthy (so_reason o') then '' ('' @ the (so_reason o') @ '')'' else [])"

definition assertDiscoveryCompleteForAdmission ::
  "string list \<Rightarrow> DeclaredDependencyDiscoveryResult \<Rightarrow> bool \<Rightarrow> unit result" where
  "assertDiscoveryCompleteForAdmission issueIds result forceRefuse =
     (if \<not> dr_has_incomplete result then Inr ()
      else if \<not> length issueIds \<ge> 2 \<and> \<not> forceRefuse then Inr ()
      else Inl (LoopError Validation
        (''declared-dependency discovery incomplete for fresh multi-item or factory-owned admission -- ''
         @ ''refusing contract/ledger init. Incomplete sources: ''
         @ js_join ''; '' (map incompleteDetail (filter (\<lambda>o'. isIncompleteStatus (so_status o')) (dr_observations result))))))"


section \<open>What the sources declare\<close>

definition prov_rel :: "provenance \<Rightarrow> string \<Rightarrow> string \<Rightarrow> DependencyEdgeSource \<Rightarrow> bool" where
  "prov_rel prov d p src \<longleftrightarrow> (\<exists>b ss. map_of prov d = Some b \<and> map_of b p = Some ss \<and> src \<in> set ss)"

definition prov_wf :: "provenance \<Rightarrow> bool" where
  "prov_wf prov \<longleftrightarrow> distinct (map fst prov)
     \<and> (\<forall>d b. map_of prov d = Some b \<longrightarrow> distinct (map fst b) \<and> (\<forall>p ss. map_of b p = Some ss \<longrightarrow> ss \<noteq> []))"

lemma set_add_nonempty: "set_add x xs \<noteq> []"
  by (auto simp: set_add_def)

lemma prov_wf_addEdge:
  assumes "prov_wf prov"
  shows "prov_wf (addEdge d p src prov)"
proof -
  have "distinct (map fst (orElse (map_of prov d) []))" "\<forall>q ss. map_of (orElse (map_of prov d) []) q = Some ss \<longrightarrow> ss \<noteq> []"
    using assms by (cases "map_of prov d"; simp add: prov_wf_def del: map_of_eq_Some_iff)+
  then show ?thesis
    using assms unfolding prov_wf_def addEdge_def Let_def
    by (auto simp: distinct_update update_conv' set_add_nonempty simp del: map_of_eq_Some_iff split: if_splits)
qed

lemma prov_rel_addEdge:
  "prov_rel (addEdge d p src prov) d' p' src' \<longleftrightarrow> prov_rel prov d' p' src' \<or> (d' = d \<and> p' = p \<and> src' = src \<and> d \<noteq> p \<and> isCanonicalIssueId p)"
proof (cases "d = p \<or> \<not> isCanonicalIssueId p")
  case False
  show ?thesis
  proof (cases "d' = d \<and> p' = p")
    case True
    then show ?thesis using False
      by (cases "map_of prov d"; cases "map_of (the (map_of prov d)) p") (auto simp: prov_rel_def addEdge_def update_conv')
  next
    case other: False
    then show ?thesis using False
      by (cases "map_of prov d") (auto simp: prov_rel_def addEdge_def update_conv' Let_def)
  qed
qed (auto simp: addEdge_def)

lemma prov_fold:
  "prov_wf prov \<Longrightarrow> prov_wf (fold (\<lambda>e. addEdge (f e) (g e) src) es prov)
     \<and> (prov_rel (fold (\<lambda>e. addEdge (f e) (g e) src) es prov) d p src' \<longleftrightarrow> prov_rel prov d p src'
        \<or> (src' = src \<and> d \<noteq> p \<and> isCanonicalIssueId p \<and> (\<exists>e \<in> set es. f e = d \<and> g e = p)))"
  by (induction es arbitrary: prov) (auto simp: prov_wf_addEdge prov_rel_addEdge)

abbreviation edgeOf :: "string \<Rightarrow> string \<Rightarrow> RawDeclaredEdge" where
  "edgeOf d p \<equiv> \<lparr>rd_depender = d, rd_prerequisite = p\<rparr>"

lemma edge_ex: "\<exists>d p. e = edgeOf d p"
  by (cases e) simp

text \<open>The declarations of one issue, and of a whole list.\<close>

definition issue_declares :: "WorkListDependencyDiscoverDeps \<Rightarrow> nat \<Rightarrow> string \<Rightarrow> string \<Rightarrow> DependencyEdgeSource \<Rightarrow> bool" where
  "issue_declares deps k d p src \<longleftrightarrow> isCanonicalIssueId d \<and> isCanonicalIssueId p \<and> d \<noteq> p
     \<and> (src = Lexical \<and> (\<exists>t b. wd_getIssueTitleBody deps k (issueNumberOf d) = Inr (Some (t, b))
            \<and> p \<in> set (parseDeclaredDependencyIds (t @ [CHR 0x0A] @ b) (Some d)))
        \<or> src = NativeBlockedBy \<and> (\<exists>ns. wd_getBlockedByIssueNumbers deps k (issueNumberOf d) = Inr (Some ns) \<and> p \<in> show_int ` set ns))"

definition declares :: "string list \<Rightarrow> WorkListDependencyDiscoverDeps \<Rightarrow> string \<Rightarrow> string \<Rightarrow> DependencyEdgeSource \<Rightarrow> bool" where
  "declares ids deps d p src \<longleftrightarrow> (\<exists>k < length ids. ids ! k = d \<and> issue_declares deps k d p src)
     \<or> (src = RoadmapDeclared \<and> (\<exists>es. wd_getRoadmapDeclaredEdges deps = Some (Inr (Some es))
          \<and> (\<exists>e \<in> set es. rd_depender e = d \<and> rd_prerequisite e = p) \<and> isCanonicalIssueId d \<and> isCanonicalIssueId p \<and> d \<noteq> p))"

lemma lexical_prov:
  assumes "prov_wf (snd D)" "isCanonicalIssueId i"
  shows "prov_wf (snd (lexicalSource deps k i D))
    \<and> (prov_rel (snd (lexicalSource deps k i D)) d p src \<longleftrightarrow> prov_rel (snd D) d p src
       \<or> (d = i \<and> src = Lexical \<and> issue_declares deps k d p src))"
proof (cases "wd_getIssueTitleBody deps k (issueNumberOf i)")
  case (Inr r)
  then show ?thesis
  proof (cases r)
    case (Some tb)
    obtain t b where tb: "tb = (t, b)" by (cases tb)
    have "snd (lexicalSource deps k i D) = fold (\<lambda>p. addEdge i p Lexical) (parseDeclaredDependencyIds (t @ [CHR 0x0A] @ b) (Some i)) (snd D)"
      using Inr Some tb by (simp add: lexicalSource_def Let_def split: prod.splits)
    moreover have "issue_declares deps k i p Lexical \<longleftrightarrow>
        i \<noteq> p \<and> isCanonicalIssueId p \<and> p \<in> set (parseDeclaredDependencyIds (t @ [CHR 0x0A] @ b) (Some i))"
      using Inr Some tb assms(2) by (auto simp: issue_declares_def)
    ultimately show ?thesis
      using prov_fold [OF assms(1), of "\<lambda>_. i" "\<lambda>p. p" Lexical _ d p src] by auto
  qed (use assms Inr in \<open>auto simp: lexicalSource_def issue_declares_def split: prod.splits\<close>)
qed (use assms in \<open>auto simp: lexicalSource_def issue_declares_def split: prod.splits\<close>)

lemma native_prov:
  assumes "prov_wf (snd D)" "isCanonicalIssueId i"
  shows "prov_wf (snd (nativeSource deps k i D))
    \<and> (prov_rel (snd (nativeSource deps k i D)) d p src \<longleftrightarrow> prov_rel (snd D) d p src
       \<or> (d = i \<and> src = NativeBlockedBy \<and> issue_declares deps k d p src))"
proof (cases "wd_getBlockedByIssueNumbers deps k (issueNumberOf i)")
  case (Inr r)
  then show ?thesis
  proof (cases r)
    case (Some ns)
    have "snd (nativeSource deps k i D) = fold (\<lambda>p. addEdge i p NativeBlockedBy) (filter (\<lambda>p. isCanonicalIssueId p \<and> p \<noteq> i) (map show_int ns)) (snd D)"
      using Inr Some by (simp add: nativeSource_def Let_def split: prod.splits)
    moreover have "issue_declares deps k i p NativeBlockedBy \<longleftrightarrow> i \<noteq> p \<and> isCanonicalIssueId p \<and> p \<in> show_int ` set ns"
      using Inr Some assms(2) by (auto simp: issue_declares_def)
    ultimately show ?thesis
      using prov_fold [OF assms(1), of "\<lambda>_. i" "\<lambda>p. p" NativeBlockedBy _ d p src] by auto
  qed (use assms Inr in \<open>auto simp: nativeSource_def issue_declares_def split: prod.splits\<close>)
qed (use assms in \<open>auto simp: nativeSource_def issue_declares_def split: prod.splits\<close>)

lemma issue_prov:
  assumes "prov_wf (snd D)"
  shows "prov_wf (snd (issueSources deps ki D))
    \<and> (prov_rel (snd (issueSources deps ki D)) d p src \<longleftrightarrow> prov_rel (snd D) d p src \<or> (d = snd ki \<and> issue_declares deps (fst ki) d p src))"
proof (cases "isCanonicalIssueId (snd ki)")
  case True
  have l: "prov_wf (snd (lexicalSource deps (fst ki) (snd ki) D))" using lexical_prov [OF assms True] by blast
  show ?thesis
    using True native_prov [OF l True, of deps "fst ki" d p src] lexical_prov [OF assms True, of deps "fst ki" d p src]
    by (auto simp: issueSources_def issue_declares_def)
qed (use assms in \<open>auto simp: issueSources_def issue_declares_def\<close>)

lemma issues_prov:
  "prov_wf (snd D) \<Longrightarrow> prov_wf (snd (fold (issueSources deps) kis D))
    \<and> (prov_rel (snd (fold (issueSources deps) kis D)) d p src \<longleftrightarrow> prov_rel (snd D) d p src
       \<or> (\<exists>ki \<in> set kis. d = snd ki \<and> issue_declares deps (fst ki) d p src))"
proof (induction kis arbitrary: D)
  case (Cons ki kis)
  then show ?case using issue_prov [OF Cons.prems, of deps ki] by auto
qed simp

lemma roadmap_prov:
  "prov_wf (snd (roadmapSource deps)) \<and> (prov_rel (snd (roadmapSource deps)) d p src \<longleftrightarrow> declares [] deps d p src)"
proof -
  have e: "prov_wf []" "\<not> prov_rel [] d p src" by (simp_all add: prov_wf_def prov_rel_def)
  show ?thesis
    using e prov_fold [OF e(1), of rd_depender rd_prerequisite RoadmapDeclared _ d p src]
    by (auto simp: roadmapSource_def declares_def usableRoadmapEdge_def Let_def split: option.splits sum.splits)
qed

lemma sources_prov:
  "prov_wf (snd (discoverSources ids deps)) \<and> (prov_rel (snd (discoverSources ids deps)) d p src \<longleftrightarrow> declares ids deps d p src)"
  using issues_prov [OF conjunct1 [OF roadmap_prov [of deps d p src]], of deps "List.enumerate 0 ids" d p src]
    roadmap_prov [of deps d p src]
  by (auto simp: discoverSources_def declares_def in_set_enumerate_eq Bex_def)


section \<open>Admission\<close>

lemma canonical_no_colon: "isCanonicalIssueId d \<Longrightarrow> CHR '':'' \<notin> set d"
  by (auto simp: isCanonicalIssueId_def list_all_iff is_digit_def split: list.splits)

lemma edgeKey_inject:
  "isCanonicalIssueId (rd_depender e) \<Longrightarrow> isCanonicalIssueId (rd_depender e') \<Longrightarrow> edgeKey e = edgeKey e' \<longleftrightarrow> e = e'"
  by (auto simp: edgeKey_def sep_inject canonical_no_colon)

lemma ignoredReasonName_inject: "ignoredReasonName a = ignoredReasonName b \<longleftrightarrow> a = b"
  by (cases a; cases b) simp_all

definition ignored_ok :: "IgnoredDep \<Rightarrow> bool" where
  "ignored_ok i \<longleftrightarrow> isCanonicalIssueId (gd_depender i) \<and> isCanonicalIssueId (gd_target i)"

lemma ignoredKey_inject: "ignored_ok i \<Longrightarrow> ignored_ok j \<Longrightarrow> ignoredKey i = ignoredKey j \<longleftrightarrow> i = j"
  by (auto simp: ignoredKey_def ignored_ok_def sep_inject canonical_no_colon ignoredReasonName_inject)

lemma admit_fold:
  assumes "\<forall>e \<in> set A. usableRoadmapEdge e" "\<forall>i \<in> set I. ignored_ok i" "fold (admitStep sel st) raw (A, I) = (A', I')"
  shows "set A' = set A \<union> {e \<in> set raw. usableRoadmapEdge e \<and> ignoreReason sel st (rd_prerequisite e) = None}
    \<and> set I' = set I \<union> {i. usableRoadmapEdge (edgeOf (gd_depender i) (gd_target i)) \<and> edgeOf (gd_depender i) (gd_target i) \<in> set raw
      \<and> ignoreReason sel st (gd_target i) = Some (gd_reason i)}"
  using assms
proof (induction raw arbitrary: A I)
  case (Cons e raw)
  obtain A1 I1 where step: "admitStep sel st e (A, I) = (A1, I1)" by fastforce
  have keyA: "edgeKey e \<in> set (map edgeKey A) \<longleftrightarrow> e \<in> set A" if "usableRoadmapEdge e"
    using Cons.prems(1) that edgeKey_inject by (auto simp: usableRoadmapEdge_def)
  have keyI: "ignoredKey i \<in> set (map ignoredKey I) \<longleftrightarrow> i \<in> set I" if "ignored_ok i" for i
    using Cons.prems(2) that ignoredKey_inject by auto
  let ?i = "\<lambda>r. \<lparr>gd_depender = rd_depender e, gd_target = rd_prerequisite e, gd_reason = r\<rparr>"
  have sets: "set A1 = set A \<union> {e' \<in> {e}. usableRoadmapEdge e' \<and> ignoreReason sel st (rd_prerequisite e') = None}"
    "set I1 = set I \<union> {i. usableRoadmapEdge e \<and> (\<exists>r. ignoreReason sel st (rd_prerequisite e) = Some r \<and> i = ?i r)}"
    using step keyA keyI by (auto simp: admitStep_def usableRoadmapEdge_def ignored_ok_def Let_def split: if_splits option.splits)
  have ok: "\<forall>e \<in> set A1. usableRoadmapEdge e" "\<forall>i \<in> set I1. ignored_ok i"
    using Cons.prems(1,2) unfolding sets by (auto simp: ignored_ok_def usableRoadmapEdge_def)
  have rest: "fold (admitStep sel st) raw (A1, I1) = (A', I')" using Cons.prems(3) step by simp
  have "(\<exists>r. ignoreReason sel st (rd_prerequisite e) = Some r \<and> i = ?i r)
      \<longleftrightarrow> edgeOf (gd_depender i) (gd_target i) = e \<and> ignoreReason sel st (gd_target i) = Some (gd_reason i)" for i
    by (cases i; cases e) auto
  then show ?case using Cons.IH [OF ok rest] unfolding sets by auto
qed auto

lemma rawEdges_iff:
  assumes "prov_wf prov"
  shows "e \<in> set (rawEdges prov) \<longleftrightarrow> (\<exists>src. prov_rel prov (rd_depender e) (rd_prerequisite e) src)"
proof -
  have "e \<in> set (rawEdges prov) \<longleftrightarrow> (\<exists>b ss. (rd_depender e, b) \<in> set prov \<and> (rd_prerequisite e, ss) \<in> set b)"
    by (force simp: rawEdges_def image_iff)
  also have "\<dots> \<longleftrightarrow> (\<exists>b ss. map_of prov (rd_depender e) = Some b \<and> map_of b (rd_prerequisite e) = Some ss)"
    using assms unfolding prov_wf_def by (metis map_of_eq_Some_iff)
  also have "\<dots> \<longleftrightarrow> (\<exists>src. prov_rel prov (rd_depender e) (rd_prerequisite e) src)"
    using assms unfolding prov_wf_def prov_rel_def by (metis list.set_intros(1) neq_Nil_conv)
  finally show ?thesis .
qed


section \<open>The theorems\<close>

text \<open>The reason why a declared prerequisite is not waited for.\<close>

definition dropReason :: "string list \<Rightarrow> WorkListDependencyDiscoverDeps \<Rightarrow> string \<Rightarrow> IgnoredDepReason option" where
  "dropReason ids deps p =
     (if openClassOf deps p = ClosedClass then Some Closed
      else if p \<notin> set ids then Some NotOnSelector
      else if openClassOf deps p \<noteq> OpenClass then Some NotOpen else None)"

lemma declares_usable: "declares ids deps d p src \<Longrightarrow> usableRoadmapEdge (edgeOf d p)"
  by (auto simp: declares_def issue_declares_def usableRoadmapEdge_def)

lemma ignoreReason_discovered:
  assumes "p \<in> set ts" "isCanonicalIssueId p"
  shows "ignoreReason (uniq (filter isCanonicalIssueId ids)) (map (\<lambda>t. (t, openClassOf deps t)) ts) p = dropReason ids deps p"
proof -
  have "map_of (map (\<lambda>t. (t, openClassOf deps t)) ts) p = Some (openClassOf deps p)"
    using assms(1) by (simp add: map_of_map_restrict)
  then show ?thesis using assms(2) by (auto simp: ignoreReason_def dropReason_def Let_def)
qed

lemma edge_mem: "p \<in> rd_prerequisite ` {e \<in> set A. rd_depender e = d} \<longleftrightarrow> edgeOf d p \<in> set A"
proof
  assume "p \<in> rd_prerequisite ` {e \<in> set A. rd_depender e = d}"
  then obtain e where e: "e \<in> set A" "rd_depender e = d" "rd_prerequisite e = p" by blast
  moreover obtain a b where "e = edgeOf a b" using edge_ex by blast
  ultimately show "edgeOf d p \<in> set A" by simp
qed (force simp: image_iff)

lemma discovery_sets:
  assumes "r = discoverDeclaredDependencies cmp ids deps"
  shows "map ri_id (dr_items r) = ids"
    and "item \<in> set (dr_items r) \<Longrightarrow> p \<in> set (orElse (ri_depends_on item) []) \<longleftrightarrow>
      (\<exists>src. declares ids deps (ri_id item) p src) \<and> dropReason ids deps p = None"
    and "i \<in> set (dr_ignored_deps r) \<longleftrightarrow>
      (\<exists>src. declares ids deps (gd_depender i) (gd_target i) src) \<and> dropReason ids deps (gd_target i) = Some (gd_reason i)"
proof -
  obtain obs prov where src: "discoverSources ids deps = (obs, prov)" by fastforce
  have wf: "prov_wf prov" and rel: "prov_rel prov d p s \<longleftrightarrow> declares ids deps d p s" for d p s
    using sources_prov [of ids deps d p s] src by auto
  define sel where "sel = uniq (filter isCanonicalIssueId ids)"
  define st where "st = map (\<lambda>t. (t, openClassOf deps t)) (uniq (map rd_prerequisite (rawEdges prov)))"
  obtain A I where admit: "fold (admitStep sel st) (rawEdges prov) ([], []) = (A, I)" by fastforce
  have raw: "e \<in> set (rawEdges prov) \<longleftrightarrow> (\<exists>s. declares ids deps (rd_depender e) (rd_prerequisite e) s)" for e
    using rawEdges_iff [OF wf] rel by simp
  have usable: "usableRoadmapEdge e" if "e \<in> set (rawEdges prov)" for e
    using that edge_ex [of e] declares_usable unfolding raw by fastforce
  have sets: "set A = {e \<in> set (rawEdges prov). usableRoadmapEdge e \<and> ignoreReason sel st (rd_prerequisite e) = None}"
    "set I = {i. usableRoadmapEdge (edgeOf (gd_depender i) (gd_target i)) \<and> edgeOf (gd_depender i) (gd_target i) \<in> set (rawEdges prov)
      \<and> ignoreReason sel st (gd_target i) = Some (gd_reason i)}"
    using admit_fold [OF _ _ admit] by simp_all
  have reason: "ignoreReason sel st (rd_prerequisite e) = dropReason ids deps (rd_prerequisite e)" if "e \<in> set (rawEdges prov)" for e
    unfolding sel_def st_def using that usable [OF that] by (intro ignoreReason_discovered) (auto simp: usableRoadmapEdge_def)
  have A: "e \<in> set A \<longleftrightarrow> (\<exists>s. declares ids deps (rd_depender e) (rd_prerequisite e) s) \<and> dropReason ids deps (rd_prerequisite e) = None" for e
    unfolding sets(1) mem_Collect_eq raw [symmetric] using reason [of e] usable [of e] by metis
  have I: "i \<in> set I \<longleftrightarrow> (\<exists>s. declares ids deps (gd_depender i) (gd_target i) s) \<and> dropReason ids deps (gd_target i) = Some (gd_reason i)" for i
    unfolding sets(2) mem_Collect_eq using reason [of "edgeOf (gd_depender i) (gd_target i)"] raw [of "edgeOf (gd_depender i) (gd_target i)"]
      usable [of "edgeOf (gd_depender i) (gd_target i)"] by (simp only: RawDeclaredEdge.select_convs) metis
  have r: "dr_items r = map (\<lambda>i. \<lparr>ri_id = i, ri_depends_on = Some (map rd_prerequisite (filter (\<lambda>e. rd_depender e = i) A))\<rparr>) ids"
    "set (dr_ignored_deps r) = set I"
    using assms src admit by (simp_all add: discoverDeclaredDependencies_def admitHardWaits_def Let_def flip: sel_def st_def)
  show "map ri_id (dr_items r) = ids" by (simp add: r(1) comp_def)
  show "p \<in> set (orElse (ri_depends_on item) []) \<longleftrightarrow> (\<exists>src. declares ids deps (ri_id item) p src) \<and> dropReason ids deps p = None"
    if item: "item \<in> set (dr_items r)"
  proof -
    have "p \<in> set (orElse (ri_depends_on item) []) \<longleftrightarrow> edgeOf (ri_id item) p \<in> set A"
      using item edge_mem [of p A "ri_id item"] unfolding r(1) by auto
    then show ?thesis by (simp add: A)
  qed
  show "i \<in> set (dr_ignored_deps r) \<longleftrightarrow>
      (\<exists>src. declares ids deps (gd_depender i) (gd_target i) src) \<and> dropReason ids deps (gd_target i) = Some (gd_reason i)"
    by (simp add: r(2) I)
qed

text \<open>C29: a compiled work list waits for exactly the declared, open prerequisites on the list. When the
  discovered items compile, every item's dependencies are the issues that its title or body, GitHub's
  blocking relation or the roadmap declares, that are on the list and that are not observed as closed,
  merged or unobservable; no item has an external dependency; and every declared prerequisite of it that is
  not waited for is recorded with the reason.\<close>

theorem compiled_waits_exact:
  assumes "r = discoverDeclaredDependencies cmp ids deps" "compileContractItems (dr_items r) = Inr items" "item \<in> set items"
  shows "ci_external_depends_on item = Some []
    \<and> (p \<in> set (ci_depends_on item) \<longleftrightarrow> (\<exists>src. declares ids deps (ci_id item) p src) \<and> p \<in> set ids \<and> openClassOf deps p = OpenClass)
    \<and> ((\<exists>src. declares ids deps (ci_id item) p src) \<longrightarrow> p \<in> set (ci_depends_on item)
        \<or> (\<exists>reason. dropReason ids deps p = Some reason
            \<and> \<lparr>gd_depender = ci_id item, gd_target = p, gd_reason = reason\<rparr> \<in> set (dr_ignored_deps r)))"
proof -
  have ids: "map ri_id (dr_items r) = ids" using discovery_sets(1) [OF assms(1)] .
  have "item \<in> set (partitionItems (dr_items r))"
    using compile_Inr [OF assms(2)] assms(3) by (metis set_mset_mset)
  then obtain raw where raw: "raw \<in> set (dr_items r)" "item = partitionItem (set ids) raw"
    by (auto simp: partitionItems_def ids)
  have none: "dropReason ids deps q = None \<longleftrightarrow> q \<in> set ids \<and> openClassOf deps q = OpenClass" for q
    by (auto simp: dropReason_def)
  note mem = discovery_sets(2) [OF assms(1) raw(1)]
  have ext: "ci_external_depends_on item = Some []" "ci_id item = ri_id raw"
    using mem none by (auto simp: raw(2) partitionItem_def Let_def filter_empty_conv)
  have dep: "q \<in> set (ci_depends_on item) \<longleftrightarrow> (\<exists>src. declares ids deps (ri_id raw) q src) \<and> dropReason ids deps q = None" for q
    using mem [of q] none [of q] by (auto simp: raw(2) partitionItem_def Let_def)
  show ?thesis
    using ext dep [of p] none [of p]
      discovery_sets(3) [OF assms(1), of "\<lparr>gd_depender = ri_id raw, gd_target = p, gd_reason = the (dropReason ids deps p)\<rparr>"]
    by (cases "dropReason ids deps p") auto
qed

text \<open>Two issues: 7 needs 9 and the closed 8.\<close>

definition exampleSources :: WorkListDependencyDiscoverDeps where
  "exampleSources = \<lparr>wd_getIssueTitleBody = (\<lambda>k n. Inr (Some (''t'', if n = 7 then ''needs #9, #8'' else []))),
     wd_getBlockedByIssueNumbers = (\<lambda>k n. Inr (Some [])), wd_getRoadmapDeclaredEdges = None,
     wd_getIssueOpenState = Some (\<lambda>n. Inr (Some (if n = 8 then SeenClosed else SeenOpen)))\<rparr>"

abbreviation exampleDiscovery :: DeclaredDependencyDiscoveryResult where
  "exampleDiscovery \<equiv> discoverDeclaredDependencies (\<lambda>_ _. 0) [''7'', ''9''] exampleSources"

theorem compiled_waits_exact_witness:
  "\<exists>item :: LoopContractItem. ci_id item = ''7'' \<and> ci_depends_on item = [''9''] \<and> ci_external_depends_on item = Some []
    \<and> \<lparr>gd_depender = ''7'', gd_target = ''8'', gd_reason = Closed\<rparr> \<in> set (dr_ignored_deps exampleDiscovery)
    \<and> (\<exists>src. declares [''7'', ''9''] exampleSources ''7'' ''9'' src)"
proof -
  let ?item = "\<lparr>ci_id = ''7'', ci_depends_on = [''9''], ci_external_depends_on = Some [], ci_ownership = None\<rparr>"
  have compiled: "compileContractItems (dr_items exampleDiscovery) =
      Inr [\<lparr>ci_id = ''9'', ci_depends_on = [], ci_external_depends_on = Some [], ci_ownership = None\<rparr>, ?item]" by code_simp
  have "dr_ignored_deps exampleDiscovery = [\<lparr>gd_depender = ''7'', gd_target = ''8'', gd_reason = Closed\<rparr>]" by code_simp
  then show ?thesis
    using compiled_waits_exact [OF refl compiled, of ?item "''9''"] by - (rule exI [of _ ?item], simp)
qed


text \<open>Every enabled source has answered for every issue of the list.\<close>

definition all_answered :: "string list \<Rightarrow> WorkListDependencyDiscoverDeps \<Rightarrow> bool" where
  "all_answered ids deps \<longleftrightarrow> (\<forall>r. wd_getRoadmapDeclaredEdges deps = Some r \<longrightarrow> (\<exists>es. r = Inr (Some es)))
     \<and> (\<forall>k < length ids. isCanonicalIssueId (ids ! k) \<longrightarrow>
          (\<exists>tb. wd_getIssueTitleBody deps k (issueNumberOf (ids ! k)) = Inr (Some tb))
          \<and> (\<exists>ns. wd_getBlockedByIssueNumbers deps k (issueNumberOf (ids ! k)) = Inr (Some ns)))"

abbreviation incomplete :: "discovery \<Rightarrow> bool" where
  "incomplete D \<equiv> list_ex (\<lambda>o'. isIncompleteStatus (so_status o')) (fst D)"

lemma edgesStatus_complete: "\<not> isIncompleteStatus (edgesStatus b)"
  by (simp add: isIncompleteStatus_def edgesStatus_def)

lemma observation_status [simp]: "so_status (observation source scope status reason) = status"
  by (simp add: observation_def)

lemma incomplete_statuses [simp]: "isIncompleteStatus Unavailable" "isIncompleteStatus Incomplete"
  by (simp_all add: isIncompleteStatus_def)

lemma issue_incomplete:
  "incomplete (issueSources deps ki D) \<longleftrightarrow> incomplete D \<or> (isCanonicalIssueId (snd ki) \<and>
     \<not> ((\<exists>tb. wd_getIssueTitleBody deps (fst ki) (issueNumberOf (snd ki)) = Inr (Some tb))
       \<and> (\<exists>ns. wd_getBlockedByIssueNumbers deps (fst ki) (issueNumberOf (snd ki)) = Inr (Some ns))))"
  by (cases D; cases "wd_getIssueTitleBody deps (fst ki) (issueNumberOf (snd ki))";
      cases "wd_getBlockedByIssueNumbers deps (fst ki) (issueNumberOf (snd ki))")
    (auto simp: issueSources_def lexicalSource_def nativeSource_def Let_def edgesStatus_complete split: option.splits)

lemma issues_incomplete:
  "incomplete (fold (issueSources deps) kis D) \<longleftrightarrow> incomplete D \<or> (\<exists>ki \<in> set kis. isCanonicalIssueId (snd ki) \<and>
     \<not> ((\<exists>tb. wd_getIssueTitleBody deps (fst ki) (issueNumberOf (snd ki)) = Inr (Some tb))
       \<and> (\<exists>ns. wd_getBlockedByIssueNumbers deps (fst ki) (issueNumberOf (snd ki)) = Inr (Some ns))))"
  by (induction kis arbitrary: D) (auto simp: issue_incomplete)

lemma sources_incomplete: "incomplete (discoverSources ids deps) \<longleftrightarrow> \<not> all_answered ids deps"
proof -
  have "incomplete (roadmapSource deps) \<longleftrightarrow> \<not> (\<forall>r. wd_getRoadmapDeclaredEdges deps = Some r \<longrightarrow> (\<exists>es. r = Inr (Some es)))"
    by (auto simp: roadmapSource_def Let_def edgesStatus_complete split: option.splits sum.splits)
  then show ?thesis
    unfolding discoverSources_def issues_incomplete all_answered_def by (auto simp: in_set_enumerate_eq Bex_def)
qed

text \<open>C30: a run is admitted only on complete discovery. The admission check accepts the result of the
  discovery exactly when every enabled source answered for every issue of the list (the roadmap as a whole,
  title and body and the blocking relation of each issue), or the list has at most one item and the caller
  does not force the check.\<close>

theorem admission_needs_complete_discovery:
  "assertDiscoveryCompleteForAdmission ids (discoverDeclaredDependencies cmp ids deps) forceRefuse = Inr ()
     \<longleftrightarrow> all_answered ids deps \<or> (length ids \<le> 1 \<and> forceRefuse = False)"
proof -
  have "dr_has_incomplete (discoverDeclaredDependencies cmp ids deps) \<longleftrightarrow> incomplete (discoverSources ids deps)"
    by (auto simp: discoverDeclaredDependencies_def Let_def split: prod.splits)
  then show ?thesis
    using sources_incomplete [of ids deps] by (auto simp: assertDiscoveryCompleteForAdmission_def)
qed

end
