(* ===== verification/Native_Blockers.thy ===== *)
theory Native_Blockers
  imports Work_List
begin

text \<open>
  The production seam of the work-list discovery, \<open>realWorkListDependencyDiscoverDeps\<close> of
  \<open>core/scripts/loop/work-list-deps.ts\<close>: GitHub's blocking relation page by page with its safety bound, the
  fallback to REST, the caches, and the state of an issue for the admission of a wait. What \<open>gh\<close> answers is a
  parameter, the text of the queries is not part of the model. The theorem shows that a list of blockers holds
  the numbers of all pages up to the first that does not report a successor, and a lemma shows the gap this
  leaves: an answer without the relation counts as its last page.
\<close>

section \<open>The production seam\<close>

text \<open>One page of GitHub's blocking relation as the answer to a query: an error, no issue, or the issue with
  the page. Every field may be missing or null, as the interfaces declare it; the nodes that carry no
  number are \<open>None\<close>.\<close>

record PageInfo =
  pi_hasNextPage :: "bool option"
  pi_endCursor :: "string option"

record BlockedByPage =
  bp_pageInfo :: "PageInfo option"
  bp_nodes :: "int option list option"

datatype IssuePayload = GraphqlErrors | NoIssue | IssuePage "string option" "string option" "string option" "BlockedByPage option"

text \<open>\<open>connection?.nodes\<close>, \<open>connection?.pageInfo?.hasNextPage\<close> as a condition, and the cursor.\<close>

definition pageNodes :: "BlockedByPage option \<Rightarrow> int option list option" where
  "pageNodes connection = Option.bind connection bp_nodes"

definition pageHasNext :: "BlockedByPage option \<Rightarrow> bool" where
  "pageHasNext connection \<longleftrightarrow> Option.bind (Option.bind connection bp_pageInfo) pi_hasNextPage = Some True"

definition pageCursor :: "BlockedByPage option \<Rightarrow> string option" where
  "pageCursor connection = Option.bind (Option.bind connection bp_pageInfo) pi_endCursor"

definition BLOCKED_BY_MAX_PAGES :: nat where
  "BLOCKED_BY_MAX_PAGES = 50"

definition openClassFromGraphqlState :: "string option \<Rightarrow> PrerequisiteOpenClass option" where
  "openClassFromGraphqlState state =
     (if \<not> truthy state then None
      else (let lower = js_lower (the state)
            in if lower = ''open'' then Some OpenClass else if lower = ''closed'' then Some ClosedClass else None))"

text \<open>The set \<open>seen\<close> holds exactly the numbers of the list \<open>out\<close>.\<close>

definition collectBlockedByIssueNumbers :: "int option list option \<Rightarrow> int list \<Rightarrow> int list" where
  "collectBlockedByIssueNumbers nodes out =
     fold (\<lambda>node out. case node of None \<Rightarrow> out | Some n \<Rightarrow> if n \<le> 0 \<or> n \<in> set out then out else out @ [n]) (orElse nodes []) out"

record CachedIssue =
  ca_title :: string
  ca_body :: string
  ca_openState :: "PrerequisiteOpenClass option"
  ca_blockedBy :: "int list option"

text \<open>The loop over the pages; \<open>left\<close> counts the pages still allowed, \<open>first\<close> holds what the first page gave.\<close>

fun loadPages ::
  "(nat \<Rightarrow> string option \<Rightarrow> IssuePayload result) \<Rightarrow> int \<Rightarrow> nat \<Rightarrow> nat \<Rightarrow> string option
     \<Rightarrow> (string \<times> string \<times> PrerequisiteOpenClass option) \<Rightarrow> int list \<Rightarrow> CachedIssue option result" where
  "loadPages fetch issueNumber page 0 after' first blockedBy =
     Inl (LoopError Validation (''blockedBy pagination for issue #'' @ show_int issueNumber @ '' exceeded safety bound (50 pages x 100); refusing truncated result''))"
| "loadPages fetch issueNumber page (Suc left) after' first blockedBy =
     (case fetch page after' of
        Inl e \<Rightarrow> Inl e
      | Inr GraphqlErrors \<Rightarrow> Inl (LoopError Validation (''GraphQL errors loading issue #'' @ show_int issueNumber @ '' dependency sources''))
      | Inr NoIssue \<Rightarrow> Inr None
      | Inr (IssuePage title body state connection) \<Rightarrow>
          (let first' = (if page = 0 then (orElse title [], orElse body [], openClassFromGraphqlState state) else first);
               blockedBy' = collectBlockedByIssueNumbers (pageNodes connection) blockedBy
           in if \<not> pageHasNext connection
              then Inr (Some \<lparr>ca_title = fst first', ca_body = fst (snd first'), ca_openState = snd (snd first'), ca_blockedBy = Some blockedBy'\<rparr>)
              else if \<not> truthy (pageCursor connection)
              then Inl (LoopError Validation (''blockedBy pagination for issue #'' @ show_int issueNumber @ '': hasNextPage without endCursor''))
              else loadPages fetch issueNumber (Suc page) left (pageCursor connection) first' blockedBy'))"

definition loadViaGraphql :: "(nat \<Rightarrow> string option \<Rightarrow> IssuePayload result) \<Rightarrow> int \<Rightarrow> CachedIssue option result" where
  "loadViaGraphql fetch issueNumber = loadPages fetch issueNumber 0 BLOCKED_BY_MAX_PAGES None ([], [], None) []"

text \<open>\<open>getIssueDetail\<close> over REST gives title, body and state, or throws.\<close>

definition loadViaRest :: "(int \<Rightarrow> (string \<times> string \<times> string) result) \<Rightarrow> int \<Rightarrow> CachedIssue option" where
  "loadViaRest getIssueDetail issueNumber =
     (case getIssueDetail issueNumber of
        Inl e \<Rightarrow> None
      | Inr (title, body, state) \<Rightarrow> Some \<lparr>ca_title = title, ca_body = body,
          ca_openState = (if state = ''closed'' then Some ClosedClass else if state = ''open'' then Some OpenClass else None),
          ca_blockedBy = None\<rparr>)"

definition repoIsValid :: "string \<Rightarrow> bool" where
  "repoIsValid repo \<longleftrightarrow> (case js_split (CHR ''/'') repo of owner # name # _ \<Rightarrow> owner \<noteq> [] \<and> name \<noteq> [] | _ \<Rightarrow> False)"

text \<open>The services behind the seam; \<open>gs_fetch\<close> is given the number of the load, the issue and the page.\<close>

record GithubServices =
  gs_repo :: string
  gs_fetch :: "nat \<Rightarrow> int \<Rightarrow> nat \<Rightarrow> string option \<Rightarrow> IssuePayload result"
  gs_getIssueDetail :: "int \<Rightarrow> (string \<times> string \<times> string) result"

record LoadCache =
  lc_rows :: "(int \<times> CachedIssue option) list"
  lc_loads :: nat

definition loadIssue :: "GithubServices \<Rightarrow> int \<Rightarrow> LoadCache \<Rightarrow> CachedIssue option result \<times> LoadCache" where
  "loadIssue gs n c =
     (case map_of (lc_rows c) n of
        Some row \<Rightarrow> (Inr row, c)
      | None \<Rightarrow>
          (let keep = (\<lambda>row. (Inr row, \<lparr>lc_rows = AList.update n row (lc_rows c), lc_loads = Suc (lc_loads c)\<rparr>))
           in if \<not> repoIsValid (gs_repo gs) then keep None
              else (case loadViaGraphql (gs_fetch gs (lc_loads c) n) n of
                 Inr row \<Rightarrow> keep row
               | Inl e \<Rightarrow> if js_includes (message e) ''blockedBy pagination'' then (Inl e, c\<lparr>lc_loads := Suc (lc_loads c)\<rparr>)
                   else keep (loadViaRest (gs_getIssueDetail gs) n))))"

definition getIssueTitleBody :: "GithubServices \<Rightarrow> int \<Rightarrow> LoadCache \<Rightarrow> (string \<times> string) option result \<times> LoadCache" where
  "getIssueTitleBody gs n c =
     (case loadIssue gs n c of
        (Inl e, c') \<Rightarrow> (Inl e, c')
      | (Inr row, c') \<Rightarrow> (Inr (map_option (\<lambda>r. (ca_title r, ca_body r)) row), c'))"

definition getBlockedByIssueNumbers :: "GithubServices \<Rightarrow> int \<Rightarrow> LoadCache \<Rightarrow> int list option result \<times> LoadCache" where
  "getBlockedByIssueNumbers gs n c =
     (case loadIssue gs n c of
        (Inl e, c') \<Rightarrow> (Inl e, c')
      | (Inr row, c') \<Rightarrow> (Inr (Option.bind row ca_blockedBy), c'))"

text \<open>The state of an issue for the admission of a wait: closed, satisfied by a merged pull request, open, or
  not observed. \<open>on_fetchState\<close> is the light query for the state, \<open>on_findPr\<close> and \<open>on_getPrState\<close> look up the
  linked pull request; a failure there leaves the issue open.\<close>

record OpenServices = GithubServices +
  on_fetchState :: "int \<Rightarrow> string option result"
  on_findPr :: "int \<Rightarrow> int option result"
  on_getPrState :: "int \<Rightarrow> PrState option result"

record OpenCache = LoadCache +
  oc_openStateOnly :: "(int \<times> PrerequisiteOpenClass option) list"
  oc_admissionState :: "(int \<times> PrerequisiteObservation option) list"

definition restOpenState :: "'a GithubServices_scheme \<Rightarrow> int \<Rightarrow> PrerequisiteOpenClass option" where
  "restOpenState gs n =
     (case gs_getIssueDetail gs n of
        Inl e \<Rightarrow> None
      | Inr (title, body, state) \<Rightarrow> if state = ''closed'' then Some ClosedClass else if state = ''open'' then Some OpenClass else None)"

definition loadOpenStateOnly :: "OpenServices \<Rightarrow> int \<Rightarrow> OpenCache \<Rightarrow> PrerequisiteOpenClass option \<times> OpenCache" where
  "loadOpenStateOnly gs n c =
     (case map_of (oc_openStateOnly c) n of
        Some st \<Rightarrow> (st, c)
      | None \<Rightarrow>
          (let st = (if \<not> repoIsValid (gs_repo gs) then None
                     else (case on_fetchState gs n of Inr state \<Rightarrow> openClassFromGraphqlState state | Inl e \<Rightarrow> restOpenState gs n))
           in (st, c\<lparr>oc_openStateOnly := AList.update n st (oc_openStateOnly c)\<rparr>)))"

definition mergedPr :: "OpenServices \<Rightarrow> int \<Rightarrow> bool" where
  "mergedPr gs n =
     (case on_findPr gs n of
        Inr (Some pr) \<Rightarrow> (case on_getPrState gs pr of Inr st \<Rightarrow> st = Some PrMerged | Inl e \<Rightarrow> False)
      | _ \<Rightarrow> False)"

definition getIssueOpenState :: "OpenServices \<Rightarrow> int \<Rightarrow> OpenCache \<Rightarrow> PrerequisiteObservation option \<times> OpenCache" where
  "getIssueOpenState gs n c =
     (case map_of (oc_admissionState c) n of
        Some r \<Rightarrow> (r, c)
      | None \<Rightarrow>
          (case (case map_of (lc_rows c) n of
                   Some row \<Rightarrow> (Option.bind row ca_openState, c)
                 | None \<Rightarrow> loadOpenStateOnly gs n c) of
             (issueState, c') \<Rightarrow>
               (let r = (case issueState of
                      Some ClosedClass \<Rightarrow> Some SeenClosed
                    | Some OpenClass \<Rightarrow> if mergedPr gs n then Some SeenMerged else Some SeenOpen
                    | _ \<Rightarrow> None)
                in (r, c'\<lparr>oc_admissionState := AList.update n r (oc_admissionState c')\<rparr>))))"

section \<open>The blocking relation is followed to its last page\<close>

text \<open>The pages of one load: from the first to one that does not report a successor, each asked for with the
  cursor of the page before it.\<close>

fun page_chain :: "(nat \<Rightarrow> string option \<Rightarrow> IssuePayload result) \<Rightarrow> nat \<Rightarrow> string option \<Rightarrow> BlockedByPage option list \<Rightarrow> bool" where
  "page_chain fetch page after' [] = False"
| "page_chain fetch page after' (b # bs) \<longleftrightarrow>
     (\<exists>title body state. fetch page after' = Inr (IssuePage title body state b))
     \<and> (if pageHasNext b then truthy (pageCursor b) \<and> page_chain fetch (Suc page) (pageCursor b) bs else bs = [])"

definition page_numbers :: "BlockedByPage option list \<Rightarrow> int list" where
  "page_numbers bs = filter (\<lambda>n. n > 0) (List.map_filter (\<lambda>n. n) (concat (map (\<lambda>b. orElse (pageNodes b) []) bs)))"

text \<open>A page that says itself that it is the last one.\<close>

definition declaredLast :: "BlockedByPage option \<Rightarrow> bool" where
  "declaredLast b \<longleftrightarrow> (\<exists>p i. b = Some p \<and> bp_pageInfo p = Some i \<and> pi_hasNextPage i = Some False)"

text \<open>A load whose answers all carry the relation: every page has its nodes and says whether another follows.\<close>

definition observedPage :: "BlockedByPage option \<Rightarrow> bool" where
  "observedPage b \<longleftrightarrow> (\<exists>p i. b = Some p \<and> bp_nodes p \<noteq> None \<and> bp_pageInfo p = Some i \<and> pi_hasNextPage i \<noteq> None)"

lemma observed_last: "observedPage b \<Longrightarrow> \<not> pageHasNext b \<Longrightarrow> declaredLast b"
  by (auto simp: observedPage_def declaredLast_def pageHasNext_def)

lemma chain_last: "page_chain fetch page after' bs \<Longrightarrow> bs \<noteq> [] \<and> \<not> pageHasNext (last bs)"
  by (induction fetch page after' bs rule: page_chain.induct) (auto split: if_splits)

lemma collect_set_add: "collectBlockedByIssueNumbers nodes out
    = fold set_add (filter (\<lambda>n. n > 0) (List.map_filter (\<lambda>n. n) (orElse nodes []))) out"
proof -
  have "fold (\<lambda>node out. case node of None \<Rightarrow> out | Some n \<Rightarrow> if n \<le> 0 \<or> n \<in> set out then out else out @ [n]) xs out
      = fold set_add (filter (\<lambda>n. n > 0) (List.map_filter (\<lambda>n. n) xs)) out" for xs :: "int option list"
    by (induction xs arbitrary: out) (auto simp: set_add_def map_filter_simps split: option.splits)
  then show ?thesis by (simp only: collectBlockedByIssueNumbers_def)
qed

lemma loadPages_complete:
  "loadPages fetch n page left after' first acc = Inr (Some row) \<Longrightarrow>
     \<exists>bs. page_chain fetch page after' bs \<and> length bs \<le> left \<and> ca_blockedBy row = Some (fold set_add (page_numbers bs) acc)"
proof (induction fetch n page left after' first acc rule: loadPages.induct)
  case (2 fetch n page left after' first acc)
  from "2.prems" obtain t b st p where p: "fetch page after' = Inr (IssuePage t b st p)"
    by (auto split: sum.splits IssuePayload.splits)
  let ?acc = "collectBlockedByIssueNumbers (pageNodes p) acc"
  have numbers: "fold set_add (page_numbers (p # bs)) acc = fold set_add (page_numbers bs) ?acc" for bs
    by (simp add: page_numbers_def collect_set_add List.map_filter_def)
  show ?case
  proof (cases "pageHasNext p")
    case False
    then show ?thesis using "2.prems" p numbers [of "[]"]
      by (intro exI [of _ "[p]"]) (auto simp: Let_def page_numbers_def map_filter_simps)
  next
    case True
    then have cursor: "truthy (pageCursor p)" using "2.prems" p by (auto simp: Let_def split: if_splits)
    from True cursor "2.prems" p "2.IH" [OF p refl refl refl] obtain bs
      where "page_chain fetch (Suc page) (pageCursor p) bs" "length bs \<le> left" "ca_blockedBy row = Some (fold set_add (page_numbers bs) ?acc)"
      by (auto simp: Let_def)
    with True cursor p numbers show ?thesis by (intro exI [of _ "p # bs"]) auto
  qed
qed simp


inductive load_step :: "GithubServices \<Rightarrow> LoadCache \<Rightarrow> LoadCache \<Rightarrow> bool" for gs where
  title: "load_step gs c (snd (getIssueTitleBody gs n c))"
| blockers: "load_step gs c (snd (getBlockedByIssueNumbers gs n c))"

definition all_blockers :: "GithubServices \<Rightarrow> int \<Rightarrow> int list \<Rightarrow> bool" where
  "all_blockers gs n ns \<longleftrightarrow> (\<exists>k bs. page_chain (gs_fetch gs k n) 0 None bs \<and> length bs \<le> BLOCKED_BY_MAX_PAGES \<and> ns = uniq (page_numbers bs))"

definition rows_complete :: "GithubServices \<Rightarrow> LoadCache \<Rightarrow> bool" where
  "rows_complete gs c \<longleftrightarrow> (\<forall>n row ns. map_of (lc_rows c) n = Some (Some row) \<longrightarrow> ca_blockedBy row = Some ns \<longrightarrow> all_blockers gs n ns)"

lemma loadViaGraphql_complete:
  "loadViaGraphql (gs_fetch gs k n) n = Inr (Some row) \<Longrightarrow> ca_blockedBy row = Some ns \<Longrightarrow> all_blockers gs n ns"
  using loadPages_complete [of "gs_fetch gs k n" n 0 BLOCKED_BY_MAX_PAGES None "([], [], None)" "[]" row]
  by (auto simp: loadViaGraphql_def all_blockers_def uniq_def)

lemma loadIssue_complete:
  assumes "rows_complete gs c" "loadIssue gs n c = (r, c')"
  shows "rows_complete gs c'" "r = Inr (Some row) \<Longrightarrow> ca_blockedBy row = Some ns \<Longrightarrow> all_blockers gs n ns"
proof -
  have rest: "loadViaRest (gs_getIssueDetail gs) n = Some row \<Longrightarrow> ca_blockedBy row = None" for row
    by (auto simp: loadViaRest_def split: sum.splits)
  show "rows_complete gs c'"
    using assms loadViaGraphql_complete loadViaGraphql_complete [OF sym] rest
    by (auto simp: loadIssue_def Let_def rows_complete_def update_conv' split: option.splits if_splits sum.splits)
  show "r = Inr (Some row) \<Longrightarrow> ca_blockedBy row = Some ns \<Longrightarrow> all_blockers gs n ns"
    using assms loadViaGraphql_complete loadViaGraphql_complete [OF sym] rest
    by (auto simp: loadIssue_def Let_def rows_complete_def split: option.splits if_splits sum.splits)
qed

lemma load_step_complete: "load_step gs c c' \<Longrightarrow> rows_complete gs c \<Longrightarrow> rows_complete gs c'"
proof (induction rule: load_step.induct)
  case (title c n)
  then show ?case using loadIssue_complete(1) [of gs c n] by (auto simp: getIssueTitleBody_def split: prod.splits sum.splits)
next
  case (blockers c n)
  then show ?case using loadIssue_complete(1) [of gs c n] by (auto simp: getBlockedByIssueNumbers_def split: prod.splits sum.splits)
qed

interpretation loads: kept "load_step gs" "rows_complete gs" for gs
  by unfold_locales (rule load_step_complete)

text \<open>C31: a list of native blockers holds what all pages of the relation say. In every sequence of reads
  through the caching seam, whatever GitHub answers, a read of the blocking relation that gives a list gives the
  numbers of a chain of pages, each number once: from the first page, each asked for with the cursor of
  the page before it, to the first page that does not report a successor, at most fifty. So the list is
  the whole relation whenever every answer carried its nodes and its paging information: the last page has then
  declared itself to be the last. Errors, a missing cursor and a fifty-first page give no list; an answer
  that lacks the relation or its paging information counts as the last page.\<close>

theorem blockers_follow_all_pages:
  assumes "(load_step gs)\<^sup>*\<^sup>* \<lparr>lc_rows = [], lc_loads = 0\<rparr> c" "fst (getBlockedByIssueNumbers gs n c) = Inr (Some ns)"
  shows "\<exists>k bs. page_chain (gs_fetch gs k n) 0 None bs \<and> length bs \<le> BLOCKED_BY_MAX_PAGES \<and> ns = uniq (page_numbers bs)
    \<and> (list_all observedPage bs \<longrightarrow> declaredLast (last bs))"
proof -
  have "rows_complete gs c" using loads.run_keeps [OF assms(1)] by (simp add: rows_complete_def)
  moreover obtain row c' where "loadIssue gs n c = (Inr (Some row), c')" "ca_blockedBy row = Some ns"
    using assms(2) by (auto simp: getBlockedByIssueNumbers_def Option.bind_eq_Some_conv split: prod.splits sum.splits)
  ultimately obtain k bs where "page_chain (gs_fetch gs k n) 0 None bs" "length bs \<le> BLOCKED_BY_MAX_PAGES" "ns = uniq (page_numbers bs)"
    using loadIssue_complete(2) unfolding all_blockers_def by blast
  with chain_last observed_last show ?thesis by (metis list_all_iff last_in_set)
qed

text \<open>The gap: an answer whose relation is null (the field could not be read) is returned as an empty list,
  which the discovery takes for an observed relation without blockers.\<close>

lemma null_relation_read_as_empty:
  assumes "map_of (lc_rows c) n = None" "repoIsValid (gs_repo gs)" "gs_fetch gs (lc_loads c) n 0 None = Inr (IssuePage t b st None)"
  shows "fst (getBlockedByIssueNumbers gs n c) = Inr (Some [])"
proof -
  have bound: "BLOCKED_BY_MAX_PAGES = Suc 49" by (simp add: BLOCKED_BY_MAX_PAGES_def)
  have "\<exists>row. loadViaGraphql (gs_fetch gs (lc_loads c) n) n = Inr (Some row) \<and> ca_blockedBy row = Some []"
    unfolding loadViaGraphql_def bound loadPages.simps
    using assms(3) by (simp add: Let_def pageHasNext_def pageNodes_def collectBlockedByIssueNumbers_def)
  with assms(1,2) show ?thesis by (auto simp: getBlockedByIssueNumbers_def loadIssue_def Let_def)
qed

text \<open>Two pages of blockers, read after the title.\<close>

definition pagedServices :: GithubServices where
  "pagedServices = \<lparr>gs_repo = ''o/r'',
     gs_fetch = (\<lambda>k n page after'. Inr (IssuePage (Some ''t'') None (Some ''OPEN'') (Some (if page = 0
        then \<lparr>bp_pageInfo = Some \<lparr>pi_hasNextPage = Some True, pi_endCursor = Some ''c''\<rparr>, bp_nodes = Some [Some 3, None, Some 4]\<rparr>
        else \<lparr>bp_pageInfo = Some \<lparr>pi_hasNextPage = Some False, pi_endCursor = None\<rparr>, bp_nodes = Some [Some 4, Some 5]\<rparr>)))),
     gs_getIssueDetail = (\<lambda>_. Inl (LoopError Validation ''offline''))\<rparr>"

theorem blockers_follow_all_pages_witness:
  "\<exists>k bs. page_chain (gs_fetch pagedServices k 7) 0 None bs \<and> uniq (page_numbers bs) = [3, 4, 5]"
proof -
  let ?c = "snd (getIssueTitleBody pagedServices 7 \<lparr>lc_rows = [], lc_loads = 0\<rparr>)"
  have "fst (getBlockedByIssueNumbers pagedServices 7 ?c) = Inr (Some [3, 4, 5])" by code_simp
  from blockers_follow_all_pages [OF r_into_rtranclp [of "load_step pagedServices", OF load_step.title] this] show ?thesis by metis
qed

end
