(* ===== verification/Task_Pool.thy ===== *)
theory Task_Pool
  imports Js_Prelude
begin

text \<open>
  The bounded task pool of the roadmap phases, \<open>core/scripts/roadmap/pool.ts\<close>. The workers are modelled one by
  one: each takes the next index in one synchronous block, waits for the task and goes on when its promise has
  settled. The order in which promises settle and workers go on is a list of events, an argument of the pool.
  The lemmas hold for every such list: a pool that returns has run each task exactly once and holds its
  result at the task's index, and a pool that has not returned can always go on to its end.
\<close>

section \<open>The pool\<close>

text \<open>A worker awaits task \<open>i\<close>, or its task has settled with a value and it has not yet gone on, or it has
  left its loop.\<close>

datatype 'r Worker = Awaiting nat | Settled nat 'r | Returned

record ('r, 's) Pool =
  pl_nextIndex :: nat
  pl_workers :: "'r Worker list"
  pl_results :: "'r option list"
  pl_state :: 's

text \<open>A task is a function on the state it shares with the other tasks: its last synchronous block.\<close>

type_synonym ('e, 'r, 's) task = "nat \<Rightarrow> 's \<Rightarrow> 'e + 'r \<times> 's"

datatype PoolEvent = Settles nat | GoesOn nat

text \<open>The number of workers: \<open>Math.min(Math.max(1, Math.floor(concurrency)), tasks.length)\<close> as the length of
  an array, where a number that is not a number counts as zero.\<close>

definition workerCount :: "jsnum \<Rightarrow> nat \<Rightarrow> nat" where
  "workerCount concurrency n =
     (case concurrency of
        Fin r \<Rightarrow> min (nat (max 1 \<lfloor>r\<rfloor>)) n
      | PosInf \<Rightarrow> n
      | NegInf \<Rightarrow> min 1 n
      | NaN \<Rightarrow> 0)"

text \<open>The head of the loop of worker \<open>w\<close>: it takes the next index, or leaves.\<close>

definition takeNext :: "nat \<Rightarrow> nat \<Rightarrow> ('r, 's) Pool \<Rightarrow> ('r, 's) Pool" where
  "takeNext n w p =
     (if pl_nextIndex p < n
      then p\<lparr>pl_workers := (pl_workers p)[w := Awaiting (pl_nextIndex p)], pl_nextIndex := pl_nextIndex p + 1\<rparr>
      else p\<lparr>pl_workers := (pl_workers p)[w := Returned]\<rparr>)"

text \<open>\<open>Array.from\<close> calls the workers one after the other; each runs to its first \<open>await\<close>.\<close>

definition startPool :: "nat \<Rightarrow> nat \<Rightarrow> 's \<Rightarrow> ('r, 's) Pool" where
  "startPool n k s = fold (takeNext n) [0..<k]
     \<lparr>pl_nextIndex = 0, pl_workers = replicate k Returned, pl_results = replicate n None, pl_state = s\<rparr>"

text \<open>An event that the pool is not waiting for has no effect. The first rejection rejects the pool.\<close>

fun poolStep :: "('e, 'r, 's) task \<Rightarrow> nat \<Rightarrow> PoolEvent \<Rightarrow> ('r, 's) Pool \<Rightarrow> 'e + ('r, 's) Pool" where
  "poolStep task n (Settles w) p =
     (if w < length (pl_workers p)
      then (case pl_workers p ! w of
              Awaiting i \<Rightarrow> (case task i (pl_state p) of
                 Inl e \<Rightarrow> Inl e
               | Inr (v, s) \<Rightarrow> Inr (p\<lparr>pl_workers := (pl_workers p)[w := Settled i v], pl_state := s\<rparr>))
            | _ \<Rightarrow> Inr p)
      else Inr p)"
| "poolStep task n (GoesOn w) p =
     (if w < length (pl_workers p)
      then (case pl_workers p ! w of
              Settled i v \<Rightarrow> Inr (takeNext n w (p\<lparr>pl_results := (pl_results p)[i := Some v]\<rparr>))
            | _ \<Rightarrow> Inr p)
      else Inr p)"

fun allReturned :: "'r Worker list \<Rightarrow> bool" where
  "allReturned [] = True"
| "allReturned (Returned # ws) = allReturned ws"
| "allReturned (_ # ws) = False"

text \<open>The promise of the pool after the events: not settled, rejected, or the results with the shared state.\<close>

fun poolRun :: "('e, 'r, 's) task \<Rightarrow> nat \<Rightarrow> PoolEvent list \<Rightarrow> ('r, 's) Pool \<Rightarrow> ('e + 'r option list \<times> 's) option" where
  "poolRun task n [] p = (if allReturned (pl_workers p) then Some (Inr (pl_results p, pl_state p)) else None)"
| "poolRun task n (ev # evs) p =
     (if allReturned (pl_workers p) then Some (Inr (pl_results p, pl_state p))
      else (case poolStep task n ev p of Inl e \<Rightarrow> Some (Inl e) | Inr p' \<Rightarrow> poolRun task n evs p'))"

definition runPool :: "('e, 'r, 's) task \<Rightarrow> nat \<Rightarrow> jsnum \<Rightarrow> PoolEvent list \<Rightarrow> 's \<Rightarrow> ('e + 'r option list \<times> 's) option" where
  "runPool task n concurrency events s =
     (if n = 0 then Some (Inr ([], s)) else poolRun task n events (startPool n (workerCount concurrency n) s))"

section \<open>Every task runs once\<close>

text \<open>The tasks in the order in which they settled, with their values.\<close>

fun settled_in :: "('e, 'r, 's) task \<Rightarrow> 's \<Rightarrow> (nat \<times> 'r) list \<Rightarrow> 's \<Rightarrow> bool" where
  "settled_in task s [] s' \<longleftrightarrow> s' = s"
| "settled_in task s ((i, v) # rest) s' \<longleftrightarrow> (\<exists>s1. task i s = Inr (v, s1) \<and> settled_in task s1 rest s')"

fun awaited :: "'r Worker \<Rightarrow> nat list" where
  "awaited (Awaiting i) = [i]"
| "awaited _ = []"

abbreviation in_flight :: "'r Worker list \<Rightarrow> nat list" where
  "in_flight ws \<equiv> concat (map awaited ws)"

definition pool_inv :: "('e, 'r, 's) task \<Rightarrow> nat \<Rightarrow> 's \<Rightarrow> (nat \<times> 'r) list \<Rightarrow> ('r, 's) Pool \<Rightarrow> bool" where
  "pool_inv task n s order p \<longleftrightarrow> pl_nextIndex p \<le> n \<and> length (pl_results p) = n
     \<and> mset (map fst order) + mset (in_flight (pl_workers p)) = mset [0..<pl_nextIndex p]
     \<and> settled_in task s order (pl_state p)
     \<and> (\<forall>(i, v) \<in> set order. pl_results p ! i = Some v \<or> Settled i v \<in> set (pl_workers p))
     \<and> (\<forall>i v. Settled i v \<in> set (pl_workers p) \<longrightarrow> (i, v) \<in> set order)
     \<and> (Returned \<in> set (pl_workers p) \<longrightarrow> pl_nextIndex p = n)"

lemma settled_snoc: "settled_in task s order s1 \<Longrightarrow> task i s1 = Inr (v, s2) \<Longrightarrow> settled_in task s (order @ [(i, v)]) s2"
  by (induction task s order s1 rule: settled_in.induct) auto

lemma in_flight_update:
  "w < length ws \<Longrightarrow> mset (in_flight (ws[w := x])) + mset (awaited (ws ! w)) = mset (in_flight ws) + mset (awaited x)"
proof (induction ws arbitrary: w)
  case (Cons y ws)
  then show ?case by (cases w) (auto simp: add.assoc add.commute add.left_commute)
qed simp

lemma allReturned_iff: "allReturned ws \<longleftrightarrow> set ws \<subseteq> {Returned}"
  by (induction ws rule: allReturned.induct) auto

lemma started:
  assumes "k \<le> n" "j \<le> k"
  shows "fold (takeNext n) [0..<j] \<lparr>pl_nextIndex = 0, pl_workers = replicate k Returned, pl_results = r, pl_state = s\<rparr>
    = \<lparr>pl_nextIndex = j, pl_workers = map Awaiting [0..<j] @ replicate (k - j) Returned, pl_results = r, pl_state = s\<rparr>"
  using assms(2)
proof (induction j)
  case (Suc j)
  then have "replicate (k - j) (Returned :: 'a Worker) = Returned # replicate (k - Suc j) Returned"
    by (metis Suc_diff_Suc Suc_le_lessD replicate_Suc)
  with Suc assms(1) show ?case by (simp add: takeNext_def list_update_append)
qed simp

lemma start_inv:
  fixes task :: "('e, 'r, 's) task"
  assumes "k \<le> n" "0 < k"
  shows "pool_inv task n s [] (startPool n k s)"
proof -
  have start: "(startPool n k s :: ('r, 's) Pool) = \<lparr>pl_nextIndex = k, pl_workers = map Awaiting [0..<k], pl_results = replicate n None, pl_state = s\<rparr>"
    using started [OF assms(1) order_refl] by (simp add: startPool_def)
  have "in_flight (map (Awaiting :: nat \<Rightarrow> 'r Worker) xs) = xs" for xs by (induction xs) simp_all
  then show ?thesis unfolding start pool_inv_def using assms by auto
qed

lemma workers_count: "concurrency \<noteq> NaN \<Longrightarrow> 0 < n \<Longrightarrow> 0 < workerCount concurrency n \<and> workerCount concurrency n \<le> n"
  by (auto simp: workerCount_def split: jsnum.splits)

lemma order_below: "pool_inv task n s order p \<Longrightarrow> (i, v) \<in> set order \<Longrightarrow> i < pl_nextIndex p \<and> (\<forall>u. (i, u) \<in> set order \<longrightarrow> u = v)"
proof -
  assume inv: "pool_inv task n s order p" and i: "(i, v) \<in> set order"
  have eq: "mset (map fst order) + mset (in_flight (pl_workers p)) = mset [0..<pl_nextIndex p]" using inv by (simp add: pool_inv_def)
  have "i \<in># mset (map fst order)" using i by force
  then have "i \<in># mset [0..<pl_nextIndex p]" unfolding eq [symmetric] by simp
  moreover have "mset (map fst order @ in_flight (pl_workers p)) = mset [0..<pl_nextIndex p]" using eq by simp
  then have "distinct (map fst order @ in_flight (pl_workers p))" by (metis distinct_upt mset_eq_imp_distinct_iff)
  then have "distinct (map fst order)" by simp
  then have "\<forall>u. (i, u) \<in> set order \<longrightarrow> u = v" using i eq_key_imp_eq_value by fast
  ultimately show ?thesis by simp
qed

lemma settle_inv:
  assumes inv: "pool_inv task n s order p" and w: "w < length (pl_workers p)" "pl_workers p ! w = Awaiting i"
    and t: "task i (pl_state p) = Inr (v, s')"
  shows "pool_inv task n s (order @ [(i, v)]) (p\<lparr>pl_workers := (pl_workers p)[w := Settled i v], pl_state := s'\<rparr>)"
proof -
  let ?ws = "(pl_workers p)[w := Settled i v]"
  have "mset (in_flight (pl_workers p)) = mset (in_flight ?ws) + {#i#}"
    using in_flight_update [OF w(1), of "Settled i v"] w(2) by simp
  moreover have "mset (map fst order) + mset (in_flight (pl_workers p)) = mset [0..<pl_nextIndex p]"
    using inv by (simp add: pool_inv_def)
  ultimately have count: "mset (map fst (order @ [(i, v)])) + mset (in_flight ?ws) = mset [0..<pl_nextIndex p]"
    by (simp add: ac_simps)
  have kept: "Settled j u \<in> set ?ws" if "Settled j u \<in> set (pl_workers p)" for j u
  proof -
    from that obtain x where "x < length (pl_workers p)" "pl_workers p ! x = Settled j u" by (auto simp: in_set_conv_nth)
    moreover from this w(2) have "x \<noteq> w" by auto
    ultimately show ?thesis by (metis length_list_update nth_list_update_neq nth_mem)
  qed
  have own: "Settled i v \<in> set ?ws" using w(1) by (simp add: set_update_memI)
  have old: "x = Settled i v \<or> x \<in> set (pl_workers p)" if "x \<in> set ?ws" for x
    using that set_update_subset_insert by fastforce
  have "\<forall>(j, u) \<in> set (order @ [(i, v)]). pl_results p ! j = Some u \<or> Settled j u \<in> set ?ws"
    using inv kept own by (auto simp: pool_inv_def)
  moreover have "Settled j u \<in> set ?ws \<longrightarrow> (j, u) \<in> set (order @ [(i, v)])" for j u
    using inv old by (auto simp: pool_inv_def)
  moreover have "Returned \<in> set ?ws \<longrightarrow> pl_nextIndex p = n" using inv old by (auto simp: pool_inv_def)
  moreover have "settled_in task s (order @ [(i, v)]) s'" using inv t settled_snoc unfolding pool_inv_def by fast
  ultimately show ?thesis using inv count unfolding pool_inv_def by simp
qed

lemma goes_on_inv:
  assumes inv: "pool_inv task n s order p" and w: "w < length (pl_workers p)" "pl_workers p ! w = Settled i v"
  shows "pool_inv task n s order (takeNext n w (p\<lparr>pl_results := (pl_results p)[i := Some v]\<rparr>))"
proof -
  let ?p = "takeNext n w (p\<lparr>pl_results := (pl_results p)[i := Some v]\<rparr>)"
  have iv: "(i, v) \<in> set order" using inv w by (metis nth_mem pool_inv_def)
  note below = order_below [OF inv iv]
  have len: "i < length (pl_results p)" using below inv by (simp add: pool_inv_def)
  obtain x where x: "pl_workers ?p = (pl_workers p)[w := x]" "x = Returned \<and> pl_nextIndex ?p = n \<or> x = Awaiting (pl_nextIndex p)"
      "mset [0..<pl_nextIndex ?p] = mset [0..<pl_nextIndex p] + mset (awaited x)" "pl_nextIndex ?p \<le> n"
    using inv by (cases "pl_nextIndex p < n") (auto simp: takeNext_def pool_inv_def)
  have same: "pl_results ?p = (pl_results p)[i := Some v]" "pl_state ?p = pl_state p" by (simp_all add: takeNext_def)
  have "mset (in_flight (pl_workers ?p)) = mset (in_flight (pl_workers p)) + mset (awaited x)"
    using in_flight_update [OF w(1), of x] w(2) x(1) by simp
  then have count: "mset (map fst order) + mset (in_flight (pl_workers ?p)) = mset [0..<pl_nextIndex ?p]"
    using inv x(3) by (simp add: pool_inv_def)
  have "pl_results ?p ! j = Some u \<or> Settled j u \<in> set (pl_workers ?p)" if ju: "(j, u) \<in> set order" for j u
  proof (cases "j = i")
    case True
    with below ju have "u = v" by blast
    with True len same(1) show ?thesis by simp
  next
    case False
    from inv ju have "pl_results p ! j = Some u \<or> Settled j u \<in> set (pl_workers p)" by (auto simp: pool_inv_def)
    moreover have "Settled j u \<in> set ((pl_workers p)[w := x])" if "Settled j u \<in> set (pl_workers p)"
    proof -
      from that obtain y where "y < length (pl_workers p)" "pl_workers p ! y = Settled j u" by (auto simp: in_set_conv_nth)
      moreover from this w(2) False have "y \<noteq> w" by auto
      ultimately show ?thesis by (metis length_list_update nth_list_update_neq nth_mem)
    qed
    ultimately show ?thesis using False same(1) x(1) by auto
  qed
  moreover have old: "y \<in> set (pl_workers ?p) \<Longrightarrow> y = x \<or> y \<in> set (pl_workers p)" for y
    using set_update_subset_insert [of "pl_workers p" w x] x(1) by auto
  then have "Settled j u \<in> set (pl_workers ?p) \<longrightarrow> (j, u) \<in> set order" for j u
    using inv x(2) by (auto simp: pool_inv_def)
  moreover have "Returned \<in> set (pl_workers ?p) \<longrightarrow> pl_nextIndex ?p = n"
  proof
    assume "Returned \<in> set (pl_workers ?p)"
    with old have "Returned = x \<or> Returned \<in> set (pl_workers p)" by blast
    then show "pl_nextIndex ?p = n" using x(2) inv by (auto simp: pool_inv_def takeNext_def)
  qed
  ultimately show ?thesis
    using count x(4) same inv by (auto simp: pool_inv_def)
qed

text \<open>Whatever the events, the invariant holds with some order of settling.\<close>

lemma step_inv:
  assumes "pool_inv task n s order p" "poolStep task n ev p = Inr p'"
  shows "\<exists>order'. pool_inv task n s order' p'"
proof (cases ev)
  case (Settles w)
  with assms show ?thesis
    by (auto split: if_splits Worker.splits sum.splits prod.splits intro: settle_inv)
next
  case (GoesOn w)
  with assms show ?thesis
    by (auto split: if_splits Worker.splits intro: goes_on_inv)
qed

lemma step_workers: "poolStep task n ev p = Inr p' \<Longrightarrow> length (pl_workers p') = length (pl_workers p)"
  by (cases ev) (auto simp: takeNext_def split: if_splits Worker.splits sum.splits prod.splits)

definition ran_once :: "('e, 'r, 's) task \<Rightarrow> nat \<Rightarrow> 's \<Rightarrow> (nat \<times> 'r) list \<Rightarrow> 'r option list \<Rightarrow> 's \<Rightarrow> bool" where
  "ran_once task n s order results s' \<longleftrightarrow> mset (map fst order) = mset [0..<n] \<and> settled_in task s order s'
     \<and> length results = n \<and> (\<forall>(i, v) \<in> set order. results ! i = Some v)"

lemma done_once:
  assumes inv: "pool_inv task n s order p" and ws: "pl_workers p \<noteq> []" "allReturned (pl_workers p)"
    and r: "Some (Inr (pl_results p, pl_state p)) = Some (Inr (results, s'))"
  shows "ran_once task n s order results s'"
proof -
  have all: "set (pl_workers p) = {Returned}" using ws by (cases "pl_workers p") (auto simp: allReturned_iff)
  have flown: "mset (in_flight (pl_workers p)) = {#}" using all by (auto simp: concat_eq_Nil_conv)
  have res: "\<forall>(i, v) \<in> set order. results ! i = Some v" using inv all r by (auto simp: pool_inv_def)
  have "pl_nextIndex p = n" using inv all by (simp add: pool_inv_def)
  moreover have "mset (map fst order) + mset (in_flight (pl_workers p)) = mset [0..<pl_nextIndex p]"
    using inv unfolding pool_inv_def by blast
  ultimately have "mset (map fst order) = mset [0..<n]" by (simp only: flown add_0_right)
  moreover have "settled_in task s order (pl_state p)" "length (pl_results p) = n" using inv unfolding pool_inv_def by blast+
  ultimately show ?thesis using r res unfolding ran_once_def by blast
qed

lemma run_once:
  assumes "pool_inv task n s order p" "pl_workers p \<noteq> []" "poolRun task n events p = Some (Inr (results, s'))"
  shows "\<exists>order. ran_once task n s order results s'"
  using assms
proof (induction events arbitrary: order p)
  case Nil
  then show ?case by (auto intro: done_once split: if_splits)
next
  case (Cons ev evs)
  show ?case
  proof (cases "allReturned (pl_workers p)")
    case False
    with Cons.prems(3) obtain p' where p': "poolStep task n ev p = Inr p'" "poolRun task n evs p' = Some (Inr (results, s'))"
      by (auto split: sum.splits)
    from step_inv [OF Cons.prems(1) p'(1)] step_workers [OF p'(1)] Cons.IH [OF _ _ p'(2)] Cons.prems(2) show ?thesis
      by (metis length_0_conv)
  qed (use Cons.prems in \<open>auto intro: done_once\<close>)
qed

text \<open>Tasks run exactly once, in some order, and every result stands at the index of its task.\<close>

lemma pool_runs_each_once:
  fixes task :: "('e, 'r, 's) task"
  assumes "runPool task n concurrency events s = Some (Inr (results, s'))" "concurrency \<noteq> NaN"
  shows "\<exists>order. ran_once task n s order results s'"
proof (cases "n = 0")
  case True
  with assms(1) show ?thesis by (intro exI [of _ "[]"]) (auto simp: runPool_def ran_once_def)
next
  case False
  then have k: "0 < workerCount concurrency n" "workerCount concurrency n \<le> n" using workers_count [OF assms(2)] by auto
  have "pl_workers (startPool n (workerCount concurrency n) s :: ('r, 's) Pool) \<noteq> []"
    using started [OF k(2) order_refl, where ?'a = 'r and ?'b = 's] k(1) by (simp add: startPool_def)
  with run_once [OF start_inv [OF k(2,1)]] assms(1) False show ?thesis by (simp add: runPool_def)
qed

section \<open>The pool can always finish\<close>

text \<open>Each event the pool waits for brings it nearer to its end.\<close>

fun work_left :: "'r Worker \<Rightarrow> nat" where
  "work_left (Awaiting i) = 2"
| "work_left (Settled i v) = 1"
| "work_left Returned = 0"

definition pool_left :: "nat \<Rightarrow> ('r, 's) Pool \<Rightarrow> nat" where
  "pool_left n p = 2 * (n - pl_nextIndex p) + sum_list (map work_left (pl_workers p))"

lemma work_update: "w < length ws \<Longrightarrow> sum_list (map work_left (ws[w := x])) + work_left (ws ! w) = sum_list (map work_left ws) + work_left x"
proof (induction ws arbitrary: w)
  case (Cons y ws)
  then show ?case by (cases w) auto
qed simp

lemma event_progress:
  assumes "\<not> allReturned (pl_workers p)"
  shows "\<exists>ev. case poolStep task n ev p of Inl e \<Rightarrow> True | Inr p' \<Rightarrow> pool_left n p' < pool_left n p"
proof -
  obtain w where w: "w < length (pl_workers p)" "pl_workers p ! w \<noteq> Returned"
    using assms unfolding allReturned_iff by (metis in_set_conv_nth insertCI subsetI)
  show ?thesis
  proof (cases "pl_workers p ! w")
    case (Awaiting i)
    have "pool_left n (p\<lparr>pl_workers := (pl_workers p)[w := Settled i v], pl_state := s\<rparr>) < pool_left n p" for v s
      using work_update [OF w(1), of "Settled i v"] Awaiting by (simp add: pool_left_def)
    with w(1) Awaiting show ?thesis by (intro exI [of _ "Settles w"]) (auto split: sum.splits)
  next
    case (Settled i v)
    with w have "pool_left n (takeNext n w (p\<lparr>pl_results := (pl_results p)[i := Some v]\<rparr>)) < pool_left n p"
      using work_update [OF w(1), of "Awaiting (pl_nextIndex p)"] work_update [OF w(1), of Returned]
      by (auto simp: pool_left_def takeNext_def)
    with w Settled show ?thesis by (intro exI [of _ "GoesOn w"]) simp
  qed (use w in simp)
qed

lemma run_can_finish: "\<exists>more. poolRun task n more p \<noteq> None"
proof (induction "pool_left n p" arbitrary: p rule: less_induct)
  case less
  show ?case
  proof (cases "allReturned (pl_workers p)")
    case True
    then have "poolRun task n [] p \<noteq> None" by simp
    then show ?thesis by blast
  next
    case False
    from event_progress [OF this, where task = task and n = n] obtain ev where
      ev: "case poolStep task n ev p of Inl e \<Rightarrow> True | Inr p' \<Rightarrow> pool_left n p' < pool_left n p" by blast
    show ?thesis
    proof (cases "poolStep task n ev p")
      case (Inl e)
      with False have "poolRun task n [ev] p \<noteq> None" by simp
      then show ?thesis by blast
    next
      case (Inr p')
      with ev have "pool_left n p' < pool_left n p" by simp
      from less [OF this] obtain more where "poolRun task n more p' \<noteq> None" by blast
      with False Inr have "poolRun task n (ev # more) p \<noteq> None" by simp
      then show ?thesis by blast
    qed
  qed
qed

text \<open>Whatever has happened so far, the promise of the pool can still settle.\<close>

lemma pool_can_finish: "\<exists>more. runPool task n concurrency (events @ more) s \<noteq> None"
proof -
  have "\<exists>more. poolRun task n (events @ more) p \<noteq> None" for p
  proof (induction events arbitrary: p)
    case Nil
    then show ?case using run_can_finish by simp
  next
    case (Cons ev events)
    then show ?case by (cases "poolStep task n ev p") auto
  qed
  then show ?thesis by (simp add: runPool_def)
qed

end
