(* ===== verification/Roadmap_Graph.thy ===== *)
theory Roadmap_Graph
  imports Dependency_Grammar Loop_Types Task_Pool
begin

text \<open>
  The dependency graph of the roadmap planner, \<open>core/scripts/roadmap/depgraph.ts\<close>: dependency candidates from
  declared phrases, shared files and imports, their ranking, the verification of each candidate by a harness,
  and the layering of the issues by \<open>topoSort\<close>. The harness, the files and \<open>JSON.parse\<close> are parameters; log
  lines are left out, and an arrow in a message is written as a hyphen and a greater-than sign.
\<close>

section \<open>The inventory and the graph\<close>

type_synonym IssueNumber = int

record Issue =
  is_number :: IssueNumber
  is_title :: string
  is_body :: string
  is_labels :: "string list"

record InventoryItem =
  iv_issue :: Issue
  iv_touched_files :: "string list"

record DepEdge =
  de_from :: IssueNumber
  de_to :: IssueNumber
  de_file_line :: string
  de_rationale :: string

record CycleReport =
  cr_issues :: "IssueNumber list"
  cr_description :: string

record OpenQuestion =
  oq_description :: string
  oq_related_issues :: "IssueNumber list"
  oq_rationale :: "string option"

text \<open>The members of \<open>DepGraph\<close> that this phase writes; the others stay empty until later phases.\<close>

record DepGraph =
  dg_must_precede :: "DepEdge list"
  dg_should_precede :: "DepEdge list"
  dg_cycle_reports :: "CycleReport list"
  dg_open_questions :: "OpenQuestion list"

type_synonym candidate = "IssueNumber \<times> IssueNumber"

abbreviation number_of :: "InventoryItem \<Rightarrow> IssueNumber" where
  "number_of item \<equiv> is_number (iv_issue item)"

section \<open>Candidates\<close>

text \<open>A candidate is a pair of a prerequisite and its depender. The sets \<open>seen\<close> and \<open>existing\<close> hold the keys
  of pairs; the decimal numerals on both sides of the colon make the key of a pair unique, so the sets are
  modelled on the pairs.\<close>

definition textOf :: "InventoryItem \<Rightarrow> string" where
  "textOf item = is_title (iv_issue item) @ [CHR 0x0A] @ is_body (iv_issue item)"

definition findTextualDepCandidates :: "InventoryItem list \<Rightarrow> candidate list" where
  "findTextualDepCandidates items =
     fold (\<lambda>item cands.
       fold (\<lambda>depId cands.
           let depNum = int (digits_val depId 0)
           in if depNum \<notin> set (map number_of items) \<or> depNum = number_of item then cands
              else if (depNum, number_of item) \<in> set cands then cands
              else cands @ [(depNum, number_of item)])
         (parseDeclaredDependencyIds (textOf item) (Some (show_int (number_of item)))) cands)
       items []"

definition sharedFilesOf :: "InventoryItem \<Rightarrow> InventoryItem \<Rightarrow> string list" where
  "sharedFilesOf a b = filter (\<lambda>f. f \<in> set (iv_touched_files b)) (iv_touched_files a)"

text \<open>Adding the two directions of a pair: the state is the set of existing pairs and the new candidates.\<close>

definition addCandidate :: "candidate \<Rightarrow> candidate set \<times> candidate list \<Rightarrow> candidate set \<times> candidate list" where
  "addCandidate p st = (if p \<in> fst st then st else (insert p (fst st), snd st @ [p]))"

definition addBothWays :: "IssueNumber \<Rightarrow> IssueNumber \<Rightarrow> candidate set \<times> candidate list \<Rightarrow> candidate set \<times> candidate list" where
  "addBothWays a b st = addCandidate (b, a) (addCandidate (a, b) st)"

definition findFileBasedDepCandidates :: "InventoryItem list \<Rightarrow> candidate list \<Rightarrow> candidate list" where
  "findFileBasedDepCandidates items existing =
     snd (fold (\<lambda>(a, b) st. if sharedFilesOf a b = [] then st else addBothWays (number_of a) (number_of b) st)
       (pairs_of items) (set existing, []))"

text \<open>The stem of a path: the last extension and everything up to the last slash of the first line that has
  one are removed; a dot of a regular expression does not match a line break.\<close>

definition stripExtension :: "string \<Rightarrow> string" where
  "stripExtension s =
     (let r = rev s; ext = takeWhile (\<lambda>c. c \<noteq> CHR ''.'' \<and> c \<noteq> CHR ''/'') r; rest = dropWhile (\<lambda>c. c \<noteq> CHR ''.'' \<and> c \<noteq> CHR ''/'') r
      in case rest of c # cs \<Rightarrow> if c = CHR ''.'' \<and> ext \<noteq> [] then rev cs else s | [] \<Rightarrow> s)"

definition line_break :: "char \<Rightarrow> bool" where
  "line_break c \<longleftrightarrow> c = CHR 0x0A \<or> c = CHR 0x0D"

function stripDirectory :: "string \<Rightarrow> string" where
  "stripDirectory s =
     (let line = takeWhile (\<lambda>c. \<not> line_break c) s; rest = dropWhile (\<lambda>c. \<not> line_break c) s
      in if CHR ''/'' \<in> set line then rev (takeWhile (\<lambda>c. c \<noteq> CHR ''/'') (rev line)) @ rest
         else line @ (case rest of [] \<Rightarrow> [] | c # cs \<Rightarrow> c # stripDirectory cs))"
  by pat_completeness auto
termination
proof (relation "measure length")
  fix s line rest and c :: char and cs
  assume "rest = dropWhile (\<lambda>c. \<not> line_break c) s" "rest = c # cs"
  then have "length (c # cs) \<le> length s"
    using length_dropWhile_le [of "\<lambda>c. \<not> line_break c" s] by simp
  then show "(cs, s) \<in> measure length" by simp
qed simp

declare stripDirectory.simps [simp del]

definition stemOf :: "string \<Rightarrow> string" where
  "stemOf path = stripDirectory (stripExtension path)"

definition stemToIssues :: "InventoryItem list \<Rightarrow> (string \<times> IssueNumber list) list" where
  "stemToIssues items =
     fold (\<lambda>(f, n) m. if stemOf f = [] then m
        else AList.update (stemOf f) (orElse (map_of m (stemOf f)) [] @ [n]) m)
       (concat (map (\<lambda>item. map (\<lambda>f. (f, number_of item)) (iv_touched_files item)) items)) []"

text \<open>The import expression. Each alternative ends at a quote, which neither white space nor the body of the
  specifier can match, so no match needs backtracking.\<close>

definition is_quote :: "char \<Rightarrow> bool" where
  "is_quote c \<longleftrightarrow> c = CHR 0x27 \<or> c = CHR 0x22"

definition quotedBody :: "string \<Rightarrow> (string \<times> string) option" where
  "quotedBody s =
     (case s of [] \<Rightarrow> None
      | q # t \<Rightarrow> (let body = takeWhile (\<lambda>c. \<not> is_quote c) t; rest = dropWhile (\<lambda>c. \<not> is_quote c) t
                 in if is_quote q \<and> body \<noteq> [] \<and> rest \<noteq> [] then Some (body, tl rest) else None))"

definition keywordImport :: "string \<Rightarrow> string \<Rightarrow> (string \<times> string) option" where
  "keywordImport kw s =
     (let t = drop (length kw) s
      in if js_startsWith s kw \<and> (case t of [] \<Rightarrow> False | c # _ \<Rightarrow> js_space c) then quotedBody (dropWhile js_space t) else None)"

definition requireImport :: "string \<Rightarrow> (string \<times> string) option" where
  "requireImport s =
     (if js_startsWith s ''require''
      then (case dropWhile js_space (drop 7 s) of
              c # t \<Rightarrow> if c = CHR ''('' then quotedBody (dropWhile js_space t) else None
            | [] \<Rightarrow> None)
      else None)"

definition importHere :: "string \<Rightarrow> (string \<times> string) option" where
  "importHere s = (case keywordImport ''from'' s of Some m \<Rightarrow> Some m
     | None \<Rightarrow> (case keywordImport ''import'' s of Some m \<Rightarrow> Some m | None \<Rightarrow> requireImport s))"

lemma quotedBody_length: "quotedBody s = Some (b, t) \<Longrightarrow> length t < length s"
proof -
  assume a: "quotedBody s = Some (b, t)"
  then obtain q u where s: "s = q # u" and t: "t = tl (dropWhile (\<lambda>c. \<not> is_quote c) u)"
    by (auto simp: quotedBody_def Let_def split: list.splits if_splits)
  have "length t \<le> length u"
    unfolding t using length_dropWhile_le [of "\<lambda>c. \<not> is_quote c" u] by simp
  with s show ?thesis by simp
qed

lemma importHere_length:
  assumes "importHere s = Some (b, t)"
  shows "length t < length s"
proof -
  have le: "length (dropWhile js_space u) \<le> length u" for u by (rule length_dropWhile_le)
  have kw: "length t < length s" if "keywordImport kw s = Some (b, t)" for kw
    using that quotedBody_length [of "dropWhile js_space (drop (length kw) s)" b t] le [of "drop (length kw) s"]
    by (auto simp: keywordImport_def Let_def split: if_splits)
  have rq: "length t < length s" if "requireImport s = Some (b, t)"
  proof -
    from that obtain c u where u: "dropWhile js_space (drop 7 s) = c # u" "quotedBody (dropWhile js_space u) = Some (b, t)"
      by (auto simp: requireImport_def split: if_splits list.splits)
    then show ?thesis
      using quotedBody_length [OF u(2)] le [of u] le [of "drop 7 s"] by simp
  qed
  show ?thesis
    using assms kw rq by (auto simp: importHere_def split: option.splits)
qed

function importsOf :: "string \<Rightarrow> string list" where
  "importsOf s = (case s of [] \<Rightarrow> []
     | c # rest \<Rightarrow> (case importHere s of None \<Rightarrow> importsOf rest | Some (spec, t) \<Rightarrow> spec # importsOf t))"
  by pat_completeness auto
termination
  by (relation "measure length") (auto dest: importHere_length)

declare importsOf.simps [simp del]

text \<open>Where a file is read: while the item at a position is scanned, or for the prompt of a task.\<close>

datatype read_at = ScanOf nat | PromptOf nat

record DepgraphDeps =
  dd_runHarness :: "nat \<Rightarrow> string \<Rightarrow> (bool \<times> string) result"
  dd_readFile :: "read_at \<Rightarrow> string \<Rightarrow> string option result"

definition importCandidates :: "(string \<times> IssueNumber list) list \<Rightarrow> IssueNumber \<Rightarrow> string \<Rightarrow> candidate set \<times> candidate list
    \<Rightarrow> candidate set \<times> candidate list" where
  "importCandidates stems n content st =
     fold (\<lambda>other st. if other = n then st else addBothWays other n st)
       (concat (map (\<lambda>p. if stemOf p = [] then [] else orElse (map_of stems (stemOf p)) []) (importsOf content))) st"

fun scanFiles :: "DepgraphDeps \<Rightarrow> (string \<times> IssueNumber list) list \<Rightarrow> (nat \<times> IssueNumber \<times> string) list
    \<Rightarrow> candidate set \<times> candidate list \<Rightarrow> (candidate set \<times> candidate list) result" where
  "scanFiles deps stems [] st = Inr st"
| "scanFiles deps stems ((k, n, f) # rest) st =
     (case dd_readFile deps (ScanOf k) f of
        Inl e \<Rightarrow> Inl e
      | Inr content \<Rightarrow> scanFiles deps stems rest (if truthy content then importCandidates stems n (the content) st else st))"

definition findCrossFileDepCandidates :: "InventoryItem list \<Rightarrow> candidate list \<Rightarrow> DepgraphDeps \<Rightarrow> candidate list result" where
  "findCrossFileDepCandidates items existing deps =
     map_sum id snd (scanFiles deps (stemToIssues items)
       (concat (map (\<lambda>(k, item). map (\<lambda>f. (k, number_of item, f)) (take 5 (iv_touched_files item))) (enumerate 0 items)))
       (set existing, []))"

section \<open>Layers\<close>

text \<open>The map of in-degrees and the map of successors are built together; an edge with an end outside the
  issues is skipped.\<close>

type_synonym degrees = "IssueNumber \<rightharpoonup> int"
type_synonym successors = "IssueNumber \<rightharpoonup> IssueNumber list"

definition countEdge :: "DepEdge \<Rightarrow> degrees \<times> successors \<Rightarrow> degrees \<times> successors" where
  "countEdge edge st =
     (case st of (inDegree, outEdges) \<Rightarrow>
        if inDegree (de_from edge) = None \<or> inDegree (de_to edge) = None then st
        else (inDegree(de_to edge \<mapsto> orElse (inDegree (de_to edge)) 0 + 1),
              outEdges(de_from edge \<mapsto> orElse (outEdges (de_from edge)) [] @ [de_to edge])))"

definition adjacency :: "IssueNumber list \<Rightarrow> DepEdge list \<Rightarrow> degrees \<times> successors" where
  "adjacency issueNumbers mustPrecede =
     fold countEdge mustPrecede (\<lambda>n. if n \<in> set issueNumbers then Some 0 else None,
                                 \<lambda>n. if n \<in> set issueNumbers then Some [] else None)"

definition releaseSuccessors :: "successors \<Rightarrow> IssueNumber \<Rightarrow> degrees \<Rightarrow> degrees" where
  "releaseSuccessors outEdges n inDegree =
     fold (\<lambda>succ d. d(succ \<mapsto> orElse (d succ) 0 - 1)) (orElse (outEdges n) []) inDegree"

definition cycleReport :: "IssueNumber list \<Rightarrow> CycleReport" where
  "cycleReport cycleNodes =
     \<lparr>cr_issues = cycleNodes,
      cr_description = ''Cycle detected among issues: '' @ js_join '', '' (map (\<lambda>n. CHR ''#'' # show_int n) cycleNodes)
        @ ''. Cannot determine a definitive ordering.''\<rparr>"

definition readyNodes :: "degrees \<Rightarrow> IssueNumber list \<Rightarrow> IssueNumber list" where
  "readyNodes inDegree remaining = filter (\<lambda>n. orElse (inDegree n) 0 = 0) remaining"

function topoLoop :: "successors \<Rightarrow> IssueNumber list \<Rightarrow> degrees \<Rightarrow> IssueNumber list list \<Rightarrow> IssueNumber list list \<times> CycleReport list" where
  "topoLoop outEdges remaining inDegree tiers =
     (if remaining = [] then (tiers, [])
      else (let tier = js_sort (\<lambda>a b. a - b) (readyNodes inDegree remaining)
            in if tier = [] then (tiers @ [remaining], [cycleReport remaining])
               else topoLoop outEdges (filter (\<lambda>n. n \<notin> set tier) remaining)
                      (fold (releaseSuccessors outEdges) tier inDegree) (tiers @ [tier])))"
  by pat_completeness auto
termination
proof (relation "measure (\<lambda>(out, remaining, d, tiers). length remaining)")
  fix out and remaining :: "IssueNumber list" and d tiers tier
  assume t: "tier = js_sort (\<lambda>a b. a - b) (readyNodes d remaining)" "tier \<noteq> []"
  from t(2) obtain n where "n \<in> set tier" by (meson last_in_set)
  then have "n \<in> set remaining" "n \<in> set tier" using t(1) by (auto simp: readyNodes_def)
  then have "length (filter (\<lambda>n. n \<notin> set tier) remaining) < length remaining"
    by (intro length_filter_less [of n]) auto
  then show "((out, filter (\<lambda>n. n \<notin> set tier) remaining, fold (releaseSuccessors out) tier d, tiers @ [tier]),
      out, remaining, d, tiers) \<in> measure (\<lambda>(out, remaining, d, tiers). length remaining)" by simp
qed simp

declare topoLoop.simps [simp del]

definition topoSort :: "IssueNumber list \<Rightarrow> DepEdge list \<Rightarrow> IssueNumber list list \<times> CycleReport list" where
  "topoSort issueNumbers mustPrecede =
     (case adjacency issueNumbers mustPrecede of (inDegree, outEdges) \<Rightarrow>
        topoLoop outEdges (uniq issueNumbers) inDegree [])"

definition addMustPrecedeEdges :: "DepGraph \<Rightarrow> DepEdge list \<Rightarrow> IssueNumber list \<Rightarrow> DepGraph" where
  "addMustPrecedeEdges graph newEdges allIssues =
     (let combined = dg_must_precede graph @ newEdges
      in graph\<lparr>dg_must_precede := combined, dg_cycle_reports := snd (topoSort allIssues combined)\<rparr>)"

section \<open>Ranking\<close>

datatype CandidateSource = Textual | SharedFile | CrossFile

primrec SOURCE_PRIORITY :: "CandidateSource \<Rightarrow> int" where
  "SOURCE_PRIORITY Textual = 0"
| "SOURCE_PRIORITY SharedFile = 1"
| "SOURCE_PRIORITY CrossFile = 2"

record TaggedCandidate =
  tc_pair :: candidate
  tc_source :: CandidateSource
  tc_sharedFileCount :: int

text \<open>A \<open>Map\<close> built from a list of entries keeps the last value of a key.\<close>

definition itemByNumber :: "InventoryItem list \<Rightarrow> IssueNumber \<Rightarrow> InventoryItem option" where
  "itemByNumber items n = find_last (\<lambda>i. number_of i = n) items"

definition sharedFileCount :: "InventoryItem list \<Rightarrow> IssueNumber \<Rightarrow> IssueNumber \<Rightarrow> int" where
  "sharedFileCount items a b =
     (let filesA = orElse (map_option iv_touched_files (itemByNumber items a)) [];
          filesB = orElse (map_option iv_touched_files (itemByNumber items b)) []
      in int (length (filter (\<lambda>f. f \<in> set filesB) filesA)))"

definition addTagged :: "InventoryItem list \<Rightarrow> candidate \<times> CandidateSource \<Rightarrow> (candidate \<times> TaggedCandidate) list
    \<Rightarrow> (candidate \<times> TaggedCandidate) list" where
  "addTagged items ps seen =
     (case ps of (pair, source) \<Rightarrow>
        (case map_of seen pair of
           Some existing \<Rightarrow>
             if SOURCE_PRIORITY source < SOURCE_PRIORITY (tc_source existing)
             then AList.update pair \<lparr>tc_pair = pair, tc_source = source, tc_sharedFileCount = sharedFileCount items (fst pair) (snd pair)\<rparr> seen
             else seen
         | None \<Rightarrow>
             AList.update pair \<lparr>tc_pair = pair, tc_source = source, tc_sharedFileCount = sharedFileCount items (fst pair) (snd pair)\<rparr> seen))"

definition compareCandidates :: "TaggedCandidate \<Rightarrow> TaggedCandidate \<Rightarrow> int" where
  "compareCandidates a b =
     (if SOURCE_PRIORITY (tc_source a) \<noteq> SOURCE_PRIORITY (tc_source b)
      then SOURCE_PRIORITY (tc_source a) - SOURCE_PRIORITY (tc_source b)
      else tc_sharedFileCount b - tc_sharedFileCount a)"

definition rankCandidates :: "candidate list \<Rightarrow> candidate list \<Rightarrow> candidate list \<Rightarrow> InventoryItem list \<Rightarrow> TaggedCandidate list" where
  "rankCandidates textual sharedFile crossFile items =
     js_sort compareCandidates (map snd (fold (addTagged items)
       (map (\<lambda>p. (p, Textual)) textual @ map (\<lambda>p. (p, SharedFile)) sharedFile @ map (\<lambda>p. (p, CrossFile)) crossFile) []))"

section \<open>Verification of the candidates\<close>

record DepVerifyResult =
  dv_edge_confirmed :: bool
  dv_file_line :: string
  dv_rationale :: string
  dv_is_strong :: bool

text \<open>The greedy expression takes the text from the first opening brace to the last closing one after it.\<close>

definition bracedText :: "string \<Rightarrow> string option" where
  "bracedText output =
     (let t = dropWhile (\<lambda>c. c \<noteq> CHR ''{'') output; r = dropWhile (\<lambda>c. c \<noteq> CHR ''}'') (rev t)
      in if t = [] \<or> r = [] then None else Some (rev r))"

definition parseDepVerifyResult :: "(string \<Rightarrow> jsval option) \<Rightarrow> string \<Rightarrow> DepVerifyResult option" where
  "parseDepVerifyResult jsonParse output =
     (case Option.bind (bracedText output) jsonParse of
        None \<Rightarrow> None
      | Some parsed \<Rightarrow>
          (case jprop parsed ''edge_confirmed'' of
             JBool confirmed \<Rightarrow>
               Some \<lparr>dv_edge_confirmed = confirmed,
                     dv_file_line = (if isString (jprop parsed ''file_line'') then strVal (jprop parsed ''file_line'') else []),
                     dv_rationale = (if isString (jprop parsed ''rationale'') then strVal (jprop parsed ''rationale'') else []),
                     dv_is_strong = (jprop parsed ''is_strong'' = JBool True)\<rparr>
           | _ \<Rightarrow> None))"

definition promptFiles :: "InventoryItem \<Rightarrow> InventoryItem \<Rightarrow> string list" where
  "promptFiles prerequisite depender =
     (let shared = sharedFilesOf prerequisite depender
      in take 5 (shared @ take 2 (filter (\<lambda>f. f \<notin> set shared) (iv_touched_files prerequisite))
                        @ take 2 (filter (\<lambda>f. f \<notin> set shared) (iv_touched_files depender))))"

fun readFiles :: "DepgraphDeps \<Rightarrow> nat \<Rightarrow> string list \<Rightarrow> string result" where
  "readFiles deps k [] = Inr []"
| "readFiles deps k (f # fs) =
     (case dd_readFile deps (PromptOf k) f of
        Inl e \<Rightarrow> Inl e
      | Inr content \<Rightarrow>
          map_sum id (\<lambda>more. (if truthy content
             then [CHR 0x0A] @ ''### '' @ f @ [CHR 0x0A] @ replicate 3 (CHR 0x60) @ [CHR 0x0A] @ take 3000 (the content)
                  @ [CHR 0x0A] @ replicate 3 (CHR 0x60) @ [CHR 0x0A]
             else []) @ more) (readFiles deps k fs))"

definition instructions :: string where
  "instructions =
     ''Look for: imports, type references, shared config keys, data migration ordering, API contracts.'' @ [CHR 0x0A]
     @ ''Return a JSON object:'' @ [CHR 0x0A]
     @ ''{'' @ quoted ''edge_confirmed'' @ '': boolean, '' @ quoted ''file_line'' @ '': '' @ quoted ''path/to/file.ts:42 or empty''
     @ '', '' @ quoted ''rationale'' @ '': '' @ quoted ''explanation'' @ '', '' @ quoted ''is_strong'' @ '': boolean}'' @ [CHR 0x0A, CHR 0x0A]
     @ ''edge_confirmed: true only when you find a concrete source-code coupling (an import, shared config key, data migration order, etc.).'' @ [CHR 0x0A]
     @ ''file_line: the specific file:line where the coupling is evident. Empty string if not confirmed.'' @ [CHR 0x0A]
     @ ''is_strong: true when the dependency is a hard prerequisite (must_precede); false when it is advisory (should_precede).'' @ [CHR 0x0A]
     @ ''Return raw JSON only, no prose.''"

definition issueTag :: "InventoryItem \<Rightarrow> string" where
  "issueTag item = CHR ''#'' # show_int (number_of item)"

definition buildDepVerifyPrompt :: "DepgraphDeps \<Rightarrow> nat \<Rightarrow> InventoryItem \<Rightarrow> InventoryItem \<Rightarrow> string result" where
  "buildDepVerifyPrompt deps k prerequisite depender =
     map_sum id (\<lambda>fileContents.
        ''You are analyzing whether issue '' @ issueTag depender @ '' depends on issue '' @ issueTag prerequisite
        @ '' (i.e., '' @ issueTag depender @ '' CANNOT be completed without '' @ issueTag prerequisite @ '').'' @ [CHR 0x0A, CHR 0x0A]
        @ ''## Prerequisite candidate ('' @ issueTag prerequisite @ ''): '' @ is_title (iv_issue prerequisite) @ [CHR 0x0A]
        @ take 1000 (is_body (iv_issue prerequisite)) @ [CHR 0x0A, CHR 0x0A]
        @ ''## Depender candidate ('' @ issueTag depender @ ''): '' @ is_title (iv_issue depender) @ [CHR 0x0A]
        @ take 1000 (is_body (iv_issue depender)) @ [CHR 0x0A, CHR 0x0A]
        @ (if fileContents \<noteq> [] then ''## Source files'' @ [CHR 0x0A] @ fileContents @ [CHR 0x0A, CHR 0x0A] else [])
        @ ''Determine if '' @ issueTag depender @ '' (depender) depends on '' @ issueTag prerequisite
        @ '' (prerequisite) by examining the source files.'' @ [CHR 0x0A] @ instructions)
       (readFiles deps k (promptFiles prerequisite depender))"

definition askQuestion :: "string \<Rightarrow> candidate \<Rightarrow> string \<Rightarrow> DepGraph \<Rightarrow> DepGraph" where
  "askQuestion description pair rationale graph =
     graph\<lparr>dg_open_questions := dg_open_questions graph @
       [\<lparr>oq_description = description, oq_related_issues = [fst pair, snd pair], oq_rationale = Some rationale\<rparr>]\<rparr>"

definition arrow :: "candidate \<Rightarrow> string" where
  "arrow pair = CHR ''#'' # show_int (fst pair) @ '' -> #'' @ show_int (snd pair)"

text \<open>What one verification task does to the graph once the harness has answered: a single synchronous block.\<close>

definition recordVerdict :: "(string \<Rightarrow> jsval option) \<Rightarrow> candidate \<Rightarrow> bool \<times> string \<Rightarrow> DepGraph \<Rightarrow> DepGraph" where
  "recordVerdict jsonParse pair answer graph =
     (if \<not> fst answer
      then askQuestion (''Could not verify dependency '' @ arrow pair @ '' (harness failed)'') pair
             ''harness failure during dep verification'' graph
      else (case parseDepVerifyResult jsonParse (snd answer) of
         None \<Rightarrow> askQuestion (''Could not parse dep-verify result for '' @ arrow pair) pair ''parse failure'' graph
       | Some verified \<Rightarrow>
           if \<not> dv_edge_confirmed verified
           then askQuestion (''Dependency '' @ arrow pair @ '' not source-verified'') pair
                  (if dv_rationale verified = [] then ''edge not source-verified'' else dv_rationale verified) graph
           else (let edge = \<lparr>de_from = fst pair, de_to = snd pair, de_file_line = dv_file_line verified,
                             de_rationale = dv_rationale verified\<rparr>
                 in if dv_is_strong verified then graph\<lparr>dg_must_precede := dg_must_precede graph @ [edge]\<rparr>
                    else graph\<lparr>dg_should_precede := dg_should_precede graph @ [edge]\<rparr>)))"

definition verifyTask :: "(string \<Rightarrow> jsval option) \<Rightarrow> InventoryItem list \<Rightarrow> DepgraphDeps \<Rightarrow> nat \<Rightarrow> candidate \<Rightarrow> DepGraph
    \<Rightarrow> DepGraph result" where
  "verifyTask jsonParse items deps k pair graph =
     (case (itemByNumber items (fst pair), itemByNumber items (snd pair)) of
        (Some prereq, Some depender) \<Rightarrow>
          (case buildDepVerifyPrompt deps k prereq depender of
             Inl e \<Rightarrow> Inl e
           | Inr prompt \<Rightarrow> map_sum id (\<lambda>answer. recordVerdict jsonParse pair answer graph) (dd_runHarness deps k prompt))
      | _ \<Rightarrow> Inr graph)"

text \<open>The tasks of the pool: a task touches the graph only in its last synchronous block, and returns nothing.\<close>

definition verifyTasks :: "(string \<Rightarrow> jsval option) \<Rightarrow> InventoryItem list \<Rightarrow> DepgraphDeps \<Rightarrow> TaggedCandidate list
    \<Rightarrow> (LoopError, unit, DepGraph) task" where
  "verifyTasks jsonParse items deps toVerify k graph =
     map_sum id (Pair ()) (verifyTask jsonParse items deps k (tc_pair (toVerify ! k)) graph)"

record DepgraphStats =
  ds_candidates_textual :: nat
  ds_candidates_shared_file :: nat
  ds_candidates_cross_file :: nat
  ds_verify_calls :: nat
  ds_verify_skipped :: nat

definition emptyGraph :: DepGraph where
  "emptyGraph = \<lparr>dg_must_precede = [], dg_should_precede = [], dg_cycle_reports = [], dg_open_questions = []\<rparr>"

definition cappedQuestions :: "TaggedCandidate list \<Rightarrow> DepGraph \<Rightarrow> DepGraph" where
  "cappedQuestions capped graph =
     fold (\<lambda>c. askQuestion (''Dependency candidate '' @ arrow (tc_pair c) @ '' not verified (ranked beyond cap)'')
              (tc_pair c) ''candidate ranked beyond verify cap'') capped graph"

text \<open>The phase as a promise: not settled while the pool is not, rejected with the first error of a harness or
  of a file, or the graph with its statistics. The events are those of the pool.\<close>

definition buildDepgraph :: "(string \<Rightarrow> jsval option) \<Rightarrow> PoolEvent list \<Rightarrow> InventoryItem list \<Rightarrow> DepgraphDeps
    \<Rightarrow> nat option \<Rightarrow> jsnum option \<Rightarrow> (DepGraph \<times> DepgraphStats) result option" where
  "buildDepgraph jsonParse events items deps depgraph_verify_cap depgraph_concurrency =
     (if items = [] then Some (Inr (emptyGraph, \<lparr>ds_candidates_textual = 0, ds_candidates_shared_file = 0,
         ds_candidates_cross_file = 0, ds_verify_calls = 0, ds_verify_skipped = 0\<rparr>))
      else (let textual = findTextualDepCandidates items;
                fileBased = findFileBasedDepCandidates items textual
            in case findCrossFileDepCandidates items (textual @ fileBased) deps of
                 Inl e \<Rightarrow> Some (Inl e)
               | Inr crossFile \<Rightarrow>
                   (let ranked = rankCandidates textual fileBased crossFile items;
                        verifyCap = orElse depgraph_verify_cap 20;
                        toVerify = take verifyCap ranked;
                        capped = drop verifyCap ranked
                    in map_option (map_sum id (\<lambda>(_, graph).
                         (graph\<lparr>dg_cycle_reports := snd (topoSort (map number_of items) (dg_must_precede graph))\<rparr>,
                          \<lparr>ds_candidates_textual = length textual, ds_candidates_shared_file = length fileBased,
                           ds_candidates_cross_file = length crossFile, ds_verify_calls = length toVerify,
                           ds_verify_skipped = length capped\<rparr>)))
                       (runPool (verifyTasks jsonParse items deps toVerify) (length toVerify) (orElse depgraph_concurrency (Fin 4)) events
                         (cappedQuestions capped emptyGraph)))))"

section \<open>The layers of an acyclic graph\<close>

definition edge_rel :: "IssueNumber set \<Rightarrow> DepEdge list \<Rightarrow> (IssueNumber \<times> IssueNumber) set" where
  "edge_rel V edges = {(de_from e, de_to e) |e. e \<in> set edges \<and> de_from e \<in> V \<and> de_to e \<in> V}"

definition edges_into :: "IssueNumber set \<Rightarrow> DepEdge list \<Rightarrow> IssueNumber set \<Rightarrow> IssueNumber \<Rightarrow> int" where
  "edges_into V edges R n = int (length (filter (\<lambda>e. de_to e = n \<and> de_from e \<in> R \<and> de_from e \<in> V) edges))"

definition degrees_ok :: "IssueNumber set \<Rightarrow> DepEdge list \<Rightarrow> IssueNumber set \<Rightarrow> degrees \<Rightarrow> bool" where
  "degrees_ok V edges R d \<longleftrightarrow> d = (\<lambda>n. if n \<in> V then Some (edges_into V edges R n) else None)"

definition successors_ok :: "IssueNumber set \<Rightarrow> DepEdge list \<Rightarrow> successors \<Rightarrow> bool" where
  "successors_ok V edges out \<longleftrightarrow>
     out = (\<lambda>n. if n \<in> V then Some (map de_to (filter (\<lambda>e. de_from e = n \<and> de_to e \<in> V) edges)) else None)"

lemma adjacency_ok:
  "degrees_ok (set ns) edges (set ns) (fst (adjacency ns edges)) \<and> successors_ok (set ns) edges (snd (adjacency ns edges))"
proof (induction edges rule: rev_induct)
  case Nil
  show ?case by (simp add: adjacency_def degrees_ok_def successors_ok_def edges_into_def fun_eq_iff)
next
  case (snoc e es)
  have "adjacency ns (es @ [e]) = countEdge e (adjacency ns es)" by (simp add: adjacency_def)
  moreover have "adjacency ns es =
      (\<lambda>n. if n \<in> set ns then Some (edges_into (set ns) es (set ns) n) else None,
       \<lambda>n. if n \<in> set ns then Some (map de_to (filter (\<lambda>e. de_from e = n \<and> de_to e \<in> set ns) es)) else None)"
    using snoc by (cases "adjacency ns es") (simp add: degrees_ok_def successors_ok_def)
  ultimately show ?case
    by (simp add: countEdge_def degrees_ok_def successors_ok_def edges_into_def fun_eq_iff)
qed

lemma release_fold:
  "fold (\<lambda>succ d. d(succ \<mapsto> orElse (d succ) 0 - 1)) ss d
     = (\<lambda>n. if n \<in> set ss then Some (orElse (d n) 0 - int (count_list ss n)) else d n)"
  by (induction ss arbitrary: d) (auto simp: fun_eq_iff)

lemma count_successors: "n \<in> V \<Longrightarrow> int (count_list (map de_to (filter (\<lambda>e. de_from e = t \<and> de_to e \<in> V) edges)) n)
    = int (length (filter (\<lambda>e. de_to e = n \<and> de_from e = t) edges))"
  by (induction edges) auto

lemma edges_into_remove:
  "t \<in> R \<Longrightarrow> t \<in> V \<Longrightarrow>
   edges_into V edges (R - {t}) n = edges_into V edges R n - int (length (filter (\<lambda>e. de_to e = n \<and> de_from e = t) edges))"
  by (induction edges) (auto simp: edges_into_def)

lemma release_ok:
  assumes "degrees_ok V edges R d" "successors_ok V edges out" "t \<in> R" "t \<in> V"
  shows "degrees_ok V edges (R - {t}) (releaseSuccessors out t d)"
proof -
  let ?ss = "map de_to (filter (\<lambda>e. de_from e = t \<and> de_to e \<in> V) edges)"
  have r: "releaseSuccessors out t d = (\<lambda>n. if n \<in> set ?ss then Some (orElse (d n) 0 - int (count_list ?ss n)) else d n)"
    using assms(2,4) by (simp add: releaseSuccessors_def successors_ok_def release_fold)
  have "(if n \<in> set ?ss then Some (orElse (d n) 0 - int (count_list ?ss n)) else d n)
      = (if n \<in> V then Some (edges_into V edges (R - {t}) n) else None)" for n
  proof (cases "n \<in> V")
    case True
    then have d: "d n = Some (edges_into V edges R n)" using assms(1) by (simp add: degrees_ok_def)
    have "n \<notin> set ?ss \<Longrightarrow> int (count_list ?ss n) = 0" by simp
    then show ?thesis
      using d True count_successors [OF True, of t edges] edges_into_remove [OF assms(3,4), of edges n] by auto
  next
    case False
    then have "n \<notin> set ?ss" by auto
    with False assms(1) show ?thesis by (simp add: degrees_ok_def)
  qed
  with r show ?thesis by (simp add: degrees_ok_def)
qed

lemma release_tier:
  assumes "successors_ok V edges out"
  shows "degrees_ok V edges R d \<Longrightarrow> distinct ts \<Longrightarrow> set ts \<subseteq> R \<Longrightarrow> R \<subseteq> V
    \<Longrightarrow> degrees_ok V edges (R - set ts) (fold (releaseSuccessors out) ts d)"
proof (induction ts arbitrary: R d)
  case (Cons t ts)
  from Cons.prems have "degrees_ok V edges (R - {t}) (releaseSuccessors out t d)"
    by (intro release_ok assms) auto
  from Cons.IH [OF this] Cons.prems have "degrees_ok V edges (R - {t} - set ts) (fold (releaseSuccessors out) ts (releaseSuccessors out t d))"
    by auto
  moreover have "R - {t} - set ts = R - set (t # ts)" by auto
  ultimately show ?case by simp
qed simp

lemma ready_iff:
  assumes "degrees_ok V edges (set R) d" "set R \<subseteq> V"
  shows "n \<in> set (readyNodes d R) \<longleftrightarrow> n \<in> set R \<and> (\<forall>m \<in> set R. (m, n) \<notin> edge_rel V edges)"
proof -
  have "edges_into V edges (set R) n = 0 \<longleftrightarrow> (\<forall>m \<in> set R. (m, n) \<notin> edge_rel V edges)" if "n \<in> set R"
    using that assms(2) by (auto simp: edges_into_def edge_rel_def filter_empty_conv)
  then show ?thesis using assms by (auto simp: readyNodes_def degrees_ok_def)
qed
text \<open>What the loop leaves: the layers of the remaining nodes, with the reported nodes in the last one.\<close>

definition layered :: "(IssueNumber \<times> IssueNumber) set \<Rightarrow> IssueNumber set \<Rightarrow> IssueNumber list list \<Rightarrow> IssueNumber set \<Rightarrow> bool" where
  "layered E R tiers bad \<longleftrightarrow>
     distinct (concat tiers) \<and> set (concat tiers) = R \<and> bad \<subseteq> R
     \<and> (\<forall>m n i j. (m, n) \<in> E \<longrightarrow> i < length tiers \<longrightarrow> j < length tiers \<longrightarrow> m \<in> set (tiers ! i) \<longrightarrow> n \<in> set (tiers ! j) \<longrightarrow> n \<notin> bad \<longrightarrow> i < j)
     \<and> (\<forall>k n. Suc k < length tiers \<longrightarrow> n \<in> set (tiers ! Suc k) \<longrightarrow> n \<notin> bad \<longrightarrow> (\<exists>m \<in> set (tiers ! k). (m, n) \<in> E))
     \<and> (\<forall>n \<in> bad. n \<in> set (last tiers) \<and> (\<exists>m \<in> bad. (m, n) \<in> E))"

definition reported :: "CycleReport list \<Rightarrow> IssueNumber set" where
  "reported reports = (\<Union>r \<in> set reports. set (cr_issues r))"

lemma layered_Cons:
  assumes rest: "layered E (R - set tier) tiers bad" and d: "distinct tier" "set tier \<subseteq> R"
    and ready: "\<And>n. n \<in> set tier \<longleftrightarrow> n \<in> R \<and> (\<forall>m \<in> R. (m, n) \<notin> E)"
  shows "layered E R (tier # tiers) bad"
proof -
  have set: "set (concat tiers) = R - set tier" and fwd: "\<And>m n i j. \<lbrakk>(m, n) \<in> E; i < length tiers; j < length tiers;
      m \<in> set (tiers ! i); n \<in> set (tiers ! j); n \<notin> bad\<rbrakk> \<Longrightarrow> i < j"
    using rest by (auto simp: layered_def)
  have sub: "n \<in> R - set tier" if "n \<in> set (tiers ! j)" "j < length tiers" for n j
    using that set nth_mem [of j tiers] by (auto simp del: nth_mem)
  have forward: "i < j" if e: "(m, n) \<in> E" "i < Suc (length tiers)" "j < Suc (length tiers)" "m \<in> set ((tier # tiers) ! i)"
      "n \<in> set ((tier # tiers) ! j)" "n \<notin> bad" for m n i j
  proof (cases j)
    case 0
    have "m \<in> R" using e(2,4) d(2) sub by (cases i) auto
    with e(1,5) 0 ready show ?thesis by auto
  next
    case (Suc j')
    with e fwd [of m n _ j'] show ?thesis by (cases i) auto
  qed
  have tight: "\<exists>m \<in> set ((tier # tiers) ! k). (m, n) \<in> E"
    if k: "Suc k < Suc (length tiers)" "n \<in> set (tiers ! k)" "n \<notin> bad" for k n
  proof (cases k)
    case 0
    have "n \<in> R - set tier" using k sub by simp
    then obtain m where m: "m \<in> R" "(m, n) \<in> E" using ready by blast
    have "m \<in> set tier"
    proof (rule ccontr)
      assume "m \<notin> set tier"
      then obtain t where "t \<in> set tiers" "m \<in> set t" using m(1) set by auto
      then obtain i where "i < length tiers" "m \<in> set (tiers ! i)" by (metis in_set_conv_nth)
      with fwd [OF m(2), of i 0] k 0 show False by simp
    qed
    with m(2) 0 show ?thesis by auto
  next
    case (Suc k')
    with k rest show ?thesis by (auto simp: layered_def)
  qed
  have "distinct (concat (tier # tiers))" "set (concat (tier # tiers)) = R" "bad \<subseteq> R"
    "\<forall>n \<in> bad. n \<in> set (last (tier # tiers)) \<and> (\<exists>m \<in> bad. (m, n) \<in> E)"
    using rest d set by (auto simp: layered_def)
  with forward tight show ?thesis
    unfolding layered_def length_Cons nth_Cons_Suc by blast
qed

lemma topoLoop_layered:
  assumes "successors_ok V edges out"
  shows "degrees_ok V edges (set R) d \<Longrightarrow> distinct R \<Longrightarrow> set R \<subseteq> V \<Longrightarrow>
    \<exists>new reports. topoLoop out R d tiers = (tiers @ new, reports) \<and> length reports \<le> 1
      \<and> (\<forall>r \<in> set reports. cr_issues r \<noteq> []) \<and> layered (edge_rel V edges) (set R) new (reported reports)"
  using assms
proof (induction out R d tiers rule: topoLoop.induct)
  case (1 out R d tiers)
  note ready = ready_iff [OF "1.prems"(1,3)]
  let ?tier = "js_sort (\<lambda>a b. a - b) (readyNodes d R)"
  consider "R = []" | "R \<noteq> []" "?tier = []" | "R \<noteq> []" "?tier \<noteq> []" by blast
  then show ?case
  proof cases
    case 1
    then have "topoLoop out R d tiers = (tiers @ [], [])" by (subst topoLoop.simps) simp
    with 1 show ?thesis by (intro exI [of _ "[]"]) (simp add: layered_def reported_def)
  next
    case 2
    then have "set (readyNodes d R) = {}" by (metis set_js_sort list.set(1))
    then have "\<forall>n \<in> set R. \<exists>m \<in> set R. (m, n) \<in> edge_rel V edges" using ready by (metis empty_iff)
    moreover have "topoLoop out R d tiers = (tiers @ [R], [cycleReport R])"
      using 2 by (subst topoLoop.simps) (simp only: Let_def if_False if_True refl)
    ultimately show ?thesis
      using 2(1) "1.prems"(2) by (intro exI [of _ "[R]"] exI [of _ "[cycleReport R]"]) (auto simp: layered_def reported_def cycleReport_def)
  next
    case 3
    let ?R = "filter (\<lambda>n. n \<notin> set ?tier) R"
    have tier: "distinct ?tier" "set ?tier \<subseteq> set R" using "1.prems"(2) by (auto simp: readyNodes_def)
    have R: "set ?R = set R - set ?tier" by auto
    have "degrees_ok V edges (set ?R) (fold (releaseSuccessors out) ?tier d)"
      unfolding R by (rule release_tier [OF "1.prems"(4,1) tier "1.prems"(3)])
    moreover have "distinct ?R" "set ?R \<subseteq> V" using "1.prems"(2,3) by auto
    ultimately obtain new reports where new: "topoLoop out ?R (fold (releaseSuccessors out) ?tier d) (tiers @ [?tier]) = ((tiers @ [?tier]) @ new, reports)"
        "length reports \<le> 1 \<and> (\<forall>r \<in> set reports. cr_issues r \<noteq> [])" "layered (edge_rel V edges) (set ?R) new (reported reports)"
      using "1.IH" [OF 3(1) refl 3(2) _ _ _ "1.prems"(4)] by blast
    have "topoLoop out R d tiers = topoLoop out ?R (fold (releaseSuccessors out) ?tier d) (tiers @ [?tier])"
      using 3 by (subst topoLoop.simps) (simp only: Let_def if_False)
    moreover have "layered (edge_rel V edges) (set R) (?tier # new) (reported reports)"
      using layered_Cons [OF new(3) [unfolded R] tier] ready by simp
    ultimately show ?thesis using new(1,2) by (intro exI [of _ "?tier # new"] exI [of _ reports]) simp
  qed
qed

text \<open>A node of a finite set in which every node has a predecessor can be reached from a cycle.\<close>

lemma reached_from_cycle:
  assumes "finite B" "\<And>n. n \<in> B \<Longrightarrow> \<exists>m \<in> B. (m, n) \<in> E" "n \<in> B"
  shows "\<exists>m. (m, m) \<in> E\<^sup>+ \<and> (m, n) \<in> E\<^sup>*"
proof (rule ccontr)
  assume none: "\<nexists>m. (m, m) \<in> E\<^sup>+ \<and> (m, n) \<in> E\<^sup>*"
  define A where "A = {m \<in> B. (m, n) \<in> E\<^sup>*}"
  have "acyclic (E \<inter> A \<times> A)"
  proof (rule acyclicI, safe)
    fix x assume x: "(x, x) \<in> (E \<inter> A \<times> A)\<^sup>+"
    then have "x \<in> A" by (induction rule: trancl_induct) auto
    moreover have "(x, x) \<in> E\<^sup>+" using x by (rule trancl_mono) auto
    ultimately show False using none by (auto simp: A_def)
  qed
  moreover have "finite (E \<inter> A \<times> A)" using assms(1) by (auto simp: A_def intro: finite_subset [of _ "B \<times> B"])
  ultimately have "wf (E \<inter> A \<times> A)" by (rule finite_acyclic_wf [rotated])
  moreover have "n \<in> A" using assms(3) by (simp add: A_def)
  ultimately obtain x where x: "x \<in> A" "\<And>y. (y, x) \<in> E \<inter> A \<times> A \<Longrightarrow> y \<notin> A" by (rule wfE_min) blast
  obtain m where m: "m \<in> B" "(m, x) \<in> E" using assms(2) [of x] x(1) by (auto simp: A_def)
  then have "m \<in> A" using x(1) by (auto simp: A_def intro: converse_rtrancl_into_rtrancl)
  with x m show False by blast
qed

text \<open>In a layered graph nothing on or behind a cycle has a layer of its own.\<close>

lemma layered_reported:
  assumes "layered E V tiers bad" "E \<subseteq> V \<times> V" "finite V"
  shows "bad = {n. \<exists>m. (m, m) \<in> E\<^sup>+ \<and> (m, n) \<in> E\<^sup>*}"
proof
  show "bad \<subseteq> {n. \<exists>m. (m, m) \<in> E\<^sup>+ \<and> (m, n) \<in> E\<^sup>*}"
    using assms(1,3) by (auto simp: layered_def intro!: reached_from_cycle [of bad] intro: finite_subset)
  define lvl where "lvl n = (SOME i. i < length tiers \<and> n \<in> set (tiers ! i))" for n
  have lvl: "lvl n < length tiers \<and> n \<in> set (tiers ! lvl n)" if "n \<in> V" for n
  proof -
    from that assms(1) obtain t where "t \<in> set tiers" "n \<in> set t" by (auto simp: layered_def)
    then have "\<exists>i. i < length tiers \<and> n \<in> set (tiers ! i)" by (metis in_set_conv_nth)
    then show ?thesis unfolding lvl_def by (rule someI_ex)
  qed
  have climbs: "lvl m < lvl n" if "(m, n) \<in> E" "n \<notin> bad" for m n
    using that assms lvl [of m] lvl [of n] unfolding layered_def by blast
  have pred: "m \<notin> bad" if "(m, n) \<in> E" "n \<notin> bad" for m n
  proof
    assume "m \<in> bad"
    then have "m \<in> set (last tiers)" using assms(1) by (simp add: layered_def)
    moreover have V: "m \<in> V" "n \<in> V" using that assms(2) by auto
    moreover from lvl [OF V(1)] have "tiers \<noteq> []" by auto
    then have "last tiers = tiers ! (length tiers - 1)" "length tiers - 1 < length tiers"
      by (simp_all add: last_conv_nth)
    ultimately have "length tiers - 1 < lvl n"
      using assms(1) lvl [of n] that unfolding layered_def by metis
    with lvl [OF V(2)] show False by linarith
  qed
  have behind: "m \<notin> bad" if "(m, n) \<in> E\<^sup>*" "n \<notin> bad" for m n
    using that by (induction rule: converse_rtrancl_induct) (auto dest: pred)
  have down: "lvl m < lvl n" if "(m, n) \<in> E\<^sup>+" "n \<notin> bad" for m n
    using that
  proof (induction rule: converse_trancl_induct)
    case (base y)
    then show ?case by (rule climbs)
  next
    case (step y z)
    from step.hyps(2) step.prems have "z \<notin> bad" by (meson behind trancl_into_rtrancl)
    with step show ?case using climbs [of y z] by simp
  qed
  show "{n. \<exists>m. (m, m) \<in> E\<^sup>+ \<and> (m, n) \<in> E\<^sup>*} \<subseteq> bad"
    using behind down by blast
qed

lemma topoSort_layered:
  assumes "topoSort ns edges = (tiers, reports)" "E = edge_rel (set ns) edges"
  shows "layered E (set ns) tiers (reported reports)" "length reports \<le> 1"
    "reported reports = {n. \<exists>m. (m, m) \<in> E\<^sup>+ \<and> (m, n) \<in> E\<^sup>*}" "reports = [] \<longleftrightarrow> acyclic E"
proof -
  have V: "E \<subseteq> set ns \<times> set ns" using assms(2) by (auto simp: edge_rel_def)
  obtain d out where adj: "adjacency ns edges = (d, out)" by (cases "adjacency ns edges")
  have "topoLoop out (uniq ns) d [] = (tiers, reports)" using assms(1) adj by (simp add: topoSort_def)
  then have L: "length reports \<le> 1 \<and> (\<forall>r \<in> set reports. cr_issues r \<noteq> [])" "layered E (set ns) tiers (reported reports)"
    using topoLoop_layered [of "set ns" edges out "uniq ns" d "[]"] adjacency_ok [of ns edges] adj assms(2) by auto
  show bad: "reported reports = {n. \<exists>m. (m, m) \<in> E\<^sup>+ \<and> (m, n) \<in> E\<^sup>*}"
    by (rule layered_reported [OF L(2) V]) simp
  have "reports = [] \<longleftrightarrow> reported reports = {}"
    using L(1) by (cases reports) (auto simp: reported_def)
  also have "\<dots> \<longleftrightarrow> acyclic E" unfolding bad acyclic_def by blast
  finally show "reports = [] \<longleftrightarrow> acyclic E" .
  show "layered E (set ns) tiers (reported reports)" "length reports \<le> 1" using L by auto
qed

text \<open>C36: for every list of issues and every list of edges, \<open>topoSort\<close> places each issue in exactly one tier and
  returns at most one cycle report. The reported issues are exactly those that lie on a cycle of the edges
  between the listed issues or behind one; the report is empty if and only if those edges are acyclic. Every
  other issue stands in a later tier than each of its prerequisites, and no later than it must: each issue that
  is not in the first tier has a prerequisite in the tier just before its own.\<close>

theorem topo_sort_layers:
  assumes "topoSort ns edges = (tiers, reports)" "E = edge_rel (set ns) edges"
  shows "distinct (concat tiers) \<and> set (concat tiers) = set ns \<and> length reports \<le> 1
    \<and> (reports = [] \<longleftrightarrow> acyclic E)
    \<and> (\<Union>r \<in> set reports. set (cr_issues r)) = {n. \<exists>m. (m, m) \<in> E\<^sup>+ \<and> (m, n) \<in> E\<^sup>*}
    \<and> (\<forall>m n i j. (m, n) \<in> E \<longrightarrow> i < length tiers \<longrightarrow> j < length tiers \<longrightarrow> m \<in> set (tiers ! i) \<longrightarrow> n \<in> set (tiers ! j)
        \<longrightarrow> (\<nexists>c. (c, c) \<in> E\<^sup>+ \<and> (c, n) \<in> E\<^sup>*) \<longrightarrow> i < j)
    \<and> (\<forall>k n. Suc k < length tiers \<longrightarrow> n \<in> set (tiers ! Suc k) \<longrightarrow> (\<nexists>c. (c, c) \<in> E\<^sup>+ \<and> (c, n) \<in> E\<^sup>*)
        \<longrightarrow> (\<exists>m \<in> set (tiers ! k). (m, n) \<in> E))"
proof -
  note L = topoSort_layered [OF assms]
  have ok: "n \<notin> reported reports \<longleftrightarrow> (\<nexists>c. (c, c) \<in> E\<^sup>+ \<and> (c, n) \<in> E\<^sup>*)" for n using L(3) by simp
  show ?thesis
    using L unfolding layered_def reported_def [symmetric] ok by (elim conjE, intro conjI) assumption+
qed

definition exampleEdge :: "IssueNumber \<Rightarrow> IssueNumber \<Rightarrow> DepEdge" where
  "exampleEdge m n = \<lparr>de_from = m, de_to = n, de_file_line = [], de_rationale = []\<rparr>"

theorem topo_sort_layers_witness:
  "topoSort [3, 1, 2, 4] [exampleEdge 1 2, exampleEdge 2 3, exampleEdge 1 3, exampleEdge 9 1] = ([[1, 4], [2], [3]], [])
   \<and> acyclic (edge_rel (set [3, 1, 2, 4]) [exampleEdge 1 2, exampleEdge 2 3, exampleEdge 1 3, exampleEdge 9 1])"
proof -
  have "topoSort [3, 1, 2, 4] [exampleEdge 1 2, exampleEdge 2 3, exampleEdge 1 3, exampleEdge 9 1] = ([[1, 4], [2], [3]], [])"
    by code_simp
  with topo_sort_layers [OF this refl] show ?thesis by simp
qed

section \<open>No candidate is lost\<close>

definition edge_pair :: "DepEdge \<Rightarrow> candidate" where
  "edge_pair e = (de_from e, de_to e)"

definition asked_pair :: "OpenQuestion \<Rightarrow> candidate" where
  "asked_pair q = (oq_related_issues q ! 0, oq_related_issues q ! 1)"

definition accounted_pairs :: "DepGraph \<Rightarrow> candidate list" where
  "accounted_pairs g = map edge_pair (dg_must_precede g) @ map edge_pair (dg_should_precede g) @ map asked_pair (dg_open_questions g)"

lemma accounted_pairs_ask [simp]: "mset (accounted_pairs (askQuestion d p r g)) = add_mset p (mset (accounted_pairs g))"
  by (simp add: accounted_pairs_def askQuestion_def asked_pair_def)

lemma accounted_pairs_verdict: "mset (accounted_pairs (recordVerdict jsonParse p answer g)) = add_mset p (mset (accounted_pairs g))"
  by (auto simp: recordVerdict_def Let_def accounted_pairs_def [of "_ \<lparr>dg_must_precede := _\<rparr>"] accounted_pairs_def [of "_ \<lparr>dg_should_precede := _\<rparr>"]
      edge_pair_def split: option.splits) (simp_all add: accounted_pairs_def edge_pair_def)

lemma accounted_pairs_capped: "mset (accounted_pairs (cappedQuestions capped g)) = mset (map tc_pair capped) + mset (accounted_pairs g)"
  unfolding cappedQuestions_def by (induction capped arbitrary: g) simp_all

lemma accounted_pairs_empty [simp]: "accounted_pairs emptyGraph = []"
  by (simp add: accounted_pairs_def emptyGraph_def)

text \<open>An edge of the graph was confirmed by the harness, and a hard one as strong.\<close>

definition confirmed :: "(string \<Rightarrow> jsval option) \<Rightarrow> InventoryItem list \<Rightarrow> DepgraphDeps \<Rightarrow> bool \<Rightarrow> DepEdge \<Rightarrow> bool" where
  "confirmed jsonParse items deps strong e \<longleftrightarrow>
     (\<exists>k a b prompt out v. itemByNumber items (de_from e) = Some a \<and> itemByNumber items (de_to e) = Some b
        \<and> buildDepVerifyPrompt deps k a b = Inr prompt \<and> dd_runHarness deps k prompt = Inr (True, out)
        \<and> parseDepVerifyResult jsonParse out = Some v \<and> dv_edge_confirmed v \<and> dv_is_strong v = strong)"

definition all_confirmed :: "(string \<Rightarrow> jsval option) \<Rightarrow> InventoryItem list \<Rightarrow> DepgraphDeps \<Rightarrow> DepGraph \<Rightarrow> bool" where
  "all_confirmed jsonParse items deps g \<longleftrightarrow>
     (\<forall>e \<in> set (dg_must_precede g). confirmed jsonParse items deps True e)
     \<and> (\<forall>e \<in> set (dg_should_precede g). confirmed jsonParse items deps False e)"

lemma all_confirmed_ask [simp]: "all_confirmed jsonParse items deps (askQuestion d p r g) = all_confirmed jsonParse items deps g"
  by (simp add: all_confirmed_def askQuestion_def)

lemma verifyTask_Inr:
  assumes "verifyTask jsonParse items deps k p g = Inr g'" "itemByNumber items (fst p) = Some a" "itemByNumber items (snd p) = Some b"
  shows "mset (accounted_pairs g') = add_mset p (mset (accounted_pairs g))" "all_confirmed jsonParse items deps g \<Longrightarrow> all_confirmed jsonParse items deps g'"
proof -
  obtain prompt where h1: "buildDepVerifyPrompt deps k a b = Inr prompt"
    using assms by (cases "buildDepVerifyPrompt deps k a b") (simp_all add: verifyTask_def)
  obtain answer where h2: "dd_runHarness deps k prompt = Inr answer"
    using assms h1 by (cases "dd_runHarness deps k prompt") (simp_all add: verifyTask_def)
  have h3: "g' = recordVerdict jsonParse p answer g"
    using assms h1 h2 by (simp add: verifyTask_def)
  note h = h1 h2 h3
  show "mset (accounted_pairs g') = add_mset p (mset (accounted_pairs g))" unfolding h(3) by (rule accounted_pairs_verdict)
  obtain ok out where ans: "answer = (ok, out)" by (cases answer)
  have conf: "confirmed jsonParse items deps strong \<lparr>de_from = fst p, de_to = snd p, de_file_line = fl, de_rationale = ra\<rparr>"
    if "ok" "parseDepVerifyResult jsonParse out = Some v" "dv_edge_confirmed v" "dv_is_strong v = strong" for v fl ra strong
    using that assms(2,3) h(1,2) ans by (auto simp: confirmed_def)
  show "all_confirmed jsonParse items deps g \<Longrightarrow> all_confirmed jsonParse items deps g'"
    unfolding h(3) ans by (auto simp: recordVerdict_def Let_def all_confirmed_def [of _ _ _ "_\<lparr>dg_must_precede := _\<rparr>"]
      all_confirmed_def [of _ _ _ "_\<lparr>dg_should_precede := _\<rparr>"] split: option.splits) (auto simp: all_confirmed_def intro: conf)
qed

lemma settled_account:
  "settled_in (verifyTasks jsonParse items deps todo) g order g' \<Longrightarrow>
    (\<And>k. k \<in> set (map fst order) \<Longrightarrow> itemByNumber items (fst (tc_pair (todo ! k))) \<noteq> None \<and> itemByNumber items (snd (tc_pair (todo ! k))) \<noteq> None) \<Longrightarrow>
    mset (accounted_pairs g') = mset (map (\<lambda>k. tc_pair (todo ! k)) (map fst order)) + mset (accounted_pairs g)
    \<and> (all_confirmed jsonParse items deps g \<longrightarrow> all_confirmed jsonParse items deps g')"
proof (induction order arbitrary: g)
  case (Cons kv order)
  obtain k v where kv: "kv = (k, v)" by (cases kv)
  with Cons.prems(1) obtain g1 where g1: "verifyTask jsonParse items deps k (tc_pair (todo ! k)) g = Inr g1"
      "settled_in (verifyTasks jsonParse items deps todo) g1 order g'"
    by (cases "verifyTask jsonParse items deps k (tc_pair (todo ! k)) g") (auto simp: verifyTasks_def [of _ _ _ _ k g])
  obtain a b where "itemByNumber items (fst (tc_pair (todo ! k))) = Some a" "itemByNumber items (snd (tc_pair (todo ! k))) = Some b"
    using Cons.prems(2) [of k] kv by auto
  from verifyTask_Inr [OF g1(1) this] Cons.IH [OF g1(2)] Cons.prems(2) kv show ?case by simp
qed simp

text \<open>The ranking keeps one entry for each pair.\<close>

lemma addTagged_keyed: "keyed tc_pair seen \<Longrightarrow> keyed tc_pair (addTagged items ps seen)"
proof -
  assume k: "keyed tc_pair seen"
  obtain p src where ps: "ps = (p, src)" by (cases ps)
  let ?t = "\<lparr>tc_pair = p, tc_source = src, tc_sharedFileCount = sharedFileCount items (fst p) (snd p)\<rparr>"
  have "keyed tc_pair (AList.update p ?t seen)" using keyed_update [OF k, of ?t] by simp
  with k ps show ?thesis by (auto simp: addTagged_def split: option.splits)
qed

lemma addTagged_keys: "fst ` set (addTagged items ps seen) = insert (fst ps) (fst ` set seen)"
proof -
  obtain p src where ps: "ps = (p, src)" by (cases ps)
  have "map_of seen p = Some t \<Longrightarrow> insert p (fst ` set seen) = fst ` set seen" for t
    by (force dest: map_of_SomeD)
  then show ?thesis using ps by (simp add: addTagged_def dom_update split: option.splits)
qed

lemma fold_addTagged: "keyed tc_pair seen \<Longrightarrow> keyed tc_pair (fold (addTagged items) ps seen)
    \<and> fst ` set (fold (addTagged items) ps seen) = fst ` set ps \<union> fst ` set seen"
  by (induction ps arbitrary: seen) (simp_all add: addTagged_keyed addTagged_keys)

lemma ranked_pairs:
  "distinct (map tc_pair (rankCandidates t f c items)) \<and> set (map tc_pair (rankCandidates t f c items)) = set t \<union> set f \<union> set c"
proof -
  let ?ps = "map (\<lambda>p. (p, Textual)) t @ map (\<lambda>p. (p, SharedFile)) f @ map (\<lambda>p. (p, CrossFile)) c"
  let ?es = "fold (addTagged items) ?ps []"
  have k: "keyed tc_pair ?es" "fst ` set ?es = set t \<union> set f \<union> set c"
    using fold_addTagged [of "[]" items ?ps] by (auto simp: keyed_def image_Un image_image)
  have pairs: "mset (map tc_pair (rankCandidates t f c items)) = mset (map fst ?es)"
    unfolding keyed_keys [OF k(1)] rankCandidates_def by (simp only: mset_map mset_js_sort)
  have "distinct (map fst ?es)" using k(1) by (simp add: keyed_def)
  then have "distinct (map tc_pair (rankCandidates t f c items))" using pairs by (metis mset_eq_imp_distinct_iff)
  moreover have "set (map tc_pair (rankCandidates t f c items)) = set (map fst ?es)" using pairs by (metis set_mset_mset)
  ultimately show ?thesis using k(2) by simp
qed

text \<open>Both ends of every candidate are issues of the inventory.\<close>

abbreviation numbers :: "InventoryItem list \<Rightarrow> IssueNumber set" where
  "numbers items \<equiv> set (map number_of items)"

lemma itemByNumber_iff: "itemByNumber items n \<noteq> None \<longleftrightarrow> n \<in> numbers items"
  by (auto simp: itemByNumber_def find_last_def find_None_iff)

lemma fold_subset: "(\<And>x st. x \<in> set xs \<Longrightarrow> P st \<Longrightarrow> P (f x st)) \<Longrightarrow> P st \<Longrightarrow> P (fold f xs st)"
  by (induction xs arbitrary: st) auto

lemma textual_in: "set (findTextualDepCandidates items) \<subseteq> numbers items \<times> numbers items"
  unfolding findTextualDepCandidates_def
  by (rule fold_subset [where P = "\<lambda>c. set c \<subseteq> numbers items \<times> numbers items"], rule fold_subset) (auto simp: Let_def)

definition inventoried :: "IssueNumber set \<Rightarrow> candidate set \<times> candidate list \<Rightarrow> bool" where
  "inventoried N st \<longleftrightarrow> set (snd st) \<subseteq> N \<times> N"

lemma addBothWays_inventoried: "a \<in> N \<Longrightarrow> b \<in> N \<Longrightarrow> inventoried N st \<Longrightarrow> inventoried N (addBothWays a b st)"
  by (auto simp: inventoried_def addBothWays_def addCandidate_def)

lemma shared_in: "set (findFileBasedDepCandidates items ex) \<subseteq> numbers items \<times> numbers items"
proof -
  have "inventoried (numbers items) (fold (\<lambda>(a, b) st. if sharedFilesOf a b = [] then st else addBothWays (number_of a) (number_of b) st)
      (pairs_of items) (set ex, []))"
    by (rule fold_subset) (auto intro!: addBothWays_inventoried dest!: pairs_of_mem simp: inventoried_def [of _ "(_, [])"])
  then show ?thesis by (simp add: findFileBasedDepCandidates_def inventoried_def)
qed

lemma stems_in:
  assumes "n \<in> set (orElse (map_of (stemToIssues items) s) [])"
  shows "n \<in> numbers items"
proof -
  let ?P = "\<lambda>m :: (string \<times> IssueNumber list) list. \<forall>s. set (orElse (map_of m s) []) \<subseteq> numbers items"
  have step: "?P (AList.update k (orElse (map_of m k) [] @ [i]) m)" if "?P m" "i \<in> numbers items" for m k i
    using that by (auto simp: update_conv')
  have "?P (stemToIssues items)"
    unfolding stemToIssues_def
  proof (rule fold_subset [where P = ?P])
    fix x m assume x: "x \<in> set (concat (map (\<lambda>item. map (\<lambda>f. (f, number_of item)) (iv_touched_files item)) items))" and m: "?P m"
    obtain f i where "x = (f, i)" by (cases x)
    with x have "i \<in> numbers items" by auto
    with step [OF m] m \<open>x = (f, i)\<close> show "?P ((case x of (f, n) \<Rightarrow> \<lambda>m. if stemOf f = [] then m
        else AList.update (stemOf f) (orElse (map_of m (stemOf f)) [] @ [n]) m) m)" by simp
  qed simp
  with assms show ?thesis by blast
qed

lemma import_inventoried:
  assumes "n \<in> numbers items" "inventoried (numbers items) st"
  shows "inventoried (numbers items) (importCandidates (stemToIssues items) n content st)"
  unfolding importCandidates_def
proof (rule fold_subset)
  fix other st
  assume "other \<in> set (concat (map (\<lambda>p. if stemOf p = [] then [] else orElse (map_of (stemToIssues items) (stemOf p)) []) (importsOf content)))"
    and st: "inventoried (numbers items) st"
  then have "other \<in> numbers items" by (auto dest!: stems_in split: if_splits)
  with st assms(1) show "inventoried (numbers items) (if other = n then st else addBothWays other n st)"
    by (simp add: addBothWays_inventoried)
qed (rule assms)

lemma scan_inventoried:
  assumes "scanFiles deps (stemToIssues items) fs st = Inr st'" "inventoried (numbers items) st"
    "\<And>k n f. (k, n, f) \<in> set fs \<Longrightarrow> n \<in> numbers items"
  shows "inventoried (numbers items) st'"
  using assms
proof (induction deps "stemToIssues items" fs st rule: scanFiles.induct)
  case (2 deps k n f rest st)
  have n: "n \<in> numbers items" using "2.prems"(3) by auto
  obtain content where c: "dd_readFile deps (ScanOf k) f = Inr content"
    using "2.prems"(1) by (cases "dd_readFile deps (ScanOf k) f") auto
  show ?case
    using "2.prems"(1,3) c import_inventoried [OF n "2.prems"(2)] "2.prems"(2)
    by (intro "2.hyps" [OF c]) (auto split: if_splits)
qed simp

lemma cross_in:
  assumes "findCrossFileDepCandidates items ex deps = Inr cross"
  shows "set cross \<subseteq> numbers items \<times> numbers items"
proof -
  let ?fs = "concat (map (\<lambda>(k, item). map (\<lambda>f. (k, number_of item, f)) (take 5 (iv_touched_files item))) (enumerate 0 items))"
  obtain st where st: "scanFiles deps (stemToIssues items) ?fs (set ex, []) = Inr st" "cross = snd st"
    using assms by (cases "scanFiles deps (stemToIssues items) ?fs (set ex, [])") (auto simp: findCrossFileDepCandidates_def)
  have "n \<in> numbers items" if kf: "(k, n, f) \<in> set ?fs" for k n f
  proof -
    from kf obtain item where "(k, item) \<in> set (enumerate 0 items)" "n = number_of item" by auto
    moreover from this(1) have "item \<in> set items" by (auto simp: in_set_enumerate_eq)
    ultimately show ?thesis by simp
  qed
  from scan_inventoried [OF st(1) _ this] show ?thesis by (simp add: inventoried_def st(2))
qed

lemma capped_confirmed: "all_confirmed jsonParse items deps (cappedQuestions capped g) = all_confirmed jsonParse items deps g"
  unfolding cappedQuestions_def by (induction capped arbitrary: g) simp_all

text \<open>The pool accounts for each of its candidates once, whatever its events were.\<close>

lemma pool_account:
  assumes "runPool (verifyTasks jsonParse items deps todo) (length todo) concurrency events g = Some (Inr (results, g'))"
    "concurrency \<noteq> NaN" "set (map tc_pair todo) \<subseteq> numbers items \<times> numbers items"
  shows "mset (accounted_pairs g') = mset (map tc_pair todo) + mset (accounted_pairs g)"
    "all_confirmed jsonParse items deps g \<Longrightarrow> all_confirmed jsonParse items deps g'"
proof -
  obtain order where order: "mset (map fst order) = mset [0..<length todo]" "settled_in (verifyTasks jsonParse items deps todo) g order g'"
    using pool_runs_each_once [OF assms(1,2)] by (auto simp: ran_once_def)
  have "set (map fst order) = {0..<length todo}" using order(1) by (metis set_mset_mset set_upt)
  then have "tc_pair (todo ! k) \<in> numbers items \<times> numbers items" if "k \<in> set (map fst order)" for k
    using that assms(3) by (auto simp: image_subset_iff)
  then have inv: "itemByNumber items (fst (tc_pair (todo ! k))) \<noteq> None \<and> itemByNumber items (snd (tc_pair (todo ! k))) \<noteq> None"
    if "k \<in> set (map fst order)" for k
    using that unfolding itemByNumber_iff by (metis mem_Times_iff)
  note run = settled_account [OF order(2) inv]
  have "mset (map (\<lambda>k. tc_pair (todo ! k)) (map fst order)) = mset (map (\<lambda>k. tc_pair (todo ! k)) [0..<length todo])"
    using order(1) by (simp only: mset_map)
  also have "map (\<lambda>k. tc_pair (todo ! k)) [0..<length todo] = map tc_pair todo"
    by (rule nth_equalityI) simp_all
  finally show "mset (accounted_pairs g') = mset (map tc_pair todo) + mset (accounted_pairs g)" using run by simp
  show "all_confirmed jsonParse items deps g \<Longrightarrow> all_confirmed jsonParse items deps g'" using run by blast
qed

text \<open>C35: when the phase that builds the dependency graph returns, in whatever order the tasks of its pool settled
  and its workers went on, every dependency candidate that was found in the texts, in the shared files or in the imports is accounted for
  exactly once: as a hard edge, as an advisory edge, or as an open question. An edge is only there when the
  harness was asked about that pair, succeeded and confirmed it, a hard one as strong and an advisory one as not
  strong. At most as many candidates as the cap allows are verified, all others are skipped, and the cycle report
  is empty if and only if the hard edges are acyclic. The concurrency may be any number, also an infinite one,
  but not the value NaN, for which the pool starts no worker.\<close>

theorem depgraph_accounts_candidates:
  assumes "buildDepgraph jsonParse events items deps cap concurrency = Some (Inr (graph, stats))" "items \<noteq> []"
    "concurrency \<noteq> Some NaN"
  shows "\<exists>cross. let textual = findTextualDepCandidates items; shared = findFileBasedDepCandidates items textual
      in findCrossFileDepCandidates items (textual @ shared) deps = Inr cross
       \<and> distinct (accounted_pairs graph) \<and> set (accounted_pairs graph) = set textual \<union> set shared \<union> set cross
       \<and> all_confirmed jsonParse items deps graph
       \<and> ds_verify_calls stats \<le> orElse cap 20
       \<and> ds_verify_calls stats + ds_verify_skipped stats = length (accounted_pairs graph)
       \<and> (dg_cycle_reports graph = [] \<longleftrightarrow> acyclic (edge_rel (numbers items) (dg_must_precede graph)))"
proof -
  define textual where "textual = findTextualDepCandidates items"
  define shared where "shared = findFileBasedDepCandidates items textual"
  obtain cross where cross: "findCrossFileDepCandidates items (textual @ shared) deps = Inr cross"
    using assms(1,2) by (cases "findCrossFileDepCandidates items (textual @ shared) deps")
      (simp_all add: buildDepgraph_def Let_def flip: textual_def shared_def)
  define ranked where "ranked = rankCandidates textual shared cross items"
  let ?cap = "orElse cap 20" let ?todo = "take ?cap ranked" let ?start = "cappedQuestions (drop ?cap ranked) emptyGraph"
  let ?run = "runPool (verifyTasks jsonParse items deps ?todo) (length ?todo) (orElse concurrency (Fin 4)) events ?start"
  have built: "map_option (map_sum id (\<lambda>(_, g). (g\<lparr>dg_cycle_reports := snd (topoSort (map number_of items) (dg_must_precede g))\<rparr>,
      \<lparr>ds_candidates_textual = length textual, ds_candidates_shared_file = length shared, ds_candidates_cross_file = length cross,
       ds_verify_calls = length ?todo, ds_verify_skipped = length (drop ?cap ranked)\<rparr>))) ?run = Some (Inr (graph, stats))"
    using assms(1,2) cross by (simp add: buildDepgraph_def Let_def flip: textual_def shared_def ranked_def)
  then obtain results g where g: "?run = Some (Inr (results, g))"
      "graph = g\<lparr>dg_cycle_reports := snd (topoSort (map number_of items) (dg_must_precede g))\<rparr>"
      and calls: "ds_verify_calls stats = length ?todo" "ds_verify_skipped stats = length (drop ?cap ranked)"
    by (cases ?run; cases "the ?run") auto
  have conc: "orElse concurrency (Fin 4) \<noteq> NaN" using assms(3) by (cases concurrency) auto
  have pairs: "distinct (map tc_pair ranked)" "set (map tc_pair ranked) = set textual \<union> set shared \<union> set cross"
    using ranked_pairs [of textual shared cross items] by (simp_all add: ranked_def)
  have "set (map tc_pair ranked) \<subseteq> numbers items \<times> numbers items"
    unfolding pairs(2) using textual_in shared_in cross_in [OF cross] by (auto simp: textual_def shared_def)
  then have todo: "set (map tc_pair ?todo) \<subseteq> numbers items \<times> numbers items"
    using set_take_subset [of ?cap ranked] by auto
  note tasks = pool_account [OF g(1) conc todo]
  have "mset (accounted_pairs g) = mset (map tc_pair (?todo @ drop ?cap ranked))"
    using tasks(1) unfolding accounted_pairs_capped by (simp del: append_take_drop_id)
  then have "mset (accounted_pairs g) = mset (map tc_pair ranked)" by (simp only: append_take_drop_id)
  moreover have "accounted_pairs graph = accounted_pairs g" unfolding g(2) by (simp add: accounted_pairs_def)
  ultimately have "distinct (accounted_pairs graph)" "set (accounted_pairs graph) = set (map tc_pair ranked)" "length (accounted_pairs graph) = length ranked"
    using pairs(1) by (metis mset_eq_imp_distinct_iff, metis set_mset_mset, metis length_map size_mset)
  moreover have "all_confirmed jsonParse items deps graph"
    using tasks(2) unfolding capped_confirmed by (simp add: g(2) all_confirmed_def emptyGraph_def)
  moreover have "dg_cycle_reports graph = [] \<longleftrightarrow> acyclic (edge_rel (numbers items) (dg_must_precede graph))"
    using topoSort_layered(4) [OF surjective_pairing refl, of "map number_of items" "dg_must_precede g"] by (simp add: g(2))
  ultimately show ?thesis
    using cross pairs(2) calls unfolding textual_def [symmetric] Let_def shared_def [symmetric] by (intro exI [of _ cross]) simp
qed

definition exampleItem :: "IssueNumber \<Rightarrow> string \<Rightarrow> string list \<Rightarrow> InventoryItem" where
  "exampleItem n body files =
     \<lparr>iv_issue = \<lparr>is_number = n, is_title = ''Issue'', is_body = body, is_labels = []\<rparr>, iv_touched_files = files\<rparr>"

definition exampleItems :: "InventoryItem list" where
  "exampleItems = [exampleItem 1 ''plain'' [''src/a.ts''], exampleItem 2 ''depends on #1'' [''src/a.ts''], exampleItem 3 ''plain'' [''src/b.ts'']]"

text \<open>The file of the third issue imports that of the first two; the harness confirms what task 0 asks as a hard
  edge, what task 1 asks as an advisory one, and fails afterwards.\<close>

definition exampleHarness :: DepgraphDeps where
  "exampleHarness = \<lparr>dd_runHarness = (\<lambda>k prompt. Inr (k < 2, [CHR ''{'', char_of (48 + k), CHR ''}''])),
     dd_readFile = (\<lambda>_ f. Inr (if f = ''src/b.ts'' then Some (''import x from '' @ quoted ''./a.ts'') else None))\<rparr>"

definition exampleJson :: "string \<Rightarrow> jsval option" where
  "exampleJson s = Some (JObj [(''edge_confirmed'', JBool True), (''is_strong'', JBool (CHR ''0'' \<in> set s))])"

text \<open>Three workers take the first three tasks; the third one settles first and its worker takes the last task.\<close>

definition exampleEvents :: "PoolEvent list" where
  "exampleEvents = [Settles 2, Settles 0, GoesOn 2, Settles 2, GoesOn 0, GoesOn 2, Settles 1, GoesOn 1]"

definition exampleBuilt :: "DepGraph \<times> DepgraphStats" where
  "exampleBuilt = projr (the (buildDepgraph exampleJson exampleEvents exampleItems exampleHarness (Some 4) (Some (Fin 3))))"

definition builtSummary :: "DepGraph \<times> DepgraphStats \<Rightarrow> candidate list \<times> candidate list \<times> nat \<times> nat \<times> bool" where
  "builtSummary b = (map edge_pair (dg_must_precede (fst b)), map edge_pair (dg_should_precede (fst b)),
     ds_verify_calls (snd b), ds_verify_skipped (snd b), dg_cycle_reports (fst b) = [])"

lemma example_built: "builtSummary exampleBuilt = ([(1, 2)], [(2, 1)], 4, 2, True)"
  by code_simp

theorem depgraph_accounts_candidates_witness:
  "builtSummary exampleBuilt = ([(1, 2)], [(2, 1)], 4, 2, True) \<and> distinct (accounted_pairs (fst exampleBuilt))"
proof -
  have run: "buildDepgraph exampleJson exampleEvents exampleItems exampleHarness (Some 4) (Some (Fin 3))
      = Some (Inr (fst exampleBuilt, snd exampleBuilt))"
    by code_simp
  from depgraph_accounts_candidates [OF run] show ?thesis
    by (auto simp: Let_def example_built exampleItems_def)
qed

end
