(* ===== verification/Roadmap_Score.thy ===== *)
theory Roadmap_Score
  imports Roadmap_Graph
begin

text \<open>
  Scores and order of the roadmap, \<open>core/scripts/roadmap/score.ts\<close>: the estimates read from the text of an
  issue by regular expressions, the priority, and \<open>applyDepAdjustment\<close>, which orders the issues by layer, tier
  and priority. Numbers are exact rationals. The theorem shows that the order of the roadmap respects the hard
  dependencies wherever no cycle stands before an issue.
\<close>

section \<open>Estimates\<close>

text \<open>\<open>re.test(text)\<close>: some position of the text starts a match.\<close>

fun testFrom :: "rx \<Rightarrow> char option \<Rightarrow> string \<Rightarrow> bool" where
  "testFrom r prev [] = (rx_run r (prev, []) \<noteq> [])"
| "testFrom r prev (c # s) = (rx_run r (prev, c # s) \<noteq> [] \<or> testFrom r (Some c) s)"

fun alts :: "rx list \<Rightarrow> rx" where
  "alts [] = Reps 1 (Some 0) (\<lambda>_. False)"
| "alts [r] = r"
| "alts (r # q # rs) = Alt r (alts (q # rs))"

definition rx_test :: "rx list \<Rightarrow> string \<Rightarrow> bool" where
  "rx_test rs s = testFrom (alts rs) None s"

definition word :: "string \<Rightarrow> rx" where
  "word w = seqs [WordBoundary, Lit w, WordBoundary]"

text \<open>Two words with any character but a line break between them.\<close>

definition dotted :: "string \<Rightarrow> string \<Rightarrow> rx" where
  "dotted a b = seqs [Lit a, Reps 1 (Some 1) (\<lambda>c. \<not> line_break c), Lit b]"

definition lowerText :: "InventoryItem \<Rightarrow> string" where
  "lowerText item = js_lower (textOf item)"

definition estimateEffort :: "InventoryItem \<Rightarrow> int" where
  "estimateEffort item =
     (let text' = lowerText item
      in if rx_test [word ''xl'', Lit ''very large'', Lit ''epic'', Lit ''quarter'', Lit ''months''] text' then 5
         else if rx_test [word ''large'', Lit ''major refactor'', Sq (word ''l'') (Lit '' effort'')] text' then 4
         else if rx_test [word ''small'', word ''xs'', Lit ''trivial'', dotted ''one'' ''liner'', Lit ''typo'', Lit ''rename''] text' then 1
         else if rx_test [word ''quick'', Sq (word ''s'') (Lit '' effort''), Lit ''straightforward'', Lit ''minor''] text' then 2
         else 3)"

definition estimateImpact :: "InventoryItem \<Rightarrow> int" where
  "estimateImpact item =
     (let labels = map js_lower (is_labels (iv_issue item)); text' = lowerText item
      in if list_ex (\<lambda>l. js_includes l ''critical'' \<or> js_includes l ''p0'') labels then 5
         else if list_ex (\<lambda>l. js_includes l ''high'' \<or> js_includes l ''p1'') labels then 4
         else if list_ex (\<lambda>l. js_includes l ''low'' \<or> js_includes l ''p3'') labels then 2
         else if rx_test [Lit ''security'', dotted ''data'' ''loss'', Lit ''outage'', Lit ''regression'', Lit ''crash''] text' then 5
         else if rx_test [Lit ''performance'', Lit ''reliability'', Lit ''major feature''] text' then 4
         else if rx_test [Lit ''cleanup'', Lit ''refactor'', Lit ''docs''] text' then 2
         else 3)"

text \<open>The expressions of the next estimate ignore case, which is matching on the lowered text.\<close>

definition estimateConfidence :: "InventoryItem \<Rightarrow> int" where
  "estimateConfidence item =
     (let body = is_body (iv_issue item); lower = js_lower body
      in if length (js_trim body) < 50 then 1
         else min 5 (2
           + (if rx_test [seqs [Lit ''##'', Reps 1 None js_space, Lit ''acceptance criteria'']] lower then 1 else 0)
           + (if rx_test [seqs [Lit ''##'', Reps 1 None js_space, Lit ''summary'']] lower then 1 else 0)
           + (if rx_test [Lit ''- [ ]''] body then 1 else 0)))"

definition estimateRiskReduction :: "InventoryItem \<Rightarrow> int" where
  "estimateRiskReduction item =
     (let text' = lowerText item
      in if rx_test [Lit ''security'', Lit ''auth'', Lit ''vulnerability'', Lit ''exploit''] text' then 5
         else if rx_test [dotted ''data'' ''loss'', Lit ''corruption'', dotted ''race'' ''condition'', Lit ''deadlock''] text' then 4
         else if rx_test [dotted ''memory'' ''leak'', Lit ''performance'', Lit ''timeout'', Lit ''retry''] text' then 3
         else if rx_test [Lit ''deprecat'', Lit ''migration'', Lit ''upgrade''] text' then 3
         else 1)"

definition prerequisitesOf :: "IssueNumber \<Rightarrow> DepGraph \<Rightarrow> IssueNumber list" where
  "prerequisitesOf n graph = map de_from (filter (\<lambda>e. de_to e = n) (dg_must_precede graph))"

definition dependersOf :: "IssueNumber \<Rightarrow> DepGraph \<Rightarrow> IssueNumber list" where
  "dependersOf n graph = map de_to (filter (\<lambda>e. de_from e = n) (dg_must_precede graph))"

definition computeDepLeverage :: "IssueNumber \<Rightarrow> DepGraph \<Rightarrow> int" where
  "computeDepLeverage n graph =
     (let unblocks = length (dependersOf n graph)
      in if unblocks \<ge> 4 then 5 else if unblocks = 3 then 4 else if unblocks = 2 then 3 else if unblocks = 1 then 2 else 1)"

section \<open>Scores\<close>

record ScoreWeights =
  sw_impact :: "rat option"
  sw_confidence :: "rat option"
  sw_ease :: "rat option"
  sw_risk_reduction :: "rat option"
  sw_dep_leverage :: "rat option"

record ScoreBreakdown =
  sb_impact :: int
  sb_confidence :: int
  sb_ease :: int
  sb_effort :: int
  sb_risk_reduction :: int
  sb_dep_leverage :: int

datatype RoadmapTier = Enablers | DependencyUnlock | HighValueLowRisk | LargerBets | Cleanup

datatype EffortSize = SizeXS | SizeS | SizeM | SizeL | SizeXL

definition EFFORT_LABELS :: "int \<Rightarrow> EffortSize option" where
  "EFFORT_LABELS = map_of [(1, SizeXS), (2, SizeS), (3, SizeM), (4, SizeL), (5, SizeXL)]"

definition EFFORT_TO_EASE :: "int \<Rightarrow> int option" where
  "EFFORT_TO_EASE = map_of [(1, 4), (2, 3), (3, 2), (4, 1), (5, 0)]"

record ScoredItem =
  sc_issue_number :: IssueNumber
  sc_priority :: rat
  sc_score_breakdown :: ScoreBreakdown
  sc_tier :: RoadmapTier
  sc_effort :: EffortSize
  sc_risks :: "string list"
  sc_dep_rationale :: string
  sc_touched_files :: "string list"

definition computePriority :: "ScoreBreakdown \<Rightarrow> ScoreWeights \<Rightarrow> rat" where
  "computePriority b w =
     of_int (sb_impact b) * orElse (sw_impact w) 1 * of_int (sb_confidence b) * orElse (sw_confidence w) 1
       * of_int (sb_ease b) * orElse (sw_ease w) 1
     + of_int (sb_risk_reduction b) * orElse (sw_risk_reduction w) 1
     + of_int (sb_dep_leverage b) * orElse (sw_dep_leverage w) 1"

definition extractRisks :: "InventoryItem \<Rightarrow> string list" where
  "extractRisks item =
     (let text' = lowerText item
      in (if rx_test [dotted ''breaking'' ''change'', dotted ''backwards'' ''compat'', Lit ''migration''] text'
          then [''May require migration''] else [])
       @ (if rx_test [Lit ''performance''] text' then [''Performance impact uncertain''] else [])
       @ (if rx_test [Lit ''security''] text' then [''Security-sensitive change''] else [])
       @ (if length (iv_touched_files item) > 10 then [''Wide blast radius''] else []))"

definition issueList :: "IssueNumber list \<Rightarrow> string" where
  "issueList ns = js_join '', '' (map (\<lambda>n. CHR ''#'' # show_int n) ns)"

definition buildDepRationale :: "IssueNumber \<Rightarrow> DepGraph \<Rightarrow> string" where
  "buildDepRationale n graph =
     (let blockedBy = prerequisitesOf n graph; unblocks = dependersOf n graph;
          parts = (if blockedBy \<noteq> [] then [''Blocked by: '' @ issueList blockedBy] else [])
                @ (if unblocks \<noteq> [] then [''Unblocks: '' @ issueList unblocks] else [])
      in if js_join ''; '' parts = [] then ''No hard dependencies'' else js_join ''; '' parts)"

definition scoreItem :: "DepGraph \<Rightarrow> ScoreWeights \<Rightarrow> InventoryItem \<Rightarrow> ScoredItem" where
  "scoreItem graph weights item =
     (let effort = estimateEffort item;
          breakdown = \<lparr>sb_impact = estimateImpact item, sb_confidence = estimateConfidence item,
            sb_ease = orElse (EFFORT_TO_EASE effort) 2, sb_effort = effort,
            sb_risk_reduction = estimateRiskReduction item, sb_dep_leverage = computeDepLeverage (number_of item) graph\<rparr>
      in \<lparr>sc_issue_number = number_of item, sc_priority = computePriority breakdown weights,
          sc_score_breakdown = breakdown, sc_tier = HighValueLowRisk, sc_effort = orElse (EFFORT_LABELS effort) SizeM,
          sc_risks = extractRisks item, sc_dep_rationale = buildDepRationale (number_of item) graph,
          sc_touched_files = iv_touched_files item\<rparr>)"

definition scoreItems :: "InventoryItem list \<Rightarrow> DepGraph \<Rightarrow> ScoreWeights \<Rightarrow> ScoredItem list" where
  "scoreItems items graph weights = map (scoreItem graph weights) items"

section \<open>The order of the roadmap\<close>

definition assignTier :: "IssueNumber \<Rightarrow> InventoryItem \<Rightarrow> DepGraph \<Rightarrow> nat \<Rightarrow> ScoredItem \<Rightarrow> RoadmapTier" where
  "assignTier n item graph topoTier scored =
     (let text' = lowerText item
      in if rx_test [Lit ''refactor'', Lit ''cleanup'', Lit ''deprecat'', dotted ''tech'' ''debt'', dotted ''remove'' ''dead''] text' then Cleanup
         else if rx_test [Lit ''spike'', Lit ''research'', Lit ''investigate'', Lit ''explore''] text' then LargerBets
         else if length (dependersOf n graph) \<ge> 2 \<and> prerequisitesOf n graph = [] then Enablers
         else if topoTier = 0 \<and> sb_dep_leverage (sc_score_breakdown scored) \<ge> 2 then DependencyUnlock
         else if sc_priority scored \<ge> 30 then HighValueLowRisk
         else if sc_priority scored \<ge> 15 then HighValueLowRisk
         else LargerBets)"

definition topoTierMap :: "IssueNumber list list \<Rightarrow> IssueNumber \<rightharpoonup> nat" where
  "topoTierMap tiers = fold (\<lambda>(idx, tier) m. fold (\<lambda>n m. m(n \<mapsto> idx)) tier m) (enumerate 0 tiers) Map.empty"

primrec tierIndex :: "RoadmapTier \<Rightarrow> int" where
  "tierIndex Enablers = 0"
| "tierIndex DependencyUnlock = 1"
| "tierIndex HighValueLowRisk = 2"
| "tierIndex LargerBets = 3"
| "tierIndex Cleanup = 4"

record placed =
  pl_s :: ScoredItem
  pl_item :: InventoryItem
  pl_tier :: RoadmapTier
  pl_topoTierIdx :: nat

definition comparePlaced :: "placed \<Rightarrow> placed \<Rightarrow> int" where
  "comparePlaced a b =
     (if pl_topoTierIdx a \<noteq> pl_topoTierIdx b then int (pl_topoTierIdx a) - int (pl_topoTierIdx b)
      else if tierIndex (pl_tier a) \<noteq> tierIndex (pl_tier b) then tierIndex (pl_tier a) - tierIndex (pl_tier b)
      else if sc_priority (pl_s b) < sc_priority (pl_s a) then - 1
      else if sc_priority (pl_s a) < sc_priority (pl_s b) then 1 else 0)"

record RoadmapEntry =
  re_rank :: int
  re_issue_number :: IssueNumber
  re_title :: string
  re_tier :: RoadmapTier
  re_priority :: rat
  re_score_breakdown :: ScoreBreakdown
  re_dep_rationale :: string
  re_touched_files :: "string list"
  re_effort :: EffortSize
  re_risks :: "string list"
  re_unblocks :: "IssueNumber list"
  re_blocked_by :: "IssueNumber list"

definition place :: "InventoryItem list \<Rightarrow> DepGraph \<Rightarrow> (IssueNumber \<rightharpoonup> nat) \<Rightarrow> ScoredItem \<Rightarrow> placed option" where
  "place items graph tierMap s =
     map_option (\<lambda>item.
        let topoTierIdx = orElse (tierMap (sc_issue_number s)) 0
        in \<lparr>pl_s = s, pl_item = item, pl_tier = assignTier (sc_issue_number s) item graph topoTierIdx s, pl_topoTierIdx = topoTierIdx\<rparr>)
       (itemByNumber items (sc_issue_number s))"

definition entryOf :: "DepGraph \<Rightarrow> nat \<times> placed \<Rightarrow> RoadmapEntry" where
  "entryOf graph ip =
     (case ip of (idx, p) \<Rightarrow>
        (let s = pl_s p
         in \<lparr>re_rank = int idx + 1, re_issue_number = sc_issue_number s, re_title = is_title (iv_issue (pl_item p)),
             re_tier = pl_tier p, re_priority = sc_priority s, re_score_breakdown = sc_score_breakdown s,
             re_dep_rationale = sc_dep_rationale s, re_touched_files = sc_touched_files s, re_effort = sc_effort s,
             re_risks = sc_risks s, re_unblocks = dependersOf (sc_issue_number s) graph,
             re_blocked_by = prerequisitesOf (sc_issue_number s) graph\<rparr>))"

text \<open>A scored issue without an inventory item makes the code read a property of \<open>undefined\<close>: \<open>None\<close>.\<close>

definition applyDepAdjustment :: "ScoredItem list \<Rightarrow> InventoryItem list \<Rightarrow> DepGraph \<Rightarrow> RoadmapEntry list option" where
  "applyDepAdjustment scored items graph =
     (case topoSort (map sc_issue_number scored) (dg_must_precede graph) of (topoTiers, _) \<Rightarrow>
        (let withTiers = map (place items graph (topoTierMap topoTiers)) scored
         in if None \<in> set withTiers then None
            else Some (map (entryOf graph) (enumerate 0 (js_sort comparePlaced (map the withTiers))))))"

definition compareEntries :: "RoadmapEntry \<Rightarrow> RoadmapEntry \<Rightarrow> int" where
  "compareEntries a b =
     (if tierIndex (re_tier a) \<noteq> tierIndex (re_tier b) then tierIndex (re_tier a) - tierIndex (re_tier b)
      else if re_priority b < re_priority a then - 1
      else if re_priority a < re_priority b then 1 else 0)"

definition sortRoadmapByTier :: "RoadmapEntry list \<Rightarrow> RoadmapEntry list" where
  "sortRoadmapByTier entries =
     map (\<lambda>(idx, e). e\<lparr>re_rank := int idx + 1\<rparr>) (enumerate 0 (js_sort compareEntries entries))"

section \<open>The roadmap respects the dependencies\<close>

interpretation placed_order: comparator comparePlaced
  by unfold_locales (auto simp: comparePlaced_def split: if_splits)

lemma tier_fold: "fold (\<lambda>n m. m(n \<mapsto> idx)) tier m = (\<lambda>n. if n \<in> set tier then Some idx else m n)"
  by (induction tier arbitrary: m) (auto simp: fun_eq_iff)

lemma topoTierMap_nth:
  "distinct (concat tiers) \<Longrightarrow> i < length tiers \<Longrightarrow> n \<in> set (tiers ! i) \<Longrightarrow> topoTierMap tiers n = Some i"
proof (induction tiers rule: rev_induct)
  case (snoc t ts)
  have m: "topoTierMap (ts @ [t]) = (\<lambda>n. if n \<in> set t then Some (length ts) else topoTierMap ts n)"
    unfolding topoTierMap_def by (simp add: enumerate_append_eq tier_fold)
  show ?case
  proof (cases "i < length ts")
    case True
    with snoc.prems have "n \<in> set (ts ! i)" by (simp add: nth_append)
    with True have "n \<in> set (concat ts)" by (auto intro!: bexI [of _ "ts ! i"])
    with snoc.prems(1) have "n \<notin> set t" by auto
    with m snoc True \<open>n \<in> set (ts ! i)\<close> show ?thesis by simp
  next
    case False
    with snoc.prems(2) have "i = length ts" by simp
    with snoc.prems(3) m show ?thesis by simp
  qed
qed simp

text \<open>Every scored issue of the inventory is placed, at the index of its layer.\<close>

lemma place_Some:
  assumes "s \<in> set (scoreItems items graph weights)"
  shows "\<exists>p. place items graph tm s = Some p \<and> pl_s p = s \<and> pl_topoTierIdx p = orElse (tm (sc_issue_number s)) 0"
proof -
  from assms have "sc_issue_number s \<in> numbers items" by (auto simp: scoreItems_def scoreItem_def Let_def)
  then obtain item where "itemByNumber items (sc_issue_number s) = Some item" using itemByNumber_iff by blast
  then show ?thesis by (simp add: place_def Let_def)
qed

lemma scored_numbers: "map sc_issue_number (scoreItems items graph weights) = map number_of items"
  by (simp add: scoreItems_def scoreItem_def Let_def)

lemma sorted_by_layer:
  assumes "i < length xs" "j < length xs"
    "pl_topoTierIdx (js_sort comparePlaced xs ! i) < pl_topoTierIdx (js_sort comparePlaced xs ! j)"
  shows "i < j"
proof (rule ccontr)
  assume "\<not> i < j"
  with assms(3) have "j < i" by (cases "i = j") auto
  with assms(1) have "comparePlaced (js_sort comparePlaced xs ! j) (js_sort comparePlaced xs ! i) \<le> 0"
    using sorted_wrt_nth_less [OF placed_order.sorted_sort [of xs], of j i] by simp
  with assms(3) show False by (simp add: comparePlaced_def split: if_splits)
qed

lemma layer_of:
  assumes "layered E V tiers bad" "E \<subseteq> V \<times> V" "(m, n) \<in> E" "n \<notin> bad"
  shows "\<exists>a b. topoTierMap tiers m = Some a \<and> topoTierMap tiers n = Some b \<and> a < b"
proof -
  have d: "distinct (concat tiers)" "set (concat tiers) = V" using assms(1) by (auto simp: layered_def)
  then obtain a b where ab: "a < length tiers" "m \<in> set (tiers ! a)" "b < length tiers" "n \<in> set (tiers ! b)"
    using assms(2,3) by (auto simp: set_conv_nth [of tiers])
  then have "a < b" using assms(1,3,4) unfolding layered_def by blast
  with ab topoTierMap_nth [OF d(1)] show ?thesis by blast
qed

text \<open>C34: scoring an inventory and ordering it always yields a roadmap, in which every issue of the inventory
  occurs as often as there and the ranks count from one. For every hard edge between two issues of the inventory
  such that no cycle of hard edges leads to the depender, every entry of the prerequisite comes before every
  entry of the depender, whatever the weights, the labels and the texts are.\<close>

theorem roadmap_respects_dependencies:
  assumes "E = edge_rel (numbers items) (dg_must_precede graph)"
  shows "\<exists>entries. applyDepAdjustment (scoreItems items graph weights) items graph = Some entries
    \<and> mset (map re_issue_number entries) = mset (map number_of items)
    \<and> (\<forall>i < length entries. re_rank (entries ! i) = int i + 1)
    \<and> (\<forall>i j. i < length entries \<longrightarrow> j < length entries \<longrightarrow> (re_issue_number (entries ! i), re_issue_number (entries ! j)) \<in> E
        \<longrightarrow> (\<nexists>c. (c, c) \<in> E\<^sup>+ \<and> (c, re_issue_number (entries ! j)) \<in> E\<^sup>*) \<longrightarrow> i < j)"
proof -
  let ?scored = "scoreItems items graph weights"
  obtain tiers reports where t: "topoSort (map sc_issue_number ?scored) (dg_must_precede graph) = (tiers, reports)" by force
  note L = topoSort_layered [OF t [unfolded scored_numbers] assms]
  let ?place = "\<lambda>s. the (place items graph (topoTierMap tiers) s)"
  let ?sorted = "js_sort comparePlaced (map ?place ?scored)"
  let ?entries = "map (entryOf graph) (enumerate 0 ?sorted)"
  have placed: "place items graph (topoTierMap tiers) s \<noteq> None \<and> pl_s (?place s) = s
      \<and> pl_topoTierIdx (?place s) = orElse (topoTierMap tiers (sc_issue_number s)) 0" if "s \<in> set ?scored" for s
    using place_Some [OF that, of "topoTierMap tiers"] by auto
  then have run: "applyDepAdjustment ?scored items graph = Some ?entries"
    using t by (force simp: applyDepAdjustment_def Let_def comp_def)
  have entry: "re_issue_number (?entries ! i) = sc_issue_number (pl_s (?sorted ! i))" "re_rank (?entries ! i) = int i + 1"
    if "i < length ?entries" for i
    using that by (simp_all add: entryOf_def nth_enumerate_eq Let_def)
  have "map re_issue_number ?entries = map (\<lambda>p. sc_issue_number (pl_s p)) ?sorted"
    by (rule nth_equalityI) (simp_all add: entryOf_def nth_enumerate_eq Let_def)
  then have "mset (map re_issue_number ?entries) = mset (map (\<lambda>p. sc_issue_number (pl_s p)) (map ?place ?scored))"
    by (simp only: mset_map mset_js_sort)
  also have "map (\<lambda>p. sc_issue_number (pl_s p)) (map ?place ?scored) = map number_of items"
    using placed scored_numbers [of items graph weights] by (simp cong: map_cong)
  finally have perm: "mset (map re_issue_number ?entries) = mset (map number_of items)" .
  have "i < j" if ij: "i < length ?entries" "j < length ?entries" "(re_issue_number (?entries ! i), re_issue_number (?entries ! j)) \<in> E"
      "\<nexists>c. (c, c) \<in> E\<^sup>+ \<and> (c, re_issue_number (?entries ! j)) \<in> E\<^sup>*" for i j
  proof (rule sorted_by_layer [of _ "map ?place ?scored"])
    let ?a = "?sorted ! i" and ?b = "?sorted ! j"
    have "?a \<in> set ?sorted" "?b \<in> set ?sorted" using ij(1,2) by (simp_all del: set_js_sort)
    then have idx: "pl_topoTierIdx ?a = orElse (topoTierMap tiers (sc_issue_number (pl_s ?a))) 0"
        "pl_topoTierIdx ?b = orElse (topoTierMap tiers (sc_issue_number (pl_s ?b))) 0"
      using placed by auto
    have V: "E \<subseteq> set (map number_of items) \<times> set (map number_of items)" using assms by (auto simp: edge_rel_def)
    from layer_of [OF L(1) V ij(3)] ij(4) L(3) idx entry(1) ij(1,2)
    show "pl_topoTierIdx ?a < pl_topoTierIdx ?b" by auto
  qed (use ij(1,2) in simp_all)
  with run perm entry(2) show ?thesis by blast
qed


definition exampleGraph :: "DepEdge list \<Rightarrow> DepGraph" where
  "exampleGraph edges = emptyGraph\<lparr>dg_must_precede := edges\<rparr>"

definition noWeights :: ScoreWeights where
  "noWeights = \<lparr>sw_impact = None, sw_confidence = None, sw_ease = None, sw_risk_reduction = None, sw_dep_leverage = None\<rparr>"

definition exampleBacklog :: "InventoryItem list" where
  "exampleBacklog = [exampleItem 3 ''fix the crash'' [], exampleItem 2 ''plain'' [], exampleItem 1 ''tidy the docs'' [], exampleItem 4 ''plain'' []]"

definition exampleRoadmap :: "DepEdge list \<Rightarrow> RoadmapEntry list option" where
  "exampleRoadmap edges =
     applyDepAdjustment (scoreItems exampleBacklog (exampleGraph edges) noWeights) exampleBacklog (exampleGraph edges)"

theorem roadmap_respects_dependencies_witness:
  "\<exists>entries. exampleRoadmap [exampleEdge 1 2, exampleEdge 2 3] = Some entries
     \<and> map re_issue_number entries = [1, 4, 2, 3] \<and> (\<forall>i < 4. re_rank (entries ! i) = int i + 1)"
proof -
  obtain entries where e: "exampleRoadmap [exampleEdge 1 2, exampleEdge 2 3] = Some entries"
      "\<forall>i < length entries. re_rank (entries ! i) = int i + 1"
    using roadmap_respects_dependencies [OF refl, of exampleBacklog "exampleGraph [exampleEdge 1 2, exampleEdge 2 3]" noWeights]
    unfolding exampleRoadmap_def by blast
  moreover have "map_option (map re_issue_number) (exampleRoadmap [exampleEdge 1 2, exampleEdge 2 3]) = Some [1, 4, 2, 3]" by code_simp
  ultimately have o: "map re_issue_number entries = [1, 4, 2, 3]" by simp
  have "length entries = 4" using arg_cong [OF o, of length] by simp
  with e o show ?thesis by auto
qed

text \<open>Behind a cycle the order is lost even where the edges determine it: the third issue lies on no cycle, its
  only prerequisite is the second issue, and it is ranked before it.\<close>

lemma behind_cycle_misordered:
  "map_option (map re_issue_number) (exampleRoadmap [exampleEdge 1 2, exampleEdge 2 1, exampleEdge 2 3]) = Some [4, 3, 2, 1]
   \<and> map cr_issues (snd (topoSort [3, 2, 1, 4] [exampleEdge 1 2, exampleEdge 2 1, exampleEdge 2 3])) = [[3, 2, 1]]"
  by code_simp

end
