(* ===== verification/Ledger_Spec.thy ===== *)
theory Ledger_Spec
  imports Loop_Run
begin

text \<open>
  What the mutating operations of the engine promise about a ledger, whatever their details: the
  abstract item machine, in which at most one item moves per step along a permitted edge and the move
  is the next entry of its history; an item that enters a state only the outside world can prove does so
  with an observed identity that shows it; and the well-formedness of ledgers, which such steps keep.
\<close>

section \<open>The item machine\<close>

type_synonym moves = "(LoopItemState \<times> LoopItemState) set"

text \<open>The states only the outside world can prove, and what an observed identity must show for them.\<close>

fun remoteProof :: "LoopItemState \<Rightarrow> LoopExternalIdentity \<Rightarrow> bool" where
  "remoteProof PrOpened i \<longleftrightarrow> ei_pr_number i \<noteq> None \<and> ei_pr_state i = Some PrOpen"
| "remoteProof Ready i \<longleftrightarrow> ei_pr_number i \<noteq> None \<and> ei_pr_state i = Some PrOpen \<and> ei_ready_label_present i"
| "remoteProof Merged i \<longleftrightarrow> ei_pr_state i = Some PrMerged"
| "remoteProof Released i \<longleftrightarrow> ei_pr_state i = Some PrMerged"
| "remoteProof Deployed i \<longleftrightarrow> ei_pr_state i = Some PrMerged"
| "remoteProof _ i \<longleftrightarrow> True"

definition remoteState :: "LoopItemState \<Rightarrow> bool" where
  "remoteState s \<longleftrightarrow> s \<in> {PrOpened, Ready, Merged, Released, Deployed}"

text \<open>An item in such a state carries an identity that shows it.\<close>

definition verified :: "LoopItemLedgerEntry \<Rightarrow> bool" where
  "verified item \<longleftrightarrow> (remoteState (le_state item) \<longrightarrow>
     (\<exists>i. le_last_verified_identity item = Some i \<and> remoteProof (le_state item) i))"

text \<open>An item either stays where it is with the identity it has, or ends verified.\<close>

definition verified_step :: "LoopItemLedgerEntry \<Rightarrow> LoopItemLedgerEntry \<Rightarrow> bool" where
  "verified_step a b \<longleftrightarrow> le_state b = le_state a \<and> le_last_verified_identity b = le_last_verified_identity a \<or> verified b"

definition item_spec :: "moves \<Rightarrow> LoopItemLedgerEntry \<Rightarrow> LoopItemLedgerEntry \<Rightarrow> bool" where
  "item_spec moves a b \<longleftrightarrow> le_id b = le_id a \<and> verified_step a b
     \<and> (le_state b = le_state a \<and> le_history b = le_history a
        \<or> (le_state a, le_state b) \<in> moves
          \<and> (\<exists>h. le_history b = le_history a @ [h] \<and> he_from h = le_state a \<and> he_to h = le_state b))"

definition ledger_spec :: "moves \<Rightarrow> LoopLedger \<Rightarrow> LoopLedger \<Rightarrow> bool" where
  "ledger_spec moves l next \<longleftrightarrow> ll_run_id next = ll_run_id l \<and> rec_keys (ll_items next) = rec_keys (ll_items l)
     \<and> (\<forall>i. rel_option (item_spec moves) (rec_get (ll_items l) i) (rec_get (ll_items next) i))
     \<and> (\<exists>j. \<forall>i. i \<noteq> j \<longrightarrow> itemState next i = itemState l i)"

text \<open>A step that leaves states and histories alone.\<close>

definition same_items :: "LoopLedger \<Rightarrow> LoopLedger \<Rightarrow> bool" where
  "same_items l next \<longleftrightarrow> ll_run_id next = ll_run_id l \<and> rec_keys (ll_items next) = rec_keys (ll_items l)
     \<and> (\<forall>i. rel_option (item_spec {}) (rec_get (ll_items l) i) (rec_get (ll_items next) i))"

lemma verified_step_refl [simp]: "verified_step a a"
  by (simp add: verified_step_def)

lemma verified_step_trans: "verified_step a b \<Longrightarrow> verified_step b c \<Longrightarrow> verified_step a c"
  by (auto simp: verified_step_def verified_def)

lemma verified_local: "\<not> remoteState (le_state item) \<Longrightarrow> verified item"
  by (simp add: verified_def)

lemma verified_kept: "verified a \<Longrightarrow> verified_step a b \<Longrightarrow> verified b"
  by (auto simp: verified_step_def verified_def)

lemma ledger_spec_file: "ledger_spec moves l next \<Longrightarrow> same_file l next"
  by (simp add: ledger_spec_def same_file_def)

lemma item_spec_refl [simp]: "item_spec moves a a"
  by (simp add: item_spec_def)

lemma item_spec_empty: "item_spec {} a b
    \<longleftrightarrow> le_id b = le_id a \<and> verified_step a b \<and> le_state b = le_state a \<and> le_history b = le_history a"
  by (auto simp: item_spec_def)

lemma same_items_refl [simp]: "same_items l l"
  by (simp add: same_items_def option.rel_refl)

lemma same_items_state: "same_items l next \<Longrightarrow> itemState next i = itemState l i"
proof -
  assume "same_items l next"
  then have "rel_option (item_spec {}) (rec_get (ll_items l) i) (rec_get (ll_items next) i)"
    by (simp add: same_items_def)
  then show "itemState next i = itemState l i"
    by (cases "rec_get (ll_items l) i"; cases "rec_get (ll_items next) i") (auto simp: itemState_def item_spec_empty)
qed

lemma rel_option_spec_trans:
  "rel_option (item_spec moves) x y \<Longrightarrow> rel_option (item_spec {}) y z \<Longrightarrow> rel_option (item_spec moves) x z"
  "rel_option (item_spec {}) x y \<Longrightarrow> rel_option (item_spec moves) y z \<Longrightarrow> rel_option (item_spec moves) x z"
  by (cases x; cases y; cases z; force simp: item_spec_def dest: verified_step_trans)+

lemma ledger_spec_same [trans]:
  assumes "ledger_spec moves l m" "same_items m n"
  shows "ledger_spec moves l n"
  using assms rel_option_spec_trans(1) same_items_state [OF assms(2)]
  unfolding ledger_spec_def same_items_def by metis

lemma same_ledger_spec [trans]:
  assumes "same_items l m" "ledger_spec moves m n"
  shows "ledger_spec moves l n"
  using assms rel_option_spec_trans(2) same_items_state [OF assms(1)]
  unfolding ledger_spec_def same_items_def by metis

lemma same_items_trans [trans]: "same_items l m \<Longrightarrow> same_items m n \<Longrightarrow> same_items l n"
  using rel_option_spec_trans(1) unfolding same_items_def by metis

lemma ledger_spec_of_same: "same_items l n \<Longrightarrow> ledger_spec moves l n"
proof -
  have "rel_option (item_spec moves) x y" if "rel_option (item_spec {}) x y" for x y
    using that by (rule option.rel_mono_strong) (auto simp: item_spec_def)
  then show "same_items l n \<Longrightarrow> ?thesis"
    unfolding ledger_spec_def using same_items_state by (auto simp: same_items_def)
qed

lemma ledger_spec_mono: "ledger_spec moves l n \<Longrightarrow> moves \<subseteq> moves' \<Longrightarrow> ledger_spec moves' l n"
proof -
  assume m: "moves \<subseteq> moves'"
  have "rel_option (item_spec moves') x y" if "rel_option (item_spec moves) x y" for x y
    using that by (rule option.rel_mono_strong) (use m in \<open>auto simp: item_spec_def\<close>)
  then show "ledger_spec moves l n \<Longrightarrow> ?thesis" unfolding ledger_spec_def by blast
qed

lemma updateItem_spec:
  assumes "\<And>item. rec_get (ll_items l) i = Some item \<Longrightarrow> item_spec moves item (f item)"
  shows "ledger_spec moves l (updateItem i f l)"
proof (cases "rec_get (ll_items l) i")
  case (Some item)
  then have "rec_keys (rec_put i (f item) (ll_items l)) = rec_keys (ll_items l)"
    by (intro rec_keys_put_present rec_get_in_keys)
  with Some assms show ?thesis
    by (auto simp: updateItem_def ledger_spec_def itemState_def option.rel_refl intro!: exI [of _ i])
qed (simp add: updateItem_def ledger_spec_of_same)

lemma updateItem_same:
  assumes "\<And>item. rec_get (ll_items l) i = Some item \<Longrightarrow> item_spec {} item (f item)"
  shows "same_items l (updateItem i f l)"
proof (cases "rec_get (ll_items l) i")
  case (Some item)
  then have "rec_keys (rec_put i (f item) (ll_items l)) = rec_keys (ll_items l)"
    by (intro rec_keys_put_present rec_get_in_keys)
  with Some assms show ?thesis by (auto simp: updateItem_def same_items_def option.rel_refl)
qed (simp add: updateItem_def)

lemma same_items_fields:
  "ll_items next = ll_items l \<Longrightarrow> ll_run_id next = ll_run_id l \<Longrightarrow> same_items l next"
  by (simp add: same_items_def option.rel_refl)

lemma normalize_same [simp]: "same_items l (normalizeLedger sha policy l)"
  by (simp add: same_items_fields)

lemma upgrade_same [simp]: "same_items l (upgradeLedgerForRecovery sha l)"
proof -
  have "item_spec {} item (upgradeItemTheme item)" for item
    by (auto simp: item_spec_def upgradeItemTheme_def verified_step_def split: option.splits sum.splits)
  moreover have "rec_keys (ll_items (upgradeLedgerForRecovery sha l)) = rec_keys (ll_items l)"
    by (simp add: upgradeLedgerForRecovery_def rec_keys_def)
  ultimately show ?thesis
    by (auto simp: same_items_def upgradeLedger_items option.rel_map option.rel_refl)
qed

section \<open>Well-formed ledgers\<close>

text \<open>The history of an item is a connected walk that ends in the item's state.\<close>

definition chained :: "LoopHistoryEntry list \<Rightarrow> LoopItemState \<Rightarrow> bool" where
  "chained hs s \<longleftrightarrow> (hs \<noteq> [] \<longrightarrow> he_to (last hs) = s)
     \<and> (\<forall>k. Suc k < length hs \<longrightarrow> he_to (hs ! k) = he_from (hs ! Suc k))"

definition item_wf :: "LoopItemLedgerEntry \<Rightarrow> bool" where
  "item_wf item \<longleftrightarrow> chained (le_history item) (le_state item)
     \<and> (le_state item = Blocked \<longrightarrow> Option.bind (le_blocked_theme item) blockerClassOf \<noteq> None)
     \<and> list_all (\<lambda>n. n \<ge> 0) (rec_values (le_recovery_budgets_remaining item))
     \<and> orElse (le_repeated_evidence_count item) 0 \<ge> 0 \<and> verified item"

text \<open>The attempts carry their core fields and are numbered densely; no two share an idempotency id.\<close>

definition filled :: "LoopRecoveryAttempt \<Rightarrow> bool" where
  "filled a \<longleftrightarrow> ra_attempt_id a \<noteq> None \<and> ra_candidate_identity a \<noteq> None \<and> ra_action a \<noteq> None
     \<and> ra_budget_remaining a \<noteq> None"

definition attempts_wf :: "LoopRecoveryAttempt list \<Rightarrow> bool" where
  "attempts_wf as \<longleftrightarrow> map ra_seq as = map int [0..<length as] \<and> distinct (map ra_attempt_id as) \<and> list_all filled as"

definition ledger_wf :: "LoopLedger \<Rightarrow> bool" where
  "ledger_wf l \<longleftrightarrow> (\<forall>i item. rec_get (ll_items l) i = Some item \<longrightarrow> item_wf item) \<and> attempts_wf (attemptsOf l)"

lemma chained_append: "chained hs s \<Longrightarrow> he_from h = s \<Longrightarrow> he_to h = t \<Longrightarrow> chained (hs @ [h]) t"
proof -
  assume c: "chained hs s" and h: "he_from h = s" "he_to h = t"
  have "he_to ((hs @ [h]) ! k) = he_from ((hs @ [h]) ! Suc k)" if "Suc k < length (hs @ [h])" for k
  proof (cases "Suc k = length hs")
    case True
    then have "hs \<noteq> []" "k = length hs - 1" by auto
    then have "hs \<noteq> []" "hs ! k = last hs" by (simp_all add: last_conv_nth)
    with True c h show ?thesis by (simp add: chained_def nth_append)
  qed (use that c in \<open>simp add: chained_def nth_append\<close>)
  with h show "chained (hs @ [h]) t" by (simp add: chained_def)
qed

text \<open>The attempts are mapped one by one without touching the fields that identify them.\<close>

definition keeps_identity :: "(LoopRecoveryAttempt \<Rightarrow> LoopRecoveryAttempt) \<Rightarrow> bool" where
  "keeps_identity f \<longleftrightarrow> (\<forall>a. filled a \<longrightarrow> ra_seq (f a) = ra_seq a \<and> ra_attempt_id (f a) = ra_attempt_id a \<and> filled (f a))"

lemma attempts_wf_map: "keeps_identity f \<Longrightarrow> attempts_wf as \<Longrightarrow> attempts_wf (map f as)"
proof -
  assume f: "keeps_identity f" and as: "attempts_wf as"
  then have "map ra_seq (map f as) = map ra_seq as" "map ra_attempt_id (map f as) = map ra_attempt_id as"
    by (simp_all add: keeps_identity_def attempts_wf_def list_all_iff cong: map_cong)
  moreover have "list_all filled (map f as)" using f as by (auto simp: keeps_identity_def attempts_wf_def list_all_iff)
  ultimately show ?thesis using as by (simp only: attempts_wf_def length_map)
qed

lemma attempts_wf_snoc:
  "attempts_wf as \<Longrightarrow> filled a \<Longrightarrow> ra_seq a = int (length as) \<Longrightarrow> ra_attempt_id a \<notin> ra_attempt_id ` set as
    \<Longrightarrow> attempts_wf (as @ [a])"
  by (simp add: attempts_wf_def)

lemma keeps_identity_normalize: "keeps_identity (normalizeStartedAttempt sha)"
  by (auto simp: keeps_identity_def filled_def normalizeStartedAttempt_def Let_def)

lemma keeps_identity_upgrade: "keeps_identity (upgradeAttempt sha)"
proof -
  have "upgradeAttempt sha a = normalizeStartedAttempt sha a" if "filled a" for a
    using that upgradeAttempt_filled by (auto simp: filled_def)
  then show ?thesis using keeps_identity_normalize by (simp add: keeps_identity_def)
qed

lemma keeps_identity_rebase: "keeps_identity rebaseAttempt"
  by (auto simp: keeps_identity_def filled_def rebaseAttempt_def split: option.splits)

lemma attempts_normalize:
  "attempts_wf (attemptsOf l) \<Longrightarrow> attempts_wf (attemptsOf (normalizeLedger sha policy l))"
proof (cases "ll_recovery_attempts l")
  case (Some as)
  let ?f = "\<lambda>a. let n = normalizeStartedAttempt sha a in if policyNeedsRebase policy then rebaseAttempt n else n"
  have "keeps_identity ?f"
    using keeps_identity_normalize keeps_identity_rebase by (simp add: keeps_identity_def Let_def)
  moreover assume "attempts_wf (attemptsOf l)"
  ultimately show ?thesis using Some attempts_wf_map [of ?f as] by (simp add: attemptsOf_def normalizeLedger_def)
qed (simp add: attemptsOf_def normalizeLedger_def)

lemma attempts_upgrade:
  "attempts_wf (attemptsOf l) \<Longrightarrow> attempts_wf (attemptsOf (upgradeLedgerForRecovery sha l))"
  using attempts_wf_map [OF keeps_identity_upgrade] by (simp add: attemptsOf_def upgradeLedgerForRecovery_def)

lemma item_wf_upgrade: "item_wf item \<Longrightarrow> item_wf (upgradeItemTheme item)"
  by (auto simp: item_wf_def upgradeItemTheme_def verified_def split: option.splits sum.splits)

lemma wf_normalize: "ledger_wf l \<Longrightarrow> ledger_wf (normalizeLedger sha policy l)"
  by (simp add: ledger_wf_def attempts_normalize)

lemma wf_upgrade: "ledger_wf l \<Longrightarrow> ledger_wf (upgradeLedgerForRecovery sha l)"
  by (auto simp: ledger_wf_def attempts_upgrade upgradeLedger_items item_wf_upgrade)

lemma wf_updateItem:
  assumes "ledger_wf l" "\<And>item. rec_get (ll_items l) i = Some item \<Longrightarrow> item_wf item \<Longrightarrow> item_wf (f item)"
  shows "ledger_wf (updateItem i f l)"
proof -
  have "attemptsOf (updateItem i f l) = attemptsOf l" by simp
  moreover have "item_wf item" if "rec_get (ll_items (updateItem i f l)) j = Some item" for j item
    using that assms by (auto simp: updateItem_def ledger_wf_def split: option.splits if_splits)
  ultimately show ?thesis using assms(1) by (simp add: ledger_wf_def)
qed

end
