(* ===== verification/Recovery.thy ===== *)
theory Recovery
  imports Ledger_Spec Evidence_Text
begin

text \<open>
  The mutating half of \<open>core/scripts/loop/recovery.ts\<close>: blocking an item with a classified blocker,
  claiming one recovery action before its side effect, completing the claim, and recording Cooling.
  Each operation reads the run's ledger, decides, writes the next ledger under the caller's token and
  appends its events; the ledgers it computes are separate definitions here. \<open>mint\<close> is the value
  the random mint of logical-operation ids would return, \<open>showNum\<close> the language's text of a number.
\<close>

section \<open>Inputs\<close>

text \<open>An own property that may hold \<open>undefined\<close> is an option of an option.\<close>

record BlockItemInput =
  bi_runId :: string
  bi_token :: string
  bi_itemId :: string
  bi_engine :: LoopEngineName
  bi_blockerClass :: string
  bi_evidence :: string
  bi_blockerCandidateEpoch :: "string option option"
  bi_blockerCandidateHead :: "string option option"
  bi_note :: "string option"
  bi_allowAlreadyStopped :: bool

record StartRecoveryAttemptInput =
  sa_runId :: string
  sa_token :: string
  sa_itemId :: string
  sa_engine :: LoopEngineName
  sa_action :: RecoveryRecipe
  sa_candidateIdentity :: "string option"
  sa_operation :: "string option"
  sa_invariant :: "string option"
  sa_candidateEpoch :: "string option"
  sa_evidenceIdentity :: "string option"
  sa_skipInapplicable :: bool

record CompleteRecoveryAttemptInput =
  ca_runId :: string
  ca_token :: string
  ca_itemId :: string
  ca_engine :: LoopEngineName
  ca_attemptId :: string
  ca_succeeded :: bool
  ca_error :: "string option"

record RecoverItemInput =
  rv_runId :: string
  rv_token :: string
  rv_itemId :: string
  rv_engine :: LoopEngineName
  rv_actions :: "RecoveryRecipe list"
  rv_candidateIdentity :: "string option"
  rv_succeeded :: bool
  rv_error :: "string option"

section \<open>Shared guards\<close>

fun lifecycleStateName :: "RecoveryLifecycleState \<Rightarrow> string" where
  "lifecycleStateName Active = ''active''"
| "lifecycleStateName Cooling = ''cooling''"
| "lifecycleStateName ExternalConditionWait = ''external-condition-wait''"
| "lifecycleStateName TypedInputWait = ''typed-input-wait''"
| "lifecycleStateName Succeeded = ''succeeded''"
| "lifecycleStateName Cancelled = ''cancelled''"

definition admitRecoveryLifecycle :: "LoopContract \<Rightarrow> LoopLedger \<Rightarrow> timestamp \<Rightarrow> string \<Rightarrow> LoopLedger" where
  "admitRecoveryLifecycle contract ledger updatedAt mint =
     (let logicalOperationId = resolveLogicalOperationId (map_option dl_logical_operation_id (ll_lifecycle ledger))
            (lc_logical_operation_id contract) None None mint;
          facts = emptyDerivation\<lparr>in_typedRequest := typedRequestFromOwnedItems (ll_items ledger),
            in_cooling := ll_cooling ledger \<noteq> None,
            in_stopReason := map_option (\<lambda>s. stopReasonName (st_reason s)) (ll_stop ledger),
            in_activeAttempt := True\<rparr>;
          ownership = (case ll_lifecycle ledger of
             Some r \<Rightarrow> consultLifecycleRecord (Some r) facts | None \<Rightarrow> deriveLifecycleState facts)
      in bindLifecycleRecord ledger logicalOperationId ownership updatedAt)"

definition requireLifecycle :: "LoopLedger \<Rightarrow> string \<Rightarrow> unit result" where
  "requireLifecycle ledger itemId =
     (if lifecycleAllowsRecoveryRecipe (ll_lifecycle ledger) (rec_get (ll_items ledger) itemId) then Inr ()
      else Inl (LoopError Stop (''logical operation lifecycle is ''
             @ lifecycleStateName (lo_state (consultLifecycleRecord (ll_lifecycle ledger) emptyDerivation)))))"

definition recoverableLedger :: "LoopStoreDeps \<Rightarrow> string \<Rightarrow> LoopLedger run_io" where
  "recoverableLedger deps runId =
     io_bind (readRunLedger deps runId) (\<lambda>l. io_return (upgradeLedgerForRecovery (de_sha256 deps) l))"

section \<open>Blocking an item\<close>

definition isSha40 :: "string \<Rightarrow> bool" where
  "isSha40 s \<longleftrightarrow> length s = 40 \<and> list_all hex_char (js_lower s)"

definition verifiedHead :: "LoopItemLedgerEntry \<Rightarrow> string" where
  "verifiedHead item = (case le_last_verified_identity item of None \<Rightarrow> [] | Some i \<Rightarrow> js_trim (ei_head_sha i))"

text \<open>The candidate epoch and head recorded with a block, each empty when it is not a full hash.\<close>

definition blockBoundary :: "BlockItemInput \<Rightarrow> LoopItemLedgerEntry \<Rightarrow> string \<times> string" where
  "blockBoundary input item =
     (let verifiedEpoch = recoveryEpisodeCandidateEpoch (Some item) (verifiedHead item);
          hasExplicitBoundary = (bi_blockerCandidateEpoch input \<noteq> None \<or> bi_blockerCandidateHead input \<noteq> None);
          candidateEpochInput = (if hasExplicitBoundary
            then trimmed (Option.bind (bi_blockerCandidateEpoch input) (\<lambda>x. x)) else verifiedEpoch);
          candidateHeadInput = (if hasExplicitBoundary
            then trimmed (Option.bind (bi_blockerCandidateHead input) (\<lambda>x. x)) else verifiedHead item);
          epoch = (if isSha40 candidateEpochInput then candidateEpochInput else []);
          head = (if epoch \<noteq> [] \<and> isSha40 candidateHeadInput then candidateHeadInput else [])
      in (epoch, head))"

definition repeatedCount :: "LoopItemLedgerEntry \<Rightarrow> string \<Rightarrow> int" where
  "repeatedCount item fingerprint =
     (if le_evidence_fingerprint item = Some fingerprint then orElse (le_repeated_evidence_count item) 0 + 1 else 0)"

definition blockedEntry ::
  "BlockItemInput \<Rightarrow> DurableBlockerClass \<Rightarrow> string \<Rightarrow> timestamp \<Rightarrow> LoopItemLedgerEntry \<Rightarrow> LoopItemLedgerEntry" where
  "blockedEntry input cls fingerprint time item =
     (let (epoch, head) = blockBoundary input item
      in item\<lparr>le_state := Blocked, le_blocked_theme := Some (blockerClassName cls),
          le_evidence_fingerprint := Some fingerprint,
          le_blocker_candidate_epoch := Some epoch,
          le_blocker_candidate_head := (if head \<noteq> [] then Some head else None),
          le_repeated_evidence_count := Some (repeatedCount item fingerprint),
          le_history := le_history item @
            [\<lparr>he_time = time, he_from = le_state item, he_to = Blocked, he_engine = bi_engine input,
              he_theme = Some (blockerClassName cls), he_evidence = Some (bi_evidence input), he_note = bi_note input\<rparr>]\<rparr>)"

definition blockLedger ::
  "LoopContract \<Rightarrow> BlockItemInput \<Rightarrow> DurableBlockerClass \<Rightarrow> string \<Rightarrow> timestamp \<Rightarrow> string \<Rightarrow> LoopLedger \<Rightarrow> LoopLedger" where
  "blockLedger contract input cls fingerprint time mint ledger =
     (let blocked = updateItem (bi_itemId input) (blockedEntry input cls fingerprint time) ledger;
          stopped = (if ll_stop blocked = None \<and> pe_terminal_outcome (policyEntryFor contract cls) = HumanAuthority
            then blocked\<lparr>ll_stop := Some \<lparr>st_reason = HumanAuthorityStop, st_time = time,
                   st_item_id = Some (bi_itemId input), st_theme = Some (blockerClassName cls), st_limit = None,
                   st_fingerprint = None, st_deadlock_chain = None,
                   st_outstanding_ready = outstandingReadyItemIds blocked\<rparr>\<rparr>
            else blocked)
      in admitRecoveryLifecycle contract stopped time mint)"

definition requireInProgress :: "string \<Rightarrow> string \<Rightarrow> LoopLedger \<Rightarrow> LoopItemLedgerEntry result" where
  "requireInProgress runId itemId ledger =
     (case rec_get (ll_items ledger) itemId of
        None \<Rightarrow> Inl (LoopError Validation (''item '' @ quoted itemId @ '' not found in run '' @ quoted runId))
      | Some item \<Rightarrow> if le_state item \<noteq> InProgress
          then Inl (LoopError Validation (''item '' @ quoted itemId @ '' cannot block from state ''
                 @ quoted (itemStateName (le_state item))
                 @ '' -- only an in_progress item may transition into blocked (a blocked item must be recovered back to in_progress first)''))
          else Inr item)"

definition orNull :: "string \<Rightarrow> jsval" where
  "orNull s = (if s = [] then JNull else JStr s)"

definition blockItem :: "LoopStoreDeps \<Rightarrow> string \<Rightarrow> LoopContract \<Rightarrow> BlockItemInput \<Rightarrow> LoopLedger run_io" where
  "blockItem deps mint contractInput input =
     (case blockerClassOf (bi_blockerClass input) of
        None \<Rightarrow> io_throw (LoopError Validation (quoted (bi_blockerClass input) @ '' is not a valid DurableBlockerClass''))
      | Some cls \<Rightarrow>
        io_bind (io_lift (upgradeContractForRecovery contractInput)) (\<lambda>contract.
        io_bind (recoverableLedger deps (bi_runId input)) (\<lambda>ledger.
        io_then (io_lift (requireLifecycle ledger (bi_itemId input)))
        (io_then (io_lift (if bi_allowAlreadyStopped input then Inr ()
                           else requireNotStopped (bi_runId input) ledger (bi_itemId input)))
        (io_bind (io_lift (requireInProgress (bi_runId input) (bi_itemId input) ledger)) (\<lambda>item.
        io_bind (runNow deps) (\<lambda>time.
          let fingerprint = fingerprintEvidence (de_sha256 deps) (bi_evidence input);
              (epoch, head) = blockBoundary input item;
              next = blockLedger contract input cls fingerprint time mint ledger
          in io_then (writeRunLedger deps next (bi_token input))
            (io_then (runEvent deps (bi_runId input) (bi_token input) ''loop_item_blocked'' (DataObj (JObj
               [(''item_id'', JStr (bi_itemId input)), (''class'', JStr (blockerClassName cls)),
                (''evidence_fingerprint'', JStr fingerprint), (''blocker_candidate_epoch'', orNull epoch),
                (''blocker_candidate_head'', orNull head),
                (''repeated_evidence_count'', JNum (Fin (of_int (repeatedCount item fingerprint))))])))
            (io_then (case ll_stop next of
                Some s \<Rightarrow> if ll_stop ledger = None
                  then runEvent deps (bi_runId input) (bi_token input) ''loop_run_stopped'' (DataObj (JObj
                    [(''reason'', JStr (stopReasonName (st_reason s))), (''item_id'', JStr (bi_itemId input)),
                     (''fingerprint'', JStr fingerprint)]))
                  else io_return ()
              | None \<Rightarrow> io_return ())
            (io_return next))))))))))"

definition classifyAndBlockItem ::
  "LoopStoreDeps \<Rightarrow> string \<Rightarrow> LoopContract \<Rightarrow> BlockItemInput \<Rightarrow> string list \<Rightarrow> LoopLedger run_io" where
  "classifyAndBlockItem deps mint contract input candidateClasses =
     (case classifyBlocker candidateClasses of
        Inl err \<Rightarrow> blockItem deps mint contract (input\<lparr>
          bi_blockerClass := blockerClassName WorkflowEngineDefect,
          bi_evidence := ''blocker classification defect: '' @ message err @ ''; source evidence: ''
            @ bi_evidence input,
          bi_note := Some ''typed blocker classification failed; bounded engine repair required''\<rparr>)
      | Inr cls \<Rightarrow> blockItem deps mint contract (input\<lparr>bi_blockerClass := blockerClassName cls\<rparr>))"

section \<open>Claiming a recovery action\<close>

text \<open>\<open>candidateIdentity.replace(/\|attempt=\d+$/i, "")\<close>.\<close>

definition isAttemptSuffix :: "string \<Rightarrow> bool" where
  "isAttemptSuffix s \<longleftrightarrow> js_startsWith (js_lower s) ''|attempt='' \<and> drop 9 s \<noteq> [] \<and> list_all is_digit (drop 9 s)"

fun stripAttempt :: "string \<Rightarrow> string" where
  "stripAttempt [] = []"
| "stripAttempt (c # s) = (if isAttemptSuffix (c # s) then [] else c # stripAttempt s)"

definition js_slice :: "'a list \<Rightarrow> int \<Rightarrow> nat \<Rightarrow> 'a list" where
  "js_slice xs from till =
     (let start = (if from < 0 then nat (max 0 (int (length xs) + from)) else nat from)
      in drop start (take till xs))"

definition recoveryEpisodeKeyFor :: "string option \<Rightarrow> string \<Rightarrow> string \<Rightarrow> string \<Rightarrow> RecoveryEpisodeKey" where
  "recoveryEpisodeKeyFor operation invariant candidateEpoch evidenceIdentity =
     \<lparr>ek_operation = orElse operation ''loop_recovery'', ek_invariant = invariant,
      ek_candidate_epoch = candidateEpoch, ek_evidence_identity = evidenceIdentity\<rparr>"

text \<open>The facts a claim is computed from: the blocked item, its class and policy entry.\<close>

record ClaimContext =
  cc_item :: LoopItemLedgerEntry
  cc_class :: DurableBlockerClass
  cc_entry :: RecoveryPolicyEntry

definition claimContext ::
  "StartRecoveryAttemptInput \<Rightarrow> LoopContract \<Rightarrow> LoopLedger \<Rightarrow> ClaimContext result" where
  "claimContext input contract ledger =
     (case rec_get (ll_items ledger) (sa_itemId input) of
        None \<Rightarrow> Inl (LoopError Validation (''item '' @ quoted (sa_itemId input)
               @ '' is not a blocked item with a valid blocker class''))
      | Some item \<Rightarrow>
        (case (if le_state item = Blocked then Option.bind (le_blocked_theme item) blockerClassOf else None) of
           None \<Rightarrow> Inl (LoopError Validation (''item '' @ quoted (sa_itemId input)
               @ '' is not a blocked item with a valid blocker class''))
         | Some cls \<Rightarrow>
           (let entry = policyEntryFor contract cls
            in if pe_terminal_outcome entry = HumanAuthority
               then Inl (LoopError Stop (''blocker class '' @ quoted (blockerClassName cls)
                      @ '' requires human authority and permits no recovery action''))
               else if sa_action input \<notin> set (pe_recipes entry)
               then Inl (LoopError Validation (''recipe '' @ quoted (recipeName (sa_action input))
                      @ '' is not permitted for blocker class '' @ quoted (blockerClassName cls)))
               else Inr \<lparr>cc_item = item, cc_class = cls, cc_entry = entry\<rparr>)))"

definition claimFingerprint :: "ClaimContext \<Rightarrow> string" where
  "claimFingerprint c = orElse (le_evidence_fingerprint (cc_item c)) []"

definition claimIdentity :: "StartRecoveryAttemptInput \<Rightarrow> ClaimContext \<Rightarrow> string" where
  "claimIdentity input c = recoveryCandidateIdentity (sa_candidateIdentity input) (claimFingerprint c)
     (orElse (le_repeated_evidence_count (cc_item c)) 0)"

definition claimKey :: "StartRecoveryAttemptInput \<Rightarrow> ClaimContext \<Rightarrow> RecoveryEpisodeKey" where
  "claimKey input c =
     (let identity = claimIdentity input c;
          candidateEpoch = firstNonEmpty (js_trim (orElse (sa_candidateEpoch input) (stripAttempt identity))) identity
      in recoveryEpisodeKeyFor (sa_operation input)
           (orElse (sa_invariant input) (blockerClassName (cc_class c))) candidateEpoch
           (firstNonEmpty (trimmed (sa_evidenceIdentity input)) (claimFingerprint c)))"

definition claimId :: "(string \<Rightarrow> string) \<Rightarrow> StartRecoveryAttemptInput \<Rightarrow> ClaimContext \<Rightarrow> string" where
  "claimId sha256 input c =
     recoveryAttemptId sha256 (sa_itemId input) (claimIdentity input c) (claimFingerprint c) (sa_action input)"

definition claimEpisode ::
  "(string \<Rightarrow> string) \<Rightarrow> StartRecoveryAttemptInput \<Rightarrow> ClaimContext \<Rightarrow> LoopLedger \<Rightarrow> timestamp \<Rightarrow> RecoveryEpisodeRecord" where
  "claimEpisode sha256 input c ledger time =
     orElse (resumeEpisodeFromAttempts sha256 (attemptsOf ledger) (claimKey input c))
       (emptyEpisode sha256 (claimKey input c) time)"

definition findingsPrep :: "StartRecoveryAttemptInput \<Rightarrow> ClaimContext \<Rightarrow> bool" where
  "findingsPrep input c = isReviewFindingsPrepUnlink (Some (cc_class c)) (Some (sa_action input))"

definition claimOutcome ::
  "StartRecoveryAttemptInput \<Rightarrow> ClaimContext \<Rightarrow> RecoveryEpisodeRecord \<Rightarrow> RecoveryAttemptOutcome" where
  "claimOutcome input c episode =
     (if sa_skipInapplicable input then SkippedAttempt
      else if \<not> findingsPrep input c
        \<and> of_int (spentOn (er_attempts_per_strategy episode) (sa_action input)) \<ge> perStrategyBound (cc_entry c) (sa_action input)
      then Exhausted else Started)"

definition claimRemaining :: "ClaimContext \<Rightarrow> rat" where
  "claimRemaining c = orElse (rec_get (le_recovery_budgets_remaining (cc_item c)) (blockerClassName (cc_class c)))
     (pe_retry_budget (cc_entry c))"

definition chargesClass :: "StartRecoveryAttemptInput \<Rightarrow> ClaimContext \<Rightarrow> RecoveryAttemptOutcome \<Rightarrow> bool" where
  "chargesClass input c outcome \<longleftrightarrow> outcome = Started \<and> \<not> findingsPrep input c \<and> \<not> sa_skipInapplicable input"

definition claimBudget :: "StartRecoveryAttemptInput \<Rightarrow> ClaimContext \<Rightarrow> RecoveryAttemptOutcome \<Rightarrow> rat" where
  "claimBudget input c outcome =
     (if chargesClass input c outcome then max 0 (claimRemaining c - 1) else claimRemaining c)"

definition priorClassAttempts :: "StartRecoveryAttemptInput \<Rightarrow> ClaimContext \<Rightarrow> LoopLedger \<Rightarrow> nat" where
  "priorClassAttempts input c ledger =
     length (filter (\<lambda>a. ra_item_id a = sa_itemId input \<and> ra_class a = cc_class c
       \<and> ra_evidence_fingerprint a = claimFingerprint c \<and> ra_outcome a \<noteq> SkippedAttempt
       \<and> \<not> isReviewFindingsPrepUnlink (Some (ra_class a)) (ra_action a)) (attemptsOf ledger))"

definition claimBackoff :: "StartRecoveryAttemptInput \<Rightarrow> ClaimContext \<Rightarrow> LoopLedger \<Rightarrow> jsnum" where
  "claimBackoff input c ledger =
     (if findingsPrep input c \<or> sa_skipInapplicable input then Fin 0
      else backoffSeconds (pe_backoff (cc_entry c)) (priorClassAttempts input c ledger))"

definition num_positive :: "jsnum \<Rightarrow> bool" where
  "num_positive n = (case n of Fin r \<Rightarrow> r > 0 | PosInf \<Rightarrow> True | NegInf \<Rightarrow> False | NaN \<Rightarrow> False)"

text \<open>The claimed recipe passes over the recipes between the cursor and itself: those that still had
  a claim left are recorded as skipped.\<close>

definition passOver :: "RecoveryRecipe \<Rightarrow> RecoveryPolicyEntry \<Rightarrow> RecoveryEpisodeRecord \<Rightarrow> RecoveryEpisodeRecord" where
  "passOver action entry episode =
     (case index_of action (pe_recipes entry) of
        None \<Rightarrow> episode
      | Some recipeIndex \<Rightarrow>
          if int recipeIndex > er_strategy_cursor episode
          then (let implicitSkips = filter (\<lambda>r. r \<notin> set (er_skipped_strategies episode)
                      \<and> of_int (spentOn (er_attempts_per_strategy episode) r) < perStrategyBound entry r)
                    (js_slice (pe_recipes entry) (er_strategy_cursor episode) recipeIndex)
                in episode\<lparr>er_strategy_cursor := int recipeIndex,
                     er_skipped_strategies := er_skipped_strategies episode @ implicitSkips\<rparr>)
          else episode)"

definition recipeIndexInt :: "RecoveryRecipe \<Rightarrow> RecoveryPolicyEntry \<Rightarrow> int" where
  "recipeIndexInt action entry = (case index_of action (pe_recipes entry) of None \<Rightarrow> -1 | Some i \<Rightarrow> int i)"

definition claimedEpisode ::
  "StartRecoveryAttemptInput \<Rightarrow> ClaimContext \<Rightarrow> RecoveryEpisodeRecord \<Rightarrow> jsnum \<Rightarrow> timestamp \<Rightarrow> timestamp \<Rightarrow> RecoveryEpisodeRecord" where
  "claimedEpisode input c episode backoff time notBefore =
     (let passed = passOver (sa_action input) (cc_entry c) episode
      in case claimOutcome input c episode of
           SkippedAttempt \<Rightarrow> passed\<lparr>
             er_strategy_cursor := max (er_strategy_cursor passed) (recipeIndexInt (sa_action input) (cc_entry c) + 1),
             er_skipped_strategies := er_skipped_strategies passed @ [sa_action input],
             er_next_eligible_at := time\<rparr>
         | Started \<Rightarrow> applyClaimToEpisode passed (sa_action input) (if num_positive backoff then notBefore else time)
         | _ \<Rightarrow> passed\<lparr>er_next_eligible_at := time\<rparr>)"

definition claimError :: "RecoveryRecipe \<Rightarrow> RecoveryAttemptOutcome \<Rightarrow> string option" where
  "claimError action outcome =
     (case outcome of
        Exhausted \<Rightarrow> Some (''recovery budget exhausted before action '' @ quoted (recipeName action) @ '' could start'')
      | SkippedAttempt \<Rightarrow> Some (''recipe '' @ quoted (recipeName action)
          @ '' is inapplicable and was skipped without charging repair budget'')
      | _ \<Rightarrow> None)"

definition claimedAttempt ::
  "(string \<Rightarrow> string) \<Rightarrow> StartRecoveryAttemptInput \<Rightarrow> ClaimContext \<Rightarrow> LoopLedger \<Rightarrow> timestamp \<Rightarrow> timestamp \<Rightarrow> LoopRecoveryAttempt result" where
  "claimedAttempt sha256 input c ledger time notBefore =
     (let episode = claimEpisode sha256 input c ledger time;
          outcome = claimOutcome input c episode;
          backoff = claimBackoff input c ledger;
          attemptId = claimId sha256 input c;
          delayed = (if outcome = Started \<and> num_positive backoff then Some notBefore else None);
          err = claimError (sa_action input) outcome
      in attachEpisodeFields
           \<lparr>ra_attempt_id = Some attemptId, ra_seq = int (length (attemptsOf ledger)), ra_time = time,
            ra_not_before = delayed, ra_next_attempt_at = delayed, ra_completed_at = None,
            ra_item_id = sa_itemId input, ra_class = cc_class c,
            ra_candidate_identity = Some (claimIdentity input c), ra_action = Some (sa_action input),
            ra_actions = [sa_action input], ra_evidence_fingerprint = claimFingerprint c,
            ra_outcome = outcome, ra_status = Some outcome,
            ra_budget_remaining = Some (claimBudget input c outcome),
            ra_error = err, ra_last_error = err, ra_typed_reason = None,
            ra_terminal_outcome = (if outcome = Exhausted then Some FailedOutcome else None),
            ra_idempotency_key = Some attemptId, ra_head_sha = None, ra_invariant = None,
            ra_candidate_epoch = None, ra_evidence_identity = None, ra_attempts_per_strategy = None,
            ra_strategy_cursor = None, ra_skipped_strategies = None, ra_next_eligible_at = None,
            ra_fence_token = None,
            ra_side_effect_certainty = (if outcome = Started then Some Uncertain else None),
            ra_episode_id = None, ra_operation = None\<rparr>
           (claimedEpisode input c episode backoff time notBefore) (Some (sa_token input)))"

definition addAttempt :: "LoopRecoveryAttempt \<Rightarrow> LoopLedger \<Rightarrow> LoopLedger" where
  "addAttempt a ledger = ledger\<lparr>ll_recovery_attempts := Some (attemptsOf ledger @ [a])\<rparr>"

definition claimLedger ::
  "StartRecoveryAttemptInput \<Rightarrow> ClaimContext \<Rightarrow> LoopContract \<Rightarrow> LoopRecoveryAttempt \<Rightarrow> timestamp \<Rightarrow> string \<Rightarrow> LoopLedger \<Rightarrow> LoopLedger" where
  "claimLedger input c contract attempt time mint ledger =
     (let pushed = addAttempt attempt ledger;
          charged = (if chargesClass input c (ra_outcome attempt)
            then updateItem (sa_itemId input) (\<lambda>item. item\<lparr>le_recovery_budgets_remaining :=
                   rec_put (blockerClassName (cc_class c)) (claimBudget input c (ra_outcome attempt))
                     (le_recovery_budgets_remaining item)\<rparr>) pushed
            else pushed)
      in admitRecoveryLifecycle contract charged time mint)"

text \<open>Admit the lifecycle and write, unless admission leaves the ledger as it is.\<close>

definition admitAndWrite :: "LoopStoreDeps \<Rightarrow> string \<Rightarrow> LoopContract \<Rightarrow> LoopLedger \<Rightarrow> string \<Rightarrow> LoopLedger run_io" where
  "admitAndWrite deps mint contract ledger token =
     io_bind (runNow deps) (\<lambda>t.
       let admitted = admitRecoveryLifecycle contract ledger t mint
       in if admitted = ledger then io_return ledger
          else io_then (writeRunLedger deps admitted token) (io_return admitted))"

definition startRecoveryAttempt ::
  "LoopStoreDeps \<Rightarrow> string \<Rightarrow> LoopContract \<Rightarrow> StartRecoveryAttemptInput \<Rightarrow> (LoopLedger \<times> LoopRecoveryAttempt) run_io" where
  "startRecoveryAttempt deps mint contractInput input =
     io_bind (io_lift (upgradeContractForRecovery contractInput)) (\<lambda>contract.
     io_bind (recoverableLedger deps (sa_runId input)) (\<lambda>ledger.
     io_then (io_lift (requireLifecycle ledger (sa_itemId input)))
     (io_then (io_lift (requireNotStopped (sa_runId input) ledger (sa_itemId input)))
     (io_bind (io_lift (claimContext input contract ledger)) (\<lambda>c.
     io_bind (runNow deps) (\<lambda>time.
       case find (\<lambda>a. ra_attempt_id a = Some (claimId (de_sha256 deps) input c)) (attemptsOf ledger) of
         Some existing \<Rightarrow>
           io_then (io_lift (if truthy (ra_invariant existing) then assertRecoveryEpisodeFields existing else Inr ()))
           (io_bind (admitAndWrite deps mint contract ledger (sa_token input)) (\<lambda>admitted.
             io_return (admitted, existing)))
       | None \<Rightarrow>
         (case iso_plus_seconds time (claimBackoff input c ledger) of
            None \<Rightarrow> io_throw (JsError ''RangeError: Invalid time value'')
          | Some notBefore \<Rightarrow>
            io_bind (io_lift (claimedAttempt (de_sha256 deps) input c ledger time notBefore)) (\<lambda>attempt.
              let next = claimLedger input c contract attempt time mint ledger
              in io_then (writeRunLedger deps next (sa_token input))
                (io_then (runEvent deps (sa_runId input) (sa_token input)
                   (if ra_outcome attempt = Started then ''loop_recovery_attempt_started'' else ''loop_recovery_attempt'')
                   (DataAttempt attempt))
                 (io_return (next, attempt)))))))))))"

section \<open>Completing a claim\<close>

text \<open>\<open>find\<close> returns the stored object, so its assignments update that element of the list.\<close>

fun updateFirst :: "('a \<Rightarrow> bool) \<Rightarrow> ('a \<Rightarrow> 'a) \<Rightarrow> 'a list \<Rightarrow> 'a list" where
  "updateFirst P f [] = []"
| "updateFirst P f (x # xs) = (if P x then f x # xs else x # updateFirst P f xs)"

definition actionText :: "LoopRecoveryAttempt \<Rightarrow> string" where
  "actionText a = (case ra_action a of None \<Rightarrow> ''undefined'' | Some r \<Rightarrow> recipeName r)"

definition completionFails :: "CompleteRecoveryAttemptInput \<Rightarrow> LoopRecoveryAttempt \<Rightarrow> bool" where
  "completionFails input a \<longleftrightarrow>
     \<not> ca_succeeded input \<or> isReviewFindingsPrepUnlink (Some (ra_class a)) (ra_action a)"

definition completionError :: "CompleteRecoveryAttemptInput \<Rightarrow> LoopRecoveryAttempt \<Rightarrow> string" where
  "completionError input a =
     firstNonEmpty (trimmed (ca_error input))
       (''recovery action '' @ quoted (actionText a)
        @ (if ca_succeeded input then '' is preparatory for review-findings and cannot mark recovery success''
           else '' failed without error detail''))"

definition completedAttempt :: "CompleteRecoveryAttemptInput \<Rightarrow> timestamp \<Rightarrow> LoopRecoveryAttempt \<Rightarrow> LoopRecoveryAttempt" where
  "completedAttempt input time a =
     (if completionFails input a
      then a\<lparr>ra_completed_at := Some time, ra_outcome := Failed, ra_status := Some Failed,
             ra_terminal_outcome := Some FailedOutcome, ra_error := Some (completionError input a),
             ra_last_error := Some (completionError input a)\<rparr>
      else a\<lparr>ra_completed_at := Some time, ra_outcome := Recovered, ra_status := Some Recovered,
             ra_terminal_outcome := Some SuccessOutcome, ra_error := None, ra_last_error := None\<rparr>)"

definition resumedEntry ::
  "(rat \<Rightarrow> string) \<Rightarrow> CompleteRecoveryAttemptInput \<Rightarrow> timestamp \<Rightarrow> LoopRecoveryAttempt \<Rightarrow> LoopItemLedgerEntry \<Rightarrow> LoopItemLedgerEntry" where
  "resumedEntry showNum input time a item =
     item\<lparr>le_state := InProgress, le_history := le_history item @
       [\<lparr>he_time = time, he_from = Blocked, he_to = InProgress, he_engine = ca_engine input,
         he_theme = Some (blockerClassName (ra_class a)), he_evidence = None,
         he_note = Some (''recovery action '' @ quoted (actionText a) @ '' completed (''
           @ (case ra_budget_remaining a of None \<Rightarrow> ''undefined'' | Some n \<Rightarrow> showNum n)
           @ '' of class '' @ quoted (blockerClassName (ra_class a)) @ '' remaining)'')\<rparr>]\<rparr>"

definition completeLedger ::
  "(rat \<Rightarrow> string) \<Rightarrow> CompleteRecoveryAttemptInput \<Rightarrow> LoopContract \<Rightarrow> LoopRecoveryAttempt \<Rightarrow> timestamp \<Rightarrow> string \<Rightarrow> LoopLedger \<Rightarrow> LoopLedger" where
  "completeLedger showNum input contract attempt time mint ledger =
     (let completed = ledger\<lparr>ll_recovery_attempts := Some (updateFirst (\<lambda>a. ra_attempt_id a = Some (ca_attemptId input))
            (completedAttempt input time) (attemptsOf ledger))\<rparr>;
          resumed = (if completionFails input attempt then completed
            else updateItem (ca_itemId input) (resumedEntry showNum input time attempt) completed)
      in admitRecoveryLifecycle contract resumed time mint)"

definition findClaim :: "CompleteRecoveryAttemptInput \<Rightarrow> LoopLedger \<Rightarrow> LoopRecoveryAttempt result" where
  "findClaim input ledger =
     (case find (\<lambda>a. ra_attempt_id a = Some (ca_attemptId input)) (attemptsOf ledger) of
        Some a \<Rightarrow> if ra_item_id a = ca_itemId input then Inr a
          else Inl (LoopError Validation (''recovery attempt '' @ quoted (ca_attemptId input)
                 @ '' was not started for item '' @ quoted (ca_itemId input)))
      | None \<Rightarrow> Inl (LoopError Validation (''recovery attempt '' @ quoted (ca_attemptId input)
                 @ '' was not started for item '' @ quoted (ca_itemId input))))"

definition requireMatchingBlock :: "CompleteRecoveryAttemptInput \<Rightarrow> LoopRecoveryAttempt \<Rightarrow> LoopLedger \<Rightarrow> unit result" where
  "requireMatchingBlock input a ledger =
     (if (case rec_get (ll_items ledger) (ca_itemId input) of None \<Rightarrow> False
          | Some item \<Rightarrow> le_state item = Blocked \<and> le_blocked_theme item = Some (blockerClassName (ra_class a))
              \<and> orElse (le_evidence_fingerprint item) [] = ra_evidence_fingerprint a)
      then Inr ()
      else Inl (LoopError Validation (''recovery attempt '' @ quoted (ca_attemptId input)
             @ '' no longer matches the blocked candidate for item '' @ quoted (ca_itemId input))))"

definition completeRecoveryAttempt ::
  "LoopStoreDeps \<Rightarrow> string \<Rightarrow> (rat \<Rightarrow> string) \<Rightarrow> LoopContract \<Rightarrow> CompleteRecoveryAttemptInput
    \<Rightarrow> (LoopLedger \<times> LoopRecoveryAttempt) run_io" where
  "completeRecoveryAttempt deps mint showNum contractInput input =
     io_bind (io_lift (upgradeContractForRecovery contractInput)) (\<lambda>contract.
     io_bind (recoverableLedger deps (ca_runId input)) (\<lambda>ledger.
     io_then (io_lift (requireLifecycle ledger (ca_itemId input)))
     (io_bind (io_lift (findClaim input ledger)) (\<lambda>attempt.
       if ra_outcome attempt \<noteq> Started
       then io_bind (admitAndWrite deps mint contract ledger (ca_token input)) (\<lambda>admitted. io_return (admitted, attempt))
       else io_then (io_lift (requireNotStopped (ca_runId input) ledger (ca_itemId input)))
         (io_then (io_lift (requireMatchingBlock input attempt ledger))
         (io_bind (runNow deps) (\<lambda>time.
           let next = completeLedger showNum input contract attempt time mint ledger;
               done = completedAttempt input time attempt
           in io_then (writeRunLedger deps next (ca_token input))
             (io_then (runEvent deps (ca_runId input) (ca_token input) ''loop_recovery_attempt'' (DataAttempt done))
             (io_return (next, done))))))))))"

definition recoverItem ::
  "LoopStoreDeps \<Rightarrow> string \<Rightarrow> (rat \<Rightarrow> string) \<Rightarrow> LoopContract \<Rightarrow> RecoverItemInput
    \<Rightarrow> (LoopLedger \<times> LoopRecoveryAttempt) run_io" where
  "recoverItem deps mint showNum contractInput input =
     io_bind (recoverableLedger deps (rv_runId input)) (\<lambda>current.
     io_then (io_lift (requireLifecycle current (rv_itemId input)))
       (if ll_stop current \<noteq> None then io_throw (stoppedError (rv_runId input) current)
        else (case rv_actions input of
          [action] \<Rightarrow>
            io_bind (startRecoveryAttempt deps mint contractInput
              \<lparr>sa_runId = rv_runId input, sa_token = rv_token input, sa_itemId = rv_itemId input,
               sa_engine = rv_engine input, sa_action = action, sa_candidateIdentity = rv_candidateIdentity input,
               sa_operation = None, sa_invariant = None, sa_candidateEpoch = None, sa_evidenceIdentity = None,
               sa_skipInapplicable = False\<rparr>) (\<lambda>(ledger, attempt).
              if ra_outcome attempt \<noteq> Started then io_return (ledger, attempt)
              else completeRecoveryAttempt deps mint showNum contractInput
                \<lparr>ca_runId = rv_runId input, ca_token = rv_token input, ca_itemId = rv_itemId input,
                 ca_engine = rv_engine input, ca_attemptId = orElse (ra_attempt_id attempt) [],
                 ca_succeeded = rv_succeeded input, ca_error = rv_error input\<rparr>)
        | _ \<Rightarrow> io_throw (LoopError Validation (''recovery for item '' @ quoted (rv_itemId input)
               @ '' requires exactly one selected recovery action'')))))"

section \<open>Cooling\<close>

definition coolingLedger :: "LoopCoolingRecord \<Rightarrow> LoopLedger \<Rightarrow> LoopLedger" where
  "coolingLedger cooling ledger =
     (let itemCooling = (case co_item_id cooling of
            Some i \<Rightarrow> if i \<noteq> [] then rec_put i cooling (orElse (ll_item_cooling ledger) []) else orElse (ll_item_cooling ledger) []
          | None \<Rightarrow> orElse (ll_item_cooling ledger) []);
          attempts = (if truthy (co_item_id cooling) \<and> ts_truthy (co_next_eligible_at cooling)
            then stampEpisodeNextEligibleAt (attemptsOf ledger) (the (co_item_id cooling)) (the (co_next_eligible_at cooling))
            else attemptsOf ledger)
      in ledger\<lparr>ll_cooling := Some cooling,
           ll_item_cooling := (if itemCooling \<noteq> [] then Some itemCooling else ll_item_cooling ledger),
           ll_recovery_attempts := Some attempts\<rparr>)"

fun coolingReasonName :: "CoolingReason \<Rightarrow> string" where
  "coolingReasonName StrategyCursorExhausted = ''strategy_cursor_exhausted''"
| "coolingReasonName MechanicalExhaustion = ''mechanical_exhaustion''"

definition persistOwnedCooling :: "LoopStoreDeps \<Rightarrow> string \<Rightarrow> string \<Rightarrow> LoopCoolingRecord \<Rightarrow> LoopLedger run_io" where
  "persistOwnedCooling deps runId token cooling =
     io_bind (recoverableLedger deps runId) (\<lambda>ledger.
       let next = coolingLedger cooling ledger
       in io_then (writeRunLedger deps next token)
         (io_then (runEvent deps runId token ''loop_item_cooling'' (DataObj (JObj
            [(''item_id'', optJs (co_item_id cooling)), (''theme'', optJs (co_theme cooling)),
             (''candidate_epoch'', optJs (co_candidate_epoch cooling)),
             (''reason'', JStr (coolingReasonName (co_reason cooling))),
             (''next_eligible_at'', optJs (map_option (showTimestamp deps) (co_next_eligible_at cooling))),
             (''historical_evidence'', optJs (map_option stopReasonName (co_historical_evidence cooling)))])))
         (io_return next)))"

section \<open>Abstract steps\<close>

text \<open>What the operations do to the ledger a reader sees.\<close>

inductive recovery_step :: "(string \<Rightarrow> string) \<Rightarrow> LoopLedger \<Rightarrow> LoopLedger \<Rightarrow> bool" for sha where
  block: "requireInProgress runId (bi_itemId input) (upgradeLedgerForRecovery sha l) = Inr item
    \<Longrightarrow> recovery_step sha l (blockLedger contract input cls fingerprint time mint (upgradeLedgerForRecovery sha l))"
| claim: "claimContext input contract (upgradeLedgerForRecovery sha l) = Inr c
    \<Longrightarrow> find (\<lambda>a. ra_attempt_id a = Some (claimId sha input c)) (attemptsOf (upgradeLedgerForRecovery sha l)) = None
    \<Longrightarrow> claimedAttempt sha input c (upgradeLedgerForRecovery sha l) time notBefore = Inr a
    \<Longrightarrow> recovery_step sha l (claimLedger input c contract a time mint (upgradeLedgerForRecovery sha l))"
| admit: "recovery_step sha l (admitRecoveryLifecycle contract (upgradeLedgerForRecovery sha l) time mint)"
| complete: "findClaim input (upgradeLedgerForRecovery sha l) = Inr a \<Longrightarrow> ra_outcome a = Started
    \<Longrightarrow> requireMatchingBlock input a (upgradeLedgerForRecovery sha l) = Inr u
    \<Longrightarrow> recovery_step sha l (completeLedger showNum input contract a time mint (upgradeLedgerForRecovery sha l))"
| cool: "recovery_step sha l (coolingLedger cooling (upgradeLedgerForRecovery sha l))"

lemma admit_fields [simp]:
  "ll_run_id (admitRecoveryLifecycle contract l t mint) = ll_run_id l"
  "ll_items (admitRecoveryLifecycle contract l t mint) = ll_items l"
  "ll_stop (admitRecoveryLifecycle contract l t mint) = ll_stop l"
  "attemptsOf (admitRecoveryLifecycle contract l t mint) = attemptsOf l"
  by (simp_all add: admitRecoveryLifecycle_def Let_def bindLifecycleRecord_def attemptsOf_def)

lemma ledger_run_ids [simp]:
  "ll_run_id (blockLedger contract input cls fp time mint l) = ll_run_id l"
  "ll_run_id (claimLedger sinput c contract a time mint l) = ll_run_id l"
  "ll_run_id (completeLedger showNum cinput contract a time mint l) = ll_run_id l"
  "ll_run_id (coolingLedger cooling l) = ll_run_id l"
  by (simp_all add: blockLedger_def claimLedger_def completeLedger_def coolingLedger_def addAttempt_def Let_def)

section \<open>The recovery steps keep the ledger well formed\<close>

definition RECOVERY_MOVES :: moves where
  "RECOVERY_MOVES = {(InProgress, Blocked), (Blocked, InProgress)}"

lemma admit_same [simp]: "same_items l (admitRecoveryLifecycle contract l t mint)"
  by (simp add: same_items_fields)

lemma admit_wf [simp]: "ledger_wf (admitRecoveryLifecycle contract l t mint) = ledger_wf l"
  by (simp add: ledger_wf_def)

lemma stop_wf [simp]: "ledger_wf (l\<lparr>ll_stop := s\<rparr>) = ledger_wf l"
  by (simp add: ledger_wf_def attemptsOf_def)

lemma blockLedger_spec:
  assumes "requireInProgress runId (bi_itemId input) l = Inr item"
  shows "ledger_spec RECOVERY_MOVES l (blockLedger contract input cls fp time mint l)"
proof -
  have "item_spec RECOVERY_MOVES item' (blockedEntry input cls fp time item')"
    if "rec_get (ll_items l) (bi_itemId input) = Some item'" for item'
    using assms that
    by (auto simp: requireInProgress_def item_spec_def blockedEntry_def RECOVERY_MOVES_def verified_step_def verified_def remoteState_def split: prod.splits if_splits)
  then have spec: "ledger_spec RECOVERY_MOVES l (updateItem (bi_itemId input) (blockedEntry input cls fp time) l)"
    by (rule updateItem_spec)
  show ?thesis
    unfolding blockLedger_def Let_def
    by (rule ledger_spec_same [OF spec]) (auto intro: same_items_fields)
qed

lemma blockedEntry_wf: "item_wf item \<Longrightarrow> item_wf (blockedEntry input cls fp time item)"
  by (auto simp: item_wf_def blockedEntry_def repeatedCount_def verified_def remoteState_def split: prod.splits intro: chained_append)

lemma blockLedger_wf: "ledger_wf l \<Longrightarrow> ledger_wf (blockLedger contract input cls fp time mint l)"
proof -
  assume "ledger_wf l"
  then have "ledger_wf (updateItem (bi_itemId input) (blockedEntry input cls fp time) l)"
    by (rule wf_updateItem) (rule blockedEntry_wf)
  then show ?thesis by (simp add: blockLedger_def Let_def)
qed

lemma rec_values_put: "set (rec_values (rec_put k v r)) \<subseteq> insert v (set (rec_values r))"
proof -
  have "set (map snd (rec_insert k v r)) \<subseteq> insert v (set (map snd r))"
    by (induction k v r rule: rec_insert.induct) auto
  moreover have "set (map snd (rec_replace k v r)) \<subseteq> insert v (set (map snd r))"
    by (induction k v r rule: rec_replace.induct) auto
  ultimately show ?thesis by (simp add: rec_put_def rec_values_def)
qed

lemma claimBudget_nonneg: "chargesClass input c out \<Longrightarrow> claimBudget input c out \<ge> 0"
  by (simp add: claimBudget_def)

lemma claimLedger_spec: "ledger_spec RECOVERY_MOVES l (claimLedger input c contract a time mint l)"
proof -
  have "same_items l (addAttempt a l)" by (simp add: addAttempt_def same_items_fields)
  also have "same_items (addAttempt a l) (claimLedger input c contract a time mint l)"
    unfolding claimLedger_def Let_def
    by (rule same_items_trans [OF _ admit_same]) (auto intro!: updateItem_same simp: item_spec_def verified_step_def)
  finally show ?thesis by (rule ledger_spec_of_same)
qed

lemma claimLedger_wf:
  assumes "ledger_wf l" "filled a" "ra_seq a = int (length (attemptsOf l))" "ra_attempt_id a \<notin> ra_attempt_id ` set (attemptsOf l)"
  shows "ledger_wf (claimLedger input c contract a time mint l)"
proof -
  have "ledger_wf (addAttempt a l)"
    using assms by (auto simp: ledger_wf_def addAttempt_def attemptsOf_def intro: attempts_wf_snoc)
  moreover have "list_all (\<lambda>n. n \<ge> 0) (rec_values (rec_put k v r))"
    if "list_all (\<lambda>n. n \<ge> (0 :: rat)) (rec_values r)" "v \<ge> 0" for k v r
    using that rec_values_put [of k v r] by (auto simp: list_all_iff)
  ultimately show ?thesis
    unfolding claimLedger_def Let_def
    by (auto intro!: wf_updateItem simp: item_wf_def verified_def claimBudget_nonneg)
qed

lemma attachEpisodeFields_Inr:
  assumes "attachEpisodeFields a e t = Inr b"
  shows "ra_seq b = ra_seq a" "ra_attempt_id b = ra_attempt_id a" "filled b = filled a" "ra_outcome b = ra_outcome a"
    "ra_item_id b = ra_item_id a" "ra_class b = ra_class a" "ra_action b = ra_action a"
    "ra_budget_remaining b = ra_budget_remaining a"
    "ra_attempts_per_strategy b = Some (er_attempts_per_strategy e)" "ra_strategy_cursor b = Some (er_strategy_cursor e)"
    "ra_episode_id b = Some (er_episode_id e)"
    "ra_evidence_fingerprint b = ra_evidence_fingerprint a" "ra_invariant b = Some (er_invariant e)"
    "ra_candidate_identity b = ra_candidate_identity a"
  using assms by (auto simp: attachEpisodeFields_def Let_def filled_def split: sum.splits)

lemma attachEpisodeFields_total: "\<exists>b. attachEpisodeFields a e t = Inr b"
  by (simp add: attachEpisodeFields_def assertRecoveryEpisodeFields_def Let_def)

lemma claimedAttempt_Inr:
  assumes "claimedAttempt sha input c l time notBefore = Inr a"
  shows "ra_seq a = int (length (attemptsOf l))" "ra_attempt_id a = Some (claimId sha input c)" "filled a"
    "ra_outcome a = claimOutcome input c (claimEpisode sha input c l time)" "ra_item_id a = sa_itemId input"
    "ra_class a = cc_class c" "ra_action a = Some (sa_action input)"
    "ra_budget_remaining a = Some (claimBudget input c (ra_outcome a))"
    "ra_evidence_fingerprint a = claimFingerprint c"
  using assms unfolding claimedAttempt_def Let_def
  by (simp_all add: attachEpisodeFields_Inr filled_def)

lemma keeps_identity_completed: "keeps_identity (completedAttempt input time)"
  by (simp add: keeps_identity_def filled_def completedAttempt_def)

lemma attempts_wf_updateFirst:
  assumes "keeps_identity f" "attempts_wf as"
  shows "attempts_wf (updateFirst P f as)"
proof -
  have "map ra_seq (updateFirst P f as) = map ra_seq as \<and> map ra_attempt_id (updateFirst P f as) = map ra_attempt_id as
      \<and> list_all filled (updateFirst P f as)" if "list_all filled as" for as
    using that assms(1) by (induction as) (auto simp: keeps_identity_def)
  moreover have "length (updateFirst P f as) = length as" by (induction as) auto
  ultimately show ?thesis using assms(2) by (simp add: attempts_wf_def)
qed

lemma resumedEntry_spec:
  "le_state item = Blocked \<Longrightarrow> item_spec RECOVERY_MOVES item (resumedEntry showNum input time a item)"
  by (simp add: item_spec_def resumedEntry_def RECOVERY_MOVES_def verified_step_def verified_def remoteState_def)

lemma resumedEntry_wf:
  "item_wf item \<Longrightarrow> le_state item = Blocked \<Longrightarrow> item_wf (resumedEntry showNum input time a item)"
  by (auto simp: item_wf_def resumedEntry_def verified_def remoteState_def intro: chained_append)

lemma matching_block:
  assumes "requireMatchingBlock input a l = Inr u"
  obtains item where "rec_get (ll_items l) (ca_itemId input) = Some item" "le_state item = Blocked"
    "le_blocked_theme item = Some (blockerClassName (ra_class a))"
    "orElse (le_evidence_fingerprint item) [] = ra_evidence_fingerprint a"
  using assms by (auto simp: requireMatchingBlock_def split: option.splits if_splits)

lemma completeLedger_step:
  assumes "requireMatchingBlock input a l = Inr u"
  shows "ledger_spec RECOVERY_MOVES l (completeLedger showNum input contract a time mint l)"
    and "ledger_wf l \<Longrightarrow> ledger_wf (completeLedger showNum input contract a time mint l)"
proof -
  let ?done = "l\<lparr>ll_recovery_attempts := Some (updateFirst (\<lambda>a. ra_attempt_id a = Some (ca_attemptId input))
    (completedAttempt input time) (attemptsOf l))\<rparr>"
  obtain item where item: "rec_get (ll_items l) (ca_itemId input) = Some item" "le_state item = Blocked"
    by (rule matching_block [OF assms])
  have same: "same_items l ?done" by (simp add: same_items_fields)
  have "ledger_spec RECOVERY_MOVES ?done (updateItem (ca_itemId input) (resumedEntry showNum input time a) ?done)"
    by (rule updateItem_spec) (use item in \<open>simp add: resumedEntry_spec\<close>)
  from ledger_spec_same [OF same_ledger_spec [OF same this] admit_same] ledger_spec_same [OF ledger_spec_of_same [OF same] admit_same]
  show "ledger_spec RECOVERY_MOVES l (completeLedger showNum input contract a time mint l)"
    by (simp add: completeLedger_def Let_def)
  show "ledger_wf (completeLedger showNum input contract a time mint l)" if "ledger_wf l"
  proof -
    have "ledger_wf ?done"
      using that attempts_wf_updateFirst [OF keeps_identity_completed] by (simp add: ledger_wf_def attemptsOf_def)
    moreover have "ledger_wf (updateItem (ca_itemId input) (resumedEntry showNum input time a) ?done)"
      by (rule wf_updateItem [OF calculation]) (use item in \<open>simp add: resumedEntry_wf\<close>)
    ultimately show ?thesis by (simp add: completeLedger_def Let_def)
  qed
qed

lemma keeps_identity_stamp:
  "attempts_wf as \<Longrightarrow> attempts_wf (stampEpisodeNextEligibleAt as i t)"
  by (auto simp: stampEpisodeNextEligibleAt_def keeps_identity_def filled_def split: option.splits
    intro!: attempts_wf_map)

lemma coolingLedger_step:
  "same_items l (coolingLedger cooling l)" "ledger_wf l \<Longrightarrow> ledger_wf (coolingLedger cooling l)"
  by (simp_all add: coolingLedger_def Let_def same_items_fields ledger_wf_def attemptsOf_def keeps_identity_stamp)

lemma recovery_step_spec: "recovery_step sha l next \<Longrightarrow> ledger_spec RECOVERY_MOVES l next"
proof (induction rule: recovery_step.induct)
  case (admit l contract time mint)
  show ?case by (rule ledger_spec_of_same [OF same_items_trans [OF upgrade_same admit_same]])
next
  case (cool l cooling)
  show ?case by (rule ledger_spec_of_same [OF same_items_trans [OF upgrade_same coolingLedger_step(1)]])
qed (auto intro: same_ledger_spec [OF upgrade_same] blockLedger_spec claimLedger_spec completeLedger_step(1))

lemma find_None_ids: "find (\<lambda>a. ra_attempt_id a = Some x) as = None \<Longrightarrow> Some x \<notin> ra_attempt_id ` set as"
  by (force simp: find_None_iff)

lemma recovery_step_wf: "recovery_step sha l next \<Longrightarrow> ledger_wf l \<Longrightarrow> ledger_wf next"
proof (induction rule: recovery_step.induct)
  case (claim input contract l c time notBefore a mint)
  show ?case
    by (rule claimLedger_wf [OF wf_upgrade [OF claim.prems]])
      (use claimedAttempt_Inr [OF claim.hyps(3)] find_None_ids [OF claim.hyps(2)] in simp_all)
qed (simp_all add: wf_upgrade blockLedger_wf completeLedger_step(2) coolingLedger_step(2))

lemma recovery_step_amendments:
  "recovery_step sha l next \<Longrightarrow> ll_authority_amendments next = ll_authority_amendments l"
  by (induction rule: recovery_step.induct)
    (simp_all add: blockLedger_def claimLedger_def completeLedger_def coolingLedger_def addAttempt_def Let_def
      updateItem_def admitRecoveryLifecycle_def bindLifecycleRecord_def upgradeLedgerForRecovery_def split: option.splits)

lemma recovery_step_file: "recovery_step sha l next \<Longrightarrow> same_file l next"
  by (rule ledger_spec_file) (rule recovery_step_spec)

section \<open>The operations take recovery steps only\<close>

lemma wp_recoverableLedger [wp_intros]:
  assumes "\<And>dir l. runDir deps runId = Inr dir \<Longrightarrow> map_of (rw_ledgers w) dir = Some l
      \<Longrightarrow> Q (upgradeLedgerForRecovery (de_sha256 deps) (normalizeLedger (de_sha256 deps) (runPolicy w dir) l)) w"
    and "\<And>e. E e w"
  shows "wp (recoverableLedger deps runId) Q E w"
  unfolding recoverableLedger_def by (intro wp_intros assms)

abbreviation conforming :: "LoopStoreDeps \<Rightarrow> string \<Rightarrow> string \<Rightarrow> RunWorld \<Rightarrow> RunWorld \<Rightarrow> bool" where
  "conforming deps \<equiv> conforms (recovery_step (de_sha256 deps)) deps"

lemmas wp_commit_recovery = wp_commit [where step = "recovery_step (de_sha256 deps)" and deps = deps for deps]

lemma wp_blockItem:
  assumes "runs_named deps w"
  shows "wp (blockItem deps mint contract input) (\<lambda>_. conforming deps (bi_runId input) (bi_token input) w)
    (\<lambda>_. conforming deps (bi_runId input) (bi_token input) w) w"
  unfolding blockItem_def Let_def
  by (intro wp_intros wp_commit_recovery [OF assms])
    (assumption | blast intro: grow_intros | (auto intro: recovery_step.block; fail)[1])+

lemma wp_admitAndWrite:
  assumes "runs_named deps u" "runDir deps runId = Inr dir" "map_of (rw_ledgers u) dir = Some l"
    and "world_grows u w"
    and "\<And>x w'. conforming deps runId token u w' \<Longrightarrow> Q x w'" "\<And>e w'. conforming deps runId token u w' \<Longrightarrow> E e w'"
  shows "wp (admitAndWrite deps mint contract
    (upgradeLedgerForRecovery (de_sha256 deps) (normalizeLedger (de_sha256 deps) (runPolicy u dir) l)) token) Q E w"
  unfolding admitAndWrite_def Let_def
  by (intro wp_intros wp_commit_recovery [OF assms(1-3)] assms(5,6))
    (assumption | use assms(4) in \<open>blast intro: grow_intros\<close> | (auto intro: recovery_step.admit; fail)[1])+

lemma wp_startRecoveryAttempt:
  assumes "runs_named deps w"
  shows "wp (startRecoveryAttempt deps mint contract input) (\<lambda>_. conforming deps (sa_runId input) (sa_token input) w)
    (\<lambda>_. conforming deps (sa_runId input) (sa_token input) w) w"
  unfolding startRecoveryAttempt_def Let_def
  by (intro wp_intros wp_commit_recovery [OF assms] wp_admitAndWrite [OF assms])
    (assumption | blast intro: grow_intros | (auto intro: recovery_step.claim; fail)[1])+

lemma wp_completeRecoveryAttempt:
  assumes "runs_named deps w"
  shows "wp (completeRecoveryAttempt deps mint showNum contract input)
    (\<lambda>_. conforming deps (ca_runId input) (ca_token input) w)
    (\<lambda>_. conforming deps (ca_runId input) (ca_token input) w) w"
  unfolding completeRecoveryAttempt_def Let_def
  by (intro wp_intros wp_commit_recovery [OF assms] wp_admitAndWrite [OF assms])
    (assumption | blast intro: grow_intros | (auto intro: recovery_step.complete; fail)[1])+

lemma wp_persistOwnedCooling:
  assumes "runs_named deps w"
  shows "wp (persistOwnedCooling deps runId token cooling) (\<lambda>_. conforming deps runId token w)
    (\<lambda>_. conforming deps runId token w) w"
  unfolding persistOwnedCooling_def Let_def
  by (intro wp_intros wp_commit_recovery [OF assms])
    (assumption | blast intro: grow_intros | (auto intro: recovery_step.cool; fail)[1])+

interpretation block_item: ledger_operation deps "bi_runId input" "recovery_step (de_sha256 deps)"
    "\<lambda>token. blockItem deps mint contract (input\<lparr>bi_token := token\<rparr>)" for deps mint contract input
  by unfold_locales
    (use wpD [OF wp_blockItem [of deps _ mint contract "input\<lparr>bi_token := _\<rparr>"]] recovery_step_file in auto)

interpretation start_attempt: ledger_operation deps "sa_runId input" "recovery_step (de_sha256 deps)"
    "\<lambda>token. startRecoveryAttempt deps mint contract (input\<lparr>sa_token := token\<rparr>)" for deps mint contract input
  by unfold_locales
    (use wpD [OF wp_startRecoveryAttempt [of deps _ mint contract "input\<lparr>sa_token := _\<rparr>"]] recovery_step_file in auto)

interpretation complete_attempt: ledger_operation deps "ca_runId input" "recovery_step (de_sha256 deps)"
    "\<lambda>token. completeRecoveryAttempt deps mint showNum contract (input\<lparr>ca_token := token\<rparr>)" for deps mint showNum contract input
  by unfold_locales
    (use wpD [OF wp_completeRecoveryAttempt [of deps _ mint showNum contract "input\<lparr>ca_token := _\<rparr>"]] recovery_step_file in auto)

interpretation own_cooling: ledger_operation deps runId "recovery_step (de_sha256 deps)"
    "\<lambda>token. persistOwnedCooling deps runId token cooling" for deps runId cooling
  by unfold_locales (use wpD [OF wp_persistOwnedCooling] recovery_step_file in auto)

lemma wp_recoverItem:
  assumes "runs_named deps w"
  shows "wp (recoverItem deps mint showNum contract input) (\<lambda>_. conforming deps (rv_runId input) (rv_token input) w)
    (\<lambda>_. conforming deps (rv_runId input) (rv_token input) w) w"
proof -
  let ?C = "conforming deps (rv_runId input) (rv_token input)"
  have complete: "wp (completeRecoveryAttempt deps mint showNum contract c) (\<lambda>_. ?C w) (\<lambda>_. ?C w) w1"
    if "?C w w1" "ca_runId c = rv_runId input" "ca_token c = rv_token input" for c w1
  proof -
    have "runs_named deps w1"
      using runs_named_steps [OF assms] that(1) recovery_step_file unfolding conforms_def by blast
    from wp_completeRecoveryAttempt [OF this, of mint showNum contract c] that show ?thesis
      by (auto elim!: wp_mono intro: conforms_trans)
  qed
  have start: "wp (startRecoveryAttempt deps mint contract s) Q E w"
    if "sa_runId s = rv_runId input" "sa_token s = rv_token input" "\<And>x w1. ?C w w1 \<Longrightarrow> Q x w1" "\<And>e w1. ?C w w1 \<Longrightarrow> E e w1"
    for s Q E
    using wp_startRecoveryAttempt [OF assms, of mint contract s] that by (auto elim!: wp_mono)
  show ?thesis
    unfolding recoverItem_def
    by (intro wp_intros) (auto split: list.splits intro!: wp_intros start complete)
qed

interpretation recover_item: ledger_operation deps "rv_runId input" "recovery_step (de_sha256 deps)"
    "\<lambda>token. recoverItem deps mint showNum contract (input\<lparr>rv_token := token\<rparr>)" for deps mint showNum contract input
  by unfold_locales
    (use wpD [OF wp_recoverItem [of deps _ mint showNum contract "input\<lparr>rv_token := _\<rparr>"]] recovery_step_file in auto)

end
