(* ===== verification/Recovery_Claims.thy ===== *)
theory Recovery_Claims
  imports Recovery
begin

text \<open>
  What a recovery claim charges. \<open>startRecoveryAttempt\<close> of \<open>recovery.ts\<close> is followed branch by branch with
  the rules of the \<open>wp\<close> calculus: which ledger it acts on, when it replays a recorded attempt, when it
  appends one, and what the append takes from the budgets. The second half follows an episode over its
  life: an invariant of the attempt history that every recovery operation keeps bounds the starts of
  each recipe and shows that cursor, skips and counters of an episode only grow.
\<close>

section \<open>What a claim charges\<close>

text \<open>The claims an episode has recorded per recipe before this one.\<close>

definition priorCounts :: "(string \<Rightarrow> string) \<Rightarrow> StartRecoveryAttemptInput \<Rightarrow> ClaimContext \<Rightarrow> LoopLedger \<Rightarrow> (RecoveryRecipe \<times> int) list" where
  "priorCounts sha s c u = (case resumeEpisodeFromAttempts sha (attemptsOf u) (claimKey s c) of
     None \<Rightarrow> [] | Some e \<Rightarrow> er_attempts_per_strategy e)"

definition replayed :: "(string \<Rightarrow> string) \<Rightarrow> StartRecoveryAttemptInput \<Rightarrow> ClaimContext \<Rightarrow> LoopLedger \<Rightarrow> LoopLedger \<Rightarrow> LoopRecoveryAttempt \<Rightarrow> bool" where
  "replayed sha s c u l a \<longleftrightarrow> a \<in> set (attemptsOf u) \<and> ra_attempt_id a = Some (claimId sha s c)
     \<and> attemptsOf l = attemptsOf u \<and> ll_items l = ll_items u"

definition claimed :: "(string \<Rightarrow> string) \<Rightarrow> StartRecoveryAttemptInput \<Rightarrow> ClaimContext \<Rightarrow> LoopLedger \<Rightarrow> LoopLedger \<Rightarrow> LoopRecoveryAttempt \<Rightarrow> bool" where
  "claimed sha s c u l a \<longleftrightarrow>
     (let counts = priorCounts sha s c u; spent = spentOn counts (sa_action s);
          prep = (cc_class c = ReviewFindings \<and> sa_action s = UnlinkEngineScratch);
          charged = (ra_outcome a = Started \<and> \<not> prep)
      in Some (claimId sha s c) \<notin> ra_attempt_id ` set (attemptsOf u)
       \<and> attemptsOf l = attemptsOf u @ [a] \<and> ra_attempt_id a = Some (claimId sha s c)
       \<and> ra_outcome a = (if sa_skipInapplicable s then SkippedAttempt
            else if prep \<or> of_int spent < perStrategyBound (cc_entry c) (sa_action s) then Started else Exhausted)
       \<and> ra_attempts_per_strategy a = Some (if ra_outcome a = Started then AList.update (sa_action s) (spent + 1) counts else counts)
       \<and> ll_items l = (if charged
            then rec_put (sa_itemId s) ((cc_item c)\<lparr>le_recovery_budgets_remaining :=
                   rec_put (blockerClassName (cc_class c)) (max 0 (claimRemaining c - 1)) (le_recovery_budgets_remaining (cc_item c))\<rparr>)
                 (ll_items u)
            else ll_items u))"

lemma claimContext_Inr:
  assumes "claimContext s k u = Inr c"
  shows "rec_get (ll_items u) (sa_itemId s) = Some (cc_item c)" "le_state (cc_item c) = Blocked"
    "le_blocked_theme (cc_item c) = Some (blockerClassName (cc_class c))" "cc_entry c = policyEntryFor k (cc_class c)"
    "pe_terminal_outcome (cc_entry c) \<noteq> HumanAuthority" "sa_action s \<in> set (pe_recipes (cc_entry c))"
  using assms
  by (auto simp: claimContext_def Let_def bind_eq_Some_conv blockerClassOf_Some split: option.splits if_splits)

lemma passOver_counts [simp]: "er_attempts_per_strategy (passOver r e ep) = er_attempts_per_strategy ep"
  by (simp add: passOver_def Let_def split: option.splits)

lemma claimEpisode_counts: "er_attempts_per_strategy (claimEpisode sha s c u t) = priorCounts sha s c u"
  by (simp add: claimEpisode_def priorCounts_def emptyEpisode_def split: option.splits)

lemma claimed_fresh:
  assumes c: "claimContext s k u = Inr c" and a: "claimedAttempt sha s c u t nb = Inr a"
    and "find (\<lambda>x. ra_attempt_id x = Some (claimId sha s c)) (attemptsOf u) = None"
  shows "claimed sha s c u (claimLedger s c k a t mint u) a"
proof -
  have counts: "ra_attempts_per_strategy a = Some (er_attempts_per_strategy
      (claimedEpisode s c (claimEpisode sha s c u t) (claimBackoff s c u) t nb))"
    using a unfolding claimedAttempt_def Let_def by (simp add: attachEpisodeFields_Inr)
  note facts = claimedAttempt_Inr [OF a]
  have out: "ra_outcome a = (if sa_skipInapplicable s then SkippedAttempt
      else if findingsPrep s c \<or> of_int (spentOn (priorCounts sha s c u) (sa_action s)) < perStrategyBound (cc_entry c) (sa_action s)
      then Started else Exhausted)"
    using facts(4) by (auto simp: claimOutcome_def claimEpisode_counts not_less)
  have prep: "findingsPrep s c \<longleftrightarrow> cc_class c = ReviewFindings \<and> sa_action s = UnlinkEngineScratch"
    by (simp add: findingsPrep_def isReviewFindingsPrepUnlink_def)
  have "ll_items (claimLedger s c k a t mint u) = (if ra_outcome a = Started \<and> \<not> findingsPrep s c
      then rec_put (sa_itemId s) ((cc_item c)\<lparr>le_recovery_budgets_remaining :=
             rec_put (blockerClassName (cc_class c)) (max 0 (claimRemaining c - 1)) (le_recovery_budgets_remaining (cc_item c))\<rparr>)
           (ll_items u) else ll_items u)"
    using claimContext_Inr(1) [OF c] out
    by (auto simp: claimLedger_def Let_def chargesClass_def claimBudget_def updateItem_def addAttempt_def)
  moreover have "ra_attempts_per_strategy a = Some (if ra_outcome a = Started
      then AList.update (sa_action s) (spentOn (priorCounts sha s c u) (sa_action s) + 1) (priorCounts sha s c u)
      else priorCounts sha s c u)"
    using counts facts(4) out
    by (auto simp: claimedEpisode_def Let_def applyClaimToEpisode_def claimEpisode_counts split: RecoveryAttemptOutcome.splits if_splits)
  moreover have "attemptsOf (claimLedger s c k a t mint u) = attemptsOf u @ [a]"
    by (simp add: claimLedger_def Let_def addAttempt_def) (simp add: attemptsOf_def)
  ultimately show ?thesis
    unfolding claimed_def Let_def using find_None_ids [OF assms(3)] facts(2) out prep by simp
qed

lemma wp_admit_exact:
  assumes "runs_named deps u" "runDir deps runId = Inr dir" "map_of (rw_ledgers u) dir = Some l0" "world_grows u w"
    and "ll_run_id l = ll_run_id l0" "\<And>n w'. attemptsOf n = attemptsOf l \<Longrightarrow> ll_items n = ll_items l \<Longrightarrow> Q n w'"
    and "\<And>e w'. rw_ledgers w' = rw_ledgers u \<Longrightarrow> E e w'"
  shows "wp (admitAndWrite deps mint contract l token) Q E w"
  unfolding admitAndWrite_def Let_def
proof (intro wp_bind wp_runNow wp_if)
  fix t w'
  show "wp (io_return l) Q E w'" by (rule wp_return) (simp add: assms(6))
  assume "world_grows w w'"
  then have g: "world_grows u w'" using assms(4) world_grows_trans by blast
  show "wp (io_then (writeRunLedger deps (admitRecoveryLifecycle contract l (Iso t) mint) token)
      (io_return (admitRecoveryLifecycle contract l (Iso t) mint))) Q E w'"
    by (rule wp_then, rule wp_write_named [OF assms(1-3) g])
      (simp_all add: assms(5,6,7) world_grows_ledgers [OF g] wp_return)
qed

text \<open>C10: a recovery claim is charged once and within its bound. A call of \<open>startRecoveryAttempt\<close> that
  throws changes no ledger. One that returns acts on a blocked item of a class that does not demand human
  authority, with a recipe the policy permits; either the deterministic id of the action is already
  recorded, and the stored attempt is returned with no new attempt and no charge to any item, or the
  attempt is appended with its id: skipped without charge when inapplicable, started only when the
  claims recorded for the recipe in its episode are below the per-strategy bound (the preparatory unlink
  of review findings is free), else exhausted; a started claim raises the recorded count by exactly one
  and the class budget falls by one, never below zero; no other item changes.\<close>

theorem recovery_claim_charges_once:
  assumes "runs_named d w"
  shows "case startRecoveryAttempt d mint contract s w of
      (Inl e, w') \<Rightarrow> rw_ledgers w' = rw_ledgers w
    | (Inr (l, a), w') \<Rightarrow> (\<exists>k old c. upgradeContractForRecovery contract = Inr k \<and> viewOf d (sa_runId s) w = Some old
        \<and> claimContext s k (upgradeLedgerForRecovery (de_sha256 d) old) = Inr c
        \<and> (replayed (de_sha256 d) s c (upgradeLedgerForRecovery (de_sha256 d) old) l a
           \<or> claimed (de_sha256 d) s c (upgradeLedgerForRecovery (de_sha256 d) old) l a
             \<and> (\<exists>pol. viewOf d (sa_runId s) w' = Some (normalizeLedger (de_sha256 d) pol l))))"
proof -
  let ?sha = "de_sha256 d" and ?E = "\<lambda>(e :: LoopError) w'. rw_ledgers w' = rw_ledgers w"
  let ?Q = "\<lambda>(l, a) w'. \<exists>k old c. upgradeContractForRecovery contract = Inr k \<and> viewOf d (sa_runId s) w = Some old
        \<and> claimContext s k (upgradeLedgerForRecovery ?sha old) = Inr c
        \<and> (replayed ?sha s c (upgradeLedgerForRecovery ?sha old) l a
           \<or> claimed ?sha s c (upgradeLedgerForRecovery ?sha old) l a
             \<and> (\<exists>pol. viewOf d (sa_runId s) w' = Some (normalizeLedger ?sha pol l)))"
  have replay: "wp (io_then (io_lift r) (io_bind (admitAndWrite d mint k (upgradeLedgerForRecovery ?sha old) (sa_token s))
        (\<lambda>admitted. io_return (admitted, existing)))) ?Q ?E w1"
    if "upgradeContractForRecovery contract = Inr k" "runDir d (sa_runId s) = Inr dir" "map_of (rw_ledgers w) dir = Some l0"
      "old = normalizeLedger ?sha (runPolicy w dir) l0" "claimContext s k (upgradeLedgerForRecovery ?sha old) = Inr c"
      "world_grows w w1" "find (\<lambda>a. ra_attempt_id a = Some (claimId ?sha s c)) (attemptsOf (upgradeLedgerForRecovery ?sha old)) = Some existing"
    for k dir l0 old c w1 existing r
  proof (intro wp_then wp_lift wp_bind wp_admit_exact [OF assms that(2,3,6)] wp_return)
    fix n w' assume "attemptsOf n = attemptsOf (upgradeLedgerForRecovery ?sha old)" "ll_items n = ll_items (upgradeLedgerForRecovery ?sha old)"
    then have "replayed ?sha s c (upgradeLedgerForRecovery ?sha old) n existing"
      using that(7) by (auto simp: replayed_def find_Some_iff)
    then show "?Q (n, existing) w'" using that viewOf_Some [OF that(2,3)] by auto
  qed (use that world_grows_ledgers in auto)
  have fresh: "wp (io_bind (io_lift (claimedAttempt ?sha s c (upgradeLedgerForRecovery ?sha old) time nb)) (\<lambda>attempt.
        io_then (writeRunLedger d (claimLedger s c k attempt time mint (upgradeLedgerForRecovery ?sha old)) (sa_token s))
          (io_then (runEvent d (sa_runId s) (sa_token s) (f attempt) (DataAttempt attempt))
            (io_return (claimLedger s c k attempt time mint (upgradeLedgerForRecovery ?sha old), attempt))))) ?Q ?E w1"
    if "upgradeContractForRecovery contract = Inr k" "runDir d (sa_runId s) = Inr dir" "map_of (rw_ledgers w) dir = Some l0"
      "old = normalizeLedger ?sha (runPolicy w dir) l0" "claimContext s k (upgradeLedgerForRecovery ?sha old) = Inr c"
      "world_grows w w1" "find (\<lambda>a. ra_attempt_id a = Some (claimId ?sha s c)) (attemptsOf (upgradeLedgerForRecovery ?sha old)) = None"
    for k dir l0 old c w1 time nb f
  proof (rule wp_bind, rule wp_lift, rule wp_publish [OF assms that(2,3,6)])
    fix a w'
    let ?l = "claimLedger s c k a time mint (upgradeLedgerForRecovery ?sha old)"
    assume a: "claimedAttempt ?sha s c (upgradeLedgerForRecovery ?sha old) time nb = Inr a"
      and view: "viewOf d (sa_runId s) w' = Some (normalizeLedger ?sha (runPolicy w dir) ?l)"
    from claimed_fresh [OF that(5) a that(7), of mint] view viewOf_Some [OF that(2,3)] show "?Q (?l, a) w'"
      using that(1,4,5) by auto
  qed (use that world_grows_ledgers in auto)
  have "wp (startRecoveryAttempt d mint contract s) ?Q ?E w"
    unfolding startRecoveryAttempt_def Let_def
    by ((rule fresh replay, (assumption | rule refl)+) | (rule refl)[1]
        | (rule wp_throw, drule world_grows_ledgers, simp)
        | rule wp_bind wp_lift wp_recoverableLedger wp_then wp_runNow wp_option)+
  then show ?thesis unfolding wp_def by (auto split: prod.splits sum.splits)
qed

text \<open>A run whose only item waits for an upstream check, and the first claim on it.\<close>

definition upstreamContract :: LoopContract where
  "upstreamContract = (mkContract [mkItem ''1'' [] []])\<lparr>lc_recovery_policy := JObj (map (\<lambda>c. (blockerClassName c,
     if c = UpstreamDependency then rawEntry [''retry_upstream_check''] 1 (60, 2, 60) ''retry'' False 3
     else rawEntry [] 0 (0, 1, 0) ''human_authority'' True 1)) DURABLE_BLOCKER_CLASSES)\<rparr>"

definition upstreamRun :: RunWorld where
  "upstreamRun = \<lparr>rw_store = snd (acquireLock (exampleDeps 1) ''r'' Claude emptyWorld),
     rw_contracts = [(''/s/runs/r'', upstreamContract)],
     rw_ledgers = [(''/s/runs/r'',
       (mkLedger [(mkEntry ''1'' Blocked)\<lparr>le_blocked_theme := Some ''upstream-dependency''\<rparr>])\<lparr>ll_run_id := ''r''\<rparr>)]\<rparr>"

definition upstreamClaim :: StartRecoveryAttemptInput where
  "upstreamClaim = \<lparr>sa_runId = ''r'', sa_token = ''0'', sa_itemId = ''1'', sa_engine = Claude,
     sa_action = RetryUpstreamCheck, sa_candidateIdentity = None, sa_operation = None, sa_invariant = None,
     sa_candidateEpoch = None, sa_evidenceIdentity = None, sa_skipInapplicable = False\<rparr>"

lemma upstream_claim_returns:
  "case fst (startRecoveryAttempt (exampleDeps 1) ''m'' upstreamContract upstreamClaim upstreamRun) of
     Inl _ \<Rightarrow> False | Inr (l, a) \<Rightarrow> ra_outcome a = Started \<and> attemptsOf l \<noteq> []"
  by code_simp

theorem recovery_claim_charges_once_witness:
  "\<exists>l a w' c old. startRecoveryAttempt (exampleDeps 1) ''m'' upstreamContract upstreamClaim upstreamRun = (Inr (l, a), w')
     \<and> ra_outcome a = Started \<and> viewOf (exampleDeps 1) ''r'' upstreamRun = Some old
     \<and> claimed (\<lambda>s. s) upstreamClaim c (upgradeLedgerForRecovery (\<lambda>s. s) old) l a"
proof -
  obtain l a w' where r: "startRecoveryAttempt (exampleDeps 1) ''m'' upstreamContract upstreamClaim upstreamRun = (Inr (l, a), w')"
    "ra_outcome a = Started" "attemptsOf l \<noteq> []"
    using upstream_claim_returns by (auto split: sum.splits prod.splits simp: fst_def)
  have named: "runs_named (exampleDeps 1) upstreamRun"
    using example_runDir [of 1] by (simp add: runs_named_def rec_wf_def rec_keys_def mkLedger_def mkEntry_def upstreamRun_def)
  have view: "map_option (\<lambda>old. attemptsOf (upgradeLedgerForRecovery (\<lambda>s. s) old)) (viewOf (exampleDeps 1) ''r'' upstreamRun) = Some []"
    by code_simp
  from recovery_claim_charges_once [OF named, where mint = "''m''" and contract = upstreamContract
    and s = upstreamClaim] r view show ?thesis
    by (auto simp: replayed_def upstreamClaim_def exampleDeps_def)
qed

section \<open>An episode over its life\<close>

text \<open>The steps the recovery operations of \<open>recovery.ts\<close> take on a ledger under one contract: a claim of
  \<open>startRecoveryAttempt\<close>, a completion, a block, an admission, a cooling record, and the normalization that
  the store applies when the ledger is published and read under a current policy. Each of them starts
  from the upgraded ledger.\<close>

inductive governed_step :: "(string \<Rightarrow> string) \<Rightarrow> LoopContract \<Rightarrow> LoopLedger \<Rightarrow> LoopLedger \<Rightarrow> bool" for sha k where
  claim: "claimContext s k (upgradeLedgerForRecovery sha l) = Inr c
    \<Longrightarrow> find (\<lambda>a. ra_attempt_id a = Some (claimId sha s c)) (attemptsOf (upgradeLedgerForRecovery sha l)) = None
    \<Longrightarrow> claimedAttempt sha s c (upgradeLedgerForRecovery sha l) t nb = Inr a
    \<Longrightarrow> governed_step sha k l (claimLedger s c k a t mint (upgradeLedgerForRecovery sha l))"
| complete: "findClaim f (upgradeLedgerForRecovery sha l) = Inr a \<Longrightarrow> ra_outcome a = Started
    \<Longrightarrow> requireMatchingBlock f a (upgradeLedgerForRecovery sha l) = Inr u
    \<Longrightarrow> governed_step sha k l (completeLedger showNum f k a t mint (upgradeLedgerForRecovery sha l))"
| block: "requireInProgress runId (bi_itemId i) (upgradeLedgerForRecovery sha l) = Inr item
    \<Longrightarrow> governed_step sha k l (blockLedger k i cls fp t mint (upgradeLedgerForRecovery sha l))"
| admit: "governed_step sha k l (admitRecoveryLifecycle k (upgradeLedgerForRecovery sha l) t mint)"
| cool: "governed_step sha k l (coolingLedger cooling (upgradeLedgerForRecovery sha l))"
| publish: "\<not> policyNeedsRebase pol \<Longrightarrow> governed_step sha k l (normalizeLedger sha pol l)"

lemma governed_recovery: "governed_step sha k l next \<Longrightarrow> recovery_step sha l next \<or> (\<exists>pol. next = normalizeLedger sha pol l)"
  by (induction rule: governed_step.induct) (blast intro: recovery_step.intros)+

text \<open>What an attempt records of its episode, and the order in which episodes grow.\<close>

definition startedAttempt :: "LoopRecoveryAttempt \<Rightarrow> bool" where
  "startedAttempt a \<longleftrightarrow> ra_outcome a \<in> {Started, Recovered, Failed}"

definition ofEpisode :: "string \<Rightarrow> LoopRecoveryAttempt list \<Rightarrow> LoopRecoveryAttempt list" where
  "ofEpisode e as = filter (\<lambda>a. ra_episode_id a = Some e) as"

definition startsOf :: "string \<Rightarrow> RecoveryRecipe \<Rightarrow> LoopRecoveryAttempt list \<Rightarrow> nat" where
  "startsOf e r as = length (filter (\<lambda>a. ra_action a = Some r \<and> startedAttempt a) (ofEpisode e as))"

definition countsIn :: "LoopRecoveryAttempt \<Rightarrow> RecoveryRecipe \<Rightarrow> int" where
  "countsIn a r = spentOn (orElse (ra_attempts_per_strategy a) []) r"

definition episode_le :: "LoopRecoveryAttempt \<Rightarrow> LoopRecoveryAttempt \<Rightarrow> bool" where
  "episode_le a b \<longleftrightarrow> orElse (ra_strategy_cursor a) 0 \<le> orElse (ra_strategy_cursor b) 0
     \<and> set (orElse (ra_skipped_strategies a) []) \<subseteq> set (orElse (ra_skipped_strategies b) [])
     \<and> (\<forall>r. countsIn a r \<le> countsIn b r)"

lemma episode_le_trans: "episode_le a b \<Longrightarrow> episode_le b c \<Longrightarrow> episode_le a c"
  unfolding episode_le_def by (meson order_trans)

text \<open>The fields the episode is resumed from; completions and cooling keep them.\<close>

definition episodeFields :: "LoopRecoveryAttempt \<Rightarrow> _" where
  "episodeFields a = (ra_episode_id a, ra_operation a, ra_invariant a, ra_candidate_epoch a, ra_evidence_identity a,
     ra_attempts_per_strategy a, ra_strategy_cursor a, ra_skipped_strategies a, ra_class a, ra_action a, startedAttempt a)"

definition keyedAttempt :: "(string \<Rightarrow> string) \<Rightarrow> LoopRecoveryAttempt \<Rightarrow> bool" where
  "keyedAttempt sha a \<longleftrightarrow> (\<exists>key. ra_episode_id a = Some (recoveryEpisodeId sha key) \<and> ra_operation a = Some (ek_operation key)
     \<and> ra_invariant a = Some (ek_invariant key) \<and> ra_candidate_epoch a = Some (ek_candidate_epoch key)
     \<and> ra_evidence_identity a = Some (ek_evidence_identity key))"

text \<open>A bounded history: every attempt is keyed, episodes only grow, the latest counters of an episode cover
  its starts, and the starts of a class stay within the bound of its policy entry.\<close>

definition boundedStarts :: "LoopContract \<Rightarrow> string \<Rightarrow> DurableBlockerClass \<Rightarrow> RecoveryRecipe \<Rightarrow> LoopRecoveryAttempt list \<Rightarrow> bool" where
  "boundedStarts k e cls r as \<longleftrightarrow> int (startsOf e r (filter (\<lambda>a. ra_class a = cls) as)) \<le> max 0 \<lceil>perStrategyBound (policyEntryFor k cls) r\<rceil>"

definition bounded_history :: "(string \<Rightarrow> string) \<Rightarrow> LoopContract \<Rightarrow> LoopRecoveryAttempt list \<Rightarrow> bool" where
  "bounded_history sha k as \<longleftrightarrow> list_all (keyedAttempt sha) as \<and> list_all (\<lambda>a. ra_action a \<noteq> None) as
     \<and> (\<forall>e. sorted_wrt episode_le (ofEpisode e as)
         \<and> (ofEpisode e as \<noteq> [] \<longrightarrow> orElse (ra_attempts_per_strategy (last (ofEpisode e as))) [] \<noteq> []
              \<longrightarrow> (\<forall>r. int (startsOf e r as) \<le> countsIn (last (ofEpisode e as)) r))
         \<and> (\<forall>cls r. \<not> isReviewFindingsPrepUnlink (Some cls) (Some r) \<longrightarrow> boundedStarts k e cls r as))"

lemma ofEpisode_snoc: "ofEpisode e (as @ [a]) = (if ra_episode_id a = Some e then ofEpisode e as @ [a] else ofEpisode e as)"
  by (simp add: ofEpisode_def)

lemma startsOf_snoc:
  "startsOf e r (as @ [a]) = startsOf e r as
     + (if ra_episode_id a = Some e \<and> ra_action a = Some r \<and> startedAttempt a then 1 else 0)"
  by (simp add: startsOf_def ofEpisode_snoc)

text \<open>Attempts with the same episode fields have the same history.\<close>

lemma map_filter_fields:
  assumes "map f as = map f bs" "\<And>a b. f a = f b \<Longrightarrow> P a = P b"
  shows "map f (filter P as) = map f (filter P bs)"
  using assms(1)
proof (induction as arbitrary: bs)
  case (Cons a as)
  then obtain b bs' where bs: "bs = b # bs'" "f a = f b" "map f as = map f bs'" by (cases bs) auto
  from Cons.IH [OF bs(3)] assms(2) [OF bs(2)] bs(1,2) show ?case by simp
qed simp

lemma fields_simps:
  assumes "episodeFields a = episodeFields b"
  shows "ra_episode_id a = ra_episode_id b" "ra_action a = ra_action b" "ra_class a = ra_class b" "startedAttempt a = startedAttempt b"
    "keyedAttempt sha a = keyedAttempt sha b" "countsIn a = countsIn b" "ra_attempts_per_strategy a = ra_attempts_per_strategy b"
    "episode_le a c = episode_le b c" "episode_le c a = episode_le c b"
proof -
  note eqs = assms [unfolded episodeFields_def prod.inject]
  show "ra_episode_id a = ra_episode_id b" "ra_action a = ra_action b" "ra_class a = ra_class b" "startedAttempt a = startedAttempt b"
    "ra_attempts_per_strategy a = ra_attempts_per_strategy b"
    using eqs by iprover+
  show "keyedAttempt sha a = keyedAttempt sha b" by (simp only: keyedAttempt_def eqs)
  show counts: "countsIn a = countsIn b" by (simp only: fun_eq_iff countsIn_def eqs simp_thms)
  show "episode_le a c = episode_le b c" "episode_le c a = episode_le c b" by (simp_all only: episode_le_def eqs counts)
qed

lemma sorted_wrt_fields:
  assumes "map f as = map f bs" "\<And>a b c. f a = f b \<Longrightarrow> R a c = R b c \<and> R c a = R c b"
  shows "sorted_wrt R as = sorted_wrt R bs"
  using assms(1)
proof (induction as arbitrary: bs)
  case (Cons a as)
  then obtain b bs' where bs: "bs = b # bs'" "f a = f b" "map f as = map f bs'" by (cases bs) auto
  have "(\<forall>y\<in>set as. R a y) = (\<forall>y\<in>set bs'. R b y)"
  proof -
    have "(\<forall>y\<in>set as. R a y) = (\<forall>y\<in>set bs'. R a y)"
      using bs(3)
    proof (induction as arbitrary: bs')
      case (Cons x xs)
      then obtain y ys where bs: "bs' = y # ys" "f x = f y" "map f xs = map f ys" by (cases bs') auto
      from Cons.IH [OF bs(3)] assms(2) [OF bs(2), of a] bs(1) show ?case by simp
    qed simp
    with assms(2) [OF bs(2)] show ?thesis by simp
  qed
  with Cons.IH [OF bs(3)] bs(1) show ?case by simp
qed simp

lemma all_fields:
  assumes "map f as = map f bs" "\<And>a b. f a = f b \<Longrightarrow> P a = P b"
  shows "list_all P as = list_all P bs"
  using assms(1)
proof (induction as arbitrary: bs)
  case (Cons a as)
  then obtain b bs' where bs: "bs = b # bs'" "f a = f b" "map f as = map f bs'" by (cases bs) auto
  from Cons.IH [OF bs(3)] assms(2) [OF bs(2)] bs(1) show ?case by simp
qed simp

lemma bounded_fields:
  assumes "map episodeFields as = map episodeFields bs"
  shows "bounded_history sha k as = bounded_history sha k bs"
proof -
  have ep: "map episodeFields (ofEpisode e as) = map episodeFields (ofEpisode e bs)" for e
    unfolding ofEpisode_def by (rule map_filter_fields [OF assms]) (drule fields_simps(1), simp)
  have starts: "startsOf e r (filter P as) = startsOf e r (filter P bs)" if "\<And>a b. episodeFields a = episodeFields b \<Longrightarrow> P a = P b" for e r P
  proof -
    have "map episodeFields (ofEpisode e (filter P as)) = map episodeFields (ofEpisode e (filter P bs))"
      unfolding ofEpisode_def
      by (rule map_filter_fields, rule map_filter_fields [OF assms that], assumption) (drule fields_simps(1), simp only:)
    from map_filter_fields [OF this, of "\<lambda>a. ra_action a = Some r \<and> startedAttempt a"]
    have "map episodeFields (filter (\<lambda>a. ra_action a = Some r \<and> startedAttempt a) (ofEpisode e (filter P as)))
      = map episodeFields (filter (\<lambda>a. ra_action a = Some r \<and> startedAttempt a) (ofEpisode e (filter P bs)))"
      by (metis (no_types, lifting) fields_simps(2,4))
    then show ?thesis unfolding startsOf_def by (rule map_eq_imp_length_eq)
  qed
  have all: "list_all (keyedAttempt sha) as = list_all (keyedAttempt sha) bs" "list_all (\<lambda>a. ra_action a \<noteq> None) as = list_all (\<lambda>a. ra_action a \<noteq> None) bs"
    by (rule all_fields [OF assms], drule fields_simps(2,5), simp only:)+
  have lst: "episodeFields (last (ofEpisode e as)) = episodeFields (last (ofEpisode e bs))" if "ofEpisode e as \<noteq> []" for e
    using ep [of e] that by (metis last_map map_is_Nil_conv)
  have none: "ofEpisode e as = [] \<longleftrightarrow> ofEpisode e bs = []" for e using ep [of e] by (metis map_is_Nil_conv)
  have sorted: "sorted_wrt episode_le (ofEpisode e as) = sorted_wrt episode_le (ofEpisode e bs)" for e
    by (rule sorted_wrt_fields [OF ep]) (intro conjI fields_simps(8,9))
  have total: "startsOf e r as = startsOf e r bs" for e r using starts [of "\<lambda>_. True" e r] by simp
  have bound: "boundedStarts k e cls r as = boundedStarts k e cls r bs" for e cls r
  proof -
    have "startsOf e r (filter (\<lambda>a. ra_class a = cls) as) = startsOf e r (filter (\<lambda>a. ra_class a = cls) bs)"
      by (rule starts) (drule fields_simps(3), simp only:)
    then show ?thesis unfolding boundedStarts_def by (simp only:)
  qed
  have cover: "(ofEpisode e as \<noteq> [] \<longrightarrow> orElse (ra_attempts_per_strategy (last (ofEpisode e as))) [] \<noteq> []
        \<longrightarrow> (\<forall>r. int (startsOf e r as) \<le> countsIn (last (ofEpisode e as)) r))
    = (ofEpisode e bs \<noteq> [] \<longrightarrow> orElse (ra_attempts_per_strategy (last (ofEpisode e bs))) [] \<noteq> []
        \<longrightarrow> (\<forall>r. int (startsOf e r bs) \<le> countsIn (last (ofEpisode e bs)) r))" for e
  proof (cases "ofEpisode e as = []")
    case False
    from fields_simps(6,7) [OF lst [OF False]] show ?thesis by (simp only: none total)
  qed (simp add: none)
  show ?thesis unfolding bounded_history_def all sorted cover bound ..
qed

text \<open>Everything but a claim keeps the episode fields of the recorded attempts.\<close>

lemma upgrade_fields: "keyedAttempt sha a \<Longrightarrow> ra_action a \<noteq> None \<Longrightarrow> episodeFields (upgradeAttempt sha a) = episodeFields a"
  by (auto simp: upgradeAttempt_def normalizeStartedAttempt_def Let_def keyedAttempt_def episodeFields_def startedAttempt_def)

lemma upgraded_fields:
  assumes "bounded_history sha k (attemptsOf l)"
  shows "map episodeFields (attemptsOf (upgradeLedgerForRecovery sha l)) = map episodeFields (attemptsOf l)"
  using assms by (auto simp: upgradeLedgerForRecovery_def attemptsOf_def bounded_history_def list_all_iff intro!: upgrade_fields)

lemma normalized_fields:
  assumes "bounded_history sha k (attemptsOf l)" "\<not> policyNeedsRebase pol"
  shows "attemptsOf (normalizeLedger sha pol l) = attemptsOf l"
proof -
  have "normalizeStartedAttempt sha a = a" if "keyedAttempt sha a" for a
    using that by (auto simp: normalizeStartedAttempt_def keyedAttempt_def)
  with assms show ?thesis
    by (cases "ll_recovery_attempts l") (auto simp: normalizeLedger_def attemptsOf_def bounded_history_def list_all_iff Let_def intro!: map_idI)
qed

lemma completed_fields:
  assumes "find (\<lambda>a. ra_attempt_id a = Some i) as = Some a" "ra_outcome a = Started"
  shows "map episodeFields (updateFirst (\<lambda>a. ra_attempt_id a = Some i) (completedAttempt f t) as) = map episodeFields as"
  using assms(1)
proof (induction as)
  case (Cons x xs)
  have "episodeFields (completedAttempt f t a) = episodeFields a"
    using assms(2) by (simp add: completedAttempt_def episodeFields_def startedAttempt_def)
  with Cons show ?case by (auto split: if_splits)
qed simp

lemma stamped_fields: "map episodeFields (stampEpisodeNextEligibleAt as i t) = map episodeFields as"
  by (auto simp: stampEpisodeNextEligibleAt_def episodeFields_def startedAttempt_def split: option.splits)

text \<open>The episode a claim starts from is the one its attempts recorded.\<close>

lemma spentOn_Nil: "spentOn [] r = 0"
  by (simp add: spentOn_def)

lemma charges_counted: "spentOn (fold addCharge as acc) r
    = spentOn acc r + int (length (filter (\<lambda>a. ra_action a = Some r \<and> chargedAttempt a) as))"
  by (induction as arbitrary: acc) (auto simp: addCharge_def split: option.splits)

lemma starts_charged:
  "length (filter (\<lambda>a. ra_action a = Some r \<and> startedAttempt a) as) \<le> length (filter (\<lambda>a. ra_action a = Some r \<and> chargedAttempt a) as)"
  by (induction as) (auto simp: startedAttempt_def chargedAttempt_def)

lemma fold_addSkipped_subset: "set acc \<subseteq> set (fold addSkipped as acc)"
proof (induction as arbitrary: acc)
  case (Cons a as)
  have "set acc \<subseteq> set (addSkipped a acc)" by (auto simp: addSkipped_def set_add_def split: option.splits)
  with Cons.IH [of "addSkipped a acc"] show ?case by auto
qed simp

definition grows_from :: "LoopRecoveryAttempt list \<Rightarrow> RecoveryEpisodeRecord \<Rightarrow> bool" where
  "grows_from ms ep \<longleftrightarrow> (ms \<noteq> [] \<longrightarrow> orElse (ra_strategy_cursor (last ms)) 0 \<le> er_strategy_cursor ep
     \<and> set (orElse (ra_skipped_strategies (last ms)) []) \<subseteq> set (er_skipped_strategies ep)
     \<and> (\<forall>r. countsIn (last ms) r \<le> spentOn (er_attempts_per_strategy ep) r))"

definition named_by :: "(string \<Rightarrow> string) \<Rightarrow> RecoveryEpisodeRecord \<Rightarrow> bool" where
  "named_by sha ep \<longleftrightarrow> er_episode_id ep = recoveryEpisodeId sha \<lparr>ek_operation = er_operation ep, ek_invariant = er_invariant ep,
     ek_candidate_epoch = er_candidate_epoch ep, ek_evidence_identity = er_evidence_identity ep\<rparr>"

lemma projected_episode:
  assumes "bounded_history sha k as" "ofEpisode e as \<noteq> []"
  shows "er_episode_id (projectEpisode sha (ofEpisode e as) key) = e" "named_by sha (projectEpisode sha (ofEpisode e as) key)"
    "grows_from (ofEpisode e as) (projectEpisode sha (ofEpisode e as) key)"
    "int (startsOf e r as) \<le> spentOn (er_attempts_per_strategy (projectEpisode sha (ofEpisode e as) key)) r"
proof -
  let ?m = "ofEpisode e as" and ?l = "last (ofEpisode e as)"
  have "?l \<in> set ?m" using assms(2) by simp
  then have l: "ra_episode_id ?l = Some e" "?l \<in> set as" by (auto simp: ofEpisode_def)
  then have "keyedAttempt sha ?l" using assms(1) by (simp add: bounded_history_def list_all_iff)
  then obtain q where q: "e = recoveryEpisodeId sha q" "ra_operation ?l = Some (ek_operation q)" "ra_invariant ?l = Some (ek_invariant q)"
    "ra_candidate_epoch ?l = Some (ek_candidate_epoch q)" "ra_evidence_identity ?l = Some (ek_evidence_identity q)"
    using l(1) by (auto simp: keyedAttempt_def)
  show "er_episode_id (projectEpisode sha ?m key) = e" "named_by sha (projectEpisode sha ?m key)"
    using q l(1) by (simp_all add: projectEpisode_def Let_def named_by_def recoveryEpisodeId_def)
  show "grows_from ?m (projectEpisode sha ?m key)"
    using fold_addSkipped_subset by (simp add: grows_from_def projectEpisode_def Let_def countsIn_def charges_counted spentOn_Nil)
  show "int (startsOf e r as) \<le> spentOn (er_attempts_per_strategy (projectEpisode sha ?m key)) r"
    using assms starts_charged [of r ?m]
    by (auto simp: projectEpisode_def Let_def charges_counted bounded_history_def countsIn_def startsOf_def spentOn_Nil)
qed

lemma resume_eq:
  assumes "bounded_history sha k as"
  shows "resumeEpisodeFromAttempts sha as key = (if ofEpisode (recoveryEpisodeId sha key) as = [] then None
    else Some (projectEpisode sha (ofEpisode (recoveryEpisodeId sha key) as) key))"
proof (cases "ofEpisode (recoveryEpisodeId sha key) as = []")
  case True
  have "ra_episode_id a = Some (recoveryEpisodeId sha key)" if "a \<in> set as" "ra_operation a = Some (ek_operation key)"
      "ra_invariant a = Some (ek_invariant key)" "ra_candidate_epoch a = Some (ek_candidate_epoch key)"
      "orElse (ra_evidence_identity a) (ra_evidence_fingerprint a) = ek_evidence_identity key" for a
  proof -
    from assms that(1) obtain q where "ra_episode_id a = Some (recoveryEpisodeId sha q)" "ra_operation a = Some (ek_operation q)"
      "ra_invariant a = Some (ek_invariant q)" "ra_candidate_epoch a = Some (ek_candidate_epoch q)" "ra_evidence_identity a = Some (ek_evidence_identity q)"
      by (auto simp: bounded_history_def list_all_iff keyedAttempt_def)
    with that(2-) show ?thesis by (cases q; cases key) auto
  qed
  with True show ?thesis by (auto simp: resumeEpisodeFromAttempts_def Let_def ofEpisode_def filter_empty_conv)
qed (simp add: resumeEpisodeFromAttempts_def Let_def ofEpisode_def)

lemma resumed_episode:
  assumes "bounded_history sha k (attemptsOf u)"
  shows "er_episode_id (claimEpisode sha s c u t) = recoveryEpisodeId sha (claimKey s c)" "named_by sha (claimEpisode sha s c u t)"
    "grows_from (ofEpisode (er_episode_id (claimEpisode sha s c u t)) (attemptsOf u)) (claimEpisode sha s c u t)"
    "int (startsOf (er_episode_id (claimEpisode sha s c u t)) r (attemptsOf u)) \<le> spentOn (er_attempts_per_strategy (claimEpisode sha s c u t)) r"
proof -
  let ?e = "recoveryEpisodeId sha (claimKey s c)"
  have ep: "claimEpisode sha s c u t = (if ofEpisode ?e (attemptsOf u) = [] then emptyEpisode sha (claimKey s c) t
      else projectEpisode sha (ofEpisode ?e (attemptsOf u)) (claimKey s c))"
    by (simp add: claimEpisode_def resume_eq [OF assms])
  have zero: "startsOf ?e r (attemptsOf u) = 0" if "ofEpisode ?e (attemptsOf u) = []" using that by (simp add: startsOf_def)
  have empty: "er_episode_id (emptyEpisode sha (claimKey s c) t) = ?e" "named_by sha (emptyEpisode sha (claimKey s c) t)"
    "spentOn (er_attempts_per_strategy (emptyEpisode sha (claimKey s c) t)) r = 0"
    by (simp_all add: emptyEpisode_def named_by_def spentOn_def recoveryEpisodeId_def)
  show id: "er_episode_id (claimEpisode sha s c u t) = ?e" "named_by sha (claimEpisode sha s c u t)"
    using projected_episode [OF assms] empty by (simp_all add: ep)
  show "grows_from (ofEpisode (er_episode_id (claimEpisode sha s c u t)) (attemptsOf u)) (claimEpisode sha s c u t)"
    "int (startsOf (er_episode_id (claimEpisode sha s c u t)) r (attemptsOf u)) \<le> spentOn (er_attempts_per_strategy (claimEpisode sha s c u t)) r"
    unfolding id by (use projected_episode [OF assms] empty zero in \<open>auto simp: ep grows_from_def\<close>)
qed

lemma claimed_grows:
  "er_episode_id (claimedEpisode s c ep b t nb) = er_episode_id ep" "named_by sha (claimedEpisode s c ep b t nb) = named_by sha ep"
  "er_strategy_cursor ep \<le> er_strategy_cursor (claimedEpisode s c ep b t nb)"
  "set (er_skipped_strategies ep) \<subseteq> set (er_skipped_strategies (claimedEpisode s c ep b t nb))"
  "spentOn (er_attempts_per_strategy (claimedEpisode s c ep b t nb)) r
     = spentOn (er_attempts_per_strategy ep) r + (if claimOutcome s c ep = Started \<and> r = sa_action s then 1 else 0)"
proof -
  have pass: "er_episode_id (passOver a e ep) = er_episode_id ep" "named_by sha (passOver a e ep) = named_by sha ep"
    "er_strategy_cursor ep \<le> er_strategy_cursor (passOver a e ep)"
    "set (er_skipped_strategies ep) \<subseteq> set (er_skipped_strategies (passOver a e ep))" for a e
    by (auto simp: passOver_def Let_def named_by_def split: option.splits)
  show "er_episode_id (claimedEpisode s c ep b t nb) = er_episode_id ep" "named_by sha (claimedEpisode s c ep b t nb) = named_by sha ep"
    "er_strategy_cursor ep \<le> er_strategy_cursor (claimedEpisode s c ep b t nb)"
    "set (er_skipped_strategies ep) \<subseteq> set (er_skipped_strategies (claimedEpisode s c ep b t nb))"
    "spentOn (er_attempts_per_strategy (claimedEpisode s c ep b t nb)) r
       = spentOn (er_attempts_per_strategy ep) r + (if claimOutcome s c ep = Started \<and> r = sa_action s then 1 else 0)"
    using pass [of "sa_action s" "cc_entry c"]
    by (auto simp: claimedEpisode_def Let_def applyClaimToEpisode_def named_by_def split: RecoveryAttemptOutcome.splits)
qed

lemma sorted_snoc_last:
  assumes "sorted_wrt episode_le as" "as \<noteq> [] \<longrightarrow> episode_le (last as) a"
  shows "sorted_wrt episode_le (as @ [a])"
proof -
  have "episode_le x a" if "x \<in> set as" for x
  proof -
    from that have ne: "as \<noteq> []" by auto
    then have "sorted_wrt episode_le (butlast as @ [last as])" using assms(1) by simp
    with that ne have "x = last as \<or> episode_le x (last as)"
      by (metis (no_types, lifting) append_butlast_last_id in_set_conv_decomp list.set_intros(1) rotate1.simps(2) set_ConsD set_rotate1 sorted_wrt_append)
    with assms(2) ne episode_le_trans show ?thesis by blast
  qed
  with assms(1) show ?thesis by (simp add: sorted_wrt_append)
qed

lemma startsOf_filter: "startsOf e r (filter P as) \<le> startsOf e r as"
  by (induction as) (auto simp: startsOf_def ofEpisode_def)

lemma claim_bounded:
  assumes h: "bounded_history sha k (attemptsOf u)" and c: "claimContext s k u = Inr c" and a: "claimedAttempt sha s c u t nb = Inr a"
  shows "bounded_history sha k (attemptsOf u @ [a])"
proof -
  let ?as = "attemptsOf u" and ?ep = "claimEpisode sha s c u t" and ?e = "er_episode_id (claimEpisode sha s c u t)"
  let ?new = "claimedEpisode s c ?ep (claimBackoff s c u) t nb"
  note ep = resumed_episode [OF h, where s = s and c = c and t = t] and facts = claimedAttempt_Inr [OF a] and grow = claimed_grows [where s = s and c = c and ep = ?ep and b = "claimBackoff s c u" and t = t and nb = nb]
  have f: "ra_episode_id a = Some ?e" "ra_attempts_per_strategy a = Some (er_attempts_per_strategy ?new)"
    "ra_strategy_cursor a = Some (er_strategy_cursor ?new)" "ra_skipped_strategies a = Some (er_skipped_strategies ?new)"
    "ra_operation a = Some (er_operation ?new)" "ra_invariant a = Some (er_invariant ?new)"
    "ra_candidate_epoch a = Some (er_candidate_epoch ?new)" "ra_evidence_identity a = Some (er_evidence_identity ?new)"
    using a grow(1) by (auto simp: claimedAttempt_def attachEpisodeFields_def Let_def split: sum.splits)
  have key: "keyedAttempt sha a"
    using ep(2) grow(2) [of sha] f(1,5-8) grow(1) unfolding keyedAttempt_def
    by (intro exI [of _ "\<lparr>ek_operation = er_operation ?new, ek_invariant = er_invariant ?new, ek_candidate_epoch = er_candidate_epoch ?new,
      ek_evidence_identity = er_evidence_identity ?new\<rparr>"]) (simp add: named_by_def)
  have started: "startedAttempt a \<longleftrightarrow> claimOutcome s c ?ep = Started"
    using facts(4) by (auto simp: startedAttempt_def claimOutcome_def split: if_splits)
  have above: "ofEpisode ?e ?as \<noteq> [] \<longrightarrow> episode_le (last (ofEpisode ?e ?as)) a"
    using ep(3) grow(3,4,5) f(2,3,4) unfolding grows_from_def episode_le_def countsIn_def by (fastforce intro: order_trans)
  have cover: "int (startsOf ?e r (?as @ [a])) \<le> countsIn a r" for r
    using ep(4) [where r = r] grow(5) [where r = r] f(2) facts(7) started f(1) by (auto simp: startsOf_snoc countsIn_def)
  have bound: "boundedStarts k ?e cls r (?as @ [a])" if "\<not> isReviewFindingsPrepUnlink (Some cls) (Some r)" for cls r
  proof (cases "ra_class a = cls \<and> ra_action a = Some r \<and> startedAttempt a")
    case True
    then have cr: "cls = cc_class c" "r = sa_action s" "claimOutcome s c ?ep = Started" using facts(6,7) started by auto
    have "startsOf ?e r (filter (\<lambda>a. ra_class a = cls) ?as) \<le> startsOf ?e r ?as"
      by (rule startsOf_filter)
    moreover have "of_int (spentOn (er_attempts_per_strategy ?ep) r) < perStrategyBound (policyEntryFor k cls) r"
      using cr that claimContext_Inr(4) [OF c] by (auto simp: claimOutcome_def findingsPrep_def split: if_splits)
    ultimately have "int (startsOf ?e r (filter (\<lambda>a. ra_class a = cls) ?as)) + 1 \<le> \<lceil>perStrategyBound (policyEntryFor k cls) r\<rceil>"
      using ep(4) [where r = r] less_ceiling_iff [of "spentOn (er_attempts_per_strategy ?ep) r" "perStrategyBound (policyEntryFor k cls) r"] by linarith
    with True show ?thesis by (simp add: boundedStarts_def startsOf_snoc f(1))
  next
    case False
    with h that show ?thesis by (auto simp: boundedStarts_def startsOf_snoc bounded_history_def)
  qed
  show ?thesis
    unfolding bounded_history_def
  proof (intro conjI allI impI)
    fix e
    show "sorted_wrt episode_le (ofEpisode e (?as @ [a]))"
      using h above sorted_snoc_last f(1) by (auto simp: ofEpisode_snoc bounded_history_def)
    show "int (startsOf e r (?as @ [a])) \<le> countsIn (last (ofEpisode e (?as @ [a]))) r"
      if "ofEpisode e (?as @ [a]) \<noteq> []" "orElse (ra_attempts_per_strategy (last (ofEpisode e (?as @ [a])))) [] \<noteq> []" for r
      using that h cover [of r] f(1) by (cases "e = ?e") (auto simp: ofEpisode_snoc startsOf_snoc bounded_history_def)
    show "boundedStarts k e cls r (?as @ [a])" if "\<not> isReviewFindingsPrepUnlink (Some cls) (Some r)" for cls r
      using that h bound [OF that] f(1) by (cases "e = ?e") (auto simp: startsOf_snoc boundedStarts_def bounded_history_def)
  qed (use h key facts(7) in \<open>auto simp: bounded_history_def\<close>)
qed

lemma governed_bounded:
  assumes "governed_step sha k l next" "bounded_history sha k (attemptsOf l)"
  shows "bounded_history sha k (attemptsOf next)"
  using assms(1)
proof cases
  case (claim s c t nb a mint)
  have "bounded_history sha k (attemptsOf (upgradeLedgerForRecovery sha l))"
    using bounded_fields [OF upgraded_fields [OF assms(2)]] assms(2) by simp
  from claim_bounded [OF this claim(2,4)] claim(1) show ?thesis
    by (simp add: claimLedger_def Let_def addAttempt_def) (simp add: attemptsOf_def)
next
  case (complete f a u showNum t mint)
  from complete(2) have "find (\<lambda>a. ra_attempt_id a = Some (ca_attemptId f)) (attemptsOf (upgradeLedgerForRecovery sha l)) = Some a"
    by (auto simp: findClaim_def split: option.splits if_splits)
  from completed_fields [OF this complete(3)] upgraded_fields [OF assms(2)]
  have "map episodeFields (attemptsOf next) = map episodeFields (attemptsOf l)"
    by (simp add: complete(1) completeLedger_def Let_def) (simp add: attemptsOf_def)
  with bounded_fields assms(2) show ?thesis by blast
next
  case (cool cooling)
  have "attemptsOf next = attemptsOf (upgradeLedgerForRecovery sha l)
      \<or> (\<exists>i time. attemptsOf next = stampEpisodeNextEligibleAt (attemptsOf (upgradeLedgerForRecovery sha l)) i time)"
    by (auto simp: cool coolingLedger_def Let_def attemptsOf_def)
  then have "map episodeFields (attemptsOf next) = map episodeFields (attemptsOf l)"
    using upgraded_fields [OF assms(2)] by (auto simp: stamped_fields)
  with bounded_fields assms(2) show ?thesis by blast
next
  case (block runId i item cls fp t mint)
  have "attemptsOf next = attemptsOf (upgradeLedgerForRecovery sha l)"
    by (simp add: block(1) blockLedger_def Let_def) (simp add: attemptsOf_def updateItem_def split: option.splits)
  with bounded_fields [OF upgraded_fields [OF assms(2)]] assms(2) show ?thesis by simp
next
  case (admit t mint)
  with bounded_fields [OF upgraded_fields [OF assms(2)]] assms(2) show ?thesis by simp
next
  case (publish pol)
  with normalized_fields [OF assms(2) publish(2)] assms(2) show ?thesis by simp
qed

text \<open>C16: the attempts of a recovery episode are bounded over its whole life. Take any sequence of the
  recovery operations under one contract (claims with any inputs for any items, completions, blocks,
  admissions, cooling records, publications under a current policy) from a ledger without attempts.
  Then every recorded attempt carries the episode id that its own key fields hash to; along the attempts of
  one episode the strategy cursor never moves back, no skipped strategy is forgotten and no counter falls;
  the number of attempts of an episode that a blocker class started with a recipe never exceeds
  the bound of its policy entry, rounded up (only the preparatory unlink of review findings is free of
  it); and the episode that a later process resumes from the ledger has counted every one of those starts.\<close>

theorem episode_claims_bounded:
  assumes "(governed_step sha k)\<^sup>*\<^sup>* l l'" "attemptsOf l = []"
  shows "list_all (keyedAttempt sha) (attemptsOf l')
    \<and> sorted_wrt episode_le (ofEpisode e (attemptsOf l'))
    \<and> (\<not> isReviewFindingsPrepUnlink (Some cls) (Some r)
        \<longrightarrow> int (startsOf e r (filter (\<lambda>a. ra_class a = cls) (attemptsOf l'))) \<le> max 0 \<lceil>perStrategyBound (policyEntryFor k cls) r\<rceil>)
    \<and> (case resumeEpisodeFromAttempts sha (attemptsOf l') key of
         None \<Rightarrow> startsOf (recoveryEpisodeId sha key) r (attemptsOf l') = 0
       | Some ep \<Rightarrow> int (startsOf (recoveryEpisodeId sha key) r (attemptsOf l')) \<le> spentOn (er_attempts_per_strategy ep) r)"
proof -
  have h: "bounded_history sha k (attemptsOf l')"
    using assms(1)
  proof (induction rule: rtranclp_induct)
    case base
    show ?case by (simp add: assms(2) bounded_history_def ofEpisode_def boundedStarts_def startsOf_def)
  qed (rule governed_bounded)
  have "case resumeEpisodeFromAttempts sha (attemptsOf l') key of
         None \<Rightarrow> startsOf (recoveryEpisodeId sha key) r (attemptsOf l') = 0
       | Some ep \<Rightarrow> int (startsOf (recoveryEpisodeId sha key) r (attemptsOf l')) \<le> spentOn (er_attempts_per_strategy ep) r"
    using projected_episode(4) [OF h, of "recoveryEpisodeId sha key" r key] by (simp add: resume_eq [OF h] startsOf_def)
  with h show ?thesis by (simp add: bounded_history_def boundedStarts_def)
qed

text \<open>The claim of the example run, taken as a step under its contract.\<close>

abbreviation upstreamLedger :: LoopLedger where
  "upstreamLedger \<equiv> (mkLedger [(mkEntry ''1'' Blocked)\<lparr>le_blocked_theme := Some ''upstream-dependency''\<rparr>])\<lparr>ll_run_id := ''r''\<rparr>"

abbreviation upstreamTerms :: LoopContract where
  "upstreamTerms \<equiv> projr (upgradeContractForRecovery upstreamContract)"

abbreviation upstreamContext :: ClaimContext where
  "upstreamContext \<equiv> projr (claimContext upstreamClaim upstreamTerms (upgradeLedgerForRecovery (\<lambda>s. s) upstreamLedger))"

abbreviation upstreamAttempt :: LoopRecoveryAttempt where
  "upstreamAttempt \<equiv> projr (claimedAttempt (\<lambda>s. s) upstreamClaim upstreamContext (upgradeLedgerForRecovery (\<lambda>s. s) upstreamLedger) (Iso 0) (Iso 0))"

abbreviation upstreamClaimed :: LoopLedger where
  "upstreamClaimed \<equiv> claimLedger upstreamClaim upstreamContext upstreamTerms upstreamAttempt (Iso 0) ''m'' (upgradeLedgerForRecovery (\<lambda>s. s) upstreamLedger)"

lemma upstream_governed: "governed_step (\<lambda>s. s) upstreamTerms upstreamLedger upstreamClaimed"
proof (rule governed_step.claim)
  have "\<not> isl (claimContext upstreamClaim upstreamTerms (upgradeLedgerForRecovery (\<lambda>s. s) upstreamLedger))" by code_simp
  then show "claimContext upstreamClaim upstreamTerms (upgradeLedgerForRecovery (\<lambda>s. s) upstreamLedger) = Inr upstreamContext"
    by (simp add: sum.collapse(2))
  show "find (\<lambda>a. ra_attempt_id a = Some (claimId (\<lambda>s. s) upstreamClaim upstreamContext)) (attemptsOf (upgradeLedgerForRecovery (\<lambda>s. s) upstreamLedger)) = None"
    by (simp add: upgradeLedgerForRecovery_def attemptsOf_def mkLedger_def)
  show "claimedAttempt (\<lambda>s. s) upstreamClaim upstreamContext (upgradeLedgerForRecovery (\<lambda>s. s) upstreamLedger) (Iso 0) (Iso 0) = Inr upstreamAttempt"
    unfolding claimedAttempt_def Let_def using attachEpisodeFields_total by (metis sum.sel(2))
qed

lemma upstream_starts:
  "(let k = upstreamTerms; u = upgradeLedgerForRecovery (\<lambda>s. s) upstreamLedger; c = projr (claimContext upstreamClaim k u);
       a = projr (claimedAttempt (\<lambda>s. s) upstreamClaim c u (Iso 0) (Iso 0)); l = claimLedger upstreamClaim c k a (Iso 0) ''m'' u
    in startsOf (the (ra_episode_id a)) RetryUpstreamCheck (filter (\<lambda>a. ra_class a = UpstreamDependency) (attemptsOf l))) = 1"
  by code_simp

theorem episode_claims_bounded_witness:
  "\<exists>e. startsOf e RetryUpstreamCheck (filter (\<lambda>a. ra_class a = UpstreamDependency) (attemptsOf upstreamClaimed)) = 1
    \<and> 1 \<le> max 0 \<lceil>perStrategyBound (policyEntryFor upstreamTerms UpstreamDependency) RetryUpstreamCheck\<rceil>"
proof -
  let ?e = "the (ra_episode_id upstreamAttempt)" and ?b = "max 0 \<lceil>perStrategyBound (policyEntryFor upstreamTerms UpstreamDependency) RetryUpstreamCheck\<rceil>"
  let ?n = "startsOf ?e RetryUpstreamCheck (filter (\<lambda>a. ra_class a = UpstreamDependency) (attemptsOf upstreamClaimed))"
  have one: "?n = 1" using upstream_starts unfolding Let_def .
  have none: "attemptsOf upstreamLedger = []" by (simp add: attemptsOf_def mkLedger_def)
  have free: "\<not> isReviewFindingsPrepUnlink (Some UpstreamDependency) (Some RetryUpstreamCheck)" by code_simp
  have "int ?n \<le> ?b"
    by (rule mp [OF _ free], rule episode_claims_bounded [OF r_into_rtranclp [of "governed_step (\<lambda>s. s) upstreamTerms", OF upstream_governed] none,
      THEN conjunct2, THEN conjunct2, THEN conjunct1])
  then have "1 \<le> ?b" unfolding one of_nat_1 .
  with one show ?thesis by (intro exI conjI)
qed

end
