(* ===== verification/Typed_Requests.thy ===== *)
theory Typed_Requests
  imports Loop_Types
begin

text \<open>
  The three kinds of request an item may wait for (\<open>core/scripts/typed-request-resolution.ts\<close>): how
  the durable pause kinds map to the public request types and back, and the validators that decide
  whether a request carries the complete record its type requires. A validator answers with the
  record it keeps or with the reason of the refusal. What a resolver makes of a diagnostic
  (\<open>resolveTypedRequest\<close>) rests on the grill classifier and is not modelled.
\<close>

definition pauseKindToTypedRequest :: "string \<Rightarrow> PublicTypedRequest option" where
  "pauseKindToTypedRequest kind =
     (if kind = ''decision'' then Some DecisionRequest
      else if kind = ''answer'' then Some CapabilityRequest
      else if kind = ''authority-grant'' then Some AuthorityRequest
      else None)"

fun typedRequestToPauseKind :: "PublicTypedRequest \<Rightarrow> LoopHumanInputRequestKind" where
  "typedRequestToPauseKind DecisionRequest = Decision"
| "typedRequestToPauseKind CapabilityRequest = Answer"
| "typedRequestToPauseKind AuthorityRequest = AuthorityGrant"

fun durableClassForTypedRequest :: "PublicTypedRequest \<Rightarrow> DurableBlockerClass option" where
  "durableClassForTypedRequest DecisionRequest = Some SpecificationDecision"
| "durableClassForTypedRequest AuthorityRequest = Some MissingAuthority"
| "durableClassForTypedRequest CapabilityRequest = None"

definition PROTECTED_AUTHORITY_OPERATIONS :: "string list" where
  "PROTECTED_AUTHORITY_OPERATIONS = [''merge'', ''release'', ''deploy'', ''secret'', ''override'']"

definition isProtectedAuthorityOperation :: "string \<Rightarrow> bool" where
  "isProtectedAuthorityOperation operation \<longleftrightarrow> js_lower (js_trim operation) \<in> set PROTECTED_AUTHORITY_OPERATIONS"

section \<open>Validators\<close>

text \<open>\<open>!v || typeof v !== "object"\<close> is false for objects and arrays.\<close>

definition isObjectLike :: "jsval \<Rightarrow> bool" where
  "isObjectLike v = (case v of JObj _ \<Rightarrow> True | JArr _ \<Rightarrow> True | _ \<Rightarrow> False)"

definition lacksText :: "jsval \<Rightarrow> bool" where
  "lacksText v = (case v of JStr s \<Rightarrow> js_trim s = [] | _ \<Rightarrow> True)"

definition stringsOf :: "jsval \<Rightarrow> string list option" where
  "stringsOf v = (case v of JArr xs \<Rightarrow> if list_all isString xs then Some (map strVal xs) else None | _ \<Rightarrow> None)"

definition validateDecisionPackage :: "jsval \<Rightarrow> string + DecisionResolutionPackage" where
  "validateDecisionPackage pkg =
     (if \<not> isObjectLike pkg then Inl ''decision resolution package is missing''
      else if lacksText (jprop pkg ''recommendation'') then Inl ''decision resolution missing recommendation''
      else if lacksText (jprop pkg ''rationale'') then Inl ''decision resolution missing rationale''
      else (case stringsOf (jprop pkg ''alternatives'') of
        None \<Rightarrow> Inl ''decision resolution missing alternatives''
      | Some alternatives \<Rightarrow>
          if lacksText (jprop pkg ''risk'') then Inl ''decision resolution missing risk''
          else (case stringsOf (jprop pkg ''evidence'') of
            None \<Rightarrow> Inl ''decision resolution missing evidence''
          | Some [] \<Rightarrow> Inl ''decision resolution missing evidence''
          | Some evidence \<Rightarrow>
              Inr \<lparr>dp_recommendation = strVal (jprop pkg ''recommendation''),
                   dp_rationale = strVal (jprop pkg ''rationale''), dp_alternatives = alternatives,
                   dp_risk = strVal (jprop pkg ''risk''), dp_evidence = evidence\<rparr>)))"

definition validateCapabilityRequest :: "jsval \<Rightarrow> string + CapabilityRequestRecord" where
  "validateCapabilityRequest r =
     (if \<not> isObjectLike r then Inl ''CapabilityRequest is missing''
      else if lacksText (jprop r ''missing'') then Inl ''CapabilityRequest missing capability or information''
      else if lacksText (jprop r ''provider'') then Inl ''CapabilityRequest missing provider''
      else if lacksText (jprop r ''live_probe'') then Inl ''CapabilityRequest missing live probe''
      else if lacksText (jprop r ''resume_condition'') then Inl ''CapabilityRequest missing resume condition''
      else Inr \<lparr>cr_missing = strVal (jprop r ''missing''), cr_provider = strVal (jprop r ''provider''),
                cr_live_probe = strVal (jprop r ''live_probe''),
                cr_resume_condition = strVal (jprop r ''resume_condition'')\<rparr>)"

definition validateAuthorityRequest :: "jsval \<Rightarrow> bool \<Rightarrow> string + AuthorityRequestRecord" where
  "validateAuthorityRequest r tipPresent =
     (if \<not> isObjectLike r then Inl ''AuthorityRequest is missing''
      else if jprop r ''grant'' \<noteq> JUndef \<and> jprop r ''grant'' \<noteq> JNull
      then Inl ''AuthorityRequest must not record a default grant''
      else if lacksText (jprop r ''eligible_actor'') then Inl ''AuthorityRequest missing eligible actor''
      else if lacksText (jprop r ''repository'') then Inl ''AuthorityRequest missing repository''
      else if lacksText (jprop r ''operation'') then Inl ''AuthorityRequest missing operation''
      else if lacksText (jprop r ''scope'') then Inl ''AuthorityRequest missing scope''
      else if lacksText (jprop r ''expiry'') then Inl ''AuthorityRequest missing expiry''
      else (case jprop r ''evidence'' of
        JArr (e # es) \<Rightarrow>
          (let epoch = (case jprop r ''candidate_epoch'' of
                 JStr s \<Rightarrow> if js_trim s \<noteq> [] then Some (js_trim s) else None | _ \<Rightarrow> None)
           in if tipPresent \<and> epoch = None
              then Inl ''AuthorityRequest missing candidate epoch while a tip exists''
              else Inr \<lparr>ar_eligible_actor = strVal (jprop r ''eligible_actor''),
                     ar_repository = strVal (jprop r ''repository''), ar_operation = strVal (jprop r ''operation''),
                     ar_scope = strVal (jprop r ''scope''), ar_candidate_epoch = epoch, ar_evidence = e # es,
                     ar_expiry = strVal (jprop r ''expiry''), ar_grant = None\<rparr>)
      | _ \<Rightarrow> Inl ''AuthorityRequest missing evidence''))"

section \<open>Persisted records\<close>

text \<open>The validators also check records read back from a ledger; these are their JSON values.\<close>

definition decisionJs :: "DecisionResolutionPackage option \<Rightarrow> jsval" where
  "decisionJs p = (case p of None \<Rightarrow> JUndef | Some d \<Rightarrow> JObj
     [(''recommendation'', JStr (dp_recommendation d)), (''rationale'', JStr (dp_rationale d)),
      (''alternatives'', JArr (map JStr (dp_alternatives d))), (''risk'', JStr (dp_risk d)),
      (''evidence'', JArr (map JStr (dp_evidence d)))])"

definition capabilityJs :: "CapabilityRequestRecord option \<Rightarrow> jsval" where
  "capabilityJs p = (case p of None \<Rightarrow> JUndef | Some c \<Rightarrow> JObj
     [(''missing'', JStr (cr_missing c)), (''provider'', JStr (cr_provider c)), (''live_probe'', JStr (cr_live_probe c)),
      (''resume_condition'', JStr (cr_resume_condition c))])"

definition authorityJs :: "AuthorityRequestRecord option \<Rightarrow> jsval" where
  "authorityJs p = (case p of None \<Rightarrow> JUndef | Some a \<Rightarrow> JObj
     [(''eligible_actor'', JStr (ar_eligible_actor a)), (''repository'', JStr (ar_repository a)),
      (''operation'', JStr (ar_operation a)), (''scope'', JStr (ar_scope a)),
      (''candidate_epoch'', (case ar_candidate_epoch a of None \<Rightarrow> JNull | Some e \<Rightarrow> JStr e)),
      (''evidence'', JArr (ar_evidence a)), (''expiry'', JStr (ar_expiry a)),
      (''grant'', (case ar_grant a of None \<Rightarrow> JNull | Some g \<Rightarrow> JStr g))])"

lemma isString_JStr [simp]: "isString (JStr s)" "strVal (JStr s) = s"
  by (simp_all add: isString_def strVal_def)

lemma stringsOf_JStr [simp]: "stringsOf (JArr (map JStr xs)) = Some xs"
  by (simp add: stringsOf_def list_all_iff comp_def)

text \<open>What a validator accepts passes again after it was persisted, unchanged.\<close>

lemma decision_roundtrip: "validateDecisionPackage v = Inr d \<Longrightarrow> validateDecisionPackage (decisionJs (Some d)) = Inr d"
  by (auto simp: validateDecisionPackage_def decisionJs_def isObjectLike_def jprop_def lacksText_def
    split: if_splits option.splits list.splits jsval.splits)

lemma capability_roundtrip: "validateCapabilityRequest v = Inr c \<Longrightarrow> validateCapabilityRequest (capabilityJs (Some c)) = Inr c"
  by (auto simp: validateCapabilityRequest_def capabilityJs_def isObjectLike_def jprop_def lacksText_def
    split: if_splits jsval.splits)

end
