(* ===== verification/Pause.thy ===== *)
theory Pause
  imports Ledger_Spec Typed_Requests
begin

text \<open>
  Holds and authority (\<open>core/scripts/loop/pause.ts\<close>): pausing an item, letting it wait for a typed
  human request, the audited resume that composes with the Pipeline and native-goal mandates,
  abandoning a hold, the invalidation of a hold without a complete request, scoped authority
  amendments and the gate check they feed, and the hand-over of a run to another engine.
  \<open>str\<close> is the language's text of an arbitrary value in a message.
\<close>

section \<open>Lifecycle and inputs\<close>

definition upgradeLedgerForPauseAuthority :: "LoopLedger \<Rightarrow> LoopLedger" where
  "upgradeLedgerForPauseAuthority ledger =
     (if ll_authority_amendments ledger \<noteq> None then ledger else ledger\<lparr>ll_authority_amendments := Some []\<rparr>)"

definition amendmentsOf :: "LoopLedger \<Rightarrow> LoopAuthorityAmendment list" where
  "amendmentsOf ledger = orElse (ll_authority_amendments ledger) []"

definition bindHoldLifecycle :: "string \<Rightarrow> LoopLedger \<Rightarrow> timestamp \<Rightarrow> string option \<Rightarrow> LoopLedger" where
  "bindHoldLifecycle mint ledger time logicalOperationId =
     bindLifecycleRecord ledger
       (resolveLogicalOperationId (map_option dl_logical_operation_id (ll_lifecycle ledger)) None logicalOperationId None mint)
       (deriveLifecycleState (emptyDerivation\<lparr>in_typedRequest := typedRequestFromOwnedItems (ll_items ledger),
          in_cooling := ll_cooling ledger \<noteq> None,
          in_stopReason := map_option (\<lambda>s. stopReasonName (st_reason s)) (ll_stop ledger),
          in_activeAttempt := True\<rparr>))
       time"

record EnterHoldInput =
  eh_runId :: string
  eh_token :: string
  eh_itemId :: string
  eh_engine :: LoopEngineName
  eh_note :: "string option"
  eh_logicalOperationId :: "string option"

section \<open>Entering a hold\<close>

definition requireEngine :: "string \<Rightarrow> LoopEngineName \<Rightarrow> LoopLockRecord \<Rightarrow> unit result" where
  "requireEngine what engine lock =
     (if lk_engine lock \<noteq> engine
      then Inl (LoopError Validation (what @ '' names engine '' @ quoted (engineName engine)
             @ '', which does not match the current lock holder engine '' @ quoted (engineName (lk_engine lock))))
      else Inr ())"

definition requireItem :: "string \<Rightarrow> string \<Rightarrow> LoopLedger \<Rightarrow> LoopItemLedgerEntry result" where
  "requireItem runId itemId ledger =
     (case rec_get (ll_items ledger) itemId of
        None \<Rightarrow> Inl (LoopError Validation (''item '' @ quoted itemId @ '' not found in run '' @ quoted runId))
      | Some item \<Rightarrow> Inr item)"

definition moveItem ::
  "timestamp \<Rightarrow> LoopItemState \<Rightarrow> LoopEngineName \<Rightarrow> string option \<Rightarrow> LoopHumanInputRequest option
    \<Rightarrow> LoopItemLedgerEntry \<Rightarrow> LoopItemLedgerEntry" where
  "moveItem time to_state engine note request item =
     item\<lparr>le_state := to_state, le_hold_request := request, le_history := le_history item @
       [\<lparr>he_time = time, he_from = le_state item, he_to = to_state, he_engine = engine, he_theme = None,
         he_evidence = None, he_note = note\<rparr>]\<rparr>"

definition pauseLedger :: "LoopStoreDeps \<Rightarrow> string \<Rightarrow> LoopLedger run_io" where
  "pauseLedger deps runId =
     io_bind (readRunLedger deps runId) (\<lambda>l. io_return (upgradeLedgerForPauseAuthority l))"

definition requireHoldable :: "string \<Rightarrow> LoopItemState \<Rightarrow> LoopItemLedgerEntry \<Rightarrow> unit result" where
  "requireHoldable itemId to_state item =
     (if le_state item \<noteq> InProgress
      then Inl (LoopError Validation (''item '' @ quoted itemId @ '' cannot transition from ''
             @ quoted (itemStateName (le_state item)) @ '' to '' @ quoted (itemStateName to_state)
             @ '' -- only an in_progress item may enter a hold''))
      else Inr ())"

definition enterHold ::
  "LoopStoreDeps \<Rightarrow> string \<Rightarrow> EnterHoldInput \<Rightarrow> LoopItemState \<Rightarrow> LoopHumanInputRequest option \<Rightarrow> LoopLedger run_io" where
  "enterHold deps mint input to_state request =
     io_bind (on_store (requireToken deps (eh_runId input) (eh_token input))) (\<lambda>lock.
     io_then (io_lift (requireEngine ''hold transition'' (eh_engine input) lock))
     (io_bind (pauseLedger deps (eh_runId input)) (\<lambda>ledger.
     io_then (io_lift (requireNotStopped (eh_runId input) ledger (eh_itemId input)))
     (io_bind (io_lift (requireItem (eh_runId input) (eh_itemId input) ledger)) (\<lambda>item.
     io_then (io_lift (requireHoldable (eh_itemId input) to_state item))
     (io_bind (runNow deps) (\<lambda>time.
       let next = bindHoldLifecycle mint
             (updateItem (eh_itemId input) (moveItem time to_state (eh_engine input) (eh_note input) request) ledger)
             time (eh_logicalOperationId input)
       in io_then (writeRunLedger deps next (eh_token input))
         (io_then (runEvent deps (eh_runId input) (eh_token input)
            (if to_state = Paused then ''loop_item_paused'' else ''loop_item_waiting'')
            (DataObj (JObj ((''item_id'', JStr (eh_itemId input)) # (case request of None \<Rightarrow> []
               | Some r \<Rightarrow> [(''request_id'', JStr (hr_request_id r)), (''kind'', JStr (requestKindName (hr_kind r)))])))))
         (io_return next)))))))))"

definition pauseItem :: "LoopStoreDeps \<Rightarrow> string \<Rightarrow> EnterHoldInput \<Rightarrow> LoopLedger run_io" where
  "pauseItem deps mint input = enterHold deps mint input Paused None"

text \<open>Building the request of a waiting item: everything is validated before the clock and the id
  mint are read and before the ledger is touched.\<close>

definition requestKindOf :: "jsval \<Rightarrow> LoopHumanInputRequestKind option" where
  "requestKindOf v = (case v of JStr s \<Rightarrow> find (\<lambda>k. requestKindName k = s) LOOP_HUMAN_INPUT_REQUEST_KINDS | _ \<Rightarrow> None)"

definition permittedResponses :: "jsval \<Rightarrow> string list option result" where
  "permittedResponses v =
     (if v = JUndef then Inr None
      else (case stringsOf v of
        Some (r # rs) \<Rightarrow> Inr (Some (r # rs))
      | _ \<Rightarrow> Inl (LoopError Validation
          ''a human-input request's permitted_responses, when present, must be a non-empty array of strings'')))"

record TypedFields =
  tf_decision_package :: "DecisionResolutionPackage option"
  tf_capability_request :: "CapabilityRequestRecord option"
  tf_authority_request :: "AuthorityRequestRecord option"

definition noTypedFields :: TypedFields where
  "noTypedFields = \<lparr>tf_decision_package = None, tf_capability_request = None, tf_authority_request = None\<rparr>"

definition requireCompleteTypedRequest :: "LoopHumanInputRequestKind \<Rightarrow> jsval \<Rightarrow> TypedFields result" where
  "requireCompleteTypedRequest kind req =
     (case kind of
        Decision \<Rightarrow> (case validateDecisionPackage (jprop req ''decision_package'') of
            Inl reason \<Rightarrow> Inl (LoopError Validation reason)
          | Inr p \<Rightarrow> Inr (noTypedFields\<lparr>tf_decision_package := Some p\<rparr>))
      | Answer \<Rightarrow> (case validateCapabilityRequest (jprop req ''capability_request'') of
            Inl reason \<Rightarrow> Inl (LoopError Validation reason)
          | Inr r \<Rightarrow> Inr (noTypedFields\<lparr>tf_capability_request := Some r\<rparr>))
      | AuthorityGrant \<Rightarrow> (case validateAuthorityRequest (jprop req ''authority_request'')
              (\<not> lacksText (jprop req ''authority_candidate_head'')) of
            Inl reason \<Rightarrow> Inl (LoopError Validation reason)
          | Inr r \<Rightarrow> Inr (noTypedFields\<lparr>tf_authority_request := Some r\<rparr>)))"

definition requireAuthorityEvidence :: "jsval \<Rightarrow> unit result" where
  "requireAuthorityEvidence req =
     (let evidenceKey = jprop req ''authority_evidence_key''; head = jprop req ''authority_candidate_head''
      in if evidenceKey \<noteq> JUndef \<and> lacksText evidenceKey \<or> head \<noteq> JUndef \<and> lacksText head
            \<or> (evidenceKey = JUndef) \<noteq> (head = JUndef)
         then Inl (LoopError Validation ''authority hold evidence requires both a non-empty evidence key and candidate head'')
         else Inr ())"

definition strOpt :: "jsval \<Rightarrow> string option" where
  "strOpt v = (case v of JStr s \<Rightarrow> Some s | _ \<Rightarrow> None)"

definition buildHumanInputRequest ::
  "(jsval \<Rightarrow> string) \<Rightarrow> LoopStoreDeps \<Rightarrow> string \<Rightarrow> LoopEngineName \<Rightarrow> jsval \<Rightarrow> LoopHumanInputRequest run_io" where
  "buildHumanInputRequest str deps itemId engine req =
     (if \<not> isObjectLike req
      then io_throw (LoopError Validation ''a waiting transition requires a human-input request'')
      else (case requestKindOf (jprop req ''kind'') of
        None \<Rightarrow> io_throw (LoopError Validation (''human-input request kind '' @ quoted (str (jprop req ''kind''))
          @ '' is not one of '' @ quoted ''decision'' @ '', '' @ quoted ''answer'' @ '', '' @ quoted ''authority-grant''))
      | Some kind \<Rightarrow>
        if lacksText (jprop req ''prompt'')
        then io_throw (LoopError Validation ''a waiting transition's human-input request requires a non-empty prompt'')
        else io_bind (io_lift (permittedResponses (jprop req ''permitted_responses''))) (\<lambda>permitted.
          io_bind (io_lift (requireCompleteTypedRequest kind req)) (\<lambda>typedFields.
          io_then (io_lift (requireAuthorityEvidence req))
          (io_bind (on_store (io_uuid deps)) (\<lambda>u.
           io_bind (runNow deps) (\<lambda>t.
             io_return \<lparr>hr_request_id = ''req-'' @ u, hr_item_id = itemId, hr_kind = kind,
               hr_prompt = strVal (jprop req ''prompt''), hr_permitted_responses = permitted,
               hr_requested_by_engine = engine, hr_requested_at = t,
               hr_typed_request = pauseKindToTypedRequest (requestKindName kind),
               hr_decision_package = tf_decision_package typedFields,
               hr_capability_request = tf_capability_request typedFields,
               hr_authority_request = tf_authority_request typedFields,
               hr_authority_evidence_key = strOpt (jprop req ''authority_evidence_key''),
               hr_authority_candidate_head = strOpt (jprop req ''authority_candidate_head''),
               hr_source = strOpt (jprop req ''source'')\<rparr>)))))))"

definition waitItem :: "(jsval \<Rightarrow> string) \<Rightarrow> LoopStoreDeps \<Rightarrow> string \<Rightarrow> EnterHoldInput \<Rightarrow> jsval \<Rightarrow> LoopLedger run_io" where
  "waitItem str deps mint input req =
     io_bind (buildHumanInputRequest str deps (eh_itemId input) (eh_engine input) req) (\<lambda>request.
       enterHold deps mint input Waiting (Some request))"

section \<open>Leaving a hold\<close>

definition persistedTypedRequestComplete :: "LoopHumanInputRequest \<Rightarrow> bool" where
  "persistedTypedRequestComplete outstanding =
     (let typed = (case hr_typed_request outstanding of Some t \<Rightarrow> Some t
            | None \<Rightarrow> pauseKindToTypedRequest (requestKindName (hr_kind outstanding)))
      in case typed of
           Some DecisionRequest \<Rightarrow> \<not> isl (validateDecisionPackage (decisionJs (hr_decision_package outstanding)))
         | Some CapabilityRequest \<Rightarrow> \<not> isl (validateCapabilityRequest (capabilityJs (hr_capability_request outstanding)))
         | Some AuthorityRequest \<Rightarrow> \<not> isl (validateAuthorityRequest (authorityJs (hr_authority_request outstanding))
             (truthy (hr_authority_candidate_head outstanding)))
         | None \<Rightarrow> False)"

definition isHeld :: "LoopItemState \<Rightarrow> bool" where
  "isHeld s \<longleftrightarrow> s = Paused \<or> s = Waiting"

definition invalidateIncompleteHoldForReclassify ::
  "LoopStoreDeps \<Rightarrow> string \<Rightarrow> EnterHoldInput \<Rightarrow> string option \<Rightarrow> string option \<Rightarrow> LoopLedger run_io" where
  "invalidateIncompleteHoldForReclassify deps mint input actor requestId =
     io_then (on_store (requireToken deps (eh_runId input) (eh_token input)))
     (io_bind (pauseLedger deps (eh_runId input)) (\<lambda>ledger.
       case Option.bind (rec_get (ll_items ledger) (eh_itemId input))
              (\<lambda>item. if isHeld (le_state item) then map_option (Pair item) (le_hold_request item) else None) of
         None \<Rightarrow> io_throw (LoopError Validation (''item '' @ quoted (eh_itemId input) @ '' has no incomplete hold to invalidate''))
       | Some (item, request) \<Rightarrow>
         (let reqId = orElse requestId (hr_request_id request)
          in io_bind (runNow deps) (\<lambda>time.
             io_then (runDecision deps (eh_runId input) (eh_token input) ''loop_hold_invalidated_for_reclassify'' (DataObj (JObj
               [(''item_id'', JStr (eh_itemId input)), (''from_state'', JStr (itemStateName (le_state item))),
                (''request_id'', JStr reqId), (''actor'', JStr (orElse actor ''engine'')),
                (''reason'', JStr ''incomplete_typed_request'')])))
             (let next = bindHoldLifecycle mint (updateItem (eh_itemId input)
                    (moveItem time Pending (eh_engine input)
                      (Some ''legacy or incomplete typed-request hold invalidated for classifier re-admission'') None) ledger)
                    time (eh_logicalOperationId input)
              in io_then (writeRunLedger deps next (eh_token input))
                (io_then (runEvent deps (eh_runId input) (eh_token input) ''loop_item_hold_invalidated'' (DataObj (JObj
                   [(''item_id'', JStr (eh_itemId input)), (''reason'', JStr ''incomplete_typed_request''),
                    (''request_id'', JStr reqId)])))
                (io_return next)))))))"

definition abandonHold :: "LoopStoreDeps \<Rightarrow> EnterHoldInput \<Rightarrow> LoopLedger run_io" where
  "abandonHold deps input =
     io_bind (on_store (requireToken deps (eh_runId input) (eh_token input))) (\<lambda>lock.
     io_then (io_lift (requireEngine ''abandonHold'' (eh_engine input) lock))
     (io_bind (pauseLedger deps (eh_runId input)) (\<lambda>ledger.
     io_then (io_lift (requireNotStopped (eh_runId input) ledger (eh_itemId input)))
     (io_bind (io_lift (requireItem (eh_runId input) (eh_itemId input) ledger)) (\<lambda>item.
       if \<not> isHeld (le_state item)
       then io_throw (LoopError Validation (''item '' @ quoted (eh_itemId input) @ '' cannot transition from ''
              @ quoted (itemStateName (le_state item)) @ '' to '' @ quoted ''abandoned''
              @ '' via abandonHold -- only a paused or waiting item may be abandoned this way''))
       else io_bind (runNow deps) (\<lambda>time.
         let next = updateItem (eh_itemId input) (moveItem time Abandoned (eh_engine input) (eh_note input) None) ledger
         in io_then (writeRunLedger deps next (eh_token input))
           (io_then (runEvent deps (eh_runId input) (eh_token input) ''loop_item_abandoned'' (DataObj (JObj
              [(''item_id'', JStr (eh_itemId input)), (''from'', JStr (itemStateName (le_state item)))])))
           (io_return next))))))))"

section \<open>Audited resume\<close>

definition NATIVE_GOAL_FRESHNESS_WINDOW_SECONDS :: int where
  "NATIVE_GOAL_FRESHNESS_WINDOW_SECONDS = 300"

definition validatePipelinePreflightEvidence :: "LoopPipelinePreflightEvidence option \<Rightarrow> unit result" where
  "validatePipelinePreflightEvidence evidence =
     (case evidence of
        Some e \<Rightarrow> if pf_passed e then Inr ()
          else Inl (LoopError PipelineMandate ''resume into in_progress requires evidence that the Pipeline preflight passed'')
      | None \<Rightarrow> Inl (LoopError PipelineMandate ''resume into in_progress requires evidence that the Pipeline preflight passed''))"

definition mandateError :: "LoopEngineName \<Rightarrow> string \<Rightarrow> 'a result" where
  "mandateError expectedEngine what = Inl (LoopError NativeGoalMandate (what @ '' -- re-run the native bootstrap for ''
     @ quoted (engineName expectedEngine) @ '' and retry with fresh evidence''))"

definition validateNativeGoalEvidence ::
  "LoopNativeGoalCheck option \<Rightarrow> LoopEngineName \<Rightarrow> string \<Rightarrow> int \<Rightarrow> unit result" where
  "validateNativeGoalEvidence evidence expectedEngine expectedRunId nowMs =
     (case evidence of
        None \<Rightarrow> mandateError expectedEngine ''resume requires fresh native-goal evidence''
      | Some e \<Rightarrow>
          if ng_engine e \<noteq> expectedEngine
          then mandateError expectedEngine (''native-goal evidence names engine '' @ quoted (engineName (ng_engine e))
                 @ '', expected '' @ quoted (engineName expectedEngine))
          else if ng_run_id e \<noteq> expectedRunId
          then mandateError expectedEngine (''native-goal evidence names run '' @ quoted (ng_run_id e)
                 @ '', expected '' @ quoted expectedRunId)
          else if ng_status e \<noteq> ''active''
          then mandateError expectedEngine (''native-goal evidence reports status '' @ quoted (ng_status e)
                 @ '', expected '' @ quoted ''active'')
          else if (case date_parse (ng_checked_at e) of None \<Rightarrow> True
                   | Some checkedAt \<Rightarrow> \<bar>nowMs - checkedAt\<bar> > NATIVE_GOAL_FRESHNESS_WINDOW_SECONDS * 1000)
          then mandateError expectedEngine ''native-goal evidence checked_at is outside the 300s freshness window''
          else Inr ())"

definition validateResumeResponse :: "jsval \<Rightarrow> unit result" where
  "validateResumeResponse response =
     (if \<not> isPlainObject response then Inl (LoopError Validation ''resume requires a response object'')
      else if lacksText (jprop response ''value'')
      then Inl (LoopError Validation ''resume requires a non-empty response.value'')
      else Inr ())"

record ResumeHoldInput = EnterHoldInput +
  rh_actor :: string
  rh_response :: jsval
  rh_pipeline_preflight :: "LoopPipelinePreflightEvidence option"
  rh_native_goal :: "LoopNativeGoalCheck option"

text \<open>What the response must be for a waiting item: \<open>None\<close> accepts it, \<open>Some id\<close> means the hold lacks
  its typed record and is to be invalidated.\<close>

definition checkResponse :: "(jsval \<Rightarrow> string) \<Rightarrow> string \<Rightarrow> jsval \<Rightarrow> LoopItemLedgerEntry \<Rightarrow> string option result" where
  "checkResponse str itemId response item =
     (if le_state item \<noteq> Waiting then Inr None
      else (case le_hold_request item of
        None \<Rightarrow> Inl (LoopError Validation (''item '' @ quoted itemId
               @ '' is waiting but carries no outstanding human-input request''))
      | Some outstanding \<Rightarrow>
          if jprop response ''request_id'' \<noteq> JStr (hr_request_id outstanding)
          then Inl (LoopError Validation (''resume response names request '' @ quoted (str (jprop response ''request_id''))
                 @ '', but item '' @ quoted itemId @ [CHR 0x27] @ ''s outstanding request is ''
                 @ quoted (hr_request_id outstanding)))
          else if \<not> persistedTypedRequestComplete outstanding then Inr (Some (hr_request_id outstanding))
          else (case hr_permitted_responses outstanding of
            None \<Rightarrow> Inr None
          | Some permitted \<Rightarrow>
              if strVal (jprop response ''value'') \<notin> set permitted
              then Inl (LoopError Validation (''resume response '' @ quoted (strVal (jprop response ''value''))
                     @ '' is not among the outstanding request's permitted responses: '' @ js_join '', '' permitted))
              else Inr None)))"

definition resumeLedger :: "string \<Rightarrow> ResumeHoldInput \<Rightarrow> timestamp \<Rightarrow> LoopLedger \<Rightarrow> LoopLedger" where
  "resumeLedger mint input time ledger =
     bindHoldLifecycle mint
       ((updateItem (eh_itemId input) (moveItem time InProgress (eh_engine input) (eh_note input) None) ledger)
          \<lparr>ll_last_native_goal_check := rh_native_goal input\<rparr>)
       time (eh_logicalOperationId input)"

definition resumeHold :: "(jsval \<Rightarrow> string) \<Rightarrow> LoopStoreDeps \<Rightarrow> string \<Rightarrow> ResumeHoldInput \<Rightarrow> LoopLedger run_io" where
  "resumeHold str deps mint input =
     io_bind (on_store (requireToken deps (eh_runId input) (eh_token input))) (\<lambda>lock.
     io_then (io_lift (requireEngine ''resumeHold'' (eh_engine input) lock))
     (io_bind (pauseLedger deps (eh_runId input)) (\<lambda>ledger.
     io_then (io_lift (requireNotStopped (eh_runId input) ledger (eh_itemId input)))
     (io_bind (io_lift (requireItem (eh_runId input) (eh_itemId input) ledger)) (\<lambda>item.
       if \<not> isHeld (le_state item)
       then io_throw (LoopError Validation (''item '' @ quoted (eh_itemId input) @ '' has no active hold to resume -- its state is ''
              @ quoted (itemStateName (le_state item)) @ '', not '' @ quoted ''paused'' @ '' or '' @ quoted ''waiting''))
       else io_then (io_lift (validateResumeResponse (rh_response input)))
         (io_bind (io_lift (checkResponse str (eh_itemId input) (rh_response input) item)) (\<lambda>incomplete.
           case incomplete of
             Some requestId \<Rightarrow> invalidateIncompleteHoldForReclassify deps mint (EnterHoldInput.truncate input)
               (Some (rh_actor input)) (Some requestId)
           | None \<Rightarrow>
             io_then (io_lift (validatePipelinePreflightEvidence (rh_pipeline_preflight input)))
             (io_bind (on_store (io_now deps)) (\<lambda>nowMs.
              io_then (io_lift (validateNativeGoalEvidence (rh_native_goal input) (eh_engine input) (eh_runId input) nowMs))
              (io_bind (runNow deps) (\<lambda>time.
               io_then (runDecision deps (eh_runId input) (eh_token input) ''loop_hold_resumed'' (DataObj (JObj
                 [(''item_id'', JStr (eh_itemId input)), (''from_state'', JStr (itemStateName (le_state item))),
                  (''resuming_engine'', JStr (engineName (eh_engine input))), (''actor'', JStr (rh_actor input)),
                  (''response'', rh_response input), (''time'', JStr (showTimestamp deps time))])))
               (let next = resumeLedger mint input time ledger
                in io_then (writeRunLedger deps next (eh_token input))
                  (io_then (runEvent deps (eh_runId input) (eh_token input) ''loop_item_resumed'' (DataObj (JObj
                     [(''item_id'', JStr (eh_itemId input)), (''from'', JStr (itemStateName (le_state item)))])))
                  (io_return next))))))))))))))"

section \<open>Authority\<close>

record RecordAmendmentInput =
  rm_runId :: string
  rm_token :: string
  rm_gate :: jsval
  rm_scope_item_id :: "string option"
  rm_actor :: string
  rm_reason :: string

definition gateOf :: "jsval \<Rightarrow> LoopAuthorityGate option" where
  "gateOf v = (case v of JStr s \<Rightarrow> find (\<lambda>g. gateName g = s) LOOP_AUTHORITY_GATES | _ \<Rightarrow> None)"

definition js_falsy :: "jsval \<Rightarrow> bool" where
  "js_falsy v = (case v of JUndef \<Rightarrow> True | JNull \<Rightarrow> True | JBool b \<Rightarrow> \<not> b | JStr s \<Rightarrow> s = []
     | JNum n \<Rightarrow> n = Fin 0 \<or> n = NaN | _ \<Rightarrow> False)"

definition isArray :: "jsval \<Rightarrow> bool" where
  "isArray v = (case v of JArr _ \<Rightarrow> True | _ \<Rightarrow> False)"

definition amendmentGate :: "(jsval \<Rightarrow> string) \<Rightarrow> RecordAmendmentInput \<Rightarrow> (LoopAuthorityGate \<times> string) result" where
  "amendmentGate str input =
     (if isArray (rm_gate input)
      then Inl (LoopError Validation ''an authority amendment must name exactly one gate, not a list'')
      else if js_falsy (rm_gate input) then Inl (LoopError Validation ''an authority amendment must name a gate'')
      else (case gateOf (rm_gate input) of
        None \<Rightarrow> Inl (LoopError Validation (''an authority amendment names unknown gate '' @ quoted (str (rm_gate input))))
      | Some gate \<Rightarrow>
        if trimmed (rm_scope_item_id input) = []
        then Inl (LoopError Validation
               ''an authority amendment must name a scope_item_id -- a broad, un-scoped grant is refused'')
        else Inr (gate, orElse (rm_scope_item_id input) [])))"

definition recordAuthorityAmendment ::
  "(jsval \<Rightarrow> string) \<Rightarrow> LoopStoreDeps \<Rightarrow> RecordAmendmentInput \<Rightarrow> (LoopLedger \<times> LoopAuthorityAmendment) run_io" where
  "recordAuthorityAmendment str deps input =
     io_bind (io_lift (amendmentGate str input)) (\<lambda>(gate, scope).
     io_bind (pauseLedger deps (rm_runId input)) (\<lambda>ledger.
     io_bind (runNow deps) (\<lambda>t.
       let amendment = \<lparr>am_gate = gate, am_scope_item_id = scope, am_actor = rm_actor input,
             am_reason = rm_reason input, am_time = t\<rparr>;
           next = ledger\<lparr>ll_authority_amendments := Some (amendmentsOf ledger @ [amendment])\<rparr>
       in io_then (runDecision deps (rm_runId input) (rm_token input) ''loop_authority_amendment'' (DataAmendment amendment))
         (io_then (writeRunLedger deps next (rm_token input))
         (io_return (next, amendment))))))"

definition authorizeGatedTransition ::
  "LoopAuthorityGate list \<Rightarrow> LoopLedger \<Rightarrow> LoopAuthorityGate \<Rightarrow> string \<Rightarrow> string option \<Rightarrow> unit result" where
  "authorizeGatedTransition authorityGrants ledgerInput gate itemId evidence =
     (let ledger = upgradeLedgerForPauseAuthority ledgerInput
      in if \<not> (gate \<in> set authorityGrants
            \<or> list_ex (\<lambda>a. am_gate a = gate \<and> am_scope_item_id a = itemId) (amendmentsOf ledger))
         then Inl (LoopError Authority (''gate '' @ quoted (gateName gate) @ '' is not granted for item '' @ quoted itemId
                @ '' -- broad objectives do not grant gates; the run must stop and report''))
         else if trimmed evidence = []
         then Inl (LoopError Validation (''transition through gate '' @ quoted (gateName gate)
                @ '' requires directly verified facts, not an agent's claim''))
         else Inr ())"

section \<open>Hand-over\<close>

record HandoffInput =
  hi_runId :: string
  hi_token :: string
  hi_fromEngine :: LoopEngineName
  hi_toEngine :: LoopEngineName
  hi_reason :: string

definition handoffRun :: "LoopStoreDeps \<Rightarrow> HandoffInput \<Rightarrow> unit run_io" where
  "handoffRun deps input =
     io_bind (pauseLedger deps (hi_runId input)) (\<lambda>ledger.
       if list_ex (\<lambda>item. le_state item = InProgress) (rec_values (ll_items ledger))
       then io_throw (LoopError Conflict (''loop run '' @ quoted (hi_runId input)
              @ '': handoff refused while an item is in_progress''))
       else io_bind (on_store (requireToken deps (hi_runId input) (hi_token input))) (\<lambda>lock.
         if lk_engine lock \<noteq> hi_fromEngine input
         then io_throw (LoopError Validation (''handoff from_engine '' @ quoted (engineName (hi_fromEngine input))
                @ '' does not match the current lock holder engine '' @ quoted (engineName (lk_engine lock))))
         else io_bind (runNow deps) (\<lambda>time.
           io_then (runDecision deps (hi_runId input) (hi_token input) ''loop_handoff'' (DataHandoff
             \<lparr>ho_from_engine = hi_fromEngine input, ho_to_engine = hi_toEngine input, ho_reason = hi_reason input,
              ho_time = time\<rparr>))
           (on_store (releaseLock deps (hi_runId input) (hi_token input))))))"

section \<open>Abstract steps\<close>

definition HOLD_MOVES :: moves where
  "HOLD_MOVES = {InProgress} \<times> {Paused, Waiting} \<union> {Paused, Waiting} \<times> {InProgress, Abandoned, Pending}"

inductive hold_step :: "LoopLedger \<Rightarrow> LoopLedger \<Rightarrow> bool" where
  move: "requireItem runId i (upgradeLedgerForPauseAuthority l) = Inr item \<Longrightarrow> (le_state item, to_state) \<in> HOLD_MOVES
    \<Longrightarrow> hold_step l (bindHoldLifecycle mint (updateItem i (moveItem time to_state engine msg request)
          (upgradeLedgerForPauseAuthority l)) time lop)"
| abandon: "requireItem runId i (upgradeLedgerForPauseAuthority l) = Inr item \<Longrightarrow> isHeld (le_state item)
    \<Longrightarrow> hold_step l (updateItem i (moveItem time Abandoned engine msg None) (upgradeLedgerForPauseAuthority l))"
| resume: "requireItem runId (eh_itemId input) (upgradeLedgerForPauseAuthority l) = Inr item \<Longrightarrow> isHeld (le_state item)
    \<Longrightarrow> hold_step l (resumeLedger mint input time (upgradeLedgerForPauseAuthority l))"

text \<open>Recording an amendment.\<close>

definition amend_step :: "LoopLedger \<Rightarrow> LoopLedger \<Rightarrow> bool" where
  "amend_step l next \<longleftrightarrow> (\<exists>amendment. next = upgradeLedgerForPauseAuthority l
     \<lparr>ll_authority_amendments := Some (amendmentsOf l @ [amendment])\<rparr>)"

lemma upgradePause_fields [simp]:
  "ll_run_id (upgradeLedgerForPauseAuthority l) = ll_run_id l" "ll_items (upgradeLedgerForPauseAuthority l) = ll_items l"
  "ll_stop (upgradeLedgerForPauseAuthority l) = ll_stop l"
  "attemptsOf (upgradeLedgerForPauseAuthority l) = attemptsOf l"
  "amendmentsOf (upgradeLedgerForPauseAuthority l) = amendmentsOf l"
  by (simp_all add: upgradeLedgerForPauseAuthority_def attemptsOf_def amendmentsOf_def split: option.splits)

lemma bindHold_fields [simp]:
  "ll_run_id (bindHoldLifecycle mint l t lop) = ll_run_id l" "ll_items (bindHoldLifecycle mint l t lop) = ll_items l"
  "attemptsOf (bindHoldLifecycle mint l t lop) = attemptsOf l"
  "ll_authority_amendments (bindHoldLifecycle mint l t lop) = ll_authority_amendments l"
  by (simp_all add: bindHoldLifecycle_def bindLifecycleRecord_def attemptsOf_def)

lemma native_check_fields [simp]:
  "attemptsOf (l\<lparr>ll_last_native_goal_check := g\<rparr>) = attemptsOf l"
  "attemptsOf (l\<lparr>ll_authority_amendments := m\<rparr>) = attemptsOf l"
  by (simp_all add: attemptsOf_def)

lemma wp_pauseLedger [wp_intros]:
  assumes "\<And>dir l. runDir deps runId = Inr dir \<Longrightarrow> map_of (rw_ledgers w) dir = Some l
      \<Longrightarrow> Q (upgradeLedgerForPauseAuthority (normalizeLedger (de_sha256 deps) (runPolicy w dir) l)) w"
    and "\<And>e. E e w"
  shows "wp (pauseLedger deps runId) Q E w"
  unfolding pauseLedger_def by (intro wp_intros assms)

lemmas wp_commit_hold = wp_commit [where step = hold_step]

lemma requireHoldable_Inr: "requireHoldable i to_state item = Inr u \<longleftrightarrow> le_state item = InProgress"
  by (simp add: requireHoldable_def)

lemma wp_enterHold:
  assumes "runs_named deps u" "world_grows u w" "to_state = Paused \<or> to_state = Waiting"
  shows "wp (enterHold deps mint input to_state request) (\<lambda>_. conforms hold_step deps (eh_runId input) (eh_token input) u)
    (\<lambda>_. conforms hold_step deps (eh_runId input) (eh_token input) u) w"
proof -
  have pol: "runPolicy w = runPolicy u" "rw_ledgers w = rw_ledgers u"
    using assms(2) by (auto simp: world_grows_def runPolicy_def fun_eq_iff)
  show ?thesis
    unfolding enterHold_def Let_def
    by (intro wp_intros wp_commit_hold [OF assms(1)])
    (assumption | use assms(2) in \<open>blast intro: grow_intros\<close> | (use assms(3) pol in \<open>auto simp: requireHoldable_Inr HOLD_MOVES_def intro: hold_step.move\<close>; fail)[1])+
qed

lemma wp_pauseItem:
  assumes "runs_named deps w"
  shows "wp (pauseItem deps mint input) (\<lambda>_. conforms hold_step deps (eh_runId input) (eh_token input) w)
    (\<lambda>_. conforms hold_step deps (eh_runId input) (eh_token input) w) w"
  unfolding pauseItem_def by (rule wp_enterHold [OF assms]) simp_all

lemma wp_buildHumanInputRequest:
  assumes "\<And>r w'. world_grows w w' \<Longrightarrow> Q r w'" "\<And>e. E e w"
  shows "wp (buildHumanInputRequest str deps itemId engine req) Q E w"
  unfolding buildHumanInputRequest_def by (intro wp_intros assms) (auto intro: world_grows_trans)

lemma wp_waitItem:
  assumes "runs_named deps w"
  shows "wp (waitItem str deps mint input req) (\<lambda>_. conforms hold_step deps (eh_runId input) (eh_token input) w)
    (\<lambda>_. conforms hold_step deps (eh_runId input) (eh_token input) w) w"
  unfolding waitItem_def
  by (intro wp_intros wp_buildHumanInputRequest wp_enterHold [OF assms]) (auto intro: grow_intros)

lemma wp_invalidate:
  assumes "runs_named deps w"
  shows "wp (invalidateIncompleteHoldForReclassify deps mint input actor requestId)
    (\<lambda>_. conforms hold_step deps (eh_runId input) (eh_token input) w)
    (\<lambda>_. conforms hold_step deps (eh_runId input) (eh_token input) w) w"
  unfolding invalidateIncompleteHoldForReclassify_def Let_def
  by (intro wp_intros wp_commit_hold [OF assms])
    (assumption | blast intro: grow_intros | (auto simp: requireItem_def HOLD_MOVES_def isHeld_def bind_eq_Some_conv split: if_splits intro!: hold_step.move; fail)[1])+

lemma wp_abandonHold:
  assumes "runs_named deps w"
  shows "wp (abandonHold deps input) (\<lambda>_. conforms hold_step deps (eh_runId input) (eh_token input) w)
    (\<lambda>_. conforms hold_step deps (eh_runId input) (eh_token input) w) w"
  unfolding abandonHold_def Let_def
  by (intro wp_intros wp_commit_hold [OF assms])
    (assumption | blast intro: grow_intros | (auto intro: hold_step.abandon; fail)[1])+

lemma wp_resumeHold:
  assumes "runs_named deps w"
  shows "wp (resumeHold str deps mint input) (\<lambda>_. conforms hold_step deps (eh_runId input) (eh_token input) w)
    (\<lambda>_. conforms hold_step deps (eh_runId input) (eh_token input) w) w"
proof -
  have inv: "wp (invalidateIncompleteHoldForReclassify deps mint (EnterHoldInput.truncate input) actor requestId)
    (\<lambda>_. conforms hold_step deps (eh_runId input) (eh_token input) w)
    (\<lambda>_. conforms hold_step deps (eh_runId input) (eh_token input) w) w" for actor requestId
    using wp_invalidate [OF assms, of mint "EnterHoldInput.truncate input" actor requestId]
    by (simp add: EnterHoldInput.truncate_def)
  show ?thesis
    unfolding resumeHold_def Let_def
    by (intro wp_intros wp_commit_hold [OF assms] inv)
    (assumption | blast intro: grow_intros | (auto simp: resumeLedger_def intro: hold_step.resume [unfolded resumeLedger_def]; fail)[1])+
qed

lemma wp_recordAuthorityAmendment:
  assumes "runs_named deps w"
  shows "wp (recordAuthorityAmendment str deps input) (\<lambda>_. conforms amend_step deps (rm_runId input) (rm_token input) w)
    (\<lambda>_. conforms amend_step deps (rm_runId input) (rm_token input) w) w"
  unfolding recordAuthorityAmendment_def Let_def
  by (intro wp_intros wp_commit [OF assms, where step = amend_step])
    (assumption | blast intro: grow_intros | (auto simp: amend_step_def; fail)[1])+

section \<open>The hold steps keep the ledger well formed\<close>

lemma moveItem_spec: "(le_state item, to_state) \<in> moves \<Longrightarrow> \<not> remoteState to_state \<Longrightarrow> item_spec moves item (moveItem time to_state e n r item)"
  by (simp add: item_spec_def moveItem_def verified_step_def verified_local)

lemma moveItem_wf: "item_wf item \<Longrightarrow> to_state \<noteq> Blocked \<Longrightarrow> \<not> remoteState to_state \<Longrightarrow> item_wf (moveItem time to_state e n r item)"
  by (auto simp: item_wf_def moveItem_def verified_local intro: chained_append)

lemma requireItem_Inr: "requireItem runId i l = Inr item \<longleftrightarrow> rec_get (ll_items l) i = Some item"
  by (simp add: requireItem_def split: option.splits)

lemma move_step:
  assumes "requireItem runId i l = Inr item" "(le_state item, to_state) \<in> HOLD_MOVES"
  shows "ledger_spec HOLD_MOVES l (updateItem i (moveItem time to_state e n r) l)"
    and "ledger_wf l \<Longrightarrow> ledger_wf (updateItem i (moveItem time to_state e n r) l)"
proof -
  have "to_state \<noteq> Blocked" "\<not> remoteState to_state" using assms(2) by (auto simp: HOLD_MOVES_def remoteState_def)
  then show "ledger_spec HOLD_MOVES l (updateItem i (moveItem time to_state e n r) l)"
    and "ledger_wf l \<Longrightarrow> ledger_wf (updateItem i (moveItem time to_state e n r) l)"
    using assms by (auto intro!: updateItem_spec wf_updateItem moveItem_spec moveItem_wf simp: requireItem_Inr)
qed

lemma bindHold_same [simp]: "same_items l (bindHoldLifecycle mint l t lop)"
  by (simp add: same_items_fields)

lemma upgradePause_same [simp]: "same_items l (upgradeLedgerForPauseAuthority l)"
  by (simp add: same_items_fields)

lemma ledger_wf_fields: "ll_items n = ll_items l \<Longrightarrow> attemptsOf n = attemptsOf l \<Longrightarrow> ledger_wf n = ledger_wf l"
  by (simp add: ledger_wf_def)

lemma held_moves: "isHeld s \<Longrightarrow> (s, InProgress) \<in> HOLD_MOVES \<and> (s, Abandoned) \<in> HOLD_MOVES"
  by (auto simp: isHeld_def HOLD_MOVES_def)

lemma hold_step_spec: "hold_step l next \<Longrightarrow> ledger_spec HOLD_MOVES l next"
proof (induction rule: hold_step.induct)
  case (move runId i l item to_state mint time engine msg request lop)
  show ?case
    by (rule ledger_spec_same [OF same_ledger_spec [OF upgradePause_same move_step(1) [OF move]] bindHold_same])
next
  case (abandon runId i l item time engine msg)
  show ?case
    by (rule same_ledger_spec [OF upgradePause_same move_step(1) [OF abandon(1)]]) (use abandon(2) held_moves in blast)
next
  case (resume runId input l item mint time)
  have "ledger_spec HOLD_MOVES (upgradeLedgerForPauseAuthority l) (updateItem (eh_itemId input)
      (moveItem time InProgress (eh_engine input) (eh_note input) None) (upgradeLedgerForPauseAuthority l))"
    by (rule move_step(1) [OF resume(1)]) (use resume(2) held_moves in blast)
  from ledger_spec_same [OF same_ledger_spec [OF upgradePause_same this]] show ?case
    by (simp add: resumeLedger_def same_items_fields)
qed

lemma hold_step_wf: "hold_step l next \<Longrightarrow> ledger_wf l \<Longrightarrow> ledger_wf next"
proof (induction rule: hold_step.induct)
  case (move runId i l item to_state mint time engine msg request lop)
  have "ledger_wf (upgradeLedgerForPauseAuthority l)" using move(3) by (simp cong: ledger_wf_fields)
  from move_step(2) [OF move(1,2) this] show ?case by (simp cong: ledger_wf_fields)
next
  case (abandon runId i l item time engine msg)
  have "ledger_wf (upgradeLedgerForPauseAuthority l)" using abandon(3) by (simp cong: ledger_wf_fields)
  from move_step(2) [OF abandon(1) _ this] held_moves [OF abandon(2)] show ?case by blast
next
  case (resume runId input l item mint time)
  have "ledger_wf (upgradeLedgerForPauseAuthority l)" using resume(3) by (simp cong: ledger_wf_fields)
  then have "ledger_wf (updateItem (eh_itemId input)
      (moveItem time InProgress (eh_engine input) (eh_note input) None) (upgradeLedgerForPauseAuthority l))"
    using move_step(2) [OF resume(1)] held_moves [OF resume(2)] by blast
  then show ?case by (simp add: resumeLedger_def cong: ledger_wf_fields)
qed

lemma amend_step_keeps:
  assumes "amend_step l next"
  shows "ledger_spec moves l next" "ledger_wf l \<Longrightarrow> ledger_wf next" "ll_run_id next = ll_run_id l"
  using assms by (auto simp: amend_step_def ledger_wf_def intro!: ledger_spec_of_same same_items_fields)

lemma hold_step_amendments: "hold_step l next \<Longrightarrow> amendmentsOf next = amendmentsOf l"
  by (induction rule: hold_step.induct) (simp_all add: amendmentsOf_def resumeLedger_def upgradeLedgerForPauseAuthority_def
    updateItem_def split: option.splits)

lemma hold_step_file: "hold_step l next \<Longrightarrow> same_file l next"
  by (rule ledger_spec_file) (rule hold_step_spec)

section \<open>The operations as ledger operations\<close>

interpretation pause_item: ledger_operation deps "eh_runId input" hold_step
    "\<lambda>token. pauseItem deps mint (input\<lparr>eh_token := token\<rparr>)" for deps mint input
  by unfold_locales (use wpD [OF wp_pauseItem [of deps _ mint "input\<lparr>eh_token := _\<rparr>"]] hold_step_file in auto)

interpretation wait_item: ledger_operation deps "eh_runId input" hold_step
    "\<lambda>token. waitItem str deps mint (input\<lparr>eh_token := token\<rparr>) req" for str deps mint input req
  by unfold_locales (use wpD [OF wp_waitItem [of deps _ str mint "input\<lparr>eh_token := _\<rparr>" req]] hold_step_file in auto)

interpretation invalidate_hold: ledger_operation deps "eh_runId input" hold_step
    "\<lambda>token. invalidateIncompleteHoldForReclassify deps mint (input\<lparr>eh_token := token\<rparr>) actor requestId"
    for deps mint input actor requestId
  by unfold_locales
    (use wpD [OF wp_invalidate [of deps _ mint "input\<lparr>eh_token := _\<rparr>" actor requestId]] hold_step_file in auto)

interpretation abandon_hold: ledger_operation deps "eh_runId input" hold_step
    "\<lambda>token. abandonHold deps (input\<lparr>eh_token := token\<rparr>)" for deps input
  by unfold_locales (use wpD [OF wp_abandonHold [of deps _ "input\<lparr>eh_token := _\<rparr>"]] hold_step_file in auto)

interpretation resume_hold: ledger_operation deps "eh_runId input" hold_step
    "\<lambda>token. resumeHold str deps mint (input\<lparr>eh_token := token\<rparr>)" for str deps mint and input :: ResumeHoldInput
  by unfold_locales (use wpD [OF wp_resumeHold [of deps _ str mint "input\<lparr>eh_token := _\<rparr>"]] hold_step_file in auto)

interpretation record_amendment: ledger_operation deps "rm_runId input" amend_step
    "\<lambda>token. recordAuthorityAmendment str deps (input\<lparr>rm_token := token\<rparr>)" for str deps input
  by unfold_locales
    (use wpD [OF wp_recordAuthorityAmendment [of deps _ str "input\<lparr>rm_token := _\<rparr>"]] in \<open>auto simp: amend_step_def same_file_def\<close>)

end
