(* ===== verification/Pause_Laws.thy ===== *)
theory Pause_Laws
  imports Pause
begin

text \<open>
  What the audited operations of \<open>pause.ts\<close> guarantee to the operator. A resume takes effect only with the
  lock of the resuming engine, a held item, an answer to the outstanding request, a passed preflight and
  fresh native-goal evidence, and never without its decision in the log; a hand-over leaves the run free
  for the other engine.
\<close>

section \<open>Decisions on record\<close>

text \<open>Between two states the decision log of the run gained an entry of the kind.\<close>

definition decided :: "LoopStoreDeps \<Rightarrow> string \<Rightarrow> string \<Rightarrow> RunWorld \<Rightarrow> RunWorld \<Rightarrow> bool" where
  "decided deps runId kind w w' \<longleftrightarrow> (\<exists>dir new e. runDir deps runId = Inr dir
     \<and> orElse (map_of (w_logs (rw_store w')) (decisionsPath dir)) [] = orElse (map_of (w_logs (rw_store w)) (decisionsPath dir)) [] @ new
     \<and> Written e \<in> set new \<and> ev_kind e = kind)"

lemma decided_grows:
  assumes "decided deps runId kind w w'" "store_grows (rw_store w') (rw_store w'')"
  shows "decided deps runId kind w w''"
proof -
  from assms obtain dir new e more where "runDir deps runId = Inr dir" "Written e \<in> set new" "ev_kind e = kind"
    "orElse (map_of (w_logs (rw_store w')) (decisionsPath dir)) [] = orElse (map_of (w_logs (rw_store w)) (decisionsPath dir)) [] @ new"
    "orElse (map_of (w_logs (rw_store w'')) (decisionsPath dir)) [] = orElse (map_of (w_logs (rw_store w')) (decisionsPath dir)) [] @ more"
    unfolding decided_def store_grows_def by blast
  then show ?thesis unfolding decided_def by (intro exI [of _ dir] exI [of _ "new @ more"] exI [of _ e]) simp
qed

lemma decided_after:
  assumes "world_grows u w" "decided deps runId kind w w'"
  shows "decided deps runId kind u w'"
proof -
  from assms obtain dir new e before where "runDir deps runId = Inr dir" "Written e \<in> set new" "ev_kind e = kind"
    "orElse (map_of (w_logs (rw_store w')) (decisionsPath dir)) [] = orElse (map_of (w_logs (rw_store w)) (decisionsPath dir)) [] @ new"
    "orElse (map_of (w_logs (rw_store w)) (decisionsPath dir)) [] = orElse (map_of (w_logs (rw_store u)) (decisionsPath dir)) [] @ before"
    unfolding decided_def world_grows_def store_grows_def by blast
  then show ?thesis unfolding decided_def by (intro exI [of _ dir] exI [of _ "before @ new"] exI [of _ e]) simp
qed

lemma wp_decided:
  assumes "world_grows u w" "\<And>w'. world_grows u w' \<Longrightarrow> decided deps runId kind u w' \<Longrightarrow> Q () w'"
    and "\<And>e w'. world_grows u w' \<Longrightarrow> E e w'"
  shows "wp (runDecision deps runId token kind data) Q E w"
proof (rule wp_runDecision_logged)
  fix w' dir e
  assume *: "world_grows w w'" "runDir deps runId = Inr dir" "ev_kind e = kind"
    "orElse (map_of (w_logs (rw_store w')) (decisionsPath dir)) [] = orElse (map_of (w_logs (rw_store w)) (decisionsPath dir)) [] @ [Written e]"
  then have "decided deps runId kind w w'" unfolding decided_def by fastforce
  with assms(1,2) * show "Q () w'" using decided_after world_grows_trans by blast
qed (use assms(1,3) world_grows_trans in blast)

section \<open>Resuming a hold\<close>

text \<open>The answer a waiting item needs: it names the outstanding request, whose typed record is complete,
  and its value is permitted.\<close>

definition answers :: "jsval \<Rightarrow> LoopHumanInputRequest \<Rightarrow> bool" where
  "answers response request \<longleftrightarrow> jprop response ''request_id'' = JStr (hr_request_id request)
     \<and> persistedTypedRequestComplete request
     \<and> (case hr_permitted_responses request of None \<Rightarrow> True | Some permitted \<Rightarrow> strVal (jprop response ''value'') \<in> set permitted)"

definition attested :: "ResumeHoldInput \<Rightarrow> int \<Rightarrow> bool" where
  "attested q nowMs \<longleftrightarrow> (\<exists>p g checked. rh_pipeline_preflight q = Some p \<and> pf_passed p \<and> rh_native_goal q = Some g
     \<and> ng_engine g = eh_engine q \<and> ng_run_id g = eh_runId q \<and> ng_status g = ''active''
     \<and> date_parse (ng_checked_at g) = Some checked \<and> \<bar>nowMs - checked\<bar> \<le> 300 * 1000)"

definition moved :: "string \<Rightarrow> LoopItemState \<Rightarrow> LoopEngineName \<Rightarrow> LoopLedger \<Rightarrow> LoopLedger \<Rightarrow> bool" where
  "moved i to_state engine old l \<longleftrightarrow> (\<exists>item item' h. rec_get (ll_items old) i = Some item
     \<and> ll_items l = rec_put i item' (ll_items old) \<and> le_state item' = to_state \<and> le_hold_request item' = None
     \<and> le_history item' = le_history item @ [h] \<and> he_from h = le_state item \<and> he_to h = to_state \<and> he_engine h = engine)"

lemma validatePreflight_Inr: "validatePipelinePreflightEvidence p = Inr x \<longleftrightarrow> (\<exists>e. p = Some e \<and> pf_passed e)"
  by (auto simp: validatePipelinePreflightEvidence_def split: option.splits if_splits)

lemma validateNativeGoal_Inr:
  "validateNativeGoalEvidence g engine runId nowMs = Inr x \<longleftrightarrow> (\<exists>e checked. g = Some e \<and> ng_engine e = engine
     \<and> ng_run_id e = runId \<and> ng_status e = ''active'' \<and> date_parse (ng_checked_at e) = Some checked \<and> \<bar>nowMs - checked\<bar> \<le> 300 * 1000)"
  by (auto simp: validateNativeGoalEvidence_def mandateError_def NATIVE_GOAL_FRESHNESS_WINDOW_SECONDS_def
    split: option.splits if_splits)

lemma checkResponse_accepts:
  "checkResponse str i response item = Inr None
    \<longleftrightarrow> (le_state item = Waiting \<longrightarrow> (\<exists>r. le_hold_request item = Some r \<and> answers response r))"
  by (auto simp: checkResponse_def answers_def split: option.splits if_splits)

lemma checkResponse_incomplete:
  "checkResponse str i response item = Inr (Some rid)
    \<longleftrightarrow> le_state item = Waiting \<and> (\<exists>r. le_hold_request item = Some r \<and> jprop response ''request_id'' = JStr rid
      \<and> hr_request_id r = rid \<and> \<not> persistedTypedRequestComplete r)"
  by (auto simp: checkResponse_def split: option.splits if_splits)

lemma moved_item:
  assumes "rec_get (ll_items old) i = Some item" "ll_items l = rec_put i (moveItem t to_state engine msg None item) (ll_items old)"
  shows "moved i to_state engine old l"
  unfolding moved_def using assms
  by (intro exI [of _ item] exI [of _ "moveItem t to_state engine msg None item"] exI [of _ "last (le_history (moveItem t to_state engine msg None item))"])
    (simp add: moveItem_def)

definition reclassifiable :: "jsval \<Rightarrow> LoopItemLedgerEntry \<Rightarrow> bool" where
  "reclassifiable response item \<longleftrightarrow> le_state item = Waiting \<and> (\<exists>r. le_hold_request item = Some r
     \<and> jprop response ''request_id'' = JStr (hr_request_id r) \<and> \<not> persistedTypedRequestComplete r)"

lemma wp_invalidate_exact:
  assumes "runs_named d w"
  shows "wp (invalidateIncompleteHoldForReclassify d mint q actor requestId)
    (\<lambda>l w'. \<exists>old pol. viewOf d (eh_runId q) w = Some old \<and> moved (eh_itemId q) Pending (eh_engine q) old l
       \<and> viewOf d (eh_runId q) w' = Some (normalizeLedger (de_sha256 d) pol l)
       \<and> decided d (eh_runId q) ''loop_hold_invalidated_for_reclassify'' w w')
    (\<lambda>_ w'. rw_ledgers w' = rw_ledgers w) w" (is "wp _ ?Q ?E w")
proof -
  have publish: "wp (io_then (writeRunLedger d n (eh_token q)) (io_then (runEvent d (eh_runId q) (eh_token q) kind data)
      (io_return n))) ?Q ?E w1"
    if "runDir d (eh_runId q) = Inr dir" "map_of (rw_ledgers w) dir = Some l0" "rec_get (ll_items l0) (eh_itemId q) = Some item"
      "world_grows w w1" "decided d (eh_runId q) ''loop_hold_invalidated_for_reclassify'' w w1"
      "n = bindHoldLifecycle mint (updateItem (eh_itemId q) (moveItem t Pending (eh_engine q) msg None)
         (upgradeLedgerForPauseAuthority (normalizeLedger (de_sha256 d) (runPolicy w dir) l0))) t lop"
    for dir l0 item w1 n kind data t msg lop
  proof (rule wp_publish [OF assms that(1,2,4)])
    fix w' assume "viewOf d (eh_runId q) w' = Some (normalizeLedger (de_sha256 d) (runPolicy w dir) n)" "store_grows (rw_store w1) (rw_store w')"
    moreover have "moved (eh_itemId q) Pending (eh_engine q) (normalizeLedger (de_sha256 d) (runPolicy w dir) l0) n"
      by (rule moved_item) (use that(3,6) in \<open>auto simp: updateItem_def\<close>)
    ultimately show "?Q n w'" using viewOf_Some [OF that(1,2)] decided_grows [OF that(5)] by blast
  qed (use that world_grows_ledgers in auto)
  show ?thesis
    unfolding invalidateIncompleteHoldForReclassify_def Let_def
    by ((rule publish, (assumption | rule refl | (auto simp: bind_eq_Some_conv split: if_splits)[1])+) | rule wp_decided, assumption
        | rule wp_bind wp_then wp_requireToken wp_pauseLedger wp_runNow wp_option wp_prod wp_throw refl | (erule world_grows_ledgers)[1])+
qed

lemma wp_now_exact:
  "(\<And>w'. world_grows w w' \<Longrightarrow> Q (de_now deps (w_calls (rw_store w))) w') \<Longrightarrow> wp (on_store (io_now deps)) Q E w"
  by (simp add: wp_def on_store_def io_simps world_grows_def store_grows_def)

lemma requireEngine_Inr: "requireEngine what engine lock = Inr x \<longleftrightarrow> lk_engine lock = engine"
  by (simp add: requireEngine_def)

lemma requireNotStopped_Inr: "requireNotStopped runId l i = Inr x \<longleftrightarrow> \<not> compatibilityStopRefusesItem (ll_stop l) i"
  by (simp add: requireNotStopped_def)

lemma validateResumeResponse_Inr:
  "validateResumeResponse r = Inr x \<longleftrightarrow> isPlainObject r \<and> \<not> lacksText (jprop r ''value'')"
  by (simp add: validateResumeResponse_def)

lemmas guard_facts = requireEngine_Inr requireNotStopped_Inr validateResumeResponse_Inr requireItem_Inr
  validatePreflight_Inr validateNativeGoal_Inr checkResponse_accepts checkResponse_incomplete

lemma upgradePause_stop [simp]: "ll_stop (upgradeLedgerForPauseAuthority l) = ll_stop l"
  by (simp add: upgradeLedgerForPauseAuthority_def)

lemma truncate_fields [simp]:
  "eh_runId (EnterHoldInput.truncate q) = eh_runId q" "eh_itemId (EnterHoldInput.truncate q) = eh_itemId q"
  "eh_engine (EnterHoldInput.truncate q) = eh_engine q"
  by (simp_all add: EnterHoldInput.truncate_def)

text \<open>A resume may act: the caller holds the lock for its engine, the run's stop does not refuse the item,
  the item is held and the response has a value.\<close>

definition resumable :: "LoopStoreDeps \<Rightarrow> ResumeHoldInput \<Rightarrow> RunWorld \<Rightarrow> LoopLedger \<Rightarrow> LoopItemLedgerEntry \<Rightarrow> bool" where
  "resumable d q w old item \<longleftrightarrow>
     (\<exists>lock. requireToken d (eh_runId q) (eh_token q) (rw_store w) = (Inr lock, rw_store w) \<and> lk_engine lock = eh_engine q)
     \<and> viewOf d (eh_runId q) w = Some old \<and> \<not> compatibilityStopRefusesItem (ll_stop old) (eh_itemId q)
     \<and> rec_get (ll_items old) (eh_itemId q) = Some item \<and> isHeld (le_state item)
     \<and> isPlainObject (rh_response q) \<and> \<not> lacksText (jprop (rh_response q) ''value'')"

definition resumed :: "LoopStoreDeps \<Rightarrow> ResumeHoldInput \<Rightarrow> RunWorld \<Rightarrow> LoopLedger \<Rightarrow> LoopItemLedgerEntry \<Rightarrow> LoopLedger \<Rightarrow> RunWorld \<Rightarrow> bool" where
  "resumed d q w old item l w' \<longleftrightarrow> moved (eh_itemId q) InProgress (eh_engine q) old l
     \<and> attested q (de_now d (w_calls (rw_store w)))
     \<and> (le_state item = Waiting \<longrightarrow> (\<exists>r. le_hold_request item = Some r \<and> answers (rh_response q) r))
     \<and> decided d (eh_runId q) ''loop_hold_resumed'' w w'"

definition reclassified :: "LoopStoreDeps \<Rightarrow> ResumeHoldInput \<Rightarrow> RunWorld \<Rightarrow> LoopLedger \<Rightarrow> LoopItemLedgerEntry \<Rightarrow> LoopLedger \<Rightarrow> RunWorld \<Rightarrow> bool" where
  "reclassified d q w old item l w' \<longleftrightarrow> moved (eh_itemId q) Pending (eh_engine q) old l \<and> reclassifiable (rh_response q) item
     \<and> decided d (eh_runId q) ''loop_hold_invalidated_for_reclassify'' w w'"

abbreviation resume_post :: "LoopStoreDeps \<Rightarrow> ResumeHoldInput \<Rightarrow> RunWorld \<Rightarrow> LoopLedger \<Rightarrow> RunWorld \<Rightarrow> bool" where
  "resume_post d q w l w' \<equiv> \<exists>old item pol. resumable d q w old item
     \<and> viewOf d (eh_runId q) w' = Some (normalizeLedger (de_sha256 d) pol l)
     \<and> (resumed d q w old item l w' \<or> reclassified d q w old item l w')"

abbreviation resume_view :: "LoopStoreDeps \<Rightarrow> RunWorld \<Rightarrow> string \<Rightarrow> LoopLedger \<Rightarrow> LoopLedger" where
  "resume_view d w dir l0 \<equiv> upgradeLedgerForPauseAuthority (normalizeLedger (de_sha256 d) (runPolicy w dir) l0)"

lemma resumable_guards:
  assumes "requireToken d (eh_runId q) (eh_token q) (rw_store w) = (Inr lock, rw_store w)" "requireEngine what (eh_engine q) lock = Inr a"
    and "runDir d (eh_runId q) = Inr dir" "map_of (rw_ledgers w) dir = Some l0"
    and "requireNotStopped (eh_runId q) (resume_view d w dir l0) (eh_itemId q) = Inr b"
    and "requireItem (eh_runId q) (eh_itemId q) (resume_view d w dir l0) = Inr item"
    and "\<not> \<not> isHeld (le_state item)" "validateResumeResponse (rh_response q) = Inr c"
  shows "resumable d q w (normalizeLedger (de_sha256 d) (runPolicy w dir) l0) item"
  unfolding resumable_def using assms viewOf_Some [OF assms(3,4)] by (simp add: guard_facts)

lemma wp_resume_publish:
  assumes "runs_named d w" "resumable d q w (normalizeLedger (de_sha256 d) (runPolicy w dir) l0) item"
    and "runDir d (eh_runId q) = Inr dir" "map_of (rw_ledgers w) dir = Some l0" "world_grows w w1"
    and "decided d (eh_runId q) ''loop_hold_resumed'' w w1" "checkResponse str (eh_itemId q) (rh_response q) item = Inr x" "x = None"
    and "validatePipelinePreflightEvidence (rh_pipeline_preflight q) = Inr y"
    and "validateNativeGoalEvidence (rh_native_goal q) (eh_engine q) (eh_runId q) (de_now d (w_calls (rw_store w))) = Inr z"
  shows "wp (io_then (writeRunLedger d (resumeLedger mint q t (resume_view d w dir l0)) (eh_token q))
      (io_then (runEvent d (eh_runId q) (eh_token q) kind data) (io_return (resumeLedger mint q t (resume_view d w dir l0)))))
      (resume_post d q w) (\<lambda>_ w'. rw_ledgers w' = rw_ledgers w) w1"
proof (rule wp_publish [OF assms(1,3,4,5)])
  let ?l = "resumeLedger mint q t (resume_view d w dir l0)"
  fix w' assume view: "viewOf d (eh_runId q) w' = Some (normalizeLedger (de_sha256 d) (runPolicy w dir) ?l)"
    and "store_grows (rw_store w1) (rw_store w')"
  have "moved (eh_itemId q) InProgress (eh_engine q) (normalizeLedger (de_sha256 d) (runPolicy w dir) l0) ?l"
    by (rule moved_item) (use assms(2) in \<open>auto simp: updateItem_def resumeLedger_def resumable_def\<close>)
  moreover have "attested q (de_now d (w_calls (rw_store w)))" using assms(9,10) by (auto simp: attested_def guard_facts)
  moreover have "decided d (eh_runId q) ''loop_hold_resumed'' w w'" by (rule decided_grows) fact+
  ultimately have "resumed d q w (normalizeLedger (de_sha256 d) (runPolicy w dir) l0) item ?l w'"
    unfolding resumed_def using assms(7,8) checkResponse_accepts by blast
  with assms(2) view show "resume_post d q w ?l w'" by blast
qed (use assms world_grows_ledgers in \<open>auto simp: resumeLedger_def\<close>)

lemma wp_resume_reclassify:
  assumes "runs_named d w" "resumable d q w old item"
    and "checkResponse str (eh_itemId q) (rh_response q) item = Inr x" "x = Some y"
  shows "wp (invalidateIncompleteHoldForReclassify d mint (EnterHoldInput.truncate q) actor rid)
    (resume_post d q w) (\<lambda>_ w'. rw_ledgers w' = rw_ledgers w) w"
proof (rule wp_mono [OF wp_invalidate_exact [OF assms(1)]])
  fix l w' assume "\<exists>old pol. viewOf d (eh_runId (EnterHoldInput.truncate q)) w = Some old
      \<and> moved (eh_itemId (EnterHoldInput.truncate q)) Pending (eh_engine (EnterHoldInput.truncate q)) old l
      \<and> viewOf d (eh_runId (EnterHoldInput.truncate q)) w' = Some (normalizeLedger (de_sha256 d) pol l)
      \<and> decided d (eh_runId (EnterHoldInput.truncate q)) ''loop_hold_invalidated_for_reclassify'' w w'"
  then obtain pol where "reclassified d q w old item l w'" "viewOf d (eh_runId q) w' = Some (normalizeLedger (de_sha256 d) pol l)"
    using assms(2-4) by (auto simp: reclassified_def resumable_def reclassifiable_def checkResponse_incomplete)
  with assms(2) show "resume_post d q w l w'" by blast
qed

text \<open>C11: resuming a hold fails closed. A call of \<open>resumeHold\<close> that throws changes no ledger. One that
  returns holds the run's lock for the engine it names, acts on a paused or waiting item of a run whose
  stop does not refuse the item, and got a response with a non-blank value; then either the item is back
  in progress with its request cleared and the move in its history, and this happened with a passed
  preflight, active native-goal evidence for this engine and run not older than five minutes, a permitted
  answer to the outstanding request of a waiting item, and an audited decision added to the log; or the
  waiting item's request lacked its typed record, and the item went to pending for reclassification,
  again with its decision in the log. The ledger returned is the one a reader of the run then sees.\<close>

theorem resume_fail_closed:
  assumes "runs_named d w"
  shows "case resumeHold str d mint q w of
      (Inl e, w') \<Rightarrow> rw_ledgers w' = rw_ledgers w
    | (Inr l, w') \<Rightarrow> (\<exists>old item pol. resumable d q w old item
        \<and> viewOf d (eh_runId q) w' = Some (normalizeLedger (de_sha256 d) pol l)
        \<and> (resumed d q w old item l w' \<or> reclassified d q w old item l w'))"
proof -
  have "wp (resumeHold str d mint q) (resume_post d q w) (\<lambda>_ w'. rw_ledgers w' = rw_ledgers w) w"
    unfolding resumeHold_def Let_def
    by ((rule wp_resume_publish [OF assms resumable_guards], assumption+)
        | (rule wp_resume_reclassify [OF assms resumable_guards], assumption+)
        | (rule wp_decided [of w], (blast intro: world_grows_trans)[1])
        | rule wp_if wp_bind wp_lift wp_then wp_requireToken wp_pauseLedger wp_now_exact wp_runNow wp_option wp_throw refl
        | (blast dest: world_grows_ledgers)[1])+
  then show ?thesis unfolding wp_def by (auto split: prod.splits sum.splits)
qed

text \<open>A paused item, and a resume with everything it needs.\<close>

definition pausedRun :: RunWorld where
  "pausedRun = \<lparr>rw_store = snd (acquireLock (exampleDeps 1) ''r'' Claude emptyWorld),
     rw_contracts = [(''/s/runs/r'', mkContract [mkItem ''1'' [] []])],
     rw_ledgers = [(''/s/runs/r'', (mkLedger [mkEntry ''1'' Paused])\<lparr>ll_run_id := ''r''\<rparr>)]\<rparr>"

definition resumeInput :: ResumeHoldInput where
  "resumeInput = \<lparr>eh_runId = ''r'', eh_token = ''0'', eh_itemId = ''1'', eh_engine = Claude, eh_note = None,
     eh_logicalOperationId = Some ''lop-1'', rh_actor = ''op'', rh_response = JObj [(''value'', JStr ''go'')],
     rh_pipeline_preflight = Some \<lparr>pf_passed = True, pf_checked_at = Iso 0\<rparr>,
     rh_native_goal = Some \<lparr>ng_engine = Claude, ng_run_id = ''r'', ng_status = ''active'', ng_checked_at = Iso 0\<rparr>\<rparr>"

theorem resume_fail_closed_witness:
  "\<exists>l w' old item. resumeHold (\<lambda>_. []) (exampleDeps 1) ''m'' resumeInput pausedRun = (Inr l, w')
     \<and> resumed (exampleDeps 1) resumeInput pausedRun old item l w'"
proof -
  have "\<not> isl (fst (resumeHold (\<lambda>_. []) (exampleDeps 1) ''m'' resumeInput pausedRun))" by code_simp
  then obtain l w' where r: "resumeHold (\<lambda>_. []) (exampleDeps 1) ''m'' resumeInput pausedRun = (Inr l, w')"
    by (metis isl_def prod.collapse sum.exhaust)
  have "runs_named (exampleDeps 1) pausedRun"
    using example_runDir [of 1] by (simp add: runs_named_def rec_wf_def rec_keys_def mkLedger_def mkEntry_def pausedRun_def)
  from resume_fail_closed [OF this, where str = "\<lambda>_. []" and mint = "''m''" and q = resumeInput] r obtain old item
    where o: "resumable (exampleDeps 1) resumeInput pausedRun old item"
      "resumed (exampleDeps 1) resumeInput pausedRun old item l w' \<or> reclassified (exampleDeps 1) resumeInput pausedRun old item l w'"
    by auto
  then have "le_state item = Paused"
    using example_runDir [of 1]
    by (auto simp: resumable_def viewOf_def pausedRun_def resumeInput_def mkLedger_def mkEntry_def rec_get_def)
  with o r show ?thesis by (auto simp: reclassified_def reclassifiable_def)
qed

section \<open>Handing a run over\<close>

lemma releaseLock_Inr:
  assumes "releaseLock d runId token s = (Inr x, s')"
  shows "\<exists>dir. runDir d runId = Inr dir \<and> map_of (w_locks s') (lockPath dir) = None \<and> w_logs s' = w_logs s"
  using assms
  by (auto simp: releaseLock_def io_bind_def io_simps removeFileIfMatches_def delete_conv'
    dest: requireToken_Inr split: prod.splits sum.splits if_splits)

lemma releaseLock_Inl: "releaseLock d runId token s = (Inl e, s') \<Longrightarrow> s' = s"
  using requireToken_world [of d runId token s]
  by (auto simp: releaseLock_def io_bind_def io_simps removeFileIfMatches_def split: prod.splits sum.splits if_splits)

lemma acquire_free:
  assumes "runDir d runId = Inr dir" "map_of (w_locks s) (lockPath dir) = None"
  shows "\<exists>token r. fst (acquireLock d runId engine s) = Inr (token, r) \<and> lk_engine r = engine"
  using assms by (simp add: acquireLock_eq Let_def)

text \<open>A hand-over frees the run and leaves it as it is. A call of \<open>handoffRun\<close> never changes a ledger
  or a contract; one that throws leaves every lock in place. One that returns was made by the holder of
  the lock for the engine it names while no item was in progress, recorded its decision, and removed the
  lock: from then on every token is refused, the old holder's included, and either engine can acquire
  the run.\<close>

lemma handoff_frees_run:
  "case handoffRun d h w of
     (Inl e, w') \<Rightarrow> rw_ledgers w' = rw_ledgers w \<and> rw_contracts w' = rw_contracts w \<and> w_locks (rw_store w') = w_locks (rw_store w)
   | (Inr _, w') \<Rightarrow> rw_ledgers w' = rw_ledgers w \<and> rw_contracts w' = rw_contracts w
       \<and> (\<exists>lock old. requireToken d (hi_runId h) (hi_token h) (rw_store w) = (Inr lock, rw_store w) \<and> lk_engine lock = hi_fromEngine h
            \<and> viewOf d (hi_runId h) w = Some old \<and> InProgress \<notin> le_state ` set (rec_values (ll_items old)))
       \<and> decided d (hi_runId h) ''loop_handoff'' w w'
       \<and> (\<forall>token. isl (fst (requireToken d (hi_runId h) token (rw_store w'))))
       \<and> (\<forall>engine. \<exists>token r. fst (acquireLock d (hi_runId h) engine (rw_store w')) = Inr (token, r) \<and> lk_engine r = engine)"
proof -
  let ?E = "\<lambda>(e :: LoopError) w'. rw_ledgers w' = rw_ledgers w \<and> rw_contracts w' = rw_contracts w
      \<and> w_locks (rw_store w') = w_locks (rw_store w)"
  let ?Q = "\<lambda>(_ :: unit) w'. rw_ledgers w' = rw_ledgers w \<and> rw_contracts w' = rw_contracts w
       \<and> (\<exists>lock old. requireToken d (hi_runId h) (hi_token h) (rw_store w) = (Inr lock, rw_store w) \<and> lk_engine lock = hi_fromEngine h
            \<and> viewOf d (hi_runId h) w = Some old \<and> InProgress \<notin> le_state ` set (rec_values (ll_items old)))
       \<and> decided d (hi_runId h) ''loop_handoff'' w w'
       \<and> (\<forall>token. isl (fst (requireToken d (hi_runId h) token (rw_store w'))))
       \<and> (\<forall>engine. \<exists>token r. fst (acquireLock d (hi_runId h) engine (rw_store w')) = Inr (token, r) \<and> lk_engine r = engine)"
  have release: "wp (on_store (releaseLock d (hi_runId h) (hi_token h))) ?Q ?E w1"
    if "runDir d (hi_runId h) = Inr dir" "map_of (rw_ledgers w) dir = Some l0" "world_grows w w1"
      "requireToken d (hi_runId h) (hi_token h) (rw_store w) = (Inr lock, rw_store w)" "\<not> lk_engine lock \<noteq> hi_fromEngine h"
      "decided d (hi_runId h) ''loop_handoff'' w w1"
      "\<not> list_ex (\<lambda>item. le_state item = InProgress) (rec_values (ll_items
         (upgradeLedgerForPauseAuthority (normalizeLedger (de_sha256 d) (runPolicy w dir) l0))))"
    for dir l0 w1 lock
  proof (rule wp_on_store)
    fix x s assume r: "releaseLock d (hi_runId h) (hi_token h) (rw_store w1) = (Inr x, s)"
    have free: "map_of (w_locks s) (lockPath dir) = None" "w_logs s = w_logs (rw_store w1)"
      using releaseLock_Inr [OF r] that(1) by auto
    have "decided d (hi_runId h) ''loop_handoff'' w (w1\<lparr>rw_store := s\<rparr>)"
      using that(6) free(2) by (simp add: decided_def)
    moreover have "InProgress \<notin> le_state ` set (rec_values (ll_items l0))"
      using that(7) by (auto simp: list_ex_iff)
    ultimately show "?Q x (w1\<lparr>rw_store := s\<rparr>)"
      using that(1-5) viewOf_Some [OF that(1,2)] requireToken_absent [OF that(1) free(1)] acquire_free [OF that(1) free(1)]
      by (auto simp: world_grows_def)
  next
    fix e s assume "releaseLock d (hi_runId h) (hi_token h) (rw_store w1) = (Inl e, s)"
    from releaseLock_Inl [OF this] show "?E e (w1\<lparr>rw_store := s\<rparr>)" using that(3) by (auto simp: world_grows_def store_grows_def)
  qed
  have "wp (handoffRun d h) ?Q ?E w"
    unfolding handoffRun_def
    by ((rule release, assumption, assumption, assumption, assumption, assumption, assumption, assumption)
        | (rule wp_decided [of w], assumption)
        | rule wp_if wp_bind wp_then wp_requireToken wp_pauseLedger wp_runNow wp_throw
        | (simp add: world_grows_def store_grows_def; fail))+
  then show ?thesis unfolding wp_def by (auto split: prod.splits sum.splits)
qed

end
