(* ===== verification/Reconcile.thy ===== *)
theory Reconcile
  imports Observation Pause
begin

text \<open>
  Verified live reconciliation, \<open>core/scripts/loop/reconcile.ts\<close>: what the observed identity of an item
  supports, how the disagreement with the ledger is classified, which drift is repaired, and the one
  entry point that moves an item into a state only the outside world can prove. Every ledger write is the
  write of \<open>Loop_Run\<close>; every observation goes through the seam of \<open>Observation\<close>.
\<close>

section \<open>What an identity supports\<close>

definition REMOTE_PROVING_STATES :: "LoopItemState list" where
  "REMOTE_PROVING_STATES = [PrOpened, Ready, Merged, Released, Deployed]"

definition OBSERVER_SUCCESS_STATES :: "LoopItemState list" where
  "OBSERVER_SUCCESS_STATES = [Ready, Merged, Released, Deployed]"

definition checksRegressed :: "LoopExternalIdentity option \<Rightarrow> LoopExternalIdentity \<Rightarrow> bool" where
  "checksRegressed bound identity =
     (case bound of None \<Rightarrow> False
      | Some b \<Rightarrow> ei_checks_conclusion b = ChecksSuccess
          \<and> (ei_checks_conclusion identity = ChecksFailure \<or> ei_checks_conclusion identity = ChecksPending))"

definition localRemoteIdentityDrift :: "LoopExternalIdentity \<Rightarrow> LoopExternalIdentity option \<Rightarrow> bool" where
  "localRemoteIdentityDrift identity bound =
     (if ei_rebase_in_progress identity = Some True then True
      else (let local = trimLower (ei_local_head_sha identity); claimed = trimLower (map_option ei_head_sha bound)
            in if local \<noteq> [] \<and> claimed \<noteq> [] \<and> local \<noteq> claimed \<and> ei_pr_state identity \<noteq> Some PrMerged then True
               else if ei_product_dirt identity = Some True \<and> ei_rebase_in_progress identity = Some True then True
               else False))"

definition exactImplementation :: "LoopExternalIdentity \<Rightarrow> bool" where
  "exactImplementation identity =
     (let expectedOperation = trimmed (ei_expected_logical_operation_id identity);
          artifactOperation = trimmed (ei_logical_operation_id identity)
      in ei_artifact_role identity = Some ImplementationRole
         \<and> trimmed (ei_artifact_identity identity) \<noteq> []
         \<and> js_trim (ei_head_sha identity) \<noteq> []
         \<and> map_option (\<lambda>e. js_lower (js_trim e)) (ei_candidate_epoch identity) = Some (js_lower (js_trim (ei_head_sha identity)))
         \<and> (expectedOperation = [] \<or> artifactOperation = expectedOperation))"

definition verifiedForwardTarget :: "LoopExternalIdentity \<Rightarrow> LoopItemState option" where
  "verifiedForwardTarget identity =
     (if ei_pr_state identity = Some PrMerged \<and> ei_integration_certainty identity = Some KnownComplete
         \<and> exactImplementation identity then Some Merged
      else if ei_pr_number identity \<noteq> None \<and> ei_pr_state identity = Some PrOpen
      then (if \<not> exactImplementation identity then None
            else if ei_ready_label_present identity then Some Ready
            else if isAdvanceStillNeeded identity then None
            else Some PrOpened)
      else None)"

definition reconstructedLocalState :: "LoopExternalIdentity \<Rightarrow> LoopItemState \<Rightarrow> LoopItemState" where
  "reconstructedLocalState identity current =
     (if current = Waiting \<or> current = Paused \<or> current = Blocked then current
      else (case verifiedForwardTarget identity of
        Some target \<Rightarrow> target
      | None \<Rightarrow>
          if ei_pr_number identity \<noteq> None \<and> ei_pr_state identity = Some PrOpen \<and> isAdvanceStillNeeded identity then InProgress
          else if current \<in> set REMOTE_PROVING_STATES then Implemented
          else current))"

section \<open>Drift\<close>

definition integratedState :: "LoopItemState \<Rightarrow> bool" where
  "integratedState s \<longleftrightarrow> s = Merged \<or> s = Released \<or> s = Deployed"

definition classifyDrift ::
  "LoopItemState \<Rightarrow> LoopExternalIdentity \<Rightarrow> LoopExternalIdentity option \<Rightarrow> LoopDriftClass option" where
  "classifyDrift state identity bound =
     (if state \<notin> set REMOTE_PROVING_STATES
      then (let target = verifiedForwardTarget identity
            in if target \<noteq> None \<and> \<not> (state = Blocked \<and> target = Some PrOpened) then Some LedgerBehind
               else if localRemoteIdentityDrift identity bound then Some IdentityMismatch
               else if checksRegressed bound identity then Some ChecksRegressed else None)
      else if \<not> integratedState state \<and> verifiedForwardTarget identity = Some Merged then Some LedgerBehind
      else if state = PrOpened \<and> ei_pr_state identity = Some PrOpen \<and> ei_ready_label_present identity then Some LedgerBehind
      else if ei_pr_number identity = None then Some ExternalAbsent
      else if (case bound of None \<Rightarrow> False | Some b \<Rightarrow> ei_pr_number b \<noteq> None \<and> ei_pr_number b \<noteq> ei_pr_number identity)
      then Some IdentityMismatch
      else if localRemoteIdentityDrift identity bound then Some IdentityMismatch
      else if (case bound of None \<Rightarrow> False
               | Some b \<Rightarrow> ei_head_sha b \<noteq> [] \<and> ei_head_sha identity \<noteq> [] \<and> ei_head_sha b \<noteq> ei_head_sha identity)
           \<and> \<not> integratedState state
      then Some IdentityMismatch
      else if state = PrOpened
      then (if ei_pr_state identity \<noteq> Some PrOpen then Some LedgerAhead
            else if checksRegressed bound identity then Some ChecksRegressed else None)
      else if state = Ready
      then (if ei_pr_state identity \<noteq> Some PrOpen \<or> \<not> ei_ready_label_present identity then Some LedgerAhead
            else if checksRegressed bound identity then Some ChecksRegressed else None)
      else if verifiedForwardTarget identity \<noteq> Some Merged then Some LedgerAhead else None)"

fun prStateName :: "PrState \<Rightarrow> string" where
  "prStateName PrOpen = ''open''"
| "prStateName PrClosed = ''closed''"
| "prStateName PrMerged = ''merged''"

fun checksName :: "ChecksConclusion \<Rightarrow> string" where
  "checksName ChecksSuccess = ''success''"
| "checksName ChecksFailure = ''failure''"
| "checksName ChecksPending = ''pending''"
| "checksName ChecksNone = ''none''"

definition describeObservedState :: "LoopExternalIdentity \<Rightarrow> string" where
  "describeObservedState identity =
     ''pr:'' @ (case ei_pr_number identity of None \<Rightarrow> ''none'' | Some n \<Rightarrow> show_int n)
     @ ''/'' @ (case ei_pr_state identity of None \<Rightarrow> ''none'' | Some s \<Rightarrow> prStateName s)
     @ '' checks:'' @ checksName (ei_checks_conclusion identity)"

section \<open>Next actions\<close>

definition isReviewPipelineStage :: "string option \<Rightarrow> bool" where
  "isReviewPipelineStage stage \<longleftrightarrow> stage = Some ''review-1'' \<or> stage = Some ''review-2''"

definition computeNextAction ::
  "LoopItemState \<Rightarrow> LoopExternalIdentity \<Rightarrow> LoopDriftClass option \<Rightarrow> bool \<Rightarrow> bool \<Rightarrow> LoopNextAction" where
  "computeNextAction state identity drift mergeBarrierSetForThisItem currentHumanAuthority =
     (if drift = Some LedgerBehind then RepairForward
      else if currentHumanAuthority then HoldForHuman
      else if drift = Some LedgerAhead \<or> drift = Some ExternalAbsent \<or> drift = Some IdentityMismatch then Reconstruct
      else (let reviewStage = isReviewPipelineStage (ei_pipeline_stage identity)
            in if drift = Some ChecksRegressed
               then (if reviewStage then Advance
                     else if ei_checks_conclusion identity = ChecksPending then AwaitChecks else Noop)
               else if ei_blocked_label_present identity then Noop
               else (case state of
                   PrOpened \<Rightarrow> if reviewStage then Advance
                     else if ei_checks_conclusion identity = ChecksPending then AwaitChecks
                     else if ei_checks_conclusion identity = ChecksSuccess then Advance else Noop
                 | InProgress \<Rightarrow> if reviewStage then Advance else Noop
                 | Pending \<Rightarrow> if reviewStage then Advance else Noop
                 | Merged \<Rightarrow> if mergeBarrierSetForThisItem then ClearMergeBarrier else Noop
                 | _ \<Rightarrow> Noop)))"

section \<open>Binding the lifecycle\<close>

definition resolveTransitionLogicalOperationId ::
  "string \<Rightarrow> LoopLedger \<Rightarrow> string option \<Rightarrow> string option \<Rightarrow> string" where
  "resolveTransitionLogicalOperationId mint ledger contractLogicalOperationId inputLogicalOperationId =
     resolveLogicalOperationId (map_option dl_logical_operation_id (ll_lifecycle ledger))
       (case inputLogicalOperationId of Some i \<Rightarrow> Some i | None \<Rightarrow> contractLogicalOperationId) None None mint"

definition bindLifecycleForItemTransition :: "LoopLedger \<Rightarrow> string \<Rightarrow> timestamp \<Rightarrow> bool \<Rightarrow> LoopLedger" where
  "bindLifecycleForItemTransition ledger logicalOperationId updatedAt observerProvedPostcondition =
     bindLifecycleRecord ledger logicalOperationId
       (lifecycleOwnershipAfterItemTransition (ll_items ledger) (ll_cooling ledger \<noteq> None)
          (map_option (\<lambda>s. stopReasonName (st_reason s)) (ll_stop ledger)) observerProvedPostcondition True
          (date_parse updatedAt) (Some (of_int NATIVE_GOAL_FRESHNESS_WINDOW_SECONDS)))
       updatedAt"

section \<open>The reconciliation pass\<close>

record ReconcileInput =
  ri_runId :: string
  ri_token :: string
  ri_engine :: LoopEngineName

text \<open>An item whose state moves with its history and the identity that was observed.\<close>

definition observedEntry ::
  "timestamp \<Rightarrow> LoopItemState \<Rightarrow> LoopEngineName \<Rightarrow> string option \<Rightarrow> LoopExternalIdentity option \<Rightarrow> LoopItemLedgerEntry
    \<Rightarrow> LoopItemLedgerEntry" where
  "observedEntry time to_state engine msg identity entry =
     entry\<lparr>le_state := to_state,
       le_last_verified_identity := (case identity of Some i \<Rightarrow> Some i | None \<Rightarrow> le_last_verified_identity entry),
       le_history := le_history entry @
         [\<lparr>he_time = time, he_from = le_state entry, he_to = to_state, he_engine = engine, he_theme = None,
           he_evidence = None, he_note = msg\<rparr>],
       le_blocked_theme := (if to_state = Ready then None else le_blocked_theme entry)\<rparr>"

text \<open>Reconstruction and healing keep the theme whatever state they reach.\<close>

definition reconstructedEntry ::
  "timestamp \<Rightarrow> LoopItemState \<Rightarrow> LoopEngineName \<Rightarrow> string option \<Rightarrow> LoopExternalIdentity \<Rightarrow> LoopItemLedgerEntry
    \<Rightarrow> LoopItemLedgerEntry" where
  "reconstructedEntry time to_state engine msg identity entry =
     (observedEntry time to_state engine msg (Some identity) entry)\<lparr>le_blocked_theme := le_blocked_theme entry\<rparr>"

record ReconcileScan =
  rs_observed :: "LoopExternalIdentity js_record"
  rs_drift :: "LoopDrift list"
  rs_items :: "LoopItemLedgerEntry js_record"
  rs_itemStateChanged :: bool
  rs_observerProved :: bool

definition driftRecord :: "string \<Rightarrow> LoopItemLedgerEntry \<Rightarrow> LoopExternalIdentity \<Rightarrow> LoopDriftClass \<Rightarrow> LoopDrift" where
  "driftRecord i entry identity cls =
     \<lparr>dr_item_id = i, dr_ledger_state = le_state entry, dr_observed_state = describeObservedState identity, dr_class = cls\<rparr>"

definition changedItem :: "string \<Rightarrow> LoopItemLedgerEntry \<Rightarrow> ReconcileScan \<Rightarrow> ReconcileScan" where
  "changedItem i entry s = s\<lparr>rs_items := rec_put i entry (rs_items s), rs_itemStateChanged := True\<rparr>"

definition reconcileItem ::
  "LoopStoreDeps \<Rightarrow> ReconcileObserveDeps \<Rightarrow> ReconcileInput \<Rightarrow> string option \<Rightarrow> string \<Rightarrow> LoopItemLedgerEntry
    \<Rightarrow> ReconcileScan \<Rightarrow> ReconcileScan run_io" where
  "reconcileItem deps observeDeps input logicalOperationId i entry s =
     io_bind (observeExternalIdentity observeDeps i logicalOperationId) (\<lambda>identity.
     let drift = classifyDrift (le_state entry) identity (le_last_verified_identity entry);
         s1 = s\<lparr>rs_observed := rec_put i identity (rs_observed s),
                rs_drift := rs_drift s @ (case drift of None \<Rightarrow> [] | Some cls \<Rightarrow> [driftRecord i entry identity cls])\<rparr>
     in if drift = Some LedgerBehind
        then (case verifiedForwardTarget identity of
            None \<Rightarrow> io_throw (LoopError Validation (''classifyDrift reported '' @ quoted ''ledger-behind'' @ '' for item ''
              @ quoted i @ '' but verifiedForwardTarget found no verified target -- these must agree''))
          | Some target \<Rightarrow> io_bind (runNow deps) (\<lambda>time.
              let s2 = changedItem i (observedEntry time target (ri_engine input)
                    (Some ''reconciliation repaired forward on verified external identity'') (Some identity) entry) s1
              in io_return (if target \<in> set OBSERVER_SUCCESS_STATES then s2\<lparr>rs_observerProved := True\<rparr> else s2)))
        else if drift = Some LedgerAhead \<or> drift = Some ExternalAbsent \<or> drift = Some IdentityMismatch
        then io_bind (runNow deps) (\<lambda>time.
          io_return (changedItem i (reconstructedEntry time (reconstructedLocalState identity (le_state entry)) (ri_engine input)
            (Some ''reconciliation reconstructed local state from owning-system observer'') identity entry) s1))
        else if (le_state entry = PrOpened \<or> le_state entry = Implemented) \<and> isAdvanceStillNeeded identity
        then io_bind (runNow deps) (\<lambda>time.
          io_return (changedItem i (reconstructedEntry time InProgress (ri_engine input)
            (Some ''reconciliation restored advance-still-needed item to in_progress for re-dispatch'') identity entry) s1))
        else if drift = None \<and> (le_state entry \<in> set REMOTE_PROVING_STATES \<or> ei_pr_number identity \<noteq> None)
        then io_return (s1\<lparr>rs_items := rec_put i (entry\<lparr>le_last_verified_identity := Some identity\<rparr>) (rs_items s1)\<rparr>)
        else io_return s1)"

fun reconcileItems ::
  "LoopStoreDeps \<Rightarrow> ReconcileObserveDeps \<Rightarrow> ReconcileInput \<Rightarrow> string option \<Rightarrow> (string \<times> LoopItemLedgerEntry) list
    \<Rightarrow> ReconcileScan \<Rightarrow> ReconcileScan run_io" where
  "reconcileItems deps observeDeps input lop [] s = io_return s"
| "reconcileItems deps observeDeps input lop ((i, entry) # rest) s =
     io_bind (reconcileItem deps observeDeps input lop i entry s) (reconcileItems deps observeDeps input lop rest)"

definition currentHumanAuthority :: "LoopItemLedgerEntry \<Rightarrow> LoopExternalIdentity \<Rightarrow> bool" where
  "currentHumanAuthority entry identity \<longleftrightarrow> (le_state entry = Waiting \<or> le_state entry = Paused)
     \<and> truthy (Option.bind (le_hold_request entry) hr_authority_evidence_key)
     \<and> map_option js_lower (Option.bind (le_hold_request entry) hr_authority_candidate_head)
         = Some (js_lower (ei_head_sha identity))"

fun nextActions ::
  "LoopLedger \<Rightarrow> LoopMergeBarrier option \<Rightarrow> ReconcileScan \<Rightarrow> (string \<times> LoopItemLedgerEntry) list
    \<Rightarrow> LoopNextAction js_record \<Rightarrow> LoopNextAction js_record result" where
  "nextActions ledger merge_barrier s [] acc = Inr acc"
| "nextActions ledger merge_barrier s ((i, entry) # rest) acc =
     (case rec_get (rs_observed s) i of
        None \<Rightarrow> Inl (JsError ''TypeError'')
      | Some identity \<Rightarrow>
          nextActions ledger merge_barrier s rest (rec_put i
            (computeNextAction (le_state entry) identity (map_option dr_class (find (\<lambda>d. dr_item_id d = i) (rs_drift s)))
              (map_option mb_item_id (ll_merge_barrier ledger) = Some i \<and> merge_barrier \<noteq> None)
              (currentHumanAuthority entry identity)) acc))"

fun driftClassName :: "LoopDriftClass \<Rightarrow> string" where
  "driftClassName LedgerBehind = ''ledger-behind''"
| "driftClassName LedgerAhead = ''ledger-ahead''"
| "driftClassName ExternalAbsent = ''external-absent''"
| "driftClassName IdentityMismatch = ''identity-mismatch''"
| "driftClassName ChecksRegressed = ''checks-regressed''"

fun nextActionName :: "LoopNextAction \<Rightarrow> string" where
  "nextActionName Advance = ''advance''"
| "nextActionName AwaitChecks = ''await-checks''"
| "nextActionName RepairForward = ''repair-forward''"
| "nextActionName Reconstruct = ''reconstruct''"
| "nextActionName ClearMergeBarrier = ''clear-merge-barrier''"
| "nextActionName HoldForHuman = ''hold-for-human''"
| "nextActionName Noop = ''noop''"

definition driftJs :: "LoopDrift \<Rightarrow> jsval" where
  "driftJs d = JObj [(''item_id'', JStr (dr_item_id d)), (''ledger_state'', JStr (itemStateName (dr_ledger_state d))),
     (''observed_state'', JStr (dr_observed_state d)), (''class'', JStr (driftClassName (dr_class d)))]"

definition clearedBarrier :: "ReconcileObserveDeps \<Rightarrow> LoopLedger \<Rightarrow> LoopMergeBarrier option run_io" where
  "clearedBarrier observeDeps ledger =
     (case ll_merge_barrier ledger of
        None \<Rightarrow> io_return None
      | Some b \<Rightarrow> io_bind (observe (\<lambda>k. ob_baseBranchContainsSha observeDeps k (mb_merged_sha b))) (\<lambda>contains.
          io_return (if contains = Some True then None else Some b)))"

definition reconciledLedger ::
  "string \<Rightarrow> LoopLedger \<Rightarrow> LoopMergeBarrier option \<Rightarrow> ReconcileScan \<Rightarrow> LoopReconciliation \<Rightarrow> LoopLedger" where
  "reconciledLedger mint ledger merge_barrier s reconciliation =
     (let newLedger = ledger\<lparr>ll_items := rs_items s, ll_merge_barrier := merge_barrier,
            ll_last_reconciliation := Some reconciliation, ll_reconciliation_sequence := rc_sequence reconciliation\<rparr>
      in if rs_itemStateChanged s
         then bindLifecycleForItemTransition newLedger (resolveTransitionLogicalOperationId mint ledger None None)
                (rc_time reconciliation) (rs_observerProved s)
         else newLedger)"

definition reconcile ::
  "LoopStoreDeps \<Rightarrow> ReconcileObserveDeps \<Rightarrow> string \<Rightarrow> ReconcileInput \<Rightarrow> LoopReconciliation run_io" where
  "reconcile deps observeDeps mint input =
     io_bind (readRunLedger deps (ri_runId input)) (\<lambda>ledger.
     if ll_stop ledger \<noteq> None
        \<and> \<not> isMechanicalCompatibilityStopReason (map_option (\<lambda>s. stopReasonName (st_reason s)) (ll_stop ledger))
     then io_throw (stoppedError (ri_runId input) ledger)
     else io_bind (reconcileItems deps observeDeps input (map_option dl_logical_operation_id (ll_lifecycle ledger)) (ll_items ledger)
          \<lparr>rs_observed = [], rs_drift = [], rs_items = ll_items ledger, rs_itemStateChanged = False, rs_observerProved = False\<rparr>) (\<lambda>s.
       io_bind (clearedBarrier observeDeps ledger) (\<lambda>merge_barrier.
       io_bind (io_lift (nextActions ledger merge_barrier s (rs_items s) [])) (\<lambda>next_actions.
       io_bind (runNow deps) (\<lambda>time.
         let reconciliation = \<lparr>rc_sequence = ll_reconciliation_sequence ledger + 1, rc_time = time, rc_observed = rs_observed s,
               rc_drift = rs_drift s, rc_next_actions = next_actions\<rparr>
         in io_then (writeRunLedger deps (reconciledLedger mint ledger merge_barrier s reconciliation) (ri_token input))
           (io_then (runEvent deps (ri_runId input) (ri_token input) ''loop_reconciled'' (DataObj (JObj
              [(''sequence'', JNum (Fin (of_int (rc_sequence reconciliation)))), (''drift'', JArr (map driftJs (rs_drift s))),
               (''next_actions'', JObj (map (map_prod id (JStr \<circ> nextActionName)) next_actions))])))
           (io_then (case ll_merge_barrier ledger of
               Some b \<Rightarrow> if merge_barrier = None
                 then runEvent deps (ri_runId input) (ri_token input) ''loop_merge_barrier_cleared'' (DataObj (JObj
                   [(''item_id'', JStr (mb_item_id b)), (''merged_sha'', JStr (mb_merged_sha b))]))
                 else io_return ()
             | None \<Rightarrow> io_return ())
           (io_return reconciliation))))))))"

section \<open>Terminal catch-up on resume\<close>

record CatchUpScan =
  cu_items :: "LoopItemLedgerEntry js_record"
  cu_repaired :: "(string \<times> LoopItemState \<times> LoopItemState) list"

definition catchUpItem ::
  "LoopStoreDeps \<Rightarrow> ReconcileObserveDeps \<Rightarrow> ReconcileInput \<Rightarrow> string option \<Rightarrow> string \<Rightarrow> LoopItemLedgerEntry
    \<Rightarrow> CatchUpScan \<Rightarrow> CatchUpScan run_io" where
  "catchUpItem deps observeDeps input lop i entry s =
     io_bind (observeExternalIdentity observeDeps i lop) (\<lambda>identity.
       case verifiedForwardTarget identity of
         None \<Rightarrow> io_return s
       | Some target \<Rightarrow>
           if target \<noteq> Ready \<and> target \<noteq> Merged then io_return s
           else if le_state entry = target then io_return s
           else if classifyDrift (le_state entry) identity (le_last_verified_identity entry) \<noteq> Some LedgerBehind then io_return s
           else io_bind (runNow deps) (\<lambda>time.
             io_return \<lparr>cu_items = rec_put i (observedEntry time target (ri_engine input)
                 (Some ''resume terminal catch-up repaired forward on verified external identity'') (Some identity) entry) (cu_items s),
               cu_repaired = cu_repaired s @ [(i, le_state entry, target)]\<rparr>))"

fun catchUpItems ::
  "LoopStoreDeps \<Rightarrow> ReconcileObserveDeps \<Rightarrow> ReconcileInput \<Rightarrow> string option \<Rightarrow> (string \<times> LoopItemLedgerEntry) list
    \<Rightarrow> CatchUpScan \<Rightarrow> CatchUpScan run_io" where
  "catchUpItems deps observeDeps input lop [] s = io_return s"
| "catchUpItems deps observeDeps input lop ((i, entry) # rest) s =
     io_bind (catchUpItem deps observeDeps input lop i entry s) (catchUpItems deps observeDeps input lop rest)"

definition transitionedJs :: "string \<Rightarrow> LoopItemState \<Rightarrow> LoopItemState \<Rightarrow> LogData" where
  "transitionedJs i from_state to_state = DataObj (JObj [(''item_id'', JStr i), (''from'', JStr (itemStateName from_state)),
     (''to'', JStr (itemStateName to_state))])"

fun transitionedEvents ::
  "LoopStoreDeps \<Rightarrow> ReconcileInput \<Rightarrow> (string \<times> LoopItemState \<times> LoopItemState) list \<Rightarrow> unit run_io" where
  "transitionedEvents deps input [] = io_return ()"
| "transitionedEvents deps input ((i, a, b) # rest) =
     io_then (runEvent deps (ri_runId input) (ri_token input) ''loop_item_transitioned'' (transitionedJs i a b))
       (transitionedEvents deps input rest)"

definition resumeRecoveryExhaustedTerminalCatchUp ::
  "LoopStoreDeps \<Rightarrow> ReconcileObserveDeps \<Rightarrow> string \<Rightarrow> ReconcileInput \<Rightarrow> unit run_io" where
  "resumeRecoveryExhaustedTerminalCatchUp deps observeDeps mint input =
     io_bind (readRunLedger deps (ri_runId input)) (\<lambda>ledger.
     if map_option st_reason (ll_stop ledger) \<noteq> Some RecoveryExhausted \<and> ll_cooling ledger = None then io_return ()
     else io_bind (catchUpItems deps observeDeps input (map_option dl_logical_operation_id (ll_lifecycle ledger)) (ll_items ledger)
          \<lparr>cu_items = ll_items ledger, cu_repaired = []\<rparr>) (\<lambda>s.
       if cu_repaired s = [] then io_return ()
       else io_bind (runNow deps) (\<lambda>time.
         io_then (writeRunLedger deps (bindLifecycleForItemTransition (ledger\<lparr>ll_items := cu_items s\<rparr>)
             (resolveTransitionLogicalOperationId mint ledger None None) time
             (list_ex (\<lambda>r. snd (snd r) \<in> set OBSERVER_SUCCESS_STATES) (cu_repaired s))) (ri_token input))
           (transitionedEvents deps input (cu_repaired s)))))"

section \<open>Transitions\<close>

definition STATE_TO_GATE :: "LoopItemState \<Rightarrow> LoopAuthorityGate option" where
  "STATE_TO_GATE s = map_of [(PrOpened, PushPr), (Merged, MergeGate), (Released, ReleaseGate), (Deployed, DeployGate)] s"

definition identitySupportsState :: "LoopItemState \<Rightarrow> LoopExternalIdentity \<Rightarrow> bool" where
  "identitySupportsState state identity =
     (case state of
        PrOpened \<Rightarrow> ei_pr_number identity \<noteq> None \<and> ei_pr_state identity = Some PrOpen
      | Ready \<Rightarrow> ei_pr_number identity \<noteq> None \<and> ei_pr_state identity = Some PrOpen \<and> ei_ready_label_present identity
      | Merged \<Rightarrow> ei_pr_state identity = Some PrMerged
      | Released \<Rightarrow> False
      | Deployed \<Rightarrow> False
      | _ \<Rightarrow> True)"

text \<open>The observation is not from the future and not older than the window.\<close>

definition freshAt :: "int \<Rightarrow> LoopExternalIdentity \<Rightarrow> bool" where
  "freshAt nowMs identity =
     (case date_parse (ei_observed_at identity) of None \<Rightarrow> False
      | Some observed \<Rightarrow> 0 \<le> nowMs - observed \<and> nowMs - observed \<le> NATIVE_GOAL_FRESHNESS_WINDOW_SECONDS * 1000)"

text \<open>The loop over the items; \<open>None\<close> is the early \<open>return false\<close>.\<close>

fun freshProofs ::
  "ReconcileObserveDeps \<Rightarrow> string option \<Rightarrow> string \<Rightarrow> LoopExternalIdentity option \<Rightarrow> int
    \<Rightarrow> (string \<times> LoopItemLedgerEntry) list \<Rightarrow> LoopItemLedgerEntry js_record \<Rightarrow> LoopItemLedgerEntry js_record option run_io" where
  "freshProofs observeDeps lop liveItemId liveIdentity nowMs [] nextItems = io_return (Some nextItems)"
| "freshProofs observeDeps lop liveItemId liveIdentity nowMs ((i, item) # rest) nextItems =
     io_bind (if i = liveItemId \<and> liveIdentity \<noteq> None then io_return liveIdentity
       else io_catch (io_bind (observeExternalIdentity observeDeps i lop) (\<lambda>x. io_return (Some x))) None) (\<lambda>found.
     case found of
       None \<Rightarrow> io_return None
     | Some identity \<Rightarrow>
         if \<not> freshAt nowMs identity \<or> \<not> identitySupportsState (le_state item) identity then io_return None
         else freshProofs observeDeps lop liveItemId liveIdentity nowMs rest
           (if i \<noteq> liveItemId then rec_put i (item\<lparr>le_last_verified_identity := Some identity\<rparr>) nextItems else nextItems))"

text \<open>The result and the ledger, whose items the function replaces when it returns true.\<close>

definition everySuccessItemHasFreshLiveProof ::
  "ReconcileObserveDeps \<Rightarrow> LoopLedger \<Rightarrow> string \<Rightarrow> LoopExternalIdentity option \<Rightarrow> int \<Rightarrow> (bool \<times> LoopLedger) run_io" where
  "everySuccessItemHasFreshLiveProof observeDeps ledger liveItemId liveIdentity nowMs =
     (if ll_items ledger = [] then io_return (False, ledger)
      else if \<not> list_all (\<lambda>(_, item). le_state item \<in> set OBSERVER_SUCCESS_STATES) (ll_items ledger)
      then io_return (False, ledger)
      else io_bind (freshProofs observeDeps (map_option dl_logical_operation_id (ll_lifecycle ledger)) liveItemId liveIdentity nowMs
           (ll_items ledger) (ll_items ledger)) (\<lambda>r.
        io_return (case r of None \<Rightarrow> (False, ledger) | Some items \<Rightarrow> (True, ledger\<lparr>ll_items := items\<rparr>))))"

definition describeIdentityEvidence :: "LoopStoreDeps \<Rightarrow> LoopExternalIdentity \<Rightarrow> string" where
  "describeIdentityEvidence deps identity =
     ''verified '' @ describeObservedState identity @ '' at '' @ showTimestamp deps (ei_observed_at identity)"

record TransitionItemInput =
  ti_runId :: string
  ti_token :: string
  ti_itemId :: string
  ti_engine :: LoopEngineName
  ti_to :: LoopItemState
  ti_note :: "string option"
  ti_logicalOperationId :: "string option"
  ti_observerProof :: "bool option"

definition transitionStopped :: "TransitionItemInput \<Rightarrow> LoopLedger \<Rightarrow> bool" where
  "transitionStopped input ledger =
     (case ll_stop ledger of None \<Rightarrow> False
      | Some s \<Rightarrow>
          (let mechanical = isMechanicalCompatibilityStopReason (Some (stopReasonName (st_reason s)));
               sibling = (st_item_id s \<noteq> Some (ti_itemId input));
               observerCatchUp = (ti_to input \<in> set REMOTE_PROVING_STATES)
           in \<not> mechanical \<or> (\<not> sibling \<and> \<not> observerCatchUp)))"

definition requireTransition :: "TransitionItemInput \<Rightarrow> LoopLedger \<Rightarrow> LoopItemLedgerEntry result" where
  "requireTransition input ledger =
     (if transitionStopped input ledger then Inl (stoppedError (ti_runId input) ledger)
      else (case requireItem (ti_runId input) (ti_itemId input) ledger of
        Inl e \<Rightarrow> Inl e
      | Inr item \<Rightarrow>
          if ti_to input = Skipped
          then Inl (LoopError Validation (''item '' @ quoted (ti_itemId input) @ '' cannot transition to '' @ quoted ''skipped''
                 @ '' via transitionItem -- skipped is entered only by dependency propagation (capability durable-run-dependency-integrity), never a caller-requested transition''))
          else if le_state item = Skipped
          then Inl (LoopError Validation (''item '' @ quoted (ti_itemId input) @ '' cannot transition from '' @ quoted ''skipped''
                 @ '' -- skipped is terminal''))
          else Inr item))"

definition requireIdentity ::
  "LoopStoreDeps \<Rightarrow> LoopContract \<Rightarrow> TransitionItemInput \<Rightarrow> LoopLedger \<Rightarrow> int \<Rightarrow> LoopExternalIdentity \<Rightarrow> unit result" where
  "requireIdentity deps contract input ledger nowMs identity =
     (if \<not> freshAt nowMs identity
      then Inl (LoopError Validation (''transition into '' @ quoted (itemStateName (ti_to input)) @ '' for item '' @ quoted (ti_itemId input)
             @ '' requires a verified identity within the 300s freshness window -- the engine's live observation was taken at ''
             @ showTimestamp deps (ei_observed_at identity)))
      else if \<not> identitySupportsState (ti_to input) identity
      then Inl (LoopError Validation (''transition into '' @ quoted (itemStateName (ti_to input)) @ '' for item '' @ quoted (ti_itemId input)
             @ '' is not supported by the engine's verified external identity -- caller-supplied state never proves a remote transition''))
      else (case STATE_TO_GATE (ti_to input) of
        None \<Rightarrow> Inr ()
      | Some gate \<Rightarrow> authorizeGatedTransition (lc_authority_grants contract) ledger gate (ti_itemId input)
          (Some (describeIdentityEvidence deps identity))))"

definition transitionItem ::
  "LoopStoreDeps \<Rightarrow> ReconcileObserveDeps \<Rightarrow> string \<Rightarrow> LoopContract \<Rightarrow> TransitionItemInput \<Rightarrow> LoopLedger run_io" where
  "transitionItem deps observeDeps mint contractInput input =
     io_bind (readRunLedger deps (ti_runId input)) (\<lambda>ledger.
     io_bind (io_lift (requireTransition input ledger)) (\<lambda>item.
     io_bind (if ti_to input \<in> set REMOTE_PROVING_STATES
       then io_bind (observeExternalIdentity observeDeps (ti_itemId input) (map_option dl_logical_operation_id (ll_lifecycle ledger)))
         (\<lambda>identity. io_bind (on_store (io_now deps)) (\<lambda>nowMs.
           io_then (io_lift (requireIdentity deps contractInput input ledger nowMs identity)) (io_return (Some identity))))
       else io_return None) (\<lambda>observedIdentity.
     io_bind (runNow deps) (\<lambda>time.
     let moved = ledger\<lparr>ll_items := rec_put (ti_itemId input)
           (observedEntry time (ti_to input) (ti_engine input) (ti_note input) observedIdentity item) (ll_items ledger)\<rparr>
     in io_bind (if (case observedIdentity of None \<Rightarrow> False | Some i \<Rightarrow> identitySupportsState (ti_to input) i)
            \<and> ti_to input \<in> set OBSERVER_SUCCESS_STATES \<and> orElse (ti_observerProof input) True
          then io_bind (on_store (io_now deps)) (\<lambda>nowMs.
            everySuccessItemHasFreshLiveProof observeDeps moved (ti_itemId input) observedIdentity nowMs)
          else io_return (False, moved)) (\<lambda>(proved, ledger2).
        let bound = bindLifecycleForItemTransition ledger2
              (resolveTransitionLogicalOperationId mint ledger2 (lc_logical_operation_id contractInput) (ti_logicalOperationId input))
              time proved
        in io_then (writeRunLedger deps bound (ti_token input))
          (io_then (runEvent deps (ti_runId input) (ti_token input) ''loop_item_transitioned''
             (transitionedJs (ti_itemId input) (le_state item) (ti_to input)))
          (io_return bound)))))))"

end
