(* ===== verification/Reconcile_Laws.thy ===== *)
theory Reconcile_Laws
  imports Reconcile
begin

text \<open>
  What reconciliation, the catch-up on resume and transitions promise. Each of them advances the ledger
  item by item along \<open>observed_item\<close>: an item moves only on an identity the engine observed itself, in
  the direction the identity supports, and the identity is stored with it. The operations interpret the
  contract \<open>ledger_operation\<close> with these steps.
\<close>

section \<open>Observed steps\<close>

lemma remoteState_iff: "remoteState s \<longleftrightarrow> s \<in> set REMOTE_PROVING_STATES"
  by (simp add: remoteState_def REMOTE_PROVING_STATES_def)

text \<open>One item, on an identity that satisfies \<open>seen\<close>.\<close>

inductive observed_item :: "(LoopExternalIdentity \<Rightarrow> bool) \<Rightarrow> LoopItemLedgerEntry \<Rightarrow> LoopItemLedgerEntry \<Rightarrow> bool" for seen where
  keep: "observed_item seen a a"
| forward: "seen i \<Longrightarrow> classifyDrift (le_state a) i (le_last_verified_identity a) = Some LedgerBehind
    \<Longrightarrow> verifiedForwardTarget i = Some t \<Longrightarrow> observed_item seen a (observedEntry time t engine msg (Some i) a)"
| reconstruct: "seen i \<Longrightarrow> classifyDrift (le_state a) i (le_last_verified_identity a) \<in> {Some LedgerAhead, Some ExternalAbsent, Some IdentityMismatch}
    \<Longrightarrow> observed_item seen a (reconstructedEntry time (reconstructedLocalState i (le_state a)) engine msg i a)"
| heal: "seen i \<Longrightarrow> le_state a = PrOpened \<or> le_state a = Implemented \<Longrightarrow> isAdvanceStillNeeded i
    \<Longrightarrow> observed_item seen a (reconstructedEntry time InProgress engine msg i a)"
| refresh: "seen i \<Longrightarrow> classifyDrift (le_state a) i (le_last_verified_identity a) = None
    \<Longrightarrow> observed_item seen a (a\<lparr>le_last_verified_identity := Some i\<rparr>)"
| prove: "seen i \<Longrightarrow> identitySupportsState (le_state a) i \<Longrightarrow> observed_item seen a (a\<lparr>le_last_verified_identity := Some i\<rparr>)"
| ready: "seen i \<Longrightarrow> identitySupportsState Ready i \<Longrightarrow> le_state a \<noteq> Skipped
    \<Longrightarrow> observed_item seen a (observedEntry time Ready engine msg (Some i) a)"
| abandon: "le_state a \<noteq> Skipped \<Longrightarrow> observed_item seen a (observedEntry time Abandoned engine msg None a)"

definition observed_step :: "(string \<Rightarrow> LoopExternalIdentity \<Rightarrow> bool) \<Rightarrow> LoopLedger \<Rightarrow> LoopLedger \<Rightarrow> bool" where
  "observed_step seen l next \<longleftrightarrow> same_file l next \<and> attemptsOf next = attemptsOf l \<and> amendmentsOf next = amendmentsOf l
     \<and> (\<forall>k. rel_option (observed_item (seen k)) (rec_get (ll_items l) k) (rec_get (ll_items next) k))"

definition OBSERVED_MOVES :: moves where
  "OBSERVED_MOVES =
     {(a, b). b \<in> {PrOpened, Ready, Merged} \<and> \<not> integratedState a}
     \<union> {(a, b). remoteState a \<and> b \<in> {PrOpened, Ready, Merged, InProgress, Implemented}}
     \<union> {(a, b). \<not> remoteState a \<and> a \<notin> {Waiting, Paused, Blocked} \<and> b = InProgress}
     \<union> {(a, b). \<not> remoteState a \<and> b = a} \<union> {(a, b). a \<noteq> Skipped \<and> b \<in> {Abandoned, Ready}}"

lemma verifiedForwardTarget_proof: "verifiedForwardTarget i = Some t \<Longrightarrow> t \<in> {PrOpened, Ready, Merged} \<and> remoteProof t i"
  by (auto simp: verifiedForwardTarget_def split: if_splits)

lemma behind_state: "classifyDrift s i b = Some LedgerBehind \<Longrightarrow> \<not> integratedState s"
  by (auto simp: classifyDrift_def Let_def REMOTE_PROVING_STATES_def integratedState_def split: if_splits)

lemma aligned_proof: "classifyDrift s i b = None \<Longrightarrow> remoteProof s i"
  by (cases s) (auto simp: classifyDrift_def Let_def REMOTE_PROVING_STATES_def integratedState_def verifiedForwardTarget_def
    split: if_splits)

lemma supports_proof: "identitySupportsState s i \<Longrightarrow> remoteProof s i"
  by (cases s) (auto simp: identitySupportsState_def)

lemma reconstructed_proof: "remoteProof (reconstructedLocalState i s) i"
  using verifiedForwardTarget_proof [of i]
  by (auto simp: reconstructedLocalState_def REMOTE_PROVING_STATES_def split: option.splits) (cases s; simp)+

lemma drifted_state:
  assumes "classifyDrift s i b \<in> {Some LedgerAhead, Some ExternalAbsent, Some IdentityMismatch}"
  shows "(s, reconstructedLocalState i s) \<in> OBSERVED_MOVES"
proof (cases "remoteState s")
  case True
  then have "reconstructedLocalState i s \<in> {PrOpened, Ready, Merged, InProgress, Implemented}"
    using verifiedForwardTarget_proof [of i] remoteState_iff [of s]
    by (auto simp: reconstructedLocalState_def remoteState_def split: option.splits)
  with True show ?thesis by (simp add: OBSERVED_MOVES_def)
next
  case False
  then have "s = Blocked \<or> verifiedForwardTarget i = None"
    using assms remoteState_iff [of s] by (auto simp: classifyDrift_def Let_def split: if_splits)
  then have "reconstructedLocalState i s = s \<or> s \<notin> {Waiting, Paused, Blocked} \<and> reconstructedLocalState i s = InProgress"
    using False remoteState_iff [of s] by (auto simp: reconstructedLocalState_def)
  with False show ?thesis by (auto simp: OBSERVED_MOVES_def)
qed

lemma observedEntry_spec:
  "(le_state a, t) \<in> moves \<Longrightarrow> remoteState t \<Longrightarrow> remoteProof t i
    \<Longrightarrow> item_spec moves a (observedEntry time t engine msg (Some i) a)"
  "(le_state a, t) \<in> moves \<Longrightarrow> \<not> remoteState t \<Longrightarrow> item_spec moves a (observedEntry time t engine msg j a)"
  "(le_state a, t) \<in> moves \<Longrightarrow> remoteProof t i \<Longrightarrow> item_spec moves a (reconstructedEntry time t engine msg i a)"
  by (simp_all add: item_spec_def observedEntry_def reconstructedEntry_def verified_step_def verified_def)

lemma observedEntry_wf:
  assumes "item_wf a"
  shows "t \<noteq> Blocked \<Longrightarrow> remoteProof t i \<Longrightarrow> item_wf (observedEntry time t engine msg (Some i) a)"
    and "t \<noteq> Blocked \<Longrightarrow> \<not> remoteState t \<Longrightarrow> item_wf (observedEntry time t engine msg j a)"
    and "t = Blocked \<longrightarrow> le_state a = Blocked \<Longrightarrow> remoteProof t i \<Longrightarrow> item_wf (reconstructedEntry time t engine msg i a)"
  using assms by (auto simp: item_wf_def observedEntry_def reconstructedEntry_def verified_def intro: chained_append)

lemma observed_item_spec: "observed_item seen a b \<Longrightarrow> item_spec OBSERVED_MOVES a b"
proof (induction rule: observed_item.induct)
  case (forward i a t time engine msg)
  have "(le_state a, t) \<in> OBSERVED_MOVES" "remoteState t" "remoteProof t i"
    using verifiedForwardTarget_proof [OF forward(3)] behind_state [OF forward(2)] by (auto simp: OBSERVED_MOVES_def remoteState_def)
  then show ?case by (rule observedEntry_spec(1))
next
  case (reconstruct i a time engine msg)
  show ?case by (rule observedEntry_spec(3) [OF drifted_state [OF reconstruct(2)] reconstructed_proof])
next
  case (heal i a time engine msg)
  then have "(le_state a, InProgress) \<in> OBSERVED_MOVES" by (auto simp: OBSERVED_MOVES_def remoteState_def)
  then show ?case by (rule observedEntry_spec(3)) simp
next
  case (refresh i a)
  with aligned_proof show ?case by (auto simp: item_spec_def verified_step_def verified_def)
next
  case (prove i a)
  with supports_proof show ?case by (auto simp: item_spec_def verified_step_def verified_def)
next
  case (ready i a time engine msg)
  then have "(le_state a, Ready) \<in> OBSERVED_MOVES" by (simp add: OBSERVED_MOVES_def)
  then show ?case by (rule observedEntry_spec(1)) (use supports_proof [OF ready(2)] in \<open>simp_all add: remoteState_def\<close>)
next
  case (abandon a time engine msg)
  then have "(le_state a, Abandoned) \<in> OBSERVED_MOVES" by (simp add: OBSERVED_MOVES_def)
  then show ?case by (rule observedEntry_spec(2)) (simp add: remoteState_def)
qed simp

lemma reconstructed_blocked: "reconstructedLocalState i s = Blocked \<Longrightarrow> s = Blocked"
  using verifiedForwardTarget_proof [of i] by (auto simp: reconstructedLocalState_def split: option.splits if_splits)

lemma observed_item_wf: "observed_item seen a b \<Longrightarrow> item_wf a \<Longrightarrow> item_wf b"
proof (induction rule: observed_item.induct)
  case (forward i a t time engine msg)
  with verifiedForwardTarget_proof [OF forward(3)] show ?case by (auto intro!: observedEntry_wf(1))
next
  case (refresh i a)
  with aligned_proof show ?case by (auto simp: item_wf_def verified_def)
next
  case (prove i a)
  with supports_proof show ?case by (auto simp: item_wf_def verified_def)
next
  case (ready i a time engine msg)
  then show ?case using supports_proof [OF ready(2)] by (intro observedEntry_wf(1)) simp_all
qed (auto intro!: observedEntry_wf simp: reconstructed_proof reconstructed_blocked remoteState_def)

lemma observed_step_wf: "observed_step seen l next \<Longrightarrow> ledger_wf l \<Longrightarrow> ledger_wf next"
proof -
  assume s: "observed_step seen l next" and wf: "ledger_wf l"
  have "item_wf b" if "rec_get (ll_items next) k = Some b" for k b
  proof -
    have "rel_option (observed_item (seen k)) (rec_get (ll_items l) k) (Some b)"
      using s that unfolding observed_step_def by metis
    then obtain a where "rec_get (ll_items l) k = Some a" "observed_item (seen k) a b" by (auto simp: option_rel_Some2)
    with wf observed_item_wf show ?thesis by (auto simp: ledger_wf_def)
  qed
  with s wf show "ledger_wf next" by (simp add: ledger_wf_def observed_step_def)
qed

text \<open>A ledger whose items moved side by side is reached one item at a time.\<close>

definition replaceItems :: "LoopLedger \<Rightarrow> string list \<Rightarrow> LoopLedger \<Rightarrow> LoopLedger" where
  "replaceItems next ks l = fold (\<lambda>k. updateItem k (\<lambda>_. the (rec_get (ll_items next) k))) ks l"

lemma pointwise_spec:
  assumes "same_file l next" "\<And>k. rel_option (item_spec moves) (rec_get (ll_items l) k) (rec_get (ll_items next) k)"
  shows "(ledger_spec moves)\<^sup>*\<^sup>* l next"
proof -
  have steps: "(ledger_spec moves)\<^sup>*\<^sup>* l (replaceItems next ks l) \<and> same_file l (replaceItems next ks l)
      \<and> (\<forall>k. rec_get (ll_items (replaceItems next ks l)) k = (if k \<in> set ks then rec_get (ll_items next) k else rec_get (ll_items l) k))" for ks
  proof (induction ks rule: rev_induct)
    case (snoc k ks)
    let ?m = "replaceItems next ks l" and ?f = "\<lambda>_. the (rec_get (ll_items next) k)"
    have m: "rec_get (ll_items ?m) k = rec_get (ll_items next) k \<or> rec_get (ll_items ?m) k = rec_get (ll_items l) k" using snoc by metis
    have "item_spec moves item (?f item)" if "rec_get (ll_items ?m) k = Some item" for item
      using assms(2) [of k] m that by (auto elim: option.rel_cases)
    then have "ledger_spec moves ?m (updateItem k ?f ?m)" by (rule updateItem_spec)
    moreover have "rec_get (ll_items ?m) k = None \<longleftrightarrow> rec_get (ll_items next) k = None"
      using assms(2) [of k] m by (auto elim: option.rel_cases)
    ultimately show ?case using snoc
      by (auto simp: replaceItems_def same_file_def dest: ledger_spec_file split: option.splits intro: rtranclp.rtrancl_into_rtrancl)
        (auto simp: updateItem_def split: option.splits)
  qed (simp add: replaceItems_def same_file_def)
  let ?m = "replaceItems next (rec_keys (ll_items l)) l"
  have "rec_get (ll_items ?m) k = rec_get (ll_items next) k" for k
    using steps [of "rec_keys (ll_items l)"] assms(1) rec_get_None_iff by (metis same_file_def)
  then have "same_items ?m next"
    using steps [of "rec_keys (ll_items l)"] assms(1) by (simp add: same_items_def same_file_def option.rel_refl)
  with steps show ?thesis by (meson ledger_spec_of_same rtranclp.rtrancl_into_rtrancl)
qed

lemma observed_step_spec: "observed_step seen l next \<Longrightarrow> (ledger_spec OBSERVED_MOVES)\<^sup>*\<^sup>* l next"
  by (rule pointwise_spec) (auto simp: observed_step_def intro: option.rel_mono_strong observed_item_spec)

section \<open>The operations take observed steps only\<close>

definition seenBy :: "ReconcileObserveDeps \<Rightarrow> string \<Rightarrow> LoopExternalIdentity \<Rightarrow> bool" where
  "seenBy observeDeps itemId i \<longleftrightarrow> (\<exists>start stop. shown observeDeps itemId start stop i)"

definition observed_items ::
  "(string \<Rightarrow> LoopExternalIdentity \<Rightarrow> bool) \<Rightarrow> LoopItemLedgerEntry js_record \<Rightarrow> LoopItemLedgerEntry js_record \<Rightarrow> bool" where
  "observed_items seen a b \<longleftrightarrow> rec_keys b = rec_keys a \<and> (\<forall>k. rel_option (observed_item (seen k)) (rec_get a k) (rec_get b k))"

lemma observed_items_refl [simp]: "observed_items seen a a"
  by (simp add: observed_items_def option.rel_refl observed_item.keep)

lemma observed_items_put:
  assumes "observed_items seen a b" "rec_get a i = Some item" "observed_item (seen i) item item'"
  shows "observed_items seen a (rec_put i item' b)"
proof -
  have "i \<in> set (rec_keys b)" using assms(1,2) rec_get_in_keys by (metis observed_items_def)
  with assms show ?thesis by (simp add: observed_items_def rec_keys_put_present)
qed

lemma observed_stepI:
  "observed_items seen (ll_items l) (ll_items next) \<Longrightarrow> ll_run_id next = ll_run_id l
    \<Longrightarrow> ll_recovery_attempts next = ll_recovery_attempts l \<Longrightarrow> ll_authority_amendments next = ll_authority_amendments l
    \<Longrightarrow> observed_step seen l next"
  by (simp add: observed_step_def observed_items_def same_file_def attemptsOf_def amendmentsOf_def)

lemma bindTransition_fields [simp]:
  "ll_items (bindLifecycleForItemTransition l lop t p) = ll_items l"
  "ll_run_id (bindLifecycleForItemTransition l lop t p) = ll_run_id l"
  "ll_recovery_attempts (bindLifecycleForItemTransition l lop t p) = ll_recovery_attempts l"
  "ll_authority_amendments (bindLifecycleForItemTransition l lop t p) = ll_authority_amendments l"
  by (simp_all add: bindLifecycleForItemTransition_def bindLifecycleRecord_def)

lemma wp_seen:
  assumes "\<And>i w'. world_grows w w' \<Longrightarrow> seenBy ob itemId i \<Longrightarrow> Q i w'" "\<And>e w'. world_grows w w' \<Longrightarrow> E e w'"
  shows "wp (observeExternalIdentity ob itemId lop) Q E w"
  by (rule wp_observeExternalIdentity) (use assms in \<open>auto simp: seenBy_def later_def\<close>)

lemma wp_reconcileItem:
  assumes "observed_items (seenBy ob) items (rs_items s)" "rec_get items i = Some entry" "world_grows u w"
    and Q: "\<And>s' w'. observed_items (seenBy ob) items (rs_items s') \<Longrightarrow> world_grows u w' \<Longrightarrow> Q s' w'"
    and E: "\<And>e w'. world_grows u w' \<Longrightarrow> E e w'"
  shows "wp (reconcileItem deps ob input lop i entry s) Q E w"
  unfolding reconcileItem_def Let_def changedItem_def
  by (intro wp_bind [of "observeExternalIdentity _ _ _"] wp_bind [of "runNow _"] wp_seen wp_if wp_option wp_runNow wp_return wp_throw Q E)
    (use assms(1-3) in \<open>auto intro: world_grows_trans observed_items_put observed_item.intros\<close>)

lemma wp_reconcileItems:
  assumes "observed_items (seenBy ob) items (rs_items s)" "\<And>i entry. (i, entry) \<in> set list \<Longrightarrow> rec_get items i = Some entry" "world_grows u w"
    and "\<And>s' w'. observed_items (seenBy ob) items (rs_items s') \<Longrightarrow> world_grows u w' \<Longrightarrow> Q s' w'"
    and E: "\<And>e w'. world_grows u w' \<Longrightarrow> E e w'"
  shows "wp (reconcileItems deps ob input lop list s) Q E w"
  using assms(1-4)
proof (induction list arbitrary: s w)
  case (Cons p list)
  then show ?case
    by (cases p) (auto intro!: wp_bind wp_reconcileItem [where items = items and u = u] E)
qed (simp add: wp_return)

abbreviation observing :: "ReconcileObserveDeps \<Rightarrow> LoopStoreDeps \<Rightarrow> string \<Rightarrow> string \<Rightarrow> RunWorld \<Rightarrow> RunWorld \<Rightarrow> bool" where
  "observing ob deps \<equiv> conforms (observed_step (seenBy ob)) deps"

lemma wp_commit_observed:
  assumes "runs_named deps u" "runDir deps runId = Inr dir" "map_of (rw_ledgers u) dir = Some l" "world_grows u w"
    and "observed_items (seenBy ob) (ll_items l) (ll_items next)" "ll_run_id next = ll_run_id l"
    and "ll_recovery_attempts next = ll_recovery_attempts (normalizeLedger (de_sha256 deps) (runPolicy u dir) l)"
    and "ll_authority_amendments next = ll_authority_amendments l"
    and "\<And>w'. observing ob deps runId token u w' \<Longrightarrow> Q () w'" "\<And>e. E e w"
  shows "wp (writeRunLedger deps next token) Q E w"
  by (rule wp_commit [where step = "observed_step (seenBy ob)", OF assms(1-4)]) (use assms in \<open>auto intro!: observed_stepI\<close>)

lemma filed_items: "rec_wf items \<Longrightarrow> (i, entry) \<in> set items \<Longrightarrow> rec_get items i = Some entry"
  by (simp add: rec_wf_def rec_keys_def rec_get_def)

lemma filed_ledger: "runs_named deps u \<Longrightarrow> map_of (rw_ledgers u) dir = Some l \<Longrightarrow> rec_wf (ll_items l)"
  by (simp add: runs_named_def)

lemma wp_reconcileScan:
  assumes "rec_wf items" "rs_items s = items"
    and "\<And>s' w'. observed_items (seenBy ob) items (rs_items s') \<Longrightarrow> world_grows w w' \<Longrightarrow> Q s' w'" "\<And>e w'. world_grows w w' \<Longrightarrow> E e w'"
  shows "wp (reconcileItems deps ob input lop items s) Q E w"
  by (rule wp_reconcileItems [where items = items and u = w]) (use assms filed_items in auto)

lemma wp_clearedBarrier:
  assumes "\<And>b w'. world_grows w w' \<Longrightarrow> Q b w'" "\<And>e w'. world_grows w w' \<Longrightarrow> E e w'"
  shows "wp (clearedBarrier ob l) Q E w"
  unfolding clearedBarrier_def
  by (intro wp_option wp_bind wp_observe wp_return assms) (auto dest: later_grows)

lemma reconciled_fields [simp]:
  "ll_items (reconciledLedger mint l b s r) = rs_items s" "ll_run_id (reconciledLedger mint l b s r) = ll_run_id l"
  "ll_recovery_attempts (reconciledLedger mint l b s r) = ll_recovery_attempts l"
  "ll_authority_amendments (reconciledLedger mint l b s r) = ll_authority_amendments l"
  by (simp_all add: reconciledLedger_def Let_def)

lemma wp_reconcile:
  assumes "runs_named deps w"
  shows "wp (reconcile deps ob mint input) (\<lambda>_. observing ob deps (ri_runId input) (ri_token input) w)
    (\<lambda>_. observing ob deps (ri_runId input) (ri_token input) w) w"
  unfolding reconcile_def Let_def
  apply (rule wp_bind, rule wp_readRunLedger, rule wp_if)
    apply (rule wp_throw, simp)
   apply (rule wp_bind, rule wp_reconcileScan)
      apply (simp add: filed_ledger [OF assms])
     apply simp
    apply (rule wp_bind, rule wp_clearedBarrier, rule wp_bind, rule wp_lift, rule wp_bind, rule wp_runNow,
      rule wp_then, rule wp_commit_observed [OF assms], assumption+)
  by (((rule wp_then wp_option wp_if wp_return wp_runEvent) | (simp; fail) | (blast intro: grow_intros))+)

lemma wp_catchUpItem:
  assumes "observed_items (seenBy ob) items (cu_items s)" "rec_get items i = Some entry" "world_grows u w"
    and Q: "\<And>s' w'. observed_items (seenBy ob) items (cu_items s') \<Longrightarrow> world_grows u w' \<Longrightarrow> Q s' w'"
    and E: "\<And>e w'. world_grows u w' \<Longrightarrow> E e w'"
  shows "wp (catchUpItem deps ob input lop i entry s) Q E w"
  unfolding catchUpItem_def
  by (intro wp_bind [of "observeExternalIdentity _ _ _"] wp_bind [of "runNow _"] wp_seen wp_if wp_option wp_runNow wp_return Q E)
    (use assms(1-3) in \<open>auto intro: world_grows_trans observed_items_put observed_item.intros\<close>)

lemma wp_catchUpItems:
  assumes "observed_items (seenBy ob) items (cu_items s)" "\<And>i entry. (i, entry) \<in> set list \<Longrightarrow> rec_get items i = Some entry" "world_grows u w"
    and "\<And>s' w'. observed_items (seenBy ob) items (cu_items s') \<Longrightarrow> world_grows u w' \<Longrightarrow> Q s' w'"
    and E: "\<And>e w'. world_grows u w' \<Longrightarrow> E e w'"
  shows "wp (catchUpItems deps ob input lop list s) Q E w"
  using assms(1-4)
proof (induction list arbitrary: s w)
  case (Cons p list)
  then show ?case
    by (cases p) (auto intro!: wp_bind wp_catchUpItem [where items = items and u = u] E)
qed (simp add: wp_return)

lemma wp_catchUpScan:
  assumes "rec_wf items" "cu_items s = items"
    and "\<And>s' w'. observed_items (seenBy ob) items (cu_items s') \<Longrightarrow> world_grows w w' \<Longrightarrow> Q s' w'" "\<And>e w'. world_grows w w' \<Longrightarrow> E e w'"
  shows "wp (catchUpItems deps ob input lop items s) Q E w"
  by (rule wp_catchUpItems [where items = items and u = w]) (use assms filed_items in auto)

lemma wp_transitionedEvents:
  assumes "\<And>w'. world_grows u w' \<Longrightarrow> Q () w'" "\<And>e w'. world_grows u w' \<Longrightarrow> E e w'" "world_grows u w"
  shows "wp (transitionedEvents deps input rs) Q E w"
  using assms(3)
proof (induction rs arbitrary: w)
  case (Cons r rs)
  then show ?case by (cases r) (auto intro!: wp_then wp_runEvent assms(2) intro: world_grows_trans)
qed (simp add: wp_return assms(1))

lemma wp_catchUp:
  assumes "runs_named deps w"
  shows "wp (resumeRecoveryExhaustedTerminalCatchUp deps ob mint input) (\<lambda>_. observing ob deps (ri_runId input) (ri_token input) w)
    (\<lambda>_. observing ob deps (ri_runId input) (ri_token input) w) w"
  unfolding resumeRecoveryExhaustedTerminalCatchUp_def
  apply (rule wp_bind, rule wp_readRunLedger, rule wp_if)
    apply (rule wp_return, simp)
   apply (rule wp_bind, rule wp_catchUpScan)
      apply (simp add: filed_ledger [OF assms])
     apply simp
    apply (rule wp_if, rule wp_return, blast intro: grow_intros)
    apply (rule wp_bind, rule wp_runNow, rule wp_then, rule wp_commit_observed [OF assms], assumption+)
  by (((rule wp_transitionedEvents [OF _ _ world_grows_refl]) | (simp; fail) | (blast intro: grow_intros))+)

text \<open>Transitions: the item's own identity, and the fresh proofs of its siblings.\<close>

lemma wp_freshProofs:
  assumes "observed_items (seenBy ob) items acc" "world_grows u w"
    and "\<And>i entry. (i, entry) \<in> set list \<Longrightarrow> i \<noteq> live \<Longrightarrow> rec_get items i = Some entry"
    and "\<And>r w'. world_grows u w' \<Longrightarrow> pred_option (observed_items (seenBy ob) items) r \<Longrightarrow> Q r w'"
  shows "wp (freshProofs ob lop live identity nowMs list acc) Q E w"
  using assms(1-3)
proof (induction list arbitrary: acc w)
  case (Cons p list)
  obtain i entry where p: "p = (i, entry)" by fastforce
  have cont: "wp (case found of None \<Rightarrow> io_return None | Some x \<Rightarrow>
      if \<not> freshAt nowMs x \<or> \<not> identitySupportsState (le_state entry) x then io_return None
      else freshProofs ob lop live identity nowMs list (if i \<noteq> live then rec_put i (entry\<lparr>le_last_verified_identity := Some x\<rparr>) acc else acc)) Q E w'"
    if "world_grows u w'" "\<And>x. found = Some x \<Longrightarrow> i \<noteq> live \<Longrightarrow> seenBy ob i x" for found w'
  proof (intro wp_option wp_if wp_return assms(4) Cons.IH)
    fix x assume x: "found = Some x" "\<not> (\<not> freshAt nowMs x \<or> \<not> identitySupportsState (le_state entry) x)"
    show "observed_items (seenBy ob) items (if i \<noteq> live then rec_put i (entry\<lparr>le_last_verified_identity := Some x\<rparr>) acc else acc)"
      using x Cons.prems p that(2) by (auto intro: observed_items_put observed_item.prove)
  qed (use that Cons.prems in auto)
  show ?case
    unfolding p freshProofs.simps
    by (intro wp_bind [of "if _ then _ else _"] wp_if wp_return wp_catch wp_bind [of "observeExternalIdentity _ _ _"] wp_seen cont)
      (use Cons.prems in \<open>auto intro: world_grows_trans\<close>)
qed (auto intro!: wp_return assms(4))

lemma wp_everySuccess:
  assumes "observed_items (seenBy ob) items (ll_items l)" "world_grows u w"
    and "\<And>i. i \<noteq> live \<Longrightarrow> rec_get (ll_items l) i = rec_get items i" "rec_wf items"
    and "\<And>b l' w'. world_grows u w' \<Longrightarrow> observed_items (seenBy ob) items (ll_items l') \<Longrightarrow> l' = l\<lparr>ll_items := ll_items l'\<rparr> \<Longrightarrow> Q (b, l') w'"
  shows "wp (everySuccessItemHasFreshLiveProof ob l live identity nowMs) Q E w"
proof -
  have "rec_wf (ll_items l)" using assms(1,4) by (simp add: observed_items_def rec_wf_def)
  then have "rec_get items i = Some entry" if "(i, entry) \<in> set (ll_items l)" "i \<noteq> live" for i entry
    using that filed_items assms(3) by metis
  then show ?thesis
    unfolding everySuccessItemHasFreshLiveProof_def
    by (intro wp_if wp_return wp_bind wp_freshProofs [where items = items and u = u] assms(5))
      (use assms(1,2) in \<open>auto split: option.splits intro!: assms(5)\<close>)
qed

lemma requireTransition_Inr:
  "requireTransition input l = Inr item
    \<Longrightarrow> rec_get (ll_items l) (ti_itemId input) = Some item \<and> le_state item \<noteq> Skipped \<and> ti_to input \<noteq> Skipped \<and> \<not> transitionStopped input l"
  by (auto simp: requireTransition_def requireItem_def split: if_splits option.splits)

lemma requireIdentity_Inr:
  "requireIdentity deps c input l nowMs i = Inr u \<longleftrightarrow> freshAt nowMs i \<and> identitySupportsState (ti_to input) i
    \<and> (\<forall>gate. STATE_TO_GATE (ti_to input) = Some gate
        \<longrightarrow> authorizeGatedTransition (lc_authority_grants c) l gate (ti_itemId input) (Some (describeIdentityEvidence deps i)) = Inr ())"
  by (auto simp: requireIdentity_def split: if_splits option.splits)

text \<open>The transitions the supervisor asks for: an item is given up, or its pull request is ready.\<close>

definition supervised :: "TransitionItemInput \<Rightarrow> bool" where
  "supervised input \<longleftrightarrow> ti_to input = Abandoned \<or> ti_to input = Ready"

lemma transition_items:
  assumes "supervised input" "requireTransition input l = Inr item" "ll_items l = items"
    and "if ti_to input \<in> set REMOTE_PROVING_STATES
      then \<exists>i. identity = Some i \<and> seenBy ob (ti_itemId input) i \<and> identitySupportsState (ti_to input) i else identity = None"
  shows "observed_items (seenBy ob) items
    (rec_put (ti_itemId input) (observedEntry time (ti_to input) engine msg identity item) items)"
proof -
  have "observed_item (seenBy ob (ti_itemId input)) item (observedEntry time (ti_to input) engine msg identity item)"
    using assms(1,4) requireTransition_Inr [OF assms(2)]
    by (auto simp: supervised_def REMOTE_PROVING_STATES_def intro: observed_item.ready observed_item.abandon)
  with requireTransition_Inr [OF assms(2)] assms(3) show ?thesis by (auto intro: observed_items_put)
qed

lemma wp_proveSiblings:
  assumes "observed_items (seenBy ob) (ll_items l) (rec_put live x (ll_items l))" "rec_wf (ll_items l)" "world_grows u w"
    and "\<And>b l' w'. world_grows u w' \<Longrightarrow> observed_items (seenBy ob) (ll_items l) (ll_items l')
      \<Longrightarrow> ll_run_id l' = ll_run_id l \<and> ll_recovery_attempts l' = ll_recovery_attempts l
        \<and> ll_authority_amendments l' = ll_authority_amendments l \<Longrightarrow> Q (b, l') w'"
  shows "wp (if guard then io_bind (on_store (io_now deps)) (\<lambda>nowMs.
      everySuccessItemHasFreshLiveProof ob (l\<lparr>ll_items := rec_put live x (ll_items l)\<rparr>) live identity nowMs)
    else io_return (False, l\<lparr>ll_items := rec_put live x (ll_items l)\<rparr>)) Q E w"
proof (rule wp_if)
  have "wp (everySuccessItemHasFreshLiveProof ob (l\<lparr>ll_items := rec_put live x (ll_items l)\<rparr>) live identity nowMs) Q E w'"
    if "world_grows w w'" for nowMs w'
  proof (rule wp_everySuccess [where items = "ll_items l" and u = u])
    fix b l' v assume v: "world_grows u v" "observed_items (seenBy ob) (ll_items l) (ll_items l')"
      "l' = l\<lparr>ll_items := rec_put live x (ll_items l)\<rparr>\<lparr>ll_items := ll_items l'\<rparr>"
    have "ll_run_id l' = ll_run_id l \<and> ll_recovery_attempts l' = ll_recovery_attempts l
        \<and> ll_authority_amendments l' = ll_authority_amendments l" by (subst v(3), subst (2) v(3), subst (3) v(3)) simp
    with v(1,2) show "Q (b, l') v" by (rule assms(4))
  qed (use assms(1-3) that in \<open>auto intro: world_grows_trans\<close>)
  then show "wp (io_bind (on_store (io_now deps)) (\<lambda>nowMs.
      everySuccessItemHasFreshLiveProof ob (l\<lparr>ll_items := rec_put live x (ll_items l)\<rparr>) live identity nowMs)) Q E w"
    by (intro wp_bind wp_clock(1))
qed (use assms(1,3) in \<open>auto intro!: wp_return assms(4)\<close>)

lemma wp_transitionItem:
  assumes "runs_named deps w" "supervised input"
  shows "wp (transitionItem deps ob mint c input) (\<lambda>_. observing ob deps (ti_runId input) (ti_token input) w)
    (\<lambda>_. observing ob deps (ti_runId input) (ti_token input) w) w"
  unfolding transitionItem_def Let_def
  apply (rule wp_bind, rule wp_readRunLedger, rule wp_bind, rule wp_lift, rule wp_bind)
     apply (rule wp_mono [where E = "\<lambda>_. world_grows w" and Q = "\<lambda>identity w'. world_grows w w' \<and>
       (if ti_to input \<in> set REMOTE_PROVING_STATES
        then \<exists>i. identity = Some i \<and> seenBy ob (ti_itemId input) i \<and> identitySupportsState (ti_to input) i else identity = None)"])
       apply (intro wp_if wp_bind wp_seen wp_clock(1) wp_then wp_lift wp_return; auto simp: requireIdentity_Inr intro: world_grows_trans)
      apply (rule wp_bind, rule wp_runNow, rule wp_bind, rule wp_proveSiblings [where u = w])
         apply (rule transition_items [OF assms(2)], assumption, rule refl, erule conjunct2)
        apply (simp add: filed_ledger [OF assms(1)])
       apply (blast intro: world_grows_trans)
      apply (rule wp_prod, rule wp_then, rule wp_commit_observed [OF assms(1)], assumption+)
  by (((rule wp_then wp_return wp_runEvent) | (simp; fail) | (blast intro: grow_intros))+)

section \<open>The operations as ledger operations\<close>

lemma observed_step_file: "observed_step seen l next \<Longrightarrow> same_file l next"
  by (simp add: observed_step_def)

interpretation reconcile_run: ledger_operation deps "ri_runId input" "observed_step (seenBy ob)"
    "\<lambda>token. reconcile deps ob mint (input\<lparr>ri_token := token\<rparr>)" for deps ob mint and input :: ReconcileInput
  by unfold_locales (use wpD [OF wp_reconcile [of deps _ ob mint "input\<lparr>ri_token := _\<rparr>"]] observed_step_file in auto)

interpretation catch_up: ledger_operation deps "ri_runId input" "observed_step (seenBy ob)"
    "\<lambda>token. resumeRecoveryExhaustedTerminalCatchUp deps ob mint (input\<lparr>ri_token := token\<rparr>)" for deps ob mint and input :: ReconcileInput
  by unfold_locales (use wpD [OF wp_catchUp [of deps _ ob mint "input\<lparr>ri_token := _\<rparr>"]] observed_step_file in auto)

interpretation abandon_item: ledger_operation deps "ti_runId input" "observed_step (seenBy ob)"
    "\<lambda>token. transitionItem deps ob mint c (input\<lparr>ti_token := token, ti_to := Abandoned\<rparr>)" for deps ob mint c and input :: TransitionItemInput
  by unfold_locales
    (use wpD [OF wp_transitionItem [of deps _ "input\<lparr>ti_token := _, ti_to := Abandoned\<rparr>" ob mint c]] observed_step_file
      in \<open>auto simp: supervised_def\<close>)

interpretation ready_item: ledger_operation deps "ti_runId input" "observed_step (seenBy ob)"
    "\<lambda>token. transitionItem deps ob mint c (input\<lparr>ti_token := token, ti_to := Ready\<rparr>)" for deps ob mint c and input :: TransitionItemInput
  by unfold_locales
    (use wpD [OF wp_transitionItem [of deps _ "input\<lparr>ti_token := _, ti_to := Ready\<rparr>" ob mint c]] observed_step_file
      in \<open>auto simp: supervised_def\<close>)

section \<open>Remote states need live proof\<close>

text \<open>The identity was read after the call began, the clock was read after that, and by that clock the
  reading is neither from the future nor older than five minutes; and it shows the state that is asked for.\<close>

definition live_proof :: "LoopStoreDeps \<Rightarrow> ReconcileObserveDeps \<Rightarrow> nat \<Rightarrow> LoopItemState \<Rightarrow> LoopExternalIdentity \<Rightarrow> bool" where
  "live_proof d ob start s i \<longleftrightarrow> (\<exists>j k. start \<le> j \<and> j < k \<and> ei_observed_at i = Iso (ob_now ob j)
     \<and> ob_now ob j \<le> de_now d k \<and> de_now d k - ob_now ob j \<le> 300 * 1000) \<and> identitySupportsState s i"

definition gate_granted :: "LoopContract \<Rightarrow> LoopLedger \<Rightarrow> LoopItemState \<Rightarrow> string \<Rightarrow> bool" where
  "gate_granted c l s i \<longleftrightarrow> (\<forall>gate. STATE_TO_GATE s = Some gate
     \<longrightarrow> gate \<in> set (lc_authority_grants c) \<or> (\<exists>a. a \<in> set (amendmentsOf l) \<and> am_gate a = gate \<and> am_scope_item_id a = i))"

lemma authorized_gate:
  "authorizeGatedTransition grants l gate i e = Inr u
    \<Longrightarrow> gate \<in> set grants \<or> (\<exists>a. a \<in> set (amendmentsOf l) \<and> am_gate a = gate \<and> am_scope_item_id a = i)"
  by (auto simp: authorizeGatedTransition_def amendmentsOf_def upgradeLedgerForPauseAuthority_def list_ex_iff Let_def split: if_splits option.splits)

lemma wp_liveIdentity:
  assumes "\<And>i w'. live_proof d ob (w_calls (rw_store w)) (ti_to input) i \<Longrightarrow> gate_granted c l (ti_to input) (ti_itemId input) \<Longrightarrow> Q (Some i) w'"
    and "\<And>e w'. E e w'"
  shows "wp (io_bind (observeExternalIdentity ob (ti_itemId input) lop) (\<lambda>identity. io_bind (on_store (io_now d)) (\<lambda>nowMs.
    io_then (io_lift (requireIdentity d c input l nowMs identity)) (io_return (Some identity))))) Q E w"
proof (intro wp_bind wp_observeExternalIdentity wp_on_store wp_then wp_lift wp_return assms)
  fix i w1 nowMs s u
  assume i: "shown ob (ti_itemId input) (w_calls (rw_store w)) (w_calls (rw_store w1)) i" and t: "io_now d (rw_store w1) = (Inr nowMs, s)"
    and ok: "requireIdentity d c input l nowMs i = Inr u"
  from i obtain j where "w_calls (rw_store w) \<le> j" "j < w_calls (rw_store w1)" "ei_observed_at i = Iso (ob_now ob j)"
    by (auto simp: shown_def)
  moreover have "nowMs = de_now d (w_calls (rw_store w1))" using t by (simp add: io_now_def)
  ultimately show "live_proof d ob (w_calls (rw_store w)) (ti_to input) i"
    using ok unfolding live_proof_def by (force simp: requireIdentity_Inr freshAt_def NATIVE_GOAL_FRESHNESS_WINDOW_SECONDS_def)
  show "gate_granted c l (ti_to input) (ti_itemId input)"
    using ok by (auto simp: gate_granted_def requireIdentity_Inr dest: authorized_gate)
qed

lemma wp_freshProofs_live:
  "wp (freshProofs ob lop live identity nowMs list acc) (\<lambda>r _. pred_option (\<lambda>items. rec_get items live = rec_get acc live) r) E w"
proof (induction list arbitrary: acc w)
  case (Cons p list)
  obtain i entry where p: "p = (i, entry)" by fastforce
  have "wp (freshProofs ob lop live identity nowMs list (if i \<noteq> live then rec_put i x acc else acc))
      (\<lambda>r _. pred_option (\<lambda>items. rec_get items live = rec_get acc live) r) E v" for x v
    using Cons [of "rec_put i x acc" v] Cons [of acc v] by (cases "live = i") simp_all
  then show ?case
    unfolding p freshProofs.simps
    by (intro wp_bind [of "if _ then _ else _"] wp_if wp_return wp_catch wp_bind [of "observeExternalIdentity _ _ _"]
      wp_observeExternalIdentity wp_option) auto
qed (simp add: wp_return)

lemma wp_everySuccess_live:
  assumes "\<And>b l' w'. rec_get (ll_items l') live = rec_get (ll_items l) live \<Longrightarrow> amendmentsOf l' = amendmentsOf l \<Longrightarrow> Q (b, l') w'"
  shows "wp (everySuccessItemHasFreshLiveProof ob l live identity nowMs) Q E w"
proof -
  have "wp (freshProofs ob lop live identity nowMs list (ll_items l))
      (\<lambda>r. wp (io_return (case r of None \<Rightarrow> (False, l) | Some items \<Rightarrow> (True, l\<lparr>ll_items := items\<rparr>))) Q E) E w" for lop list
    by (rule wp_mono [OF wp_freshProofs_live]) (auto intro!: wp_return assms simp: amendmentsOf_def split: option.splits)
  then show ?thesis
    unfolding everySuccessItemHasFreshLiveProof_def by (auto intro!: wp_if wp_return wp_bind assms)
qed

lemma wp_transition_live:
  assumes "ti_to input \<in> set REMOTE_PROVING_STATES"
  shows "wp (transitionItem d ob mint c input) (\<lambda>l _. \<exists>item i. rec_get (ll_items l) (ti_itemId input) = Some item
      \<and> le_state item = ti_to input \<and> le_last_verified_identity item = Some i
      \<and> live_proof d ob (w_calls (rw_store w)) (ti_to input) i \<and> gate_granted c l (ti_to input) (ti_itemId input)) (\<lambda>_ _. True) w"
  unfolding transitionItem_def Let_def if_P [OF assms]
  apply (intro wp_bind [of "readRunLedger _ _"] wp_readRunLedger wp_bind [of "io_lift _"] wp_lift TrueI)
  apply (rule wp_bind, rule wp_liveIdentity)
   apply (rule wp_bind, rule wp_runNow, rule wp_bind, rule wp_if)
    apply (rule wp_bind, rule wp_clock(1), rule wp_everySuccess_live, rule wp_prod)
    apply (intro wp_then wp_writeRunLedger wp_runEvent wp_return TrueI)
    apply (auto simp: observedEntry_def gate_granted_def amendmentsOf_def)[1]
   apply (intro wp_then wp_writeRunLedger wp_runEvent wp_return wp_prod TrueI)
   apply (auto simp: observedEntry_def gate_granted_def amendmentsOf_def)
  done

lemma ledger_behind_iff:
  "classifyDrift s i bound = Some LedgerBehind
    \<longleftrightarrow> (\<not> remoteState s \<and> verifiedForwardTarget i \<noteq> None \<and> \<not> (s = Blocked \<and> verifiedForwardTarget i = Some PrOpened))
      \<or> (s = PrOpened \<or> s = Ready) \<and> verifiedForwardTarget i = Some Merged
      \<or> s = PrOpened \<and> ei_pr_state i = Some PrOpen \<and> ei_ready_label_present i"
  by (cases s) (auto simp: classifyDrift_def REMOTE_PROVING_STATES_def remoteState_def integratedState_def Let_def)

text \<open>Siblings that are observed after the time by which they are judged.\<close>

lemma shown_from_future:
  "shown ob itemId start stop x \<Longrightarrow> (\<And>k. start \<le> k \<Longrightarrow> nowMs < ob_now ob k) \<Longrightarrow> \<not> freshAt nowMs x"
  by (fastforce simp: shown_def freshAt_def)

lemma wp_freshProofs_stale:
  assumes "\<And>k. w_calls (rw_store w) \<le> k \<Longrightarrow> nowMs < ob_now ob k" "i \<noteq> live" "i \<in> fst ` set list"
  shows "wp (freshProofs ob lop live identity nowMs list acc) (\<lambda>r _. r = None) E w"
  using assms
proof (induction list arbitrary: acc w)
  case (Cons p list)
  obtain j entry where p: "p = (j, entry)" by fastforce
  have rest: "wp (freshProofs ob lop live identity nowMs list a) (\<lambda>r _. r = None) E w" if "j = live" for a
    using Cons p that by auto
  show ?case
  proof (cases "j = live \<and> identity \<noteq> None")
    case True
    then show ?thesis
      unfolding p freshProofs.simps using rest [of acc] by (auto intro!: wp_bind wp_return)
  next
    case False
    then show ?thesis
      unfolding p freshProofs.simps if_not_P [OF False]
      by (intro wp_bind [of "io_catch _ _"] wp_catch wp_bind [of "observeExternalIdentity _ _ _"] wp_observeExternalIdentity wp_return)
        (auto intro!: wp_return dest: shown_from_future [OF _ Cons.prems(1)])
  qed
qed simp

lemma wp_everySuccess_stale:
  assumes "\<And>k. w_calls (rw_store w) \<le> k \<Longrightarrow> nowMs < ob_now ob k" "i \<noteq> live" "i \<in> set (rec_keys (ll_items l))"
  shows "wp (everySuccessItemHasFreshLiveProof ob l live identity nowMs) (\<lambda>(proved, _) _. \<not> proved) E w"
proof -
  have "wp (freshProofs ob lop live identity nowMs (ll_items l) (ll_items l)) (\<lambda>r _. r = None) E w" for lop
    by (rule wp_freshProofs_stale [OF assms(1,2)]) (use assms(3) in \<open>auto simp: rec_keys_def\<close>)
  note none = wp_mono [OF this]
  show ?thesis
    unfolding everySuccessItemHasFreshLiveProof_def by (intro wp_if wp_return wp_bind none) simp_all
qed

text \<open>An item for the examples: issue 1 with an open pull request 7 that carries the ready label.\<close>

definition exampleSeam :: ReconcileObserveDeps where
  "exampleSeam = \<lparr>ob_getIssueStateAndLabels = (\<lambda>_ _. Inr (Some (True, [READY_LABEL]))), ob_findPrForIssue = (\<lambda>_ _. Inr (Some 7)),
     ob_listLinkedPrs = None,
     ob_getPrDetail = (\<lambda>_ _. Inr (Some \<lparr>pd_state = PrOpen, pd_head_ref = ''b'', pd_head_sha = ''c'', pd_merge_commit_sha = None, pd_body = None\<rparr>)),
     ob_getPrChecks = (\<lambda>_ _. Inr [''pass'']), ob_getPrCommits = None, ob_getPrArtifactBinding = None,
     ob_getLocalHead = (\<lambda>_ _. Inr None), ob_baseBranchContainsSha = (\<lambda>_ _. Inr None), ob_now = int\<rparr>"

definition exampleTransition :: TransitionItemInput where
  "exampleTransition = \<lparr>ti_runId = ''r'', ti_token = ''0'', ti_itemId = ''1'', ti_engine = Claude, ti_to = Ready, ti_note = None,
     ti_logicalOperationId = None, ti_observerProof = None\<rparr>"

definition twoItemRun :: RunWorld where
  "twoItemRun = \<lparr>rw_store = snd (acquireLock (exampleDeps 1) ''r'' Claude emptyWorld),
     rw_contracts = [(''/s/runs/r'', mkContract [mkItem ''1'' [] [], mkItem ''2'' [] []])],
     rw_ledgers = [(''/s/runs/r'', (mkLedger [mkEntry ''1'' InProgress, mkEntry ''2'' Ready])\<lparr>ll_run_id := ''r''\<rparr>)]\<rparr>"

text \<open>C4: a state that only the outside world can prove is entered through a transition only on live proof.
  When \<open>transitionItem\<close> returns for such a target, the item carries the target state together with an
  identity that the engine read itself after the call began, that supports the state, and that is not from
  the future and at most five minutes old by a clock reading taken after it; the gate of the state, if it
  has one, is granted by the contract or by a recorded amendment for this item; and the target is not
  released or deployed, which nothing the engine observes can prove.\<close>

theorem transition_needs_live_proof:
  assumes "ti_to input \<in> set REMOTE_PROVING_STATES" "transitionItem d ob mint c input w = (Inr l, w')"
  shows "\<exists>item i. rec_get (ll_items l) (ti_itemId input) = Some item \<and> le_state item = ti_to input
    \<and> le_last_verified_identity item = Some i \<and> live_proof d ob (w_calls (rw_store w)) (ti_to input) i
    \<and> gate_granted c l (ti_to input) (ti_itemId input) \<and> ti_to input \<notin> {Released, Deployed}"
proof -
  have "identitySupportsState s i \<Longrightarrow> s \<notin> {Released, Deployed}" for s i
    by (auto simp: identitySupportsState_def)
  with wp_success [OF wp_transition_live [OF assms(1)] assms(2)] show ?thesis
    unfolding live_proof_def by blast
qed

lemma example_transition:
  "\<exists>l w'. transitionItem (exampleDeps 1) exampleSeam ''m'' (mkContract [mkItem ''1'' [] [], mkItem ''2'' [] []]) exampleTransition twoItemRun = (Inr l, w')"
proof -
  have "\<not> isl (fst (transitionItem (exampleDeps 1) exampleSeam ''m'' (mkContract [mkItem ''1'' [] [], mkItem ''2'' [] []]) exampleTransition twoItemRun))"
    by code_simp
  then show ?thesis by (metis isl_def prod.collapse sum.collapse)
qed

theorem transition_needs_live_proof_witness:
  "\<exists>l w' i. transitionItem (exampleDeps 1) exampleSeam ''m'' (mkContract [mkItem ''1'' [] [], mkItem ''2'' [] []]) exampleTransition twoItemRun = (Inr l, w')
    \<and> live_proof (exampleDeps 1) exampleSeam (w_calls (rw_store twoItemRun)) Ready i"
proof -
  have "ti_to exampleTransition = Ready" by (simp add: exampleTransition_def)
  with transition_needs_live_proof [of exampleTransition "exampleDeps 1" exampleSeam "''m''"] example_transition show ?thesis
    by (fastforce simp: REMOTE_PROVING_STATES_def)
qed

text \<open>C26: when the clock moves on between two readings, no transition of a run with more than one item ever
  proves the postcondition of its logical operation: the freshness of the siblings is judged by a time that
  was read before they were observed, so that their observations come from the future and are refused.\<close>

theorem sibling_success_never_proved:
  assumes "\<And>j k. j < k \<Longrightarrow> de_now d j < ob_now ob k" "i \<noteq> live" "i \<in> set (rec_keys (ll_items l))"
    and "io_bind (on_store (io_now d)) (everySuccessItemHasFreshLiveProof ob l live identity) w = (Inr (proved, l'), w')"
  shows "\<not> proved"
proof -
  have "wp (io_bind (on_store (io_now d)) (everySuccessItemHasFreshLiveProof ob l live identity)) (\<lambda>(proved, _) _. \<not> proved) (\<lambda>_ _. True) w"
    by (intro wp_bind wp_on_store wp_everySuccess_stale [OF _ assms(2,3)]) (auto simp: io_now_def intro: assms(1))
  from wp_success [OF this assms(4)] show ?thesis by simp
qed

theorem sibling_success_never_proved_witness:
  "case io_bind (on_store (io_now (exampleDeps 1))) (everySuccessItemHasFreshLiveProof exampleSeam
      (mkLedger [mkEntry ''1'' Ready, mkEntry ''2'' Ready]) ''1'' None) twoItemRun of
     (Inr (proved, _), _) \<Rightarrow> \<not> proved | _ \<Rightarrow> False"
proof -
  let ?m = "io_bind (on_store (io_now (exampleDeps 1))) (everySuccessItemHasFreshLiveProof exampleSeam
      (mkLedger [mkEntry ''1'' Ready, mkEntry ''2'' Ready]) ''1'' None) twoItemRun"
  have "\<not> isl (fst ?m)" by code_simp
  then obtain proved l' w' where m: "?m = (Inr (proved, l'), w')" by (metis isl_def prod.collapse sum.collapse)
  have "\<not> proved"
    by (rule sibling_success_never_proved [OF _ _ _ m, of "''2''"])
      (auto simp: exampleDeps_def exampleSeam_def mkLedger_def mkEntry_def rec_keys_def)
  with m show ?thesis by simp
qed

text \<open>The two judgements on which a repair rests disagree in exactly one situation: the ledger says
  pr_opened, the pull request is open and carries the ready label, but its artifact does not identify the
  implementation. Then the drift is classified as repairable forward while no forward target exists, and the
  reconciliation pass of the whole run is aborted.\<close>

lemma ledger_behind_without_target:
  "classifyDrift s i bound = Some LedgerBehind \<and> verifiedForwardTarget i = None
    \<longleftrightarrow> s = PrOpened \<and> ei_pr_state i = Some PrOpen \<and> ei_ready_label_present i
      \<and> \<not> (ei_pr_number i \<noteq> None \<and> exactImplementation i)"
  unfolding ledger_behind_iff by (auto simp: remoteState_def verifiedForwardTarget_def split: if_splits)

section \<open>One pass settles\<close>

text \<open>After a repair the identity it was made on shows no drift, unless the checkout itself disagrees.\<close>

definition settled :: "LoopExternalIdentity \<Rightarrow> LoopItemLedgerEntry \<Rightarrow> bool" where
  "settled i entry \<longleftrightarrow> classifyDrift (le_state entry) i (le_last_verified_identity entry) = None
     \<and> \<not> ((le_state entry = PrOpened \<or> le_state entry = Implemented) \<and> isAdvanceStillNeeded i)"

lemma no_regress [simp]: "\<not> checksRegressed (Some i) i"
  by (simp add: checksRegressed_def)

lemma settled_local:
  assumes "\<not> remoteState s" "verifiedForwardTarget i = None \<or> s = Blocked \<and> verifiedForwardTarget i = Some PrOpened"
    "\<not> localRemoteIdentityDrift i (Some i)"
  shows "classifyDrift s i (Some i) = None"
  using assms remoteState_iff [of s] by (auto simp: classifyDrift_def)

lemma advance_no_target: "isAdvanceStillNeeded i \<Longrightarrow> verifiedForwardTarget i = None"
  by (auto simp: isAdvanceStillNeeded_def verifiedForwardTarget_def split: if_splits)

lemma settled_target:
  assumes "verifiedForwardTarget i = Some t" "\<not> localRemoteIdentityDrift i (Some i)" "ei_pr_number i = None \<longleftrightarrow> ei_pr_state i = None"
  shows "classifyDrift t i (Some i) = None"
proof -
  consider "t = Merged" "ei_pr_state i = Some PrMerged" | "t = Ready" "ei_pr_state i = Some PrOpen" "ei_ready_label_present i"
    | "t = PrOpened" "ei_pr_state i = Some PrOpen" "\<not> ei_ready_label_present i"
    using assms(1) by (auto simp: verifiedForwardTarget_def split: if_splits)
  then show ?thesis
    by cases (use assms in \<open>auto simp: classifyDrift_def REMOTE_PROVING_STATES_def integratedState_def\<close>)
qed

lemma settled_reconstructed:
  assumes "classifyDrift s i b \<in> {Some LedgerAhead, Some ExternalAbsent, Some IdentityMismatch}" "\<not> localRemoteIdentityDrift i (Some i)"
    "ei_pr_number i = None \<longleftrightarrow> ei_pr_state i = None" "s' = reconstructedLocalState i s"
  shows "classifyDrift s' i (Some i) = None \<and> \<not> ((s' = PrOpened \<or> s' = Implemented) \<and> isAdvanceStillNeeded i)"
proof (cases "s = Waiting \<or> s = Paused \<or> s = Blocked")
  case True
  then have "s = Blocked \<and> verifiedForwardTarget i = Some PrOpened \<or> verifiedForwardTarget i = None"
    using assms(1) by (auto simp: classifyDrift_def REMOTE_PROVING_STATES_def Let_def split: if_splits)
  moreover have "s' = s" "\<not> remoteState s" using True assms(4) by (auto simp: reconstructedLocalState_def remoteState_def)
  ultimately show ?thesis using True settled_local [of s i] assms(2) by auto
next
  case False
  then show ?thesis
  proof (cases "verifiedForwardTarget i")
    case (Some t)
    then have "s' = t" using False assms(4) by (simp add: reconstructedLocalState_def)
    with Some settled_target [OF Some assms(2,3)] advance_no_target [of i] show ?thesis by auto
  next
    case None
    then have "\<not> remoteState s'" "s' = Implemented \<longrightarrow> \<not> isAdvanceStillNeeded i"
      using False assms(4)
      by (auto simp: reconstructedLocalState_def remoteState_def REMOTE_PROVING_STATES_def isAdvanceStillNeeded_def split: if_splits)
    with None settled_local [of s' i] assms(2) show ?thesis by (auto simp: remoteState_def)
  qed
qed

lemma settled_again:
  assumes "classifyDrift s i b = None" "\<not> localRemoteIdentityDrift i (Some i)"
  shows "classifyDrift s i (Some i) = None"
  using assms
  by (cases s) (auto simp: classifyDrift_def REMOTE_PROVING_STATES_def integratedState_def Let_def split: if_splits)

lemma settled_entries:
  assumes "shown ob itemId start stop i" "\<not> localRemoteIdentityDrift i (Some i)"
  shows "verifiedForwardTarget i = Some t \<Longrightarrow> settled i (observedEntry time t engine msg (Some i) entry)"
    and "classifyDrift (le_state entry) i b \<in> {Some LedgerAhead, Some ExternalAbsent, Some IdentityMismatch}
      \<Longrightarrow> settled i (reconstructedEntry time (reconstructedLocalState i (le_state entry)) engine msg i entry)"
    and "isAdvanceStillNeeded i \<Longrightarrow> settled i (reconstructedEntry time InProgress engine msg i entry)"
    and "settled i entry \<Longrightarrow> settled i (entry\<lparr>le_last_verified_identity := Some i\<rparr>)"
proof -
  have n: "ei_pr_number i = None \<longleftrightarrow> ei_pr_state i = None" using assms(1) by (simp add: shown_def)
  show "settled i (observedEntry time t engine msg (Some i) entry)" if "verifiedForwardTarget i = Some t"
    using settled_target [OF that assms(2) n] advance_no_target [of i] that by (auto simp: settled_def observedEntry_def)
  show "settled i (reconstructedEntry time (reconstructedLocalState i (le_state entry)) engine msg i entry)"
    if "classifyDrift (le_state entry) i b \<in> {Some LedgerAhead, Some ExternalAbsent, Some IdentityMismatch}"
    using settled_reconstructed [OF that assms(2) n refl] by (simp add: settled_def reconstructedEntry_def observedEntry_def)
  show "settled i (reconstructedEntry time InProgress engine msg i entry)" if "isAdvanceStillNeeded i"
    using settled_local [of InProgress i] advance_no_target [OF that] assms(2)
    by (simp add: settled_def reconstructedEntry_def observedEntry_def remoteState_def)
  show "settled i entry \<Longrightarrow> settled i (entry\<lparr>le_last_verified_identity := Some i\<rparr>)"
    using settled_again assms(2) by (auto simp: settled_def)
qed

text \<open>C9: one pass settles an item. When the pass returns, a second look at the same identity finds nothing
  left to repair: no drift, and no item that waits to be dispatched again. The exceptions are a checkout
  that itself disagrees with the identity (a rebase in progress, or a local head that is not the pull
  request's), which no ledger change can repair, and regressed checks, which are left to the next action.\<close>

theorem reconcile_settles_item:
  assumes "reconcileItem deps ob input lop k entry s w = (Inr s', w')" "rec_get (rs_items s) k = Some entry"
  shows "\<exists>i entry'. rec_get (rs_observed s') k = Some i \<and> rec_get (rs_items s') k = Some entry'
    \<and> (settled i entry' \<or> localRemoteIdentityDrift i (Some i)
      \<or> classifyDrift (le_state entry) i (le_last_verified_identity entry) = Some ChecksRegressed)"
proof -
  let ?Q = "\<lambda>s' _. \<exists>i entry'. rec_get (rs_observed s') k = Some i \<and> rec_get (rs_items s') k = Some entry'
    \<and> (settled i entry' \<or> localRemoteIdentityDrift i (Some i)
      \<or> classifyDrift (le_state entry) i (le_last_verified_identity entry) = Some ChecksRegressed)"
  have "wp (reconcileItem deps ob input lop k entry s) ?Q (\<lambda>_ _. True) w"
    unfolding reconcileItem_def Let_def changedItem_def
    by (intro wp_bind [of "observeExternalIdentity _ _ _"] wp_bind [of "runNow _"] wp_observeExternalIdentity wp_if wp_option
        wp_runNow wp_return wp_throw TrueI)
      (use assms(2) in \<open>auto intro: settled_entries simp: settled_def [of _ entry]\<close>, (metis LoopDriftClass.exhaust)+)
  from wp_success [OF this assms(1)] show ?thesis .
qed


theorem reconcile_settles_item_witness:
  "\<exists>s' w' i entry'. reconcileItem (exampleDeps 1) exampleSeam \<lparr>ri_runId = ''r'', ri_token = ''0'', ri_engine = Claude\<rparr> None ''1''
      (mkEntry ''1'' Ready) \<lparr>rs_observed = [], rs_drift = [], rs_items = [(''1'', mkEntry ''1'' Ready)], rs_itemStateChanged = False,
        rs_observerProved = False\<rparr> twoItemRun = (Inr s', w')
    \<and> rec_get (rs_observed s') ''1'' = Some i \<and> rec_get (rs_items s') ''1'' = Some entry'
    \<and> (settled i entry' \<or> localRemoteIdentityDrift i (Some i) \<or> classifyDrift Ready i None = Some ChecksRegressed)"
proof -
  let ?m = "reconcileItem (exampleDeps 1) exampleSeam \<lparr>ri_runId = ''r'', ri_token = ''0'', ri_engine = Claude\<rparr> None ''1''
      (mkEntry ''1'' Ready) \<lparr>rs_observed = [], rs_drift = [], rs_items = [(''1'', mkEntry ''1'' Ready)], rs_itemStateChanged = False,
        rs_observerProved = False\<rparr> twoItemRun"
  have "\<not> isl (fst ?m)" by code_simp
  then obtain s' w' where m: "?m = (Inr s', w')" by (metis isl_def prod.collapse sum.collapse)
  have "rec_get [(''1'', mkEntry ''1'' Ready)] ''1'' = Some (mkEntry ''1'' Ready)" by (simp add: rec_get_def)
  with reconcile_settles_item [OF m] m show ?thesis by (simp add: mkEntry_def)
qed

end
