(* ===== verification/Run_Fatal.thy ===== *)
theory Run_Fatal
  imports Reconcile_Laws
begin

text \<open>
  Resuming a run that stopped as fatal, \<open>core/scripts/loop/run-fatal-resume.ts\<close>: which contract items are
  still valid work by a live observation, when the stop may be superseded, and the write that clears it.
  \<open>supersedeRunFatalStop\<close> interprets \<open>ledger_operation\<close>: it clears the stop and nothing else.
\<close>

section \<open>Outstanding items\<close>

definition LOOP_RUN_FATAL_SUPERSEDED :: string where
  "LOOP_RUN_FATAL_SUPERSEDED = ''loop_run_fatal_superseded''"








section \<open>Evaluation and supersession\<close>




definition stopSuffix :: "LoopStopRecord option \<Rightarrow> string" where
  "stopSuffix stop = (case stop of None \<Rightarrow> [] | Some s \<Rightarrow> '' (stop.reason='' @ stopReasonName (st_reason s) @ '')'')"

definition requireRunFatal :: "string \<Rightarrow> string \<Rightarrow> LoopLedger \<Rightarrow> LoopStopRecord result" where
  "requireRunFatal runId purpose ledger =
     (case ll_stop ledger of
        Some s \<Rightarrow> if st_reason s = RunFatal then Inr s
          else Inl (LoopError Validation (''loop run '' @ quoted runId @ '' has no run_fatal stop to '' @ purpose @ stopSuffix (Some s)))
      | None \<Rightarrow> Inl (LoopError Validation (''loop run '' @ quoted runId @ '' has no run_fatal stop to '' @ purpose)))"


definition formatRunFatalResumeRefusal :: "LoopStoreDeps \<Rightarrow> string \<Rightarrow> LoopStopRecord \<Rightarrow> string option \<Rightarrow> string" where
  "formatRunFatalResumeRefusal deps runId stop observeError =
     (let details = (if truthy (st_theme stop) then [''theme='' @ the (st_theme stop)] else [])
            @ (if truthy (st_item_id stop) then [''item_id='' @ the (st_item_id stop)] else []);
          detailSuffix = (if details \<noteq> [] then '' ('' @ js_join '', '' details @ '')'' else []);
          why = (if truthy observeError then ''live observation failed ('' @ the observeError @ ''); refusing to re-drive''
            else ''no valid outstanding item remains'')
      in ''loop run '' @ quoted runId @ '' is stopped with run_fatal at '' @ showTimestamp deps (st_time stop) @ detailSuffix @ ''; ''
         @ why @ ''. Inspect with `pipeline loop --resume '' @ runId
         @ '' --audit`. Start a replacement with `pipeline loop --new-run` for the same selector.'')"

definition supersedeRunFatalStop :: "LoopStoreDeps \<Rightarrow> string \<Rightarrow> string \<Rightarrow> LoopStopRecord run_io" where
  "supersedeRunFatalStop deps runId token =
     io_bind (readRunLedger deps runId) (\<lambda>ledger.
     io_bind (io_lift (requireRunFatal runId ''supersede'' ledger)) (\<lambda>prior.
       io_then (writeRunLedger deps (ledger\<lparr>ll_stop := None\<rparr>) token)
         (io_then (runEvent deps runId token LOOP_RUN_FATAL_SUPERSEDED (DataObj (JObj
            [(''reason'', JStr (stopReasonName (st_reason prior))), (''time'', JStr (showTimestamp deps (st_time prior))),
             (''theme'', case st_theme prior of None \<Rightarrow> JNull | Some t \<Rightarrow> JStr t),
             (''item_id'', case st_item_id prior of None \<Rightarrow> JNull | Some i \<Rightarrow> JStr i),
             (''outstanding_ready'', JArr (map JStr (st_outstanding_ready prior)))])))
         (io_return prior))))"

section \<open>Superseding clears the stop and nothing else\<close>

definition supersede_step :: "LoopLedger \<Rightarrow> LoopLedger \<Rightarrow> bool" where
  "supersede_step l next \<longleftrightarrow> map_option st_reason (ll_stop l) = Some RunFatal \<and> next = l\<lparr>ll_stop := None\<rparr>"

lemma requireRunFatal_Inr: "requireRunFatal runId purpose l = Inr s \<longleftrightarrow> ll_stop l = Some s \<and> st_reason s = RunFatal"
  by (auto simp: requireRunFatal_def split: option.splits)

lemma supersede_step_keeps:
  assumes "supersede_step l next"
  shows "ledger_spec moves l next" "ledger_wf l \<Longrightarrow> ledger_wf next" "same_file l next" "amendmentsOf next = amendmentsOf l"
  using assms
  by (auto simp: supersede_step_def ledger_wf_def same_file_def amendmentsOf_def attemptsOf_def intro!: ledger_spec_of_same same_items_fields)

lemma wp_supersede:
  assumes "runs_named deps w"
  shows "wp (supersedeRunFatalStop deps runId token) (\<lambda>_. conforms supersede_step deps runId token w)
    (\<lambda>_. conforms supersede_step deps runId token w) w"
  unfolding supersedeRunFatalStop_def
  by (intro wp_bind wp_lift wp_readRunLedger wp_then wp_commit [where step = supersede_step, OF assms] wp_runEvent wp_return)
    (assumption | simp add: requireRunFatal_Inr supersede_step_def; fail | blast intro: grow_intros)+

interpretation supersede_stop: ledger_operation deps runId supersede_step "supersedeRunFatalStop deps runId" for deps runId
  by unfold_locales (use wpD [OF wp_supersede] supersede_step_keeps(3) in auto)

section \<open>Only live work is driven again\<close>











end
