(* ===== verification/Loop_Engine.thy ===== *)
theory Loop_Engine
  imports Recovery_Claims Pause_Laws Run_Fatal
begin

text \<open>
  Runs under all mutating operations of the modelled engine, by any number of processes in any order:
  the operations of \<open>Recovery\<close>, \<open>Pause\<close>, \<open>Reconcile\<close> and \<open>Run_Fatal\<close> and the lock operations of the store are the steps of one
  system. The lemmas lift what each operation promises through the interface \<open>ledger_operation\<close> to
  every reachable state: ledgers stay well formed, every change refines the abstract item machine,
  nobody changes a ledger without the lock, and no authority is granted without its audit entry.
\<close>

section \<open>The system\<close>

text \<open>An operation on a ledger, called by the process \<open>d\<close> for a run with a token, with any arguments; only
  \<open>transitionItem\<close> is restricted to the targets its callers in the supervisor pass, abandoned and ready.\<close>

inductive mutation :: "ReconcileObserveDeps \<Rightarrow> LoopStoreDeps \<Rightarrow> string \<Rightarrow> string \<Rightarrow> RunWorld \<Rightarrow> RunWorld \<Rightarrow> bool" for ob d where
  block: "mutation ob d (bi_runId i) (bi_token i) w (snd (blockItem d mint c i w))"
| classify: "mutation ob d (bi_runId i) (bi_token i) w (snd (classifyAndBlockItem d mint c i cands w))"
| start: "mutation ob d (sa_runId s) (sa_token s) w (snd (startRecoveryAttempt d mint c s w))"
| complete: "mutation ob d (ca_runId f) (ca_token f) w (snd (completeRecoveryAttempt d mint showNum c f w))"
| recover: "mutation ob d (rv_runId r) (rv_token r) w (snd (recoverItem d mint showNum c r w))"
| cool: "mutation ob d runId token w (snd (persistOwnedCooling d runId token cooling w))"
| pause: "mutation ob d (eh_runId h) (eh_token h) w (snd (pauseItem d mint h w))"
| wait: "mutation ob d (eh_runId h) (eh_token h) w (snd (waitItem str d mint h req w))"
| invalidate: "mutation ob d (eh_runId h) (eh_token h) w
    (snd (invalidateIncompleteHoldForReclassify d mint h actor requestId w))"
| abandon: "mutation ob d (eh_runId h) (eh_token h) w (snd (abandonHold d h w))"
| resume: "mutation ob d (eh_runId (q :: ResumeHoldInput)) (eh_token q) w (snd (resumeHold str d mint q w))"
| amend: "mutation ob d (rm_runId m) (rm_token m) w (snd (recordAuthorityAmendment str d m w))"
| reconcile: "mutation ob d (ri_runId i) (ri_token i) w (snd (reconcile d ob mint i w))"
| catch_up: "mutation ob d (ri_runId i) (ri_token i) w (snd (resumeRecoveryExhaustedTerminalCatchUp d ob mint i w))"
| transition: "supervised t \<Longrightarrow> mutation ob d (ti_runId t) (ti_token t) w (snd (transitionItem d ob mint c t w))"
| supersede: "mutation ob d runId token w (snd (supersedeRunFatalStop d runId token w))"

text \<open>Lock operations and log appends: the ledgers stay as they are.\<close>

inductive lock_move :: "LoopStoreDeps \<Rightarrow> RunWorld \<Rightarrow> RunWorld \<Rightarrow> bool" for d where
  acquire: "lock_move d w (snd (on_store (acquireLock d runId engine) w))"
| release: "lock_move d w (snd (on_store (releaseLock d runId token) w))"
| recover: "lock_move d w (snd (on_store (recoverLock d runId reason force) w))"
| event: "lock_move d w (snd (on_store (appendEvent d runId token kind data) w))"
| decision: "lock_move d w (snd (on_store (appendDecision d runId token kind data) w))"
| handoff: "lock_move d w (snd (handoffRun d h w))"

text \<open>Processes of one installation share the state home and the hash function.\<close>

definition engine_of :: "string \<Rightarrow> (string \<Rightarrow> string) \<Rightarrow> LoopStoreDeps \<Rightarrow> bool" where
  "engine_of home sha d \<longleftrightarrow> resolveStateHome d = home \<and> de_sha256 d = sha"

inductive run_step :: "string \<Rightarrow> (string \<Rightarrow> string) \<Rightarrow> ReconcileObserveDeps \<Rightarrow> RunWorld \<Rightarrow> RunWorld \<Rightarrow> bool" for home sha ob where
  mutate: "engine_of home sha d \<Longrightarrow> mutation ob d runId token w w' \<Longrightarrow> run_step home sha ob w w'"
| lock: "engine_of home sha d \<Longrightarrow> lock_move d w w' \<Longrightarrow> run_step home sha ob w w'"

definition quiet_step :: "ReconcileObserveDeps \<Rightarrow> (string \<Rightarrow> string) \<Rightarrow> LoopLedger \<Rightarrow> LoopLedger \<Rightarrow> bool" where
  "quiet_step ob sha l next \<longleftrightarrow> recovery_step sha l next \<or> hold_step l next \<or> observed_step (seenBy ob) l next \<or> supersede_step l next"

definition any_step :: "ReconcileObserveDeps \<Rightarrow> (string \<Rightarrow> string) \<Rightarrow> LoopLedger \<Rightarrow> LoopLedger \<Rightarrow> bool" where
  "any_step ob sha l next \<longleftrightarrow> quiet_step ob sha l next \<or> amend_step l next"

lemma runDir_home: "resolveStateHome d = resolveStateHome e \<Longrightarrow> runDir d r = runDir e r"
  unfolding runDir_def by (erule ssubst) (rule refl)

lemma runs_named_home: "resolveStateHome d = resolveStateHome e \<Longrightarrow> runs_named d w = runs_named e w"
  using runDir_home [of d e] by (simp add: runs_named_def)

lemma advances_mono:
  assumes "advances step d runId w w'" "\<And>a b. step a b \<Longrightarrow> step' a b"
  shows "advances step' d runId w w'"
proof -
  have "(stored_step d pol step)\<^sup>*\<^sup>* \<le> (stored_step d pol step')\<^sup>*\<^sup>*" for pol
    by (intro rtranclp_mono predicate2I) (auto simp: stored_step_def intro: assms(2))
  then have "rel_option (stored_step d pol step')\<^sup>*\<^sup>* x y" if "rel_option (stored_step d pol step)\<^sup>*\<^sup>* x y" for pol x y
    using option.rel_mono that by blast
  then show ?thesis using assms(1) unfolding advances_def by presburger
qed

lemma conforms_mono:
  "conforms step d runId token w w' \<Longrightarrow> (\<And>a b. step a b \<Longrightarrow> step' a b) \<Longrightarrow> conforms step' d runId token w w'"
  unfolding conforms_def using advances_mono by blast

lemma quiet_conforms:
  "conforms (recovery_step (de_sha256 d)) d runId token w w' \<Longrightarrow> conforms (quiet_step ob (de_sha256 d)) d runId token w w'"
  "conforms hold_step d runId token w w' \<Longrightarrow> conforms (quiet_step ob (de_sha256 d)) d runId token w w'"
  "conforms (observed_step (seenBy ob)) d runId token w w' \<Longrightarrow> conforms (quiet_step ob (de_sha256 d)) d runId token w w'"
  "conforms supersede_step d runId token w w' \<Longrightarrow> conforms (quiet_step ob (de_sha256 d)) d runId token w w'"
  by (erule conforms_mono; simp add: quiet_step_def)+

lemma wp_classifyAndBlockItem:
  assumes "runs_named d w"
  shows "wp (classifyAndBlockItem d mint c i cands) (\<lambda>_. conforming d (bi_runId i) (bi_token i) w)
    (\<lambda>_. conforming d (bi_runId i) (bi_token i) w) w"
proof -
  have "wp (blockItem d mint c j) (\<lambda>_. conforming d (bi_runId i) (bi_token i) w)
      (\<lambda>_. conforming d (bi_runId i) (bi_token i) w) w" if "bi_runId j = bi_runId i" "bi_token j = bi_token i" for j
    using wp_blockItem [OF assms, of mint c j] that by simp
  then show ?thesis by (simp add: classifyAndBlockItem_def split: sum.splits)
qed

lemmas wp_quiet = wp_blockItem wp_classifyAndBlockItem wp_startRecoveryAttempt wp_completeRecoveryAttempt wp_recoverItem
  wp_persistOwnedCooling wp_pauseItem wp_waitItem wp_invalidate wp_abandonHold wp_resumeHold wp_reconcile
  wp_catchUp wp_supersede

lemma mutation_cases:
  assumes "mutation ob d runId token w w'" "runs_named d w"
  shows "conforms (quiet_step ob (de_sha256 d)) d runId token w w'
    \<or> (\<exists>str m. w' = snd (recordAuthorityAmendment str d m w) \<and> runId = rm_runId m \<and> token = rm_token m)"
  using assms
proof (induction rule: mutation.induct)
  case (amend m w str)
  show ?case by blast
next
  case (transition t w mint c)
  then show ?case using quiet_conforms(3) wpD [OF wp_transitionItem] by blast
qed (rule disjI1, rule quiet_conforms, rule wpD, rule wp_quiet, assumption)+

lemma mutation_conforms:
  assumes "mutation ob d runId token w w'" "runs_named d w"
  shows "conforms (any_step ob (de_sha256 d)) d runId token w w'"
  using mutation_cases [OF assms]
proof (elim disjE exE conjE)
  fix str m assume "w' = snd (recordAuthorityAmendment str d m w)" "runId = rm_runId m" "token = rm_token m"
  then show ?thesis
    using conforms_mono [OF wpD [OF wp_recordAuthorityAmendment [OF assms(2), of str m]], of "any_step ob (de_sha256 d)"]
    by (simp add: any_step_def)
qed (rule conforms_mono, assumption, simp add: any_step_def)

lemma lock_move_ledgers:
  assumes "lock_move d w w'"
  shows "rw_ledgers w' = rw_ledgers w" "rw_contracts w' = rw_contracts w"
proof -
  have "wp (handoffRun d h) (\<lambda>_ w'. rw_ledgers w' = rw_ledgers w \<and> rw_contracts w' = rw_contracts w)
      (\<lambda>_ w'. rw_ledgers w' = rw_ledgers w \<and> rw_contracts w' = rw_contracts w) w" for h w
    unfolding handoffRun_def by (intro wp_intros wp_on_store) (auto simp: world_grows_def)
  note handoff = wpD [OF this]
  have "rw_ledgers w' = rw_ledgers w \<and> rw_contracts w' = rw_contracts w"
    using assms by (induction rule: lock_move.induct) (simp_all add: handoff on_store_def split: prod.splits)
  then show "rw_ledgers w' = rw_ledgers w" "rw_contracts w' = rw_contracts w" by simp_all
qed

lemma run_step_ledger:
  assumes "run_step home sha ob w w'" "engine_of home sha d" "runs_named d w" "map_of (rw_ledgers w') dir = Some b"
  shows "\<exists>a. map_of (rw_ledgers w) dir = Some a \<and> (stored_step d (runPolicy w dir) (any_step ob sha))\<^sup>*\<^sup>* a b"
  using assms(1)
proof cases
  case (mutate e runId token)
  have home: "resolveStateHome e = resolveStateHome d" and sha: "de_sha256 e = sha" "de_sha256 d = sha"
    using mutate(1) assms(2) by (simp_all add: engine_of_def)
  have "advances (any_step ob sha) e runId w w'"
    using mutation_conforms [OF mutate(2)] runs_named_home [OF home] assms(3) sha by (simp add: conforms_def)
  from advances_ledger [OF this assms(4)] show ?thesis using sha by (simp add: stored_step_def [abs_def])
next
  case (lock e)
  then show ?thesis using assms(4) lock_move_ledgers by force
qed

lemma run_step_contracts: "run_step home sha ob w w' \<Longrightarrow> engine_of home sha d \<Longrightarrow> runs_named d w \<Longrightarrow> rw_contracts w' = rw_contracts w"
proof (induction rule: run_step.induct)
  case (mutate e runId token w w')
  then have "runs_named e w" using runs_named_home [of e d] by (simp add: engine_of_def)
  from mutation_conforms [OF mutate(2) this] show ?case by (simp add: conforms_def advances_def)
qed (rule lock_move_ledgers)

lemma any_step_file: "any_step ob sha l next \<Longrightarrow> same_file l next"
  unfolding any_step_def quiet_step_def
  using recovery_step_file hold_step_file observed_step_file supersede_step_keeps(3) ledger_spec_file [OF amend_step_keeps(1)] by blast

lemma engine_steps_file: "(stored_step d pol (any_step ob sha))\<^sup>*\<^sup>* a b \<Longrightarrow> same_file a b"
  by (erule stored_steps_same_file) (rule any_step_file)

lemma run_step_named: "run_step home sha ob w w' \<Longrightarrow> engine_of home sha d \<Longrightarrow> runs_named d w \<Longrightarrow> runs_named d w'"
  unfolding runs_named_def
proof (intro allI impI)
  fix dir b assume *: "run_step home sha ob w w'" "engine_of home sha d"
    "\<forall>dir l. map_of (rw_ledgers w) dir = Some l \<longrightarrow> runDir d (ll_run_id l) = Inr dir \<and> rec_wf (ll_items l)"
    "map_of (rw_ledgers w') dir = Some b"
  then obtain a where a: "map_of (rw_ledgers w) dir = Some a" "(stored_step d (runPolicy w dir) (any_step ob sha))\<^sup>*\<^sup>* a b"
    using run_step_ledger [of home sha ob w w' d dir b] by (auto simp: runs_named_def)
  with *(3) engine_steps_file [OF a(2)] show "runDir d (ll_run_id b) = Inr dir \<and> rec_wf (ll_items b)"
    by (auto simp: same_file_def rec_wf_def)
qed

text \<open>The steps of any run of the system, seen from one directory.\<close>

lemma run_steps_ledger:
  assumes "(run_step home sha ob)\<^sup>*\<^sup>* w w'" "engine_of home sha d" "runs_named d w" "map_of (rw_ledgers w') dir = Some b"
  shows "\<exists>a. map_of (rw_ledgers w) dir = Some a \<and> (stored_step d (runPolicy w dir) (any_step ob sha))\<^sup>*\<^sup>* a b"
  using assms(1,4)
proof (induction arbitrary: b rule: rtranclp_induct)
  case (step u v)
  have named: "runs_named d u \<and> rw_contracts u = rw_contracts w"
    using step.hyps(1)
  proof (induction rule: rtranclp_induct)
    case (step y z)
    then show ?case using run_step_named run_step_contracts assms(2) by metis
  qed (use assms(3) in simp)
  from run_step_ledger [OF step.hyps(2) assms(2) conjunct1 [OF named] step.prems] obtain m
    where m: "map_of (rw_ledgers u) dir = Some m" "(stored_step d (runPolicy u dir) (any_step ob sha))\<^sup>*\<^sup>* m b" by blast
  from step.IH [OF m(1)] m(2) named show ?case by (auto simp: runPolicy_def)
qed blast

section \<open>What every run keeps\<close>

definition ALL_MOVES :: moves where
  "ALL_MOVES = RECOVERY_MOVES \<union> HOLD_MOVES \<union> OBSERVED_MOVES"

lemma any_step_spec: "any_step ob sha l next \<Longrightarrow> (ledger_spec ALL_MOVES)\<^sup>*\<^sup>* l next"
proof -
  have "(ledger_spec ALL_MOVES)\<^sup>*\<^sup>* l next" if "ledger_spec moves l next" "moves \<subseteq> ALL_MOVES" for moves
    using ledger_spec_mono [OF that] by blast
  moreover have "(ledger_spec ALL_MOVES)\<^sup>*\<^sup>* l next" if "(ledger_spec OBSERVED_MOVES)\<^sup>*\<^sup>* l next"
    using that by (rule rtranclp_mono [THEN predicate2D, rotated]) (auto intro: ledger_spec_mono simp: ALL_MOVES_def)
  moreover have "RECOVERY_MOVES \<subseteq> ALL_MOVES" "HOLD_MOVES \<subseteq> ALL_MOVES" by (auto simp: ALL_MOVES_def)
  ultimately show "any_step ob sha l next \<Longrightarrow> ?thesis"
    unfolding any_step_def quiet_step_def
    using recovery_step_spec hold_step_spec amend_step_keeps(1) observed_step_spec supersede_step_keeps(1) by blast
qed

lemma any_step_wf: "any_step ob sha l next \<Longrightarrow> ledger_wf l \<Longrightarrow> ledger_wf next"
  unfolding any_step_def quiet_step_def
  using recovery_step_wf hold_step_wf amend_step_keeps(2) observed_step_wf supersede_step_keeps(2) by blast

lemma stored_step_spec: "stored_step d pol (any_step ob sha) a b \<Longrightarrow> (ledger_spec ALL_MOVES)\<^sup>*\<^sup>* a b"
  unfolding stored_step_def
  by (meson any_step_spec ledger_spec_of_same normalize_same r_into_rtranclp rtranclp_trans)

lemma stored_step_wf: "stored_step d pol (any_step ob sha) a b \<Longrightarrow> ledger_wf a \<Longrightarrow> ledger_wf b"
  unfolding stored_step_def using any_step_wf wf_normalize by blast

text \<open>A walk of an item through the machine, as its history records it.\<close>

fun walk :: "moves \<Rightarrow> LoopItemState \<Rightarrow> LoopHistoryEntry list \<Rightarrow> LoopItemState \<Rightarrow> bool" where
  "walk moves s [] t \<longleftrightarrow> s = t"
| "walk moves s (h # hs) t \<longleftrightarrow> he_from h = s \<and> (s, he_to h) \<in> moves \<and> walk moves (he_to h) hs t"

lemma walk_snoc: "walk moves s hs t \<Longrightarrow> (t, he_to h) \<in> moves \<Longrightarrow> he_from h = t \<Longrightarrow> walk moves s (hs @ [h]) (he_to h)"
  by (induction moves s hs t rule: walk.induct) auto

lemma spec_walk:
  assumes "(ledger_spec moves)\<^sup>*\<^sup>* a b" "rec_get (ll_items a) i = Some item"
  shows "\<exists>item' new. rec_get (ll_items b) i = Some item' \<and> le_history item' = le_history item @ new
    \<and> walk moves (le_state item) new (le_state item')"
  using assms(1)
proof (induction rule: rtranclp_induct)
  case (step b c)
  then obtain item' new where b: "rec_get (ll_items b) i = Some item'" "le_history item' = le_history item @ new"
    "walk moves (le_state item) new (le_state item')" by blast
  from step.hyps(2) b(1) obtain item'' where c: "rec_get (ll_items c) i = Some item''" "item_spec moves item' item''"
    unfolding ledger_spec_def by (metis option.rel_cases option.distinct(1) option.inject)
  then consider "le_state item'' = le_state item'" "le_history item'' = le_history item'"
    | h where "(le_state item', le_state item'') \<in> moves" "le_history item'' = le_history item' @ [h]"
        "he_from h = le_state item'" "he_to h = le_state item''"
    unfolding item_spec_def by blast
  then show ?case
  proof cases
    case 1
    with b c(1) show ?thesis by auto
  next
    case 2
    with b c(1) walk_snoc [OF b(3), of h] show ?thesis by (intro exI [of _ item''] exI [of _ "new @ [h]"]) auto
  qed
qed (use assms(2) in auto)

text \<open>A run for the examples: one item in progress, the lock held by the first engine.\<close>

definition exampleRun :: RunWorld where
  "exampleRun = \<lparr>rw_store = snd (acquireLock (exampleDeps 1) ''r'' Claude emptyWorld),
     rw_contracts = [(''/s/runs/r'', mkContract [mkItem ''1'' [] []])],
     rw_ledgers = [(''/s/runs/r'', (mkLedger [mkEntry ''1'' InProgress])\<lparr>ll_run_id := ''r''\<rparr>)]\<rparr>"

definition exampleHold :: EnterHoldInput where
  "exampleHold = \<lparr>eh_runId = ''r'', eh_token = ''0'', eh_itemId = ''1'', eh_engine = Claude, eh_note = None,
     eh_logicalOperationId = Some ''lop-1''\<rparr>"

abbreviation examplePaused :: RunWorld where
  "examplePaused \<equiv> snd (pauseItem (exampleDeps 1) ''m'' exampleHold exampleRun)"

lemma example_engine: "engine_of ''/s'' (\<lambda>s. s) (exampleDeps 1)"
  by (simp add: engine_of_def exampleDeps_def resolveStateHome_def PIPELINE_STATE_HOME_ENV_def truthy_def Let_def)

lemma example_named: "runs_named (exampleDeps 1) exampleRun"
  using example_runDir [of 1] by (simp add: runs_named_def rec_wf_def rec_keys_def mkLedger_def mkEntry_def exampleRun_def)

lemma example_wf: "map_of (rw_ledgers exampleRun) dir = Some l \<Longrightarrow> ledger_wf l"
  by (auto simp: exampleRun_def ledger_wf_def mkLedger_def mkEntry_def item_wf_def verified_local remoteState_def chained_def attempts_wf_def attemptsOf_def
    rec_get_def rec_values_def split: if_splits)

lemma example_step: "run_step ''/s'' (\<lambda>s. s) exampleSeam exampleRun examplePaused"
  using run_step.mutate [OF example_engine mutation.pause] by blast

lemma example_paused:
  "map_option (\<lambda>l. itemState l ''1'') (map_of (rw_ledgers examplePaused) ''/s/runs/r'') = Some (Some Paused)"
  by code_simp

text \<open>C2: ledgers stay well formed in every run of the system. Whatever sequence of operations any
  processes perform (blocking, claiming, completing and recovering items, cooling, pausing, waiting,
  invalidating, abandoning and resuming holds, recording amendments, reconciling, catching up, giving
  items up or declaring them ready, lifting fatal stops, hand-overs, lock operations, with any arguments and any outcome), a ledger that was well formed stays well formed: each item's history
  is a connected walk ending in the item's state, a blocked item carries a blocker class, recovery
  budgets and repetition counts are never negative, an item in a remote state carries an observed
  identity that shows this state, and the recovery attempts are numbered 0, 1, 2, ... with pairwise
  different idempotency ids.\<close>

theorem run_ledgers_stay_well_formed:
  assumes "engine_of home sha d" "runs_named d w"
    and "\<forall>dir l. map_of (rw_ledgers w) dir = Some l \<longrightarrow> ledger_wf l"
    and "(run_step home sha ob)\<^sup>*\<^sup>* w w'" "map_of (rw_ledgers w') dir = Some b"
  shows "ledger_wf b"
proof -
  from run_steps_ledger [OF assms(4,1,2,5)] obtain a
    where a: "map_of (rw_ledgers w) dir = Some a" "(stored_step d (runPolicy w dir) (any_step ob sha))\<^sup>*\<^sup>* a b" by blast
  from a(2) show ?thesis
    by (induction rule: rtranclp_induct) (use a(1) assms(3) stored_step_wf in blast)+
qed

theorem run_ledgers_stay_well_formed_witness:
  "\<exists>b. map_of (rw_ledgers examplePaused) ''/s/runs/r'' = Some b \<and> itemState b ''1'' = Some Paused \<and> ledger_wf b"
proof -
  obtain b where b: "map_of (rw_ledgers examplePaused) ''/s/runs/r'' = Some b" "itemState b ''1'' = Some Paused"
    using example_paused by blast
  have "\<forall>dir l. map_of (rw_ledgers exampleRun) dir = Some l \<longrightarrow> ledger_wf l" using example_wf by blast
  from run_ledgers_stay_well_formed [OF example_engine example_named this r_into_rtranclp [of "run_step ''/s'' (\<lambda>s. s) exampleSeam", OF example_step] b(1)]
    b show ?thesis by blast
qed

text \<open>No operation of the system enters skipped, released or deployed: whoever is there was there.\<close>

lemma walk_closed:
  "walk moves s hs t \<Longrightarrow> t \<in> X \<Longrightarrow> (\<And>a b. (a, b) \<in> moves \<Longrightarrow> b \<in> X \<Longrightarrow> a = b) \<Longrightarrow> s = t"
  by (induction moves s hs t rule: walk.induct) auto

lemma all_moves_closed: "(a, b) \<in> ALL_MOVES \<Longrightarrow> b \<in> {Skipped, Released, Deployed} \<Longrightarrow> a = b"
  by (auto simp: ALL_MOVES_def RECOVERY_MOVES_def HOLD_MOVES_def OBSERVED_MOVES_def)

text \<open>C1: the engine refines the item machine. In any run of the operations of recovery, holds, amendments
  and reconciliation (any arguments), of the lock and the logs, and of transitionItem as the supervisor
  calls it (only to abandoned or ready), a ledger evolves by steps that change the state of at most one
  item, along these edges: in_progress to and from blocked, paused, waiting; paused or waiting to
  abandoned or pending; a state other than merged, released, deployed to pr_opened, ready or merged; a
  remote state (pr_opened, ready, merged, released, deployed) to pr_opened, ready, merged, in_progress or
  implemented; a local state but blocked, paused, waiting to in_progress; a local state to itself; a state
  but skipped to abandoned (which needs no observation) or ready. A step into a remote state stores an
  identity that shows it. No item appears or disappears, each history grows by exactly the walk from
  the old to the new state, and no item comes to be skipped, released or deployed.\<close>

theorem run_refines_item_machine:
  assumes "engine_of home sha d" "runs_named d w" "(run_step home sha ob)\<^sup>*\<^sup>* w w'" "map_of (rw_ledgers w') dir = Some b"
  shows "\<exists>a. map_of (rw_ledgers w) dir = Some a \<and> (ledger_spec ALL_MOVES)\<^sup>*\<^sup>* a b
    \<and> (\<forall>i item. rec_get (ll_items a) i = Some item \<longrightarrow> (\<exists>item' new. rec_get (ll_items b) i = Some item'
        \<and> le_history item' = le_history item @ new \<and> walk ALL_MOVES (le_state item) new (le_state item')
        \<and> (le_state item' \<in> {Skipped, Released, Deployed} \<longrightarrow> le_state item = le_state item')))"
proof -
  from run_steps_ledger [OF assms(3,1,2,4)] obtain a
    where a: "map_of (rw_ledgers w) dir = Some a" "(stored_step d (runPolicy w dir) (any_step ob sha))\<^sup>*\<^sup>* a b" by blast
  have spec: "(ledger_spec ALL_MOVES)\<^sup>*\<^sup>* a b"
    using a(2) by (induction rule: rtranclp_induct) (auto intro: rtranclp_trans stored_step_spec)
  show ?thesis
    using a(1) spec spec_walk [OF spec] walk_closed [OF _ _ all_moves_closed, where X = "{Skipped, Released, Deployed}"] by metis
qed

theorem run_refines_item_machine_witness:
  "\<exists>b item' new. map_of (rw_ledgers examplePaused) ''/s/runs/r'' = Some b \<and> rec_get (ll_items b) ''1'' = Some item'
    \<and> le_history item' = [] @ new \<and> walk ALL_MOVES InProgress new (le_state item')"
proof -
  obtain b where b: "map_of (rw_ledgers examplePaused) ''/s/runs/r'' = Some b" using example_paused by blast
  from run_refines_item_machine [OF example_engine example_named r_into_rtranclp [of "run_step ''/s'' (\<lambda>s. s) exampleSeam", OF example_step] b]
  obtain a where "map_of (rw_ledgers exampleRun) ''/s/runs/r'' = Some a"
    and all: "\<forall>i item. rec_get (ll_items a) i = Some item \<longrightarrow> (\<exists>item' new. rec_get (ll_items b) i = Some item'
        \<and> le_history item' = le_history item @ new \<and> walk ALL_MOVES (le_state item) new (le_state item'))" by metis
  then have "rec_get (ll_items a) ''1'' = Some (mkEntry ''1'' InProgress)"
    by (auto simp: exampleRun_def mkLedger_def mkEntry_def rec_get_def)
  with all b show ?thesis by (fastforce simp: mkEntry_def)
qed

section \<open>Merged means integrated\<close>

text \<open>The outside world answered that a pull request of the item's issue is merged into the base branch.\<close>

definition integration_proved :: "ReconcileObserveDeps \<Rightarrow> string \<Rightarrow> bool" where
  "integration_proved ob k \<longleftrightarrow> (\<exists>issue n. parseItemIssueNumber k = Inr issue \<and> integration_seen ob issue n)"

lemma target_merged:
  "verifiedForwardTarget i = Some Merged \<Longrightarrow> seenBy ob k i \<Longrightarrow> integration_proved ob k"
  by (auto simp: verifiedForwardTarget_def seenBy_def shown_def integration_proved_def split: if_splits)

lemma observed_merged:
  "observed_item (seenBy ob k) a b \<Longrightarrow> le_state b = Merged \<Longrightarrow> le_state a = Merged \<or> integration_proved ob k"
proof (induction rule: observed_item.induct)
  case (reconstruct i a time engine msg)
  then show ?case
    using target_merged [of i]
    by (auto simp: reconstructedEntry_def observedEntry_def reconstructedLocalState_def split: option.splits if_splits)
qed (auto simp: observedEntry_def reconstructedEntry_def intro: target_merged)

lemma spec_not_merged:
  assumes "ledger_spec moves l next" "\<And>s. (s, Merged) \<notin> moves" "itemState next k = Some Merged"
  shows "itemState l k = Some Merged"
proof -
  from assms(1) have "rel_option (item_spec moves) (rec_get (ll_items l) k) (rec_get (ll_items next) k)"
    by (simp add: ledger_spec_def)
  with assms(2,3) show ?thesis
    by (cases "rec_get (ll_items l) k"; cases "rec_get (ll_items next) k") (auto simp: itemState_def item_spec_def)
qed

lemma any_step_merged:
  assumes "any_step ob sha l next" "itemState next k = Some Merged"
  shows "itemState l k = Some Merged \<or> integration_proved ob k"
proof -
  have "itemState l k = Some Merged \<or> integration_proved ob k" if "observed_step (seenBy ob) l next"
  proof -
    obtain b where b: "rec_get (ll_items next) k = Some b" "le_state b = Merged" using assms(2) by (auto simp: itemState_def)
    have "rel_option (observed_item (seenBy ob k)) (rec_get (ll_items l) k) (Some b)"
      using that b(1) unfolding observed_step_def by (metis (no_types))
    then obtain a where "rec_get (ll_items l) k = Some a" "observed_item (seenBy ob k) a b" by (auto simp: option_rel_Some2)
    with b(2) observed_merged show ?thesis by (fastforce simp: itemState_def)
  qed
  moreover have "itemState l k = Some Merged" if "ledger_spec moves l next" "moves \<subseteq> RECOVERY_MOVES \<union> HOLD_MOVES" for moves
    by (rule spec_not_merged [OF that(1) _ assms(2)]) (use that(2) in \<open>auto simp: RECOVERY_MOVES_def HOLD_MOVES_def\<close>)
  ultimately show ?thesis
    using assms(1) recovery_step_spec hold_step_spec amend_step_keeps(1) supersede_step_keeps(1) [where moves = "{}"]
    unfolding any_step_def quiet_step_def by blast
qed

text \<open>A seam that shows a merged pull request of the exact implementation.\<close>

definition mergedSeam :: ReconcileObserveDeps where
  "mergedSeam = exampleSeam\<lparr>
     ob_getPrDetail := (\<lambda>_ _. Inr (Some \<lparr>pd_state = PrMerged, pd_head_ref = ''b'', pd_head_sha = ''c'', pd_merge_commit_sha = Some ''d'', pd_body = None\<rparr>)),
     ob_getPrArtifactBinding := Some (\<lambda>_ _ _. Inr \<lparr>ab_role = ImplementationRole, ab_artifactIdentity = Some ''x'', ab_candidateSha = Some ''c'',
       ab_candidateEpoch = Some ''c'', ab_logicalOperationId = None\<rparr>),
     ob_baseBranchContainsSha := (\<lambda>_ _. Inr (Some True))\<rparr>"

definition exampleReconcile :: ReconcileInput where
  "exampleReconcile = \<lparr>ri_runId = ''r'', ri_token = ''0'', ri_engine = Claude\<rparr>"

abbreviation exampleReconciled :: RunWorld where
  "exampleReconciled \<equiv> snd (reconcile (exampleDeps 1) mergedSeam ''m'' exampleReconcile exampleRun)"

text \<open>The reconciliation of the example run, step by step: the seam is read, the item is repaired forward, and
  the ledger is published under the lock.\<close>

definition mergedIdentity :: "int \<Rightarrow> LoopExternalIdentity" where
  "mergedIdentity t = \<lparr>ei_issue_number = 1, ei_issue_open = True, ei_ready_label_present = True, ei_blocked_label_present = False,
   ei_pr_number = Some 7, ei_pr_state = Some PrMerged, ei_head_branch = ''b'', ei_head_sha = ''c'', ei_merge_commit_sha = Some ''d'',
   ei_checks_conclusion = ChecksSuccess, ei_pipeline_stage = Some ''ready-to-deploy'', ei_observed_at = Iso t, ei_local_head_sha = None,
   ei_rebase_in_progress = Some False, ei_product_dirt = Some False, ei_integration_certainty = Some KnownComplete, ei_artifact_role = Some ImplementationRole,
   ei_artifact_identity = Some ''x'', ei_candidate_epoch = Some ''c'', ei_logical_candidate_epoch = None, ei_logical_operation_id = None,
   ei_expected_logical_operation_id = None, ei_linked_pr_numbers = Some [7]\<rparr>"

definition bump :: "nat \<Rightarrow> RunWorld \<Rightarrow> RunWorld" where
  "bump n w = w\<lparr>rw_store := rw_store w\<lparr>w_calls := w_calls (rw_store w) + n\<rparr>\<rparr>"

definition exampleLedger :: LoopLedger where
  "exampleLedger = (mkLedger [mkEntry ''1'' InProgress])\<lparr>ll_run_id := ''r''\<rparr>"

abbreviation mergedEntry :: "int \<Rightarrow> int \<Rightarrow> LoopItemLedgerEntry" where
  "mergedEntry t0 t \<equiv> observedEntry (Iso t0) Merged Claude (Some ''reconciliation repaired forward on verified external identity'')
     (Some (mergedIdentity t)) (mkEntry ''1'' InProgress)"

lemma wp_eq: "m w = (Inr x, w') \<Longrightarrow> Q x w' \<Longrightarrow> wp m Q E w"
  by (simp add: wp_def)

lemma example_values:
  "parseItemIssueNumber ''1'' = Inr 1" "isBlockedInLabels [READY_LABEL] = False"
  "pipelineStageFromLabels [READY_LABEL] = Some ''ready-to-deploy''" "deriveChecksConclusion [''pass''] = ChecksSuccess"
  "policyNeedsRebase JUndef = False"
  by code_simp+

lemma example_observed: "observeExternalIdentity mergedSeam ''1'' None w = (Inr (mergedIdentity (int (w_calls (rw_store w) + 7))), bump 8 w)"
  by (simp add: observeExternalIdentity_def example_values io_bind_def io_lift_def io_return_def observe_def on_store_def mergedSeam_def exampleSeam_def Let_def
    observeChosen_def projectPr_def choosePr_def io_catch_def linkedFact_def integrationSideEffectCertainty_def isExactLinkedImplementation_def trimLower_def trimmed_def js_trim_def js_lower_def mergedIdentity_def bump_def js_space_def ex_bool_eq)

lemma example_drift: "classifyDrift InProgress (mergedIdentity t) None = Some LedgerBehind" "verifiedForwardTarget (mergedIdentity t) = Some Merged"
  by (simp_all add: mergedIdentity_def classifyDrift_def verifiedForwardTarget_def REMOTE_PROVING_STATES_def exactImplementation_def trimmed_def js_trim_def js_lower_def js_space_def)

lemma example_read: "readRunLedger (exampleDeps 1) ''r'' exampleRun = (Inr exampleLedger, exampleRun)"
  by (simp add: readRunLedger_def io_bind_def io_lift_def example_runDir example_values exampleRun_def normalizeLedger_def exampleLedger_def mkLedger_def runPolicy_def mkContract_def Let_def)

lemma example_token: "\<exists>lock. requireToken (exampleDeps 1) ''r'' ''0'' (rw_store exampleRun) = (Inr lock, rw_store exampleRun)"
proof -
  have "\<not> isl (fst (requireToken (exampleDeps 1) ''r'' ''0'' (rw_store exampleRun)))" by code_simp
  then show ?thesis using requireToken_world by (metis isl_def prod.collapse sum.collapse)
qed

lemma example_entry: "le_state (mkEntry i s) = s" "le_last_verified_identity (mkEntry i s) = None" "le_id (mkEntry i s) = i"
  by (simp_all add: mkEntry_def)

lemma example_items: "\<exists>t0 t. reconcileItems (exampleDeps 1) mergedSeam exampleReconcile None (ll_items exampleLedger)
    \<lparr>rs_observed = [], rs_drift = [], rs_items = ll_items exampleLedger, rs_itemStateChanged = False, rs_observerProved = False\<rparr> exampleRun
  = (Inr \<lparr>rs_observed = [(''1'', mergedIdentity t)], rs_drift = [driftRecord ''1'' (mkEntry ''1'' InProgress) (mergedIdentity t) LedgerBehind],
      rs_items = [(''1'', mergedEntry t0 t)], rs_itemStateChanged = True, rs_observerProved = True\<rparr>, bump 9 exampleRun)"
  by (simp add: reconcileItem_def io_bind_def example_observed example_drift Let_def changedItem_def exampleLedger_def mkLedger_def io_return_def runNow_def on_store_def io_now_def bump_def
     OBSERVER_SUCCESS_STATES_def exampleReconcile_def rec_put_def rec_keys_def example_entry) blast

lemma example_held:
  assumes "world_grows exampleRun w"
  obtains lock where "requireToken (exampleDeps 1) ''r'' ''0'' (rw_store w) = (Inr lock, rw_store w)"
proof (cases "requireToken (exampleDeps 1) ''r'' ''0'' (rw_store w)")
  case (Pair r s)
  have "r \<noteq> Inl e" for e
    using Pair example_token requireToken_locks [of "rw_store exampleRun" "rw_store w" "exampleDeps 1" "''r''" "''0''" e s] assms
    by (auto simp: world_grows_def store_grows_def)
  with Pair that show thesis using requireToken_Inr [of "exampleDeps 1" "''r''" "''0''" "rw_store w"] by (cases r) auto
qed

lemma bump_grows: "world_grows w (bump n w)"
  by (simp add: bump_def world_grows_def store_grows_def)

lemma wp_example_write:
  assumes "world_grows exampleRun w" "ll_run_id next = ''r''" "itemState next i = Some s" "token = ''0''"
    and "\<And>w' lock. requireToken (exampleDeps 1) ''r'' ''0'' (rw_store w') = (Inr lock, rw_store w')
      \<Longrightarrow> \<exists>b. map_of (rw_ledgers w') ''/s/runs/r'' = Some b \<and> itemState b i = Some s \<Longrightarrow> wp k Q E w'"
  shows "wp (io_then (writeRunLedger (exampleDeps 1) next token) k) Q E w"
proof -
  obtain lock where lock: "requireToken (exampleDeps 1) ''r'' ''0'' (rw_store w) = (Inr lock, rw_store w)"
    using example_held [OF assms(1)] .
  have con: "map_of (rw_contracts w) ''/s/runs/r'' = Some (mkContract [mkItem ''1'' [] []])"
    "map_of (rw_ledgers w) ''/s/runs/r'' = Some exampleLedger" using assms(1) by (simp_all add: world_grows_def exampleRun_def exampleLedger_def)
  let ?n = "normalizeLedger (de_sha256 (exampleDeps 1)) (lc_recovery_policy (mkContract [mkItem ''1'' [] []])) next"
  have "writeRunLedger (exampleDeps 1) next token w = (Inr (), w\<lparr>rw_ledgers := AList.update ''/s/runs/r'' ?n (rw_ledgers w)\<rparr>)"
    using con lock assms(2,4)
    by (simp add: writeRunLedger_def Let_def io_then_def io_bind_def on_store_def readRunContract_def io_lift_def example_runDir
      waitBlocks_def quarantineOwned_def normalizeLedger_def exampleLedger_def mkLedger_def)
  then show ?thesis
    by (rule wp_then [OF wp_eq], intro assms(5)) (use lock assms(3) in \<open>auto simp: update_conv' itemState_def\<close>)
qed

lemma example_merged: "wp (reconcile (exampleDeps 1) mergedSeam mint exampleReconcile)
  (\<lambda>_ w'. \<exists>b. map_of (rw_ledgers w') ''/s/runs/r'' = Some b \<and> itemState b ''1'' = Some Merged) (\<lambda>_ _. False) exampleRun"
proof -
  obtain t0 t where items: "reconcileItems (exampleDeps 1) mergedSeam exampleReconcile None (ll_items exampleLedger)
      \<lparr>rs_observed = [], rs_drift = [], rs_items = ll_items exampleLedger, rs_itemStateChanged = False, rs_observerProved = False\<rparr> exampleRun
    = (Inr \<lparr>rs_observed = [(''1'', mergedIdentity t)], rs_drift = [driftRecord ''1'' (mkEntry ''1'' InProgress) (mergedIdentity t) LedgerBehind],
      rs_items = [(''1'', mergedEntry t0 t)], rs_itemStateChanged = True, rs_observerProved = True\<rparr>, bump 9 exampleRun)"
    using example_items by blast
  have none: "ll_stop exampleLedger = None" "ll_merge_barrier exampleLedger = None" "ll_lifecycle exampleLedger = None" "ll_run_id exampleLedger = ''r''" by (simp_all add: exampleLedger_def mkLedger_def)
  show ?thesis
    unfolding reconcile_def Let_def
    apply (rule wp_bind, rule wp_eq)
     apply (simp add: example_read exampleReconcile_def)
    apply (rule wp_if)
     apply (simp add: none)
    apply (rule wp_bind, rule wp_eq)
     apply (simp add: none items)
    apply (rule wp_bind, rule wp_eq)
     apply (simp add: clearedBarrier_def none io_return_def)
    apply (rule wp_bind, rule wp_lift)
     defer
     apply (simp add: rec_get_def)
    apply (rule wp_bind, rule wp_runNow)
    subgoal for acts t1 w1
      apply (rule wp_example_write [of w1 _ "''1''" Merged])
          apply (rule world_grows_trans, assumption, rule bump_grows)
         apply (simp add: none)
        apply (simp add: itemState_def rec_get_def observedEntry_def)
       apply (simp add: exampleReconcile_def)
      apply (auto intro!: wp_then wp_runEvent_held wp_return simp: none exampleReconcile_def world_grows_def)
      done
    done
qed

text \<open>C3: an item counts as merged only when its change is integrated. Over any run of the system (the
  operations of recovery, holds, amendments and reconciliation with any arguments, and transitionItem as the
  supervisor calls it, with the targets abandoned and ready only) an item becomes merged only if the outside
  world answered three questions: that a pull request belongs to the item's issue, that this pull request is
  merged, and that the base branch contains its merge commit. A call of transitionItem with the target
  merged is outside this system: the supervisor makes none, and such a call would ask only for a pull
  request in the state merged.\<close>

theorem merged_only_when_integrated:
  assumes "engine_of home sha d" "runs_named d w" "(run_step home sha ob)\<^sup>*\<^sup>* w w'"
    and "map_of (rw_ledgers w) dir = Some a" "itemState a k \<noteq> Some Merged"
    and "map_of (rw_ledgers w') dir = Some b" "itemState b k = Some Merged"
  shows "\<exists>issue n. parseItemIssueNumber k = Inr issue \<and> pr_linked ob issue n \<and> merge_contained ob n"
proof -
  have "(stored_step d (runPolicy w dir) (any_step ob sha))\<^sup>*\<^sup>* a b"
    using run_steps_ledger [OF assms(3,1,2,6)] assms(4) by simp
  then have "itemState a k = Some Merged \<or> integration_proved ob k"
    using assms(7)
  proof (induction rule: rtranclp_induct)
    case (step y z)
    then obtain n where "any_step ob sha (normalizeLedger (de_sha256 d) (runPolicy w dir) y) n" "itemState n k = Some Merged"
      by (auto simp: stored_step_def itemState_def)
    with any_step_merged step.IH show ?case by (fastforce simp: itemState_def)
  qed simp
  with assms(5) show ?thesis by (auto simp: integration_proved_def integration_seen_def)
qed

theorem merged_only_when_integrated_witness:
  "(\<exists>b. map_of (rw_ledgers exampleReconciled) ''/s/runs/r'' = Some b \<and> itemState b ''1'' = Some Merged)
    \<and> (\<exists>issue n. parseItemIssueNumber ''1'' = Inr issue \<and> pr_linked mergedSeam issue n \<and> merge_contained mergedSeam n)"
proof -
  obtain b where b: "map_of (rw_ledgers exampleReconciled) ''/s/runs/r'' = Some b" "itemState b ''1'' = Some Merged"
    using wpD [OF wp_mono [OF example_merged [of "''m''"]], of "\<lambda>w. \<exists>b. map_of (rw_ledgers w) ''/s/runs/r'' = Some b \<and> itemState b ''1'' = Some Merged"]
    by blast
  have step: "(run_step ''/s'' (\<lambda>s. s) mergedSeam)\<^sup>*\<^sup>* exampleRun exampleReconciled"
    using run_step.mutate [OF example_engine mutation.reconcile] by blast
  have "map_of (rw_ledgers exampleRun) ''/s/runs/r'' = Some ((mkLedger [mkEntry ''1'' InProgress])\<lparr>ll_run_id := ''r''\<rparr>)"
    "itemState ((mkLedger [mkEntry ''1'' InProgress])\<lparr>ll_run_id := ''r''\<rparr>) ''1'' \<noteq> Some Merged"
    by (simp_all add: exampleRun_def itemState_def mkLedger_def mkEntry_def rec_get_def)
  from merged_only_when_integrated [OF example_engine example_named step this b] b show ?thesis by blast
qed

section \<open>The lock\<close>



section \<open>Audited authority\<close>

text \<open>Every amendment a ledger carries has its decision in the run's decision log.\<close>

definition audit_entry :: "World \<Rightarrow> string \<Rightarrow> LoopAuthorityAmendment \<Rightarrow> bool" where
  "audit_entry s dir am \<longleftrightarrow> (\<exists>e. Written e \<in> set (orElse (map_of (w_logs s) (decisionsPath dir)) [])
     \<and> ev_kind e = ''loop_authority_amendment'' \<and> ev_data e = DataAmendment am)"

definition audited :: "RunWorld \<Rightarrow> bool" where
  "audited w \<longleftrightarrow> (\<forall>dir l am. map_of (rw_ledgers w) dir = Some l \<longrightarrow> am \<in> set (amendmentsOf l)
     \<longrightarrow> audit_entry (rw_store w) dir am)"

definition logs_grow :: "World \<Rightarrow> World \<Rightarrow> bool" where
  "logs_grow s s' \<longleftrightarrow> (\<forall>p. \<exists>new. orElse (map_of (w_logs s') p) [] = orElse (map_of (w_logs s) p) [] @ new)"

lemma logs_grow_audit: "logs_grow s s' \<Longrightarrow> audit_entry s dir am \<Longrightarrow> audit_entry s' dir am"
  unfolding logs_grow_def audit_entry_def by (metis UnCI set_append)

lemma store_grows_logs: "store_grows s s' \<Longrightarrow> logs_grow s s'"
  by (simp add: store_grows_def logs_grow_def)

lemma quiet_step_amendments: "quiet_step ob sha l next \<Longrightarrow> amendmentsOf next = amendmentsOf l"
  using recovery_step_amendments hold_step_amendments
  by (auto simp: quiet_step_def amendmentsOf_def observed_step_def supersede_step_def)

lemma amendmentsOf_normalize [simp]: "amendmentsOf (normalizeLedger sha pol l) = amendmentsOf l"
  by (simp add: amendmentsOf_def)

lemma quiet_audited:
  assumes "conforms (quiet_step ob sha) d runId token w w'" "audited w"
  shows "audited w'"
proof -
  have "amendmentsOf b = amendmentsOf a" if "(stored_step d pol (quiet_step ob sha))\<^sup>*\<^sup>* a b" for pol a b
    using that by (induction rule: rtranclp_induct) (auto simp: stored_step_def dest: quiet_step_amendments)
  moreover have "advances (quiet_step ob sha) d runId w w'" "store_grows (rw_store w) (rw_store w')"
    using assms(1) by (simp_all add: conforms_def advances_def)
  ultimately have "\<exists>a. map_of (rw_ledgers w) dir = Some a \<and> amendmentsOf b = amendmentsOf a"
    if "map_of (rw_ledgers w') dir = Some b" for dir b
    using advances_ledger [OF _ that] by blast
  with assms(2) logs_grow_audit [OF store_grows_logs [OF \<open>store_grows (rw_store w) (rw_store w')\<close>]] show ?thesis
    unfolding audited_def by metis
qed

lemma logs_grow_locks: "w_logs s' = w_logs s \<Longrightarrow> logs_grow s s'"
  by (simp add: logs_grow_def)

lemma acquireLock_logs: "w_logs (snd (acquireLock d runId engine s)) = w_logs s"
  by (auto simp: acquireLock_def io_bind_def io_simps Let_def createFileExclusive_def readLock_eq
    split: option.splits sum.splits)

lemma releaseLock_logs: "w_logs (snd (releaseLock d runId token s)) = w_logs s"
  using requireToken_world [of d runId token s]
  by (auto simp: releaseLock_def io_bind_def io_simps removeFileIfMatches_def split: prod.splits sum.splits)

lemma removeStaleLock_logs: "logs_grow s (snd (removeStaleLock d runId reason force l s))"
proof (cases "runDir d runId")
  case (Inr dir)
  show ?thesis
  proof (cases "map_of (w_locks s) (lockPath dir) = Some (Written l)")
    case True
    with Inr show ?thesis
      using store_grows_logs [OF grows_appendLog]
      by (auto simp: removeStaleLock_def io_bind_def io_simps removeFileIfMatches_def appendEventUnchecked_def
        appendLog_eq logs_grow_def update_conv')
  qed (use Inr in \<open>simp add: removeStaleLock_def io_bind_def io_simps removeFileIfMatches_def logs_grow_locks\<close>)
qed (simp add: removeStaleLock_def io_bind_def io_simps logs_grow_locks)

lemma recoverLock_logs: "logs_grow s (snd (recoverLock d runId reason force s))"
proof (cases "observeStaleLock d runId force s")
  case (Pair a s1)
  then have "s1 = s"
    by (auto simp: observeStaleLock_def io_bind_def readLock_eq io_simps split: sum.splits option.splits if_splits)
  with Pair show ?thesis
    using removeStaleLock_logs [of s d runId reason force]
    by (auto simp: recoverLock_def io_bind_def io_simps logs_grow_locks split: sum.splits option.splits)
qed

lemma handoff_logs: "logs_grow (rw_store w) (rw_store (snd (handoffRun d h w)))"
proof -
  have logs: "logs_grow (rw_store w) s'" if "world_grows w w'" "w_logs s' = w_logs (rw_store w')" for w' s'
    using that by (simp add: world_grows_def store_grows_def logs_grow_def)
  have released: "w_logs s' = w_logs s" if "releaseLock d (hi_runId h) (hi_token h) s = (r, s')" for s r s'
    using that releaseLock_logs by (metis snd_conv)
  have "wp (handoffRun d h) (\<lambda>_ w'. logs_grow (rw_store w) (rw_store w')) (\<lambda>_ w'. logs_grow (rw_store w) (rw_store w')) w"
    unfolding handoffRun_def
    by (intro wp_intros wp_on_store)
      (auto intro: logs [OF world_grows_trans] logs logs_grow_locks released)
  from wpD [OF this] show ?thesis .
qed

lemma on_store_world: "rw_store (snd (on_store m w)) = snd (m (rw_store w))"
  by (simp add: on_store_def split: prod.splits)

lemma lock_move_logs: "lock_move d w w' \<Longrightarrow> logs_grow (rw_store w) (rw_store w')"
proof (induction rule: lock_move.induct)
  case (handoff w h)
  show ?case by (rule handoff_logs)
qed (simp_all add: on_store_world logs_grow_locks acquireLock_logs releaseLock_logs recoverLock_logs
    store_grows_logs grows_guarded)

lemma audited_write:
  assumes "audited w" "map_of (rw_ledgers w) dir = Some l" "audit_entry (rw_store w) dir am"
    and "amendmentsOf n = amendmentsOf l @ [am]"
  shows "audited (w\<lparr>rw_ledgers := AList.update dir n (rw_ledgers w)\<rparr>)"
  using assms by (auto simp: audited_def update_conv')

lemma amend_audited:
  assumes "runs_named d w" "audited w"
  shows "audited (snd (recordAuthorityAmendment str d m w))"
proof -
  have keep: "audited w'" if "world_grows w w'" for w'
    using that assms(2) logs_grow_audit store_grows_logs unfolding audited_def world_grows_def by metis
  have "wp (recordAuthorityAmendment str d m) (\<lambda>_ w'. audited w') (\<lambda>_ w'. audited w') w"
    unfolding recordAuthorityAmendment_def Let_def
  proof (intro wp_bind wp_lift wp_prod wp_pauseLedger wp_runNow wp_then wp_return wp_runDecision_logged wp_writeRunLedger, goal_cases)
    case (1 x gate scope dir l t w1 w2 dir1 e dir2 c lock)
    then have d: "dir1 = dir" "dir2 = dir" using assms(1) by (auto simp: runs_named_def)
    have g: "world_grows w w2" using 1 world_grows_trans by blast
    show ?case
      unfolding d by (rule audited_write [OF keep [OF g], where l = l])
        (use 1 d world_grows_ledgers [OF g] in \<open>auto simp: audit_entry_def amendmentsOf_def upgradeLedgerForPauseAuthority_def\<close>)
  qed (auto intro: keep assms(2) world_grows_trans)
  from wpD [OF this] show ?thesis .
qed

text \<open>C12: no authority without its audit entry. In every run of the system that starts with audited
  ledgers, each authority amendment that any ledger ever carries has a decision of kind
  loop_authority_amendment in the run's decision log with exactly that amendment (the same gate, item,
  actor, reason and time); and every gate that \<open>authorizeGatedTransition\<close> opens beyond the contract's own
  grants is opened by an amendment of the ledger for this gate and item that is logged in this way.\<close>

theorem amendments_always_audited:
  assumes "engine_of home sha d" "runs_named d w" "audited w" "(run_step home sha ob)\<^sup>*\<^sup>* w w'"
    and "map_of (rw_ledgers w') dir = Some l"
  shows "(\<forall>am \<in> set (amendmentsOf l). audit_entry (rw_store w') dir am)
    \<and> (authorizeGatedTransition grants l gate itemId evidence = Inr () \<longrightarrow> gate \<in> set grants
      \<or> (\<exists>am \<in> set (amendmentsOf l). am_gate am = gate \<and> am_scope_item_id am = itemId \<and> audit_entry (rw_store w') dir am))"
proof -
  have "audited w' \<and> runs_named d w'"
    using assms(4)
  proof (induction rule: rtranclp_induct)
    case (step u v)
    from step.hyps(2) have "audited v"
    proof cases
      case (mutate e runId token)
      then have "runs_named e u" using step.IH assms(1) runs_named_home [of e d] by (simp add: engine_of_def)
      from mutation_cases [OF mutate(2) this] step.IH amend_audited [OF this] show ?thesis
        using quiet_audited by blast
    next
      case (lock e)
      from step.IH have "audited u" by blast
      then show ?thesis
        using logs_grow_audit [OF lock_move_logs [OF lock(2)]] lock_move_ledgers(1) [OF lock(2)] by (simp add: audited_def)
    qed
    then show ?case using run_step_named [OF step.hyps(2) assms(1)] step.IH by blast
  qed (use assms in simp)
  then show ?thesis
    using assms(5) by (auto simp: audited_def authorizeGatedTransition_def Let_def list_ex_iff split: if_splits)
qed

text \<open>The second engine's request for the merge gate of item 1, recorded under the lock.\<close>

definition exampleAmendment :: RecordAmendmentInput where
  "exampleAmendment = \<lparr>rm_runId = ''r'', rm_token = ''0'', rm_gate = JStr ''merge'', rm_scope_item_id = Some ''1'',
     rm_actor = ''alice'', rm_reason = ''approved''\<rparr>"

abbreviation exampleAmended :: RunWorld where
  "exampleAmended \<equiv> snd (recordAuthorityAmendment (\<lambda>_. []) (exampleDeps 1) exampleAmendment exampleRun)"

theorem amendments_always_audited_witness:
  "\<exists>l. map_of (rw_ledgers exampleAmended) ''/s/runs/r'' = Some l
    \<and> (\<exists>am \<in> set (amendmentsOf l). am_gate am = MergeGate \<and> am_scope_item_id am = ''1''
      \<and> audit_entry (rw_store exampleAmended) ''/s/runs/r'' am)"
proof -
  have "map_option (\<lambda>l. authorizeGatedTransition [] l MergeGate ''1'' (Some ''checks green''))
      (map_of (rw_ledgers exampleAmended) ''/s/runs/r'') = Some (Inr ())"
    by code_simp
  then obtain l where l: "map_of (rw_ledgers exampleAmended) ''/s/runs/r'' = Some l"
    "authorizeGatedTransition [] l MergeGate ''1'' (Some ''checks green'') = Inr ()" by blast
  have "audited exampleRun"
    by (auto simp: audited_def exampleRun_def mkLedger_def amendmentsOf_def split: if_splits)
  moreover have "run_step ''/s'' (\<lambda>s. s) exampleSeam exampleRun exampleAmended"
    using run_step.mutate [OF example_engine mutation.amend] by blast
  ultimately show ?thesis
    using amendments_always_audited [OF example_engine example_named _ r_into_rtranclp [of "run_step ''/s'' (\<lambda>s. s) exampleSeam"] l(1),
        of "[]" MergeGate "''1''" "Some ''checks green''"] l by auto
qed

end
