(* ===== verification/Spec2Isabelle.thy ===== *)
theory Spec2Isabelle
  imports Parallelization Schedule Dependencies Lock_Files Lock_Ownership Artifact_Binding Claim_Laws Native_Blockers Roadmap_Score Loop_Engine
begin

text \<open>
  \<^bold>\<open>A verification library for the durable loop engine of agent-pipeline.\<close>

  \<^bold>\<open>The program.\<close> The repository drives coding agents through a pipeline of stages. Its \<^emph>\<open>loop\<close> runs a
  whole work list unattended: a \<^emph>\<open>contract\<close> fixes the items and their dependencies, a \<^emph>\<open>ledger\<close> records
  the state of each item, and both live in a run directory with append-only event and decision logs
  and a lock file that names the engine in charge. The code is \<open>core/scripts/loop/\<close> with
  \<open>recovery-lifecycle-ownership.ts\<close>, \<open>logical-operation.ts\<close> and \<open>typed-request-resolution.ts\<close> beside
  it. An engine compiles the contract (\<open>dependencies.ts\<close>), takes the lock (\<open>store.ts\<close>), picks items
  that may run together (\<open>schedule.ts\<close>, \<open>ownership.ts\<close>), and moves items through blocked, paused,
  waiting and in-progress states (\<open>recovery.ts\<close>, \<open>pause.ts\<close>), with bounded recovery (\<open>recovery-episodes.ts\<close>,
  \<open>recovery-policy-compat.ts\<close>) and audited human authority. Before each cycle it reads GitHub and git and
  brings the ledger into line with them (\<open>reconcile.ts\<close>, \<open>precondition.ts\<close>).

  \<^bold>\<open>Theories and sources.\<close>
  \<^item> \<open>Js_Prelude\<close>: the JavaScript values the code is written in (\<open>jsval\<close>, records as association lists in
    insertion order, doubles as exact rationals with infinities and NaN, \<open>trim\<close>, \<open>join\<close>, timestamps), shared lemmas.
  \<^item> \<open>Loop_Types\<close>: the vocabularies and durable records of \<open>types.ts\<close>; one record per interface, one datatype per union.
  \<^item> \<open>Lifecycle\<close>: \<open>recovery-lifecycle-ownership.ts\<close>, \<open>logical-operation.ts\<close>.
  \<^item> \<open>Ownership\<close>: \<open>ownership.ts\<close>; glob overlap with its memo table, pairwise conflict verdicts.
  \<^item> \<open>Recovery_Policy\<close>, \<open>Recovery_Episodes\<close>, \<open>Recovery_Select\<close>: policy compilation and upgrade, strategy
    selection, episode accounting, claim identity, eligible items.
  \<^item> \<open>Contract_Compile\<close>, \<open>Dependencies\<close>: topological compilation, skip propagation, deadlock detection.
  \<^item> \<open>Dependency_Grammar\<close>, \<open>Work_List\<close>, \<open>Native_Blockers\<close>: \<open>declared-dependency-grammar.ts\<close> and \<open>work-list-deps.ts\<close>; how the
    dependencies of a work list are read from texts, GitHub and the roadmap, and which of them are waited for.
  \<^item> \<open>Task_Pool\<close>: \<open>roadmap/pool.ts\<close>; the workers that share one index into a list of tasks, one step per task that settles.
  \<^item> \<open>Roadmap_Graph\<close>, \<open>Roadmap_Score\<close>: \<open>roadmap/depgraph.ts\<close>, \<open>roadmap/score.ts\<close>; the planner that proposes the order of a
    backlog: dependency candidates, their verification by a harness, layers, scores and the ranked roadmap.
  \<^item> \<open>Schedule\<close>, \<open>Parallelization\<close>: the schedulable set with its rationale, the parallelization ledger.
  \<^item> \<open>Store_Base\<close>, \<open>Store_Documents\<close>: \<open>store.ts\<close>; run directories, logs with the in-process sequence cache,
    the lock under interleaved processes, shape checks, quarantine, reconstruction, atomic run creation.
  \<^item> \<open>Lock_Files\<close>: the implementation of the two lock primitives in \<open>defaultLoopStoreDeps\<close> (\<open>store.ts\<close>), one step per call of
    the file system, with every interleaving of any number of calls.
  \<^item> \<open>Loop_Run\<close>: the store as the mutating operations see it, the \<open>wp\<close> rules, the interface \<open>ledger_operation\<close>.
  \<^item> \<open>Ledger_Spec\<close>: the abstract item machine (\<open>item_spec\<close>, \<open>ledger_spec\<close>) and the well-formedness of a ledger.
  \<^item> \<open>Evidence_Text\<close>: the normalization of evidence text by the regular expressions of the source.
  \<^item> \<open>Recovery\<close>, \<open>Recovery_Claims\<close>: every operation of \<open>recovery.ts\<close> that changes a ledger; what a claim charges.
  \<^item> \<open>Typed_Requests\<close>, \<open>Pause\<close>, \<open>Pause_Laws\<close>: typed human requests and all of \<open>pause.ts\<close>; what a resume and
    a hand-over guarantee.
  \<^item> \<open>Precondition\<close>: \<open>precondition.ts\<close>; stages from labels, exclusions, label histories.
  \<^item> \<open>Observation\<close>: the integration facts of \<open>operation-observation.ts\<close>, and the observation of one item through the
    seam \<open>ReconcileObserveDeps\<close>.
  \<^item> \<open>Operation_Claims\<close>, \<open>Claim_Laws\<close>, \<open>Artifact_Binding\<close>: the claim store of \<open>operation-observation.ts\<close>, one step per call of the
    file system, its refinement to atomic decisions, and the marker in the body of a pull request.
  \<^item> \<open>Reconcile\<close>, \<open>Reconcile_Laws\<close>: \<open>reconcile.ts\<close>; drift, repair, next actions, transitions, and what they promise.
  \<^item> \<open>Run_Fatal\<close>: \<open>run-fatal-resume.ts\<close>; when a fatal stop may be lifted, and the write that lifts it.
  \<^item> \<open>Lock_Ownership\<close>: \<open>lock-ownership.ts\<close>; whether a lock belongs to a launcher, by a walk up the process tree.
  \<^item> \<open>Loop_Engine\<close>: all operations of all processes as one transition system.

  State is passed explicitly: an operation is a function from the world to a result (\<open>Inl\<close> an error with
  the class and message the code throws, \<open>Inr\<close> a value) and the next world. Loops are structural
  recursion over the list they walk; the propagation loop and the graph walks are functions with termination
  proofs, the regular-expression matcher recurses on the text. One definition takes fuel: \<open>chainFrom\<close>, the walk along
  superseding runs, whose loop in the code has no bound. Its fuel is the number of documents of the store plus two, and
  \<open>supersession_chain_resolves\<close> shows that it never runs out. The walk up the process tree is a partial function that is
  proved to return on every finite process table, the page loop of the blocking relation counts the bound of 50 pages
  the code has, and the pool consumes a list of events: it is shown that some events finish it, and what holds when it has finished.

  \<^bold>\<open>What is shown.\<close> Scheduling is safe, makes progress and explains every exclusion; ownership verdicts are
  sound and the memoized glob overlap equals its specification; compilation succeeds exactly on acyclic
  snapshots and orders them; skip propagation is the least fixpoint, and a run that can do nothing reports a deadlock; over the whole life of a
  recovery episode the started attempts of a strategy stay within its bound and the cursor only grows; persisted episodes
  are accepted only when their counters and cursor follow from their attempts.
  The lock is exclusive when the two primitives are atomic, as the interface of the store demands; with the primitives
  of the file system a holder loses its lock only to a creation that falls into the window of a late removal. Log numbers
  are dense while the process keeps its cache fresh, a ledger survives corruption of the published file, a run is created atomically. Over all
  operations: ledgers stay well formed, every change refines the item machine, nobody changes a ledger
  without the lock, no authority is granted without its audit entry, an item counts as merged only when
  the base branch contains its merge commit; a claim is charged once, a resume fails closed, a hand-over
  frees the run. A transition into a remote state needs live proof; one reconciliation pass settles an item;
  a run is found eligible for the lifting of a fatal stop only when it has such a stop and the items named are live and
  outstanding, and the evaluation changes nothing; a lock is taken for the launcher's
  own exactly when its process descends from it. The claim store, with its lock files and its
  compare-and-swap, refines atomic decisions under every interleaving in which no stale lock is reclaimed, and
  a call that nobody disturbs returns. A work list waits for exactly the declared open dependencies on it, is
  admitted only when every source answered, and its native blockers are those of every page up to the first that reports no successor.
  The roadmap ranks a prerequisite before its depender unless a cycle leads to the depender, and accounts for
  every dependency candidate, for every number of workers and every order in which their calls return.
  Several theorems record defects: sequence numbers repeat after a hand-over, two spellings of one file are
  judged disjoint, a run with several items never proves its siblings' success, a reconciliation pass aborts on
  a ledger behind its pull request without a target, two callers that reclaim one stale claim lock lose a
  completion, an unreadable claim file blocks its operation, a late removal takes the lock from its holder, and a
  blocking relation that GitHub leaves out counts as empty. Two divergences from the documents are stated with the code's
  behaviour: an item with one dead dependency is skipped although another is live, and a run directory without a ledger is
  a conflict for a second initialization, which does not complete it.

  \<^bold>\<open>Parameters.\<close> SHA-256, the clock, UUIDs and the minted operation id, \<open>Date\<close> printing and parsing of
  foreign strings, \<open>String()\<close> of arbitrary values, \<open>localeCompare\<close>, number printing, and the GitHub and git
  observers (functions of the number of the call, which may throw) are arguments of the definitions. Property lookups are own-key lookups. Doubles are exact rationals;
  no modelled path depends on rounding. Messages write two hyphens where the source has a dash and an ASCII
  arrow where it has an arrow.

  \<^bold>\<open>Not modelled.\<close> The file system behind \<open>LoopStoreDeps\<close> but for its lock primitives (the store is modelled over the
  documented contract of that interface), the supervisor, which drives child processes and timers, the progress views and log tailing, the
  implementation of the observers over the \<open>gh\<close> and \<open>git\<close> commands, the free-text resolution of human asks,
  the driver and the writeback of the roadmap planner, the stages of the pipeline, the command line and the
  harness adapters.
\<close>

end
